(* ===== verification/Portillia_Prelude.thy ===== *)
theory Portillia_Prelude
  imports Main "HOL-Library.Word" "HOL-Library.Multiset"
begin

text \<open>
  Shared vocabulary of the development: the C types the sources use, the parts of the C
  library they call (\<open>strcmp\<close>, \<open>strcasecmp\<close>, \<open>tolower\<close>, \<open>isspace\<close>, big-endian reads), the
  array idioms they repeat (bounded append, swap with the last element) and the generic
  lemmas the component theories rest on.

  Conventions. A \<open>char *\<close> that may be \<open>NULL\<close> is a \<open>cstring option\<close>; a C string is the list of
  its characters before the terminating NUL. A byte buffer is a \<open>byte list\<close>. \<open>time_t\<close> is an
  \<open>int\<close>; the clock values the sources read with \<open>time(NULL)\<close> are arguments of the model.
  The locale of the C library is the POSIX locale. Memory allocation is taken to succeed.
\<close>

unbundle bit_operations_syntax

named_theorems be_simps
  \<open>big-endian reads as arithmetic on natural numbers\<close>

named_theorems copy_simps
  \<open>what the deep-copy helpers do to each field\<close>

type_synonym byte = "8 word"
type_synonym cstring = string
type_synonym time_t = int

section \<open>Characters and strings of the C library\<close>

definition char_code :: "char \<Rightarrow> nat" where
  "char_code c = of_char c"

definition byte_isspace :: "byte \<Rightarrow> bool" where
  "byte_isspace b \<longleftrightarrow> b = 32 \<or> (9 \<le> b \<and> b \<le> 13)"

definition byte_tolower :: "byte \<Rightarrow> byte" where
  "byte_tolower b = (if 65 \<le> b \<and> b \<le> 90 then b + 32 else b)"

definition char_tolower :: "char \<Rightarrow> char" where
  "char_tolower c = (if 65 \<le> char_code c \<and> char_code c \<le> 90 then char_of (char_code c + 32) else c)"

definition char_isspace :: "char \<Rightarrow> bool" where
  "char_isspace c \<longleftrightarrow> char_code c = 32 \<or> (9 \<le> char_code c \<and> char_code c \<le> 13)"

definition str_tolower :: "cstring \<Rightarrow> cstring" where
  "str_tolower s = map char_tolower s"

definition strcasecmp_eq :: "cstring \<Rightarrow> cstring \<Rightarrow> bool" where
  "strcasecmp_eq a b \<longleftrightarrow> str_tolower a = str_tolower b"

text \<open>\<open>strcmp (a, b) < 0\<close>: the first difference decides, on unsigned characters, and a proper
  prefix is smaller.\<close>

fun strcmp_less :: "cstring \<Rightarrow> cstring \<Rightarrow> bool" where
  "strcmp_less [] [] = False"
| "strcmp_less [] (b # bs) = True"
| "strcmp_less (a # as) [] = False"
| "strcmp_less (a # as) (b # bs) =
     (if char_code a = char_code b then strcmp_less as bs else char_code a < char_code b)"

text \<open>\<open>s ? s : ""\<close>\<close>

definition or_empty :: "cstring option \<Rightarrow> cstring" where
  "or_empty p = (case p of None \<Rightarrow> [] | Some s \<Rightarrow> s)"

text \<open>\<open>s && s[0]\<close>\<close>

definition nonempty :: "cstring option \<Rightarrow> bool" where
  "nonempty p \<longleftrightarrow> or_empty p \<noteq> []"

text \<open>The C string held by a byte buffer: everything before the first NUL.\<close>

definition bytes_to_cstring :: "byte list \<Rightarrow> cstring" where
  "bytes_to_cstring bs = map (\<lambda>b. char_of (unat b)) (takeWhile (\<lambda>b. b \<noteq> 0) bs)"

lemma char_code_eq_iff [simp]: "char_code a = char_code b \<longleftrightarrow> a = b"
  by (simp add: char_code_def)

lemma char_code_less_256 [simp]: "char_code c < 256"
  by (simp add: char_code_def)

lemma strcmp_less_irrefl [simp]: "\<not> strcmp_less s s"
  by (induction s) auto

lemma strcmp_less_trans: "strcmp_less a b \<Longrightarrow> strcmp_less b c \<Longrightarrow> strcmp_less a c"
proof (induction a b arbitrary: c rule: strcmp_less.induct)
  case (2 b bs)
  then show ?case by (cases c) auto
next
  case (4 a as b bs)
  then show ?case by (cases c) (auto split: if_splits)
qed auto

lemma strcmp_less_linear: "strcmp_less a b \<or> a = b \<or> strcmp_less b a"
proof (induction a b rule: strcmp_less.induct)
  case (4 a as b bs)
  then show ?case
    using linorder_less_linear [of "char_code a" "char_code b"] by auto
qed auto

lemma strcmp_less_asym: "strcmp_less a b \<Longrightarrow> \<not> strcmp_less b a"
  using strcmp_less_irrefl strcmp_less_trans by blast

lemma or_empty_simps [simp]: "or_empty None = []" "or_empty (Some s) = s"
  by (simp_all add: or_empty_def)

lemma nonempty_simps [simp]: "\<not> nonempty None" "nonempty (Some s) \<longleftrightarrow> s \<noteq> []"
  by (simp_all add: nonempty_def)

lemma char_code_char_of: "n < 256 \<Longrightarrow> char_code (char_of n) = n"
  by (simp add: char_code_def take_bit_eq_mod)

lemma char_tolower_idem [simp]: "char_tolower (char_tolower c) = char_tolower c"
  by (auto simp: char_tolower_def char_code_char_of)

lemma str_tolower_idem [simp]: "str_tolower (str_tolower s) = str_tolower s"
  by (simp add: str_tolower_def comp_def)

lemma str_tolower_Nil_iff [simp]: "str_tolower s = [] \<longleftrightarrow> s = []"
  by (simp add: str_tolower_def)

lemma strcasecmp_eq_refl [simp]: "strcasecmp_eq s s"
  by (simp add: strcasecmp_eq_def)

lemma byte_tolower_idem [simp]: "byte_tolower (byte_tolower b) = byte_tolower b"
proof (cases "65 \<le> b \<and> b \<le> 90")
  case True
  then have "65 \<le> unat b" "unat b \<le> 90" by (simp_all add: word_le_nat_alt)
  then have "unat (b + 32) = unat b + 32" by (simp add: unat_word_ariths)
  then have "\<not> b + 32 \<le> 90" using \<open>65 \<le> unat b\<close> by (simp add: word_le_nat_alt)
  then show ?thesis using True by (simp add: byte_tolower_def)
qed (auto simp: byte_tolower_def)

section \<open>Big-endian reads\<close>

text \<open>\<open>(p[0] << 8) | p[1]\<close> and \<open>(p[0] << 16) | (p[1] << 8) | p[2]\<close>\<close>

definition be16 :: "byte \<Rightarrow> byte \<Rightarrow> nat" where
  "be16 a b = push_bit 8 (unat a) OR unat b"

definition be24 :: "byte \<Rightarrow> byte \<Rightarrow> byte \<Rightarrow> nat" where
  "be24 a b c = push_bit 16 (unat a) OR push_bit 8 (unat b) OR unat c"

lemma byte_less [simp]: "unat (b :: byte) < 256"
  using unsigned_less [of b, where 'a = nat] by simp

lemma push_bit_and_small:
  assumes "(y :: nat) < 2 ^ n"
  shows "push_bit n x AND y = 0"
proof (rule bit_eqI)
  fix k
  have "take_bit n y = y" using assms by (simp add: take_bit_nat_eq_self)
  then have "bit y k \<longrightarrow> k < n" by (metis bit_take_bit_iff)
  then show "bit (push_bit n x AND y) k \<longleftrightarrow> bit (0 :: nat) k"
    by (auto simp: bit_and_iff bit_push_bit_iff)
qed

lemma push_bit_or_add: "(y :: nat) < 2 ^ n \<Longrightarrow> push_bit n x OR y = x * 2 ^ n + y"
  using disjunctive_add_eq_or [OF push_bit_and_small, of y n x]
  by (simp add: push_bit_eq_mult)

lemma be16_eq [be_simps]: "be16 a b = unat a * 256 + unat b"
  using push_bit_or_add [of "unat b" 8 "unat a"] by (simp add: be16_def)

lemma be24_eq [be_simps]: "be24 a b c = unat a * 65536 + unat b * 256 + unat c"
proof -
  have low: "push_bit 8 (unat b) OR unat c = unat b * 256 + unat c"
    using push_bit_or_add [of "unat c" 8 "unat b"] by simp
  have "unat b * 256 + unat c < 65536"
    using byte_less [of b] byte_less [of c] by linarith
  then have "push_bit 16 (unat a) OR (unat b * 256 + unat c) = unat a * 65536 + (unat b * 256 + unat c)"
    using push_bit_or_add [of "unat b * 256 + unat c" 16 "unat a"] by simp
  then show ?thesis by (simp add: be24_def low)
qed

lemma be16_less [simp]: "be16 a b < 65536"
  using byte_less [of a] byte_less [of b] unfolding be16_eq by linarith

lemma be24_less [simp]: "be24 a b c < 16777216"
  using byte_less [of a] byte_less [of b] byte_less [of c] unfolding be24_eq by linarith

section \<open>Array idioms\<close>

text \<open>\<open>arr[i] = arr[--count]\<close>: drop an element by moving the last one into its place.\<close>

definition swap_remove :: "nat \<Rightarrow> 'a list \<Rightarrow> 'a list" where
  "swap_remove i xs = butlast (xs[i := last xs])"

text \<open>\<open>arr[i] = x\<close> where \<open>i\<close> may be the first free slot of the array.\<close>

definition arr_put :: "'a list \<Rightarrow> nat \<Rightarrow> 'a \<Rightarrow> 'a list" where
  "arr_put xs i x = (if i < length xs then xs[i := x] else xs @ [x])"

text \<open>The index of the first element with a property: a \<open>for\<close> loop that breaks.\<close>

fun first_index :: "('a \<Rightarrow> bool) \<Rightarrow> 'a list \<Rightarrow> nat option" where
  "first_index P [] = None"
| "first_index P (x # xs) = (if P x then Some 0 else map_option Suc (first_index P xs))"

lemma first_index_Some:
  "first_index P xs = Some i \<Longrightarrow> i < length xs \<and> P (xs ! i) \<and> (\<forall>j < i. \<not> P (xs ! j))"
proof (induction xs arbitrary: i)
  case (Cons x xs)
  show ?case
  proof (cases "P x")
    case False
    with Cons obtain k where "first_index P xs = Some k" "i = Suc k" by auto
    with Cons.IH [of k] False show ?thesis by (auto simp: less_Suc_eq_0_disj)
  qed (use Cons in auto)
qed simp

lemma first_index_None: "first_index P xs = None \<longleftrightarrow> (\<forall>x \<in> set xs. \<not> P x)"
  by (induction xs) auto

lemma find_eq_first_index: "find P xs = map_option ((!) xs) (first_index P xs)"
  by (induction xs) (auto simp: option.map_comp comp_def)

lemma find_Some_split:
  "find P xs = Some x \<Longrightarrow> \<exists>pre post. xs = pre @ x # post \<and> P x \<and> (\<forall>y \<in> set pre. \<not> P y)"
proof (induction xs)
  case (Cons a xs)
  show ?case
  proof (cases "P a")
    case False
    with Cons obtain pre post where "xs = pre @ x # post" "P x" "\<forall>y \<in> set pre. \<not> P y" by auto
    with False show ?thesis by (intro exI [of _ "a # pre"] exI [of _ post]) simp
  next
    case True
    with Cons.prems show ?thesis by (intro exI [of _ "[]"] exI [of _ xs]) simp
  qed
qed simp

lemma length_swap_remove [simp]: "length (swap_remove i xs) = length xs - 1"
  by (simp add: swap_remove_def)

lemma mset_swap_remove:
  assumes "i < length xs"
  shows "mset (swap_remove i xs) = mset xs - {#xs ! i#}"
proof (cases xs rule: rev_cases)
  case (snoc ys y)
  show ?thesis
  proof (cases "i < length ys")
    case True
    then have "swap_remove i xs = ys[i := y]"
      using snoc by (simp add: swap_remove_def list_update_append)
    then show ?thesis
      using True snoc by (simp add: mset_update nth_append add.commute)
  next
    case False
    with assms snoc have "i = length ys" by simp
    then show ?thesis using snoc by (simp add: swap_remove_def)
  qed
qed (use assms in simp)

lemma set_swap_remove_subset: "i < length xs \<Longrightarrow> set (swap_remove i xs) \<subseteq> set xs"
  by (metis mset_swap_remove in_diffD set_mset_mset subsetI)

lemma mset_eq_Cons_swap_remove:
  "i < length xs \<Longrightarrow> mset (xs ! i # swap_remove i xs) = mset xs"
  by (simp add: mset_swap_remove)

lemma distinct_Cons_swap_remove:
  "i < length xs \<Longrightarrow> distinct xs \<longleftrightarrow> distinct (xs ! i # swap_remove i xs)"
  by (metis mset_eq_Cons_swap_remove mset_eq_imp_distinct_iff)

lemma distinct_swap_remove: "i < length xs \<Longrightarrow> distinct xs \<Longrightarrow> distinct (swap_remove i xs)"
  by (simp add: distinct_Cons_swap_remove)

lemma set_Cons_swap_remove: "i < length xs \<Longrightarrow> set xs = insert (xs ! i) (set (swap_remove i xs))"
  by (metis mset_eq_Cons_swap_remove mset_eq_setD list.simps(15))

lemma set_swap_remove_distinct:
  assumes "i < length xs" "distinct xs"
  shows "set (swap_remove i xs) = set xs - {xs ! i}"
  using assms distinct_Cons_swap_remove [of i xs] set_Cons_swap_remove [of i xs] by auto

lemma nth_swap_remove:
  "i < length xs \<Longrightarrow> j < length xs - 1 \<Longrightarrow>
   swap_remove i xs ! j = (if j = i then last xs else xs ! j)"
  by (simp add: swap_remove_def nth_butlast nth_list_update)

end
