(* ===== verification/Portal_Types.thy ===== *)
theory Portal_Types
  imports Portillia_Prelude Complex_Main
begin

text \<open>
  The data structures of \<^verbatim>\<open>include/portillia/types/types.h\<close> that the relay, the discovery set
  and the SDK pass around, with the lifecycle helpers of \<^verbatim>\<open>src/types/types.c\<close>: \<open>init\<close> and
  \<open>cleanup\<close> give the all-zero object, \<open>copy\<close> is a field-by-field deep copy into a cleaned
  destination. A \<open>char **\<close> array with its count is kept as the two fields the C struct has, so
  that a \<open>NULL\<close> array with a positive count, which \<open>copy\<close> normalises, is a value of the model.
  C \<open>double\<close> fields are \<open>real\<close>. The second half models the manifest reader
  \<open>portillia_manifest_init\<close>.
\<close>

section \<open>Structures\<close>

record portillia_identity =
  id_name :: "cstring option"
  id_address :: "cstring option"
  id_public_key :: "cstring option"
  id_private_key :: "cstring option"

record portillia_lease_metadata =
  m_description :: "cstring option"
  m_owner :: "cstring option"
  m_thumbnail :: "cstring option"
  m_tags :: "cstring option list option"
  m_tags_count :: nat
  m_hide :: bool

record portillia_lease =
  l_name :: "cstring option"
  l_hostname :: "cstring option"
  l_expires_at :: time_t
  l_first_seen_at :: time_t
  l_last_seen_at :: time_t
  l_udp_enabled :: bool
  l_tcp_enabled :: bool
  l_tcp_addr :: "cstring option"
  l_metadata :: portillia_lease_metadata
  l_ready :: int
  l_client_ip :: "cstring option"
  l_reported_ip :: "cstring option"
  l_hostname_hash :: "cstring option"
  l_hop_token :: "cstring option"
  l_hop_next_overlay_ipv4 :: "cstring option"
  l_hop_next_token :: "cstring option"

record portillia_relay_descriptor =
  d_address :: "cstring option"
  d_version :: "cstring option"
  d_sequence :: "64 word"
  d_version_val :: "32 word"
  d_issued_at :: time_t
  d_expires_at :: time_t
  d_api_https_addr :: "cstring option"
  d_wireguard_public_key :: "cstring option"
  d_wireguard_port :: int
  d_overlay_ipv4 :: "cstring option"
  d_overlay_cidrs :: "cstring option list option"
  d_overlay_cidrs_count :: nat
  d_supports_overlay :: bool
  d_supports_overlay_peer :: bool
  d_supports_udp :: bool
  d_supports_tcp :: bool
  d_active_connections :: int
  d_tcp_bps :: real
  d_load :: real
  d_load_score :: real
  d_last_updated :: int
  d_signature :: "cstring option"

record portillia_datagram_frame =
  f_flow_id :: "32 word"
  f_payload :: "byte list option"
  f_payload_len :: nat
  f_address :: "cstring option"
  f_relay_url :: "cstring option"
  f_udp_addr :: "cstring option"

record portillia_hop_route =
  h_owner_public_key :: "cstring option"
  h_relay_url :: "cstring option"
  h_public_hostname :: "cstring option"
  h_route_hostname :: "cstring option"
  h_hostname_hash :: "cstring option"
  h_match_token :: "cstring option"
  h_metadata :: portillia_lease_metadata
  h_forward_relay :: portillia_relay_descriptor
  h_forward_token :: "cstring option"
  h_first_seen_at :: time_t
  h_expires_at :: time_t
  h_signature :: "cstring option"

section \<open>Init and cleanup: the all-zero object\<close>

definition portillia_identity_init :: portillia_identity where
  "portillia_identity_init =
     \<lparr>id_name = None, id_address = None, id_public_key = None, id_private_key = None\<rparr>"

definition portillia_identity_cleanup :: "portillia_identity \<Rightarrow> portillia_identity" where
  "portillia_identity_cleanup _ = portillia_identity_init"

definition portillia_lease_metadata_init :: portillia_lease_metadata where
  "portillia_lease_metadata_init =
     \<lparr>m_description = None, m_owner = None, m_thumbnail = None, m_tags = None,
      m_tags_count = 0, m_hide = False\<rparr>"

definition portillia_lease_metadata_cleanup ::
  "portillia_lease_metadata \<Rightarrow> portillia_lease_metadata" where
  "portillia_lease_metadata_cleanup _ = portillia_lease_metadata_init"

definition portillia_lease_init :: portillia_lease where
  "portillia_lease_init =
     \<lparr>l_name = None, l_hostname = None, l_expires_at = 0, l_first_seen_at = 0,
      l_last_seen_at = 0, l_udp_enabled = False, l_tcp_enabled = False, l_tcp_addr = None,
      l_metadata = portillia_lease_metadata_init, l_ready = 0, l_client_ip = None,
      l_reported_ip = None, l_hostname_hash = None, l_hop_token = None,
      l_hop_next_overlay_ipv4 = None, l_hop_next_token = None\<rparr>"

definition portillia_lease_cleanup :: "portillia_lease \<Rightarrow> portillia_lease" where
  "portillia_lease_cleanup _ = portillia_lease_init"

definition portillia_relay_descriptor_init :: portillia_relay_descriptor where
  "portillia_relay_descriptor_init =
     \<lparr>d_address = None, d_version = None, d_sequence = 0, d_version_val = 0, d_issued_at = 0,
      d_expires_at = 0, d_api_https_addr = None, d_wireguard_public_key = None,
      d_wireguard_port = 0, d_overlay_ipv4 = None, d_overlay_cidrs = None,
      d_overlay_cidrs_count = 0, d_supports_overlay = False, d_supports_overlay_peer = False,
      d_supports_udp = False, d_supports_tcp = False, d_active_connections = 0, d_tcp_bps = 0,
      d_load = 0, d_load_score = 0, d_last_updated = 0, d_signature = None\<rparr>"

definition portillia_relay_descriptor_cleanup ::
  "portillia_relay_descriptor \<Rightarrow> portillia_relay_descriptor" where
  "portillia_relay_descriptor_cleanup _ = portillia_relay_descriptor_init"

definition portillia_datagram_frame_init :: portillia_datagram_frame where
  "portillia_datagram_frame_init =
     \<lparr>f_flow_id = 0, f_payload = None, f_payload_len = 0, f_address = None,
      f_relay_url = None, f_udp_addr = None\<rparr>"

definition portillia_datagram_frame_cleanup ::
  "portillia_datagram_frame \<Rightarrow> portillia_datagram_frame" where
  "portillia_datagram_frame_cleanup _ = portillia_datagram_frame_init"

definition portillia_hop_route_init :: portillia_hop_route where
  "portillia_hop_route_init =
     \<lparr>h_owner_public_key = None, h_relay_url = None, h_public_hostname = None,
      h_route_hostname = None, h_hostname_hash = None, h_match_token = None,
      h_metadata = portillia_lease_metadata_init,
      h_forward_relay = portillia_relay_descriptor_init, h_forward_token = None,
      h_first_seen_at = 0, h_expires_at = 0, h_signature = None\<rparr>"

definition portillia_hop_route_cleanup :: "portillia_hop_route \<Rightarrow> portillia_hop_route" where
  "portillia_hop_route_cleanup _ = portillia_hop_route_init"

section \<open>Deep copies\<close>

text \<open>\<open>if (src->p) dst->p = portillia_gc_strdup(src->p);\<close>\<close>

definition dup_into :: "'a option \<Rightarrow> 'a option \<Rightarrow> 'a option" where
  "dup_into dst src = (case src of None \<Rightarrow> dst | Some s \<Rightarrow> Some s)"

text \<open>The guarded array copy: nothing happens unless the count is positive and the array is
  there; then \<open>count\<close> entries are duplicated one by one.\<close>

definition dup_array :: "'a list option \<times> nat \<Rightarrow> 'a list option \<Rightarrow> nat \<Rightarrow> 'a list option \<times> nat" where
  "dup_array dst arr n =
     (case arr of None \<Rightarrow> dst | Some xs \<Rightarrow> if 0 < n then (Some (take n xs), n) else dst)"

definition portillia_identity_copy ::
  "portillia_identity \<Rightarrow> portillia_identity \<Rightarrow> portillia_identity" where
  "portillia_identity_copy dst src =
     (let d = portillia_identity_cleanup dst
      in d\<lparr>id_name := dup_into (id_name d) (id_name src),
           id_address := dup_into (id_address d) (id_address src),
           id_public_key := dup_into (id_public_key d) (id_public_key src),
           id_private_key := dup_into (id_private_key d) (id_private_key src)\<rparr>)"

definition portillia_lease_metadata_copy ::
  "portillia_lease_metadata \<Rightarrow> portillia_lease_metadata \<Rightarrow> portillia_lease_metadata" where
  "portillia_lease_metadata_copy dst src =
     (let d = portillia_lease_metadata_cleanup dst;
          (tags, n) = dup_array (m_tags d, m_tags_count d) (m_tags src) (m_tags_count src)
      in d\<lparr>m_description := dup_into (m_description d) (m_description src),
           m_owner := dup_into (m_owner d) (m_owner src),
           m_thumbnail := dup_into (m_thumbnail d) (m_thumbnail src),
           m_hide := m_hide src,
           m_tags := tags,
           m_tags_count := n\<rparr>)"

definition portillia_lease_copy :: "portillia_lease \<Rightarrow> portillia_lease \<Rightarrow> portillia_lease" where
  "portillia_lease_copy dst src =
     (let d = portillia_lease_cleanup dst
      in d\<lparr>l_name := dup_into (l_name d) (l_name src),
           l_hostname := dup_into (l_hostname d) (l_hostname src),
           l_expires_at := l_expires_at src,
           l_first_seen_at := l_first_seen_at src,
           l_last_seen_at := l_last_seen_at src,
           l_udp_enabled := l_udp_enabled src,
           l_tcp_enabled := l_tcp_enabled src,
           l_tcp_addr := dup_into (l_tcp_addr d) (l_tcp_addr src),
           l_client_ip := dup_into (l_client_ip d) (l_client_ip src),
           l_reported_ip := dup_into (l_reported_ip d) (l_reported_ip src),
           l_hostname_hash := dup_into (l_hostname_hash d) (l_hostname_hash src),
           l_metadata := portillia_lease_metadata_copy (l_metadata d) (l_metadata src),
           l_ready := l_ready src,
           l_hop_token := dup_into (l_hop_token d) (l_hop_token src),
           l_hop_next_overlay_ipv4 :=
             dup_into (l_hop_next_overlay_ipv4 d) (l_hop_next_overlay_ipv4 src),
           l_hop_next_token := dup_into (l_hop_next_token d) (l_hop_next_token src)\<rparr>)"

definition portillia_relay_descriptor_copy ::
  "portillia_relay_descriptor \<Rightarrow> portillia_relay_descriptor \<Rightarrow> portillia_relay_descriptor" where
  "portillia_relay_descriptor_copy dst src =
     (let d = portillia_relay_descriptor_cleanup dst;
          (cidrs, n) = dup_array (d_overlay_cidrs d, d_overlay_cidrs_count d)
                         (d_overlay_cidrs src) (d_overlay_cidrs_count src)
      in d\<lparr>d_address := dup_into (d_address d) (d_address src),
           d_version := dup_into (d_version d) (d_version src),
           d_sequence := d_sequence src,
           d_version_val := d_version_val src,
           d_issued_at := d_issued_at src,
           d_expires_at := d_expires_at src,
           d_api_https_addr := dup_into (d_api_https_addr d) (d_api_https_addr src),
           d_wireguard_public_key :=
             dup_into (d_wireguard_public_key d) (d_wireguard_public_key src),
           d_wireguard_port := d_wireguard_port src,
           d_overlay_ipv4 := dup_into (d_overlay_ipv4 d) (d_overlay_ipv4 src),
           d_overlay_cidrs := cidrs,
           d_overlay_cidrs_count := n,
           d_supports_overlay := d_supports_overlay src,
           d_supports_overlay_peer := d_supports_overlay_peer src,
           d_supports_udp := d_supports_udp src,
           d_supports_tcp := d_supports_tcp src,
           d_active_connections := d_active_connections src,
           d_tcp_bps := d_tcp_bps src,
           d_load := d_load src,
           d_load_score := d_load_score src,
           d_last_updated := d_last_updated src,
           d_signature := dup_into (d_signature d) (d_signature src)\<rparr>)"

definition portillia_datagram_frame_copy ::
  "portillia_datagram_frame \<Rightarrow> portillia_datagram_frame \<Rightarrow> portillia_datagram_frame" where
  "portillia_datagram_frame_copy dst src =
     (let d = portillia_datagram_frame_cleanup dst;
          (payload, n) = dup_array (f_payload d, f_payload_len d)
                           (f_payload src) (f_payload_len src)
      in d\<lparr>f_flow_id := f_flow_id src,
           f_payload := payload,
           f_payload_len := n,
           f_address := dup_into (f_address d) (f_address src),
           f_relay_url := dup_into (f_relay_url d) (f_relay_url src),
           f_udp_addr := dup_into (f_udp_addr d) (f_udp_addr src)\<rparr>)"

definition portillia_hop_route_copy ::
  "portillia_hop_route \<Rightarrow> portillia_hop_route \<Rightarrow> portillia_hop_route" where
  "portillia_hop_route_copy dst src =
     (let d = portillia_hop_route_cleanup dst
      in d\<lparr>h_owner_public_key := dup_into (h_owner_public_key d) (h_owner_public_key src),
           h_relay_url := dup_into (h_relay_url d) (h_relay_url src),
           h_public_hostname := dup_into (h_public_hostname d) (h_public_hostname src),
           h_route_hostname := dup_into (h_route_hostname d) (h_route_hostname src),
           h_hostname_hash := dup_into (h_hostname_hash d) (h_hostname_hash src),
           h_match_token := dup_into (h_match_token d) (h_match_token src),
           h_metadata := portillia_lease_metadata_copy (h_metadata d) (h_metadata src),
           h_forward_relay :=
             portillia_relay_descriptor_copy (h_forward_relay d) (h_forward_relay src),
           h_forward_token := dup_into (h_forward_token d) (h_forward_token src),
           h_first_seen_at := h_first_seen_at src,
           h_expires_at := h_expires_at src,
           h_signature := dup_into (h_signature d) (h_signature src)\<rparr>)"

section \<open>What a deep copy preserves\<close>

text \<open>A counted array is consistent when a \<open>NULL\<close> array has count 0 and any other array has
  exactly \<open>count > 0\<close> entries.\<close>

definition wf_array :: "'a list option \<Rightarrow> nat \<Rightarrow> bool" where
  "wf_array arr n \<longleftrightarrow> (case arr of None \<Rightarrow> n = 0 | Some xs \<Rightarrow> 0 < n \<and> length xs = n)"

definition wf_metadata :: "portillia_lease_metadata \<Rightarrow> bool" where
  "wf_metadata m \<longleftrightarrow> wf_array (m_tags m) (m_tags_count m)"

definition wf_lease :: "portillia_lease \<Rightarrow> bool" where
  "wf_lease l \<longleftrightarrow> wf_metadata (l_metadata l)"

definition wf_descriptor :: "portillia_relay_descriptor \<Rightarrow> bool" where
  "wf_descriptor d \<longleftrightarrow> wf_array (d_overlay_cidrs d) (d_overlay_cidrs_count d)"

definition wf_frame :: "portillia_datagram_frame \<Rightarrow> bool" where
  "wf_frame f \<longleftrightarrow> wf_array (f_payload f) (f_payload_len f)"

definition wf_hop_route :: "portillia_hop_route \<Rightarrow> bool" where
  "wf_hop_route r \<longleftrightarrow> wf_metadata (h_metadata r) \<and> wf_descriptor (h_forward_relay r)"

lemma dup_into_None [copy_simps]: "dup_into None s = s"
  by (simp add: dup_into_def split: option.splits)

lemma dup_array_wf [copy_simps]: "wf_array arr n \<Longrightarrow> dup_array (None, 0) arr n = (arr, n)"
  by (auto simp: dup_array_def wf_array_def split: option.splits)

lemmas cleanup_defs =
  portillia_identity_cleanup_def portillia_identity_init_def
  portillia_lease_metadata_cleanup_def portillia_lease_metadata_init_def
  portillia_lease_cleanup_def portillia_lease_init_def
  portillia_relay_descriptor_cleanup_def portillia_relay_descriptor_init_def
  portillia_datagram_frame_cleanup_def portillia_datagram_frame_init_def
  portillia_hop_route_cleanup_def portillia_hop_route_init_def

lemma identity_copy_eq [copy_simps]: "portillia_identity_copy dst src = src"
  by (simp add: portillia_identity_copy_def cleanup_defs copy_simps)

lemma metadata_copy_eq [copy_simps]:
  "wf_metadata src \<Longrightarrow> portillia_lease_metadata_copy dst src = src"
  by (simp add: portillia_lease_metadata_copy_def cleanup_defs copy_simps wf_metadata_def)

lemma descriptor_copy_eq [copy_simps]:
  "wf_descriptor src \<Longrightarrow> portillia_relay_descriptor_copy dst src = src"
  by (simp add: portillia_relay_descriptor_copy_def cleanup_defs copy_simps wf_descriptor_def)

text \<open>The scalar and pointer fields of a descriptor survive a copy whatever its array is.\<close>

lemma descriptor_copy_fields [simp]:
  "d_address (portillia_relay_descriptor_copy dst src) = d_address src"
  "d_issued_at (portillia_relay_descriptor_copy dst src) = d_issued_at src"
  "d_expires_at (portillia_relay_descriptor_copy dst src) = d_expires_at src"
  "d_api_https_addr (portillia_relay_descriptor_copy dst src) = d_api_https_addr src"
  "d_wireguard_public_key (portillia_relay_descriptor_copy dst src) = d_wireguard_public_key src"
  "d_wireguard_port (portillia_relay_descriptor_copy dst src) = d_wireguard_port src"
  "d_supports_overlay (portillia_relay_descriptor_copy dst src) = d_supports_overlay src"
  "d_supports_udp (portillia_relay_descriptor_copy dst src) = d_supports_udp src"
  "d_supports_tcp (portillia_relay_descriptor_copy dst src) = d_supports_tcp src"
  "d_signature (portillia_relay_descriptor_copy dst src) = d_signature src"
  by (simp_all add: portillia_relay_descriptor_copy_def cleanup_defs copy_simps Let_def
      split: prod.split)

lemma dup_array_idem:
  "dup_array (None, 0) arr n = (arr', n') \<Longrightarrow> dup_array (None, 0) arr' n' = (arr', n')"
  by (auto simp: dup_array_def split: option.splits if_splits)

lemma descriptor_copy_idem [simp]:
  "portillia_relay_descriptor_copy x (portillia_relay_descriptor_copy dst src) =
   portillia_relay_descriptor_copy dst src"
proof (cases "dup_array (None, 0) (d_overlay_cidrs src) (d_overlay_cidrs_count src)")
  case (Pair arr' n')
  then show ?thesis
    using dup_array_idem [OF Pair]
    by (simp add: portillia_relay_descriptor_copy_def cleanup_defs copy_simps Let_def)
qed

lemma hop_route_copy_eq:
  "wf_hop_route src \<Longrightarrow> portillia_hop_route_copy dst src = src"
  by (simp add: portillia_hop_route_copy_def cleanup_defs copy_simps wf_hop_route_def)

lemma datagram_frame_copy_eq:
  "wf_frame src \<Longrightarrow> portillia_datagram_frame_copy dst src = src"
  by (simp add: portillia_datagram_frame_copy_def cleanup_defs copy_simps wf_frame_def)

lemma lease_copy_eq: "wf_lease src \<Longrightarrow> portillia_lease_copy dst src = src"
  by (simp add: portillia_lease_copy_def cleanup_defs copy_simps wf_lease_def)

section \<open>The manifest reader\<close>

record manifest =
  mf_release_version :: cstring
  mf_sdk_version :: cstring
  mf_discovery_version :: cstring
  mf_official_release_base_url :: cstring

definition default_manifest :: manifest where
  "default_manifest =
     \<lparr>mf_release_version = ''v2.3.2+c'', mf_sdk_version = ''10'', mf_discovery_version = ''9'',
      mf_official_release_base_url = ''https://github.com/gosuda/portal-tunnel/releases''\<rparr>"

text \<open>\<open>fgets(buf, 1024, f)\<close>: at most 1023 characters, up to and including a newline.\<close>

fun fgets_take :: "nat \<Rightarrow> cstring \<Rightarrow> cstring" where
  "fgets_take 0 s = []"
| "fgets_take (Suc n) [] = []"
| "fgets_take (Suc n) (c # cs) = (if c = CHR 0x0A then [c] else c # fgets_take n cs)"

lemma length_fgets_take: "length (fgets_take n s) \<le> length s"
  by (induction n s rule: fgets_take.induct) auto

lemma fgets_take_pos: "0 < n \<Longrightarrow> s \<noteq> [] \<Longrightarrow> 0 < length (fgets_take n s)"
  by (cases n; cases s) auto

function fgets_lines :: "cstring \<Rightarrow> cstring list" where
  "fgets_lines s =
     (if s = [] then []
      else let l = fgets_take 1023 s in l # fgets_lines (drop (length l) s))"
  by pat_completeness auto
termination
proof (relation "measure length")
  fix s :: cstring and l
  assume "s \<noteq> []" "l = fgets_take 1023 s"
  then show "(drop (length l) s, s) \<in> measure length"
    using fgets_take_pos [of 1023 s] by simp
qed simp

declare fgets_lines.simps [simp del]

text \<open>The trailing-blank loop runs while \<open>end > start\<close>, so it never removes the first
  character.\<close>

definition trim_trailing :: "cstring \<Rightarrow> cstring" where
  "trim_trailing s =
     (case s of [] \<Rightarrow> [] | c # cs \<Rightarrow> c # rev (dropWhile char_isspace (rev cs)))"

text \<open>\<open>quote_end = strrchr(val, '"'); if (quote_end) *quote_end = '\0';\<close>\<close>

definition cut_last_quote :: "cstring \<Rightarrow> cstring" where
  "cut_last_quote v =
     (if CHR 0x22 \<in> set v then rev (tl (dropWhile (\<lambda>c. c \<noteq> CHR 0x22) (rev v))) else v)"

definition manifest_value :: "cstring \<Rightarrow> cstring" where
  "manifest_value v =
     (case dropWhile char_isspace v of
        [] \<Rightarrow> []
      | c # cs \<Rightarrow> if c = CHR 0x22 then cut_last_quote cs else trim_trailing (c # cs))"

definition manifest_set :: "cstring \<Rightarrow> cstring \<Rightarrow> cstring \<Rightarrow> manifest \<Rightarrow> manifest" where
  "manifest_set section key val m =
     (if section = ''release'' then
        if key = ''version'' then m\<lparr>mf_release_version := val\<rparr>
        else if key = ''base_url'' then m\<lparr>mf_official_release_base_url := val\<rparr>
        else m
      else if section = ''protocol'' then
        if key = ''tunnel'' then m\<lparr>mf_sdk_version := val\<rparr>
        else if key = ''discovery'' then m\<lparr>mf_discovery_version := val\<rparr>
        else m
      else m)"

fun manifest_line :: "cstring \<times> manifest \<Rightarrow> cstring \<Rightarrow> cstring \<times> manifest" where
  "manifest_line (section, m) buf =
     (case dropWhile char_isspace buf of
        [] \<Rightarrow> (section, m)
      | c # p \<Rightarrow>
          if c = CHR ''#'' then (section, m)
          else if c = CHR ''['' then
            if CHR '']'' \<in> set p
            then (take 63 (takeWhile (\<lambda>x. x \<noteq> CHR '']'') p), m)
            else (section, m)
          else if CHR ''='' \<in> set (c # p) then
            let key = trim_trailing (takeWhile (\<lambda>x. x \<noteq> CHR ''='') (c # p));
                val = tl (dropWhile (\<lambda>x. x \<noteq> CHR ''='') (c # p))
            in (section, manifest_set section (dropWhile char_isspace key) (manifest_value val) m)
          else (section, m))"

text \<open>\<open>config.toml\<close> is tried first, then \<open>../config.toml\<close>; \<open>None\<close> is a failing \<open>fopen\<close>.\<close>

definition portillia_manifest_init ::
  "cstring option \<Rightarrow> cstring option \<Rightarrow> manifest \<Rightarrow> manifest" where
  "portillia_manifest_init config parent_config m =
     (case (case config of Some f \<Rightarrow> Some f | None \<Rightarrow> parent_config) of
        None \<Rightarrow> m
      | Some f \<Rightarrow> snd (foldl manifest_line ([], m) (fgets_lines f)))"

section \<open>Reading back a written manifest\<close>

definition quoted_line :: "cstring \<Rightarrow> cstring \<Rightarrow> cstring" where
  "quoted_line key v = key @ '' = '' @ [CHR 0x22] @ v @ [CHR 0x22, CHR 0x0A]"

definition section_line :: "cstring \<Rightarrow> cstring" where
  "section_line name = CHR ''['' # name @ [CHR '']'', CHR 0x0A]"

definition render_manifest :: "manifest \<Rightarrow> cstring list" where
  "render_manifest m =
     [section_line ''release'',
      quoted_line ''version'' (mf_release_version m),
      quoted_line ''base_url'' (mf_official_release_base_url m),
      section_line ''protocol'',
      quoted_line ''tunnel'' (mf_sdk_version m),
      quoted_line ''discovery'' (mf_discovery_version m)]"

definition text_line :: "cstring \<Rightarrow> bool" where
  "text_line l \<longleftrightarrow> (\<exists>s. l = s @ [CHR 0x0A] \<and> CHR 0x0A \<notin> set s \<and> length s < 1023)"

lemma cut_last_quote_snoc [simp]: "cut_last_quote (v @ [CHR 0x22, CHR 0x0A]) = v"
  by (simp add: cut_last_quote_def)

lemma manifest_value_quoted [simp]:
  "manifest_value (CHR 0x20 # CHR 0x22 # v @ [CHR 0x22, CHR 0x0A]) = v"
  by (simp add: manifest_value_def char_isspace_def char_code_def)

lemma fgets_take_line:
  "CHR 0x0A \<notin> set s \<Longrightarrow> length s < n \<Longrightarrow>
   fgets_take n (s @ CHR 0x0A # rest) = s @ [CHR 0x0A]"
proof (induction s arbitrary: n)
  case Nil
  then show ?case by (cases n) auto
next
  case (Cons c s)
  then show ?case by (cases n) auto
qed

lemma fgets_lines_line:
  assumes "text_line l"
  shows "fgets_lines (l @ rest) = l # fgets_lines rest"
proof -
  from assms obtain s where l: "l = s @ [CHR 0x0A]" and s: "CHR 0x0A \<notin> set s" "length s < 1023"
    by (auto simp: text_line_def)
  have "fgets_take 1023 (l @ rest) = l"
    using fgets_take_line [OF s] l by simp
  moreover have "l @ rest \<noteq> []" using l by simp
  ultimately show ?thesis
    by (subst fgets_lines.simps) simp
qed

lemma fgets_lines_concat: "(\<forall>l \<in> set ls. text_line l) \<Longrightarrow> fgets_lines (concat ls) = ls"
  by (induction ls) (auto simp: fgets_lines_line fgets_lines.simps [of "[]"])

lemma manifest_line_quoted:
  assumes "key \<in> {''version'', ''base_url'', ''tunnel'', ''discovery''}"
  shows "manifest_line (section, m) (quoted_line key v) = (section, manifest_set section key v m)"
  using assms
  by (auto simp: quoted_line_def char_isspace_def char_code_def trim_trailing_def)

lemma manifest_line_section:
  "CHR '']'' \<notin> set name \<Longrightarrow> length name \<le> 63 \<Longrightarrow>
   manifest_line (section, m) (section_line name) = (name, m)"
proof -
  assume "CHR '']'' \<notin> set name" "length name \<le> 63"
  then have "takeWhile (\<lambda>x. x \<noteq> CHR '']'') (name @ [CHR '']'', CHR 0x0A]) = name"
    by (subst takeWhile_append2) auto
  then show ?thesis
    using \<open>length name \<le> 63\<close> by (simp add: section_line_def char_isspace_def char_code_def)
qed

lemma manifest_lines_render:
  "foldl manifest_line ([], m0) (render_manifest m) = (''protocol'', m)"
  by (simp add: render_manifest_def manifest_line_section manifest_line_quoted manifest_set_def
      del: manifest_line.simps)

text \<open>Writing the four manifest values as quoted TOML lines and reading the file back with
  \<open>portillia_manifest_init\<close> restores exactly these values, whatever was set before and whatever
  \<open>../config.toml\<close> holds: quotes inside a value survive (the reader cuts at the last quote), as
  long as no line exceeds the 1023 characters of the read buffer and no value has a newline.\<close>

theorem manifest_roundtrip:
  assumes "\<forall>l \<in> set (render_manifest m). text_line l"
  shows "portillia_manifest_init (Some (concat (render_manifest m))) parent m0 = m"
  using assms by (simp add: portillia_manifest_init_def fgets_lines_concat manifest_lines_render)

theorem manifest_roundtrip_witness:
  "portillia_manifest_init (Some (concat (render_manifest default_manifest))) None
     (default_manifest\<lparr>mf_sdk_version := ''8''\<rparr>) = default_manifest"
proof -
  have *: "text_line l" if "CHR 0x0A \<notin> set (butlast l) \<and> length l < 1023 \<and> l \<noteq> [] \<and> last l = CHR 0x0A" for l
    using that append_butlast_last_id [of l]
    by (auto simp: text_line_def intro!: exI [of _ "butlast l"])
  have "\<forall>l \<in> set (render_manifest default_manifest). text_line l"
    by (simp add: render_manifest_def default_manifest_def quoted_line_def section_line_def *)
  then show ?thesis by (rule manifest_roundtrip)
qed

text \<open>\<open>portillia_hop_route_copy\<close> makes an exact deep copy, metadata and forwarding relay
  descriptor included, and nothing of the old destination survives.\<close>

theorem hop_route_copy_exact:
  assumes "wf_hop_route src"
  shows "portillia_hop_route_copy dst src = src"
  using assms by (rule hop_route_copy_eq)

theorem hop_route_copy_exact_witness:
  "portillia_hop_route_copy
     (portillia_hop_route_init\<lparr>h_relay_url := Some ''https://old''\<rparr>)
     (portillia_hop_route_init\<lparr>h_match_token := Some ''t'',
        h_metadata := portillia_lease_metadata_init\<lparr>m_tags := Some [Some ''a'', None], m_tags_count := 2\<rparr>\<rparr>) =
   portillia_hop_route_init\<lparr>h_match_token := Some ''t'',
      h_metadata := portillia_lease_metadata_init\<lparr>m_tags := Some [Some ''a'', None], m_tags_count := 2\<rparr>\<rparr>"
  by (rule hop_route_copy_exact)
    (simp add: wf_hop_route_def wf_metadata_def wf_descriptor_def wf_array_def cleanup_defs)

end
