(* ===== verification/Ranking.thy ===== *)
theory Ranking
  imports Portillia_Prelude
begin

text \<open>
  The two array algorithms the relay selector is built from, over an arbitrary element type:
  the bounded insertion that keeps the best \<open>depth\<close> candidates in order, and the exchange sort
  by a numeric key. The locale \<open>strict_ranking\<close> is the contract of a candidate comparison; what
  the bounded insertion computes is proved once inside it.
\<close>

section \<open>Bounded insertion\<close>

text \<open>The \<open>while\<close> loop of the insertion: \<open>insert_at\<close> runs down from the number of stored
  candidates, moving each worse candidate one slot to the right unless that slot is beyond the
  array.\<close>

fun shift_insert :: "('a \<Rightarrow> 'a \<Rightarrow> bool) \<Rightarrow> nat \<Rightarrow> 'a \<Rightarrow> 'a list \<Rightarrow> nat \<Rightarrow> 'a list \<times> nat" where
  "shift_insert better depth c arr 0 = (arr, 0)"
| "shift_insert better depth c arr (Suc k) =
     (if better c (arr ! k)
      then shift_insert better depth c
             (if Suc k < depth then arr_put arr (Suc k) (arr ! k) else arr) k
      else (arr, Suc k))"

definition insert_candidate :: "('a \<Rightarrow> 'a \<Rightarrow> bool) \<Rightarrow> nat \<Rightarrow> 'a \<Rightarrow> 'a list \<Rightarrow> 'a list" where
  "insert_candidate better depth c arr =
     (let (arr', insert_at) = shift_insert better depth c arr (length arr)
      in if depth \<le> insert_at then arr' else arr_put arr' insert_at c)"

text \<open>Where the loop stops: just behind the last stored candidate that \<open>c\<close> does not beat.\<close>

fun insert_pos :: "('a \<Rightarrow> 'a \<Rightarrow> bool) \<Rightarrow> 'a \<Rightarrow> 'a list \<Rightarrow> nat \<Rightarrow> nat" where
  "insert_pos better c arr 0 = 0"
| "insert_pos better c arr (Suc k) =
     (if better c (arr ! k) then insert_pos better c arr k else Suc k)"

text \<open>The reference: insert without a bound.\<close>

definition insert_full :: "('a \<Rightarrow> 'a \<Rightarrow> bool) \<Rightarrow> 'a \<Rightarrow> 'a list \<Rightarrow> 'a list" where
  "insert_full better c arr =
     (let at = insert_pos better c arr (length arr) in take at arr @ c # drop at arr)"

lemma insert_pos_le: "insert_pos better c arr n \<le> n"
  by (induction n) (auto intro: le_SucI)

lemma insert_pos_worse: "insert_pos better c arr n \<le> i \<Longrightarrow> i < n \<Longrightarrow> better c (arr ! i)"
proof (induction n)
  case (Suc n)
  then show ?case by (cases "i = n") (auto split: if_splits)
qed simp

lemma insert_pos_stop:
  "0 < insert_pos better c arr n \<Longrightarrow> \<not> better c (arr ! (insert_pos better c arr n - 1))"
  by (induction n) auto

text \<open>What the array holds while the loop runs: the candidates before \<open>k\<close> untouched, those
  from \<open>k\<close> on moved right by one, as far as the bound leaves room.\<close>

definition shifted :: "nat \<Rightarrow> 'a list \<Rightarrow> nat \<Rightarrow> 'a list \<Rightarrow> bool" where
  "shifted depth arr k A \<longleftrightarrow>
     take k A = take k arr \<and> drop (Suc k) A = take (depth - Suc k) (drop k arr) \<and>
     (if k < length arr then length A = min depth (Suc (length arr)) else A = arr)"

lemma shifted_step:
  assumes sh: "shifted depth arr (Suc k) A" and "Suc k \<le> length arr" "length arr \<le> depth"
  shows "shifted depth arr k (if Suc k < depth then arr_put A (Suc k) (A ! k) else A)"
    and "A ! k = arr ! k"
proof -
  have lenA: "Suc k \<le> length A"
    using sh assms(2,3) by (auto simp: shifted_def split: if_splits)
  have tk: "take (Suc k) A = take (Suc k) arr" using sh by (simp add: shifted_def)
  show Ak: "A ! k = arr ! k"
    using nth_take [of k "Suc k" A] nth_take [of k "Suc k" arr] tk by simp
  have tk': "take k A = take k arr"
    using tk by (metis le_add2 min.absorb1 plus_1_eq_Suc take_take)
  have dk: "drop k arr = arr ! k # drop (Suc k) arr"
    using assms(2) by (simp add: Cons_nth_drop_Suc)
  show "shifted depth arr k (if Suc k < depth then arr_put A (Suc k) (A ! k) else A)"
  proof (cases "Suc k < depth")
    case False
    with assms have "Suc k = length arr" "depth = length arr" by auto
    then have "A = arr" using sh by (simp add: shifted_def)
    then show ?thesis
      using False \<open>Suc k = length arr\<close> \<open>depth = length arr\<close> by (simp add: shifted_def)
  next
    case True
    let ?B = "arr_put A (Suc k) (A ! k)"
    have dB: "drop (Suc k) ?B = A ! k # drop (Suc (Suc k)) A"
      using lenA by (auto simp: arr_put_def upd_conv_take_nth_drop)
    have tB: "take k ?B = take k arr"
      using lenA tk' by (auto simp: arr_put_def)
    have "depth - Suc k = Suc (depth - Suc (Suc k))" using True by arith
    then have "take (depth - Suc k) (drop k arr) =
        arr ! k # take (depth - Suc (Suc k)) (drop (Suc k) arr)"
      by (simp only: dk take_Suc_Cons)
    then have "drop (Suc k) ?B = take (depth - Suc k) (drop k arr)"
      using dB Ak sh by (simp add: shifted_def)
    moreover have "length ?B = min depth (Suc (length arr))"
      using sh assms(2,3) True by (auto simp: shifted_def arr_put_def split: if_splits)
    ultimately show ?thesis using tB True assms(2) by (simp add: shifted_def)
  qed
qed

lemma shift_insert_shifted:
  "shifted depth arr k A \<Longrightarrow> k \<le> length arr \<Longrightarrow> length arr \<le> depth \<Longrightarrow>
   \<exists>B. shift_insert better depth c A k = (B, insert_pos better c arr k) \<and>
       shifted depth arr (insert_pos better c arr k) B"
proof (induction k arbitrary: A)
  case (Suc k)
  note step = shifted_step [OF Suc.prems]
  show ?case
  proof (cases "better c (arr ! k)")
    case True
    with Suc.IH [OF step(1)] Suc.prems step(2) show ?thesis by simp
  next
    case False
    with Suc.prems step(2) show ?thesis by simp
  qed
qed auto

lemma insert_candidate_take:
  assumes "length arr \<le> depth"
  shows "insert_candidate better depth c arr = take depth (insert_full better c arr)"
proof -
  let ?at = "insert_pos better c arr (length arr)"
  have at: "?at \<le> length arr" by (rule insert_pos_le)
  have "shifted depth arr (length arr) arr" by (simp add: shifted_def)
  from shift_insert_shifted [OF this _ assms, of better c] obtain B where
    B: "shift_insert better depth c arr (length arr) = (B, ?at)" and sh: "shifted depth arr ?at B"
    by auto
  show ?thesis
  proof (cases "depth \<le> ?at")
    case True
    with at assms have "?at = length arr" "depth = length arr" by auto
    with B sh show ?thesis by (simp add: insert_candidate_def insert_full_def shifted_def)
  next
    case False
    have "arr_put B ?at c = take ?at arr @ c # take (depth - Suc ?at) (drop ?at arr)"
    proof (cases "?at < length arr")
      case True
      then have "length B = min depth (Suc (length arr))" "?at < length B"
        using sh False by (auto simp: shifted_def)
      then show ?thesis
        using sh True by (simp add: arr_put_def upd_conv_take_nth_drop shifted_def)
    next
      case gt: False
      with at sh have "B = arr" "?at = length arr" by (auto simp: shifted_def)
      then show ?thesis by (simp add: arr_put_def)
    qed
    also have "\<dots> = take depth (take ?at arr @ c # drop ?at arr)"
      using at False by (simp add: take_Cons' min_absorb2)
    finally show ?thesis
      using B False by (simp add: insert_candidate_def insert_full_def Let_def)
  qed
qed

lemma mset_insert_full: "mset (insert_full better c arr) = add_mset c (mset arr)"
proof -
  have "mset (take n arr) + mset (drop n arr) = mset arr" for n
    by (metis append_take_drop_id mset_append)
  then show ?thesis by (simp add: insert_full_def Let_def)
qed

lemma length_insert_full [simp]: "length (insert_full better c arr) = Suc (length arr)"
  by (metis mset_insert_full size_add_mset size_mset)

lemma set_insert_full [simp]: "set (insert_full better c arr) = insert c (set arr)"
  by (metis mset_insert_full set_mset_add_mset_insert set_mset_mset)

section \<open>The contract of a candidate comparison\<close>

locale strict_ranking =
  fixes better :: "'a \<Rightarrow> 'a \<Rightarrow> bool" and key :: "'a \<Rightarrow> nat"
  assumes better_irrefl: "\<not> better a a"
    and better_trans: "better a b \<Longrightarrow> better b c \<Longrightarrow> better a c"
    and better_total: "key a \<noteq> key b \<Longrightarrow> better a b \<or> better b a"
begin

lemma better_asym: "better a b \<Longrightarrow> \<not> better b a"
  using better_irrefl better_trans by blast

lemma sorted_insert_full:
  assumes srt: "sorted_wrt better arr" and new: "key c \<notin> key ` set arr"
  shows "sorted_wrt better (insert_full better c arr)"
proof -
  let ?at = "insert_pos better c arr (length arr)"
  have at: "?at \<le> length arr" by (rule insert_pos_le)
  have worse: "better c x" if "x \<in> set (drop ?at arr)" for x
  proof -
    from that obtain j where "j < length (drop ?at arr)" "x = drop ?at arr ! j"
      by (auto simp: in_set_conv_nth)
    then have "x = arr ! (?at + j)" "?at + j < length arr" using at by auto
    then show ?thesis using insert_pos_worse [of better c arr "length arr" "?at + j"] by simp
  qed
  have nc: "better x c" if "x \<in> set (take ?at arr)" for x
  proof -
    from that obtain j where j: "j < ?at" "j < length arr" "x = arr ! j"
      by (auto simp: in_set_conv_nth)
    let ?l = "arr ! (?at - 1)"
    have l: "?at - 1 < length arr" using j at by simp
    then have "key ?l \<noteq> key c" using new by (metis image_eqI nth_mem)
    then have bl: "better ?l c"
      using insert_pos_stop [of better c arr "length arr"] j(1) better_total [of ?l c] by auto
    show ?thesis
    proof (cases "j = ?at - 1")
      case False
      then have "better x ?l" using srt j l by (auto simp: sorted_wrt_iff_nth_less)
      then show ?thesis using bl better_trans by blast
    qed (use bl j in simp)
  qed
  have app: "sorted_wrt better (take ?at arr @ drop ?at arr)" using srt by simp
  show ?thesis
    using app worse nc unfolding insert_full_def Let_def sorted_wrt_append by auto
qed

text \<open>Dropping what does not fit before the next insertion loses nothing of the best \<open>depth\<close>.\<close>

lemma insert_pos_unique:
  assumes "sorted_wrt better arr" "n \<le> length arr" "k \<le> n"
    and "\<forall>i < k. \<not> better c (arr ! i)" "\<forall>i. k \<le> i \<and> i < n \<longrightarrow> better c (arr ! i)"
  shows "insert_pos better c arr n = k"
  using assms(2-5)
proof (induction n)
  case (Suc n)
  then show ?case by (cases "k = Suc n") auto
qed simp

lemma not_better_before_pos:
  assumes srt: "sorted_wrt better arr" and "i < insert_pos better c arr (length arr)"
  shows "\<not> better c (arr ! i)"
proof
  assume b: "better c (arr ! i)"
  let ?at = "insert_pos better c arr (length arr)"
  have "?at - 1 < length arr" using assms(2) insert_pos_le [of better c arr "length arr"] by simp
  then have "i = ?at - 1 \<or> better (arr ! i) (arr ! (?at - 1))"
    using srt assms(2) by (cases "i = ?at - 1") (auto simp: sorted_wrt_iff_nth_less)
  then have "better c (arr ! (?at - 1))" using b better_trans by auto
  then show False using insert_pos_stop [of better c arr "length arr"] assms(2) by simp
qed

lemma insert_full_take:
  assumes srt: "sorted_wrt better arr"
  shows "take depth (insert_full better c (take depth arr)) = take depth (insert_full better c arr)"
proof -
  let ?at = "insert_pos better c arr (length arr)" and ?d = "min depth (length arr)"
  have at: "?at \<le> length arr" by (rule insert_pos_le)
  have pos: "insert_pos better c (take depth arr) ?d = min ?at ?d"
  proof (rule insert_pos_unique)
    show "sorted_wrt better (take depth arr)" using srt by (simp add: sorted_wrt_take)
    show "\<forall>i < min ?at ?d. \<not> better c (take depth arr ! i)"
      using not_better_before_pos [OF srt] by simp
    show "\<forall>i. min ?at ?d \<le> i \<and> i < ?d \<longrightarrow> better c (take depth arr ! i)"
      using insert_pos_worse [of better c arr "length arr"] by auto
  qed auto
  show ?thesis
  proof (cases "?at < depth")
    case True
    then have "min ?at ?d = ?at" using at by simp
    with pos True at show ?thesis
      by (simp add: insert_full_def Let_def min.commute take_Cons' drop_take min_def)
  next
    case False
    then have "min ?at ?d = ?d" "?d = depth" using at by auto
    with pos False at show ?thesis
      by (simp add: insert_full_def Let_def min.commute)
  qed
qed

text \<open>Running the bounded insertion over all candidates gives the best \<open>depth\<close> of them, in
  order: the prefix of the full ranking.\<close>

lemma insert_candidates_best:
  assumes "distinct (map key cs)"
  shows "\<exists>full. mset full = mset cs \<and> sorted_wrt better full \<and>
     foldl (\<lambda>arr c. insert_candidate better depth c arr) [] cs = take depth full"
  using assms
proof (induction cs rule: rev_induct)
  case (snoc c cs)
  then obtain full where full: "mset full = mset cs" "sorted_wrt better full"
    "foldl (\<lambda>arr c. insert_candidate better depth c arr) [] cs = take depth full"
    by auto
  have "set full = set cs" using full(1) by (rule mset_eq_setD)
  then have "key c \<notin> key ` set full" using snoc.prems by auto
  then have "sorted_wrt better (insert_full better c full)"
    using full(2) by (intro sorted_insert_full)
  moreover have "mset (insert_full better c full) = mset (cs @ [c])"
    using full(1) by (simp add: mset_insert_full)
  moreover have "insert_candidate better depth c (take depth full) = take depth (insert_full better c full)"
    using insert_candidate_take [of "take depth full" depth better c] insert_full_take [OF full(2)]
    by simp
  ultimately show ?case using full(3) by (metis foldl_Cons foldl_Nil foldl_append)
qed simp

end

section \<open>Exchange sort by a key\<close>

definition swap :: "nat \<Rightarrow> nat \<Rightarrow> 'a list \<Rightarrow> 'a list" where
  "swap i j xs = xs[i := xs ! j, j := xs ! i]"

text \<open>\<open>for (j = i + 1; j < n; j++) if (key[j] < key[i]) swap(i, j);\<close>\<close>

definition exchange_pass :: "('a \<Rightarrow> 'b::linorder) \<Rightarrow> nat \<Rightarrow> 'a list \<Rightarrow> 'a list" where
  "exchange_pass f i xs =
     foldl (\<lambda>ys j. if f (ys ! j) < f (ys ! i) then swap i j ys else ys) xs [Suc i..<length xs]"

text \<open>\<open>for (i = 0; i < n - 1; i++)\<close> around the pass.\<close>

definition exchange_sort :: "('a \<Rightarrow> 'b::linorder) \<Rightarrow> 'a list \<Rightarrow> 'a list" where
  "exchange_sort f xs = foldl (\<lambda>ys i. exchange_pass f i ys) xs [0..<length xs - 1]"

lemma length_swap [simp]: "length (swap i j xs) = length xs"
  by (simp add: swap_def)

lemma mset_swap_nth: "i < length xs \<Longrightarrow> j < length xs \<Longrightarrow> mset (swap i j xs) = mset xs"
  by (simp add: swap_def mset_swap)

lemma nth_swap:
  "i < length xs \<Longrightarrow> j < length xs \<Longrightarrow> k < length xs \<Longrightarrow>
   swap i j xs ! k = (if k = j then xs ! i else if k = i then xs ! j else xs ! k)"
  by (auto simp: swap_def nth_list_update)

text \<open>After the passes for positions below \<open>i\<close>, every such position holds a minimum of what
  follows it.\<close>

definition sorted_below :: "('a \<Rightarrow> 'b::linorder) \<Rightarrow> nat \<Rightarrow> 'a list \<Rightarrow> bool" where
  "sorted_below f i xs \<longleftrightarrow> (\<forall>a b. a < i \<and> a < b \<and> b < length xs \<longrightarrow> f (xs ! a) \<le> f (xs ! b))"

definition min_at :: "('a \<Rightarrow> 'b::linorder) \<Rightarrow> nat \<Rightarrow> nat \<Rightarrow> 'a list \<Rightarrow> bool" where
  "min_at f i j xs \<longleftrightarrow> (\<forall>b. i < b \<and> b < j \<longrightarrow> f (xs ! i) \<le> f (xs ! b))"

lemma exchange_step:
  assumes "i < j" "j < length ys" "sorted_below f i ys" "min_at f i j ys"
  defines "zs \<equiv> if f (ys ! j) < f (ys ! i) then swap i j ys else ys"
  shows "length zs = length ys \<and> mset zs = mset ys \<and> sorted_below f i zs \<and> min_at f i (Suc j) zs"
proof (cases "f (ys ! j) < f (ys ! i)")
  case True
  then have zs: "zs = swap i j ys" by (simp add: zs_def)
  have "sorted_below f i zs"
    using assms(1-3) by (auto simp: sorted_below_def zs nth_swap)
  moreover have "min_at f i (Suc j) zs"
    using assms(1,2,4) True by (auto simp: min_at_def zs nth_swap less_Suc_eq dest: less_imp_le)
  ultimately show ?thesis using assms(1,2) by (simp add: zs mset_swap_nth)
next
  case False
  then show ?thesis using assms by (auto simp: min_at_def less_Suc_eq)
qed

lemma exchange_pass_inv:
  assumes "i < length xs" "sorted_below f i xs"
  shows "length (exchange_pass f i xs) = length xs \<and> mset (exchange_pass f i xs) = mset xs \<and>
    sorted_below f (Suc i) (exchange_pass f i xs)"
proof -
  let ?g = "\<lambda>ys j. if f (ys ! j) < f (ys ! i) then swap i j ys else ys"
  have "length (foldl ?g xs [Suc i..<n]) = length xs \<and> mset (foldl ?g xs [Suc i..<n]) = mset xs \<and>
      sorted_below f i (foldl ?g xs [Suc i..<n]) \<and> min_at f i n (foldl ?g xs [Suc i..<n])"
    if "Suc i \<le> n" "n \<le> length xs" for n
    using that
  proof (induction n rule: dec_induct)
    case base
    then show ?case using assms by (auto simp: min_at_def)
  next
    case (step n)
    then show ?case
      using exchange_step [of i n "foldl ?g xs [Suc i..<n]" f] by simp
  qed
  from this [of "length xs"] assms(1) show ?thesis
    by (auto simp: exchange_pass_def sorted_below_def min_at_def less_Suc_eq)
qed

lemma exchange_sort_inv:
  "n \<le> length xs \<Longrightarrow>
   length (foldl (\<lambda>ys i. exchange_pass f i ys) xs [0..<n]) = length xs \<and>
   mset (foldl (\<lambda>ys i. exchange_pass f i ys) xs [0..<n]) = mset xs \<and>
   sorted_below f n (foldl (\<lambda>ys i. exchange_pass f i ys) xs [0..<n])"
proof (induction n)
  case (Suc n)
  then show ?case
    using exchange_pass_inv [of n "foldl (\<lambda>ys i. exchange_pass f i ys) xs [0..<n]" f] by simp
qed (simp add: sorted_below_def)

lemma exchange_sort_correct:
  "mset (exchange_sort f xs) = mset xs" "sorted (map f (exchange_sort f xs))"
proof -
  have inv: "length (exchange_sort f xs) = length xs \<and> mset (exchange_sort f xs) = mset xs \<and>
      sorted_below f (length xs - 1) (exchange_sort f xs)"
    unfolding exchange_sort_def by (rule exchange_sort_inv) simp
  then show "mset (exchange_sort f xs) = mset xs" by simp
  show "sorted (map f (exchange_sort f xs))"
    using inv by (auto simp: sorted_iff_nth_mono_less sorted_below_def)
qed

lemma set_exchange_sort [simp]: "set (exchange_sort f xs) = set xs"
  by (rule mset_eq_setD) (rule exchange_sort_correct)

lemma length_exchange_sort [simp]: "length (exchange_sort f xs) = length xs"
  by (rule mset_eq_length) (rule exchange_sort_correct)

end
