(* ===== verification/Relay_State.thy ===== *)
theory Relay_State
  imports Portal_Types
begin

text \<open>
  What the relay set keeps about each relay (\<^verbatim>\<open>include/portillia/discovery/relay_set.h\<close>): the
  last descriptor, the local flags and the failure telemetry, together with the client's
  selection parameters and the rollback index entry. The small predicates the selector and
  the set share are here too.
\<close>

record portillia_relay_state =
  descriptor :: portillia_relay_descriptor
  bootstrap :: bool
  confirmed :: bool
  banned :: bool
  last_seen_at :: time_t
  discovery_rtt_ms :: real
  discovery_rtt_at :: time_t
  discovery_failures :: int
  active_failures :: int
  next_discovery_refresh_at :: time_t
  suppress_active_until :: time_t
  is_saturated :: bool
  load_factor_fixed :: "32 word"
  load_factor_at :: time_t

record portillia_client_state =
  c_explicit_relay_urls :: "cstring list"
  c_suppressed_relay_urls :: "cstring list"
  c_max_active_relays :: int
  c_multi_hop_depth :: int
  c_require_udp :: bool
  c_require_tcp :: bool
  c_local_address :: "cstring option"

record portillia_key_index_entry =
  k_issued_at :: time_t
  k_tombstone_until :: time_t

definition PORTILLIA_DEFAULT_DIRECT_RECOVERY_BACKOFF_SEC :: int where
  "PORTILLIA_DEFAULT_DIRECT_RECOVERY_BACKOFF_SEC = 60"

definition PORTILLIA_MAX_DIRECT_RECOVERY_BACKOFF_SEC :: int where
  "PORTILLIA_MAX_DIRECT_RECOVERY_BACKOFF_SEC = 5 * 60"

definition PORTILLIA_ANNOUNCE_CLOCK_SKEW_TOLERANCE_SEC :: int where
  "PORTILLIA_ANNOUNCE_CLOCK_SKEW_TOLERANCE_SEC = 5 * 60"

definition PORTILLIA_ANNOUNCE_MAX_VALIDITY_SEC :: int where
  "PORTILLIA_ANNOUNCE_MAX_VALIDITY_SEC = 24 * 60 * 60"

text \<open>\<open>calloc(1, sizeof(portillia_relay_state_t))\<close>\<close>

definition zero_relay_state :: portillia_relay_state where
  "zero_relay_state =
     \<lparr>descriptor = portillia_relay_descriptor_init, bootstrap = False, confirmed = False,
      banned = False, last_seen_at = 0, discovery_rtt_ms = 0, discovery_rtt_at = 0,
      discovery_failures = 0, active_failures = 0, next_discovery_refresh_at = 0,
      suppress_active_until = 0, is_saturated = False, load_factor_fixed = 0,
      load_factor_at = 0\<rparr>"

definition state_url :: "portillia_relay_state \<Rightarrow> cstring" where
  "state_url s = or_empty (d_api_https_addr (descriptor s))"

definition portillia_relay_state_has_observed_descriptor :: "portillia_relay_state \<Rightarrow> bool" where
  "portillia_relay_state_has_observed_descriptor s \<longleftrightarrow> nonempty (d_address (descriptor s))"

definition portillia_relay_descriptor_has_overlay_peer :: "portillia_relay_descriptor \<Rightarrow> bool" where
  "portillia_relay_descriptor_has_overlay_peer d \<longleftrightarrow>
     d_supports_overlay d \<and> nonempty (d_wireguard_public_key d) \<and>
     \<not> (d_wireguard_port d \<le> 0 \<or> 65535 < d_wireguard_port d)"

text \<open>\<open>portillia_relay_descriptor_init\<close> of a state created for a bare URL.\<close>

definition url_relay_state :: "cstring \<Rightarrow> portillia_relay_state" where
  "url_relay_state url =
     zero_relay_state\<lparr>descriptor := portillia_relay_descriptor_init\<lparr>d_api_https_addr := Some url\<rparr>\<rparr>"

lemma url_relay_state_simps [simp]:
  "state_url (url_relay_state url) = url"
  "banned (url_relay_state url) = False"
  "bootstrap (url_relay_state url) = False"
  "confirmed (url_relay_state url) = False"
  "d_address (descriptor (url_relay_state url)) = None"
  by (simp_all add: url_relay_state_def zero_relay_state_def state_url_def
      portillia_relay_descriptor_init_def)

end
