(* ===== verification/Mols.thy ===== *)
theory Mols
  imports Ranking Relay_State
begin

text \<open>
  The relay selector of \<^verbatim>\<open>src/portal/discovery/mols.c\<close>: scores from a pair of mutually
  orthogonal Latin squares over GF(64), the split into active and fallback relays, the bounded
  ranking of each tier and the two public selectors. The wall clock is an argument. Floating
  point quantities are real numbers; the theorems hold for every outcome of the two threshold
  tests on them.
\<close>

definition MOLS_CANDIDATE_DEPTH :: nat where "MOLS_CANDIDATE_DEPTH = 8"
definition MOLS_MIN_ACTIVE_NODES :: nat where "MOLS_MIN_ACTIVE_NODES = 2"
definition MOLS_DEFAULT_MAX_ACTIVE_RELAYS :: int where "MOLS_DEFAULT_MAX_ACTIVE_RELAYS = 3"

section \<open>Arithmetic of the score\<close>

function gf64_loop :: "byte \<Rightarrow> byte \<Rightarrow> byte \<Rightarrow> byte" where
  "gf64_loop a b r =
     (if b = 0 then r
      else gf64_loop
             (if a AND 0x20 \<noteq> 0 then (push_bit 1 a XOR 0x43) AND 0x3f else push_bit 1 a AND 0x3f)
             (drop_bit 1 b)
             (if b AND 1 \<noteq> 0 then r XOR a else r))"
  by pat_completeness auto
termination
proof (relation "measure (\<lambda>(a, b, r). unat b)")
  fix a b r :: byte
  assume "b \<noteq> 0"
  then have "0 < unat b" by (simp add: unat_gt_0)
  then have "unat (drop_bit 1 b) < unat b" by (simp add: drop_bit_eq_div unat_div)
  then show "((if a AND 0x20 \<noteq> 0 then (push_bit 1 a XOR 0x43) AND 0x3f else push_bit 1 a AND 0x3f,
       drop_bit 1 b, if b AND 1 \<noteq> 0 then r XOR a else r), a, b, r) \<in> measure (\<lambda>(a, b, r). unat b)"
    by simp
qed simp

declare gf64_loop.simps [simp del]

definition gf64_mul :: "byte \<Rightarrow> byte \<Rightarrow> byte" where
  "gf64_mul a b = gf64_loop (a AND 0x3f) (b AND 0x3f) 0"

definition grid_order_for_size :: "int \<Rightarrow> int" where
  "grid_order_for_size pool_size =
     (if pool_size \<le> 64 then 64
      else let rem = pool_size mod 32
           in if rem = 0 then pool_size else pool_size + (32 - rem))"

definition mols_score :: "int \<Rightarrow> int \<Rightarrow> int \<Rightarrow> int \<Rightarrow> int \<Rightarrow> int" where
  "mols_score i j m1 m2 order =
     (if order = 64 then
        let l1 = gf64_mul (word_of_int m1) (word_of_int i) XOR word_of_int j;
            l2 = gf64_mul (word_of_int m2) (word_of_int i) XOR word_of_int j
        in uint l1 * order + uint l2 + 1
      else ((m1 * i + j) mod order) * order + ((m2 * i + j) mod order) + 1)"

definition mols_congestion_score :: "int \<Rightarrow> int \<Rightarrow> int \<Rightarrow> int \<Rightarrow> int \<Rightarrow> int" where
  "mols_congestion_score i j m1 m2 order =
     (order * order + 1) - mols_score i ((order - 1) - j) m1 m2 order"

text \<open>32-bit FNV-1a, low six bits; a \<open>NULL\<close> string hashes like the empty one.\<close>

definition hash_to_gf64 :: "cstring option \<Rightarrow> byte" where
  "hash_to_gf64 s =
     ucast (foldl (\<lambda>h c. (h XOR word_of_nat (char_code c)) * 16777619) (2166136261 :: 32 word)
              (or_empty s) AND 0x3f)"

section \<open>Round-trip-time statistics\<close>

definition rtt_samples :: "portillia_relay_state list \<Rightarrow> real list" where
  "rtt_samples states = map discovery_rtt_ms (filter (\<lambda>s. discovery_rtt_at s \<noteq> 0) states)"

definition mols_rtt_stats :: "portillia_relay_state list \<Rightarrow> real \<times> real" where
  "mols_rtt_stats states =
     (let rtts = rtt_samples states; n = length rtts
      in if n = 0 then (0, 0)
         else let avg = sum_list rtts / real n
              in if n = 1 then (avg, 0)
                 else let sq = sum_list (map (\<lambda>r. (r - avg) * (r - avg)) rtts);
                          stddev = sqrt (sq / real n)
                      in (avg, if 0 < avg then stddev / avg else 0))"

definition is_relay_fallback :: "portillia_relay_state \<Rightarrow> bool" where
  "is_relay_fallback s \<longleftrightarrow> discovery_rtt_at s \<noteq> 0 \<and> 2000 < discovery_rtt_ms s"

section \<open>Candidate ranking\<close>

record mols_candidate =
  mc_state :: portillia_relay_state
  mc_score :: int
  mc_seq :: nat

definition better_mols_candidate :: "mols_candidate \<Rightarrow> mols_candidate \<Rightarrow> bool" where
  "better_mols_candidate a b =
     (if mc_score a \<noteq> mc_score b then mc_score b < mc_score a
      else if confirmed (mc_state a) \<noteq> confirmed (mc_state b) then confirmed (mc_state a)
      else let aurl = state_url (mc_state a); burl = state_url (mc_state b)
           in if aurl \<noteq> burl then strcmp_less aurl burl
              else mc_seq a < mc_seq b)"

definition tier_score :: "bool \<Rightarrow> int \<Rightarrow> int \<Rightarrow> int \<Rightarrow> int \<Rightarrow> portillia_relay_state \<Rightarrow> int" where
  "tier_score congested ingress m1 m2 order s =
     (let idx = uint (hash_to_gf64 (Some (state_url s))) mod order
      in if congested then mols_congestion_score (ingress mod order) idx m1 m2 order
         else mols_score (ingress mod order) idx m1 m2 order)"

definition tier_candidates ::
  "(portillia_relay_state \<Rightarrow> int) \<Rightarrow> portillia_relay_state list \<Rightarrow> mols_candidate list" where
  "tier_candidates score tier =
     map (\<lambda>(i, s). \<lparr>mc_state = s, mc_score = score s, mc_seq = i\<rparr>) (zip [0..<length tier] tier)"

text \<open>The block inlined once for each tier: keep the best candidates, then list the
  unsaturated ones before the saturated ones.\<close>

definition rank_tier ::
  "(portillia_relay_state \<Rightarrow> int) \<Rightarrow> portillia_relay_state list \<Rightarrow> cstring list" where
  "rank_tier score tier =
     (let candidates = foldl (\<lambda>arr c. insert_candidate better_mols_candidate MOLS_CANDIDATE_DEPTH c arr)
                         [] (tier_candidates score tier)
      in map (\<lambda>c. state_url (mc_state c)) (filter (\<lambda>c. \<not> is_saturated (mc_state c)) candidates) @
         map (\<lambda>c. state_url (mc_state c)) (filter (\<lambda>c. is_saturated (mc_state c)) candidates))"

text \<open>The split into active and fallback arrays of 256 slots, with the promotion of the
  fastest fallback relays when fewer than two are active.\<close>

definition partition_pool ::
  "portillia_relay_state list \<Rightarrow> portillia_relay_state list \<times> portillia_relay_state list" where
  "partition_pool pool =
     (let active = take 256 (filter (\<lambda>s. \<not> is_relay_fallback s) pool);
          fallback = take 256 (filter is_relay_fallback pool)
      in if length active < MOLS_MIN_ACTIVE_NODES \<and> 0 < length fallback then
           let fallback = exchange_sort discovery_rtt_ms fallback;
               promote = min (MOLS_MIN_ACTIVE_NODES - length active) (length fallback)
           in (active @ take promote fallback, drop promote fallback)
         else (active, fallback))"

definition rank_relay_pool ::
  "portillia_relay_state list \<Rightarrow> cstring option \<Rightarrow> cstring list option" where
  "rank_relay_pool pool local_address =
     (if pool = [] then None
      else let ingress_idx = hash_to_gf64 local_address;
               (avg_rtt_ms, cv) = mols_rtt_stats pool;
               congested = 500 < avg_rtt_ms;
               non_linear = 1 / 2 < cv;
               m1 = (if non_linear then 7 else 3);
               m2 = (if non_linear then 11 else 5);
               order = grid_order_for_size (int (length pool));
               score = tier_score congested (uint ingress_idx) m1 m2 order;
               (active, fallback) = partition_pool pool
           in Some (rank_tier score active @ rank_tier score fallback))"

section \<open>Public selectors\<close>

definition priority_eligible ::
  "time_t \<Rightarrow> bool \<Rightarrow> bool \<Rightarrow> portillia_relay_state \<Rightarrow> bool" where
  "priority_eligible now require_udp require_tcp s \<longleftrightarrow>
     \<not> banned s \<and>
     (nonempty (d_address (descriptor s)) \<longrightarrow>
        \<not> d_expires_at (descriptor s) \<le> now \<and>
        \<not> (require_udp \<and> \<not> d_supports_udp (descriptor s)) \<and>
        \<not> (require_tcp \<and> \<not> d_supports_tcp (descriptor s))) \<and>
     \<not> now < suppress_active_until s"

definition mols_select_priority ::
  "portillia_relay_state list \<Rightarrow> cstring option \<Rightarrow> bool \<Rightarrow> bool \<Rightarrow> int \<Rightarrow> time_t \<Rightarrow> cstring list option"
  where
  "mols_select_priority states local_address require_udp require_tcp max_active now =
     (if states = [] then None
      else let auto_pool = take 256 (filter (priority_eligible now require_udp require_tcp) states)
           in case rank_relay_pool auto_pool local_address of
                None \<Rightarrow> None
              | Some ranked \<Rightarrow>
                  let m = (if max_active \<le> 0 then MOLS_DEFAULT_MAX_ACTIVE_RELAYS else max_active)
                  in Some (take (nat m) ranked))"

definition multihop_eligible ::
  "time_t \<Rightarrow> bool \<Rightarrow> bool \<Rightarrow> portillia_relay_state \<Rightarrow> bool" where
  "multihop_eligible now require_udp require_tcp s \<longleftrightarrow>
     \<not> banned s \<and>
     nonempty (d_address (descriptor s)) \<and>
     \<not> d_expires_at (descriptor s) \<le> now \<and>
     \<not> (require_udp \<and> \<not> d_supports_udp (descriptor s)) \<and>
     \<not> (require_tcp \<and> \<not> d_supports_tcp (descriptor s)) \<and>
     d_supports_overlay (descriptor s) \<and>
     nonempty (d_wireguard_public_key (descriptor s)) \<and>
     \<not> (d_wireguard_port (descriptor s) \<le> 0 \<or> 65535 < d_wireguard_port (descriptor s)) \<and>
     \<not> now < suppress_active_until s"

definition mols_select_multihop ::
  "portillia_relay_state list \<Rightarrow> cstring option \<Rightarrow> bool \<Rightarrow> bool \<Rightarrow> int \<Rightarrow> time_t \<Rightarrow> cstring list option"
  where
  "mols_select_multihop states local_address require_udp require_tcp multi_hop_depth now =
     (if states = [] \<or> multi_hop_depth \<le> 1 then None
      else let auto_pool = take 256 (filter (multihop_eligible now require_udp require_tcp) states)
           in case rank_relay_pool auto_pool local_address of
                None \<Rightarrow> None
              | Some ranked \<Rightarrow> Some (take (nat multi_hop_depth) ranked))"

section \<open>The scores form a pair of orthogonal Latin squares\<close>

lemma byte_small_iff: "(w :: byte) < 64 \<longleftrightarrow> w AND 0x3f = w"
proof -
  have "w AND 0x3f = take_bit 6 w" by (simp add: take_bit_eq_mask mask_eq_exp_minus_1)
  also have "\<dots> = w mod 64" by (simp add: take_bit_eq_mod)
  finally have "w AND 0x3f = w \<longleftrightarrow> unat w mod 64 = unat w"
    by (simp add: word_unat_eq_iff unat_mod)
  then show ?thesis by (auto simp: word_less_nat_alt intro: mod_less mod_less_divisor dest: sym)
qed

lemma byte_small_xor: "(v :: byte) < 64 \<Longrightarrow> w < 64 \<Longrightarrow> v XOR w < 64"
  by (simp add: byte_small_iff bit.conj_xor_distrib2)

lemma byte_small_and: "(w :: byte) AND 0x3f < 64"
  by (simp add: byte_small_iff and.assoc)

lemma gf64_loop_small: "a < 64 \<Longrightarrow> r < 64 \<Longrightarrow> gf64_loop a b r < 64"
proof (induction a b r rule: gf64_loop.induct)
  case (1 a b r)
  then show ?case
    by (subst gf64_loop.simps) (simp add: byte_small_xor byte_small_and)
qed

lemma gf64_mul_small: "gf64_mul a b < 64"
  by (simp add: gf64_mul_def gf64_loop_small byte_small_and)

definition row_code :: "int \<Rightarrow> int \<Rightarrow> int \<Rightarrow> byte" where
  "row_code m1 m2 i = gf64_mul (word_of_int m1) (word_of_int i) XOR gf64_mul (word_of_int m2) (word_of_int i)"

lemma row_codes_distinct:
  "distinct (map (row_code 3 5) [0..63])" "distinct (map (row_code 7 11) [0..63])"
  by (simp_all add: upto_rec1 row_code_def gf64_mul_def gf64_loop.simps)

text \<open>The multiplier pairs the selector uses.\<close>

definition mols_multipliers :: "int \<times> int \<Rightarrow> bool" where
  "mols_multipliers m \<longleftrightarrow> m = (3, 5) \<or> m = (7, 11)"

lemma row_code_inj: "mols_multipliers (m1, m2) \<Longrightarrow> inj_on (row_code m1 m2) {0..63}"
  using row_codes_distinct by (auto simp: mols_multipliers_def distinct_map)

lemma word_of_int_inj_small:
  "0 \<le> j \<Longrightarrow> j < 64 \<Longrightarrow> 0 \<le> j' \<Longrightarrow> j' < 64 \<Longrightarrow> (word_of_int j :: byte) = word_of_int j' \<Longrightarrow> j = j'"
  by (auto dest!: arg_cong [where f = uint] simp: uint_word_of_int)

lemma small_uint: "(w :: byte) < 64 \<Longrightarrow> 0 \<le> uint w \<and> uint w < 64"
  by (simp add: word_less_def)

lemma small_word_of_int: "0 \<le> j \<Longrightarrow> j < 64 \<Longrightarrow> (word_of_int j :: byte) < 64"
  by (simp add: word_less_def uint_word_of_int)

definition latin_cell :: "int \<Rightarrow> int \<Rightarrow> int \<Rightarrow> byte" where
  "latin_cell m i j = gf64_mul (word_of_int m) (word_of_int i) XOR word_of_int j"

lemma mols_score_64:
  "mols_score i j m1 m2 64 = uint (latin_cell m1 i j) * 64 + uint (latin_cell m2 i j) + 1"
  by (simp add: mols_score_def latin_cell_def Let_def)

lemma latin_cell_small: "0 \<le> j \<Longrightarrow> j < 64 \<Longrightarrow> 0 \<le> uint (latin_cell m i j) \<and> uint (latin_cell m i j) < 64"
  unfolding latin_cell_def by (intro small_uint byte_small_xor gf64_mul_small small_word_of_int)

lemma latin_cell_row: "latin_cell m1 i j XOR latin_cell m2 i j = row_code m1 m2 i"
  by (simp add: latin_cell_def row_code_def ac_simps)

lemma latin_cell_col:
  "latin_cell m i j = latin_cell m i j' \<Longrightarrow> (word_of_int j :: byte) = word_of_int j'"
  by (drule arg_cong [where f = "\<lambda>w. gf64_mul (word_of_int m) (word_of_int i) XOR w"])
    (simp add: latin_cell_def flip: xor.assoc)

lemma score_pair_eq:
  assumes "(a :: int) * 64 + b + 1 = c * 64 + d + 1" "0 \<le> b" "b < 64" "0 \<le> d" "d < 64"
  shows "a = c" "b = d"
proof -
  have "(a * 64 + b) div 64 = a" "(c * 64 + d) div 64 = c" using assms(2-5) by simp_all
  then show "a = c" using assms(1) by simp
  then show "b = d" using assms(1) by simp
qed

lemma mols_score_64_inj:
  assumes m: "mols_multipliers (m1, m2)"
    and "0 \<le> i" "i < 64" "0 \<le> j" "j < 64" "0 \<le> i'" "i' < 64" "0 \<le> j'" "j' < 64"
    and eq: "mols_score i j m1 m2 64 = mols_score i' j' m1 m2 64"
  shows "i = i' \<and> j = j'"
proof -
  have cells: "latin_cell m1 i j = latin_cell m1 i' j'" "latin_cell m2 i j = latin_cell m2 i' j'"
    using score_pair_eq [OF eq [unfolded mols_score_64]] latin_cell_small assms(4,5,8,9)
    by (simp_all add: word_uint_eq_iff)
  then have "row_code m1 m2 i = row_code m1 m2 i'" by (metis latin_cell_row)
  then have i: "i = i'" using row_code_inj [OF m] assms(2,3,6,7) by (auto simp: inj_on_def)
  have "(word_of_int j :: byte) = word_of_int j'"
    using cells(1) i by (auto intro: latin_cell_col)
  then show ?thesis using i word_of_int_inj_small assms(4,5,8,9) by blast
qed

lemma mols_score_64_range:
  "0 \<le> j \<Longrightarrow> j < 64 \<Longrightarrow> 1 \<le> mols_score i j m1 m2 64 \<and> mols_score i j m1 m2 64 \<le> 4096"
  using latin_cell_small [of j m1 i] latin_cell_small [of j m2 i] unfolding mols_score_64 by linarith

abbreviation grid :: "(int \<times> int) set" where
  "grid \<equiv> {0..<64} \<times> {0..<64}"

lemma mols_score_64_bij:
  assumes "mols_multipliers (m1, m2)"
  shows "bij_betw (\<lambda>(i, j). mols_score i j m1 m2 64) grid {1..4096}"
proof -
  let ?f = "\<lambda>(i, j). mols_score i j m1 m2 64"
  have inj: "inj_on ?f grid"
    by (auto simp: inj_on_def dest!: mols_score_64_inj [OF assms, rotated 8])
  have sub: "?f ` grid \<subseteq> {1..4096}" using mols_score_64_range by auto
  have "card (?f ` grid) = card {1..4096 :: int}"
    using card_image [OF inj] by (simp add: card_cartesian_product)
  then have "?f ` grid = {1..4096}" using sub by (intro card_subset_eq) auto
  then show ?thesis using inj by (simp add: bij_betw_def)
qed

lemma bij_betw_complement: "bij_betw (\<lambda>x. 4097 - x) {1..4096 :: int} {1..4096}"
  by (rule bij_betw_byWitness [where f' = "\<lambda>x. 4097 - x"]) auto

lemma bij_betw_reflect: "bij_betw (\<lambda>(i, j). (i, 63 - j)) grid grid"
  by (rule bij_betw_byWitness [where f' = "\<lambda>(i, j). (i, 63 - j)"]) auto



text \<open>Beyond 64 relays the grid is computed modulo its order, and the two squares are no longer
  orthogonal: for every pool of 65 to 96 relays (order 96) both multiplier pairs give different
  cells, inside the range of the hash, the same score.\<close>

theorem mols_scores_collide:
  assumes "64 < n" "n \<le> 96"
  shows "grid_order_for_size n = 96 \<and>
    mols_score 0 0 3 5 (grid_order_for_size n) = mols_score 48 48 3 5 (grid_order_for_size n) \<and>
    mols_score 0 0 7 11 (grid_order_for_size n) = mols_score 24 24 7 11 (grid_order_for_size n)"
proof -
  have "grid_order_for_size n = 96"
  proof (cases "n mod 32 = 0")
    case True
    then have "n = 96" using assms by presburger
    then show ?thesis by (simp add: grid_order_for_size_def)
  next
    case False
    then have "n + (32 - n mod 32) = 96" using assms by presburger
    then show ?thesis using False assms by (simp add: grid_order_for_size_def Let_def)
  qed
  then show ?thesis by (simp add: mols_score_def)
qed

theorem mols_scores_collide_witness:
  "grid_order_for_size 80 = 96 \<and>
   mols_score 0 0 3 5 (grid_order_for_size 80) = mols_score 48 48 3 5 (grid_order_for_size 80) \<and>
   mols_score 0 0 7 11 (grid_order_for_size 80) = mols_score 24 24 7 11 (grid_order_for_size 80)"
  by (rule mols_scores_collide) simp_all

section \<open>What the ranking returns\<close>

interpretation mols_rank: strict_ranking better_mols_candidate mc_seq
proof
  show "\<not> better_mols_candidate a a" for a by (simp add: better_mols_candidate_def Let_def)
next
  fix a b c
  assume "better_mols_candidate a b" "better_mols_candidate b c"
  then show "better_mols_candidate a c"
    using strcmp_less_trans
    by (auto simp: better_mols_candidate_def Let_def split: if_splits dest: strcmp_less_asym)
next
  fix a b :: mols_candidate
  assume "mc_seq a \<noteq> mc_seq b"
  then show "better_mols_candidate a b \<or> better_mols_candidate b a"
    using strcmp_less_linear [of "state_url (mc_state a)" "state_url (mc_state b)"]
    by (auto simp: better_mols_candidate_def Let_def)
qed

lemma map_seq_tier_candidates: "map mc_seq (tier_candidates score tier) = [0..<length tier]"
  by (rule nth_equalityI) (auto simp: tier_candidates_def)

lemma map_state_tier_candidates: "map mc_state (tier_candidates score tier) = tier"
  by (rule nth_equalityI) (auto simp: tier_candidates_def)

lemma score_tier_candidates: "c \<in> set (tier_candidates score tier) \<Longrightarrow> mc_score c = score (mc_state c)"
  by (auto simp: tier_candidates_def)

text \<open>What a tier lists: unsaturated candidates first, then the saturated ones.\<close>

definition tier_output :: "mols_candidate list \<Rightarrow> cstring list" where
  "tier_output cs =
     map (\<lambda>c. state_url (mc_state c))
       (filter (\<lambda>c. \<not> is_saturated (mc_state c)) cs @ filter (\<lambda>c. is_saturated (mc_state c)) cs)"

lemma mset_tier_output: "mset (tier_output cs) = mset (map (state_url \<circ> mc_state) cs)"
  by (induction cs) (auto simp: tier_output_def)

lemma rank_tier_full:
  "\<exists>full. mset full = mset (tier_candidates score tier) \<and> sorted_wrt better_mols_candidate full \<and>
     rank_tier score tier = tier_output (take 8 full)"
proof -
  have "distinct (map mc_seq (tier_candidates score tier))" by (simp add: map_seq_tier_candidates)
  from mols_rank.insert_candidates_best [OF this, of MOLS_CANDIDATE_DEPTH] obtain full where
    "mset full = mset (tier_candidates score tier)" "sorted_wrt better_mols_candidate full"
    "foldl (\<lambda>arr c. insert_candidate better_mols_candidate MOLS_CANDIDATE_DEPTH c arr) []
       (tier_candidates score tier) = take MOLS_CANDIDATE_DEPTH full"
    by blast
  then show ?thesis
    by (intro exI [of _ full]) (simp add: rank_tier_def tier_output_def MOLS_CANDIDATE_DEPTH_def Let_def)
qed

lemma rank_tier_properties:
  "length (rank_tier score tier) = min 8 (length tier)"
  "set (rank_tier score tier) \<subseteq> state_url ` set tier"
  "length tier \<le> 8 \<Longrightarrow> mset (rank_tier score tier) = mset (map state_url tier)"
proof -
  obtain full where full: "mset full = mset (tier_candidates score tier)"
    and out: "rank_tier score tier = tier_output (take 8 full)"
    using rank_tier_full by blast
  have states: "mset (map mc_state full) = mset tier"
    using arg_cong [OF full, of "image_mset mc_state"] map_state_tier_candidates [of score tier]
    by (metis mset_map)
  have len: "length full = length tier" using arg_cong [OF states, of size] by simp
  have outset: "mset (rank_tier score tier) = mset (map (state_url \<circ> mc_state) (take 8 full))"
    by (simp add: out mset_tier_output)
  show "length (rank_tier score tier) = min 8 (length tier)"
    using arg_cong [OF outset, of size] len by simp
  have "set (rank_tier score tier) = (state_url \<circ> mc_state) ` set (take 8 full)"
    using arg_cong [OF outset, of set_mset] by simp
  also have "\<dots> \<subseteq> state_url ` set (map mc_state full)"
    using set_take_subset [of 8 full] by auto
  also have "set (map mc_state full) = set tier" using states by (rule mset_eq_setD)
  finally show "set (rank_tier score tier) \<subseteq> state_url ` set tier" .
  show "mset (rank_tier score tier) = mset (map state_url tier)" if "length tier \<le> 8"
    using outset len that arg_cong [OF states, of "image_mset state_url"]
    by (simp add: multiset.map_comp)
qed

text \<open>C32. Ranking a tier is equivalent to a reference: sort all candidates of the tier by score
  (descending), then confirmed before unconfirmed, then URL, then position; keep the first eight;
  list the unsaturated before the saturated ones. The array code with its in-place shifting
  computes exactly this.\<close>

theorem rank_tier_reference:
  "\<exists>full. mset full = mset (tier_candidates score tier) \<and> sorted_wrt better_mols_candidate full \<and>
     rank_tier score tier =
       map (\<lambda>c. state_url (mc_state c)) (filter (\<lambda>c. \<not> is_saturated (mc_state c)) (take 8 full)) @
       map (\<lambda>c. state_url (mc_state c)) (filter (\<lambda>c. is_saturated (mc_state c)) (take 8 full))"
  using rank_tier_full [of score tier] by (simp add: tier_output_def)

section \<open>The split into tiers\<close>

lemma mset_filter_split: "mset (filter P xs) + mset (filter (\<lambda>x. \<not> P x) xs) = mset xs"
  by (induction xs) auto

abbreviation active_part :: "portillia_relay_state list \<Rightarrow> portillia_relay_state list" where
  "active_part pool \<equiv> take 256 (filter (\<lambda>s. \<not> is_relay_fallback s) pool)"

abbreviation fallback_part :: "portillia_relay_state list \<Rightarrow> portillia_relay_state list" where
  "fallback_part pool \<equiv> take 256 (filter is_relay_fallback pool)"

text \<open>A prefix of a reordering of the fallback part moves to the end of the active part; when
  anything moves, the reordering is sorted by RTT.\<close>

lemma partition_pool_shape:
  assumes "partition_pool pool = (active, fallback)"
  shows "\<exists>k fs. mset fs = mset (fallback_part pool) \<and> active = active_part pool @ take k fs \<and>
    fallback = drop k fs \<and> (k = 0 \<or> sorted (map discovery_rtt_ms fs))"
proof (cases "length (active_part pool) < MOLS_MIN_ACTIVE_NODES \<and> 0 < length (fallback_part pool)")
  case True
  let ?fs = "exchange_sort discovery_rtt_ms (fallback_part pool)"
  have "active = active_part pool @ take (min (MOLS_MIN_ACTIVE_NODES - length (active_part pool)) (length ?fs)) ?fs"
    "fallback = drop (min (MOLS_MIN_ACTIVE_NODES - length (active_part pool)) (length ?fs)) ?fs"
    using assms True unfolding partition_pool_def Let_def if_P [OF True] by simp_all
  then show ?thesis using exchange_sort_correct [of discovery_rtt_ms "fallback_part pool"] by blast
next
  case False
  have "active = active_part pool @ take 0 (fallback_part pool)" "fallback = drop 0 (fallback_part pool)"
    using assms unfolding partition_pool_def Let_def if_not_P [OF False] by simp_all
  then show ?thesis by blast
qed

lemma mset_take_drop: "mset (take k xs) + mset (drop k xs) = mset xs"
  by (metis append_take_drop_id mset_append)

lemma partition_pool_mset_parts:
  "partition_pool pool = (active, fallback) \<Longrightarrow>
   mset active + mset fallback = mset (active_part pool) + mset (fallback_part pool)"
  using partition_pool_shape [of pool active fallback] mset_take_drop
  by (auto simp: add.assoc simp del: mset_append) (simp_all add: add.assoc mset_take_drop)

lemma partition_pool_mset:
  assumes "length pool \<le> 256" "partition_pool pool = (active, fallback)"
  shows "mset active + mset fallback = mset pool"
proof -
  have "length (filter P pool) \<le> 256" for P
    using assms(1) length_filter_le [of P pool] by linarith
  then show ?thesis
    using partition_pool_mset_parts [OF assms(2)] mset_filter_split [of is_relay_fallback pool]
    by (simp add: add.commute)
qed

lemma partition_pool_set:
  assumes "partition_pool pool = (active, fallback)"
  shows "set active \<union> set fallback \<subseteq> set pool"
proof -
  have "set active \<union> set fallback = set (active_part pool) \<union> set (fallback_part pool)"
    using arg_cong [OF partition_pool_mset_parts [OF assms], of set_mset] by simp
  then show ?thesis by (auto dest: in_set_takeD)
qed

lemma partition_pool_min_active:
  "partition_pool pool = (active, fallback) \<Longrightarrow> fallback \<noteq> [] \<Longrightarrow> 2 \<le> length active"
  by (auto simp: partition_pool_def Let_def MOLS_MIN_ACTIVE_NODES_def split: if_splits)

lemma partition_pool_active_ne:
  assumes "pool \<noteq> []" "partition_pool pool = (active, fallback)"
  shows "active \<noteq> []"
proof
  assume "active = []"
  then have "fallback = []" using partition_pool_min_active [OF assms(2)] by fastforce
  then have "mset (active_part pool) + mset (fallback_part pool) = {#}"
    using partition_pool_mset_parts [OF assms(2)] \<open>active = []\<close> by simp
  then have "filter (\<lambda>s. \<not> is_relay_fallback s) pool = []" "filter is_relay_fallback pool = []"
    by simp_all
  then show False using assms(1) mset_filter_split [of is_relay_fallback pool] by simp
qed

text \<open>The split of a pool into tiers keeps every relay exactly once (for pools within the
  256-slot arrays), never leaves fewer than two active relays while fallback relays remain, and
  promotes the fastest of the slow relays: no promoted relay is slower than one left behind.\<close>

theorem partition_pool_promotes_fastest:
  assumes "length pool \<le> 256" "partition_pool pool = (active, fallback)"
  shows "mset active + mset fallback = mset pool \<and>
    (fallback \<noteq> [] \<longrightarrow> 2 \<le> length active) \<and>
    (\<forall>a \<in> set active. is_relay_fallback a \<longrightarrow>
       (\<forall>b \<in> set fallback. discovery_rtt_ms a \<le> discovery_rtt_ms b))"
proof (intro conjI ballI impI)
  show "mset active + mset fallback = mset pool" by (rule partition_pool_mset) fact+
  show "2 \<le> length active" if "fallback \<noteq> []"
    by (rule partition_pool_min_active) (use assms that in auto)
  fix a b assume ab: "a \<in> set active" "is_relay_fallback a" "b \<in> set fallback"
  obtain k fs where k: "active = active_part pool @ take k fs" "fallback = drop k fs"
    "k = 0 \<or> sorted (map discovery_rtt_ms fs)"
    using partition_pool_shape [OF assms(2)] by blast
  have "a \<notin> set (active_part pool)" using ab(2) by (auto dest: in_set_takeD)
  then have a: "a \<in> set (take k fs)" using ab(1) k(1) by simp
  then have "sorted (map discovery_rtt_ms (take k fs) @ map discovery_rtt_ms (drop k fs))"
    using k(3) by (auto simp flip: map_append)
  then show "discovery_rtt_ms a \<le> discovery_rtt_ms b"
    using a ab(3) k(2) unfolding sorted_append by auto
qed

text \<open>A pool of one fast and two slow relays, the slower one listed first.\<close>

definition rtt_relay :: "cstring \<Rightarrow> real \<Rightarrow> portillia_relay_state" where
  "rtt_relay url rtt = (url_relay_state url)\<lparr>discovery_rtt_ms := rtt, discovery_rtt_at := 1\<rparr>"

theorem partition_pool_promotes_fastest_witness:
  "partition_pool [rtt_relay ''a'' 4000, rtt_relay ''b'' 3000, rtt_relay ''c'' 20] =
     ([rtt_relay ''c'' 20, rtt_relay ''b'' 3000], [rtt_relay ''a'' 4000]) \<and>
   mset [rtt_relay ''c'' 20, rtt_relay ''b'' 3000] + mset [rtt_relay ''a'' 4000] =
     mset [rtt_relay ''a'' 4000, rtt_relay ''b'' 3000, rtt_relay ''c'' 20]"
proof -
  have p: "partition_pool [rtt_relay ''a'' 4000, rtt_relay ''b'' 3000, rtt_relay ''c'' 20] =
     ([rtt_relay ''c'' 20, rtt_relay ''b'' 3000], [rtt_relay ''a'' 4000])"
    by (simp add: partition_pool_def is_relay_fallback_def rtt_relay_def MOLS_MIN_ACTIVE_NODES_def
        exchange_sort_def exchange_pass_def swap_def Let_def upt_rec)
  show ?thesis using p partition_pool_promotes_fastest [OF _ p] by simp
qed

section \<open>What the selectors return\<close>

lemma rank_relay_pool_shape:
  assumes "pool \<noteq> []"
  obtains score active fallback where "partition_pool pool = (active, fallback)"
    "rank_relay_pool pool a = Some (rank_tier score active @ rank_tier score fallback)"
  using assms that by (cases "partition_pool pool") (simp add: rank_relay_pool_def Let_def case_prod_unfold)

lemma rank_relay_pool_sound:
  assumes "pool \<noteq> []"
  shows "\<exists>urls. rank_relay_pool pool a = Some urls \<and> urls \<noteq> [] \<and> length urls \<le> 16 \<and>
    set urls \<subseteq> state_url ` set pool \<and>
    (length pool \<le> 8 \<longrightarrow> mset urls = mset (map state_url pool))"
proof -
  obtain score active fallback where p: "partition_pool pool = (active, fallback)"
    and r: "rank_relay_pool pool a = Some (rank_tier score active @ rank_tier score fallback)"
    using rank_relay_pool_shape [OF assms] .
  let ?urls = "rank_tier score active @ rank_tier score fallback"
  have "active \<noteq> []" using partition_pool_active_ne [OF assms p] .
  then have "0 < length (rank_tier score active)" by (simp add: rank_tier_properties(1))
  then have "?urls \<noteq> []" by auto
  moreover have "length ?urls \<le> 16" by (simp add: rank_tier_properties(1))
  moreover have "set ?urls \<subseteq> state_url ` set pool"
    using rank_tier_properties(2) [of score active] rank_tier_properties(2) [of score fallback]
      partition_pool_set [OF p] by (simp, blast)
  moreover have "mset ?urls = mset (map state_url pool)" if "length pool \<le> 8"
  proof -
    have m: "mset active + mset fallback = mset pool"
      using that by (intro partition_pool_mset [OF _ p]) simp
    then have "length active + length fallback = length pool"
      by (metis size_mset size_union)
    then show ?thesis
      using that m rank_tier_properties(3) by (simp add: flip: m)
  qed
  ultimately show ?thesis using r by blast
qed

lemma rank_relay_pool_Nil [simp]: "rank_relay_pool [] a = None"
  by (simp add: rank_relay_pool_def)

lemma rank_relay_pool_None [simp]: "rank_relay_pool pool a = None \<longleftrightarrow> pool = []"
  using rank_relay_pool_sound [of pool a] by (auto simp: rank_relay_pool_def)

text \<open>Both selectors filter, rank and truncate; this is the common contract.\<close>

lemma select_sound:
  assumes "rank_relay_pool (take 256 (filter ok states)) a = Some ranked" "0 < m"
  shows "take m ranked \<noteq> [] \<and> length (take m ranked) \<le> min m 16 \<and>
    (\<forall>u \<in> set (take m ranked). \<exists>s \<in> set states. ok s \<and> state_url s = u)"
proof -
  have "take 256 (filter ok states) \<noteq> []" using assms(1) rank_relay_pool_None by fastforce
  with rank_relay_pool_sound [OF this, of a] assms(1) have
    r: "ranked \<noteq> []" "length ranked \<le> 16"
      "set ranked \<subseteq> state_url ` set (take 256 (filter ok states))"
    by auto
  have "\<exists>s \<in> set states. ok s \<and> state_url s = u" if "u \<in> set (take m ranked)" for u
    using r(3) in_set_takeD [OF that] by (fastforce dest: in_set_takeD)
  then show ?thesis using r(1,2) assms(2) by auto
qed

text \<open>The priority selector finds relays exactly when one is eligible, returns at most the
  requested number (three when none is requested), and every URL it returns is that of an
  eligible relay of the set: not banned, not suppressed, and if its descriptor is known, not
  expired and with the transports the client requires.\<close>

theorem select_priority_eligible:
  assumes "states \<noteq> []"
  shows "case mols_select_priority states a udp tcp max_active now of
      None \<Rightarrow> \<forall>s \<in> set states. \<not> priority_eligible now udp tcp s
    | Some urls \<Rightarrow> urls \<noteq> [] \<and>
        length urls \<le> nat (if max_active \<le> 0 then 3 else max_active) \<and>
        (\<forall>u \<in> set urls. \<exists>s \<in> set states. priority_eligible now udp tcp s \<and> state_url s = u)"
proof (cases "rank_relay_pool (take 256 (filter (priority_eligible now udp tcp) states)) a")
  case None
  then show ?thesis using assms by (auto simp: mols_select_priority_def filter_empty_conv)
next
  case (Some ranked)
  have "0 < nat (if max_active \<le> 0 then MOLS_DEFAULT_MAX_ACTIVE_RELAYS else max_active)"
    by (simp add: MOLS_DEFAULT_MAX_ACTIVE_RELAYS_def)
  from select_sound [OF Some this] show ?thesis
    using assms Some
    by (auto simp: mols_select_priority_def Let_def MOLS_DEFAULT_MAX_ACTIVE_RELAYS_def)
qed

theorem select_priority_eligible_witness:
  "mols_select_priority [(url_relay_state ''https://x'')\<lparr>banned := True\<rparr>, url_relay_state ''https://r'']
     (Some ''0xabc'') True False 0 100 = Some [''https://r'']"
proof -
  let ?states = "[(url_relay_state ''https://x'')\<lparr>banned := True\<rparr>, url_relay_state ''https://r'']"
  have ok: "filter (priority_eligible 100 True False) ?states = [url_relay_state ''https://r'']"
    by (simp add: priority_eligible_def url_relay_state_def zero_relay_state_def
        portillia_relay_descriptor_init_def)
  have "mset (the (rank_relay_pool [url_relay_state ''https://r''] a)) = {#''https://r''#}" for a
    using rank_relay_pool_sound [of "[url_relay_state ''https://r'']" a] by auto
  then have r: "rank_relay_pool [url_relay_state ''https://r''] a = Some [''https://r'']" for a
    using rank_relay_pool_sound [of "[url_relay_state ''https://r'']" a] by auto
  show ?thesis
    using select_priority_eligible [of ?states, where a = "Some ''0xabc''" and max_active = 0
        and udp = True and tcp = False and now = 100] ok r
    by (simp add: mols_select_priority_def MOLS_DEFAULT_MAX_ACTIVE_RELAYS_def)
qed

text \<open>A multi-hop selection has at most the requested depth, is made only for a depth of at
  least two, and each hop is an eligible overlay relay of the set: not banned or suppressed, with
  an unexpired descriptor, a WireGuard key and a port in 1 to 65535.\<close>

theorem select_multihop_eligible:
  "case mols_select_multihop states a udp tcp hops now of
      None \<Rightarrow> states = [] \<or> hops \<le> 1 \<or> (\<forall>s \<in> set states. \<not> multihop_eligible now udp tcp s)
    | Some urls \<Rightarrow> 2 \<le> hops \<and> urls \<noteq> [] \<and> int (length urls) \<le> hops \<and>
        (\<forall>u \<in> set urls. \<exists>s \<in> set states. multihop_eligible now udp tcp s \<and>
           portillia_relay_descriptor_has_overlay_peer (descriptor s) \<and>
           portillia_relay_state_has_observed_descriptor s \<and> state_url s = u)"
proof (cases "states = [] \<or> hops \<le> 1")
  case True
  then show ?thesis by (auto simp: mols_select_multihop_def)
next
  case hops: False
  show ?thesis
  proof (cases "rank_relay_pool (take 256 (filter (multihop_eligible now udp tcp) states)) a")
    case None
    then show ?thesis using hops by (auto simp: mols_select_multihop_def filter_empty_conv)
  next
    case (Some ranked)
    from select_sound [OF Some, of "nat hops"] hops show ?thesis
      using Some
      by (auto simp: mols_select_multihop_def multihop_eligible_def
          portillia_relay_descriptor_has_overlay_peer_def
          portillia_relay_state_has_observed_descriptor_def)
  qed
qed

definition overlay_relay :: "cstring \<Rightarrow> portillia_relay_state" where
  "overlay_relay url =
     zero_relay_state\<lparr>descriptor := portillia_relay_descriptor_init
       \<lparr>d_api_https_addr := Some url, d_address := Some ''0x1'', d_expires_at := 500,
        d_supports_overlay := True, d_wireguard_public_key := Some ''k'', d_wireguard_port := 51820\<rparr>\<rparr>"

theorem select_multihop_eligible_witness:
  "mols_select_multihop [overlay_relay ''https://r''] None False False 3 100 = Some [''https://r'']"
proof -
  have ok: "filter (multihop_eligible 100 False False) [overlay_relay ''https://r''] = [overlay_relay ''https://r'']"
    by (simp add: multihop_eligible_def overlay_relay_def zero_relay_state_def
        portillia_relay_descriptor_init_def)
  have "rank_relay_pool [overlay_relay ''https://r''] None = Some [''https://r'']"
    using rank_relay_pool_sound [of "[overlay_relay ''https://r'']" None]
    by (auto simp: overlay_relay_def state_url_def zero_relay_state_def portillia_relay_descriptor_init_def)
  then show ?thesis
    using select_multihop_eligible [where states = "[overlay_relay ''https://r'']" and a = None
        and udp = False and tcp = False and hops = 3 and now = 100] ok
    by (simp add: mols_select_multihop_def)
qed

end
