(* ===== verification/Sni_Parser.thy ===== *)
theory Sni_Parser
  imports Portillia_Prelude "HOL-Library.Monad_Syntax"
begin

text \<open>
  The ClientHello parser of \<^verbatim>\<open>src/portal/sni_parser.c\<close>, which reads the server name from peeked
  bytes without terminating TLS. Every read of a buffer is a checked read: the outer \<open>option\<close> of
  a parser's result is \<open>None\<close> exactly when the code would read outside the buffer it was given,
  and \<open>Some r\<close> holds the C return value \<open>r\<close> (\<open>None\<close> for \<open>NULL\<close>). The properties show that the
  outer \<open>None\<close> never happens and what the parser returns on well-formed and on truncated input.
\<close>

named_theorems safe_intros
  \<open>when a composition of checked reads stays inside its buffers\<close>

section \<open>Checked access\<close>

definition rd :: "byte list \<Rightarrow> nat \<Rightarrow> byte option" where
  "rd buf i = (if i < length buf then Some (buf ! i) else None)"

definition rd16 :: "byte list \<Rightarrow> nat \<Rightarrow> nat option" where
  "rd16 buf i = do { a \<leftarrow> rd buf i; b \<leftarrow> rd buf (i + 1); Some (be16 a b) }"

definition rd24 :: "byte list \<Rightarrow> nat \<Rightarrow> nat option" where
  "rd24 buf i = do { a \<leftarrow> rd buf i; b \<leftarrow> rd buf (i + 1); c \<leftarrow> rd buf (i + 2); Some (be24 a b c) }"

definition slice :: "byte list \<Rightarrow> nat \<Rightarrow> nat \<Rightarrow> byte list option" where
  "slice buf i n = (if i + n \<le> length buf then Some (take n (drop i buf)) else None)"

section \<open>The parser\<close>

definition normalize_server_name :: "byte list \<Rightarrow> byte list option" where
  "normalize_server_name name =
     (let s = dropWhile byte_isspace name;
          s = rev (dropWhile byte_isspace (rev s));
          s = rev (dropWhile (\<lambda>b. b = 46) (rev s))
      in if s = [] then None else Some (map byte_tolower s))"

text \<open>The \<open>while (pos + 3 <= end)\<close> loop over the server name list.\<close>

function server_name_loop :: "byte list \<Rightarrow> nat \<Rightarrow> nat \<Rightarrow> byte list option option" where
  "server_name_loop ext end pos =
     (if pos + 3 \<le> end then do {
        name_type \<leftarrow> rd ext pos;
        name_len \<leftarrow> rd16 ext (pos + 1);
        if end < pos + 3 + name_len then Some None
        else if name_type = 0 then do {
          name \<leftarrow> slice ext (pos + 3) name_len;
          Some (normalize_server_name name)
        }
        else server_name_loop ext end (pos + 3 + name_len)
      }
      else Some None)"
  by pat_completeness auto
termination by (relation "measure (\<lambda>(ext, end, pos). end - pos)") auto

declare server_name_loop.simps [simp del]

definition parse_server_name_extension :: "byte list \<Rightarrow> byte list option option" where
  "parse_server_name_extension ext =
     (if length ext < 2 then Some None
      else do {
        list_len \<leftarrow> rd16 ext 0;
        if list_len = 0 \<or> length ext < 2 + list_len then Some None
        else server_name_loop ext (2 + list_len) 2
      })"

text \<open>The \<open>while (pos + 4 <= end)\<close> loop over the extensions.\<close>

function extension_loop :: "byte list \<Rightarrow> nat \<Rightarrow> nat \<Rightarrow> byte list option option" where
  "extension_loop msg end pos =
     (if pos + 4 \<le> end then do {
        ext_type \<leftarrow> rd16 msg pos;
        ext_len \<leftarrow> rd16 msg (pos + 2);
        if end < pos + 4 + ext_len then Some None
        else do {
          hostname \<leftarrow> (if ext_type = 0
                       then do { ext \<leftarrow> slice msg (pos + 4) ext_len; parse_server_name_extension ext }
                       else Some None);
          (case hostname of
             Some h \<Rightarrow> Some (Some h)
           | None \<Rightarrow> extension_loop msg end (pos + 4 + ext_len))
        }
      }
      else Some None)"
  by pat_completeness auto
termination by (relation "measure (\<lambda>(msg, end, pos). end - pos)") auto

declare extension_loop.simps [simp del]

definition parse_client_hello_record :: "byte list \<Rightarrow> byte list option option" where
  "parse_client_hello_record body =
     (if length body < 4 then Some None
      else do {
        typ \<leftarrow> rd body 0;
        if typ \<noteq> 1 then Some None
        else do {
          msg_len \<leftarrow> rd24 body 1;
          if msg_len = 0 \<or> length body < 4 + msg_len then Some None
          else if msg_len < 34 then Some None
          else if msg_len \<le> 34 then Some None
          else do {
            msg \<leftarrow> slice body 4 msg_len;
            b \<leftarrow> rd msg 34;
            let session_len = unat b;
            let pos = 35;
            if msg_len < pos + session_len then Some None
            else do {
              let pos = pos + session_len;
              if msg_len < pos + 2 then Some None
              else do {
                cipher_len \<leftarrow> rd16 msg pos;
                let pos = pos + 2;
                if cipher_len < 2 \<or> msg_len < pos + cipher_len then Some None
                else do {
                  let pos = pos + cipher_len;
                  if msg_len \<le> pos then Some None
                  else do {
                    b \<leftarrow> rd msg pos;
                    let compression_len = unat b;
                    let pos = pos + 1;
                    if msg_len < pos + compression_len then Some None
                    else do {
                      let pos = pos + compression_len;
                      if pos = msg_len then Some None
                      else if msg_len < pos + 2 then Some None
                      else do {
                        extensions_len \<leftarrow> rd16 msg pos;
                        let pos = pos + 2;
                        if msg_len < pos + extensions_len then Some None
                        else extension_loop msg (pos + extensions_len) pos
                      }
                    }
                  }
                }
              }
            }
          }
        }
      })"

text \<open>The loop over the TLS records of the peeked stream. The accumulator is \<open>None\<close> until a
  ClientHello has started, then the bytes copied so far and the total wanted; the result is the
  hostname and the \<open>need_more\<close> flag.\<close>

definition hello_stream_end :: "byte list \<Rightarrow> (byte list \<times> nat) option \<Rightarrow> bool \<Rightarrow> (byte list option \<times> bool) option" where
  "hello_stream_end stream acc need_more =
     Some (None, if acc \<noteq> None then True else if length stream < 5 then True else need_more)"

function hello_stream_loop ::
  "byte list \<Rightarrow> nat \<Rightarrow> (byte list \<times> nat) option \<Rightarrow> (byte list option \<times> bool) option" where
  "hello_stream_loop stream pos acc =
     (if pos + 5 \<le> length stream then do {
        content_type \<leftarrow> rd stream pos;
        record_len \<leftarrow> rd16 stream (pos + 3);
        let record_end = pos + 5 + record_len;
        if record_len = 0 \<or> 65535 < record_len then hello_stream_end stream acc False
        else if length stream < record_end then hello_stream_end stream acc True
        else if content_type \<noteq> 22 then
          (if acc = None then
             (if content_type = 20 then hello_stream_loop stream record_end acc
              else hello_stream_end stream acc False)
           else hello_stream_loop stream record_end acc)
        else do {
          payload \<leftarrow> slice stream (pos + 5) record_len;
          (case acc of
             None \<Rightarrow>
               if length payload < 4 then hello_stream_end stream acc True
               else do {
                 typ \<leftarrow> rd payload 0;
                 if typ \<noteq> 1 then hello_stream_end stream acc False
                 else do {
                   msg_len \<leftarrow> rd24 payload 1;
                   if msg_len = 0 \<or> 1048576 < msg_len then hello_stream_end stream acc False
                   else do {
                     let hello_total = msg_len + 4;
                     let hello = take (min (length payload) hello_total) payload;
                     if hello_total \<le> length hello
                     then map_option (\<lambda>h. (h, False)) (parse_client_hello_record hello)
                     else hello_stream_loop stream record_end (Some (hello, hello_total))
                   }
                 }
               }
           | Some (hello, hello_total) \<Rightarrow> do {
               let hello = hello @ take (min (length payload) (hello_total - length hello)) payload;
               if hello_total \<le> length hello
               then map_option (\<lambda>h. (h, False)) (parse_client_hello_record hello)
               else hello_stream_loop stream record_end (Some (hello, hello_total))
             })
        }
      }
      else hello_stream_end stream acc False)"
  by pat_completeness auto
termination by (relation "measure (\<lambda>(stream, pos, acc). length stream - pos)") auto

declare hello_stream_loop.simps [simp del]

definition parse_client_hello_stream :: "byte list \<Rightarrow> (byte list option \<times> bool) option" where
  "parse_client_hello_stream stream = hello_stream_loop stream 0 None"

text \<open>The polling loop around the parser, over what each round observes: no data (with the
  milliseconds left and the result of \<open>poll\<close>), a failing \<open>recv\<close>, or peeked bytes (with the
  milliseconds left afterwards). The outer \<open>None\<close> means that the loop is still running when the
  observations end.\<close>

datatype sni_round =
    No_Data int int
  | Recv_Failed
  | Peeked "byte list" int

fun get_sni_hostname :: "sni_round list \<Rightarrow> byte list option option" where
  "get_sni_hostname [] = None"
| "get_sni_hostname (No_Data remaining_ms rc # rounds) =
     (if remaining_ms \<le> 0 then Some None
      else if rc \<le> 0 then Some None
      else get_sni_hostname rounds)"
| "get_sni_hostname (Recv_Failed # rounds) = Some None"
| "get_sni_hostname (Peeked bytes remaining_ms # rounds) =
     (case parse_client_hello_stream bytes of
        None \<Rightarrow> Some None
      | Some (Some hostname, need_more) \<Rightarrow> Some (Some hostname)
      | Some (None, need_more) \<Rightarrow>
          if \<not> need_more then Some None
          else if remaining_ms \<le> 0 then Some None
          else get_sni_hostname rounds)"

section \<open>No read outside the buffer\<close>

definition safe :: "'a option \<Rightarrow> bool" where
  "safe m \<longleftrightarrow> m \<noteq> None"

lemma safe_Some [safe_intros]: "safe (Some x)"
  by (simp add: safe_def)

lemma safe_bind [safe_intros]: "safe m \<Longrightarrow> (\<And>x. m = Some x \<Longrightarrow> safe (f x)) \<Longrightarrow> safe (m \<bind> f)"
  by (auto simp: safe_def)

lemma safe_if [safe_intros]: "(b \<Longrightarrow> safe x) \<Longrightarrow> (\<not> b \<Longrightarrow> safe y) \<Longrightarrow> safe (if b then x else y)"
  by simp

lemma safe_let [safe_intros]: "(\<And>y. y = x \<Longrightarrow> safe (f y)) \<Longrightarrow> safe (let y = x in f y)"
  by simp

lemma safe_case [safe_intros]:
  "(m = None \<Longrightarrow> safe a) \<Longrightarrow> (\<And>x. m = Some x \<Longrightarrow> safe (f x)) \<Longrightarrow>
   safe (case m of None \<Rightarrow> a | Some x \<Rightarrow> f x)"
  by (cases m) auto

lemma safe_case_Some [safe_intros]:
  "(\<And>x. m = Some x \<Longrightarrow> safe (f x)) \<Longrightarrow> (m = None \<Longrightarrow> safe a) \<Longrightarrow>
   safe (case m of Some x \<Rightarrow> f x | None \<Rightarrow> a)"
  by (cases m) auto

lemma safe_prod [safe_intros]: "(\<And>a b. p = (a, b) \<Longrightarrow> safe (f a b)) \<Longrightarrow> safe (case p of (a, b) \<Rightarrow> f a b)"
  by (cases p) auto

lemma safe_map [safe_intros]: "safe m \<Longrightarrow> safe (map_option f m)"
  by (simp add: safe_def)

lemma safe_rd [safe_intros]: "i < length buf \<Longrightarrow> safe (rd buf i)"
  by (simp add: rd_def safe_def)

lemma safe_rd16 [safe_intros]: "i + 1 < length buf \<Longrightarrow> safe (rd16 buf i)"
  by (simp add: rd16_def rd_def safe_def)

lemma safe_rd24 [safe_intros]: "i + 2 < length buf \<Longrightarrow> safe (rd24 buf i)"
  by (simp add: rd24_def rd_def safe_def)

lemma safe_slice [safe_intros]: "i + n \<le> length buf \<Longrightarrow> safe (slice buf i n)"
  by (simp add: slice_def safe_def)

lemma slice_length: "slice buf i n = Some s \<Longrightarrow> length s = n"
  by (auto simp: slice_def split: if_splits)

lemma server_name_loop_safe [safe_intros]: "end \<le> length ext \<Longrightarrow> safe (server_name_loop ext end pos)"
proof (induction "end - pos" arbitrary: pos rule: less_induct)
  case less
  show ?case
    by (subst server_name_loop.simps, intro safe_intros less.hyps) (use less.prems in auto)
qed

lemma parse_server_name_extension_safe [safe_intros]: "safe (parse_server_name_extension ext)"
  unfolding parse_server_name_extension_def by (intro safe_intros) auto

lemma extension_loop_safe [safe_intros]: "end \<le> length msg \<Longrightarrow> safe (extension_loop msg end pos)"
proof (induction "end - pos" arbitrary: pos rule: less_induct)
  case less
  show ?case
    by (subst extension_loop.simps, intro safe_intros less.hyps) (use less.prems in auto)
qed

lemma parse_client_hello_record_safe [safe_intros]: "safe (parse_client_hello_record body)"
  unfolding parse_client_hello_record_def
  by (intro safe_intros) (auto dest!: slice_length)

lemma hello_stream_end_safe [safe_intros]: "safe (hello_stream_end stream acc b)"
  by (simp add: hello_stream_end_def safe_def)

lemma hello_stream_loop_safe: "safe (hello_stream_loop stream pos acc)"
proof (induction "length stream - pos" arbitrary: pos acc rule: less_induct)
  case less
  show ?case
    by (subst hello_stream_loop.simps, intro safe_intros less.hyps) (auto dest!: slice_length)
qed

text \<open>C31. Parsing peeked bytes is memory safe and total: whatever the peer sent, the ClientHello
  parser returns without a read outside the peeked buffer, the reassembled handshake message or
  the extension it is looking at.\<close>

theorem sni_parser_memory_safe: "parse_client_hello_stream stream \<noteq> None"
  using hello_stream_loop_safe [of stream 0 None]
  by (simp add: parse_client_hello_stream_def safe_def)

section \<open>Well-formed ClientHellos\<close>

definition enc16 :: "nat \<Rightarrow> byte list" where
  "enc16 n = [word_of_nat (n div 256), word_of_nat (n mod 256)]"

definition enc24 :: "nat \<Rightarrow> byte list" where
  "enc24 n = [word_of_nat (n div 65536), word_of_nat (n div 256 mod 256), word_of_nat (n mod 256)]"

definition encode_extension :: "nat \<times> byte list \<Rightarrow> byte list" where
  "encode_extension e = enc16 (fst e) @ enc16 (length (snd e)) @ snd e"

definition encode_server_name :: "byte list \<Rightarrow> byte list" where
  "encode_server_name host = enc16 (length host + 3) @ [0] @ enc16 (length host) @ host"

definition encode_client_hello_msg ::
  "byte list \<Rightarrow> byte list \<Rightarrow> byte list \<Rightarrow> byte list \<Rightarrow> byte list \<Rightarrow> byte list" where
  "encode_client_hello_msg version_random session ciphers compression exts =
     version_random @ word_of_nat (length session) # session @
     enc16 (length ciphers) @ ciphers @
     word_of_nat (length compression) # compression @
     enc16 (length exts) @ exts"

definition encode_client_hello ::
  "byte list \<Rightarrow> byte list \<Rightarrow> byte list \<Rightarrow> byte list \<Rightarrow> byte list \<Rightarrow> byte list" where
  "encode_client_hello version_random session ciphers compression exts =
     (let msg = encode_client_hello_msg version_random session ciphers compression exts
      in 1 # enc24 (length msg) @ msg)"

lemma unat_word_of_nat_byte [simp]: "n < 256 \<Longrightarrow> unat (word_of_nat n :: byte) = n"
  by (simp add: unat_of_nat)

lemma be16_enc [simp]: "n < 65536 \<Longrightarrow> be16 (word_of_nat (n div 256)) (word_of_nat (n mod 256)) = n"
  by (simp add: be16_eq less_mult_imp_div_less)

lemma be24_enc [simp]:
  "n < 16777216 \<Longrightarrow>
   be24 (word_of_nat (n div 65536)) (word_of_nat (n div 256 mod 256)) (word_of_nat (n mod 256)) = n"
proof -
  assume "n < 16777216"
  then have "n div 65536 < 256" by (simp add: less_mult_imp_div_less)
  moreover have "n div 65536 * 65536 + n div 256 mod 256 * 256 + n mod 256 = n"
    using div_mult_mod_eq [of n 256] div_mult_mod_eq [of "n div 256" 256]
      div_mult2_eq [of n 256 256, simplified] by linarith
  ultimately show ?thesis by (simp add: be24_eq)
qed

lemma length_enc16 [simp]: "length (enc16 n) = 2"
  by (simp add: enc16_def)

lemma length_enc24 [simp]: "length (enc24 n) = 3"
  by (simp add: enc24_def)

lemma rd_append: "i = length xs \<Longrightarrow> rd (xs @ b # ys) i = Some b"
  by (simp add: rd_def)

lemma rd16_append: "n < 65536 \<Longrightarrow> i = length xs \<Longrightarrow> rd16 (xs @ enc16 n @ ys) i = Some n"
  by (simp add: rd16_def rd_def enc16_def nth_append)

lemma slice_append: "i = length xs \<Longrightarrow> n = length ys \<Longrightarrow> slice (xs @ ys @ zs) i n = Some ys"
  by (simp add: slice_def)

lemma parse_server_name_encode:
  assumes "length host + 3 < 65536"
  shows "parse_server_name_extension (encode_server_name host) = Some (normalize_server_name host)"
proof -
  let ?ext = "encode_server_name host" and ?l2 = "enc16 (length host + 3)"
  have e: "?ext = ?l2 @ [0] @ enc16 (length host) @ host" by (simp add: encode_server_name_def)
  have r0: "rd16 ?ext 0 = Some (length host + 3)"
    using rd16_append [of "length host + 3" 0 "[]"] assms by (simp add: encode_server_name_def)
  have r1: "rd ?ext 2 = Some 0"
    using rd_append [of 2 ?l2 0 "enc16 (length host) @ host"] by (simp add: e)
  have r2: "rd16 ?ext 3 = Some (length host)"
    using rd16_append [of "length host" 3 "?l2 @ [0]" host] assms by (simp add: e)
  have r3: "slice ?ext 5 (length host) = Some host"
    using slice_append [of 5 "?l2 @ [0] @ enc16 (length host)" "length host" host "[]"] by (simp add: e)
  have len: "length ?ext = length host + 5" by (simp add: e)
  have "server_name_loop ?ext (2 + (length host + 3)) 2 = Some (normalize_server_name host)"
    by (subst server_name_loop.simps) (simp add: r1 r2 r3)
  then show ?thesis
    by (simp add: parse_server_name_extension_def r0 len)
qed

lemma extension_loop_step:
  assumes ext: "msg = xs @ encode_extension (t, d) @ ys" "pos = length xs"
    and small: "t < 65536" "length d < 65536"
    and fits: "length xs + length d + 4 \<le> end"
  shows "extension_loop msg end pos =
    (if t = 0
     then parse_server_name_extension d \<bind>
       (\<lambda>h. case h of Some h \<Rightarrow> Some (Some h)
          | None \<Rightarrow> extension_loop msg end (pos + 4 + length d))
     else extension_loop msg end (pos + 4 + length d))"
proof -
  have r0: "rd16 msg pos = Some t"
    using rd16_append [of t pos xs "enc16 (length d) @ d @ ys"] ext small
    by (simp add: encode_extension_def)
  have r1: "rd16 msg (pos + 2) = Some (length d)"
    using rd16_append [of "length d" "pos + 2" "xs @ enc16 t" "d @ ys"] ext small
    by (simp add: encode_extension_def)
  have r2: "slice msg (pos + 4) (length d) = Some d"
    using slice_append [of "pos + 4" "xs @ enc16 t @ enc16 (length d)" "length d" d ys] ext
    by (simp add: encode_extension_def)
  have "pos + 4 \<le> end" "pos + 4 + length d \<le> end" using fits ext(2) by simp_all
  then show ?thesis
    by (subst extension_loop.simps) (simp add: r0 r1 [simplified] r2)
qed

text \<open>Extensions other than the server name are skipped, whatever they hold.\<close>

lemma extension_loop_skip:
  assumes "\<forall>e \<in> set pre. fst e \<noteq> 0 \<and> fst e < 65536 \<and> length (snd e) < 65536"
    and "msg = xs @ concat (map encode_extension pre) @ ys"
    and "length xs + length (concat (map encode_extension pre)) \<le> end"
  shows "extension_loop msg end (length xs) =
    extension_loop msg end (length (xs @ concat (map encode_extension pre)))"
  using assms
proof (induction pre arbitrary: xs)
  case (Cons e pre)
  obtain t d where e: "e = (t, d)" by (cases e)
  have len: "length (encode_extension e) = 4 + length d" by (simp add: encode_extension_def e)
  have "extension_loop msg end (length xs) = extension_loop msg end (length xs + 4 + length d)"
    using extension_loop_step [of msg xs t d "concat (map encode_extension pre) @ ys" "length xs" "end"]
      Cons.prems e len by simp
  also have "length xs + 4 + length d = length (xs @ encode_extension e)" using len by simp
  also have "extension_loop msg end (length (xs @ encode_extension e)) =
      extension_loop msg end (length ((xs @ encode_extension e) @ concat (map encode_extension pre)))"
    using Cons.prems by (intro Cons.IH) auto
  finally show ?case by simp
qed simp

text \<open>The fixed part of the message parses up to the extension block.\<close>

definition wf_hello_fields :: "byte list \<Rightarrow> byte list \<Rightarrow> byte list \<Rightarrow> byte list \<Rightarrow> byte list \<Rightarrow> bool" where
  "wf_hello_fields version_random session ciphers compression exts \<longleftrightarrow>
     length version_random = 34 \<and> length session < 256 \<and> 2 \<le> length ciphers \<and>
     length ciphers < 65536 \<and> length compression < 256 \<and> length exts < 65536"

lemma parse_record_extensions:
  assumes wf: "wf_hello_fields vr session ciphers compression exts"
  defines "msg \<equiv> encode_client_hello_msg vr session ciphers compression exts"
  defines "pos \<equiv> length msg - length exts"
  shows "parse_client_hello_record (encode_client_hello vr session ciphers compression exts) =
    extension_loop msg (length msg) pos"
proof -
  let ?A = "vr" and ?B = "vr @ word_of_nat (length session) # session"
  let ?C = "?B @ enc16 (length ciphers) @ ciphers"
  let ?D = "?C @ word_of_nat (length compression) # compression"
  let ?body = "1 # enc24 (length msg) @ msg"
  have l: "length vr = 34" "length session < 256" "2 \<le> length ciphers" "length ciphers < 65536"
    "length compression < 256" "length exts < 65536"
    using wf by (simp_all add: wf_hello_fields_def)
  have len: "length msg = length ?D + 2 + length exts"
    by (simp add: msg_def encode_client_hello_msg_def)
  then have small: "length msg < 16777216" and big: "34 < length msg" using l by simp_all
  have r1: "rd24 ?body 1 = Some (length msg)"
    using small by (simp add: rd24_def rd_def enc24_def)
  have r2: "slice ?body 4 (length msg) = Some msg"
    using slice_append [of 4 "1 # enc24 (length msg)" "length msg" msg "[]"] by simp
  have r3: "rd msg 34 = Some (word_of_nat (length session))"
    unfolding msg_def encode_client_hello_msg_def by (rule rd_append) (simp add: l)
  have r4: "rd16 msg (35 + length session) = Some (length ciphers)"
    using rd16_append [of "length ciphers" "35 + length session" ?B] l
    by (simp add: msg_def encode_client_hello_msg_def)
  have r5: "rd msg (37 + length session + length ciphers) = Some (word_of_nat (length compression))"
    using rd_append [of "37 + length session + length ciphers" ?C "word_of_nat (length compression)"] l
    by (simp add: msg_def encode_client_hello_msg_def)
  have r6: "rd16 msg (38 + length session + length ciphers + length compression) = Some (length exts)"
    using rd16_append [of "length exts" "38 + length session + length ciphers + length compression" ?D] l
    by (simp add: msg_def encode_client_hello_msg_def)
  have r0: "rd ?body 0 = Some 1" "length ?body = 4 + length msg" by (simp_all add: rd_def)
  have p: "pos = 40 + length session + length ciphers + length compression"
    using len l by (simp add: pos_def)
  have s: "35 + length session + 2 + length ciphers = 37 + length session + length ciphers"
    "37 + length session + length ciphers + 1 + length compression = 38 + length session + length ciphers + length compression"
    "38 + length session + length ciphers + length compression + 2 = pos"
    using p by simp_all
  have lm: "length msg = pos + length exts" using len by (simp add: pos_def)
  have e: "encode_client_hello vr session ciphers compression exts = ?body"
    by (simp add: encode_client_hello_def msg_def Let_def)
  define body where "body = ?body"
  note r = r0 r1 r2 and q = r3 r4 r5 r6
  have n: "length msg = 40 + length session + length ciphers + length compression + length exts"
    using lm p by simp
  show ?thesis
    unfolding e parse_client_hello_record_def
    using l r [folded body_def] q unfolding body_def [symmetric]
    by (simp add: n p Let_def add.assoc del: add_2_eq_Suc add_2_eq_Suc')
qed

lemma client_hello_parses:
  assumes exts: "exts = concat (map encode_extension pre) @
      encode_extension (0, encode_server_name host) @ post"
    and wf: "wf_hello_fields vr session ciphers compression exts"
    and pre: "\<forall>e \<in> set pre. fst e \<noteq> 0 \<and> fst e < 65536 \<and> length (snd e) < 65536"
    and host: "normalize_server_name host = Some name"
  shows "parse_client_hello_record (encode_client_hello vr session ciphers compression exts) =
    Some (Some name)"
proof -
  define msg where "msg = encode_client_hello_msg vr session ciphers compression exts"
  define xs where "xs = vr @ word_of_nat (length session) # session @ enc16 (length ciphers) @ ciphers @
     word_of_nat (length compression) # compression @ enc16 (length exts)"
  let ?pre = "concat (map encode_extension pre)" and ?sni = "encode_server_name host"
  have m: "msg = xs @ exts" by (simp add: msg_def xs_def encode_client_hello_msg_def)
  have "length exts < 65536" using wf by (simp add: wf_hello_fields_def)
  then have small: "length host + 3 < 65536" "length ?sni < 65536"
    by (simp_all add: exts encode_extension_def encode_server_name_def)
  have "length msg - length exts = length xs" by (simp add: m)
  then have "parse_client_hello_record (encode_client_hello vr session ciphers compression exts) =
      extension_loop msg (length msg) (length xs)"
    using parse_record_extensions [OF wf, folded msg_def] by (simp only:)
  also have "\<dots> = extension_loop msg (length msg) (length (xs @ ?pre))"
    by (rule extension_loop_skip [OF pre, where ys = "encode_extension (0, ?sni) @ post"])
      (auto simp: m exts)
  also have "\<dots> = Some (Some name)"
    using extension_loop_step [of msg "xs @ ?pre" 0 ?sni post "length (xs @ ?pre)" "length msg"]
      small parse_server_name_encode [OF small(1)] host
    by (simp add: m exts encode_extension_def)
  finally show ?thesis .
qed

text \<open>A ClientHello round trip: for every well-formed ClientHello, with any session id, cipher
  list, compression list and any extensions before and after it, the parser returns the
  normalised form of the host name that was put into the server name extension.\<close>

theorem client_hello_roundtrip:
  assumes exts: "exts = concat (map encode_extension pre) @
      encode_extension (0, encode_server_name host) @ post"
    and wf: "wf_hello_fields vr session ciphers compression exts"
    and pre: "\<forall>e \<in> set pre. fst e \<noteq> 0 \<and> fst e < 65536 \<and> length (snd e) < 65536"
    and host: "normalize_server_name host = Some name"
  shows "parse_client_hello_record (encode_client_hello vr session ciphers compression exts) =
    Some (Some name)"
  using assms by (rule client_hello_parses)

text \<open>\<open>App.Example.\<close> with a blank in front, next to an ALPN-like extension.\<close>

abbreviation sample_host :: "byte list" where
  "sample_host \<equiv> [32, 65, 46, 73, 79, 46]"

abbreviation sample_exts :: "byte list" where
  "sample_exts \<equiv> concat (map encode_extension [(16, [0, 1])]) @
     encode_extension (0, encode_server_name sample_host) @ []"

lemma sample_wf:
  "normalize_server_name sample_host = Some [97, 46, 105, 111]"
  "wf_hello_fields (replicate 34 7) [1, 2] [19, 1] [0] sample_exts"
  by (simp_all add: normalize_server_name_def byte_isspace_def byte_tolower_def wf_hello_fields_def
      encode_extension_def encode_server_name_def)

theorem client_hello_roundtrip_witness:
  "parse_client_hello_record
     (encode_client_hello (replicate 34 7) [1, 2] [19, 1] [0] sample_exts) =
   Some (Some [97, 46, 105, 111])"
  by (rule client_hello_roundtrip [OF refl sample_wf(2) _ sample_wf(1)]) simp

section \<open>Fragmented and truncated streams\<close>

definition tls_record :: "byte \<times> byte \<Rightarrow> byte list \<Rightarrow> byte list" where
  "tls_record ver frag = [22, fst ver, snd ver] @ enc16 (length frag) @ frag"

definition wf_fragment :: "byte list \<Rightarrow> bool" where
  "wf_fragment frag \<longleftrightarrow> 0 < length frag \<and> length frag < 65536"

lemma length_tls_record [simp]: "length (tls_record ver frag) = 5 + length frag"
  by (simp add: tls_record_def)

lemma tls_record_header:
  assumes "wf_fragment frag"
  shows "rd (xs @ tls_record ver frag @ ys) (length xs) = Some 22"
    "rd16 (xs @ tls_record ver frag @ ys) (length xs + 3) = Some (length frag)"
    "slice (xs @ tls_record ver frag @ ys) (length xs + 5) (length frag) = Some frag"
proof -
  show "rd (xs @ tls_record ver frag @ ys) (length xs) = Some 22"
    using rd_append [of "length xs" xs 22] by (simp add: tls_record_def)
  show "rd16 (xs @ tls_record ver frag @ ys) (length xs + 3) = Some (length frag)"
    using rd16_append [of "length frag" "length xs + 3" "xs @ [22, fst ver, snd ver]" "frag @ ys"] assms
    by (simp add: tls_record_def wf_fragment_def)
  show "slice (xs @ tls_record ver frag @ ys) (length xs + 5) (length frag) = Some frag"
    using slice_append [of "length xs + 5" "xs @ [22, fst ver, snd ver] @ enc16 (length frag)" "length frag" frag ys]
    by (simp add: tls_record_def)
qed

text \<open>One record of a hello that has started.\<close>

lemma hello_loop_continue:
  assumes "wf_fragment frag" and s: "stream = xs @ tls_record ver frag @ ys"
  shows "hello_stream_loop stream (length xs) (Some (hello, want)) =
    (let hello' = hello @ take (want - length hello) frag
     in if want \<le> length hello' then map_option (\<lambda>h. (h, False)) (parse_client_hello_record hello')
        else hello_stream_loop stream (length (xs @ tls_record ver frag)) (Some (hello', want)))"
proof -
  note h = tls_record_header [OF assms(1), of xs ver ys, folded s]
  have len: "length xs + 5 \<le> length stream" "\<not> length stream < length xs + 5 + length frag"
    by (simp_all add: s)
  have f: "frag \<noteq> []" "\<not> 65535 < length frag" using assms(1) by (auto simp: wf_fragment_def)
  have e: "length xs + 5 + length frag = length (xs @ tls_record ver frag)" by simp
  have t: "take (min (length frag) (want - length hello)) frag = take (want - length hello) frag"
    by (simp add: min_def)
  define part where "part = take (want - length hello) frag"
  show ?thesis
    unfolding e [symmetric]
    by (subst hello_stream_loop.simps)
      (simp add: h len f t Let_def part_def [symmetric] del: length_take)
qed

text \<open>The record that starts it.\<close>

lemma hello_loop_start:
  assumes "wf_fragment frag" and s: "stream = xs @ tls_record ver frag @ ys"
    and "4 \<le> length frag" "rd frag 0 = Some 1" "rd24 frag 1 = Some n" "0 < n" "n \<le> 1048576"
  shows "hello_stream_loop stream (length xs) None =
    (let hello' = take (n + 4) frag
     in if n + 4 \<le> length hello' then map_option (\<lambda>h. (h, False)) (parse_client_hello_record hello')
        else hello_stream_loop stream (length (xs @ tls_record ver frag)) (Some (hello', n + 4)))"
proof -
  note h = tls_record_header [OF assms(1), of xs ver ys, folded s]
  have len: "length xs + 5 \<le> length stream" "\<not> length stream < length xs + 5 + length frag"
    by (simp_all add: s)
  have f: "frag \<noteq> []" "\<not> 65535 < length frag" "\<not> length frag < 4"
    using assms(1,3) by (auto simp: wf_fragment_def)
  have e: "length xs + 5 + length frag = length (xs @ tls_record ver frag)" by simp
  have t: "take (min (length frag) (n + 4)) frag = take (n + 4) frag" by (simp add: min_def)
  have n: "\<not> (n = 0 \<or> 1048576 < n)" using assms(6,7) by simp
  show ?thesis
    unfolding e [symmetric]
    by (subst hello_stream_loop.simps)
      (simp add: h len f t n assms(4) assms(5) [simplified] Let_def)
qed

text \<open>While fragments remain, one record only moves its payload to the accumulator.\<close>

lemma hello_loop_middle:
  assumes "wf_fragment f" "stream = xs @ tls_record ver f @ ys"
    and "hello = acc @ f @ concat fs" "fs \<noteq> []" "\<forall>f \<in> set fs. wf_fragment f"
  shows "hello_stream_loop stream (length xs) (Some (acc, length hello)) =
    hello_stream_loop stream (length (xs @ tls_record ver f)) (Some (acc @ f, length hello))"
proof -
  have "take (length hello - length acc) f = f" using assms(3) by simp
  moreover have "\<not> length hello \<le> length (acc @ f)"
    using assms(3-5) by (cases fs) (auto simp: wf_fragment_def)
  ultimately show ?thesis
    using hello_loop_continue [OF assms(1,2), of acc "length hello"] by (simp add: Let_def)
qed

lemma hello_loop_fragments:
  "hello = acc @ concat fs \<Longrightarrow> fs \<noteq> [] \<Longrightarrow> (\<forall>f \<in> set fs. wf_fragment f) \<Longrightarrow>
   stream = xs @ concat (map (tls_record ver) fs) @ post \<Longrightarrow>
   hello_stream_loop stream (length xs) (Some (acc, length hello)) =
   map_option (\<lambda>h. (h, False)) (parse_client_hello_record hello)"
proof (induction fs arbitrary: acc xs)
  case (Cons f fs)
  have wf: "wf_fragment f" "\<forall>f \<in> set fs. wf_fragment f" using Cons.prems by auto
  have s: "stream = xs @ tls_record ver f @ concat (map (tls_record ver) fs) @ post"
    "stream = (xs @ tls_record ver f) @ concat (map (tls_record ver) fs) @ post"
    using Cons.prems by simp_all
  show ?case
  proof (cases "fs = []")
    case True
    then have "hello = acc @ f" using Cons.prems(1) by simp
    then show ?thesis
      using hello_loop_continue [OF wf(1) s(1), of acc "length hello"] by (simp add: Let_def)
  next
    case False
    have h: "hello = acc @ f @ concat fs" "hello = (acc @ f) @ concat fs"
      using Cons.prems(1) by simp_all
    show ?thesis
      unfolding hello_loop_middle [OF wf(1) s(1) h(1) False wf(2)]
      by (rule Cons.IH [OF h(2) False wf(2) s(2)])
  qed
qed simp

lemma hello_loop_truncated:
  "hello = acc @ concat fs \<Longrightarrow> (\<forall>f \<in> set fs. wf_fragment f) \<Longrightarrow>
   k < length (concat (map (tls_record ver) fs)) \<Longrightarrow>
   stream = xs @ take k (concat (map (tls_record ver) fs)) \<Longrightarrow>
   hello_stream_loop stream (length xs) (Some (acc, length hello)) = Some (None, True)"
proof (induction fs arbitrary: acc xs k)
  case (Cons f fs)
  let ?rec = "tls_record ver f" and ?rest = "concat (map (tls_record ver) fs)"
  have wf: "wf_fragment f" using Cons.prems by simp
  show ?case
  proof (cases "k < 5 + length f")
    case True
    show ?thesis
    proof (cases "k < 5")
      case True
      then show ?thesis
        using Cons.prems(3,4) by (subst hello_stream_loop.simps) (simp add: hello_stream_end_def)
    next
      case False
      have "safe (rd stream (length xs))" "safe (rd16 stream (length xs + 3))"
        using False Cons.prems(3,4) by (auto intro!: safe_intros)
      moreover have "rd16 stream (length xs + 3) = Some (length f)"
        using tls_record_header(2) [OF wf, of xs ver "[]"] True False Cons.prems(4)
        by (simp add: rd16_def rd_def nth_append)
      moreover have "length stream < length xs + 5 + length f"
        using True Cons.prems(4) by simp
      ultimately show ?thesis
        by (subst hello_stream_loop.simps) (auto simp: hello_stream_end_def safe_def Let_def)
    qed
  next
    case False
    have s: "stream = xs @ ?rec @ take (k - (5 + length f)) ?rest"
      using False Cons.prems(4) by simp
    have ne: "fs \<noteq> []" using False Cons.prems(3) by auto
    have h: "hello = acc @ f @ concat fs" "hello = (acc @ f) @ concat fs"
      using Cons.prems(1) by simp_all
    have wfs: "\<forall>f \<in> set fs. wf_fragment f" using Cons.prems(2) by simp
    have k: "k - (5 + length f) < length ?rest" using False Cons.prems(3) by simp
    show ?thesis
      unfolding hello_loop_middle [OF wf s h(1) ne wfs]
      by (rule Cons.IH [OF h(2) wfs k]) (simp add: s)
  qed
qed simp

text \<open>A complete handshake message of type ClientHello, as long as its length field says and
  within the limit the parser accepts.\<close>

definition hello_message :: "byte list \<Rightarrow> bool" where
  "hello_message hello \<longleftrightarrow>
     4 < length hello \<and> length hello \<le> 1048580 \<and> rd hello 0 = Some 1 \<and>
     rd24 hello 1 = Some (length hello - 4)"

text \<open>A fragmentation the parser accepts: the first fragment holds at least the handshake
  header.\<close>

definition hello_fragments :: "byte list \<Rightarrow> byte list list \<Rightarrow> bool" where
  "hello_fragments hello fs \<longleftrightarrow>
     hello_message hello \<and> concat fs = hello \<and> (\<forall>f \<in> set fs. wf_fragment f) \<and>
     fs \<noteq> [] \<and> 4 \<le> length (hd fs)"

lemma hello_fragments_first:
  assumes "hello_fragments hello (f # fs)"
  shows "rd f 0 = Some 1" "rd24 f 1 = Some (length hello - 4)" "4 \<le> length f"
    "0 < length hello - 4" "length hello - 4 \<le> 1048576" "length hello - 4 + 4 = length hello"
    "hello = f @ concat fs"
proof -
  show "4 \<le> length f" "hello = f @ concat fs"
    using assms by (auto simp: hello_fragments_def)
  then show "rd f 0 = Some 1" "rd24 f 1 = Some (length hello - 4)"
    using assms by (auto simp: hello_fragments_def hello_message_def rd_def rd24_def nth_append)
  show "0 < length hello - 4" "length hello - 4 \<le> 1048576" "length hello - 4 + 4 = length hello"
    using assms by (auto simp: hello_fragments_def hello_message_def)
qed

lemma hello_stream_first:
  assumes fr: "hello_fragments hello (f # fs)" and s: "stream = tls_record ver f @ ys"
  shows "parse_client_hello_stream stream =
    (if fs = [] then map_option (\<lambda>h. (h, False)) (parse_client_hello_record hello)
     else hello_stream_loop stream (length (tls_record ver f)) (Some (f, length hello)))"
proof -
  note f = hello_fragments_first [OF fr]
  have wf: "wf_fragment f" and wfs: "\<forall>f \<in> set fs. wf_fragment f"
    using fr by (auto simp: hello_fragments_def)
  have t: "take (length hello) f = f" using f(7) by simp
  have "length hello \<le> length f \<longleftrightarrow> fs = []"
    using f(7) wfs by (cases fs) (auto simp: wf_fragment_def)
  moreover have "hello = f" if "fs = []" using f(7) that by simp
  ultimately show ?thesis
    using hello_loop_start [OF wf, of stream "[]" ver ys "length hello - 4"] f(1-6) s t
    by (auto simp: parse_client_hello_stream_def Let_def simp flip: One_nat_def)
qed

lemma fragmentation:
  assumes "hello_fragments hello fs"
  shows "parse_client_hello_stream (concat (map (tls_record ver) fs) @ post) =
    map_option (\<lambda>h. (h, False)) (parse_client_hello_record hello)"
proof (cases fs)
  case (Cons f fs')
  let ?s = "concat (map (tls_record ver) fs) @ post"
  have fr: "hello_fragments hello (f # fs')" using assms Cons by simp
  note first = hello_stream_first [OF fr, of ?s ver "concat (map (tls_record ver) fs') @ post"]
  show ?thesis
  proof (cases "fs' = []")
    case False
    have "hello_stream_loop ?s (length (tls_record ver f)) (Some (f, length hello)) =
        map_option (\<lambda>h. (h, False)) (parse_client_hello_record hello)"
      by (rule hello_loop_fragments [of _ _ fs', where ver = ver and post = post])
        (use assms Cons False in \<open>auto simp: hello_fragments_def\<close>)
    then show ?thesis using first Cons False by simp
  qed (use first Cons in simp)
qed (use assms in \<open>simp add: hello_fragments_def\<close>)

lemma sni_prefix:
  assumes "hello_fragments hello fs" "k < length (concat (map (tls_record ver) fs))"
  shows "parse_client_hello_stream (take k (concat (map (tls_record ver) fs))) = Some (None, True)"
proof (cases fs)
  case (Cons f fs')
  let ?rest = "concat (map (tls_record ver) fs')"
  let ?s = "take k (concat (map (tls_record ver) fs))"
  have fr: "hello_fragments hello (f # fs')" using assms(1) Cons by simp
  have wf: "wf_fragment f" using fr by (simp add: hello_fragments_def)
  show ?thesis
  proof (cases "k < 5 + length f")
    case True
    show ?thesis
    proof (cases "k < 5")
      case True
      then show ?thesis
        unfolding parse_client_hello_stream_def
        by (subst hello_stream_loop.simps) (simp add: hello_stream_end_def)
    next
      case False
      have len: "length ?s < 5 + length f" "5 \<le> length ?s" using True False Cons by simp_all
      have "safe (rd ?s 0)" by (rule safe_rd) (use len in linarith)
      moreover have "rd16 ?s 3 = Some (length f)"
        using tls_record_header(2) [OF wf, of "[]" ver "[]"] True False Cons
        by (simp add: rd16_def rd_def nth_append)
      ultimately show ?thesis
        using wf len unfolding parse_client_hello_stream_def
        by (subst hello_stream_loop.simps)
          (auto simp: hello_stream_end_def safe_def Let_def wf_fragment_def)
    qed
  next
    case False
    have s: "?s = tls_record ver f @ take (k - (5 + length f)) ?rest"
      using False Cons by simp
    have ne: "fs' \<noteq> []" using False assms(2) Cons by auto
    have "hello_stream_loop ?s (length (tls_record ver f)) (Some (f, length hello)) = Some (None, True)"
      by (rule hello_loop_truncated [of _ _ fs' "k - (5 + length f)" ver])
        (use fr False assms(2) Cons s in \<open>auto simp: hello_fragments_def\<close>)
    then show ?thesis using hello_stream_first [OF fr s] ne by simp
  qed
qed (use assms in simp)

text \<open>C20. Routing does not depend on how the ClientHello was split into TLS records or on what
  follows it: for every fragmentation whose first fragment has the four header bytes, parsing the
  stream gives exactly what parsing the reassembled message gives.\<close>

theorem sni_fragmentation_independent:
  assumes "hello_fragments hello fs"
  shows "parse_client_hello_stream (concat (map (tls_record ver) fs) @ post) =
    map_option (\<lambda>h. (h, False)) (parse_client_hello_record hello)"
  using assms by (rule fragmentation)

text \<open>While a fragmented ClientHello is still arriving the parser always asks for more data:
  every proper prefix of the record stream yields no host name and the \<open>need_more\<close> flag, so the
  polling loop neither routes on partial data nor gives up before its deadline.\<close>

theorem sni_prefix_needs_more:
  assumes "hello_fragments hello fs" "k < length (concat (map (tls_record ver) fs))"
  shows "parse_client_hello_stream (take k (concat (map (tls_record ver) fs))) = Some (None, True)"
  using assms by (rule sni_prefix)

text \<open>A limit of the parser: when the first handshake record carries fewer than the four
  header bytes of the ClientHello, which TLS allows, it asks for more data whatever follows, so
  the connection is dropped at the deadline even though the complete ClientHello has arrived.\<close>

theorem short_first_fragment_never_parses:
  assumes "0 < length frag" "length frag < 4"
  shows "parse_client_hello_stream (tls_record ver frag @ rest) = Some (None, True)"
proof -
  have wf: "wf_fragment frag" "frag \<noteq> []" using assms by (auto simp: wf_fragment_def)
  show ?thesis
    using tls_record_header [OF wf(1), of "[]" ver rest] assms wf(2)
    unfolding parse_client_hello_stream_def
    by (subst hello_stream_loop.simps) (simp add: hello_stream_end_def)
qed

theorem short_first_fragment_never_parses_witness:
  "parse_client_hello_stream (tls_record (3, 1) [1, 0] @ tls_record (3, 1) [0, 1, 7]) = Some (None, True)"
  by (rule short_first_fragment_never_parses) simp_all

text \<open>A ClientHello of 70 bytes cut after its tenth byte.\<close>

definition sample_hello :: "byte list" where
  "sample_hello = encode_client_hello (replicate 34 7) [1, 2] [19, 1] [0] sample_exts"

lemma sample_hello_fragments:
  "hello_fragments sample_hello [take 10 sample_hello, drop 10 sample_hello]"
proof -
  have "length sample_hello = 70" "rd sample_hello 0 = Some 1" "rd24 sample_hello 1 = Some 66"
    by (simp_all add: sample_hello_def encode_client_hello_def encode_client_hello_msg_def Let_def
        encode_extension_def encode_server_name_def rd_def rd24_def enc24_def enc16_def be24_eq)
  moreover from this(1) have "sample_hello \<noteq> []" by auto
  ultimately show ?thesis
    by (simp add: hello_fragments_def hello_message_def wf_fragment_def)
qed

theorem sni_fragmentation_independent_witness:
  "parse_client_hello_stream
     (concat (map (tls_record (3, 1)) [take 10 sample_hello, drop 10 sample_hello]) @ [23, 3, 3]) =
   map_option (\<lambda>h. (h, False)) (parse_client_hello_record sample_hello)"
  by (rule sni_fragmentation_independent) (rule sample_hello_fragments)

theorem sni_prefix_needs_more_witness:
  "parse_client_hello_stream
     (take 20 (concat (map (tls_record (3, 1)) [take 10 sample_hello, drop 10 sample_hello]))) =
   Some (None, True)"
proof (rule sni_prefix_needs_more [OF sample_hello_fragments])
  show "20 < length (concat (map (tls_record (3, 1)) [take 10 sample_hello, drop 10 sample_hello]))"
    by (simp add: sample_hello_def encode_client_hello_def encode_client_hello_msg_def Let_def
        encode_extension_def encode_server_name_def)
qed

lemma get_sni_skip:
  "\<forall>r \<in> set rs. (case r of
       No_Data remaining rc \<Rightarrow> 0 < remaining \<and> 0 < rc
     | Recv_Failed \<Rightarrow> False
     | Peeked bytes remaining \<Rightarrow> 0 < remaining \<and> parse_client_hello_stream bytes = Some (None, True)) \<Longrightarrow>
   get_sni_hostname (rs @ rest) = get_sni_hostname rest"
proof (induction rs)
  case (Cons r rs)
  then show ?case by (cases r) auto
qed simp

text \<open>The polling loop returns the host name of a fragmented ClientHello: whatever rounds come
  before its deadline, waits that end with data or peeks that see a proper prefix of the records,
  the round that sees the whole ClientHello returns the name parsed from the reassembled message.\<close>

theorem get_sni_hostname_fragmented:
  assumes fr: "hello_fragments hello fs"
    and host: "parse_client_hello_record hello = Some (Some name)"
    and early: "\<forall>r \<in> set rounds. (case r of
         No_Data remaining rc \<Rightarrow> 0 < remaining \<and> 0 < rc
       | Recv_Failed \<Rightarrow> False
       | Peeked bytes remaining \<Rightarrow> 0 < remaining \<and>
           (\<exists>k < length (concat (map (tls_record ver) fs)).
              bytes = take k (concat (map (tls_record ver) fs))))"
  shows "get_sni_hostname
     (rounds @ Peeked (concat (map (tls_record ver) fs) @ post) remaining # more) = Some (Some name)"
proof -
  have prefix: "parse_client_hello_stream (take k (concat (map (tls_record ver) fs))) = Some (None, True)"
    if "k < length (concat (map (tls_record ver) fs))" for k
    using fr that by (rule sni_prefix)
  have "get_sni_hostname
     (rounds @ Peeked (concat (map (tls_record ver) fs) @ post) remaining # more) =
     get_sni_hostname (Peeked (concat (map (tls_record ver) fs) @ post) remaining # more)"
  proof (rule get_sni_skip, rule ballI)
    fix r assume "r \<in> set rounds"
    with early show "case r of No_Data remaining rc \<Rightarrow> 0 < remaining \<and> 0 < rc
       | Recv_Failed \<Rightarrow> False
       | Peeked bytes remaining \<Rightarrow> 0 < remaining \<and> parse_client_hello_stream bytes = Some (None, True)"
      using prefix by (cases r) fastforce+
  qed
  also have "\<dots> = Some (Some name)"
    using fragmentation [OF fr, of ver post] host by simp
  finally show ?thesis .
qed

lemma sample_hello_host: "parse_client_hello_record sample_hello = Some (Some [97, 46, 105, 111])"
  unfolding sample_hello_def by (rule client_hello_parses [OF refl sample_wf(2) _ sample_wf(1)]) simp

theorem get_sni_hostname_fragmented_witness:
  "get_sni_hostname
     ([No_Data 2000 1, Peeked (take 3 (concat (map (tls_record (3, 1)) [take 10 sample_hello, drop 10 sample_hello]))) 1500] @
      Peeked (concat (map (tls_record (3, 1)) [take 10 sample_hello, drop 10 sample_hello]) @ []) 1200 # []) =
   Some (Some [97, 46, 105, 111])"
proof (rule get_sni_hostname_fragmented [OF sample_hello_fragments sample_hello_host])
  define S where "S = concat (map (tls_record (3, 1)) [take 10 sample_hello, drop 10 sample_hello])"
  have "3 < length S" by (simp add: S_def)
  then have "\<exists>k < length S. take 3 S = take k S" by blast
  then show "\<forall>r \<in> set [No_Data 2000 1, Peeked (take 3 (concat (map (tls_record (3, 1)) [take 10 sample_hello, drop 10 sample_hello]))) 1500].
      (case r of No_Data remaining rc \<Rightarrow> 0 < remaining \<and> 0 < rc
       | Recv_Failed \<Rightarrow> False
       | Peeked bytes remaining \<Rightarrow> 0 < remaining \<and>
           (\<exists>k < length (concat (map (tls_record (3, 1)) [take 10 sample_hello, drop 10 sample_hello])).
              bytes = take k (concat (map (tls_record (3, 1)) [take 10 sample_hello, drop 10 sample_hello]))))"
    unfolding S_def [symmetric] by simp
qed

section \<open>The wait is bounded\<close>

definition CLIENT_HELLO_WAIT_MS :: int where "CLIENT_HELLO_WAIT_MS = 2000"

text \<open>What is left of the wait in a round; a failed read ends the loop at once.\<close>

fun remaining_of :: "sni_round \<Rightarrow> int" where
  "remaining_of (No_Data remaining_ms rc) = remaining_ms"
| "remaining_of Recv_Failed = 0"
| "remaining_of (Peeked bytes remaining_ms) = remaining_ms"

lemma sni_returns:
  "list_ex (\<lambda>r. remaining_of r \<le> 0) rounds \<Longrightarrow> get_sni_hostname rounds \<noteq> None"
proof (induction rounds)
  case (Cons r rounds)
  then show ?case by (cases r) (auto split: option.split prod.split)
qed simp

text \<open>Whatever the peer sends or withholds, the wait for its ClientHello ends: when every round takes at
  least a millisecond of the clock that the deadline is taken from, the loop has returned, with a name
  or without one, after at most 2001 rounds.\<close>

theorem sni_wait_bounded:
  assumes "\<And>i. i < length rounds \<Longrightarrow> remaining_of (rounds ! i) \<le> CLIENT_HELLO_WAIT_MS - int i"
    and "nat CLIENT_HELLO_WAIT_MS < length rounds"
  shows "get_sni_hostname rounds \<noteq> None"
proof (rule sni_returns)
  have "remaining_of (rounds ! 2000) \<le> 0" "rounds ! 2000 \<in> set rounds"
    using assms(1) [of 2000] assms(2) by (simp_all add: CLIENT_HELLO_WAIT_MS_def)
  then show "list_ex (\<lambda>r. remaining_of r \<le> 0) rounds" by (auto simp: list_ex_iff)
qed

theorem sni_wait_bounded_witness:
  "get_sni_hostname (map (\<lambda>i. No_Data (2000 - int i) 1) [0..<2001]) \<noteq> None"
  by (rule sni_wait_bounded) (simp_all add: CLIENT_HELLO_WAIT_MS_def del: upt_rec_numeral)

end
