(* ===== verification/Bindings.thy ===== *)
theory Bindings
  imports Portillia_Prelude
begin

text \<open>
  The binding registry of \<^verbatim>\<open>src/portal/keyless/bindings.c\<close>: the relay mints a 16-byte binding for
  every claimed reverse session, pins it to the SHA-256 of the first observed ClientHello and
  spends it once on a signing request. The registry is an array of 256 buckets of linked lists.
  SHA-256 is a parameter of the operations that hash; the bytes drawn by \<open>RAND_bytes\<close> and the
  clock are arguments. Each operation runs under the registry's mutex, so it is one step.
\<close>

datatype portillia_binding_status =
    PORTILLIA_BINDING_OK
  | PORTILLIA_BINDING_ERR_HELLO_REQUIRED
  | PORTILLIA_BINDING_ERR_UNKNOWN
  | PORTILLIA_BINDING_ERR_EXPIRED
  | PORTILLIA_BINDING_ERR_ALREADY_FIXED
  | PORTILLIA_BINDING_ERR_BAD_SIZE
  | PORTILLIA_BINDING_ERR_UNKNOWN_OR_EXPIRED
  | PORTILLIA_BINDING_ERR_WRONG_LEASE
  | PORTILLIA_BINDING_ERR_NEVER_FIXED
  | PORTILLIA_BINDING_ERR_HELLO_MISMATCH

type_synonym timespec = "int \<times> int"

record portillia_binding_entry =
  b_binding :: "byte list"
  b_lease_id :: cstring
  b_expires_at :: timespec
  b_hello_hash :: "byte list"

record portillia_binding_registry =
  r_buckets :: "portillia_binding_entry list list"
  r_ttl_seconds :: int

section \<open>Operations\<close>

definition binding_bucket :: "byte list \<Rightarrow> nat" where
  "binding_bucket binding =
     unat (foldl (\<lambda>h b. (h * 1099511628211) XOR ucast b) (0 :: 64 word) binding mod 256)"

definition binding_hash_is_zero :: "byte list \<Rightarrow> bool" where
  "binding_hash_is_zero hash \<longleftrightarrow> (\<forall>b \<in> set hash. b = 0)"

definition timespec_before :: "timespec \<Rightarrow> timespec \<Rightarrow> bool" where
  "timespec_before a b = (if fst a \<noteq> fst b then fst a < fst b else snd a < snd b)"

definition portillia_bindings_new :: "int \<Rightarrow> portillia_binding_registry" where
  "portillia_bindings_new ttl = \<lparr>r_buckets = replicate 256 [], r_ttl_seconds = ttl\<rparr>"

text \<open>The walk down one bucket to the first entry with the binding, its unlinking and an
  in-place change of it.\<close>

definition bucket_of :: "portillia_binding_registry \<Rightarrow> byte list \<Rightarrow> portillia_binding_entry list" where
  "bucket_of reg binding = r_buckets reg ! binding_bucket binding"

definition binding_lookup ::
  "portillia_binding_registry \<Rightarrow> byte list \<Rightarrow> portillia_binding_entry option" where
  "binding_lookup reg binding = find (\<lambda>e. b_binding e = binding) (bucket_of reg binding)"

definition set_bucket ::
  "portillia_binding_registry \<Rightarrow> byte list \<Rightarrow> portillia_binding_entry list \<Rightarrow> portillia_binding_registry"
  where
  "set_bucket reg binding es = reg\<lparr>r_buckets := (r_buckets reg)[binding_bucket binding := es]\<rparr>"

definition binding_link ::
  "portillia_binding_entry \<Rightarrow> portillia_binding_registry \<Rightarrow> portillia_binding_registry" where
  "binding_link e reg = set_bucket reg (b_binding e) (e # bucket_of reg (b_binding e))"

fun unlink_first :: "byte list \<Rightarrow> portillia_binding_entry list \<Rightarrow> portillia_binding_entry list" where
  "unlink_first binding [] = []"
| "unlink_first binding (e # es) =
     (if b_binding e = binding then es else e # unlink_first binding es)"

definition binding_unlink :: "byte list \<Rightarrow> portillia_binding_registry \<Rightarrow> portillia_binding_registry" where
  "binding_unlink binding reg = set_bucket reg binding (unlink_first binding (bucket_of reg binding))"

fun pin_first ::
  "byte list \<Rightarrow> byte list \<Rightarrow> portillia_binding_entry list \<Rightarrow> portillia_binding_entry list" where
  "pin_first binding hash [] = []"
| "pin_first binding hash (e # es) =
     (if b_binding e = binding then e\<lparr>b_hello_hash := hash\<rparr> # es else e # pin_first binding hash es)"

definition binding_pin ::
  "byte list \<Rightarrow> byte list \<Rightarrow> portillia_binding_registry \<Rightarrow> portillia_binding_registry" where
  "binding_pin binding hash reg = set_bucket reg binding (pin_first binding hash (bucket_of reg binding))"

text \<open>\<open>rand\<close> is what \<open>RAND_bytes\<close> wrote, \<open>None\<close> its failure, on which the process aborts. The
  calloc'ed entry starts with an all-zero hash.\<close>

definition portillia_bindings_issue ::
  "(byte list \<Rightarrow> byte list) \<Rightarrow> portillia_binding_registry \<Rightarrow> cstring option \<Rightarrow> byte list \<Rightarrow>
   byte list option \<Rightarrow> timespec \<Rightarrow> (portillia_binding_registry \<times> byte list) option" where
  "portillia_bindings_issue sha256 reg lease_id client_hello rand now =
     (case rand of
        None \<Rightarrow> None
      | Some binding \<Rightarrow>
          let e = \<lparr>b_binding = binding, b_lease_id = or_empty lease_id,
                   b_expires_at = (fst now + r_ttl_seconds reg, snd now),
                   b_hello_hash = (if client_hello \<noteq> [] then sha256 client_hello else replicate 32 0)\<rparr>
          in Some (binding_link e reg, binding))"

definition portillia_bindings_fix_hello ::
  "(byte list \<Rightarrow> byte list) \<Rightarrow> portillia_binding_registry \<Rightarrow> byte list \<Rightarrow> byte list \<Rightarrow> timespec \<Rightarrow>
   portillia_binding_registry \<times> portillia_binding_status" where
  "portillia_bindings_fix_hello sha256 reg binding client_hello now =
     (if client_hello = [] then (reg, PORTILLIA_BINDING_ERR_HELLO_REQUIRED)
      else case binding_lookup reg binding of
        None \<Rightarrow> (reg, PORTILLIA_BINDING_ERR_UNKNOWN)
      | Some e \<Rightarrow>
          if \<not> timespec_before now (b_expires_at e) then (reg, PORTILLIA_BINDING_ERR_EXPIRED)
          else if \<not> binding_hash_is_zero (b_hello_hash e) then (reg, PORTILLIA_BINDING_ERR_ALREADY_FIXED)
          else (binding_pin binding (sha256 client_hello) reg, PORTILLIA_BINDING_OK))"

definition portillia_bindings_validate_and_consume ::
  "(byte list \<Rightarrow> byte list) \<Rightarrow> portillia_binding_registry \<Rightarrow> byte list \<Rightarrow> cstring option \<Rightarrow> byte list \<Rightarrow>
   timespec \<Rightarrow> portillia_binding_registry \<times> portillia_binding_status" where
  "portillia_bindings_validate_and_consume sha256 reg binding lease_id client_hello now =
     (if length binding \<noteq> 16 then (reg, PORTILLIA_BINDING_ERR_BAD_SIZE)
      else if client_hello = [] then (reg, PORTILLIA_BINDING_ERR_HELLO_REQUIRED)
      else case binding_lookup reg binding of
        None \<Rightarrow> (reg, PORTILLIA_BINDING_ERR_UNKNOWN_OR_EXPIRED)
      | Some e \<Rightarrow>
          if \<not> timespec_before now (b_expires_at e) then (reg, PORTILLIA_BINDING_ERR_UNKNOWN_OR_EXPIRED)
          else if b_lease_id e \<noteq> or_empty lease_id then (reg, PORTILLIA_BINDING_ERR_WRONG_LEASE)
          else if binding_hash_is_zero (b_hello_hash e) then (reg, PORTILLIA_BINDING_ERR_NEVER_FIXED)
          else if b_hello_hash e \<noteq> sha256 client_hello then (reg, PORTILLIA_BINDING_ERR_HELLO_MISMATCH)
          else (binding_unlink binding reg, PORTILLIA_BINDING_OK))"

definition portillia_bindings_discard ::
  "portillia_binding_registry \<Rightarrow> byte list \<Rightarrow> portillia_binding_registry" where
  "portillia_bindings_discard reg binding =
     (case binding_lookup reg binding of
        None \<Rightarrow> reg
      | Some e \<Rightarrow> binding_unlink binding reg)"

definition portillia_bindings_sweep_expired ::
  "portillia_binding_registry \<Rightarrow> timespec \<Rightarrow> portillia_binding_registry" where
  "portillia_bindings_sweep_expired reg now =
     reg\<lparr>r_buckets := map (filter (\<lambda>e. timespec_before now (b_expires_at e))) (r_buckets reg)\<rparr>"

definition portillia_binding_strerror :: "portillia_binding_status \<Rightarrow> cstring" where
  "portillia_binding_strerror status =
     (case status of
        PORTILLIA_BINDING_OK \<Rightarrow> ''ok''
      | PORTILLIA_BINDING_ERR_HELLO_REQUIRED \<Rightarrow> ''client hello is required''
      | PORTILLIA_BINDING_ERR_UNKNOWN \<Rightarrow> ''binding is unknown''
      | PORTILLIA_BINDING_ERR_EXPIRED \<Rightarrow> ''binding is expired''
      | PORTILLIA_BINDING_ERR_ALREADY_FIXED \<Rightarrow> ''binding hello is already fixed''
      | PORTILLIA_BINDING_ERR_BAD_SIZE \<Rightarrow> ''binding must be 16 bytes''
      | PORTILLIA_BINDING_ERR_UNKNOWN_OR_EXPIRED \<Rightarrow> ''binding is unknown or expired''
      | PORTILLIA_BINDING_ERR_WRONG_LEASE \<Rightarrow> ''binding does not belong to the signing lease''
      | PORTILLIA_BINDING_ERR_NEVER_FIXED \<Rightarrow> ''binding hello was never fixed''
      | PORTILLIA_BINDING_ERR_HELLO_MISMATCH \<Rightarrow> ''client hello does not match the routed connection'')"

section \<open>The registry as a map from bindings to entries\<close>

text \<open>The contract of a store of bindings: linking, unlinking and pinning act on one binding and
  leave every other one alone. \<open>fresh\<close> is what a caller of \<open>link\<close> relies on for the later unlink
  to forget the binding.\<close>

locale binding_store =
  fixes lookup :: "'r \<Rightarrow> byte list \<Rightarrow> portillia_binding_entry option"
    and link :: "portillia_binding_entry \<Rightarrow> 'r \<Rightarrow> 'r"
    and unlink :: "byte list \<Rightarrow> 'r \<Rightarrow> 'r"
    and pin :: "byte list \<Rightarrow> byte list \<Rightarrow> 'r \<Rightarrow> 'r"
    and invar :: "'r \<Rightarrow> bool"
  assumes lookup_binding: "lookup r b = Some e \<Longrightarrow> b_binding e = b"
    and lookup_link: "invar r \<Longrightarrow> lookup (link e r) b = (if b = b_binding e then Some e else lookup r b)"
    and lookup_unlink: "invar r \<Longrightarrow> lookup (unlink c r) b = (if b = c then None else lookup r b)"
    and lookup_pin: "invar r \<Longrightarrow> lookup (pin c h r) b =
      (if b = c then map_option (\<lambda>e. e\<lparr>b_hello_hash := h\<rparr>) (lookup r b) else lookup r b)"
    and invar_link: "invar r \<Longrightarrow> lookup r (b_binding e) = None \<Longrightarrow> invar (link e r)"
    and invar_unlink: "invar r \<Longrightarrow> invar (unlink c r)"
    and invar_pin: "invar r \<Longrightarrow> invar (pin c h r)"
begin

lemma unlink_link:
  assumes "invar r" "lookup r (b_binding e) = None"
  shows "lookup (unlink (b_binding e) (link e r)) = lookup r"
  using assms by (auto simp: fun_eq_iff lookup_unlink lookup_link invar_link)

lemma dom_link: "invar r \<Longrightarrow> dom (lookup (link e r)) = insert (b_binding e) (dom (lookup r))"
  by (auto simp: lookup_link dom_def)

lemma dom_unlink: "invar r \<Longrightarrow> dom (lookup (unlink c r)) = dom (lookup r) - {c}"
  by (auto simp: lookup_unlink dom_def)

lemma dom_pin: "invar r \<Longrightarrow> dom (lookup (pin c h r)) = dom (lookup r)"
  by (auto simp: lookup_pin dom_def split: if_splits)

lemmas store_simps = lookup_link lookup_unlink lookup_pin invar_link invar_unlink invar_pin

end

text \<open>The bucket array meets the contract as long as every entry sits in its own bucket and no
  bucket holds a binding twice.\<close>

definition wf_bindings :: "portillia_binding_registry \<Rightarrow> bool" where
  "wf_bindings reg \<longleftrightarrow>
     length (r_buckets reg) = 256 \<and>
     (\<forall>i < 256. distinct (map b_binding (r_buckets reg ! i)))"

lemma binding_bucket_less [simp]: "binding_bucket b < 256"
  by (simp add: binding_bucket_def unat_mod)

lemma bucket_set_bucket:
  "wf_bindings reg \<Longrightarrow>
   bucket_of (set_bucket reg c es) b = (if binding_bucket b = binding_bucket c then es else bucket_of reg b)"
  by (simp add: bucket_of_def set_bucket_def wf_bindings_def nth_list_update)

lemma wf_set_bucket:
  "wf_bindings reg \<Longrightarrow> distinct (map b_binding es) \<Longrightarrow> wf_bindings (set_bucket reg c es)"
  by (simp add: wf_bindings_def set_bucket_def nth_list_update)

lemma wf_bucket: "wf_bindings reg \<Longrightarrow> distinct (map b_binding (bucket_of reg b))"
  by (simp add: wf_bindings_def bucket_of_def)

lemma find_unlink_first:
  "distinct (map b_binding es) \<Longrightarrow>
   find (\<lambda>e. b_binding e = b) (unlink_first c es) =
   (if b = c then None else find (\<lambda>e. b_binding e = b) es)"
proof (induction es)
  case (Cons e es)
  then have "find (\<lambda>x. b_binding x = b_binding e) es = None"
    by (auto simp: find_None_iff image_iff)
  with Cons show ?case by auto
qed simp

lemma set_unlink_first: "set (unlink_first c es) \<subseteq> set es"
  by (induction es) auto

lemma distinct_unlink_first:
  "distinct (map b_binding es) \<Longrightarrow> distinct (map b_binding (unlink_first c es))"
  using set_unlink_first by (induction es) fastforce+

lemma find_pin_first:
  "find (\<lambda>e. b_binding e = b) (pin_first c h es) =
   (if b = c then map_option (\<lambda>e. e\<lparr>b_hello_hash := h\<rparr>) (find (\<lambda>e. b_binding e = b) es)
    else find (\<lambda>e. b_binding e = b) es)"
  by (induction es) auto

lemma map_pin_first [simp]: "map b_binding (pin_first c h es) = map b_binding es"
  by (induction es) auto

interpretation registry: binding_store binding_lookup binding_link binding_unlink binding_pin wf_bindings
proof
  fix r :: portillia_binding_registry and b c h :: "byte list" and e
  show "binding_lookup r b = Some e \<Longrightarrow> b_binding e = b"
    by (auto simp: binding_lookup_def find_Some_iff)
  assume wf: "wf_bindings r"
  note bk = bucket_set_bucket [OF wf]
  show "binding_lookup (binding_link e r) b = (if b = b_binding e then Some e else binding_lookup r b)"
    by (auto simp: binding_lookup_def binding_link_def bk) (auto simp: bucket_of_def)
  show "binding_lookup (binding_unlink c r) b = (if b = c then None else binding_lookup r b)"
    using wf_bucket [OF wf]
    by (auto simp: binding_lookup_def binding_unlink_def bk find_unlink_first) (auto simp: bucket_of_def)
  show "binding_lookup (binding_pin c h r) b =
      (if b = c then map_option (\<lambda>e. e\<lparr>b_hello_hash := h\<rparr>) (binding_lookup r b) else binding_lookup r b)"
    by (auto simp: binding_lookup_def binding_pin_def bk find_pin_first) (auto simp: bucket_of_def)
  show "wf_bindings (binding_unlink c r)"
    unfolding binding_unlink_def
    by (intro wf_set_bucket wf distinct_unlink_first wf_bucket)
  show "wf_bindings (binding_pin c h r)"
    unfolding binding_pin_def using wf_set_bucket [OF wf] wf_bucket [OF wf] by simp
  assume "binding_lookup r (b_binding e) = None"
  then show "wf_bindings (binding_link e r)"
    unfolding binding_link_def using wf_bucket [OF wf, of "b_binding e"]
    by (intro wf_set_bucket wf) (auto simp: binding_lookup_def find_None_iff)
qed

lemma wf_bindings_new [simp]: "wf_bindings (portillia_bindings_new ttl)"
  by (simp add: wf_bindings_def portillia_bindings_new_def)

lemma lookup_new [simp]: "binding_lookup (portillia_bindings_new ttl) b = None"
  by (simp add: binding_lookup_def bucket_of_def portillia_bindings_new_def)

lemma dom_lookup_new [simp]: "dom (binding_lookup (portillia_bindings_new ttl)) = {}"
  by auto

lemma wf_sweep: "wf_bindings reg \<Longrightarrow> wf_bindings (portillia_bindings_sweep_expired reg now)"
  by (auto simp: wf_bindings_def portillia_bindings_sweep_expired_def distinct_map_filter)

lemma find_filter_distinct:
  "distinct (map f es) \<Longrightarrow>
   find (\<lambda>e. f e = b) (filter P es) = (case find (\<lambda>e. f e = b) es of None \<Rightarrow> None
     | Some e \<Rightarrow> if P e then Some e else None)"
proof (induction es)
  case (Cons e es)
  then have "find (\<lambda>x. f x = f e) es = None"
    by (auto simp: find_None_iff image_iff)
  with Cons show ?case by (auto split: option.split)
qed simp

lemma lookup_sweep:
  "wf_bindings reg \<Longrightarrow> binding_lookup (portillia_bindings_sweep_expired reg now) b =
   (case binding_lookup reg b of None \<Rightarrow> None
    | Some e \<Rightarrow> if timespec_before now (b_expires_at e) then Some e else None)"
  using wf_bucket [of reg b]
  by (simp add: binding_lookup_def bucket_of_def portillia_bindings_sweep_expired_def wf_bindings_def
      find_filter_distinct)


section \<open>Interleavings of registry calls\<close>

text \<open>Every call holds the mutex of the registry, so what the threads of the relay do to it is a
  sequence of whole calls. \<open>Issue\<close> carries the bytes \<open>RAND_bytes\<close> wrote.\<close>

datatype binding_call =
    Issue "cstring option" "byte list" "byte list" timespec
  | Fix_hello "byte list" "byte list" timespec
  | Consume "byte list" "cstring option" "byte list" timespec
  | Discard "byte list"
  | Sweep timespec

fun binding_exec ::
  "(byte list \<Rightarrow> byte list) \<Rightarrow> binding_call \<Rightarrow> portillia_binding_registry \<Rightarrow>
   portillia_binding_registry \<times> portillia_binding_status" where
  "binding_exec sha256 (Issue lease hello b now) reg =
     (case portillia_bindings_issue sha256 reg lease hello (Some b) now of
        None \<Rightarrow> (reg, PORTILLIA_BINDING_OK) | Some (reg', _) \<Rightarrow> (reg', PORTILLIA_BINDING_OK))"
| "binding_exec sha256 (Fix_hello b hello now) reg = portillia_bindings_fix_hello sha256 reg b hello now"
| "binding_exec sha256 (Consume b lease hello now) reg =
     portillia_bindings_validate_and_consume sha256 reg b lease hello now"
| "binding_exec sha256 (Discard b) reg = (portillia_bindings_discard reg b, PORTILLIA_BINDING_OK)"
| "binding_exec sha256 (Sweep now) reg = (portillia_bindings_sweep_expired reg now, PORTILLIA_BINDING_OK)"

fun binding_run ::
  "(byte list \<Rightarrow> byte list) \<Rightarrow> binding_call list \<Rightarrow> portillia_binding_registry \<Rightarrow> portillia_binding_registry"
  where
  "binding_run sha256 [] reg = reg"
| "binding_run sha256 (c # cs) reg = binding_run sha256 cs (fst (binding_exec sha256 c reg))"

fun spent :: "(byte list \<Rightarrow> byte list) \<Rightarrow> byte list \<Rightarrow> binding_call list \<Rightarrow> portillia_binding_registry \<Rightarrow> nat"
  where
  "spent sha256 b [] reg = 0"
| "spent sha256 b (c # cs) reg =
     (case c of
        Consume b' lease hello now \<Rightarrow>
          if b' = b \<and> snd (binding_exec sha256 c reg) = PORTILLIA_BINDING_OK then 1 else 0
      | _ \<Rightarrow> 0) + spent sha256 b cs (fst (binding_exec sha256 c reg))"

definition issued :: "binding_call list \<Rightarrow> byte list list" where
  "issued cs = concat (map (\<lambda>c. case c of Issue _ _ b _ \<Rightarrow> [b] | _ \<Rightarrow> []) cs)"

lemma issued_simps [simp]:
  "issued [] = []"
  "issued (c # cs) = (case c of Issue _ _ b _ \<Rightarrow> [b] | _ \<Rightarrow> []) @ issued cs"
  "issued (cs @ ds) = issued cs @ issued ds"
  by (simp_all add: issued_def)

lemma binding_run_append [simp]:
  "binding_run sha256 (cs @ ds) reg = binding_run sha256 ds (binding_run sha256 cs reg)"
  by (induction cs arbitrary: reg) auto

lemmas binding_op_defs = portillia_bindings_issue_def portillia_bindings_fix_hello_def
  portillia_bindings_validate_and_consume_def portillia_bindings_discard_def

subsection \<open>A binding is spent at most as often as it is minted\<close>

definition copies :: "byte list \<Rightarrow> portillia_binding_registry \<Rightarrow> nat" where
  "copies b reg = length (filter (\<lambda>e. b_binding e = b) (bucket_of reg b))"

lemma copies_set_bucket:
  "length (r_buckets reg) = 256 \<Longrightarrow>
   copies b (set_bucket reg c es) =
   (if binding_bucket b = binding_bucket c then length (filter (\<lambda>e. b_binding e = b) es) else copies b reg)"
  by (simp add: copies_def set_bucket_def bucket_of_def nth_list_update)

lemma bucket_of_cong: "binding_bucket b = binding_bucket c \<Longrightarrow> bucket_of reg b = bucket_of reg c"
  by (simp add: bucket_of_def)

lemma length_filter_unlink_first:
  "length (filter (\<lambda>e. b_binding e = b) (unlink_first c es)) +
     (if b = c \<and> find (\<lambda>e. b_binding e = c) es \<noteq> None then 1 else 0) =
   length (filter (\<lambda>e. b_binding e = b) es)"
  by (induction es) auto

lemma length_filter_pin_first:
  "length (filter (\<lambda>e. b_binding e = b) (pin_first c h es)) = length (filter (\<lambda>e. b_binding e = b) es)"
  by (induction es) auto

lemma copies_link:
  "length (r_buckets reg) = 256 \<Longrightarrow>
   copies b (binding_link e reg) = copies b reg + (if b_binding e = b then 1 else 0)"
  by (auto simp: binding_link_def copies_set_bucket) (auto simp: copies_def bucket_of_def)

lemma copies_unlink:
  "length (r_buckets reg) = 256 \<Longrightarrow>
   copies b (binding_unlink c reg) + (if b = c \<and> binding_lookup reg c \<noteq> None then 1 else 0) = copies b reg"
  using length_filter_unlink_first [of b c "bucket_of reg c"] bucket_of_cong [of b c reg]
  by (auto simp: binding_unlink_def copies_set_bucket binding_lookup_def copies_def [of b reg]
      copies_def [of c reg])

lemma copies_pin:
  "length (r_buckets reg) = 256 \<Longrightarrow> copies b (binding_pin c h reg) = copies b reg"
  using bucket_of_cong [of b c reg]
  by (auto simp: binding_pin_def copies_set_bucket length_filter_pin_first) (simp add: copies_def)

lemma length_buckets [simp]:
  "length (r_buckets (binding_link e reg)) = length (r_buckets reg)"
  "length (r_buckets (binding_unlink b reg)) = length (r_buckets reg)"
  "length (r_buckets (binding_pin b h reg)) = length (r_buckets reg)"
  "length (r_buckets (portillia_bindings_sweep_expired reg now)) = length (r_buckets reg)"
  by (simp_all add: binding_link_def binding_unlink_def binding_pin_def set_bucket_def
      portillia_bindings_sweep_expired_def)

lemma copies_sweep:
  "length (r_buckets reg) = 256 \<Longrightarrow> copies b (portillia_bindings_sweep_expired reg now) \<le> copies b reg"
  by (simp add: copies_def bucket_of_def portillia_bindings_sweep_expired_def)
    (metis (no_types, lifting) filter_filter length_filter_le filter_cong conj_commute)

lemma length_buckets_exec [simp]:
  "length (r_buckets (fst (binding_exec sha256 c reg))) = length (r_buckets reg)"
  by (cases c) (auto simp: binding_op_defs Let_def split: option.split)

lemma copies_exec:
  assumes "length (r_buckets reg) = 256"
  shows "copies b (fst (binding_exec sha256 c reg)) + spent sha256 b [c] reg \<le> copies b reg + count_list (issued [c]) b"
proof (cases c)
  case (Consume b' lease hello now)
  then show ?thesis
    using copies_unlink [OF assms, of b b']
    by (auto simp: binding_op_defs split: option.split if_splits)
next
  case (Discard b')
  then show ?thesis
    using copies_unlink [OF assms, of b b'] by (auto simp: binding_op_defs split: option.split if_splits)
qed (use assms in \<open>auto simp: binding_op_defs Let_def copies_link copies_pin copies_sweep split: option.split\<close>)

lemma copies_run:
  "length (r_buckets reg) = 256 \<Longrightarrow>
   copies b (binding_run sha256 cs reg) + spent sha256 b cs reg \<le> copies b reg + count_list (issued cs) b"
proof (induction cs arbitrary: reg)
  case (Cons c cs)
  have "copies b (binding_run sha256 cs (fst (binding_exec sha256 c reg))) +
        spent sha256 b cs (fst (binding_exec sha256 c reg))
      \<le> copies b (fst (binding_exec sha256 c reg)) + count_list (issued cs) b"
    using Cons by simp
  with copies_exec [OF Cons.prems, of b sha256 c] show ?case
    by simp
qed simp

lemma length_buckets_new [simp]: "length (r_buckets (portillia_bindings_new ttl)) = 256"
  by (simp add: portillia_bindings_new_def)

lemma copies_new [simp]: "copies b (portillia_bindings_new ttl) = 0"
  by (simp add: copies_def bucket_of_def portillia_bindings_new_def)

text \<open>C7. A binding authorizes at most one signature for each time it was minted, whatever calls the
  relay's threads interleave: over any sequence of registry calls, the successful
  \<open>validate_and_consume\<close> calls for a binding are no more than its \<open>issue\<close> calls. With unique random
  bindings each is single-use.\<close>

theorem binding_single_use:
  "spent sha256 b cs (portillia_bindings_new ttl) \<le> count_list (issued cs) b"
  using copies_run [of "portillia_bindings_new ttl" b sha256 cs] by simp


subsection \<open>What a spent binding proves\<close>

text \<open>Where an entry of the registry comes from: an \<open>issue\<close> call with its lease and clock, and a hash
  that is still zero, was given at issue, or was pinned by \<open>fix_hello\<close>.\<close>

definition entry_from ::
  "(byte list \<Rightarrow> byte list) \<Rightarrow> int \<Rightarrow> binding_call list \<Rightarrow> portillia_binding_entry \<Rightarrow> bool" where
  "entry_from sha256 ttl cs e \<longleftrightarrow>
     (\<exists>lease hello t. Issue lease hello (b_binding e) t \<in> set cs \<and>
        b_lease_id e = or_empty lease \<and> b_expires_at e = (fst t + ttl, snd t) \<and>
        (binding_hash_is_zero (b_hello_hash e) \<or>
         (\<exists>h. h \<noteq> [] \<and> b_hello_hash e = sha256 h \<and>
            (h = hello \<or> (\<exists>t'. Fix_hello (b_binding e) h t' \<in> set cs)))))"

definition registry_from ::
  "(byte list \<Rightarrow> byte list) \<Rightarrow> int \<Rightarrow> binding_call list \<Rightarrow> portillia_binding_registry \<Rightarrow> bool" where
  "registry_from sha256 ttl cs reg \<longleftrightarrow>
     length (r_buckets reg) = 256 \<and> r_ttl_seconds reg = ttl \<and>
     (\<forall>es \<in> set (r_buckets reg). \<forall>e \<in> set es. entry_from sha256 ttl cs e)"

lemma entry_from_mono: "entry_from sha256 ttl cs e \<Longrightarrow> set cs \<subseteq> set ds \<Longrightarrow> entry_from sha256 ttl ds e"
  unfolding entry_from_def
  by (elim exE conjE, (rule exI)+, intro conjI) (auto intro: subsetD)

lemma registry_from_mono:
  "registry_from sha256 ttl cs reg \<Longrightarrow> set cs \<subseteq> set ds \<Longrightarrow> registry_from sha256 ttl ds reg"
  unfolding registry_from_def by (meson entry_from_mono)

lemma registry_from_set_bucket:
  assumes "registry_from sha256 ttl cs reg" "\<And>e. e \<in> set es \<Longrightarrow> entry_from sha256 ttl cs e"
  shows "registry_from sha256 ttl cs (set_bucket reg b es)"
  using assms set_update_subset_insert [of "r_buckets reg" "binding_bucket b" es]
  unfolding registry_from_def set_bucket_def by fastforce

lemma registry_from_bucket:
  "registry_from sha256 ttl cs reg \<Longrightarrow> e \<in> set (bucket_of reg b) \<Longrightarrow> entry_from sha256 ttl cs e"
  by (auto simp: registry_from_def bucket_of_def)

lemma registry_from_unlink:
  "registry_from sha256 ttl cs reg \<Longrightarrow> registry_from sha256 ttl cs (binding_unlink b reg)"
  unfolding binding_unlink_def
  by (meson registry_from_set_bucket registry_from_bucket set_unlink_first subsetD)

lemma set_pin_first:
  "e' \<in> set (pin_first b h es) \<Longrightarrow>
   e' \<in> set es \<or> (\<exists>e \<in> set es. b_binding e = b \<and> e' = e\<lparr>b_hello_hash := h\<rparr>)"
  by (induction es) (auto split: if_splits)

lemma entry_from_pin:
  assumes "entry_from sha256 ttl cs e" "h \<noteq> []" "Fix_hello (b_binding e) h t \<in> set cs"
  shows "entry_from sha256 ttl cs (e\<lparr>b_hello_hash := sha256 h\<rparr>)"
proof -
  obtain lease hello t0 where "Issue lease hello (b_binding e) t0 \<in> set cs"
    "b_lease_id e = or_empty lease" "b_expires_at e = (fst t0 + ttl, snd t0)"
    using assms(1) unfolding entry_from_def by blast
  moreover have "\<exists>h'. h' \<noteq> [] \<and> sha256 h = sha256 h' \<and>
      (h' = hello \<or> (\<exists>t'. Fix_hello (b_binding e) h' t' \<in> set cs))"
    using assms(2,3) by blast
  ultimately show ?thesis
    unfolding entry_from_def by (simp del: split_paired_Ex) blast
qed

lemma registry_from_pin:
  assumes orig: "registry_from sha256 ttl cs reg" and "h \<noteq> []" "Fix_hello b h t \<in> set cs"
  shows "registry_from sha256 ttl cs (binding_pin b (sha256 h) reg)"
  unfolding binding_pin_def
proof (rule registry_from_set_bucket [OF orig])
  fix e' assume "e' \<in> set (pin_first b (sha256 h) (bucket_of reg b))"
  then show "entry_from sha256 ttl cs e'"
    using assms(2,3) by (auto dest!: set_pin_first intro: registry_from_bucket [OF orig] entry_from_pin)
qed

lemma registry_from_exec:
  assumes orig: "registry_from sha256 ttl cs reg"
  shows "registry_from sha256 ttl (cs @ [c]) (fst (binding_exec sha256 c reg))"
proof -
  have orig': "registry_from sha256 ttl (cs @ [c]) reg"
    by (rule registry_from_mono [OF orig]) auto
  show ?thesis
  proof (cases c)
    case (Issue lease hello b now)
    let ?e = "\<lparr>b_binding = b, b_lease_id = or_empty lease,
               b_expires_at = (fst now + r_ttl_seconds reg, snd now),
               b_hello_hash = (if hello \<noteq> [] then sha256 hello else replicate 32 0)\<rparr>"
    have "entry_from sha256 ttl (cs @ [c]) ?e"
      unfolding entry_from_def
      by (rule exI [of _ lease], rule exI [of _ hello], rule exI [of _ now])
        (use orig Issue in \<open>auto simp: registry_from_def binding_hash_is_zero_def\<close>)
    then have "registry_from sha256 ttl (cs @ [c]) (binding_link ?e reg)"
      unfolding binding_link_def
      by (intro registry_from_set_bucket [OF orig']) (auto intro: registry_from_bucket [OF orig'])
    then show ?thesis
      by (simp add: Issue portillia_bindings_issue_def Let_def)
  next
    case (Fix_hello b h now)
    then show ?thesis
      using orig' registry_from_pin [OF orig', of h b now]
      by (auto simp: portillia_bindings_fix_hello_def split: option.split)
  next
    case (Sweep now)
    then show ?thesis
      using orig' by (auto simp: portillia_bindings_sweep_expired_def registry_from_def)
  qed (use orig' in \<open>auto simp: binding_op_defs registry_from_unlink split: option.split\<close>)
qed

lemma registry_from_run:
  "registry_from sha256 ttl cs reg \<Longrightarrow> registry_from sha256 ttl (cs @ ds) (binding_run sha256 ds reg)"
proof (induction ds arbitrary: cs reg)
  case (Cons d ds)
  then show ?case
    using registry_from_exec [OF Cons.prems, of d] Cons.IH [of "cs @ [d]"] by simp
qed simp

lemma registry_from_new: "registry_from sha256 ttl [] (portillia_bindings_new ttl)"
  by (simp add: registry_from_def portillia_bindings_new_def)

lemma consume_OK:
  assumes "snd (portillia_bindings_validate_and_consume sha256 reg b lease hello now) = PORTILLIA_BINDING_OK"
  obtains e where "binding_lookup reg b = Some e" "length b = 16" "hello \<noteq> []"
    "timespec_before now (b_expires_at e)" "b_lease_id e = or_empty lease"
    "\<not> binding_hash_is_zero (b_hello_hash e)" "b_hello_hash e = sha256 hello"
  using assms by (auto simp: portillia_bindings_validate_and_consume_def split: option.splits if_splits)

lemma accepted_binding_origin:
  assumes "snd (portillia_bindings_validate_and_consume sha256
      (binding_run sha256 cs (portillia_bindings_new ttl)) b lease hello now) = PORTILLIA_BINDING_OK"
  shows "\<exists>lease0 hello0 t0 h. Issue lease0 hello0 b t0 \<in> set cs \<and>
      or_empty lease0 = or_empty lease \<and> timespec_before now (fst t0 + ttl, snd t0) \<and>
      h \<noteq> [] \<and> sha256 h = sha256 hello \<and> (h = hello0 \<or> (\<exists>t. Fix_hello b h t \<in> set cs))"
proof -
  let ?reg = "binding_run sha256 cs (portillia_bindings_new ttl)"
  obtain e where e: "binding_lookup ?reg b = Some e" "timespec_before now (b_expires_at e)"
    "b_lease_id e = or_empty lease" "\<not> binding_hash_is_zero (b_hello_hash e)" "b_hello_hash e = sha256 hello"
    using assms by (rule consume_OK)
  have "e \<in> set (bucket_of ?reg b)" "b_binding e = b"
    using e(1) by (auto simp: binding_lookup_def find_Some_iff)
  moreover have "registry_from sha256 ttl cs ?reg"
    using registry_from_run [OF registry_from_new] by simp
  ultimately have "entry_from sha256 ttl cs e"
    using registry_from_bucket by blast
  then show ?thesis
    unfolding entry_from_def using e \<open>b_binding e = b\<close> by metis
qed

text \<open>A small hash for the witnesses: the first 16 bytes of the message, padded.\<close>

definition sample_hash :: "byte list \<Rightarrow> byte list" where
  "sample_hash m = take 32 (m @ replicate 32 1)"

definition sample_calls :: "binding_call list" where
  "sample_calls = [Issue (Some ''lease-a'') [] (replicate 16 7) (100, 0),
     Issue (Some ''lease-b'') [] (replicate 16 9) (101, 0),
     Fix_hello (replicate 16 7) [1, 2, 3] (120, 5)]"

lemma sample_calls_consume:
  "snd (portillia_bindings_validate_and_consume sample_hash
     (binding_run sample_hash sample_calls (portillia_bindings_new 300))
     (replicate 16 7) (Some ''lease-a'') [1, 2, 3] (399, 0)) = PORTILLIA_BINDING_OK"
  by code_simp


subsection \<open>A binding in use is not disturbed\<close>

lemma lookup_exec_dom:
  assumes "wf_bindings reg"
  shows "dom (binding_lookup (fst (binding_exec sha256 c reg))) \<subseteq> dom (binding_lookup reg) \<union> set (issued [c])"
  using assms
  by (cases c) (auto simp: binding_op_defs Let_def registry.store_simps lookup_sweep split: option.splits if_splits)

lemma wf_exec:
  assumes "wf_bindings reg" "set (issued [c]) \<inter> dom (binding_lookup reg) = {}"
  shows "wf_bindings (fst (binding_exec sha256 c reg))"
  using assms
  by (cases c) (auto simp: binding_op_defs Let_def registry.store_simps wf_sweep domIff split: option.split)

lemma wf_run:
  assumes "wf_bindings reg" "distinct (issued cs)" "set (issued cs) \<inter> dom (binding_lookup reg) = {}"
  shows "wf_bindings (binding_run sha256 cs reg) \<and>
    dom (binding_lookup (binding_run sha256 cs reg)) \<subseteq> dom (binding_lookup reg) \<union> set (issued cs)"
  using assms
proof (induction cs arbitrary: reg)
  case (Cons c cs)
  let ?reg = "fst (binding_exec sha256 c reg)"
  have iss: "issued (c # cs) = issued [c] @ issued cs" by simp
  have "wf_bindings ?reg"
    using Cons.prems by (intro wf_exec) (auto simp: iss)
  moreover have dom: "dom (binding_lookup ?reg) \<subseteq> dom (binding_lookup reg) \<union> set (issued [c])"
    using Cons.prems(1) by (rule lookup_exec_dom)
  moreover have "distinct (issued cs)" "set (issued [c]) \<inter> set (issued cs) = {}"
    "set (issued cs) \<inter> dom (binding_lookup reg) = {}"
    using Cons.prems(2,3) unfolding iss by auto
  ultimately show ?case
    using Cons.IH [of ?reg] unfolding iss by (simp del: issued_simps) blast
qed simp

text \<open>Calls that leave the binding \<open>b\<close>, which expires at \<open>t\<close>, alone: they concern another binding,
  or sweep before that time.\<close>

definition leaves_alone :: "byte list \<Rightarrow> timespec \<Rightarrow> binding_call \<Rightarrow> bool" where
  "leaves_alone b t c =
     (case c of
        Issue _ _ b' _ \<Rightarrow> b' \<noteq> b
      | Fix_hello b' _ _ \<Rightarrow> b' \<noteq> b
      | Consume b' _ _ _ \<Rightarrow> b' \<noteq> b
      | Discard b' \<Rightarrow> b' \<noteq> b
      | Sweep now \<Rightarrow> timespec_before now t)"

lemma lookup_exec_leaves_alone:
  assumes "wf_bindings reg" "binding_lookup reg b = Some e" "leaves_alone b (b_expires_at e) c"
  shows "binding_lookup (fst (binding_exec sha256 c reg)) b = Some e"
  using assms
  by (cases c)
    (auto simp: binding_op_defs Let_def leaves_alone_def registry.store_simps lookup_sweep split: option.split)

lemma lookup_run_leaves_alone:
  assumes "wf_bindings reg" "distinct (issued cs)" "set (issued cs) \<inter> dom (binding_lookup reg) = {}"
    and "binding_lookup reg b = Some e" "list_all (leaves_alone b (b_expires_at e)) cs"
  shows "binding_lookup (binding_run sha256 cs reg) b = Some e"
  using assms
proof (induction cs arbitrary: reg)
  case (Cons c cs)
  let ?reg = "fst (binding_exec sha256 c reg)"
  have iss: "issued (c # cs) = issued [c] @ issued cs" by simp
  have "wf_bindings ?reg"
    using Cons.prems by (intro wf_exec) (auto simp: iss)
  moreover have dom: "dom (binding_lookup ?reg) \<subseteq> dom (binding_lookup reg) \<union> set (issued [c])"
    using Cons.prems(1) by (rule lookup_exec_dom)
  moreover have "distinct (issued cs)" "set (issued cs) \<inter> set (issued [c]) = {}"
    "set (issued cs) \<inter> dom (binding_lookup reg) = {}"
    using Cons.prems(2,3) unfolding iss by auto
  moreover have "binding_lookup ?reg b = Some e"
    using Cons.prems by (intro lookup_exec_leaves_alone) auto
  ultimately show ?case
    using Cons.IH [of ?reg] Cons.prems(5) by (simp del: issued_simps) blast
qed simp

text \<open>The reverse session keeps its binding: a freshly issued binding that is pinned once to the
  observed ClientHello is accepted once when the tunnel presents the same ClientHello for its lease
  within the lifetime, whatever the other sessions and the janitor do in between.\<close>

theorem binding_round_trip:
  fixes ttl :: int
  assumes "length b = 16" "hello \<noteq> []" "\<not> binding_hash_is_zero (sha256 hello)"
    and "distinct (issued (before @ [Issue lease [] b t0] @ mid1 @ mid2))"
    and "expiry = (fst t0 + ttl, snd t0)"
    and "list_all (leaves_alone b expiry) mid1" "list_all (leaves_alone b expiry) mid2"
    and "timespec_before t1 expiry" "timespec_before t2 expiry"
    and "reg1 = binding_run sha256 (before @ [Issue lease [] b t0] @ mid1) (portillia_bindings_new ttl)"
  shows "snd (portillia_bindings_fix_hello sha256 reg1 b hello t1) = PORTILLIA_BINDING_OK \<and>
    snd (portillia_bindings_validate_and_consume sha256
      (binding_run sha256 mid2 (fst (portillia_bindings_fix_hello sha256 reg1 b hello t1)))
      b lease hello t2) = PORTILLIA_BINDING_OK"
proof -
  let ?reg0 = "binding_run sha256 before (portillia_bindings_new ttl)"
  let ?e = "\<lparr>b_binding = b, b_lease_id = or_empty lease, b_expires_at = expiry, b_hello_hash = replicate 32 0\<rparr>"
  have "r_ttl_seconds ?reg0 = ttl"
    using registry_from_run [OF registry_from_new, of sha256 ttl before] by (simp add: registry_from_def)
  then have reg1: "reg1 = binding_run sha256 mid1 (binding_link ?e ?reg0)"
    using assms(5,10) by (simp add: portillia_bindings_issue_def Let_def)
  have new: "wf_bindings ?reg0" "dom (binding_lookup ?reg0) \<subseteq> set (issued before)"
    using wf_run [OF wf_bindings_new, of before ttl sha256] assms(4) by auto
  then have wf0: "wf_bindings (binding_link ?e ?reg0)"
    using assms(4) by (auto intro!: registry.invar_link simp: domIff)
  have look0: "binding_lookup (binding_link ?e ?reg0) b = Some ?e"
    and dom0: "dom (binding_lookup (binding_link ?e ?reg0)) \<subseteq> insert b (set (issued before))"
    using new(2) by (simp_all add: registry.lookup_link [OF new(1)] registry.dom_link [OF new(1)] subset_insertI2)
  have mid1: "distinct (issued mid1)" "set (issued mid1) \<inter> dom (binding_lookup (binding_link ?e ?reg0)) = {}"
    using assms(4) dom0 by auto
  have look1: "binding_lookup reg1 b = Some ?e"
    unfolding reg1 by (rule lookup_run_leaves_alone [OF wf0 mid1 look0]) (simp add: assms(6))
  have wf1: "wf_bindings reg1" and dom1: "dom (binding_lookup reg1) \<subseteq> insert b (set (issued before) \<union> set (issued mid1))"
    unfolding reg1 using wf_run [OF wf0 mid1, of sha256] dom0 by (simp, blast)
  have fixed: "portillia_bindings_fix_hello sha256 reg1 b hello t1 =
      (binding_pin b (sha256 hello) reg1, PORTILLIA_BINDING_OK)"
    using assms(2,8) look1 by (simp add: portillia_bindings_fix_hello_def binding_hash_is_zero_def)
  let ?reg2 = "binding_pin b (sha256 hello) reg1"
  have "binding_lookup ?reg2 b = Some (?e\<lparr>b_hello_hash := sha256 hello\<rparr>)" "wf_bindings ?reg2"
    using look1 wf1 by (simp_all add: registry.store_simps)
  moreover have "distinct (issued mid2)" "set (issued mid2) \<inter> dom (binding_lookup ?reg2) = {}"
    using assms(4) dom1 by (auto simp: registry.dom_pin [OF wf1])
  ultimately have "binding_lookup (binding_run sha256 mid2 ?reg2) b = Some (?e\<lparr>b_hello_hash := sha256 hello\<rparr>)"
    using assms(7) by (intro lookup_run_leaves_alone) simp_all
  then show ?thesis
    using assms(1-3,9) by (simp add: fixed portillia_bindings_validate_and_consume_def)
qed

theorem binding_round_trip_witness:
  "snd (portillia_bindings_validate_and_consume sample_hash
      (binding_run sample_hash [Issue (Some ''lease-b'') [] (replicate 16 9) (102, 0), Sweep (399, 0)]
        (fst (portillia_bindings_fix_hello sample_hash
          (binding_run sample_hash [Issue (Some ''lease-a'') [] (replicate 16 7) (100, 0), Discard (replicate 16 8)]
             (portillia_bindings_new 300))
          (replicate 16 7) [1, 2, 3] (101, 0))))
      (replicate 16 7) (Some ''lease-a'') [1, 2, 3] (399, 5)) = PORTILLIA_BINDING_OK"
  using binding_round_trip [of "replicate 16 7" "[1, 2, 3]" sample_hash "[]" "Some ''lease-a''" "(100, 0)"
      "[Discard (replicate 16 8)]" "[Issue (Some ''lease-b'') [] (replicate 16 9) (102, 0), Sweep (399, 0)]"
      "(400, 0)" 300 "(101, 0)" "(399, 5)"
      "binding_run sample_hash [Issue (Some ''lease-a'') [] (replicate 16 7) (100, 0), Discard (replicate 16 8)]
         (portillia_bindings_new 300)"]
  by (simp add: sample_hash_def binding_hash_is_zero_def leaves_alone_def timespec_before_def
      replicate_eq_replicate)

end
