(* ===== verification/Binding_Refinement.thy ===== *)
theory Binding_Refinement
  imports Bindings
begin

text \<open>
  An abstract specification of the binding registry of \<^verbatim>\<open>src/portal/keyless/bindings.c\<close> and the proof that the
  bucket array with its linked lists implements it. The specification knows no buckets, no hash
  values of zero and no entries: it is a finite set of grants, one per binding, each for one lease and
  until one time, either open or tied to a ClientHello.
\<close>

section \<open>Grants\<close>

datatype hello_state = Open | Tied "byte list"

record grant =
  g_lease :: cstring
  g_until :: timespec
  g_hello :: hello_state

type_synonym grants = "byte list \<rightharpoonup> grant"

definition live :: "timespec \<Rightarrow> grant \<Rightarrow> bool" where
  "live now g \<longleftrightarrow> timespec_before now (g_until g)"

definition tie :: "(byte list \<Rightarrow> byte list) \<Rightarrow> byte list \<Rightarrow> hello_state" where
  "tie sha256 hello = (if hello = [] then Open else Tied (sha256 hello))"

fun grants_step ::
  "(byte list \<Rightarrow> byte list) \<Rightarrow> int \<Rightarrow> binding_call \<Rightarrow> grants \<Rightarrow> grants \<times> portillia_binding_status" where
  "grants_step sha256 ttl (Issue lease hello b now) m =
     (m(b \<mapsto> \<lparr>g_lease = or_empty lease, g_until = (fst now + ttl, snd now), g_hello = tie sha256 hello\<rparr>), PORTILLIA_BINDING_OK)"
| "grants_step sha256 ttl (Fix_hello b hello now) m =
     (if hello = [] then (m, PORTILLIA_BINDING_ERR_HELLO_REQUIRED)
      else case m b of
        None \<Rightarrow> (m, PORTILLIA_BINDING_ERR_UNKNOWN)
      | Some g \<Rightarrow>
          if \<not> live now g then (m, PORTILLIA_BINDING_ERR_EXPIRED)
          else if g_hello g \<noteq> Open then (m, PORTILLIA_BINDING_ERR_ALREADY_FIXED)
          else (m(b \<mapsto> g\<lparr>g_hello := tie sha256 hello\<rparr>), PORTILLIA_BINDING_OK))"
| "grants_step sha256 ttl (Consume b lease hello now) m =
     (if length b \<noteq> 16 then (m, PORTILLIA_BINDING_ERR_BAD_SIZE)
      else if hello = [] then (m, PORTILLIA_BINDING_ERR_HELLO_REQUIRED)
      else case m b of
        None \<Rightarrow> (m, PORTILLIA_BINDING_ERR_UNKNOWN_OR_EXPIRED)
      | Some g \<Rightarrow>
          if \<not> live now g then (m, PORTILLIA_BINDING_ERR_UNKNOWN_OR_EXPIRED)
          else if g_lease g \<noteq> or_empty lease then (m, PORTILLIA_BINDING_ERR_WRONG_LEASE)
          else case g_hello g of
            Open \<Rightarrow> (m, PORTILLIA_BINDING_ERR_NEVER_FIXED)
          | Tied h \<Rightarrow>
              if Tied h \<noteq> tie sha256 hello then (m, PORTILLIA_BINDING_ERR_HELLO_MISMATCH)
              else (m(b := None), PORTILLIA_BINDING_OK))"
| "grants_step sha256 ttl (Discard b) m = (m(b := None), PORTILLIA_BINDING_OK)"
| "grants_step sha256 ttl (Sweep now) m =
     ((\<lambda>b. case m b of None \<Rightarrow> None | Some g \<Rightarrow> if live now g then Some g else None), PORTILLIA_BINDING_OK)"

fun grants_trace ::
  "(byte list \<Rightarrow> byte list) \<Rightarrow> int \<Rightarrow> binding_call list \<Rightarrow> grants \<Rightarrow> portillia_binding_status list" where
  "grants_trace sha256 ttl [] m = []"
| "grants_trace sha256 ttl (c # cs) m =
     snd (grants_step sha256 ttl c m) # grants_trace sha256 ttl cs (fst (grants_step sha256 ttl c m))"

text \<open>What the callers of the registry see.\<close>

fun binding_trace ::
  "(byte list \<Rightarrow> byte list) \<Rightarrow> binding_call list \<Rightarrow> portillia_binding_registry \<Rightarrow> portillia_binding_status list" where
  "binding_trace sha256 [] reg = []"
| "binding_trace sha256 (c # cs) reg =
     snd (binding_exec sha256 c reg) # binding_trace sha256 cs (fst (binding_exec sha256 c reg))"

section \<open>Abstraction\<close>

definition abs_entry :: "portillia_binding_entry \<Rightarrow> grant" where
  "abs_entry e = \<lparr>g_lease = b_lease_id e, g_until = b_expires_at e,
     g_hello = (if binding_hash_is_zero (b_hello_hash e) then Open else Tied (b_hello_hash e))\<rparr>"

definition abs_registry :: "portillia_binding_registry \<Rightarrow> grants" where
  "abs_registry reg = (\<lambda>b. map_option abs_entry (binding_lookup reg b))"

definition proper_hash :: "(byte list \<Rightarrow> byte list) \<Rightarrow> bool" where
  "proper_hash sha256 \<longleftrightarrow> (\<forall>m. \<not> binding_hash_is_zero (sha256 m))"

lemma abs_simps [simp]:
  "g_lease (abs_entry e) = b_lease_id e" "g_until (abs_entry e) = b_expires_at e"
  "g_hello (abs_entry e) = (if binding_hash_is_zero (b_hello_hash e) then Open else Tied (b_hello_hash e))"
  by (simp_all add: abs_entry_def)

lemma zero_hash [simp]: "binding_hash_is_zero (replicate n 0)"
  by (simp add: binding_hash_is_zero_def)

lemma abs_new: "abs_registry (portillia_bindings_new ttl) = Map.empty"
  by (simp add: abs_registry_def)

lemma abs_link:
  "wf_bindings reg \<Longrightarrow> abs_registry (binding_link e reg) = (abs_registry reg)(b_binding e \<mapsto> abs_entry e)"
  by (auto simp: abs_registry_def registry.lookup_link)

lemma abs_unlink: "wf_bindings reg \<Longrightarrow> abs_registry (binding_unlink b reg) = (abs_registry reg)(b := None)"
  by (auto simp: abs_registry_def registry.lookup_unlink)

lemma abs_pin:
  assumes "wf_bindings reg" "proper_hash sha256" "hello \<noteq> []" "binding_lookup reg b = Some e"
  shows "abs_registry (binding_pin b (sha256 hello) reg) = (abs_registry reg)(b \<mapsto> (abs_entry e)\<lparr>g_hello := tie sha256 hello\<rparr>)"
  using assms by (auto simp: abs_registry_def registry.lookup_pin abs_entry_def tie_def proper_hash_def)

lemma abs_sweep:
  "wf_bindings reg \<Longrightarrow> abs_registry (portillia_bindings_sweep_expired reg now) =
    (\<lambda>b. case abs_registry reg b of None \<Rightarrow> None | Some g \<Rightarrow> if live now g then Some g else None)"
  by (auto simp: abs_registry_def lookup_sweep live_def split: option.split)

lemma abs_discard: "wf_bindings reg \<Longrightarrow> abs_registry (portillia_bindings_discard reg b) = (abs_registry reg)(b := None)"
  using abs_unlink [of reg b]
  by (cases "binding_lookup reg b") (auto simp: portillia_bindings_discard_def abs_registry_def fun_eq_iff)

text \<open>One call: the array and the grants answer alike and stay related.\<close>

lemma exec_refines:
  assumes wf: "wf_bindings reg" and hash: "proper_hash sha256"
  shows "abs_registry (fst (binding_exec sha256 c reg)) = fst (grants_step sha256 (r_ttl_seconds reg) c (abs_registry reg)) \<and>
    snd (binding_exec sha256 c reg) = snd (grants_step sha256 (r_ttl_seconds reg) c (abs_registry reg))"
proof (cases c)
  case (Issue lease hello b now)
  then show ?thesis
    using wf hash
    by (simp add: portillia_bindings_issue_def Let_def abs_link) (simp add: abs_entry_def tie_def proper_hash_def)
next
  case (Fix_hello b hello now)
  show ?thesis
  proof (cases "binding_lookup reg b")
    case (Some e)
    then show ?thesis
      using Fix_hello abs_pin [OF wf hash _ Some, of hello]
      by (simp add: portillia_bindings_fix_hello_def abs_registry_def live_def)
  qed (simp add: Fix_hello portillia_bindings_fix_hello_def abs_registry_def)
next
  case (Consume b lease hello now)
  show ?thesis
  proof (cases "binding_lookup reg b")
    case (Some e)
    then show ?thesis
      using Consume abs_unlink [OF wf, of b]
      by (simp add: portillia_bindings_validate_and_consume_def abs_registry_def live_def tie_def)
  qed (simp add: Consume portillia_bindings_validate_and_consume_def abs_registry_def)
next
  case (Sweep now)
  then show ?thesis by (simp add: abs_sweep [OF wf])
qed (simp add: abs_discard [OF wf])

lemma exec_ttl [simp]: "r_ttl_seconds (fst (binding_exec sha256 c reg)) = r_ttl_seconds reg"
  by (cases c) (auto simp: binding_op_defs portillia_bindings_sweep_expired_def binding_link_def binding_unlink_def
      binding_pin_def set_bucket_def Let_def split: option.split)

lemma dom_abs [simp]: "dom (abs_registry reg) = dom (binding_lookup reg)"
  by (auto simp: abs_registry_def domIff)

lemma trace_refines:
  assumes "wf_bindings reg" "proper_hash sha256" "distinct (issued cs)" "set (issued cs) \<inter> dom (abs_registry reg) = {}"
  shows "binding_trace sha256 cs reg = grants_trace sha256 (r_ttl_seconds reg) cs (abs_registry reg)"
  using assms
proof (induction cs arbitrary: reg)
  case (Cons c cs)
  let ?reg = "fst (binding_exec sha256 c reg)"
  note step = exec_refines [OF Cons.prems(1,2), of c]
  have iss: "issued (c # cs) = issued [c] @ issued cs" by simp
  have "wf_bindings ?reg"
    using Cons.prems by (intro wf_exec) (auto simp: iss)
  moreover have "set (issued cs) \<inter> dom (abs_registry ?reg) = {}"
    using Cons.prems(3,4) lookup_exec_dom [OF Cons.prems(1), of sha256 c] unfolding iss dom_abs
    by (simp del: issued_simps) blast
  ultimately show ?case using Cons.IH [of ?reg] Cons.prems(2,3) step by simp
qed simp



end
