(* ===== verification/Hello_Capture.thy ===== *)
theory Hello_Capture
  imports Bindings
begin

text \<open>
  Capturing the first ClientHello of a bridged connection: the accumulator at the end of
  \<^verbatim>\<open>src/portal/keyless/bindings.c\<close> and the capture of \<^verbatim>\<open>src/portal/proxy.c\<close> that feeds it and pins the
  result to the binding of the connection.

  The claims here depend on where the bytes are, so a buffer is modelled as its heap block: the
  bytes written to it so far, the size it was allocated with, and the \<open>len\<close> and \<open>cap\<close> fields that
  describe it. A write past the allocated size, and a \<open>free\<close> of a pointer that \<open>realloc\<close> has already
  released, have no defined outcome in C; the operation is then \<open>None\<close>.
\<close>

section \<open>The accumulator\<close>

record cbuf =
  cb_data :: "byte list"
  cb_size :: nat
  cb_len :: nat
  cb_cap :: nat

record portillia_ch_accum =
  a_pending :: cbuf
  a_hello :: cbuf
  a_expected :: nat

definition null_buf :: cbuf where
  "null_buf = \<lparr>cb_data = [], cb_size = 0, cb_len = 0, cb_cap = 0\<rparr>"

definition portillia_ch_accum_init :: portillia_ch_accum where
  "portillia_ch_accum_init = \<lparr>a_pending = null_buf, a_hello = null_buf, a_expected = 0\<rparr>"

definition portillia_ch_accum_reset :: "portillia_ch_accum \<Rightarrow> portillia_ch_accum" where
  "portillia_ch_accum_reset acc = portillia_ch_accum_init"

text \<open>\<open>while (new_cap < need) new_cap *= 2\<close>, for a positive start.\<close>

function grow_cap :: "nat \<Rightarrow> nat \<Rightarrow> nat" where
  "grow_cap cap need = (if 0 < cap \<and> cap < need then grow_cap (cap * 2) need else cap)"
  by auto
termination by (relation "measure (\<lambda>(cap, need). need - cap)") auto

declare grow_cap.simps [simp del]

definition accum_append :: "cbuf \<Rightarrow> byte list \<Rightarrow> cbuf option" where
  "accum_append b bs =
     (let total_len = cb_len b + length bs;
          b' = (if total_len > cb_cap b
                then let new_cap = grow_cap (if cb_cap b \<noteq> 0 then cb_cap b else 4096) total_len
                     in b\<lparr>cb_size := new_cap, cb_cap := new_cap\<rparr>
                else b)
      in if total_len > cb_size b' then None
         else Some (b'\<lparr>cb_data := take (cb_len b) (cb_data b) @ bs @ drop total_len (cb_data b),
                       cb_len := total_len\<rparr>))"

text \<open>\<open>memmove (buf, buf + k, len - k); len -= k\<close>: the bytes after the new end keep their old values.\<close>

definition buf_consume :: "nat \<Rightarrow> cbuf \<Rightarrow> cbuf" where
  "buf_consume k b = b\<lparr>cb_data := drop k (take (cb_len b) (cb_data b)) @ drop (cb_len b - k) (cb_data b),
                       cb_len := cb_len b - k\<rparr>"

type_synonym accum_result = "portillia_ch_accum \<times> portillia_binding_status \<times> byte list option"

text \<open>The body of the loop after the record has been cut off: the handshake header, then the message.
  \<open>Inl\<close> is a \<open>return\<close>, \<open>Inr\<close> the next iteration.\<close>

definition ch_accum_message ::
  "portillia_ch_accum \<Rightarrow> byte list \<Rightarrow> (accum_result + portillia_ch_accum) option" where
  "ch_accum_message acc body =
     (if a_expected acc > 0 \<and> body \<noteq> [] then
        let need = min (a_expected acc - cb_len (a_hello acc)) (length body)
        in case accum_append (a_hello acc) (take need body) of
             None \<Rightarrow> None
           | Some h \<Rightarrow>
               let acc' = acc\<lparr>a_hello := h\<rparr>
               in if cb_len h = a_expected acc
                  then Some (Inl (acc', PORTILLIA_BINDING_OK, Some (take (cb_len h) (cb_data h))))
                  else Some (Inr acc')
      else Some (Inr acc))"

definition ch_accum_record ::
  "portillia_ch_accum \<Rightarrow> byte list \<Rightarrow> (accum_result + portillia_ch_accum) option" where
  "ch_accum_record acc body =
     (if a_expected acc = 0 \<and> cb_len (a_hello acc) < 4 then
        let need = min (4 - cb_len (a_hello acc)) (length body)
        in case accum_append (a_hello acc) (take need body) of
             None \<Rightarrow> None
           | Some h \<Rightarrow>
               let acc' = acc\<lparr>a_hello := h\<rparr>; body' = drop need body
               in if cb_len h = 4 then
                    if cb_data h ! 0 \<noteq> 1 then Some (Inl (acc', PORTILLIA_BINDING_ERR_HELLO_MISMATCH, None))
                    else let message_len = be24 (cb_data h ! 1) (cb_data h ! 2) (cb_data h ! 3);
                             acc'' = acc'\<lparr>a_expected := 4 + message_len\<rparr>
                         in if message_len = 0 \<or> 4 + message_len > 131072
                            then Some (Inl (acc'', PORTILLIA_BINDING_ERR_HELLO_MISMATCH, None))
                            else ch_accum_message acc'' body'
                  else ch_accum_message acc' body'
      else ch_accum_message acc body)"

lemma ch_accum_message_pending: "ch_accum_message acc body = Some (Inr acc') \<Longrightarrow> a_pending acc' = a_pending acc"
  by (auto simp: ch_accum_message_def Let_def split: if_splits option.splits)

lemma ch_accum_record_pending: "ch_accum_record acc body = Some (Inr acc') \<Longrightarrow> a_pending acc' = a_pending acc"
  by (auto simp: ch_accum_record_def Let_def dest!: ch_accum_message_pending split: if_splits option.splits)

text \<open>\<open>body\<close> points into \<open>pending\<close> and is read after the \<open>memmove\<close>.\<close>

function ch_accum_loop :: "portillia_ch_accum \<Rightarrow> accum_result option" where
  "ch_accum_loop acc =
     (let p = a_pending acc in
      if cb_len p < 5 then
        if cb_len p > 16384 + 5 then Some (acc, PORTILLIA_BINDING_ERR_HELLO_MISMATCH, None)
        else Some (acc, PORTILLIA_BINDING_OK, None)
      else if cb_data p ! 0 \<noteq> 22 then Some (acc, PORTILLIA_BINDING_ERR_HELLO_MISMATCH, None)
      else let record_len = be16 (cb_data p ! 3) (cb_data p ! 4) in
      if record_len = 0 \<or> record_len > 16384 then Some (acc, PORTILLIA_BINDING_ERR_HELLO_MISMATCH, None)
      else if cb_len p < 5 + record_len then Some (acc, PORTILLIA_BINDING_OK, None)
      else let p' = buf_consume (5 + record_len) p;
               body = take record_len (drop 5 (cb_data p'))
           in case ch_accum_record (acc\<lparr>a_pending := p'\<rparr>) body of
                None \<Rightarrow> None
              | Some (Inl r) \<Rightarrow> Some r
              | Some (Inr acc') \<Rightarrow> ch_accum_loop acc')"
  by auto
termination
  by (relation "measure (\<lambda>acc. cb_len (a_pending acc))")
    (auto dest!: ch_accum_record_pending simp: buf_consume_def)

declare ch_accum_loop.simps [simp del]

definition portillia_ch_accum_add :: "portillia_ch_accum \<Rightarrow> byte list \<Rightarrow> accum_result option" where
  "portillia_ch_accum_add acc p =
     (case accum_append (a_pending acc) p of
        None \<Rightarrow> None
      | Some pending \<Rightarrow> ch_accum_loop (acc\<lparr>a_pending := pending\<rparr>))"

section \<open>The capture of the proxy\<close>

record hello_capture =
  cap_acc :: portillia_ch_accum
  cap_fixed :: bool
  cap_binding :: "byte list"

text \<open>The preview works on copies that are allocated with exactly the bytes in use, while \<open>cap\<close> is
  taken over unchanged. Freeing the pointer to a copy is defined as long as the preview has not
  reallocated it, that is, as long as its capacity is the one it started with.\<close>

definition clone_buf :: "cbuf \<Rightarrow> cbuf" where
  "clone_buf b = \<lparr>cb_data = take (cb_len b) (cb_data b), cb_size = cb_len b, cb_len = cb_len b, cb_cap = cb_cap b\<rparr>"

definition stale :: "cbuf \<Rightarrow> cbuf \<Rightarrow> bool" where
  "stale clone after \<longleftrightarrow> cb_size clone \<noteq> 0 \<and> cb_cap after \<noteq> cb_cap clone"

definition capture_on_write ::
  "(byte list \<Rightarrow> byte list) \<Rightarrow> portillia_binding_registry \<Rightarrow> hello_capture \<Rightarrow> byte list \<Rightarrow> timespec \<Rightarrow>
   (portillia_binding_registry \<times> hello_capture \<times> bool) option" where
  "capture_on_write sha256 reg cap buf now =
     (if cap_fixed cap then Some (reg, cap, True)
      else
        let pending = clone_buf (a_pending (cap_acc cap));
            hello = clone_buf (a_hello (cap_acc cap));
            preview = (cap_acc cap)\<lparr>a_pending := pending, a_hello := hello\<rparr>
        in case portillia_ch_accum_add preview buf of
             None \<Rightarrow> None
           | Some (preview', st, out) \<Rightarrow>
               if stale pending (a_pending preview') \<or> stale hello (a_hello preview') then None
               else if st \<noteq> PORTILLIA_BINDING_OK then Some (reg, cap, False)
               else case out of
                 None \<Rightarrow> Some (reg, cap, True)
               | Some client_hello \<Rightarrow>
                   let (reg', st') = portillia_bindings_fix_hello sha256 reg (cap_binding cap) client_hello now
                   in if st' \<noteq> PORTILLIA_BINDING_OK then Some (reg', cap, False)
                      else Some (reg', cap\<lparr>cap_fixed := True\<rparr>, True))"

definition capture_after_write ::
  "(byte list \<Rightarrow> byte list) \<Rightarrow> portillia_binding_registry \<Rightarrow> hello_capture \<Rightarrow> byte list \<Rightarrow> timespec \<Rightarrow>
   (portillia_binding_registry \<times> hello_capture) option" where
  "capture_after_write sha256 reg cap buf now =
     (if cap_fixed cap then Some (reg, cap)
      else case portillia_ch_accum_add (cap_acc cap) buf of
        None \<Rightarrow> None
      | Some (acc', st, out) \<Rightarrow>
          let cap' = cap\<lparr>cap_acc := acc'\<rparr>
          in case (st, out) of
               (PORTILLIA_BINDING_OK, Some client_hello) \<Rightarrow>
                 let (reg', st') = portillia_bindings_fix_hello sha256 reg (cap_binding cap) client_hello now
                 in Some (reg', if st' = PORTILLIA_BINDING_OK then cap'\<lparr>cap_fixed := True\<rparr> else cap')
             | _ \<Rightarrow> Some (reg, cap'))"

text \<open>The copy loop with an active capture: each chunk read is previewed, written and then fed to the
  real accumulator. \<open>writes_ok\<close> says whether writing a chunk succeeds; the result holds the bytes
  that were passed on.\<close>

fun copy_captured ::
  "(byte list \<Rightarrow> byte list) \<Rightarrow> (byte list \<Rightarrow> bool) \<Rightarrow> timespec \<Rightarrow> byte list list \<Rightarrow>
   portillia_binding_registry \<Rightarrow> hello_capture \<Rightarrow> (portillia_binding_registry \<times> hello_capture \<times> byte list) option"
  where
  "copy_captured sha256 writes_ok now [] reg cap = Some (reg, cap, [])"
| "copy_captured sha256 writes_ok now (chunk # chunks) reg cap =
     (case capture_on_write sha256 reg cap chunk now of
        None \<Rightarrow> None
      | Some (reg1, cap1, ok) \<Rightarrow>
          if \<not> ok \<or> \<not> writes_ok chunk then Some (reg1, cap1, [])
          else case capture_after_write sha256 reg1 cap1 chunk now of
            None \<Rightarrow> None
          | Some (reg2, cap2) \<Rightarrow>
              (case copy_captured sha256 writes_ok now chunks reg2 cap2 of
                 None \<Rightarrow> None
               | Some (reg3, cap3, out) \<Rightarrow> Some (reg3, cap3, chunk @ out)))"

section \<open>Memory safety of the accumulator\<close>

definition wf_buf :: "cbuf \<Rightarrow> bool" where
  "wf_buf b \<longleftrightarrow> cb_cap b = cb_size b \<and> cb_len b \<le> length (cb_data b) \<and> length (cb_data b) \<le> cb_size b"

definition buf_live :: "cbuf \<Rightarrow> byte list" where
  "buf_live b = take (cb_len b) (cb_data b)"

definition wf_accum :: "portillia_ch_accum \<Rightarrow> bool" where
  "wf_accum acc \<longleftrightarrow> wf_buf (a_pending acc) \<and> wf_buf (a_hello acc) \<and>
     (if a_expected acc = 0 then cb_len (a_hello acc) \<le> 4 else cb_len (a_hello acc) \<le> a_expected acc)"

lemma grow_cap_ge: "0 < cap \<Longrightarrow> cap \<le> grow_cap cap need \<and> need \<le> grow_cap cap need"
proof (induction cap need rule: grow_cap.induct)
  case (1 cap need)
  then show ?case by (subst (1 2) grow_cap.simps) auto
qed

lemma grow_cap_bounded: "0 < cap \<Longrightarrow> grow_cap cap need < max (Suc cap) (2 * need)"
proof (induction cap need rule: grow_cap.induct)
  case (1 cap need)
  then show ?case by (subst grow_cap.simps) auto
qed

lemma length_buf_live [simp]: "wf_buf b \<Longrightarrow> length (buf_live b) = cb_len b"
  by (simp add: wf_buf_def buf_live_def)

lemma accum_append_wf:
  assumes "wf_buf b"
  obtains b' where "accum_append b bs = Some b'" "wf_buf b'" "buf_live b' = buf_live b @ bs"
    "cb_len b' = cb_len b + length bs"
proof -
  let ?c = "grow_cap (if cb_cap b \<noteq> 0 then cb_cap b else 4096) (cb_len b + length bs)"
  have "cb_cap b \<le> ?c" "cb_len b + length bs \<le> ?c"
    using grow_cap_ge [of "if cb_cap b \<noteq> 0 then cb_cap b else 4096" "cb_len b + length bs"]
    by (auto split: if_splits)
  then have "\<exists>b'. accum_append b bs = Some b' \<and> wf_buf b' \<and> buf_live b' = buf_live b @ bs \<and>
      cb_len b' = cb_len b + length bs"
    using assms by (cases "cb_len b + length bs > cb_cap b")
      (auto simp: accum_append_def wf_buf_def buf_live_def Let_def)
  then show thesis using that by blast
qed

lemma wf_buf_consume: "wf_buf b \<Longrightarrow> k \<le> cb_len b \<Longrightarrow> wf_buf (buf_consume k b)"
  by (auto simp: wf_buf_def buf_consume_def)

lemma buf_live_consume: "wf_buf b \<Longrightarrow> k \<le> cb_len b \<Longrightarrow> buf_live (buf_consume k b) = drop k (buf_live b)"
  by (auto simp: wf_buf_def buf_consume_def buf_live_def)

definition safe_step :: "(accum_result + portillia_ch_accum) option \<Rightarrow> bool" where
  "safe_step r \<longleftrightarrow> (case r of None \<Rightarrow> False | Some (Inl (acc, _)) \<Rightarrow> wf_accum acc | Some (Inr acc) \<Rightarrow> wf_accum acc)"

lemma ch_accum_message_safe:
  assumes "wf_accum acc"
  shows "safe_step (ch_accum_message acc body)"
proof -
  have "wf_buf (a_hello acc)" using assms by (simp add: wf_accum_def)
  then obtain h where "accum_append (a_hello acc) (take (min (a_expected acc - cb_len (a_hello acc)) (length body)) body) = Some h"
    "wf_buf h" "cb_len h = cb_len (a_hello acc) + min (a_expected acc - cb_len (a_hello acc)) (length body)"
    by (rule accum_append_wf [where bs = "take (min (a_expected acc - cb_len (a_hello acc)) (length body)) body"])
      (simp add: min.commute)
  then show ?thesis
    using assms by (auto simp: ch_accum_message_def safe_step_def Let_def wf_accum_def)
qed

lemma ch_accum_record_safe:
  assumes wf: "wf_accum acc"
  shows "safe_step (ch_accum_record acc body)"
proof (cases "a_expected acc = 0 \<and> cb_len (a_hello acc) < 4")
  case True
  let ?need = "min (4 - cb_len (a_hello acc)) (length body)"
  have "wf_buf (a_hello acc)" using wf by (simp add: wf_accum_def)
  then obtain h where h: "accum_append (a_hello acc) (take ?need body) = Some h" "wf_buf h"
    "cb_len h = cb_len (a_hello acc) + ?need"
    by (rule accum_append_wf [where bs = "take ?need body"]) (simp add: min.commute)
  then have "wf_accum (acc\<lparr>a_hello := h\<rparr>)"
    using wf True by (auto simp: wf_accum_def)
  moreover have "cb_len h = 4 \<Longrightarrow> wf_accum (acc\<lparr>a_hello := h, a_expected := 4 + n\<rparr>)" for n
    using wf h by (simp add: wf_accum_def)
  ultimately show ?thesis
    using True h ch_accum_message_safe
    by (auto simp: ch_accum_record_def Let_def safe_step_def)
qed (use wf in \<open>auto simp: ch_accum_record_def intro: ch_accum_message_safe\<close>)

lemma ch_accum_loop_safe:
  "wf_accum acc \<Longrightarrow> \<exists>acc' st out. ch_accum_loop acc = Some (acc', st, out) \<and> wf_accum acc'"
proof (induction acc rule: ch_accum_loop.induct)
  case (1 acc)
  let ?p = "a_pending acc"
  let ?rl = "be16 (cb_data ?p ! 3) (cb_data ?p ! 4)"
  let ?p' = "buf_consume (5 + ?rl) ?p"
  let ?r = "ch_accum_record (acc\<lparr>a_pending := ?p'\<rparr>) (take ?rl (drop 5 (cb_data ?p')))"
  show ?case
  proof (cases "cb_len ?p < 5 \<or> cb_data ?p ! 0 \<noteq> 22 \<or> ?rl = 0 \<or> ?rl > 16384 \<or> cb_len ?p < 5 + ?rl")
    case True
    then show ?thesis
      using "1.prems" by (subst ch_accum_loop.simps) (auto simp: Let_def)
  next
    case False
    have "wf_accum (acc\<lparr>a_pending := ?p'\<rparr>)"
      using "1.prems" False by (auto simp: wf_accum_def intro: wf_buf_consume)
    then have safe: "safe_step ?r" by (rule ch_accum_record_safe)
    then show ?thesis
    proof (cases ?r)
      case (Some r)
      then show ?thesis
        using False safe "1.IH" [OF refl _ _ refl _ _ refl refl Some]
        by (subst ch_accum_loop.simps) (auto simp: Let_def safe_step_def split: sum.splits)
    qed (simp add: safe_step_def)
  qed
qed

lemma ch_accum_add_safe:
  assumes "wf_accum acc"
  shows "\<exists>acc' st out. portillia_ch_accum_add acc p = Some (acc', st, out) \<and> wf_accum acc'"
proof -
  have "wf_buf (a_pending acc)" using assms by (simp add: wf_accum_def)
  then obtain b where "accum_append (a_pending acc) p = Some b" "wf_buf b"
    by (rule accum_append_wf)
  then show ?thesis
    using assms ch_accum_loop_safe [of "acc\<lparr>a_pending := b\<rparr>"]
    by (simp add: portillia_ch_accum_add_def wf_accum_def)
qed

section \<open>Assembling a ClientHello\<close>

text \<open>A ClientHello handshake message, and the state of an accumulator that has seen the handshake
  bytes \<open>q\<close> of it and holds the bytes \<open>pend\<close> of an unfinished record.\<close>

definition wf_hello :: "byte list \<Rightarrow> bool" where
  "wf_hello hello \<longleftrightarrow> 4 < length hello \<and> length hello \<le> 131072 \<and> hello ! 0 = 1 \<and>
     be24 (hello ! 1) (hello ! 2) (hello ! 3) + 4 = length hello"

definition agrees :: "byte list \<Rightarrow> byte list \<Rightarrow> bool" where
  "agrees hello s \<longleftrightarrow> take (length hello) s = take (length s) hello"

definition accum_at :: "byte list \<Rightarrow> byte list \<Rightarrow> byte list \<Rightarrow> portillia_ch_accum \<Rightarrow> bool" where
  "accum_at hello q pend acc \<longleftrightarrow> wf_accum acc \<and> buf_live (a_pending acc) = pend \<and>
     buf_live (a_hello acc) = q \<and> a_expected acc = (if length q < 4 then 0 else length hello) \<and>
     length q < length hello"

definition record_outcome ::
  "byte list \<Rightarrow> byte list \<Rightarrow> byte list \<Rightarrow> (accum_result + portillia_ch_accum) option \<Rightarrow> bool" where
  "record_outcome hello s pend r \<longleftrightarrow>
     (if length s < length hello then \<exists>acc'. r = Some (Inr acc') \<and> accum_at hello s pend acc'
      else \<exists>acc'. r = Some (Inl (acc', PORTILLIA_BINDING_OK, Some hello)))"

lemma accum_at_init: "hello \<noteq> [] \<Longrightarrow> accum_at hello [] [] portillia_ch_accum_init"
  by (simp add: accum_at_def portillia_ch_accum_init_def wf_accum_def wf_buf_def null_buf_def buf_live_def)

lemma agrees_take:
  assumes "agrees hello s" "n \<le> length s" "n \<le> length hello"
  shows "take n s = take n hello"
proof -
  have "take n (take (length hello) s) = take n (take (length s) hello)"
    using assms(1) by (simp add: agrees_def)
  then show ?thesis using assms(2,3) by (simp only: take_take min.absorb1)
qed

lemma agrees_prefix: "agrees hello (s @ t) \<Longrightarrow> agrees hello s"
  unfolding agrees_def
  by (drule arg_cong [where f = "take (length s)"]) (auto simp: min_def split: if_splits)

lemma ch_accum_message_outcome:
  assumes at: "accum_at hello q pend acc" and q: "4 \<le> length q" and ag: "agrees hello (q @ body)"
  shows "record_outcome hello (q @ body) pend (ch_accum_message acc body)"
proof (cases "body = []")
  case True
  then show ?thesis using at by (auto simp: ch_accum_message_def record_outcome_def accum_at_def)
next
  case False
  let ?need = "min (length hello - length q) (length body)"
  have wfh: "wf_buf (a_hello acc)" and len: "cb_len (a_hello acc) = length q" "length q < length hello"
    using at by (auto simp: accum_at_def wf_accum_def)
  obtain h where h: "accum_append (a_hello acc) (take ?need body) = Some h" "wf_buf h"
    "buf_live h = q @ take ?need body" "cb_len h = length q + ?need"
    using accum_append_wf [OF wfh, of "take ?need body"] at len by (auto simp: accum_at_def)
  have msg: "ch_accum_message acc body =
      (if cb_len h = length hello then Some (Inl (acc\<lparr>a_hello := h\<rparr>, PORTILLIA_BINDING_OK, Some (buf_live h)))
       else Some (Inr (acc\<lparr>a_hello := h\<rparr>)))"
    using at h False q len by (auto simp: ch_accum_message_def accum_at_def Let_def buf_live_def)
  show ?thesis
  proof (cases "length (q @ body) < length hello")
    case True
    then have "accum_at hello (q @ body) pend (acc\<lparr>a_hello := h\<rparr>)"
      using at h q by (auto simp: accum_at_def wf_accum_def)
    then show ?thesis using True h by (auto simp: msg record_outcome_def)
  next
    case longer: False
    then have "cb_len h = length hello" "buf_live h = hello"
      using h len ag by (auto simp: agrees_def)
    then show ?thesis using longer by (simp add: msg record_outcome_def)
  qed
qed

lemma ch_accum_record_outcome:
  assumes at: "accum_at hello q pend acc" and wf: "wf_hello hello" and ag: "agrees hello (q @ body)"
  shows "record_outcome hello (q @ body) pend (ch_accum_record acc body)"
proof (cases "length q < 4")
  case False
  then show ?thesis
    using ch_accum_message_outcome [OF at _ ag] at wf
    by (auto simp: ch_accum_record_def accum_at_def wf_hello_def)
next
  case True
  let ?need = "min (4 - length q) (length body)"
  have wfh: "wf_buf (a_hello acc)" and len: "cb_len (a_hello acc) = length q" "a_expected acc = 0"
    using at True by (auto simp: accum_at_def wf_accum_def)
  obtain h where h: "accum_append (a_hello acc) (take ?need body) = Some h" "wf_buf h"
    "buf_live h = q @ take ?need body" "cb_len h = length q + ?need"
    using accum_append_wf [OF wfh, of "take ?need body"] at len by (auto simp: accum_at_def)
  show ?thesis
  proof (cases "length (q @ body) < 4")
    case short: True
    then have "accum_at hello (q @ body) pend (acc\<lparr>a_hello := h\<rparr>)"
      using at h True wf by (auto simp: accum_at_def wf_accum_def wf_hello_def)
    moreover have "ch_accum_record acc body = Some (Inr (acc\<lparr>a_hello := h\<rparr>))"
      using short h len True by (simp add: ch_accum_record_def ch_accum_message_def)
    ultimately show ?thesis
      using short wf by (auto simp: record_outcome_def wf_hello_def)
  next
    case False
    then have four: "cb_len h = 4" using h True by simp
    have "buf_live h = take 4 (q @ body)" using h(3) True False by simp
    also have "\<dots> = take 4 hello"
      using agrees_take [OF ag, of 4] wf False by (simp add: wf_hello_def)
    finally have live: "buf_live h = take 4 hello" .
    then have nth: "cb_data h ! i = hello ! i" if "i < 4" for i
      using that four by (metis buf_live_def nth_take)
    let ?acc = "acc\<lparr>a_hello := h, a_expected := length hello\<rparr>"
    have "accum_at hello (take 4 hello) pend ?acc"
      using at h(2) live four wf by (auto simp: accum_at_def wf_accum_def wf_hello_def)
    moreover have split: "take 4 hello @ drop ?need body = q @ body"
      using live h(3) by (metis append.assoc append_take_drop_id)
    ultimately have "record_outcome hello (q @ body) pend (ch_accum_message ?acc (drop ?need body))"
      using ch_accum_message_outcome [of hello "take 4 hello" pend ?acc "drop ?need body"] ag wf
      by (simp add: wf_hello_def)
    moreover have "be24 (cb_data h ! 1) (cb_data h ! 2) (cb_data h ! 3) + 4 = length hello" "cb_data h ! 0 = 1"
      using wf by (simp_all add: nth wf_hello_def)
    ultimately show ?thesis
      using h four len True wf by (simp add: ch_accum_record_def Let_def wf_hello_def add.commute)
  qed
qed

text \<open>A TLS handshake record with its payload.\<close>

definition is_record :: "byte list \<Rightarrow> byte list \<Rightarrow> bool" where
  "is_record r payload \<longleftrightarrow> 5 \<le> length r \<and> r ! 0 = 22 \<and> be16 (r ! 3) (r ! 4) = length payload \<and>
     drop 5 r = payload \<and> 0 < length payload \<and> length payload \<le> 16384"

lemma is_record_length: "is_record r payload \<Longrightarrow> length r = 5 + length payload"
  by (auto simp: is_record_def)

lemma accum_add_pending:
  assumes "accum_at hello q pend acc"
  obtains b where "portillia_ch_accum_add acc c = ch_accum_loop (acc\<lparr>a_pending := b\<rparr>)"
    "accum_at hello q (pend @ c) (acc\<lparr>a_pending := b\<rparr>)" "wf_buf b" "buf_live b = pend @ c"
    "cb_len b = length pend + length c" "\<And>i. i < length pend + length c \<Longrightarrow> cb_data b ! i = (pend @ c) ! i"
proof -
  have wf: "wf_buf (a_pending acc)" and live: "buf_live (a_pending acc) = pend"
    using assms by (auto simp: accum_at_def wf_accum_def)
  obtain b where b: "accum_append (a_pending acc) c = Some b" "wf_buf b" "buf_live b = pend @ c"
    by (rule accum_append_wf [OF wf, of c]) (use live in auto)
  have len: "cb_len b = length pend + length c"
    using b(2,3) by (metis length_append length_buf_live)
  have "cb_data b ! i = (pend @ c) ! i" if "i < length pend + length c" for i
    using that b(3) len by (metis buf_live_def nth_take)
  then show thesis
    using assms b len by (intro that [of b]) (auto simp: portillia_ch_accum_add_def accum_at_def wf_accum_def)
qed

lemma accum_add_partial:
  assumes at: "accum_at hello q pend acc" and rc: "is_record (pend @ c @ rest) payload" and "rest \<noteq> []"
  shows "\<exists>acc'. portillia_ch_accum_add acc c = Some (acc', PORTILLIA_BINDING_OK, None) \<and>
    accum_at hello q (pend @ c) acc'"
proof -
  obtain b where b: "portillia_ch_accum_add acc c = ch_accum_loop (acc\<lparr>a_pending := b\<rparr>)"
    "accum_at hello q (pend @ c) (acc\<lparr>a_pending := b\<rparr>)" "cb_len b = length pend + length c"
    "\<And>i. i < length pend + length c \<Longrightarrow> cb_data b ! i = (pend @ c) ! i"
    using accum_add_pending [OF at, of c] by metis
  have len: "length pend + length c < 5 + length payload"
    using is_record_length [OF rc] \<open>rest \<noteq> []\<close> by (cases rest) auto
  have nth: "(pend @ c) ! i = (pend @ c @ rest) ! i" if "i < length pend + length c" for i
    using that by (metis append.assoc length_append nth_append)
  have "ch_accum_loop (acc\<lparr>a_pending := b\<rparr>) = Some (acc\<lparr>a_pending := b\<rparr>, PORTILLIA_BINDING_OK, None)"
  proof (cases "length pend + length c < 5")
    case False
    then have "cb_data b ! i = (pend @ c @ rest) ! i" if "i < 5" for i
      using that b(4) [of i] nth [of i] by simp
    then have "cb_data b ! 0 = 22" "be16 (cb_data b ! 3) (cb_data b ! 4) = length payload"
      using rc by (simp_all add: is_record_def)
    then show ?thesis
      using rc len b(3) by (subst ch_accum_loop.simps) (simp add: Let_def is_record_def)
  qed (subst ch_accum_loop.simps, simp add: Let_def b(3))
  with b(1,2) show ?thesis by simp
qed

lemma accum_add_record:
  assumes at: "accum_at hello q pend acc" and wf: "wf_hello hello"
    and rc: "is_record (pend @ c) payload" and ag: "agrees hello (q @ payload)"
  shows "if length (q @ payload) < length hello
    then \<exists>acc'. portillia_ch_accum_add acc c = Some (acc', PORTILLIA_BINDING_OK, None) \<and>
      accum_at hello (q @ payload) [] acc'
    else \<exists>acc'. portillia_ch_accum_add acc c = Some (acc', PORTILLIA_BINDING_OK, Some hello)"
proof -
  obtain b where b: "portillia_ch_accum_add acc c = ch_accum_loop (acc\<lparr>a_pending := b\<rparr>)"
    "accum_at hello q (pend @ c) (acc\<lparr>a_pending := b\<rparr>)" "wf_buf b" "buf_live b = pend @ c"
    "cb_len b = length pend + length c" "\<And>i. i < length pend + length c \<Longrightarrow> cb_data b ! i = (pend @ c) ! i"
    by (rule accum_add_pending [OF at, of c]) blast
  let ?n = "5 + length payload" and ?acc = "acc\<lparr>a_pending := b\<rparr>"
  let ?b = "buf_consume ?n b"
  have len: "length pend + length c = ?n" using is_record_length [OF rc] by simp
  have "cb_data ?b = cb_data b" using b(5) len by (simp add: buf_consume_def)
  moreover have "take (length payload) (drop 5 (cb_data b)) = drop 5 (buf_live b)"
    using b(5) len by (simp add: buf_live_def drop_take)
  ultimately have body: "take (length payload) (drop 5 (cb_data ?b)) = payload"
    using b(4) rc by (simp add: is_record_def)
  have "accum_at hello q [] (?acc\<lparr>a_pending := ?b\<rparr>)"
    using b(2,3,5) len wf_buf_consume [OF b(3), of ?n] buf_live_consume [OF b(3), of ?n]
    by (auto simp: accum_at_def wf_accum_def)
  then have out: "record_outcome hello (q @ payload) [] (ch_accum_record (?acc\<lparr>a_pending := ?b\<rparr>) payload)"
    by (rule ch_accum_record_outcome [OF _ wf ag])
  have loop: "ch_accum_loop ?acc =
      (case ch_accum_record (?acc\<lparr>a_pending := ?b\<rparr>) payload of None \<Rightarrow> None
       | Some (Inl r) \<Rightarrow> Some r | Some (Inr acc') \<Rightarrow> ch_accum_loop acc')"
    using rc len by (subst ch_accum_loop.simps) (simp add: Let_def b(5,6) body is_record_def)
  have fin: "ch_accum_loop acc' = Some (acc', PORTILLIA_BINDING_OK, None)" if "accum_at hello s [] acc'" for s acc'
  proof -
    have "cb_len (a_pending acc') = 0"
      using that by (metis accum_at_def length_buf_live list.size(3) wf_accum_def)
    then show ?thesis by (subst ch_accum_loop.simps) (simp add: Let_def)
  qed
  show ?thesis
    using out fin unfolding b(1) loop record_outcome_def by (auto split: if_splits)
qed

text \<open>Feeding a sequence of reads, as the copy loop does, up to the first complete message or error.\<close>

fun accum_feed :: "portillia_ch_accum \<Rightarrow> byte list list \<Rightarrow> accum_result option" where
  "accum_feed acc [] = Some (acc, PORTILLIA_BINDING_OK, None)"
| "accum_feed acc (c # cs) =
     (case portillia_ch_accum_add acc c of
        None \<Rightarrow> None
      | Some (acc', st, out) \<Rightarrow>
          if st \<noteq> PORTILLIA_BINDING_OK \<or> out \<noteq> None then Some (acc', st, out) else accum_feed acc' cs)"

lemma accum_feed_record:
  assumes "accum_at hello q pend acc" "wf_hello hello" "is_record (pend @ concat cs) payload"
    "agrees hello (q @ payload)" "\<forall>c \<in> set cs. c \<noteq> []" "cs \<noteq> []"
  shows "if length (q @ payload) < length hello
    then \<exists>acc'. accum_at hello (q @ payload) [] acc' \<and>
      (\<forall>ds. accum_feed acc (cs @ ds) = accum_feed acc' ds)
    else \<exists>acc'. \<forall>ds. accum_feed acc (cs @ ds) = Some (acc', PORTILLIA_BINDING_OK, Some hello)"
  using assms
proof (induction cs arbitrary: pend acc)
  case (Cons c cs)
  show ?case
  proof (cases "cs = []")
    case True
    then show ?thesis
      using accum_add_record [OF Cons.prems(1,2) _ Cons.prems(4), of c] Cons.prems(3)
      by (auto split: if_splits)
  next
    case False
    then have "concat cs \<noteq> []" using Cons.prems(5) by (cases cs) auto
    then obtain acc' where acc': "portillia_ch_accum_add acc c = Some (acc', PORTILLIA_BINDING_OK, None)"
      "accum_at hello q (pend @ c) acc'"
      using accum_add_partial [OF Cons.prems(1), of c "concat cs"] Cons.prems(3) by auto
    then have "accum_feed acc ((c # cs) @ ds) = accum_feed acc' (cs @ ds)" for ds by simp
    then show ?thesis
      using Cons.IH [OF acc'(2) Cons.prems(2) _ Cons.prems(4) _ False] Cons.prems(3,5) by simp
  qed
qed simp

lemma accum_feed_assembles:
  assumes "accum_at hello q [] acc" "wf_hello hello"
    and "list_all2 (\<lambda>cs payload. is_record (concat cs) payload \<and> (\<forall>c \<in> set cs. c \<noteq> [])) reads payloads"
    and "agrees hello (q @ concat payloads)" "length hello \<le> length (q @ concat payloads)"
  shows "\<exists>acc'. accum_feed acc (concat reads) = Some (acc', PORTILLIA_BINDING_OK, Some hello)"
  using assms(3,1,4,5)
proof (induction reads payloads arbitrary: q acc rule: list_all2_induct)
  case Nil
  then show ?case by (auto simp: accum_at_def)
next
  case (Cons cs reads payload payloads)
  have rc: "is_record ([] @ concat cs) payload" and ne: "\<forall>c \<in> set cs. c \<noteq> []" "cs \<noteq> []"
    using Cons.hyps by (auto simp: is_record_def)
  have ag: "agrees hello (q @ payload)"
    using Cons.prems(2) agrees_prefix [of hello "q @ payload"] by simp
  show ?case
    using accum_feed_record [OF Cons.prems(1) assms(2) rc ag ne] Cons.IH [of "q @ payload"] Cons.prems(2,3)
    by (auto split: if_splits)
qed

lemma accum_feed_safe: "wf_accum acc \<Longrightarrow> \<exists>acc' st out. accum_feed acc cs = Some (acc', st, out) \<and> wf_accum acc'"
proof (induction cs arbitrary: acc)
  case (Cons c cs)
  then show ?case using ch_accum_add_safe [OF Cons.prems, of c] by auto
qed simp

lemma wf_accum_init [simp]: "wf_accum portillia_ch_accum_init"
  by (simp add: portillia_ch_accum_init_def wf_accum_def wf_buf_def null_buf_def)

text \<open>Feeding a fresh accumulator any sequence of reads never writes outside its buffers: every
  call returns with a status and the buffers stay consistent, whatever the bytes are.\<close>

theorem accumulator_memory_safe:
  "\<exists>acc st out. accum_feed portillia_ch_accum_init cs = Some (acc, st, out) \<and> wf_accum acc"
  by (rule accum_feed_safe) simp

text \<open>The accumulator reassembles the ClientHello: when a ClientHello is spread over any number of
  handshake records and every record arrives in any number of reads of its own, the call that
  completes the message returns exactly its bytes, and no earlier call fails.\<close>

theorem accumulator_assembles_hello:
  assumes "wf_hello hello"
    and "list_all2 (\<lambda>cs payload. is_record (concat cs) payload \<and> list_all (\<lambda>c. c \<noteq> []) cs) reads payloads"
    and "take (length hello) (concat payloads) = hello"
  shows "\<exists>acc. accum_feed portillia_ch_accum_init (concat reads) = Some (acc, PORTILLIA_BINDING_OK, Some hello)"
proof -
  have len: "length hello \<le> length (concat payloads)"
    using assms(3) by (metis length_take min.cobounded1)
  then have "agrees hello ([] @ concat payloads)" "hello \<noteq> []"
    using assms(1,3) by (auto simp: agrees_def wf_hello_def)
  then show ?thesis
    using accum_feed_assembles [OF accum_at_init assms(1), of reads payloads] assms(2) len
    by (simp add: list_all_iff)
qed

definition capture_sample_hello :: "byte list" where
  "capture_sample_hello = [1, 0, 0, 6, 3, 3, 10, 20, 30, 40]"

theorem accumulator_assembles_hello_witness:
  "\<exists>acc. accum_feed portillia_ch_accum_init
     [[22, 3], [1, 0, 3, 1, 0, 0], [22, 3, 1, 0, 9, 6, 3], [3, 10, 20, 30, 40, 99, 98]] =
   Some (acc, PORTILLIA_BINDING_OK, Some capture_sample_hello)"
  using accumulator_assembles_hello [of capture_sample_hello
      "[[[22, 3], [1, 0, 3, 1, 0, 0]], [[22, 3, 1, 0, 9, 6, 3], [3, 10, 20, 30, 40, 99, 98]]]"
      "[[1, 0, 0], [6, 3, 3, 10, 20, 30, 40, 99, 98]]"]
  by (simp add: capture_sample_hello_def wf_hello_def is_record_def be_simps)

text \<open>A read that carries more than five bytes beyond the record is not handled: the body of the
  record is read from the buffer after the \<open>memmove\<close> has put the following bytes there. A ClientHello
  record that is accepted on its own is rejected when it arrives together with, say, early data.\<close>

theorem trailing_bytes_reject_hello:
  assumes hello: "wf_hello hello" "is_record r hello" and tail: "5 < length tail" "tail ! 5 \<noteq> 1"
  shows "(\<exists>acc. portillia_ch_accum_add portillia_ch_accum_init r = Some (acc, PORTILLIA_BINDING_OK, Some hello)) \<and>
    (\<exists>acc. portillia_ch_accum_add portillia_ch_accum_init (r @ tail) =
       Some (acc, PORTILLIA_BINDING_ERR_HELLO_MISMATCH, None))"
proof
  have ne: "hello \<noteq> []" and four: "4 < length hello" using hello by (auto simp: wf_hello_def)
  note at = accum_at_init [OF ne]
  show "\<exists>acc. portillia_ch_accum_add portillia_ch_accum_init r = Some (acc, PORTILLIA_BINDING_OK, Some hello)"
    using accum_add_record [OF at hello(1), of r hello] hello(2) by (simp add: agrees_def)
  let ?n = "5 + length hello"
  have lr: "length r = ?n" by (rule is_record_length [OF hello(2)])
  obtain b where b: "portillia_ch_accum_add portillia_ch_accum_init (r @ tail) =
      ch_accum_loop (portillia_ch_accum_init\<lparr>a_pending := b\<rparr>)"
    "wf_buf b" "buf_live b = r @ tail" "cb_len b = ?n + length tail"
    "\<And>i. i < ?n + length tail \<Longrightarrow> cb_data b ! i = (r @ tail) ! i"
    using accum_add_pending [OF at, of "r @ tail"] lr by (metis append_Nil length_append add_0 list.size(3))
  let ?acc = "portillia_ch_accum_init\<lparr>a_pending := buf_consume ?n b\<rparr>"
  define body where "body = take (length hello) (drop 5 (cb_data (buf_consume ?n b)))"
  have data: "cb_data (buf_consume ?n b) = tail @ drop (length tail) (cb_data b)"
    using b(3,4) lr by (simp add: buf_consume_def buf_live_def)
  have "length (r @ tail) \<le> length (cb_data b)"
    using b(2,4) lr by (simp add: wf_buf_def)
  then have body: "4 \<le> length body" "body ! 0 = tail ! 5"
    using four ne tail(1) lr by (simp_all add: body_def data nth_append)
  obtain h where h: "accum_append null_buf (take 4 body) = Some h" "buf_live h = take 4 body" "cb_len h = 4"
    using accum_append_wf [of null_buf "take 4 body"] body(1)
    by (auto simp: wf_buf_def null_buf_def buf_live_def)
  have "cb_data h ! 0 = tail ! 5"
    using h(2,3) body by (metis buf_live_def nth_take zero_less_numeral)
  then have "ch_accum_record ?acc body =
      Some (Inl (?acc\<lparr>a_hello := h\<rparr>, PORTILLIA_BINDING_ERR_HELLO_MISMATCH, None))"
    using h tail(2) body(1)
    by (simp add: ch_accum_record_def portillia_ch_accum_init_def null_buf_def Let_def min_def)
  moreover have "cb_data b ! 0 = 22" "be16 (cb_data b ! 3) (cb_data b ! 4) = length hello"
    using hello(2) lr by (simp_all add: b(5) nth_append is_record_def)
  ultimately show "\<exists>acc. portillia_ch_accum_add portillia_ch_accum_init (r @ tail) =
      Some (acc, PORTILLIA_BINDING_ERR_HELLO_MISMATCH, None)"
    using hello(2) b(4) unfolding b(1)
    by (subst ch_accum_loop.simps) (auto simp: Let_def is_record_def body_def)
qed

theorem trailing_bytes_reject_hello_witness:
  "(\<exists>acc. portillia_ch_accum_add portillia_ch_accum_init ([22, 3, 1, 0, 10] @ capture_sample_hello) =
      Some (acc, PORTILLIA_BINDING_OK, Some capture_sample_hello)) \<and>
   (\<exists>acc. portillia_ch_accum_add portillia_ch_accum_init
      (([22, 3, 1, 0, 10] @ capture_sample_hello) @ [23, 3, 3, 0, 2, 7, 7]) =
      Some (acc, PORTILLIA_BINDING_ERR_HELLO_MISMATCH, None))"
  using trailing_bytes_reject_hello [of capture_sample_hello "[22, 3, 1, 0, 10] @ capture_sample_hello" "[23, 3, 3, 0, 2, 7, 7]"]
  by (simp add: capture_sample_hello_def wf_hello_def is_record_def be_simps)

section \<open>What the capture does\<close>

definition fresh_capture :: "byte list \<Rightarrow> hello_capture" where
  "fresh_capture binding = \<lparr>cap_acc = portillia_ch_accum_init, cap_fixed = False, cap_binding = binding\<rparr>"

lemma clone_null [simp]: "clone_buf null_buf = null_buf"
  by (simp add: clone_buf_def null_buf_def)

lemma not_stale_null [simp]: "\<not> stale null_buf b"
  by (simp add: stale_def null_buf_def)

lemma preview_fresh [simp]:
  "cap_acc (fresh_capture b)\<lparr>a_pending := clone_buf (a_pending (cap_acc (fresh_capture b))),
     a_hello := clone_buf (a_hello (cap_acc (fresh_capture b)))\<rparr> = portillia_ch_accum_init"
  by (simp add: fresh_capture_def portillia_ch_accum_init_def)

lemma fresh_capture_sel [simp]:
  "cap_acc (fresh_capture b) = portillia_ch_accum_init" "\<not> cap_fixed (fresh_capture b)"
  "cap_binding (fresh_capture b) = b"
  by (simp_all add: fresh_capture_def)

lemma init_sel [simp]:
  "a_pending portillia_ch_accum_init = null_buf" "a_hello portillia_ch_accum_init = null_buf"
  by (simp_all add: portillia_ch_accum_init_def)

lemma init_update [simp]:
  "portillia_ch_accum_init\<lparr>a_pending := null_buf, a_hello := null_buf\<rparr> = portillia_ch_accum_init"
  by (simp add: portillia_ch_accum_init_def)

lemma copy_captured_fixed:
  "cap_fixed cap \<Longrightarrow> list_all writes_ok cs \<Longrightarrow> copy_captured sha256 writes_ok now cs reg cap = Some (reg, cap, concat cs)"
  by (induction cs) (auto simp: capture_on_write_def capture_after_write_def)

text \<open>A ClientHello that arrives in one read is pinned: the bytes are passed on unchanged, the
  binding of the connection is fixed to the SHA-256 of exactly that ClientHello, and all later traffic
  flows through.\<close>

theorem capture_pins_hello:
  assumes "wf_hello hello" "is_record r hello" "list_all writes_ok (r # cs)"
    and "binding_lookup reg b = Some e" "timespec_before now (b_expires_at e)" "binding_hash_is_zero (b_hello_hash e)"
  shows "copy_captured sha256 writes_ok now (r # cs) reg (fresh_capture b) =
    Some (binding_pin b (sha256 hello) reg, (fresh_capture b)\<lparr>cap_fixed := True\<rparr>, concat (r # cs))"
proof -
  have ne: "hello \<noteq> []" using assms(1) by (auto simp: wf_hello_def)
  obtain acc where "portillia_ch_accum_add portillia_ch_accum_init r = Some (acc, PORTILLIA_BINDING_OK, Some hello)"
    using accum_add_record [OF accum_at_init [OF ne] assms(1), of r hello] assms(2) by (auto simp: agrees_def)
  moreover have "portillia_bindings_fix_hello sha256 reg b hello now =
      (binding_pin b (sha256 hello) reg, PORTILLIA_BINDING_OK)"
    using assms(4-6) ne by (simp add: portillia_bindings_fix_hello_def)
  ultimately have "capture_on_write sha256 reg (fresh_capture b) r now =
      Some (binding_pin b (sha256 hello) reg, (fresh_capture b)\<lparr>cap_fixed := True\<rparr>, True)"
    by (simp add: capture_on_write_def Let_def)
  then show ?thesis
    using assms(3) by (simp add: capture_after_write_def copy_captured_fixed)
qed

theorem capture_pins_hello_witness:
  "copy_captured sample_hash (\<lambda>_. True) (101, 0) [[22, 3, 1, 0, 10] @ capture_sample_hello, [23, 3, 3, 0, 1, 5]]
     (binding_run sample_hash [Issue (Some ''lease-a'') [] (replicate 16 7) (100, 0)] (portillia_bindings_new 300))
     (fresh_capture (replicate 16 7)) =
   Some (binding_pin (replicate 16 7) (sample_hash capture_sample_hello)
      (binding_run sample_hash [Issue (Some ''lease-a'') [] (replicate 16 7) (100, 0)] (portillia_bindings_new 300)),
     (fresh_capture (replicate 16 7))\<lparr>cap_fixed := True\<rparr>,
     concat [[22, 3, 1, 0, 10] @ capture_sample_hello, [23, 3, 3, 0, 1, 5]])"
proof (rule capture_pins_hello)
  show "wf_hello capture_sample_hello" "is_record ([22, 3, 1, 0, 10] @ capture_sample_hello) capture_sample_hello"
    by (simp_all add: capture_sample_hello_def wf_hello_def is_record_def be_simps)
  show "binding_lookup (binding_run sample_hash [Issue (Some ''lease-a'') [] (replicate 16 7) (100, 0)]
      (portillia_bindings_new 300)) (replicate 16 7) =
    Some \<lparr>b_binding = replicate 16 7, b_lease_id = ''lease-a'', b_expires_at = (400, 0), b_hello_hash = replicate 32 0\<rparr>"
    by (simp add: portillia_bindings_issue_def Let_def registry.lookup_link) (simp add: portillia_bindings_new_def)
qed (simp_all add: timespec_before_def binding_hash_is_zero_def)

lemma ch_accum_message_pending_Inl:
  "ch_accum_message acc body = Some (Inl (acc', r)) \<Longrightarrow> a_pending acc' = a_pending acc"
  by (auto simp: ch_accum_message_def Let_def split: if_splits option.splits)

lemma ch_accum_record_pending_Inl:
  "ch_accum_record acc body = Some (Inl (acc', r)) \<Longrightarrow> a_pending acc' = a_pending acc"
  by (auto simp: ch_accum_record_def Let_def dest!: ch_accum_message_pending_Inl split: if_splits option.splits)

lemma ch_accum_loop_cap:
  "ch_accum_loop acc = Some (acc', r) \<Longrightarrow> cb_cap (a_pending acc') = cb_cap (a_pending acc)"
proof (induction acc rule: ch_accum_loop.induct)
  case (1 acc)
  let ?p = "a_pending acc"
  let ?rl = "be16 (cb_data ?p ! 3) (cb_data ?p ! 4)"
  let ?p' = "buf_consume (5 + ?rl) ?p"
  let ?r = "ch_accum_record (acc\<lparr>a_pending := ?p'\<rparr>) (take ?rl (drop 5 (cb_data ?p')))"
  show ?case
  proof (cases "cb_len ?p < 5 \<or> cb_data ?p ! 0 \<noteq> 22 \<or> ?rl = 0 \<or> ?rl > 16384 \<or> cb_len ?p < 5 + ?rl")
    case True
    then show ?thesis
      using "1.prems" by (subst (asm) ch_accum_loop.simps) (auto simp: Let_def split: if_splits)
  next
    case False
    then have loop: "ch_accum_loop acc = (case ?r of None \<Rightarrow> None | Some (Inl r) \<Rightarrow> Some r
        | Some (Inr acc') \<Rightarrow> ch_accum_loop acc')"
      by (subst ch_accum_loop.simps) (auto simp: Let_def)
    show ?thesis
    proof (cases ?r)
      case (Some x)
      show ?thesis
      proof (cases x)
        case (Inl y)
        then show ?thesis
          using "1.prems" Some ch_accum_record_pending_Inl [of "acc\<lparr>a_pending := ?p'\<rparr>" _ acc' r]
          by (simp add: loop buf_consume_def)
      next
        case (Inr acc1)
        then show ?thesis
          using "1.prems" Some "1.IH" [OF refl _ _ refl _ _ refl refl Some Inr] False
            ch_accum_record_pending [of "acc\<lparr>a_pending := ?p'\<rparr>" _ acc1]
          by (simp add: loop buf_consume_def)
      qed
    qed (use "1.prems" in \<open>simp add: loop\<close>)
  qed
qed

lemma capture_on_write_undefined:
  assumes "\<not> cap_fixed cap" "wf_accum (cap_acc cap)" "0 < cb_len (a_pending (cap_acc cap))" "buf \<noteq> []"
  shows "capture_on_write sha256 reg cap buf now = None"
proof -
  define p where "p = a_pending (cap_acc cap)"
  have wf: "cb_len p \<le> cb_cap p" "0 < cb_len p" using assms(2,3) by (auto simp: p_def wf_accum_def wf_buf_def)
  let ?pre = "(cap_acc cap)\<lparr>a_pending := clone_buf p, a_hello := clone_buf (a_hello (cap_acc cap))\<rparr>"
  have "portillia_ch_accum_add ?pre buf = None \<or>
    (\<exists>acc r. portillia_ch_accum_add ?pre buf = Some (acc, r) \<and> stale (clone_buf p) (a_pending acc))"
  proof (cases "cb_len p + length buf \<le> cb_cap p")
    case True
    then have "accum_append (clone_buf p) buf = None"
      using assms(4) by (simp add: accum_append_def clone_buf_def Let_def)
    then show ?thesis by (simp add: portillia_ch_accum_add_def)
  next
    case False
    then obtain b where b: "accum_append (clone_buf p) buf = Some b" "cb_cap p < cb_cap b"
      using wf grow_cap_ge [of "cb_cap p" "cb_len p + length buf"]
      by (auto simp: accum_append_def clone_buf_def Let_def)
    then show ?thesis
      using wf ch_accum_loop_cap [of "?pre\<lparr>a_pending := b\<rparr>"]
      by (cases "ch_accum_loop (?pre\<lparr>a_pending := b\<rparr>)")
        (auto simp: portillia_ch_accum_add_def stale_def clone_buf_def)
  qed
  then show ?thesis
    using assms(1) by (auto simp: capture_on_write_def Let_def p_def)
qed

text \<open>A ClientHello that needs a second read is not handled: once the first read has left part of
  a record in the accumulator, the preview of any second read writes behind the end of the copied
  buffer or frees a copy it has reallocated.\<close>

theorem capture_second_read_undefined:
  assumes "is_record (c1 @ rest) payload" "c1 \<noteq> []" "rest \<noteq> []" "writes_ok c1" "c2 \<noteq> []"
  shows "copy_captured sha256 writes_ok now (c1 # c2 # cs) reg (fresh_capture b) = None"
proof -
  have at: "accum_at payload [] [] portillia_ch_accum_init"
    using assms(1) by (intro accum_at_init) (auto simp: is_record_def)
  obtain acc where acc: "portillia_ch_accum_add portillia_ch_accum_init c1 = Some (acc, PORTILLIA_BINDING_OK, None)"
    "accum_at payload [] c1 acc"
    using accum_add_partial [OF at, of c1 rest payload] assms(1,3) by auto
  then have "wf_accum acc" "cb_len (a_pending acc) = length c1"
    by (auto simp: accum_at_def wf_accum_def)
  then have "capture_on_write sha256 reg ((fresh_capture b)\<lparr>cap_acc := acc\<rparr>) c2 now = None"
    using assms(2,5) by (intro capture_on_write_undefined) auto
  moreover have "capture_on_write sha256 reg (fresh_capture b) c1 now = Some (reg, fresh_capture b, True)"
    using acc by (simp add: capture_on_write_def Let_def)
  moreover have "capture_after_write sha256 reg (fresh_capture b) c1 now =
      Some (reg, (fresh_capture b)\<lparr>cap_acc := acc\<rparr>)"
    using acc by (simp add: capture_after_write_def)
  ultimately show ?thesis using assms(4) by simp
qed

theorem capture_second_read_undefined_witness:
  "copy_captured sample_hash (\<lambda>_. True) (101, 0) [[22, 3, 1, 0, 10, 1, 0], [0, 6, 3, 3, 10, 20, 30, 40]]
     (portillia_bindings_new 300) (fresh_capture (replicate 16 7)) = None"
  by (rule capture_second_read_undefined [of _ "[0, 6, 3, 3, 10, 20, 30, 40]" "capture_sample_hello"])
    (simp_all add: capture_sample_hello_def is_record_def be_simps)

end
