(* ===== verification/Policy.thy ===== *)
theory Policy
  imports Portillia_Prelude
begin

text \<open>
  Access policy of the relay (\<^verbatim>\<open>src/portal/policy/policy.c\<close>) and the address and hostname matchers of
  \<^verbatim>\<open>src/utils/network.c\<close>. The parts of the C library the matchers call are modelled on strings:
  \<open>atoi\<close>, the \<open>%u\<close> conversion of \<open>sscanf\<close> (64-bit accumulation, truncated to \<open>unsigned int\<close>),
  \<open>strtok_r\<close> and \<open>inet_pton\<close>.
\<close>

datatype approval_mode_t = APPROVAL_AUTO | APPROVAL_MANUAL

record portillia_policy_t =
  p_approval_mode :: approval_mode_t
  p_landing_page_enabled :: bool
  p_approved_addresses :: "cstring list"
  p_denied_addresses :: "cstring list"
  p_banned_ips :: "cstring list"
  p_trusted_proxy_cidrs :: "cstring list"
  p_default_bps :: int

section \<open>Numbers in strings\<close>

definition is_digit :: "char \<Rightarrow> bool" where
  "is_digit c \<longleftrightarrow> 48 \<le> char_code c \<and> char_code c \<le> 57"

definition udigits_value :: "cstring \<Rightarrow> nat" where
  "udigits_value ds = foldl (\<lambda>n c. 10 * n + (char_code c - 48)) 0 ds"

text \<open>White space, an optional sign and the digits: what \<open>strtol\<close> and \<open>%u\<close> read.\<close>

definition scan_number :: "cstring \<Rightarrow> (bool \<times> cstring \<times> cstring)" where
  "scan_number s =
     (let s1 = dropWhile char_isspace s;
          neg = (s1 \<noteq> [] \<and> hd s1 = CHR ''-'');
          s2 = (if s1 \<noteq> [] \<and> (hd s1 = CHR ''-'' \<or> hd s1 = CHR ''+'') then tl s1 else s1)
      in (neg, takeWhile is_digit s2, dropWhile is_digit s2))"

definition c_atoi :: "cstring \<Rightarrow> int" where
  "c_atoi s =
     (case scan_number s of (neg, ds, _) \<Rightarrow>
        let v = (if neg then max (- (2 ^ 63)) (- int (udigits_value ds)) else min (2 ^ 63 - 1) (int (udigits_value ds)))
        in sint (word_of_int v :: 32 word))"

definition scan_u :: "cstring \<Rightarrow> (32 word \<times> cstring) option" where
  "scan_u s =
     (case scan_number s of (neg, ds, rest) \<Rightarrow>
        if ds = [] then None
        else let v = int (udigits_value ds);
                 w = (word_of_int (min (2 ^ 64 - 1) v) :: 64 word)
             in Some (ucast (if neg \<and> v < 2 ^ 64 then - w else w), rest))"

text \<open>\<open>sscanf (s, "%u.%u.%u.%u", ...) == 4\<close>\<close>

definition scan_dot :: "cstring \<Rightarrow> cstring option" where
  "scan_dot s = (case s of c # cs \<Rightarrow> if c = CHR ''.'' then Some cs else None | [] \<Rightarrow> None)"

definition scan_quad :: "cstring \<Rightarrow> (32 word \<times> 32 word \<times> 32 word \<times> 32 word) option" where
  "scan_quad s =
     (case scan_u s of None \<Rightarrow> None | Some (a, s1) \<Rightarrow>
      case scan_dot s1 of None \<Rightarrow> None | Some s2 \<Rightarrow>
      case scan_u s2 of None \<Rightarrow> None | Some (b, s3) \<Rightarrow>
      case scan_dot s3 of None \<Rightarrow> None | Some s4 \<Rightarrow>
      case scan_u s4 of None \<Rightarrow> None | Some (c, s5) \<Rightarrow>
      case scan_dot s5 of None \<Rightarrow> None | Some s6 \<Rightarrow>
      case scan_u s6 of None \<Rightarrow> None | Some (d, _) \<Rightarrow> Some (a, b, c, d))"

definition quad_word :: "32 word \<times> 32 word \<times> 32 word \<times> 32 word \<Rightarrow> 32 word" where
  "quad_word q = (case q of (a, b, c, d) \<Rightarrow> push_bit 24 a OR push_bit 16 b OR push_bit 8 c OR d)"

section \<open>Policy decisions\<close>

definition portillia_policy_init :: portillia_policy_t where
  "portillia_policy_init = \<lparr>p_approval_mode = APPROVAL_AUTO, p_landing_page_enabled = False,
     p_approved_addresses = [], p_denied_addresses = [], p_banned_ips = [], p_trusted_proxy_cidrs = [],
     p_default_bps = 0\<rparr>"

definition portillia_policy_cleanup :: "portillia_policy_t \<Rightarrow> portillia_policy_t" where
  "portillia_policy_cleanup policy = portillia_policy_init"

definition portillia_policy_is_identity_approved :: "portillia_policy_t option \<Rightarrow> cstring option \<Rightarrow> bool" where
  "portillia_policy_is_identity_approved policy address =
     (case (policy, address) of
        (Some p, Some a) \<Rightarrow>
          if p_approval_mode p = APPROVAL_AUTO then True
          else list_ex (\<lambda>x. strcasecmp_eq x a) (p_approved_addresses p)
      | _ \<Rightarrow> False)"

definition portillia_policy_is_identity_denied :: "portillia_policy_t option \<Rightarrow> cstring option \<Rightarrow> bool" where
  "portillia_policy_is_identity_denied policy address =
     (case (policy, address) of
        (Some p, Some a) \<Rightarrow> list_ex (\<lambda>x. strcasecmp_eq x a) (p_denied_addresses p)
      | _ \<Rightarrow> False)"

definition portillia_policy_is_ip_banned :: "portillia_policy_t option \<Rightarrow> cstring option \<Rightarrow> bool" where
  "portillia_policy_is_ip_banned policy ip =
     (case (policy, ip) of
        (Some p, Some a) \<Rightarrow> list_ex (\<lambda>x. x = a) (p_banned_ips p)
      | _ \<Rightarrow> False)"

definition cidr_prefix_match :: "cstring option \<Rightarrow> cstring option \<Rightarrow> bool" where
  "cidr_prefix_match ip_ptr cidr_ptr =
     (case (ip_ptr, cidr_ptr) of
        (Some ip, Some cidr) \<Rightarrow>
          (let buf = take 63 cidr in
           if CHR ''/'' \<notin> set buf then ip = buf
           else let net = takeWhile (\<lambda>c. c \<noteq> CHR ''/'') buf;
                    prefix = c_atoi (tl (dropWhile (\<lambda>c. c \<noteq> CHR ''/'') buf))
                in if prefix \<le> 0 then ip = net
                   else case scan_quad ip of None \<Rightarrow> False | Some q \<Rightarrow>
                        case scan_quad net of None \<Rightarrow> False | Some r \<Rightarrow>
                          let mask = (if prefix \<ge> 32 then 0xFFFFFFFF else push_bit (nat (32 - prefix)) 0xFFFFFFFF)
                          in quad_word q AND mask = quad_word r AND mask)
      | _ \<Rightarrow> False)"

definition is_trusted_proxy :: "portillia_policy_t \<Rightarrow> cstring option \<Rightarrow> bool" where
  "is_trusted_proxy policy ip = list_ex (\<lambda>cidr. cidr_prefix_match ip (Some cidr)) (p_trusted_proxy_cidrs policy)"

text \<open>\<open>strtok_r (s, ",", ...)\<close> repeated to the end: the maximal runs without commas. Each token then
  loses its leading and trailing blanks.\<close>

function strtok_commas :: "cstring \<Rightarrow> cstring list" where
  "strtok_commas s =
     (let s1 = dropWhile (\<lambda>c. c = CHR '','') s
      in if s1 = [] then []
         else takeWhile (\<lambda>c. c \<noteq> CHR '','') s1 # strtok_commas (dropWhile (\<lambda>c. c \<noteq> CHR '','') s1))"
  by auto
termination
proof (relation "measure length")
  fix s s1 :: cstring
  assume s1: "s1 = dropWhile (\<lambda>c. c = CHR '','') s" "s1 \<noteq> []"
  then have "hd s1 \<noteq> CHR '',''" using hd_dropWhile [of "\<lambda>c. c = CHR '',''" s] by simp
  then have "length (dropWhile (\<lambda>c. c \<noteq> CHR '','') s1) < length s1"
    using s1(2) by (cases s1) (auto simp: le_imp_less_Suc length_dropWhile_le)
  also have "\<dots> \<le> length s" using s1(1) by (simp add: length_dropWhile_le)
  finally show "(dropWhile (\<lambda>c. c \<noteq> CHR '','') s1, s) \<in> measure length" by simp
qed simp

declare strtok_commas.simps [simp del]

definition is_blank :: "char \<Rightarrow> bool" where
  "is_blank c \<longleftrightarrow> char_code c = 32 \<or> char_code c = 9"

definition trim_blanks :: "cstring \<Rightarrow> cstring" where
  "trim_blanks tok = rev (dropWhile is_blank (rev (dropWhile is_blank tok)))"

text \<open>\<open>parts\<close> has room for one token more than there are commas.\<close>

definition forwarded_parts :: "cstring \<Rightarrow> cstring list" where
  "forwarded_parts xff =
     map trim_blanks (take (Suc (length (filter (\<lambda>c. c = CHR '','') xff))) (strtok_commas xff))"

definition portillia_policy_extract_client_ip ::
  "portillia_policy_t option \<Rightarrow> cstring option \<Rightarrow> cstring option \<Rightarrow> cstring option \<Rightarrow> cstring option" where
  "portillia_policy_extract_client_ip policy x_forwarded_for x_real_ip direct_ip =
     (case policy of
        None \<Rightarrow> direct_ip
      | Some p \<Rightarrow>
          if x_real_ip \<noteq> None \<and> is_trusted_proxy p direct_ip then x_real_ip
          else if x_forwarded_for \<noteq> None \<and> is_trusted_proxy p direct_ip then
            (case find (\<lambda>part. \<not> is_trusted_proxy p (Some part)) (rev (forwarded_parts (or_empty x_forwarded_for))) of
               Some part \<Rightarrow> Some part
             | None \<Rightarrow> direct_ip)
          else direct_ip)"

section \<open>Network helpers\<close>

text \<open>\<open>inet_pton (AF_INET, ...)\<close>: four decimal octets without leading zeros.\<close>

fun split_dots :: "cstring \<Rightarrow> cstring list" where
  "split_dots [] = [[]]"
| "split_dots (c # cs) =
     (if c = CHR ''.'' then [] # split_dots cs
      else (c # hd (split_dots cs)) # tl (split_dots cs))"

definition octet_ok :: "cstring \<Rightarrow> bool" where
  "octet_ok s \<longleftrightarrow> s \<noteq> [] \<and> list_all is_digit s \<and> (hd s \<noteq> CHR ''0'' \<or> length s = 1) \<and> udigits_value s \<le> 255"

definition inet_pton4 :: "cstring \<Rightarrow> 32 word option" where
  "inet_pton4 s =
     (case split_dots s of
        [a, b, c, d] \<Rightarrow>
          if list_all octet_ok [a, b, c, d]
          then Some (quad_word (of_nat (udigits_value a), of_nat (udigits_value b),
                                of_nat (udigits_value c), of_nat (udigits_value d)))
          else None
      | _ \<Rightarrow> None)"

text \<open>\<open>None\<close> where the C function has no defined outcome: a network of 64 or more characters, for which
  \<open>strncpy\<close> leaves no terminator, an address that \<open>inet_pton\<close> rejects, whose result is then read
  uninitialised, and a shift by a negative amount or by 32 or more.\<close>

definition portillia_network_ip_in_cidr :: "cstring \<Rightarrow> cstring \<Rightarrow> bool option" where
  "portillia_network_ip_in_cidr ip cidr =
     (if length cidr \<ge> 64 then None
      else if CHR ''/'' \<notin> set cidr then Some (ip = cidr)
      else let net = takeWhile (\<lambda>c. c \<noteq> CHR ''/'') cidr;
               mask_bits = c_atoi (tl (dropWhile (\<lambda>c. c \<noteq> CHR ''/'') cidr))
           in case inet_pton4 ip of None \<Rightarrow> None | Some ip_h \<Rightarrow>
              case inet_pton4 net of None \<Rightarrow> None | Some cidr_h \<Rightarrow>
                if mask_bits = 0 then Some True
                else if mask_bits < 1 \<or> mask_bits > 32 then None
                else let mask = push_bit (nat (32 - mask_bits)) (- 1 :: 32 word)
                     in Some (ip_h AND mask = cidr_h AND mask))"

definition hostname_matches :: "cstring option \<Rightarrow> cstring option \<Rightarrow> bool" where
  "hostname_matches pattern_ptr hostname_ptr =
     (case (pattern_ptr, hostname_ptr) of
        (Some pattern, Some hostname) \<Rightarrow>
          if pattern \<noteq> [] \<and> hd pattern = CHR ''*'' then
            if length hostname < length pattern then False
            else drop (length hostname - (length pattern - 1)) hostname = tl pattern
          else pattern = hostname
      | _ \<Rightarrow> False)"

section \<open>Printed addresses\<close>

fun udec :: "nat \<Rightarrow> cstring" where
  "udec n = (if n < 10 then [char_of (48 + n)] else udec (n div 10) @ [char_of (48 + n mod 10)])"

declare udec.simps [simp del]

definition render_quad :: "nat \<times> nat \<times> nat \<times> nat \<Rightarrow> cstring" where
  "render_quad q = (case q of (a, b, c, d) \<Rightarrow>
     udec a @ CHR ''.'' # udec b @ CHR ''.'' # udec c @ CHR ''.'' # udec d)"

definition quad_octets :: "nat \<times> nat \<times> nat \<times> nat \<Rightarrow> bool" where
  "quad_octets q \<longleftrightarrow> (case q of (a, b, c, d) \<Rightarrow> a < 256 \<and> b < 256 \<and> c < 256 \<and> d < 256)"

definition quad_value :: "nat \<times> nat \<times> nat \<times> nat \<Rightarrow> nat" where
  "quad_value q = (case q of (a, b, c, d) \<Rightarrow> a * 2 ^ 24 + b * 2 ^ 16 + c * 2 ^ 8 + d)"

lemma is_digit_char_of: "(n :: nat) < 10 \<Longrightarrow> is_digit (char_of (48 + n))"
  by (simp add: is_digit_def char_code_char_of)

lemma udec_digits: "list_all is_digit (udec n)"
proof (induction n rule: udec.induct)
  case (1 n)
  then show ?case by (subst udec.simps) (auto simp: is_digit_char_of)
qed

lemma udec_nonempty [simp]: "udec n \<noteq> []"
  by (subst udec.simps) simp

lemma udigits_value_snoc [simp]: "udigits_value (ds @ [c]) = 10 * udigits_value ds + (char_code c - 48)"
  by (simp add: udigits_value_def)

lemma udigits_value_dec [simp]: "udigits_value (udec n) = n"
proof (induction n rule: udec.induct)
  case (1 n)
  then show ?case by (subst udec.simps) (auto simp: udigits_value_def char_code_char_of)
qed

lemma length_dec: "n < 10 ^ k \<Longrightarrow> 0 < k \<Longrightarrow> length (udec n) \<le> k"
proof (induction n arbitrary: k rule: udec.induct)
  case (1 n)
  show ?case
  proof (cases "n < 10")
    case False
    with 1(2) have "k \<noteq> 1" by (auto intro: ccontr)
    with 1(3) obtain j where k: "k = Suc j" "0 < j" by (cases k) auto
    then have "length (udec (n div 10)) \<le> j"
      using 1(1) [OF False, of j] 1(2) by (simp add: less_mult_imp_div_less mult.commute)
    then show ?thesis using False k by (subst udec.simps) simp
  qed (use 1(3) in \<open>subst udec.simps, simp\<close>)
qed

lemma dec_hd: "is_digit (hd (udec n))" "0 < n \<Longrightarrow> hd (udec n) \<noteq> CHR ''0''"
proof -
  show "is_digit (hd (udec n))"
    using udec_digits [of n] by (cases "udec n") auto
  show "0 < n \<Longrightarrow> hd (udec n) \<noteq> CHR ''0''"
  proof (induction n rule: udec.induct)
    case (1 n)
    have "char_code (char_of (48 + n)) \<noteq> char_code CHR ''0''" if "n < 10"
      using 1(2) that char_code_char_of [of "48 + n"] by (simp add: char_code_def)
    then have "char_of (48 + n) \<noteq> CHR ''0''" if "n < 10" using that by metis
    with 1 show ?case by (subst udec.simps) auto
  qed
qed

lemma digit_not_special:
  "is_digit c \<Longrightarrow> \<not> char_isspace c \<and> c \<noteq> CHR ''-'' \<and> c \<noteq> CHR ''+'' \<and> c \<noteq> CHR ''.'' \<and> c \<noteq> CHR ''/''"
  by (auto simp: is_digit_def char_isspace_def char_code_def)

lemma scan_number_dec:
  assumes "rest = [] \<or> \<not> is_digit (hd rest)"
  shows "scan_number (udec n @ rest) = (False, udec n, rest)"
proof -
  obtain c cs where d: "udec n = c # cs" "is_digit c"
    using udec_digits [of n] by (cases "udec n") auto
  have "takeWhile is_digit (udec n @ rest) = udec n" "dropWhile is_digit (udec n @ rest) = rest"
    using udec_digits [of n] assms
    by (cases rest; auto simp: list_all_iff takeWhile_append dropWhile_append)+
  then show ?thesis
    using d digit_not_special [OF d(2)] by (simp add: scan_number_def Let_def)
qed

lemma scan_u_dec:
  assumes "n < 2 ^ 32" "rest = [] \<or> \<not> is_digit (hd rest)"
  shows "scan_u (udec n @ rest) = Some (of_nat n, rest)"
proof -
  have "min (2 ^ 64 - 1) (int n) = int n" using assms(1) by simp
  then show ?thesis
    using scan_number_dec [OF assms(2), of n] by (simp add: scan_u_def Let_def unsigned_of_nat take_bit_nat_def)
qed

lemma not_digit_dot [simp]: "\<not> is_digit CHR ''.''" "\<not> is_digit CHR ''/''"
  by (simp_all add: is_digit_def char_code_def)

lemma scan_quad_render:
  assumes "quad_octets (a, b, c, d)"
  shows "scan_quad (render_quad (a, b, c, d)) = Some (of_nat a, of_nat b, of_nat c, of_nat d)"
  using assms scan_u_dec [of d "[]"]
  by (simp add: scan_quad_def render_quad_def quad_octets_def scan_u_dec scan_dot_def)

lemma quad_word_of_nat:
  assumes "quad_octets (a, b, c, d)"
  shows "quad_word (of_nat a, of_nat b, of_nat c, of_nat d) = of_nat (quad_value (a, b, c, d))"
proof -
  have lt: "a < 256" "b < 256" "c < 256" "d < 256" using assms by (auto simp: quad_octets_def)
  have "push_bit 8 c OR d = c * 2 ^ 8 + d" using lt push_bit_or_add [of d 8 c] by simp
  moreover have "push_bit 16 b OR (c * 2 ^ 8 + d) = b * 2 ^ 16 + (c * 2 ^ 8 + d)"
    using lt push_bit_or_add [of "c * 2 ^ 8 + d" 16 b] by simp
  moreover have "push_bit 24 a OR (b * 2 ^ 16 + (c * 2 ^ 8 + d)) = a * 2 ^ 24 + (b * 2 ^ 16 + (c * 2 ^ 8 + d))"
    using lt push_bit_or_add [of "b * 2 ^ 16 + (c * 2 ^ 8 + d)" 24 a] by simp
  ultimately have "quad_value (a, b, c, d) = push_bit 24 a OR push_bit 16 b OR push_bit 8 c OR d"
    by (simp add: quad_value_def)
  then show ?thesis
    by (simp only: quad_word_def prod.case of_nat_or_eq push_bit_of_nat)
qed

lemma scan_quad_value:
  assumes "quad_octets q"
  shows "\<exists>r. scan_quad (render_quad q) = Some r \<and> quad_word r = of_nat (quad_value q)"
  using assms scan_quad_render quad_word_of_nat by (cases q) fast

lemma quad_value_less: "quad_octets q \<Longrightarrow> quad_value q < 2 ^ 32"
  by (auto simp: quad_octets_def quad_value_def split: prod.splits)

lemma masked_eq_iff:
  fixes x y :: "32 word"
  assumes "k \<le> 32"
  shows "x AND push_bit k (- 1) = y AND push_bit k (- 1) \<longleftrightarrow> unat x div 2 ^ k = unat y div 2 ^ k"
proof -
  have "x AND push_bit k (- 1) = y AND push_bit k (- 1) \<longleftrightarrow> drop_bit k x = drop_bit k y"
  proof
    assume *: "x AND push_bit k (- 1) = y AND push_bit k (- 1)"
    show "drop_bit k x = drop_bit k y"
    proof (rule bit_word_eqI)
      fix n assume "n < LENGTH(32)"
      show "bit (drop_bit k x) n = bit (drop_bit k y) n"
        using arg_cong [OF *, of "\<lambda>w. bit w (k + n)"]
        by (auto simp: bit_drop_bit_eq bit_and_iff bit_not_iff bit_mask_iff dest: bit_imp_le_length)
    qed
  next
    assume *: "drop_bit k x = drop_bit k y"
    show "x AND push_bit k (- 1) = y AND push_bit k (- 1)"
    proof (rule bit_word_eqI)
      fix n assume "n < LENGTH(32)"
      show "bit (x AND push_bit k (- 1)) n = bit (y AND push_bit k (- 1)) n"
        using arg_cong [OF *, of "\<lambda>w. bit w (n - k)"]
        by (auto simp: bit_drop_bit_eq bit_and_iff bit_not_iff bit_mask_iff)
    qed
  qed
  also have "\<dots> \<longleftrightarrow> unat (drop_bit k x) = unat (drop_bit k y)" by (simp add: word_unat_eq_iff)
  also have "\<dots> \<longleftrightarrow> drop_bit k (unat x) = drop_bit k (unat y)" by (simp only: unat_drop_bit_eq)
  finally show ?thesis by (simp only: drop_bit_eq_div)
qed

lemma unat_quad: "quad_octets q \<Longrightarrow> unat (of_nat (quad_value q) :: 32 word) = quad_value q"
  using quad_value_less [of q] by (simp add: unsigned_of_nat take_bit_nat_eq_self)

lemma c_atoi_dec: "n < 2 ^ 31 \<Longrightarrow> c_atoi (udec n) = int n"
  using scan_number_dec [of "[]" n]
  by (simp add: c_atoi_def Let_def signed_of_int signed_take_bit_int_eq_self)


text \<open>Splitting a printed network from its prefix length.\<close>

definition render_cidr :: "nat \<times> nat \<times> nat \<times> nat \<Rightarrow> nat \<Rightarrow> cstring" where
  "render_cidr q p = render_quad q @ CHR ''/'' # udec p"

lemma slash_not_in_dec: "CHR ''/'' \<notin> set (udec n)"
  using udec_digits [of n] by (auto simp: list_all_iff)

lemma slash_not_in_quad: "CHR ''/'' \<notin> set (render_quad q)"
  by (cases q) (simp add: render_quad_def slash_not_in_dec)

lemma render_cidr_split:
  "takeWhile (\<lambda>c. c \<noteq> CHR ''/'') (render_cidr q p) = render_quad q"
  "tl (dropWhile (\<lambda>c. c \<noteq> CHR ''/'') (render_cidr q p)) = udec p"
proof -
  have "\<And>c. c \<in> set (render_quad q) \<Longrightarrow> c \<noteq> CHR ''/''" using slash_not_in_quad [of q] by metis
  then show "takeWhile (\<lambda>c. c \<noteq> CHR ''/'') (render_cidr q p) = render_quad q"
    "tl (dropWhile (\<lambda>c. c \<noteq> CHR ''/'') (render_cidr q p)) = udec p"
    by (simp_all add: render_cidr_def takeWhile_append2 dropWhile_append2)
qed

lemma length_render_cidr: "quad_octets q \<Longrightarrow> p \<le> 32 \<Longrightarrow> length (render_cidr q p) \<le> 18"
proof (cases q)
  case (fields a b c d)
  assume "quad_octets q" "p \<le> 32"
  then have "length (udec a) \<le> 3" "length (udec b) \<le> 3" "length (udec c) \<le> 3" "length (udec d) \<le> 3"
    "length (udec p) \<le> 2"
    using fields by (auto intro!: length_dec simp: quad_octets_def)
  then show ?thesis by (simp add: fields render_cidr_def render_quad_def)
qed

lemma octet_ok_dec: "n < 256 \<Longrightarrow> octet_ok (udec n)"
  using dec_hd [of n] length_dec [of n 1] udec_nonempty [of n]
  by (cases "n = 0") (auto simp: octet_ok_def udec_digits le_Suc_eq)

lemma split_dots_dec: "split_dots (udec n) = [udec n]" "split_dots (udec n @ CHR ''.'' # s) = udec n # split_dots s"
proof -
  have "list_all is_digit ds \<Longrightarrow> split_dots ds = [ds] \<and> split_dots (ds @ CHR ''.'' # s) = ds # split_dots s" for ds
    by (induction ds) (auto dest: digit_not_special)
  then show "split_dots (udec n) = [udec n]" "split_dots (udec n @ CHR ''.'' # s) = udec n # split_dots s"
    using udec_digits [of n] by blast+
qed

lemma inet_pton4_render: "quad_octets q \<Longrightarrow> inet_pton4 (render_quad q) = Some (of_nat (quad_value q))"
proof (cases q)
  case (fields a b c d)
  assume "quad_octets q"
  then show ?thesis
    using quad_word_of_nat [of a b c d]
    by (simp add: fields inet_pton4_def render_quad_def split_dots_dec octet_ok_dec quad_octets_def)
qed

lemma cidr_prefix_match_render:
  assumes "quad_octets ip" "quad_octets net" "1 \<le> p" "p \<le> 32"
  shows "cidr_prefix_match (Some (render_quad ip)) (Some (render_cidr net p)) \<longleftrightarrow>
    quad_value ip div 2 ^ (32 - p) = quad_value net div 2 ^ (32 - p)"
proof -
  obtain iq where ip: "scan_quad (render_quad ip) = Some iq" "quad_word iq = of_nat (quad_value ip)"
    using scan_quad_value [OF assms(1)] by blast
  obtain nq where net: "scan_quad (render_quad net) = Some nq" "quad_word nq = of_nat (quad_value net)"
    using scan_quad_value [OF assms(2)] by blast
  have buf: "take 63 (render_cidr net p) = render_cidr net p"
    using length_render_cidr [OF assms(2,4)] by simp
  have slash: "CHR ''/'' \<in> set (render_cidr net p)" by (simp add: render_cidr_def)
  have pre: "c_atoi (udec p) = int p" using assms(4) by (intro c_atoi_dec) simp
  have mask: "(if int p \<ge> 32 then 0xFFFFFFFF else push_bit (nat (32 - int p)) 0xFFFFFFFF) =
      (push_bit (32 - p) (- 1) :: 32 word)"
  proof -
    have "(0xFFFFFFFF :: 32 word) = - 1" by simp
    then show ?thesis using assms(4) by (auto simp only: nat_diff_distrib' le_antisym) auto
  qed
  have "cidr_prefix_match (Some (render_quad ip)) (Some (render_cidr net p)) \<longleftrightarrow>
      (of_nat (quad_value ip) :: 32 word) AND push_bit (32 - p) (- 1) =
      of_nat (quad_value net) AND push_bit (32 - p) (- 1)"
    using assms(3) slash
    unfolding cidr_prefix_match_def option.case prod.case Let_def buf render_cidr_split pre mask ip net
    by (simp del: push_bit_minus_one_eq_not_mask)
  also have "\<dots> \<longleftrightarrow> quad_value ip div 2 ^ (32 - p) = quad_value net div 2 ^ (32 - p)"
    by (simp only: masked_eq_iff diff_le_self unat_quad assms)
  finally show ?thesis .
qed

lemma ip_in_cidr_render:
  assumes "quad_octets ip" "quad_octets net" "p \<le> 32"
  shows "portillia_network_ip_in_cidr (render_quad ip) (render_cidr net p) =
    Some (quad_value ip div 2 ^ (32 - p) = quad_value net div 2 ^ (32 - p))"
proof -
  have slash: "CHR ''/'' \<in> set (render_cidr net p)" by (simp add: render_cidr_def)
  have pre: "c_atoi (udec p) = int p" using assms(3) by (intro c_atoi_dec) simp
  have "nat (32 - int p) = 32 - p" by simp
  moreover have "(of_nat (quad_value ip) :: 32 word) AND push_bit (32 - p) (- 1) =
      of_nat (quad_value net) AND push_bit (32 - p) (- 1) \<longleftrightarrow>
      quad_value ip div 2 ^ (32 - p) = quad_value net div 2 ^ (32 - p)"
    by (simp only: masked_eq_iff diff_le_self unat_quad assms)
  moreover have "p = 0 \<Longrightarrow> quad_value ip div 2 ^ (32 - p) = quad_value net div 2 ^ (32 - p)"
    using quad_value_less [OF assms(1)] quad_value_less [OF assms(2)] by simp
  ultimately show ?thesis
    using assms length_render_cidr [OF assms(2,3)] slash
    unfolding portillia_network_ip_in_cidr_def Let_def render_cidr_split pre
    by (auto simp: inet_pton4_render simp del: push_bit_minus_one_eq_not_mask)
qed

section \<open>Properties\<close>

text \<open>For a printed IPv4 address and network with a prefix of 1 to 32, both CIDR matchers of the
  code, the one that guards the proxy headers and the one of the admin API, decide exactly whether
  the two addresses agree in their leading prefix bits.\<close>

theorem cidr_matchers_decide_prefix:
  assumes "quad_octets ip" "quad_octets net" "1 \<le> p" "p \<le> 32"
  shows "cidr_prefix_match (Some (render_quad ip)) (Some (render_cidr net p)) =
      (quad_value ip div 2 ^ (32 - p) = quad_value net div 2 ^ (32 - p)) \<and>
    portillia_network_ip_in_cidr (render_quad ip) (render_cidr net p) =
      Some (quad_value ip div 2 ^ (32 - p) = quad_value net div 2 ^ (32 - p))"
  using cidr_prefix_match_render [OF assms] ip_in_cidr_render [OF assms(1,2,4)] by blast

theorem cidr_matchers_decide_prefix_witness:
  "cidr_prefix_match (Some (render_quad (10, 1, 2, 3))) (Some (render_cidr (10, 0, 0, 0) 8)) \<and>
   \<not> cidr_prefix_match (Some (render_quad (11, 1, 2, 3))) (Some (render_cidr (10, 0, 0, 0) 8))"
  using cidr_matchers_decide_prefix [of "(10, 1, 2, 3)" "(10, 0, 0, 0)" 8]
    cidr_matchers_decide_prefix [of "(11, 1, 2, 3)" "(10, 0, 0, 0)" 8]
  by (simp add: quad_octets_def quad_value_def)

text \<open>The two matchers disagree on a prefix of zero: the admin matcher accepts every address, the
  proxy matcher only the network address itself, so a trusted-proxy entry such as 0.0.0.0/0
  trusts nobody.\<close>

theorem cidr_zero_prefix_disagrees:
  assumes "quad_octets ip" "quad_octets net"
  shows "cidr_prefix_match (Some (render_quad ip)) (Some (render_cidr net 0)) = (render_quad ip = render_quad net) \<and>
    portillia_network_ip_in_cidr (render_quad ip) (render_cidr net 0) = Some True"
proof
  have buf: "take 63 (render_cidr net 0) = render_cidr net 0"
    using length_render_cidr [OF assms(2), of 0] by simp
  have slash: "CHR ''/'' \<in> set (render_cidr net 0)" by (simp add: render_cidr_def)
  have "c_atoi (udec 0) = 0" using c_atoi_dec [of 0] by simp
  then show "cidr_prefix_match (Some (render_quad ip)) (Some (render_cidr net 0)) = (render_quad ip = render_quad net)"
    using slash unfolding cidr_prefix_match_def option.case prod.case Let_def buf render_cidr_split by simp
  show "portillia_network_ip_in_cidr (render_quad ip) (render_cidr net 0) = Some True"
    using ip_in_cidr_render [OF assms, of 0] quad_value_less [OF assms(1)] quad_value_less [OF assms(2)] by simp
qed

theorem cidr_zero_prefix_disagrees_witness:
  "cidr_prefix_match (Some (render_quad (10, 1, 2, 3))) (Some (render_cidr (0, 0, 0, 0) 0)) =
     (render_quad (10, 1, 2, 3) = render_quad (0, 0, 0, 0)) \<and>
   portillia_network_ip_in_cidr (render_quad (10, 1, 2, 3)) (render_cidr (0, 0, 0, 0) 0) = Some True"
  using cidr_zero_prefix_disagrees [of "(10, 1, 2, 3)" "(0, 0, 0, 0)"] by (simp add: quad_octets_def)

text \<open>C33. A client cannot choose its own address through the forwarding headers: whenever the extracted
  address is not the one of the connection itself, the connection comes from a trusted proxy, and
  the address is the proxy's \<open>X-Real-IP\<close> or the rightmost untrusted entry of its \<open>X-Forwarded-For\<close>.\<close>

theorem client_ip_not_spoofed:
  assumes "portillia_policy_extract_client_ip (Some p) xff real direct = Some ip" "direct \<noteq> Some ip"
  shows "is_trusted_proxy p direct \<and>
    (real = Some ip \<or>
     real = None \<and> (\<exists>before after. forwarded_parts (or_empty xff) = before @ ip # after \<and>
       \<not> is_trusted_proxy p (Some ip) \<and> list_all (\<lambda>q. is_trusted_proxy p (Some q)) after))"
proof -
  have trusted: "is_trusted_proxy p direct"
    using assms by (auto simp: portillia_policy_extract_client_ip_def split: if_splits)
  moreover have "\<exists>before after. forwarded_parts (or_empty xff) = before @ ip # after \<and>
      \<not> is_trusted_proxy p (Some ip) \<and> list_all (\<lambda>q. is_trusted_proxy p (Some q)) after"
    if "real = None"
  proof -
    have "find (\<lambda>part. \<not> is_trusted_proxy p (Some part)) (rev (forwarded_parts (or_empty xff))) = Some ip"
      using assms that trusted by (auto simp: portillia_policy_extract_client_ip_def split: if_splits option.splits)
    then obtain pre post where split: "rev (forwarded_parts (or_empty xff)) = pre @ ip # post"
      "\<not> is_trusted_proxy p (Some ip)" "\<forall>q \<in> set pre. is_trusted_proxy p (Some q)"
      using find_Some_split by (metis (no_types, lifting))
    then have "forwarded_parts (or_empty xff) = rev post @ ip # rev pre"
      by (metis append.assoc append_Cons append_Nil rev.simps(2) rev_append rev_rev_ident)
    with split show ?thesis by (metis list_all_iff set_rev)
  qed
  ultimately show ?thesis
    using assms by (cases real) (auto simp: portillia_policy_extract_client_ip_def)
qed

definition sample_policy :: portillia_policy_t where
  "sample_policy = portillia_policy_init\<lparr>p_trusted_proxy_cidrs := [''10.0.0.0/8'']\<rparr>"

theorem client_ip_not_spoofed_witness:
  "is_trusted_proxy sample_policy (Some ''10.0.0.1'') \<and>
   (None = Some ''203.0.113.7'' \<or> (None :: cstring option) = None \<and>
    (\<exists>before after. forwarded_parts (or_empty (Some ''1.1.1.1, 203.0.113.7 ,10.2.3.4'')) = before @ ''203.0.113.7'' # after \<and>
      \<not> is_trusted_proxy sample_policy (Some ''203.0.113.7'') \<and>
      list_all (\<lambda>q. is_trusted_proxy sample_policy (Some q)) after))"
proof (rule client_ip_not_spoofed)
  show "portillia_policy_extract_client_ip (Some sample_policy) (Some ''1.1.1.1, 203.0.113.7 ,10.2.3.4'') None
      (Some ''10.0.0.1'') = Some ''203.0.113.7''"
    by code_simp
qed simp

text \<open>A wildcard hostname matches every name below its parent, however many labels deep: the part
  before the parent may itself contain dots, but may not be empty. (The architecture notes promise
  a single level.)\<close>

theorem wildcard_hostname_matches:
  "hostname_matches (Some (CHR ''*'' # CHR ''.'' # parent)) (Some h) \<longleftrightarrow>
   (\<exists>labels. labels \<noteq> [] \<and> h = labels @ CHR ''.'' # parent)"
proof
  assume *: "hostname_matches (Some (CHR ''*'' # CHR ''.'' # parent)) (Some h)"
  let ?n = "length h - Suc (length parent)"
  have "h = take ?n h @ drop ?n h" by simp
  moreover have "drop ?n h = CHR ''.'' # parent" "take ?n h \<noteq> []"
    using * by (auto simp: hostname_matches_def split: if_splits)
  ultimately show "\<exists>labels. labels \<noteq> [] \<and> h = labels @ CHR ''.'' # parent" by metis
next
  assume "\<exists>labels. labels \<noteq> [] \<and> h = labels @ CHR ''.'' # parent"
  then show "hostname_matches (Some (CHR ''*'' # CHR ''.'' # parent)) (Some h)"
    by (auto simp: hostname_matches_def Suc_le_eq)
qed

end
