(* ===== verification/Cjson.thy ===== *)
theory Cjson
  imports Portillia_Prelude "HOL-Library.Log_Nat"
begin

text \<open>
  The calls of cJSON that the sources use. cJSON is not part of the sources: its calls are the fields
  of a record that the operations take, where \<open>'j\<close> stands for a node and \<open>'t\<close> for JSON text. What
  the code relies on is the predicate \<open>cjson_laws\<close>: every node shows a tree of values, the
  accessors read that tree, the constructors build it, and parsing printed text shows the tree that
  was printed. Doubles are reals; an integer is rounded to 53 significant bits when it becomes one.
\<close>

section \<open>Numbers\<close>

text \<open>The conversion \<open>(double) n\<close>: exact up to $2^{53}$, to the nearest double with ties to even above.\<close>

definition double_of_int :: "int \<Rightarrow> real" where
  "double_of_int n =
     (if \<bar>n\<bar> \<le> 2 ^ 53 then real_of_int n
      else let m = nat \<bar>n\<bar>; e = floorlog 2 m - 53; q = m div 2 ^ e; r = m mod 2 ^ e;
               q' = (if 2 * r > 2 ^ e \<or> (2 * r = 2 ^ e \<and> odd q) then q + 1 else q)
           in real_of_int (sgn n * int (q' * 2 ^ e)))"

text \<open>The conversion \<open>(int64_t) d\<close> for a value in range: towards zero.\<close>

definition int_of_double :: "real \<Rightarrow> int" where
  "int_of_double r = (if r < 0 then \<lceil>r\<rceil> else \<lfloor>r\<rfloor>)"

lemma int_of_double_of_int [simp]: "\<bar>n\<bar> \<le> 2 ^ 53 \<Longrightarrow> int_of_double (double_of_int n) = n"
  by (simp add: int_of_double_def double_of_int_def)

lemma int_of_double_real [simp]: "int_of_double (real_of_int n) = n"
  by (simp add: int_of_double_def)

lemma double_of_int_exact: "\<bar>n\<bar> \<le> 2 ^ 53 \<Longrightarrow> double_of_int n = real_of_int n"
  by (simp add: double_of_int_def)

section \<open>Nodes\<close>

datatype json = JNull | JString cstring | JBool bool | JNumber real | JArray "json list" | JObject "(cstring \<times> json) list"

record ('j, 't) cjson =
  cj_parse :: "'t \<Rightarrow> 'j option"
  cj_print :: "'j \<Rightarrow> 't"
  cj_get :: "'j \<Rightarrow> cstring \<Rightarrow> 'j option"
  cj_is_true :: "'j \<Rightarrow> bool"
  cj_is_array :: "'j \<Rightarrow> bool"
  cj_is_object :: "'j \<Rightarrow> bool"
  cj_is_string :: "'j \<Rightarrow> bool"
  cj_is_number :: "'j \<Rightarrow> bool"
  cj_items :: "'j \<Rightarrow> 'j list"
  cj_valuestring :: "'j \<Rightarrow> cstring option"
  cj_valuedouble :: "'j \<Rightarrow> real"
  cj_valueint :: "'j \<Rightarrow> int"
  cj_object :: "(cstring \<times> 'j) list \<Rightarrow> 'j"
  cj_array :: "'j list \<Rightarrow> 'j"
  cj_string :: "cstring \<Rightarrow> 'j"
  cj_bool :: "bool \<Rightarrow> 'j"
  cj_number :: "real \<Rightarrow> 'j"

text \<open>Object members are looked up without regard to case.\<close>

definition json_get :: "json \<Rightarrow> cstring \<Rightarrow> json option" where
  "json_get j k = (case j of
     JObject fs \<Rightarrow> map_option snd (find (\<lambda>(k', _). str_tolower k' = str_tolower k) fs) | _ \<Rightarrow> None)"

definition json_string :: "json \<Rightarrow> cstring option" where
  "json_string j = (case j of JString s \<Rightarrow> Some s | _ \<Rightarrow> None)"

definition json_items :: "json \<Rightarrow> json list" where
  "json_items j = (case j of JArray js \<Rightarrow> js | _ \<Rightarrow> [])"

definition json_number :: "json \<Rightarrow> real" where
  "json_number j = (case j of JNumber r \<Rightarrow> r | _ \<Rightarrow> 0)"

lemma json_simps [simp]:
  "json_get (JObject fs) k = map_option snd (find (\<lambda>(k', _). str_tolower k' = str_tolower k) fs)"
  "json_get (JString s) k = None" "json_get (JBool b) k = None" "json_get (JNumber r) k = None"
  "json_get (JArray js) k = None" "json_get JNull k = None"
  "json_string (JString s) = Some s" "json_string (JBool b) = None" "json_string (JNumber r) = None"
  "json_string (JArray js) = None" "json_string (JObject fs) = None" "json_string JNull = None"
  "json_items (JArray js) = js" "json_number (JNumber r) = r"
  by (simp_all add: json_get_def json_string_def json_items_def json_number_def)

section \<open>What the code relies on\<close>

definition accessor_laws :: "('j, 't) cjson \<Rightarrow> ('j \<Rightarrow> json) \<Rightarrow> bool" where
  "accessor_laws api view \<longleftrightarrow>
     (\<forall>j k. map_option view (cj_get api j k) = json_get (view j) k) \<and>
     (\<forall>j. map view (cj_items api j) = json_items (view j)) \<and>
     (\<forall>j. cj_valuestring api j = json_string (view j)) \<and>
     (\<forall>j. cj_valuedouble api j = json_number (view j)) \<and>
     (\<forall>j. \<bar>json_number (view j)\<bar> \<le> 2 ^ 31 - 1 \<longrightarrow> cj_valueint api j = int_of_double (json_number (view j))) \<and>
     (\<forall>j. cj_is_true api j \<longleftrightarrow> view j = JBool True) \<and>
     (\<forall>j. cj_is_array api j \<longleftrightarrow> (\<exists>js. view j = JArray js)) \<and>
     (\<forall>j. cj_is_object api j \<longleftrightarrow> (\<exists>fs. view j = JObject fs)) \<and>
     (\<forall>j. cj_is_string api j \<longleftrightarrow> (\<exists>s. view j = JString s)) \<and>
     (\<forall>j. cj_is_number api j \<longleftrightarrow> (\<exists>r. view j = JNumber r))"

definition constructor_laws :: "('j, 't) cjson \<Rightarrow> ('j \<Rightarrow> json) \<Rightarrow> bool" where
  "constructor_laws api view \<longleftrightarrow>
     (\<forall>fs. view (cj_object api fs) = JObject (map (\<lambda>(k, j). (k, view j)) fs)) \<and>
     (\<forall>js. view (cj_array api js) = JArray (map view js)) \<and>
     (\<forall>s. view (cj_string api s) = JString s) \<and>
     (\<forall>b. view (cj_bool api b) = JBool b) \<and>
     (\<forall>r. view (cj_number api r) = JNumber r)"

definition cjson_laws :: "('j, 't) cjson \<Rightarrow> ('j \<Rightarrow> json) \<Rightarrow> bool" where
  "cjson_laws api view \<longleftrightarrow> accessor_laws api view \<and> constructor_laws api view \<and>
     (\<forall>j. \<exists>r. cj_parse api (cj_print api j) = Some r \<and> view r = view j)"

named_theorems json_view

lemma cjson_view:
  assumes "cjson_laws api view"
  shows "view (cj_object api fs) = JObject (map (\<lambda>(k, j). (k, view j)) fs)"
    "view (cj_array api js) = JArray (map view js)" "view (cj_string api s) = JString s"
    "view (cj_bool api b) = JBool b" "view (cj_number api r) = JNumber r"
  using assms by (simp_all add: cjson_laws_def constructor_laws_def)

lemma cjson_read:
  assumes "cjson_laws api view"
  shows "map_option view (cj_get api j k) = json_get (view j) k" "map view (cj_items api j) = json_items (view j)"
    "cj_valuestring api j = json_string (view j)" "cj_valuedouble api j = json_number (view j)"
    "cj_is_true api j \<longleftrightarrow> view j = JBool True" "cj_is_array api j \<longleftrightarrow> (\<exists>js. view j = JArray js)"
    "cj_is_object api j \<longleftrightarrow> (\<exists>fs. view j = JObject fs)" "cj_is_string api j \<longleftrightarrow> (\<exists>s. view j = JString s)"
    "cj_is_number api j \<longleftrightarrow> (\<exists>r. view j = JNumber r)"
  using assms by (simp_all add: cjson_laws_def accessor_laws_def)

lemma cjson_valueint:
  "cjson_laws api view \<Longrightarrow> \<bar>json_number (view j)\<bar> \<le> 2 ^ 31 - 1 \<Longrightarrow> cj_valueint api j = int_of_double (json_number (view j))"
  by (simp add: cjson_laws_def accessor_laws_def)

lemma cjson_print_parse:
  assumes "cjson_laws api view"
  obtains r where "cj_parse api (cj_print api j) = Some r" "view r = view j"
  using assms unfolding cjson_laws_def by blast

lemma cjson_get_Some:
  assumes "cjson_laws api view" "json_get (view j) k = Some v"
  obtains x where "cj_get api j k = Some x" "view x = v"
  using cjson_read(1) [OF assms(1), of j k] assms(2) by auto

lemma cjson_get_None: "cjson_laws api view \<Longrightarrow> json_get (view j) k = None \<Longrightarrow> cj_get api j k = None"
  using cjson_read(1) [of api view j k] by simp

section \<open>An instance\<close>

text \<open>Trees that are their own text, for the witnesses.\<close>

definition tree_json :: "(json, json) cjson" where
  "tree_json = \<lparr>cj_parse = Some, cj_print = (\<lambda>j. j), cj_get = json_get, cj_is_true = (\<lambda>j. j = JBool True),
     cj_is_array = (\<lambda>j. case j of JArray _ \<Rightarrow> True | _ \<Rightarrow> False),
     cj_is_object = (\<lambda>j. case j of JObject _ \<Rightarrow> True | _ \<Rightarrow> False),
     cj_is_string = (\<lambda>j. case j of JString _ \<Rightarrow> True | _ \<Rightarrow> False),
     cj_is_number = (\<lambda>j. case j of JNumber _ \<Rightarrow> True | _ \<Rightarrow> False),
     cj_items = json_items, cj_valuestring = json_string, cj_valuedouble = json_number,
     cj_valueint = (\<lambda>j. int_of_double (json_number j)),
     cj_object = JObject, cj_array = JArray, cj_string = JString, cj_bool = JBool, cj_number = JNumber\<rparr>"

lemma tree_json_simps [simp]:
  "cj_parse tree_json = Some" "cj_print tree_json = (\<lambda>j. j)" "cj_get tree_json = json_get"
  "cj_is_true tree_json = (\<lambda>j. j = JBool True)"
  "cj_is_array tree_json = (\<lambda>j. case j of JArray _ \<Rightarrow> True | _ \<Rightarrow> False)"
  "cj_is_object tree_json = (\<lambda>j. case j of JObject _ \<Rightarrow> True | _ \<Rightarrow> False)"
  "cj_is_string tree_json = (\<lambda>j. case j of JString _ \<Rightarrow> True | _ \<Rightarrow> False)"
  "cj_is_number tree_json = (\<lambda>j. case j of JNumber _ \<Rightarrow> True | _ \<Rightarrow> False)"
  "cj_items tree_json = json_items" "cj_valuestring tree_json = json_string"
  "cj_valuedouble tree_json = json_number" "cj_valueint tree_json = (\<lambda>j. int_of_double (json_number j))"
  "cj_object tree_json = JObject" "cj_array tree_json = JArray" "cj_string tree_json = JString"
  "cj_bool tree_json = JBool" "cj_number tree_json = JNumber"
  by (simp_all add: tree_json_def)

lemma tree_json_laws: "cjson_laws tree_json (\<lambda>j. j)"
proof -
  have *: "map (\<lambda>(k, j). (k, j)) fs = fs" for fs :: "(cstring \<times> json) list" by (induction fs) auto
  show ?thesis
    unfolding cjson_laws_def accessor_laws_def constructor_laws_def
    by (auto simp: * option.map_ident split: json.splits)
qed

end
