(* ===== verification/Settings.thy ===== *)
theory Settings
  imports Cjson
begin

text \<open>
  Persistent settings of the relay (\<^verbatim>\<open>src/portal/settings.c\<close>): the lists of banned and approved
  identities with their allocated capacities, and loading and saving them as JSON.

  The file is read and written with cJSON, whose calls are a parameter. A write to a list slot beyond
  the allocated capacity, and \<open>strdup\<close> of the null \<open>valuestring\<close> of a node that is not a string,
  have no defined outcome; the operation is then \<open>None\<close>.
\<close>

record str_list =
  sl_items :: "cstring list"
  sl_capacity :: nat

record portillia_settings =
  s_approval_mode :: cstring
  s_landing_page_enabled :: bool
  s_default_bps_limit :: int
  s_udp_enabled :: bool
  s_tcp_port_enabled :: bool
  s_trust_proxy_headers :: bool
  s_banned :: str_list
  s_approved :: str_list
  s_trusted_proxy :: str_list
  s_path :: cstring

section \<open>Growing lists\<close>

definition resize_list :: "str_list \<Rightarrow> nat \<Rightarrow> str_list" where
  "resize_list l n =
     (if length (sl_items l) + n > sl_capacity l then
        let cap = sl_capacity l * 2
        in l\<lparr>sl_capacity := (if length (sl_items l) + n > cap then length (sl_items l) + n else cap)\<rparr>
      else l)"

text \<open>\<open>list[count++] = strdup (s)\<close>\<close>

definition list_push :: "str_list \<Rightarrow> cstring \<Rightarrow> str_list option" where
  "list_push l s =
     (if length (sl_items l) < sl_capacity l then Some (l\<lparr>sl_items := sl_items l @ [s]\<rparr>) else None)"

definition list_add_new :: "str_list \<Rightarrow> cstring \<Rightarrow> str_list option" where
  "list_add_new l s =
     (if list_ex (\<lambda>x. x = s) (sl_items l) then Some l else list_push (resize_list l 1) s)"

definition list_drop_first :: "str_list \<Rightarrow> cstring \<Rightarrow> str_list" where
  "list_drop_first l s =
     (case first_index (\<lambda>x. x = s) (sl_items l) of
        None \<Rightarrow> l
      | Some i \<Rightarrow> l\<lparr>sl_items := swap_remove i (sl_items l)\<rparr>)"

definition portillia_settings_ban_identity :: "portillia_settings \<Rightarrow> cstring \<Rightarrow> portillia_settings option" where
  "portillia_settings_ban_identity s addr = map_option (\<lambda>l. s\<lparr>s_banned := l\<rparr>) (list_add_new (s_banned s) addr)"

definition portillia_settings_unban_identity :: "portillia_settings \<Rightarrow> cstring \<Rightarrow> portillia_settings" where
  "portillia_settings_unban_identity s addr = s\<lparr>s_banned := list_drop_first (s_banned s) addr\<rparr>"

definition portillia_settings_approve_identity :: "portillia_settings \<Rightarrow> cstring \<Rightarrow> portillia_settings option" where
  "portillia_settings_approve_identity s addr = map_option (\<lambda>l. s\<lparr>s_approved := l\<rparr>) (list_add_new (s_approved s) addr)"

section \<open>Loading and saving\<close>

definition initial_list :: str_list where
  "initial_list = \<lparr>sl_items = [], sl_capacity = 8\<rparr>"

definition default_settings :: "cstring \<Rightarrow> portillia_settings" where
  "default_settings path = \<lparr>s_approval_mode = ''auto'', s_landing_page_enabled = True, s_default_bps_limit = 0,
     s_udp_enabled = True, s_tcp_port_enabled = True, s_trust_proxy_headers = False,
     s_banned = initial_list, s_approved = initial_list, s_trusted_proxy = initial_list, s_path = path\<rparr>"

fun push_strings :: "('j, 't) cjson \<Rightarrow> 'j list \<Rightarrow> str_list \<Rightarrow> str_list option" where
  "push_strings api [] l = Some l"
| "push_strings api (item # items) l =
     (case cj_valuestring api item of
        None \<Rightarrow> None
      | Some s \<Rightarrow> (case list_push l s of None \<Rightarrow> None | Some l' \<Rightarrow> push_strings api items l'))"

definition load_list :: "('j, 't) cjson \<Rightarrow> 'j \<Rightarrow> cstring \<Rightarrow> str_list \<Rightarrow> str_list option" where
  "load_list api doc key l =
     (case cj_get api doc key of
        None \<Rightarrow> Some l
      | Some arr \<Rightarrow>
          if cj_is_array api arr
          then push_strings api (cj_items api arr) (resize_list l (length (cj_items api arr)))
          else Some l)"

definition load_bool :: "('j, 't) cjson \<Rightarrow> 'j \<Rightarrow> cstring \<Rightarrow> bool \<Rightarrow> bool" where
  "load_bool api doc key b = (case cj_get api doc key of None \<Rightarrow> b | Some j \<Rightarrow> cj_is_true api j)"

text \<open>\<open>file\<close> is the content of the settings file, \<open>None\<close> when it cannot be opened.\<close>

definition portillia_settings_load ::
  "('j, 't) cjson \<Rightarrow> cstring \<Rightarrow> 't option \<Rightarrow> portillia_settings option" where
  "portillia_settings_load api path file =
     (let s = default_settings path in
      case file of
        None \<Rightarrow> Some s
      | Some data \<Rightarrow>
          (case cj_parse api data of
             None \<Rightarrow> Some s
           | Some doc \<Rightarrow>
               (case (case cj_get api doc ''approval_mode'' of
                        None \<Rightarrow> Some (s_approval_mode s)
                      | Some mode \<Rightarrow> cj_valuestring api mode) of
                  None \<Rightarrow> None
                | Some mode \<Rightarrow>
                    let landing = load_bool api doc ''landing_page_enabled'' (s_landing_page_enabled s);
                        bps = (case cj_get api doc ''default_bps_limit'' of
                                 None \<Rightarrow> s_default_bps_limit s | Some j \<Rightarrow> int_of_double (cj_valuedouble api j));
                        udp = load_bool api doc ''udp_enabled'' (s_udp_enabled s);
                        tcp = load_bool api doc ''tcp_port_enabled'' (s_tcp_port_enabled s);
                        trust = load_bool api doc ''trust_proxy_headers'' (s_trust_proxy_headers s)
                    in case load_list api doc ''banned_identities'' (s_banned s) of
                         None \<Rightarrow> None
                       | Some banned \<Rightarrow>
                           (case load_list api doc ''approved_identities'' (s_approved s) of
                              None \<Rightarrow> None
                            | Some approved \<Rightarrow>
                                (case load_list api doc ''trusted_proxy_cidrs'' (s_trusted_proxy s) of
                                   None \<Rightarrow> None
                                 | Some cidrs \<Rightarrow>
                                     Some (s\<lparr>s_approval_mode := mode, s_landing_page_enabled := landing,
                                       s_default_bps_limit := bps, s_udp_enabled := udp,
                                       s_tcp_port_enabled := tcp, s_trust_proxy_headers := trust,
                                       s_banned := banned, s_approved := approved,
                                       s_trusted_proxy := cidrs\<rparr>))))))"

definition settings_tree :: "('j, 't) cjson \<Rightarrow> portillia_settings \<Rightarrow> (cstring \<times> 'j) list" where
  "settings_tree api s =
     [(''approval_mode'', cj_string api (s_approval_mode s)),
      (''landing_page_enabled'', cj_bool api (s_landing_page_enabled s)),
      (''default_bps_limit'', cj_number api (double_of_int (s_default_bps_limit s))),
      (''udp_enabled'', cj_bool api (s_udp_enabled s)),
      (''tcp_port_enabled'', cj_bool api (s_tcp_port_enabled s)),
      (''trust_proxy_headers'', cj_bool api (s_trust_proxy_headers s)),
      (''banned_identities'', cj_array api (map (cj_string api) (sl_items (s_banned s)))),
      (''approved_identities'', cj_array api (map (cj_string api) (sl_items (s_approved s)))),
      (''trusted_proxy_cidrs'', cj_array api (map (cj_string api) (sl_items (s_trusted_proxy s))))]"

definition portillia_settings_save :: "('j, 't) cjson \<Rightarrow> portillia_settings \<Rightarrow> 't" where
  "portillia_settings_save api s = cj_print api (cj_object api (settings_tree api s))"

section \<open>Identity lists as sets\<close>

definition wf_list :: "str_list \<Rightarrow> bool" where
  "wf_list l \<longleftrightarrow> length (sl_items l) \<le> sl_capacity l"

lemma wf_resize: "wf_list l \<Longrightarrow> wf_list (resize_list l n) \<and> sl_items (resize_list l n) = sl_items l \<and>
    length (sl_items l) + n \<le> sl_capacity (resize_list l n)"
  by (auto simp: wf_list_def resize_list_def Let_def)

lemma list_push_wf: "length (sl_items l) < sl_capacity l \<Longrightarrow>
    list_push l s = Some (l\<lparr>sl_items := sl_items l @ [s]\<rparr>)"
  by (simp add: list_push_def)

lemma list_add_new_wf:
  assumes "wf_list l"
  obtains l' where "list_add_new l s = Some l'" "wf_list l'"
    "sl_items l' = (if s \<in> set (sl_items l) then sl_items l else sl_items l @ [s])"
proof -
  have "list_ex (\<lambda>x. x = s) (sl_items l) \<longleftrightarrow> s \<in> set (sl_items l)" by (auto simp: list_ex_iff)
  moreover have "length (sl_items (resize_list l 1)) < sl_capacity (resize_list l 1)"
    "sl_items (resize_list l 1) = sl_items l"
    using wf_resize [OF assms, of 1] by auto
  ultimately show thesis
    using assms that [of "if s \<in> set (sl_items l) then l else (resize_list l 1)\<lparr>sl_items := sl_items l @ [s]\<rparr>"]
    by (auto simp: list_add_new_def list_push_wf wf_list_def)
qed

lemma set_list_drop_first:
  assumes "distinct (sl_items l)"
  shows "set (sl_items (list_drop_first l s)) = set (sl_items l) - {s}" "distinct (sl_items (list_drop_first l s))"
proof -
  show "set (sl_items (list_drop_first l s)) = set (sl_items l) - {s}"
  proof (cases "first_index (\<lambda>x. x = s) (sl_items l)")
    case None
    moreover from None have "s \<notin> set (sl_items l)" by (auto simp: first_index_None)
    ultimately show ?thesis by (simp add: list_drop_first_def)
  next
    case (Some i)
    then show ?thesis
      using first_index_Some [OF Some] set_swap_remove_distinct [OF _ assms, of i]
      by (simp add: list_drop_first_def)
  qed
  show "distinct (sl_items (list_drop_first l s))"
    using assms first_index_Some [of "\<lambda>x. x = s" "sl_items l"] distinct_swap_remove
    by (auto simp: list_drop_first_def split: option.split)
qed

text \<open>The contract of an operation that adds an identity to one of the lists of the settings.\<close>

locale identity_list =
  fixes items :: "portillia_settings \<Rightarrow> cstring list"
    and add :: "portillia_settings \<Rightarrow> cstring \<Rightarrow> portillia_settings option"
    and invar :: "portillia_settings \<Rightarrow> bool"
  assumes add_invar: "invar s \<Longrightarrow> \<exists>s'. add s a = Some s' \<and> invar s' \<and>
      items s' = (if a \<in> set (items s) then items s else items s @ [a])"
begin

lemma add_set: "invar s \<Longrightarrow> \<exists>s'. add s a = Some s' \<and> invar s' \<and> set (items s') = insert a (set (items s))"
  using add_invar [of s a] by (auto split: if_splits)

lemma add_distinct: "invar s \<Longrightarrow> distinct (items s) \<Longrightarrow> add s a = Some s' \<Longrightarrow> distinct (items s')"
  using add_invar [of s a] by (auto split: if_splits)

lemma add_idem: "invar s \<Longrightarrow> add s a = Some s' \<Longrightarrow> add s' a = Some s'' \<Longrightarrow> items s'' = items s'"
  using add_invar [of s a] add_invar [of s' a] by (auto split: if_splits)

end

definition wf_settings :: "portillia_settings \<Rightarrow> bool" where
  "wf_settings s \<longleftrightarrow> wf_list (s_banned s) \<and> wf_list (s_approved s) \<and> wf_list (s_trusted_proxy s)"

interpretation bans: identity_list "\<lambda>s. sl_items (s_banned s)" portillia_settings_ban_identity wf_settings
proof
  fix s a
  assume "wf_settings s"
  then obtain l where "list_add_new (s_banned s) a = Some l" "wf_list l"
    "sl_items l = (if a \<in> set (sl_items (s_banned s)) then sl_items (s_banned s) else sl_items (s_banned s) @ [a])"
    using list_add_new_wf unfolding wf_settings_def by metis
  then show "\<exists>s'. portillia_settings_ban_identity s a = Some s' \<and> wf_settings s' \<and> sl_items (s_banned s') =
      (if a \<in> set (sl_items (s_banned s)) then sl_items (s_banned s) else sl_items (s_banned s) @ [a])"
    using \<open>wf_settings s\<close> by (auto simp: portillia_settings_ban_identity_def wf_settings_def)
qed

interpretation approvals: identity_list "\<lambda>s. sl_items (s_approved s)" portillia_settings_approve_identity wf_settings
proof
  fix s a
  assume "wf_settings s"
  then obtain l where "list_add_new (s_approved s) a = Some l" "wf_list l"
    "sl_items l = (if a \<in> set (sl_items (s_approved s)) then sl_items (s_approved s) else sl_items (s_approved s) @ [a])"
    using list_add_new_wf unfolding wf_settings_def by metis
  then show "\<exists>s'. portillia_settings_approve_identity s a = Some s' \<and> wf_settings s' \<and> sl_items (s_approved s') =
      (if a \<in> set (sl_items (s_approved s)) then sl_items (s_approved s) else sl_items (s_approved s) @ [a])"
    using \<open>wf_settings s\<close> by (auto simp: portillia_settings_approve_identity_def wf_settings_def)
qed

section \<open>Save and load\<close>

lemma push_strings_ok:
  "map (cj_valuestring api) js = map Some ss \<Longrightarrow> length (sl_items l) + length ss \<le> sl_capacity l \<Longrightarrow>
   push_strings api js l = Some (l\<lparr>sl_items := sl_items l @ ss\<rparr>)"
proof (induction js arbitrary: ss l)
  case (Cons j js)
  then obtain s ss' where "ss = s # ss'" "cj_valuestring api j = Some s" "map (cj_valuestring api) js = map Some ss'"
    by (cases ss) auto
  then show ?case
    using Cons.IH [of ss' "l\<lparr>sl_items := sl_items l @ [s]\<rparr>"] Cons.prems(2) by (simp add: list_push_def)
qed simp

lemma load_list_saved:
  assumes "cjson_laws api view" "json_get (view r) key = Some (JArray (map JString ss))"
  shows "\<exists>l. load_list api r key initial_list = Some l \<and> sl_items l = ss \<and> wf_list l"
proof -
  obtain j' where j': "cj_get api r key = Some j'" "view j' = JArray (map JString ss)"
    by (rule cjson_get_Some [OF assms])
  have items: "cj_is_array api j'" "map view (cj_items api j') = map JString ss"
    using cjson_read(2,6) [OF assms(1), of j'] j'(2) by auto
  have strings: "map (cj_valuestring api) (cj_items api j') = map Some ss"
    using arg_cong [OF items(2), of "map json_string"] by (simp add: comp_def cjson_read(3) [OF assms(1), abs_def])
  then have len: "length (cj_items api j') = length ss" by (metis length_map)
  let ?l = "resize_list initial_list (length ss)"
  have l: "sl_items ?l = []" "length ss \<le> sl_capacity ?l"
    using wf_resize [of initial_list "length ss"] by (auto simp: initial_list_def wf_list_def)
  then show ?thesis
    using push_strings_ok [OF strings, of ?l] j'(1) items(1) len
    by (simp add: load_list_def wf_list_def)
qed

lemma load_bool_saved:
  assumes "cjson_laws api view" "json_get (view r) key = Some (JBool b)"
  shows "load_bool api r key d = b"
proof -
  obtain j' where "cj_get api r key = Some j'" "view j' = JBool b"
    by (rule cjson_get_Some [OF assms])
  then show ?thesis by (simp add: load_bool_def cjson_read(5) [OF assms(1)])
qed

definition same_settings :: "portillia_settings \<Rightarrow> portillia_settings \<Rightarrow> bool" where
  "same_settings s s' \<longleftrightarrow>
     s_approval_mode s' = s_approval_mode s \<and> s_landing_page_enabled s' = s_landing_page_enabled s \<and>
     s_default_bps_limit s' = s_default_bps_limit s \<and> s_udp_enabled s' = s_udp_enabled s \<and>
     s_tcp_port_enabled s' = s_tcp_port_enabled s \<and> s_trust_proxy_headers s' = s_trust_proxy_headers s \<and>
     sl_items (s_banned s') = sl_items (s_banned s) \<and> sl_items (s_approved s') = sl_items (s_approved s) \<and>
     sl_items (s_trusted_proxy s') = sl_items (s_trusted_proxy s)"

lemma settings_saved_loads:
  assumes laws: "cjson_laws api view" and bps: "\<bar>s_default_bps_limit s\<bar> \<le> 2 ^ 53"
  shows "\<exists>s'. portillia_settings_load api path (Some (portillia_settings_save api s)) = Some s' \<and>
    same_settings s s' \<and> wf_settings s' \<and> s_path s' = path"
proof -
  obtain r where r: "cj_parse api (portillia_settings_save api s) = Some r"
    and v: "view r = view (cj_object api (settings_tree api s))"
    unfolding portillia_settings_save_def by (rule cjson_print_parse [OF laws])
  have stored: "json_get (view r) ''approval_mode'' = Some (JString (s_approval_mode s))"
    "json_get (view r) ''landing_page_enabled'' = Some (JBool (s_landing_page_enabled s))"
    "json_get (view r) ''default_bps_limit'' = Some (JNumber (double_of_int (s_default_bps_limit s)))"
    "json_get (view r) ''udp_enabled'' = Some (JBool (s_udp_enabled s))"
    "json_get (view r) ''tcp_port_enabled'' = Some (JBool (s_tcp_port_enabled s))"
    "json_get (view r) ''trust_proxy_headers'' = Some (JBool (s_trust_proxy_headers s))"
    "json_get (view r) ''banned_identities'' = Some (JArray (map JString (sl_items (s_banned s))))"
    "json_get (view r) ''approved_identities'' = Some (JArray (map JString (sl_items (s_approved s))))"
    "json_get (view r) ''trusted_proxy_cidrs'' = Some (JArray (map JString (sl_items (s_trusted_proxy s))))"
    unfolding v
    by (simp_all add: settings_tree_def cjson_view [OF laws] comp_def str_tolower_def char_tolower_def char_code_def)
  obtain mode where mode: "cj_get api r ''approval_mode'' = Some mode" "view mode = JString (s_approval_mode s)"
    by (rule cjson_get_Some [OF laws stored(1)])
  obtain n where n: "cj_get api r ''default_bps_limit'' = Some n" "view n = JNumber (double_of_int (s_default_bps_limit s))"
    by (rule cjson_get_Some [OF laws stored(3)])
  obtain b a c where lists: "load_list api r ''banned_identities'' initial_list = Some b"
      "load_list api r ''approved_identities'' initial_list = Some a"
      "load_list api r ''trusted_proxy_cidrs'' initial_list = Some c"
      "sl_items b = sl_items (s_banned s)" "sl_items a = sl_items (s_approved s)"
      "sl_items c = sl_items (s_trusted_proxy s)" "wf_list b" "wf_list a" "wf_list c"
    using load_list_saved [OF laws stored(7)] load_list_saved [OF laws stored(8)] load_list_saved [OF laws stored(9)]
    by blast
  note read = cjson_read(3,4) [OF laws]
  show ?thesis
    using r mode n lists bps
    by (simp add: portillia_settings_load_def default_settings_def same_settings_def wf_settings_def read
        load_bool_saved [OF laws stored(2)] load_bool_saved [OF laws stored(4)]
        load_bool_saved [OF laws stored(5)] load_bool_saved [OF laws stored(6)])
qed

text \<open>Saving and loading the settings loses nothing: reading back the file that was written gives
  the same policy switches, limits and identity lists, in lists that are large enough, whatever
  their length (for a limit that a double holds exactly).\<close>

theorem settings_roundtrip:
  assumes laws: "cjson_laws api view" and bps: "\<bar>s_default_bps_limit s\<bar> \<le> 2 ^ 53"
  shows "\<exists>s'. portillia_settings_load api path (Some (portillia_settings_save api s)) = Some s' \<and>
    same_settings s s' \<and> wf_settings s' \<and> s_path s' = path"
  using assms by (rule settings_saved_loads)

theorem settings_roundtrip_witness:
  "\<exists>s'. portillia_settings_load tree_json ''p.json'' (Some (portillia_settings_save tree_json
      ((default_settings ''p.json'')\<lparr>s_banned := \<lparr>sl_items = [''0xA'', ''0xB''], sl_capacity = 8\<rparr>\<rparr>))) = Some s' \<and>
    same_settings ((default_settings ''p.json'')\<lparr>s_banned := \<lparr>sl_items = [''0xA'', ''0xB''], sl_capacity = 8\<rparr>\<rparr>) s' \<and>
    wf_settings s' \<and> s_path s' = ''p.json''"
  by (rule settings_roundtrip [OF tree_json_laws]) (simp add: default_settings_def)

end
