(* ===== verification/Task_Queue.thy ===== *)
theory Task_Queue
  imports Portillia_Prelude
begin

text \<open>
  First-in first-out queues: the contract that the queue of ready reverse sessions of a lease and the
  task queue of \<^verbatim>\<open>src/utils/ttak_stubs.c\<close> share, and the task loop itself. Both queues are linked
  lists with a head and a tail pointer under a mutex; a list of nodes models each of them.
\<close>

locale fifo =
  fixes items :: "'q \<Rightarrow> 'a list"
    and room :: "'q \<Rightarrow> bool"
    and push :: "'a \<Rightarrow> 'q \<Rightarrow> 'q"
    and pop :: "'q \<Rightarrow> ('a \<times> 'q) option"
    and invar :: "'q \<Rightarrow> bool"
  assumes push_items: "invar q \<Longrightarrow> room q \<Longrightarrow> items (push x q) = items q @ [x]"
    and push_invar: "invar q \<Longrightarrow> room q \<Longrightarrow> invar (push x q)"
    and pop_none: "invar q \<Longrightarrow> pop q = None \<longleftrightarrow> items q = []"
    and pop_some: "invar q \<Longrightarrow> pop q = Some (x, q') \<Longrightarrow> items q = x # items q' \<and> invar q'"
begin

text \<open>A run of pushes and pops: what came out, in order, and what is still queued make up what went
  in.\<close>

inductive fifo_run :: "'q \<Rightarrow> 'a list \<Rightarrow> 'a list \<Rightarrow> 'q \<Rightarrow> bool" where
  run_done: "fifo_run q [] [] q"
| run_push: "fifo_run q ins outs q' \<Longrightarrow> room q' \<Longrightarrow> fifo_run q (ins @ [x]) outs (push x q')"
| run_pop: "fifo_run q ins outs q' \<Longrightarrow> pop q' = Some (x, q'') \<Longrightarrow> fifo_run q ins (outs @ [x]) q''"

lemma fifo_run_order: "fifo_run q ins outs q' \<Longrightarrow> invar q \<Longrightarrow> invar q' \<and> items q @ ins = outs @ items q'"
proof (induction rule: fifo_run.induct)
  case (run_push q ins outs q' x)
  then show ?case by (simp add: push_items push_invar)
next
  case (run_pop q ins outs q' x q'')
  then show ?case using pop_some [of q' x q''] by simp
qed simp

lemma pop_push_empty:
  assumes "invar q" "room q" "items q = []"
  obtains q' where "pop (push x q) = Some (x, q')" "items q' = []"
proof -
  have i: "items (push x q) = [x]" "invar (push x q)"
    using assms push_items push_invar by auto
  then obtain y q' where y: "pop (push x q) = Some (y, q')"
    using pop_none [of "push x q"] by (cases "pop (push x q)") auto
  then show thesis using pop_some [OF i(2) y] i(1) that by simp
qed

end

section \<open>The task queue\<close>

text \<open>A task is its function (possibly null) and argument; running one may change the program's state
  and schedule more tasks, in order. \<open>task_loop_running\<close> is cleared by a task that stops the loop.\<close>

record 'n task_queue =
  tq_nodes :: "'n list"
  tq_running :: bool

definition ttak_schedule :: "'n \<Rightarrow> 'n task_queue \<Rightarrow> 'n task_queue" where
  "ttak_schedule node q = q\<lparr>tq_nodes := tq_nodes q @ [node]\<rparr>"

definition ttak_take :: "'n task_queue \<Rightarrow> ('n \<times> 'n task_queue) option" where
  "ttak_take q = (case tq_nodes q of [] \<Rightarrow> None | node # rest \<Rightarrow> Some (node, q\<lparr>tq_nodes := rest\<rparr>))"

text \<open>The loop, for at most \<open>fuel\<close> tasks; it stops early when it would wait for a task or has been
  stopped. The last component logs the tasks that ran.\<close>

fun ttak_run ::
  "nat \<Rightarrow> ('n \<Rightarrow> 's \<Rightarrow> 's \<times> 'n list \<times> bool) \<Rightarrow> 's \<Rightarrow> 'n task_queue \<Rightarrow> 's \<times> 'n task_queue \<times> 'n list" where
  "ttak_run 0 func s q = (s, q, [])"
| "ttak_run (Suc fuel) func s q =
     (if \<not> tq_running q then (s, q, [])
      else case ttak_take q of
        None \<Rightarrow> (s, q, [])
      | Some (node, q1) \<Rightarrow>
          (case func node s of (s', scheduled, keep) \<Rightarrow>
             let q2 = fold ttak_schedule scheduled (q1\<lparr>tq_running := keep\<rparr>)
             in case ttak_run fuel func s' q2 of (s'', q3, log) \<Rightarrow> (s'', q3, node # log)))"

interpretation tasks: fifo tq_nodes "\<lambda>_. True" ttak_schedule ttak_take "\<lambda>_. True"
  by unfold_locales (auto simp: ttak_schedule_def ttak_take_def split: list.splits)

lemma fold_schedule [simp]:
  "tq_nodes (fold ttak_schedule ns q) = tq_nodes q @ ns" "tq_running (fold ttak_schedule ns q) = tq_running q"
  by (induction ns arbitrary: q) (auto simp: ttak_schedule_def)

lemma ttak_run_drains:
  assumes "\<forall>node s. snd (func node s) = ([], True)" "tq_running q" "length (tq_nodes q) \<le> fuel"
  shows "\<exists>s' q'. ttak_run fuel func s q = (s', q', tq_nodes q) \<and> tq_nodes q' = []"
  using assms(2,3)
proof (induction fuel arbitrary: s q)
  case (Suc fuel)
  show ?case
  proof (cases "tq_nodes q")
    case (Cons node rest)
    obtain s1 where f: "func node s = (s1, [], True)" using assms(1) by (metis prod.collapse)
    show ?thesis
      using Suc.IH [of "q\<lparr>tq_nodes := rest, tq_running := True\<rparr>" s1] Suc.prems Cons f
      by (auto simp: ttak_take_def)
  qed (use Suc.prems in \<open>simp add: ttak_take_def\<close>)
qed auto

text \<open>The task loop runs the tasks in the order they were scheduled, each exactly once: the tasks
  that have run, followed by those still queued, are a prefix-closed order of arrival. Everything
  queued at the start comes first.\<close>

lemma ttak_run_order:
  "\<exists>later. tq_nodes q @ later = snd (snd (ttak_run fuel func s q)) @ tq_nodes (fst (snd (ttak_run fuel func s q)))"
proof (induction fuel arbitrary: s q)
  case (Suc fuel)
  show ?case
  proof (cases "tq_running q \<and> tq_nodes q \<noteq> []")
    case True
    then obtain node rest where q: "tq_nodes q = node # rest" by (cases "tq_nodes q") auto
    obtain s1 sch keep where f: "func node s = (s1, sch, keep)" by (cases "func node s") auto
    let ?q = "fold ttak_schedule sch (q\<lparr>tq_nodes := rest, tq_running := keep\<rparr>)"
    obtain later where "tq_nodes ?q @ later =
        snd (snd (ttak_run fuel func s1 ?q)) @ tq_nodes (fst (snd (ttak_run fuel func s1 ?q)))"
      using Suc.IH by blast
    then have "tq_nodes q @ sch @ later = snd (snd (ttak_run (Suc fuel) func s q)) @
        tq_nodes (fst (snd (ttak_run (Suc fuel) func s q)))"
      using True q f by (simp add: ttak_take_def Let_def split: prod.split)
    then show ?thesis by blast
  qed (auto simp: ttak_take_def)
qed simp

end
