(* ===== verification/Lease_Registry.thy ===== *)
theory Lease_Registry
  imports Bindings Policy Settings Task_Queue
begin

text \<open>
  The heart of the relay, \<^verbatim>\<open>src/portal/server.c\<close>: the queues of ready reverse sessions, the registry of
  leases and hop routes, its janitor, and the handlers that route an incoming connection.

  The functions of the registry run under its mutex and are single steps. A record is a heap object:
  \<open>lr_addr\<close> is its address, so that a pointer kept across the release of the mutex can be told from
  the record it pointed to. File descriptors are integers; the state records which ones the server
  has closed and which connections it has bridged. \<open>HostnameHashJSON\<close> of the Rust bridge and the
  dialling of the next hop are parameters, as are SHA-256, the random bytes of a binding, the clock
  and the outcome of the system calls. Dereferencing a null stream is \<open>None\<close>.
\<close>

section \<open>State\<close>

record relay_session =
  ss_fd :: int
  ss_ssl :: "nat option"
  ss_created_at :: time_t

record relay_stream =
  rs_ready :: "relay_session list"
  rs_count :: nat
  rs_stop :: bool

record lease_record =
  lr_addr :: nat
  lr_hostname :: "cstring option"
  lr_identity_key :: cstring
  lr_first_seen_at :: time_t
  lr_last_seen_at :: time_t
  lr_expires_at :: time_t
  lr_bps_limit :: int
  lr_stream :: "relay_stream option"
  lr_client_ip :: "cstring option"
  lr_reported_ip :: "cstring option"
  lr_hostname_hash :: "cstring option"
  lr_hop_token :: "cstring option"
  lr_hop_next_overlay_ipv4 :: "cstring option"
  lr_hop_next_token :: "cstring option"

record lease_registry =
  rg_records :: "lease_record list"
  rg_root_hostname :: cstring
  rg_next_addr :: nat

datatype bridge_target =
    To_api int
  | To_hop int
  | To_session relay_session "byte list"

record bridge =
  br_client_fd :: int
  br_target :: bridge_target
  br_bps_limit :: int

record portillia_server =
  sv_registry :: lease_registry
  sv_api_port :: int
  sv_settings :: "portillia_settings option"
  sv_bindings :: portillia_binding_registry
  sv_closed :: "int list"
  sv_bridges :: "bridge list"

section \<open>Ready sessions\<close>

definition READY_LIMIT :: nat where "READY_LIMIT = 8"
definition MAX_RECORDS :: nat where "MAX_RECORDS = 1024"

definition relay_stream_new :: relay_stream where
  "relay_stream_new = \<lparr>rs_ready = [], rs_count = 0, rs_stop = False\<rparr>"

definition stream_push :: "relay_session \<Rightarrow> relay_stream \<Rightarrow> relay_stream" where
  "stream_push sess s = s\<lparr>rs_ready := rs_ready s @ [sess], rs_count := rs_count s + 1\<rparr>"

text \<open>The count it returns, or \<open>-1\<close> with the descriptor closed.\<close>

definition relay_stream_offer ::
  "relay_stream \<Rightarrow> int \<Rightarrow> nat option \<Rightarrow> time_t \<Rightarrow> relay_stream \<times> int \<times> int list" where
  "relay_stream_offer s fd ssl now =
     (if rs_count s \<ge> READY_LIMIT then (s, -1, [fd])
      else let s' = stream_push \<lparr>ss_fd = fd, ss_ssl = ssl, ss_created_at = now\<rparr> s
           in (s', int (rs_count s'), []))"

definition stream_pop :: "relay_stream \<Rightarrow> (relay_session \<times> relay_stream) option" where
  "stream_pop s =
     (if rs_count s = 0 then None
      else case rs_ready s of
        [] \<Rightarrow> None
      | sess # rest \<Rightarrow> Some (sess, s\<lparr>rs_ready := rest, rs_count := rs_count s - 1\<rparr>))"

text \<open>\<open>relay_stream_free\<close>: every queued session is closed.\<close>

definition relay_stream_free :: "relay_stream \<Rightarrow> int list" where
  "relay_stream_free s = map ss_fd (rs_ready s)"

datatype claim_result =
    Claim_failed "int list"
  | Claimed relay_session "byte list"

text \<open>A claim at the moment its wait ends: with an empty queue the wait has timed out. The activation
  frame is the marker \<open>0x02\<close> and the binding; \<open>sent\<close> says whether it went out whole.\<close>

definition relay_stream_claim ::
  "(byte list \<Rightarrow> byte list) \<Rightarrow> relay_stream \<Rightarrow> cstring \<Rightarrow> byte list \<Rightarrow> timespec \<Rightarrow> (byte list \<Rightarrow> bool) \<Rightarrow>
   portillia_binding_registry \<Rightarrow> relay_stream \<times> portillia_binding_registry \<times> claim_result" where
  "relay_stream_claim sha256 s lease_id rand now sent bindings =
     (case stream_pop s of
        None \<Rightarrow> (s, bindings, Claim_failed [])
      | Some (sess, s') \<Rightarrow>
          (case portillia_bindings_issue sha256 bindings (Some lease_id) [] (Some rand) now of
             None \<Rightarrow> (s', bindings, Claim_failed [ss_fd sess])
           | Some (bindings', binding) \<Rightarrow>
               if \<not> sent (2 # binding)
               then (s', portillia_bindings_discard bindings' binding, Claim_failed [ss_fd sess])
               else (s', bindings', Claimed sess binding)))"

section \<open>The registry\<close>

definition lease_registry_new :: "cstring \<Rightarrow> lease_registry" where
  "lease_registry_new root_hostname = \<lparr>rg_records = [], rg_root_hostname = root_hostname, rg_next_addr = 0\<rparr>"

definition lease_registry_is_allowed :: "portillia_settings option \<Rightarrow> cstring \<Rightarrow> bool" where
  "lease_registry_is_allowed settings identity_key =
     (case settings of
        None \<Rightarrow> True
      | Some s \<Rightarrow>
          if list_ex (\<lambda>b. b = identity_key) (sl_items (s_banned s)) then False
          else if s_approval_mode s = ''manual'' then list_ex (\<lambda>a. a = identity_key) (sl_items (s_approved s))
          else True)"

definition or_keep :: "'a option \<Rightarrow> 'a option \<Rightarrow> 'a option" where
  "or_keep new old = (case new of None \<Rightarrow> old | Some x \<Rightarrow> Some x)"

definition refresh_record ::
  "time_t \<Rightarrow> int \<Rightarrow> cstring option \<Rightarrow> cstring option \<Rightarrow> cstring option \<Rightarrow> lease_record \<Rightarrow> lease_record" where
  "refresh_record now bps client_ip reported_ip hostname_hash rec =
     rec\<lparr>lr_expires_at := now + 300, lr_last_seen_at := now, lr_bps_limit := bps,
         lr_client_ip := or_keep client_ip (lr_client_ip rec),
         lr_reported_ip := or_keep reported_ip (lr_reported_ip rec),
         lr_hostname_hash := or_keep hostname_hash (lr_hostname_hash rec)\<rparr>"

definition new_lease ::
  "nat \<Rightarrow> time_t \<Rightarrow> cstring \<Rightarrow> cstring \<Rightarrow> int \<Rightarrow> cstring option \<Rightarrow> cstring option \<Rightarrow> cstring option \<Rightarrow> lease_record" where
  "new_lease addr now hostname identity_key bps client_ip reported_ip hostname_hash =
     \<lparr>lr_addr = addr, lr_hostname = Some hostname, lr_identity_key = identity_key, lr_first_seen_at = now,
      lr_last_seen_at = now, lr_expires_at = now + 300, lr_bps_limit = bps, lr_stream = Some relay_stream_new,
      lr_client_ip = client_ip, lr_reported_ip = reported_ip, lr_hostname_hash = hostname_hash,
      lr_hop_token = None, lr_hop_next_overlay_ipv4 = None, lr_hop_next_token = None\<rparr>"

definition append_record :: "lease_record \<Rightarrow> lease_registry \<Rightarrow> lease_registry" where
  "append_record rec r =
     (if length (rg_records r) < MAX_RECORDS
      then r\<lparr>rg_records := rg_records r @ [rec], rg_next_addr := rg_next_addr r + 1\<rparr> else r)"

definition lease_registry_register ::
  "portillia_settings option \<Rightarrow> lease_registry \<Rightarrow> cstring \<Rightarrow> cstring \<Rightarrow> int \<Rightarrow>
   cstring option \<Rightarrow> cstring option \<Rightarrow> cstring option \<Rightarrow> time_t \<Rightarrow> lease_registry" where
  "lease_registry_register settings r hostname identity_key bps client_ip reported_ip hostname_hash now =
     (if \<not> lease_registry_is_allowed settings identity_key then r
      else case first_index (\<lambda>rec. lr_hostname rec = Some hostname) (rg_records r) of
        Some i \<Rightarrow> r\<lparr>rg_records := (rg_records r)[i := refresh_record now bps client_ip reported_ip hostname_hash
                                                        (rg_records r ! i)]\<rparr>
      | None \<Rightarrow> append_record (new_lease (rg_next_addr r) now hostname identity_key bps client_ip reported_ip
                                 hostname_hash) r)"

definition new_hop :: "nat \<Rightarrow> time_t \<Rightarrow> cstring \<Rightarrow> cstring \<Rightarrow> cstring \<Rightarrow> cstring \<Rightarrow> lease_record" where
  "new_hop addr now hop_token next_ipv4 next_token identity_key =
     \<lparr>lr_addr = addr, lr_hostname = None, lr_identity_key = identity_key, lr_first_seen_at = 0,
      lr_last_seen_at = 0, lr_expires_at = now + 300, lr_bps_limit = 0, lr_stream = None,
      lr_client_ip = None, lr_reported_ip = None, lr_hostname_hash = None, lr_hop_token = Some hop_token,
      lr_hop_next_overlay_ipv4 = Some next_ipv4, lr_hop_next_token = Some next_token\<rparr>"

definition portillia_registry_register_hop ::
  "lease_registry \<Rightarrow> cstring \<Rightarrow> cstring \<Rightarrow> cstring \<Rightarrow> cstring \<Rightarrow> time_t \<Rightarrow> lease_registry" where
  "portillia_registry_register_hop r hop_token next_ipv4 next_token identity_key now =
     (case first_index (\<lambda>rec. lr_hop_token rec = Some hop_token) (rg_records r) of
        Some i \<Rightarrow> r\<lparr>rg_records := (rg_records r)[i := (rg_records r ! i)\<lparr>lr_expires_at := now + 300\<rparr>]\<rparr>
      | None \<Rightarrow> append_record (new_hop (rg_next_addr r) now hop_token next_ipv4 next_token identity_key) r)"

definition portillia_registry_update_bps :: "lease_registry \<Rightarrow> cstring \<Rightarrow> int \<Rightarrow> lease_registry" where
  "portillia_registry_update_bps r identity_key bps =
     (case first_index (\<lambda>rec. lr_identity_key rec = identity_key) (rg_records r) of
        Some i \<Rightarrow> r\<lparr>rg_records := (rg_records r)[i := (rg_records r ! i)\<lparr>lr_bps_limit := bps\<rparr>]\<rparr>
      | None \<Rightarrow> r)"

text \<open>The three passes of a lookup; an expired record is skipped in each of them.\<close>

definition live_match :: "time_t \<Rightarrow> (lease_record \<Rightarrow> bool) \<Rightarrow> lease_registry \<Rightarrow> lease_record option" where
  "live_match now P r = find (\<lambda>rec. P rec \<and> lr_expires_at rec > now) (rg_records r)"

definition lease_registry_lookup ::
  "(cstring \<Rightarrow> cstring option) \<Rightarrow> lease_registry \<Rightarrow> cstring \<Rightarrow> time_t \<Rightarrow> lease_record option" where
  "lease_registry_lookup hostname_hash r hostname now =
     (case live_match now (\<lambda>rec. lr_hostname rec = Some hostname) r of
        Some rec \<Rightarrow> Some rec
      | None \<Rightarrow>
          (case (case hostname_hash hostname of
                   None \<Rightarrow> None
                 | Some h \<Rightarrow> live_match now (\<lambda>rec. lr_hostname_hash rec = Some h) r) of
             Some rec \<Rightarrow> Some rec
           | None \<Rightarrow> live_match now (\<lambda>rec. hostname_matches (lr_hostname rec) (Some hostname)) r))"

definition lease_registry_lookup_hop :: "lease_registry \<Rightarrow> cstring \<Rightarrow> time_t \<Rightarrow> lease_record option" where
  "lease_registry_lookup_hop r token now = live_match now (\<lambda>rec. lr_hop_token rec = Some token) r"

text \<open>One round of the janitor: an expired record is freed and the last one takes its slot, which is
  then looked at again. The second component collects the descriptors that were closed.\<close>

definition free_record :: "lease_record \<Rightarrow> int list" where
  "free_record rec = (case lr_stream rec of None \<Rightarrow> [] | Some s \<Rightarrow> relay_stream_free s)"

function janitor_loop :: "time_t \<Rightarrow> nat \<Rightarrow> lease_record list \<Rightarrow> int list \<Rightarrow> lease_record list \<times> int list" where
  "janitor_loop now i recs shut =
     (if i < length recs then
        if lr_expires_at (recs ! i) \<le> now
        then janitor_loop now i (swap_remove i recs) (shut @ free_record (recs ! i))
        else janitor_loop now (i + 1) recs shut
      else (recs, shut))"
  by auto
termination by (relation "measure (\<lambda>(now, i, recs, shut). length recs - i)") auto

declare janitor_loop.simps [simp del]

definition lease_janitor :: "lease_registry \<Rightarrow> time_t \<Rightarrow> lease_registry \<times> int list" where
  "lease_janitor r now =
     (case janitor_loop now 0 (rg_records r) [] of (recs, shut) \<Rightarrow> (r\<lparr>rg_records := recs\<rparr>, shut))"

section \<open>Routing\<close>

definition portillia_server_setup ::
  "cstring \<Rightarrow> int \<Rightarrow> portillia_settings option \<Rightarrow> portillia_server" where
  "portillia_server_setup root_hostname api_port settings =
     \<lparr>sv_registry = lease_registry_new root_hostname, sv_api_port = api_port, sv_settings = settings,
      sv_bindings = portillia_bindings_new 300, sv_closed = [], sv_bridges = []\<rparr>"

definition close_fds :: "int list \<Rightarrow> portillia_server \<Rightarrow> portillia_server" where
  "close_fds fds srv = srv\<lparr>sv_closed := sv_closed srv @ fds\<rparr>"

definition start_bridge :: "int \<Rightarrow> bridge_target \<Rightarrow> int \<Rightarrow> portillia_server \<Rightarrow> portillia_server" where
  "start_bridge client target bps srv =
     srv\<lparr>sv_bridges := sv_bridges srv @ [\<lparr>br_client_fd = client, br_target = target, br_bps_limit = bps\<rparr>]\<rparr>"

text \<open>The environment of a handler: the clock, the bytes of a new binding, whether the activation frame
  is sent, whether the API listener accepts, and the dialling of the next hop.\<close>

record handler_env =
  he_now :: time_t
  he_clock :: timespec
  he_rand :: "byte list"
  he_sent :: "byte list \<Rightarrow> bool"
  he_api_connects :: bool
  he_api_fd :: int
  he_dial :: "cstring \<Rightarrow> cstring \<Rightarrow> int"

definition set_stream :: "nat \<Rightarrow> relay_stream \<Rightarrow> portillia_server \<Rightarrow> portillia_server" where
  "set_stream addr s srv =
     srv\<lparr>sv_registry := (sv_registry srv)\<lparr>rg_records :=
       map (\<lambda>rec. if lr_addr rec = addr then rec\<lparr>lr_stream := Some s\<rparr> else rec) (rg_records (sv_registry srv))\<rparr>\<rparr>"

text \<open>What both handlers do with the record they found.\<close>

definition route_record ::
  "(byte list \<Rightarrow> byte list) \<Rightarrow> handler_env \<Rightarrow> portillia_server \<Rightarrow> lease_record \<Rightarrow> int \<Rightarrow> portillia_server option" where
  "route_record sha256 env srv rec client_fd =
     (case lr_hop_next_overlay_ipv4 rec of
        Some ipv4 \<Rightarrow>
          let next_fd = he_dial env ipv4 (or_empty (lr_hop_next_token rec))
          in Some (if next_fd \<ge> 0 then start_bridge client_fd (To_hop next_fd) (lr_bps_limit rec) srv
                   else close_fds [client_fd] srv)
      | None \<Rightarrow>
          (case lr_stream rec of
             None \<Rightarrow> None
           | Some s \<Rightarrow>
               (case relay_stream_claim sha256 s (lr_identity_key rec) (he_rand env) (he_clock env) (he_sent env)
                       (sv_bindings srv) of
                  (s', bindings', result) \<Rightarrow>
                    let srv' = (set_stream (lr_addr rec) s' srv)\<lparr>sv_bindings := bindings'\<rparr>
                    in Some (case result of
                         Claimed sess binding \<Rightarrow> start_bridge client_fd (To_session sess binding) (lr_bps_limit rec) srv'
                       | Claim_failed fds \<Rightarrow> close_fds (fds @ [client_fd]) srv'))))"

definition portillia_server_handle_connect ::
  "(byte list \<Rightarrow> byte list) \<Rightarrow> (cstring \<Rightarrow> cstring option) \<Rightarrow> handler_env \<Rightarrow> portillia_server \<Rightarrow> cstring \<Rightarrow> int \<Rightarrow>
   portillia_server option" where
  "portillia_server_handle_connect sha256 hostname_hash env srv hostname client_fd =
     (if hostname = rg_root_hostname (sv_registry srv) then
        Some (if he_api_connects env then start_bridge client_fd (To_api (he_api_fd env)) 0 srv
              else close_fds [he_api_fd env, client_fd] srv)
      else case lease_registry_lookup hostname_hash (sv_registry srv) hostname (he_now env) of
        Some rec \<Rightarrow> route_record sha256 env srv rec client_fd
      | None \<Rightarrow> Some (close_fds [client_fd] srv))"

definition portillia_server_handle_hop_stream ::
  "(byte list \<Rightarrow> byte list) \<Rightarrow> handler_env \<Rightarrow> portillia_server \<Rightarrow> cstring \<Rightarrow> int \<Rightarrow> portillia_server option" where
  "portillia_server_handle_hop_stream sha256 env srv token hop_fd =
     (case lease_registry_lookup_hop (sv_registry srv) token (he_now env) of
        Some rec \<Rightarrow> route_record sha256 env srv rec hop_fd
      | None \<Rightarrow> Some (close_fds [hop_fd] srv))"

text \<open>\<open>header\<close> and \<open>body\<close> are what the two reads return.\<close>

definition portillia_server_handle_hop ::
  "(byte list \<Rightarrow> byte list) \<Rightarrow> handler_env \<Rightarrow> portillia_server \<Rightarrow> byte list \<Rightarrow> (nat \<Rightarrow> byte list) \<Rightarrow> int \<Rightarrow>
   portillia_server option" where
  "portillia_server_handle_hop sha256 env srv header body hop_fd =
     (if length header \<noteq> 4 then Some (close_fds [hop_fd] srv)
      else let len = foldl (\<lambda>n b. n * 256 + unat b) 0 header
           in if len = 0 \<or> len > 256 then Some (close_fds [hop_fd] srv)
              else let token = body len
                   in if length token \<noteq> len then Some (close_fds [hop_fd] srv)
                      else portillia_server_handle_hop_stream sha256 env srv (bytes_to_cstring token) hop_fd)"

definition touch_record :: "nat \<Rightarrow> time_t \<Rightarrow> portillia_server \<Rightarrow> portillia_server" where
  "touch_record addr now srv =
     srv\<lparr>sv_registry := (sv_registry srv)\<lparr>rg_records :=
       map (\<lambda>rec. if lr_addr rec = addr then rec\<lparr>lr_last_seen_at := now\<rparr> else rec) (rg_records (sv_registry srv))\<rparr>\<rparr>"

definition portillia_registry_offer_ssl_conn ::
  "(cstring \<Rightarrow> cstring option) \<Rightarrow> time_t \<Rightarrow> portillia_server \<Rightarrow> cstring \<Rightarrow> int \<Rightarrow> nat option \<Rightarrow>
   (portillia_server \<times> int) option" where
  "portillia_registry_offer_ssl_conn hostname_hash now srv hostname sdk_fd sdk_ssl =
     (case lease_registry_lookup hostname_hash (sv_registry srv) hostname now of
        None \<Rightarrow> Some (close_fds [sdk_fd] srv, -1)
      | Some rec \<Rightarrow>
          (case lr_stream rec of
             None \<Rightarrow> None
           | Some s \<Rightarrow>
               (case relay_stream_offer s sdk_fd sdk_ssl now of (s', ready, shut) \<Rightarrow>
                  Some (close_fds shut (set_stream (lr_addr rec) s' (touch_record (lr_addr rec) now srv)), ready))))"

definition portillia_registry_offer_conn ::
  "(cstring \<Rightarrow> cstring option) \<Rightarrow> time_t \<Rightarrow> portillia_server \<Rightarrow> cstring \<Rightarrow> int \<Rightarrow> (portillia_server \<times> int) option" where
  "portillia_registry_offer_conn hostname_hash now srv hostname sdk_fd =
     portillia_registry_offer_ssl_conn hostname_hash now srv hostname sdk_fd None"

text \<open>Whether the lease exists, its hostname as far as it fits, and whether a session is ready.\<close>

definition portillia_registry_tunnel_status ::
  "(cstring \<Rightarrow> cstring option) \<Rightarrow> time_t \<Rightarrow> portillia_server \<Rightarrow> cstring option \<Rightarrow> nat \<Rightarrow> bool \<times> cstring \<times> bool" where
  "portillia_registry_tunnel_status hostname_hash now srv hostname_ptr buf_len =
     (case hostname_ptr of
        None \<Rightarrow> (False, [], False)
      | Some hostname \<Rightarrow>
          (case lease_registry_lookup hostname_hash (sv_registry srv) hostname now of
             None \<Rightarrow> (False, [], False)
           | Some rec \<Rightarrow>
               (case lr_hostname rec of
                  None \<Rightarrow> (False, [], False)
                | Some h \<Rightarrow> (True, take (buf_len - 1) h,
                             (case lr_stream rec of None \<Rightarrow> False | Some s \<Rightarrow> rs_count s > 0)))))"

definition server_janitor :: "time_t \<Rightarrow> portillia_server \<Rightarrow> portillia_server" where
  "server_janitor now srv =
     (case lease_janitor (sv_registry srv) now of (r, shut) \<Rightarrow> close_fds shut (srv\<lparr>sv_registry := r\<rparr>))"

definition server_register ::
  "cstring \<Rightarrow> cstring \<Rightarrow> int \<Rightarrow> cstring option \<Rightarrow> cstring option \<Rightarrow> cstring option \<Rightarrow> time_t \<Rightarrow>
   portillia_server \<Rightarrow> portillia_server" where
  "server_register hostname identity_key bps client_ip reported_ip hostname_hash now srv =
     srv\<lparr>sv_registry := lease_registry_register (sv_settings srv) (sv_registry srv) hostname identity_key bps
            client_ip reported_ip hostname_hash now\<rparr>"

section \<open>The queue of ready sessions\<close>

definition wf_stream :: "relay_stream \<Rightarrow> bool" where
  "wf_stream s \<longleftrightarrow> rs_count s = length (rs_ready s) \<and> rs_count s \<le> READY_LIMIT"

interpretation sessions: fifo rs_ready "\<lambda>s. rs_count s < READY_LIMIT" stream_push stream_pop wf_stream
  by unfold_locales (auto simp: wf_stream_def stream_push_def stream_pop_def split: list.splits if_splits)

lemma wf_stream_new [simp]: "wf_stream relay_stream_new"
  by (simp add: wf_stream_def relay_stream_new_def)

lemma offer_cases:
  assumes "wf_stream s" "relay_stream_offer s fd ssl now = (s', ready, shut)"
  shows "wf_stream s' \<and> mset (relay_stream_free s') + mset shut = mset (relay_stream_free s) + {#fd#}"
  using assms
  by (auto simp: relay_stream_offer_def relay_stream_free_def stream_push_def wf_stream_def Let_def split: if_splits)

lemma claim_cases:
  assumes "wf_stream s" "relay_stream_claim sha256 s lease rand now sent bindings = (s', bindings', result)"
  shows "wf_stream s' \<and> mset (relay_stream_free s) = mset (relay_stream_free s') +
    (case result of Claim_failed fds \<Rightarrow> mset fds | Claimed sess b \<Rightarrow> {#ss_fd sess#})"
proof (cases "stream_pop s")
  case (Some p)
  obtain sess s1 where p: "p = (sess, s1)" by (cases p)
  then have "rs_ready s = sess # rs_ready s1" "wf_stream s1"
    using sessions.pop_some [OF assms(1), of sess s1] Some by auto
  then show ?thesis
    using assms(2) Some p
    by (auto simp: relay_stream_claim_def relay_stream_free_def portillia_bindings_issue_def split: if_splits)
qed (use assms in \<open>auto simp: relay_stream_claim_def\<close>)

section \<open>The janitor\<close>

definition unexpired :: "time_t \<Rightarrow> lease_record \<Rightarrow> bool" where
  "unexpired now rec \<longleftrightarrow> lr_expires_at rec > now"

lemma janitor_loop_mset:
  assumes "i \<le> length recs" "\<forall>j < i. unexpired now (recs ! j)"
  shows "mset (fst (janitor_loop now i recs shut)) = filter_mset (unexpired now) (mset recs) \<and>
    mset (snd (janitor_loop now i recs shut)) =
      mset shut + (\<Sum>rec \<in># filter_mset (\<lambda>rec. \<not> unexpired now rec) (mset recs). mset (free_record rec))"
  using assms
proof (induction now i recs shut rule: janitor_loop.induct)
  case (1 now i recs shut)
  show ?case
  proof (cases "i < length recs")
    case False
    then have "\<forall>rec \<in> set recs. unexpired now rec" using 1(3,4) by (auto simp: in_set_conv_nth)
    then have "filter_mset (unexpired now) (mset recs) = mset recs"
      "filter_mset (\<lambda>rec. \<not> unexpired now rec) (mset recs) = {#}"
      by (simp_all flip: mset_filter)
    then show ?thesis using False by (subst (1 2) janitor_loop.simps) (simp only: if_False fst_conv snd_conv, simp)
  next
    case i: True
    show ?thesis
    proof (cases "lr_expires_at (recs ! i) \<le> now")
      case False
      then have "\<forall>j < i + 1. unexpired now (recs ! j)"
        using 1(4) by (auto simp: less_Suc_eq unexpired_def)
      then show ?thesis
        using 1(2) [OF i False] i False by (subst (1 2) janitor_loop.simps) simp
    next
      case True
      have "\<forall>j < i. unexpired now (swap_remove i recs ! j)"
        using 1(4) i by (simp add: nth_swap_remove)
      moreover have "mset recs = add_mset (recs ! i) (mset (swap_remove i recs))"
        using mset_eq_Cons_swap_remove [OF i] by simp
      moreover have "\<not> unexpired now (recs ! i)" using True by (simp add: unexpired_def)
      ultimately show ?thesis
        using 1(1) [OF i True] i True by (subst (1 2) janitor_loop.simps) simp
    qed
  qed
qed

lemma janitor_mset:
  "mset (rg_records (fst (lease_janitor r now))) = filter_mset (unexpired now) (mset (rg_records r))"
  "mset (snd (lease_janitor r now)) =
     (\<Sum>rec \<in># filter_mset (\<lambda>rec. \<not> unexpired now rec) (mset (rg_records r)). mset (free_record rec))"
  using janitor_loop_mset [of 0 "rg_records r" now "[]"]
  by (simp_all add: lease_janitor_def case_prod_beta)

lemma janitor_other [simp]:
  "rg_next_addr (fst (lease_janitor r now)) = rg_next_addr r"
  "rg_root_hostname (fst (lease_janitor r now)) = rg_root_hostname r"
  by (simp_all add: lease_janitor_def split: prod.split)

section \<open>The invariant of the registry\<close>

definition somes :: "'a option list \<Rightarrow> 'a list" where
  "somes xs = map the (filter (\<lambda>x. x \<noteq> None) xs)"

lemma somes_append [simp]: "somes (xs @ ys) = somes xs @ somes ys"
  by (simp add: somes_def)

lemma somes_simps [simp]: "somes [] = []" "somes (None # xs) = somes xs" "somes (Some x # xs) = x # somes xs"
  by (simp_all add: somes_def)

lemma mset_somes: "mset (somes xs) = image_mset the (filter_mset (\<lambda>x. x \<noteq> None) (mset xs))"
  by (simp add: somes_def mset_filter)

lemma in_set_somes [simp]: "x \<in> set (somes xs) \<longleftrightarrow> Some x \<in> set xs"
  by (force simp: somes_def image_iff)

definition wf_record :: "lease_record \<Rightarrow> bool" where
  "wf_record rec \<longleftrightarrow>
     (lr_hostname rec \<noteq> None \<or> lr_hostname_hash rec \<noteq> None \<longrightarrow> lr_stream rec \<noteq> None) \<and>
     (lr_stream rec = None \<longrightarrow> lr_hop_next_overlay_ipv4 rec \<noteq> None) \<and>
     (\<forall>s. lr_stream rec = Some s \<longrightarrow> wf_stream s)"

definition records_inv :: "lease_record list \<Rightarrow> nat \<Rightarrow> bool" where
  "records_inv recs next_addr \<longleftrightarrow>
     length recs \<le> MAX_RECORDS \<and> distinct (map lr_addr recs) \<and>
     list_all (\<lambda>rec. lr_addr rec < next_addr \<and> wf_record rec) recs \<and>
     distinct (somes (map lr_hostname recs)) \<and> distinct (somes (map lr_hop_token recs))"

definition registry_inv :: "lease_registry \<Rightarrow> bool" where
  "registry_inv r \<longleftrightarrow> records_inv (rg_records r) (rg_next_addr r)"

definition same_keys :: "lease_record \<Rightarrow> lease_record \<Rightarrow> bool" where
  "same_keys rec rec' \<longleftrightarrow> lr_addr rec' = lr_addr rec \<and> lr_hostname rec' = lr_hostname rec \<and>
     lr_hop_token rec' = lr_hop_token rec"

lemma records_inv_map:
  assumes "records_inv recs n" "\<And>rec. rec \<in> set recs \<Longrightarrow> same_keys rec (g rec) \<and> wf_record (g rec)"
  shows "records_inv (map g recs) n"
proof -
  have "map lr_addr (map g recs) = map lr_addr recs" "map lr_hostname (map g recs) = map lr_hostname recs"
    "map lr_hop_token (map g recs) = map lr_hop_token recs"
    using assms(2) by (auto simp: same_keys_def)
  moreover have "list_all (\<lambda>rec. lr_addr rec < n \<and> wf_record rec) (map g recs)"
    using assms by (auto simp: records_inv_def list_all_iff same_keys_def)
  ultimately show ?thesis using assms(1) unfolding records_inv_def by (metis length_map)
qed

lemma records_inv_update:
  assumes "records_inv recs n" "i < length recs" "same_keys (recs ! i) rec" "wf_record rec"
  shows "records_inv (recs[i := rec]) n"
proof -
  have "map lr_addr (recs[i := rec]) = map lr_addr recs" "map lr_hostname (recs[i := rec]) = map lr_hostname recs"
    "map lr_hop_token (recs[i := rec]) = map lr_hop_token recs"
    using assms(2,3) by (auto simp: same_keys_def map_update intro: list_update_same_conv [THEN iffD2])
  moreover have "list_all (\<lambda>rec. lr_addr rec < n \<and> wf_record rec) (recs[i := rec])"
    using assms by (auto simp: records_inv_def list_all_iff same_keys_def dest!: set_update_subset_insert [THEN subsetD])
  ultimately show ?thesis using assms(1) unfolding records_inv_def by (metis length_list_update)
qed

lemma records_inv_append:
  assumes "records_inv recs n" "length recs < MAX_RECORDS" "lr_addr rec = n" "wf_record rec"
    and "\<And>h. lr_hostname rec = Some h \<Longrightarrow> Some h \<notin> set (map lr_hostname recs)"
    and "\<And>t. lr_hop_token rec = Some t \<Longrightarrow> Some t \<notin> set (map lr_hop_token recs)"
  shows "records_inv (recs @ [rec]) (n + 1)"
proof -
  have "n \<notin> set (map lr_addr recs)" using assms(1) by (auto simp: records_inv_def list_all_iff)
  moreover have "distinct (somes (map lr_hostname (recs @ [rec])))" "distinct (somes (map lr_hop_token (recs @ [rec])))"
    using assms(1,5,6) by (cases "lr_hostname rec"; cases "lr_hop_token rec"; simp add: records_inv_def)+
  ultimately show ?thesis
    using assms(1-4) by (auto simp: records_inv_def list_all_iff)
qed

lemma distinct_mset_sub: "mset ys \<subseteq># mset xs \<Longrightarrow> distinct xs \<Longrightarrow> distinct ys"
proof -
  assume sub: "mset ys \<subseteq># mset xs" and "distinct xs"
  then have "count (mset ys) a \<le> 1" for a
    using mset_subset_eq_count [OF sub, of a] by (metis distinct_count_atmost_1 le_trans le_numeral_extra(4) zero_le)
  then have "count (mset ys) a = (if a \<in> set ys then 1 else 0)" for a
    by (metis count_eq_zero_iff le_neq_implies_less less_one set_mset_mset)
  then show "distinct ys" by (simp add: distinct_count_atmost_1)
qed

lemma records_inv_subset:
  assumes "records_inv recs n" "mset recs' \<subseteq># mset recs"
  shows "records_inv recs' n"
proof -
  have "length recs' \<le> length recs" using size_mset_mono [OF assms(2)] by simp
  moreover have "set recs' \<subseteq> set recs" using set_mset_mono [OF assms(2)] by simp
  moreover have "distinct (map lr_addr recs')"
    by (rule distinct_mset_sub [of _ "map lr_addr recs"])
      (use assms in \<open>simp_all add: records_inv_def image_mset_subseteq_mono\<close>)
  moreover have "distinct (somes (map f recs'))" if "distinct (somes (map f recs))" for f :: "lease_record \<Rightarrow> cstring option"
    by (rule distinct_mset_sub [of _ "somes (map f recs)"])
      (use that assms(2) in \<open>simp_all add: mset_somes image_mset_subseteq_mono multiset_filter_mono\<close>)
  ultimately show ?thesis
    using assms(1) by (auto simp: records_inv_def list_all_iff)
qed

lemma registry_inv_new [simp]: "registry_inv (lease_registry_new host)"
  by (simp add: registry_inv_def records_inv_def lease_registry_new_def)

lemma records_inv_nth:
  "records_inv recs n \<Longrightarrow> i < length recs \<Longrightarrow> wf_record (recs ! i)"
  by (simp add: records_inv_def list_all_length)

lemma first_index_None_key: "first_index (\<lambda>rec. f rec = k) recs = None \<Longrightarrow> k \<notin> set (map f recs)"
  by (auto simp: first_index_None)

lemma registry_inv_append_record:
  assumes "registry_inv r" "lr_addr rec = rg_next_addr r" "wf_record rec"
    and "\<And>h. lr_hostname rec = Some h \<Longrightarrow> Some h \<notin> set (map lr_hostname (rg_records r))"
    and "\<And>t. lr_hop_token rec = Some t \<Longrightarrow> Some t \<notin> set (map lr_hop_token (rg_records r))"
  shows "registry_inv (append_record rec r)"
  using assms records_inv_append [of "rg_records r" "rg_next_addr r" rec]
  by (simp add: append_record_def registry_inv_def)

lemma registry_inv_register:
  assumes "registry_inv r"
  shows "registry_inv (lease_registry_register settings r hostname key bps ip rip hash now)"
proof (cases "first_index (\<lambda>rec. lr_hostname rec = Some hostname) (rg_records r)")
  case None
  have "registry_inv (append_record (new_lease (rg_next_addr r) now hostname key bps ip rip hash) r)"
    using assms first_index_None_key [OF None]
    by (intro registry_inv_append_record) (auto simp: new_lease_def wf_record_def)
  then show ?thesis using assms None by (simp add: lease_registry_register_def)
next
  case (Some i)
  note i = first_index_Some [OF Some]
  have "wf_record (refresh_record now bps ip rip hash (rg_records r ! i))"
    using records_inv_nth [of "rg_records r"] assms i
    by (auto simp: registry_inv_def wf_record_def refresh_record_def)
  then show ?thesis
    using assms Some i records_inv_update [of "rg_records r" "rg_next_addr r" i]
    by (simp add: lease_registry_register_def registry_inv_def same_keys_def refresh_record_def)
qed

lemma registry_inv_register_hop:
  assumes "registry_inv r"
  shows "registry_inv (portillia_registry_register_hop r token ipv4 next_token key now)"
proof (cases "first_index (\<lambda>rec. lr_hop_token rec = Some token) (rg_records r)")
  case None
  have "registry_inv (append_record (new_hop (rg_next_addr r) now token ipv4 next_token key) r)"
    using assms first_index_None_key [OF None]
    by (intro registry_inv_append_record) (auto simp: new_hop_def wf_record_def)
  then show ?thesis using None by (simp add: portillia_registry_register_hop_def)
next
  case (Some i)
  note i = first_index_Some [OF Some]
  have "wf_record ((rg_records r ! i)\<lparr>lr_expires_at := now + 300\<rparr>)"
    using records_inv_nth [of "rg_records r"] assms i by (auto simp: registry_inv_def wf_record_def)
  then show ?thesis
    using assms Some i records_inv_update [of "rg_records r" "rg_next_addr r" i]
    by (simp add: portillia_registry_register_hop_def registry_inv_def same_keys_def)
qed

lemma registry_inv_update_bps:
  assumes "registry_inv r"
  shows "registry_inv (portillia_registry_update_bps r key bps)"
proof (cases "first_index (\<lambda>rec. lr_identity_key rec = key) (rg_records r)")
  case (Some i)
  note i = first_index_Some [OF Some]
  have "wf_record ((rg_records r ! i)\<lparr>lr_bps_limit := bps\<rparr>)"
    using records_inv_nth [of "rg_records r"] assms i by (auto simp: registry_inv_def wf_record_def)
  then show ?thesis
    using assms Some i records_inv_update [of "rg_records r" "rg_next_addr r" i]
    by (simp add: portillia_registry_update_bps_def registry_inv_def same_keys_def)
qed (use assms in \<open>simp add: portillia_registry_update_bps_def\<close>)

lemma registry_inv_janitor: "registry_inv r \<Longrightarrow> registry_inv (fst (lease_janitor r now))"
  using records_inv_subset [of "rg_records r" "rg_next_addr r" "rg_records (fst (lease_janitor r now))"]
  by (simp add: registry_inv_def janitor_mset multiset_filter_subset)

section \<open>Lookups\<close>

lemma live_match_Some:
  "live_match now P r = Some rec \<Longrightarrow> rec \<in> set (rg_records r) \<and> P rec \<and> unexpired now rec"
  by (auto simp: live_match_def find_Some_iff unexpired_def)

lemma live_match_None:
  "live_match now P r = None \<longleftrightarrow> (\<forall>rec \<in> set (rg_records r). unexpired now rec \<longrightarrow> \<not> P rec)"
  by (auto simp: live_match_def find_None_iff unexpired_def)

lemma lookup_Some:
  assumes "lease_registry_lookup hash r hostname now = Some rec"
  shows "rec \<in> set (rg_records r) \<and> unexpired now rec \<and>
    (lr_hostname rec = Some hostname \<or> hash hostname \<noteq> None \<and> lr_hostname_hash rec = hash hostname \<or>
     hostname_matches (lr_hostname rec) (Some hostname))"
  using assms
  by (auto simp: lease_registry_lookup_def split: option.splits dest!: live_match_Some)

lemma lookup_None:
  "lease_registry_lookup hash r hostname now = None \<longleftrightarrow>
   (\<forall>rec \<in> set (rg_records r). unexpired now rec \<longrightarrow>
      lr_hostname rec \<noteq> Some hostname \<and> (hash hostname = None \<or> lr_hostname_hash rec \<noteq> hash hostname) \<and>
      \<not> hostname_matches (lr_hostname rec) (Some hostname))"
  by (auto simp: lease_registry_lookup_def live_match_None split: option.splits dest!: live_match_Some)

lemma unique_hostname:
  assumes "registry_inv r" "rec \<in> set (rg_records r)" "rec' \<in> set (rg_records r)"
    "lr_hostname rec = Some h" "lr_hostname rec' = Some h"
  shows "rec = rec'"
proof (rule ccontr)
  assume "rec \<noteq> rec'"
  obtain pre post where split: "rg_records r = pre @ rec # post" using assms(2) split_list by fast
  then have "rec' \<in> set pre \<or> rec' \<in> set post" using assms(3) \<open>rec \<noteq> rec'\<close> by auto
  then have "Some h \<in> set (map lr_hostname pre) \<or> Some h \<in> set (map lr_hostname post)"
    using assms(5) by (metis image_eqI image_set)
  then show False
    using assms(1,4) split by (auto simp: registry_inv_def records_inv_def)
qed

lemma lookup_has_stream:
  assumes "registry_inv r" "lease_registry_lookup hash r hostname now = Some rec"
  shows "\<exists>s. lr_stream rec = Some s \<and> wf_stream s"
proof -
  have "lr_hostname rec \<noteq> None \<or> lr_hostname_hash rec \<noteq> None"
    using lookup_Some [OF assms(2)] by (auto simp: hostname_matches_def split: option.splits)
  moreover have "wf_record rec"
    using lookup_Some [OF assms(2)] assms(1) by (auto simp: registry_inv_def records_inv_def list_all_iff)
  ultimately show ?thesis by (auto simp: wf_record_def)
qed

lemma lookup_exact:
  assumes "registry_inv r" "rec \<in> set (rg_records r)" "lr_hostname rec = Some hostname" "unexpired now rec"
  shows "lease_registry_lookup hash r hostname now = Some rec"
proof -
  obtain rec' where rec': "live_match now (\<lambda>rec. lr_hostname rec = Some hostname) r = Some rec'"
    using assms(2-4) by (cases "live_match now (\<lambda>rec. lr_hostname rec = Some hostname) r") (auto simp: live_match_None)
  then have "rec' = rec"
    using unique_hostname [OF assms(1), of rec' rec hostname] live_match_Some [OF rec'] assms(2,3) by simp
  with rec' show ?thesis by (simp add: lease_registry_lookup_def)
qed

text \<open>Routing by hostname is exact before hashed before wildcard, and never to a dead lease: a
  lookup that finds a record returns an unexpired one for that name, and when some unexpired
  lease has exactly the hostname, the lookup returns that lease.\<close>

theorem lookup_correct:
  assumes "registry_inv r"
  shows "(\<forall>rec. lease_registry_lookup hash r hostname now = Some rec \<longrightarrow>
      rec \<in> set (rg_records r) \<and> unexpired now rec \<and>
      (lr_hostname rec = Some hostname \<or> hash hostname \<noteq> None \<and> lr_hostname_hash rec = hash hostname \<or>
       hostname_matches (lr_hostname rec) (Some hostname))) \<and>
    (\<forall>rec \<in> set (rg_records r). lr_hostname rec = Some hostname \<and> unexpired now rec \<longrightarrow>
      lease_registry_lookup hash r hostname now = Some rec)"
  using lookup_Some lookup_exact [OF assms] by blast

definition sample_registry :: lease_registry where
  "sample_registry =
     lease_registry_register None (lease_registry_register None (lease_registry_new ''relay.example'')
        ''*.relay.example'' ''0xA'' 0 None None None 1000) ''demo.relay.example'' ''0xB'' 0 None None None 1000"

lemma sample_registry_inv: "registry_inv sample_registry"
  unfolding sample_registry_def by (intro registry_inv_register registry_inv_new)

theorem lookup_correct_witness:
  "\<exists>rec. lease_registry_lookup (\<lambda>_. None) sample_registry ''demo.relay.example'' 1200 = Some rec \<and>
     lr_identity_key rec = ''0xB''"
proof -
  have "\<exists>rec \<in> set (rg_records sample_registry).
      (lr_hostname rec = Some ''demo.relay.example'' \<and> unexpired 1200 rec) \<and> lr_identity_key rec = ''0xB''"
    by (simp add: sample_registry_def lease_registry_register_def lease_registry_is_allowed_def
        lease_registry_new_def append_record_def new_lease_def MAX_RECORDS_def unexpired_def)
  then show ?thesis using lookup_correct [OF sample_registry_inv, of "\<lambda>_. None" "''demo.relay.example''" 1200] by blast
qed

section \<open>Descriptors\<close>

fun target_fd :: "bridge_target \<Rightarrow> int" where
  "target_fd (To_api fd) = fd"
| "target_fd (To_hop fd) = fd"
| "target_fd (To_session sess _) = ss_fd sess"

text \<open>Where the descriptors handed to the server are: queued as ready sessions, closed, or owned by a
  bridge.\<close>

definition ready_fds :: "lease_record list \<Rightarrow> int multiset" where
  "ready_fds recs = (\<Sum>rec \<in># mset recs. mset (free_record rec))"

definition held_fds :: "portillia_server \<Rightarrow> int multiset" where
  "held_fds srv = ready_fds (rg_records (sv_registry srv)) + (mset (sv_closed srv) +
     mset (map br_client_fd (sv_bridges srv)) + mset (map (target_fd \<circ> br_target) (sv_bridges srv)))"

text \<open>Balances of multisets.\<close>

lemma mset_balance_frame:
  fixes a :: "'a multiset"
  shows "a' + f = a + f' \<Longrightarrow> (a' + k) + f = (a + k) + f'"
  by (metis add.assoc add.commute)

lemma mset_balance_out:
  fixes x :: "'a multiset"
  assumes "x + f = y + f'" "f = f' + d"
  shows "x + d = y"
proof -
  have "f' + (x + d) = f' + y" using assms by (simp add: ac_simps)
  then show ?thesis by simp
qed

lemma mset_balance_in:
  fixes x :: "'a multiset"
  assumes "x + f = y + f'" "f' + c = f + d"
  shows "x + c = y + d"
proof -
  have "f + (x + c) = (x + f) + c" by (simp add: ac_simps)
  also have "\<dots> = y + (f' + c)" using assms(1) by (simp add: ac_simps)
  finally have "f + (x + c) = f + (y + d)" using assms(2) by (simp add: ac_simps)
  then show ?thesis by simp
qed

lemma ready_fds_simps [simp]:
  "ready_fds [] = {#}" "ready_fds (rec # recs) = mset (free_record rec) + ready_fds recs"
  "ready_fds (xs @ ys) = ready_fds xs + ready_fds ys"
  by (simp_all add: ready_fds_def)

lemma ready_fds_update:
  "i < length recs \<Longrightarrow> free_record rec = free_record (recs ! i) \<Longrightarrow> ready_fds (recs[i := rec]) = ready_fds recs"
  by (induction recs arbitrary: i) (auto split: nat.splits)

lemma ready_fds_map: "(\<And>rec. rec \<in> set recs \<Longrightarrow> free_record (g rec) = free_record rec) \<Longrightarrow> ready_fds (map g recs) = ready_fds recs"
  by (induction recs) auto

lemma ready_fds_register:
  "ready_fds (rg_records (lease_registry_register settings r hostname key bps ip rip hash now)) = ready_fds (rg_records r)"
proof (cases "first_index (\<lambda>rec. lr_hostname rec = Some hostname) (rg_records r)")
  case (Some i)
  then show ?thesis
    using first_index_Some [OF Some]
    by (simp add: lease_registry_register_def ready_fds_update free_record_def refresh_record_def)
qed (simp add: lease_registry_register_def append_record_def free_record_def new_lease_def relay_stream_new_def
      relay_stream_free_def)

lemma ready_fds_register_hop:
  "ready_fds (rg_records (portillia_registry_register_hop r token ipv4 next_token key now)) = ready_fds (rg_records r)"
proof (cases "first_index (\<lambda>rec. lr_hop_token rec = Some token) (rg_records r)")
  case (Some i)
  then show ?thesis
    using first_index_Some [OF Some] by (simp add: portillia_registry_register_hop_def ready_fds_update free_record_def)
qed (simp add: portillia_registry_register_hop_def append_record_def free_record_def new_hop_def)

lemma ready_fds_update_bps:
  "ready_fds (rg_records (portillia_registry_update_bps r key bps)) = ready_fds (rg_records r)"
proof (cases "first_index (\<lambda>rec. lr_identity_key rec = key) (rg_records r)")
  case (Some i)
  then show ?thesis
    using first_index_Some [OF Some] by (simp add: portillia_registry_update_bps_def ready_fds_update free_record_def)
qed (simp add: portillia_registry_update_bps_def)

lemma sum_mset_partition:
  fixes f :: "'a \<Rightarrow> 'b multiset"
  shows "(\<Sum>x \<in># filter_mset P M. f x) + (\<Sum>x \<in># filter_mset (\<lambda>x. \<not> P x) M. f x) = (\<Sum>x \<in># M. f x)"
  by (induction M) (auto simp: ac_simps)

lemma ready_fds_janitor:
  "ready_fds (rg_records (fst (lease_janitor r now))) + mset (snd (lease_janitor r now)) = ready_fds (rg_records r)"
  unfolding ready_fds_def janitor_mset by (rule sum_mset_partition)

text \<open>A record is changed through its address.\<close>

lemma map_at_addr:
  assumes "distinct (map lr_addr recs)" "rec \<in> set recs"
  obtains pre post where "recs = pre @ rec # post"
    "map (\<lambda>r. if lr_addr r = lr_addr rec then g r else r) recs = pre @ g rec # post"
proof -
  obtain pre post where split: "recs = pre @ rec # post" using assms(2) split_list by fast
  then have "\<forall>r \<in> set pre \<union> set post. lr_addr r \<noteq> lr_addr rec"
    using assms(1) by (auto simp: image_iff)
  then have "map (\<lambda>r. if lr_addr r = lr_addr rec then g r else r) pre = pre"
    "map (\<lambda>r. if lr_addr r = lr_addr rec then g r else r) post = post"
    by (simp_all add: map_idI)
  then show thesis using split that by simp
qed

lemma registry_set_stream:
  assumes "registry_inv (sv_registry srv)" "rec \<in> set (rg_records (sv_registry srv))" "lr_stream rec = Some s"
    "wf_stream s'"
  shows "registry_inv (sv_registry (set_stream (lr_addr rec) s' srv))"
    "ready_fds (rg_records (sv_registry (set_stream (lr_addr rec) s' srv))) + mset (relay_stream_free s) =
     ready_fds (rg_records (sv_registry srv)) + mset (relay_stream_free s')"
proof -
  let ?recs = "rg_records (sv_registry srv)" and ?g = "\<lambda>rec. rec\<lparr>lr_stream := Some s'\<rparr>"
  have dist: "distinct (map lr_addr ?recs)" using assms(1) by (simp add: registry_inv_def records_inv_def)
  have wf: "wf_record r" if "r \<in> set ?recs" for r
    using assms(1) that by (auto simp: registry_inv_def records_inv_def list_all_iff)
  have inv: "records_inv (map (\<lambda>r. if lr_addr r = lr_addr rec then ?g r else r) ?recs) (rg_next_addr (sv_registry srv))"
    using assms(1,4) wf
    by (intro records_inv_map) (auto simp: registry_inv_def same_keys_def wf_record_def)
  show "registry_inv (sv_registry (set_stream (lr_addr rec) s' srv))"
    using inv by (simp add: set_stream_def registry_inv_def)
  obtain pre post where "?recs = pre @ rec # post"
    "map (\<lambda>r. if lr_addr r = lr_addr rec then ?g r else r) ?recs = pre @ ?g rec # post"
    by (rule map_at_addr [OF dist assms(2), of ?g])
  then show "ready_fds (rg_records (sv_registry (set_stream (lr_addr rec) s' srv))) + mset (relay_stream_free s) =
     ready_fds (rg_records (sv_registry srv)) + mset (relay_stream_free s')"
    using assms(3) by (simp add: set_stream_def free_record_def)
qed

lemma registry_touch:
  assumes "registry_inv (sv_registry srv)"
  shows "registry_inv (sv_registry (touch_record addr now srv))"
    "ready_fds (rg_records (sv_registry (touch_record addr now srv))) = ready_fds (rg_records (sv_registry srv))"
proof -
  have "wf_record rec" if "rec \<in> set (rg_records (sv_registry srv))" for rec
    using assms that by (auto simp: registry_inv_def records_inv_def list_all_iff)
  then have "records_inv (map (\<lambda>rec. if lr_addr rec = addr then rec\<lparr>lr_last_seen_at := now\<rparr> else rec)
      (rg_records (sv_registry srv))) (rg_next_addr (sv_registry srv))"
    using assms by (intro records_inv_map) (auto simp: registry_inv_def same_keys_def wf_record_def)
  then show "registry_inv (sv_registry (touch_record addr now srv))"
    by (simp add: touch_record_def registry_inv_def)
  show "ready_fds (rg_records (sv_registry (touch_record addr now srv))) = ready_fds (rg_records (sv_registry srv))"
    by (simp add: touch_record_def, rule ready_fds_map) (simp add: free_record_def)
qed

text \<open>The descriptors a routing decision opens itself.\<close>

definition dialled :: "handler_env \<Rightarrow> lease_record \<Rightarrow> int multiset" where
  "dialled env rec =
     (case lr_hop_next_overlay_ipv4 rec of
        Some ipv4 \<Rightarrow> (let fd = he_dial env ipv4 (or_empty (lr_hop_next_token rec)) in if fd \<ge> 0 then {#fd#} else {#})
      | None \<Rightarrow> {#})"

lemma sv_simps [simp]:
  "sv_registry (close_fds fds srv) = sv_registry srv" "sv_registry (start_bridge c t b srv) = sv_registry srv"
  "held_fds (close_fds fds srv) = held_fds srv + mset fds"
  "held_fds (start_bridge c t b srv) = held_fds srv + {#c, target_fd t#}"
  "held_fds (srv\<lparr>sv_bindings := bs\<rparr>) = held_fds srv" "held_fds (srv\<lparr>sv_settings := st\<rparr>) = held_fds srv"
  by (simp_all add: close_fds_def start_bridge_def held_fds_def)

lemma held_set_stream:
  assumes "registry_inv (sv_registry srv)" "rec \<in> set (rg_records (sv_registry srv))" "lr_stream rec = Some s"
    "wf_stream s'"
  shows "held_fds (set_stream (lr_addr rec) s' srv) + mset (relay_stream_free s) =
    held_fds srv + mset (relay_stream_free s')"
proof -
  have "sv_closed (set_stream (lr_addr rec) s' srv) = sv_closed srv"
    "sv_bridges (set_stream (lr_addr rec) s' srv) = sv_bridges srv"
    by (simp_all add: set_stream_def)
  then show ?thesis
    unfolding held_fds_def by (simp only:, intro mset_balance_frame registry_set_stream(2) [OF assms])
qed

lemma route_record_ok:
  assumes inv: "registry_inv (sv_registry srv)" and rec: "rec \<in> set (rg_records (sv_registry srv))"
  shows "\<exists>srv'. route_record sha256 env srv rec fd = Some srv' \<and> registry_inv (sv_registry srv') \<and>
    held_fds srv' = held_fds srv + {#fd#} + dialled env rec"
proof (cases "lr_hop_next_overlay_ipv4 rec")
  case (Some ipv4)
  then show ?thesis using inv by (simp add: route_record_def dialled_def Let_def)
next
  case None
  have "wf_record rec" using inv rec by (auto simp: registry_inv_def records_inv_def list_all_iff)
  then obtain s where s: "lr_stream rec = Some s" "wf_stream s" using None by (auto simp: wf_record_def)
  obtain s' bs res where c: "relay_stream_claim sha256 s (lr_identity_key rec) (he_rand env) (he_clock env)
      (he_sent env) (sv_bindings srv) = (s', bs, res)" by (metis prod_cases3)
  note cl = claim_cases [OF s(2) c]
  have "held_fds (set_stream (lr_addr rec) s' srv) + mset (relay_stream_free s) =
      held_fds srv + mset (relay_stream_free s')"
    using held_set_stream [OF inv rec s(1)] cl by blast
  then have "held_fds (set_stream (lr_addr rec) s' srv) +
      (case res of Claim_failed fds \<Rightarrow> mset fds | Claimed sess b \<Rightarrow> {#ss_fd sess#}) = held_fds srv"
    using cl mset_balance_out by blast
  moreover have "registry_inv (sv_registry (set_stream (lr_addr rec) s' srv))"
    using registry_set_stream(1) [OF inv rec s(1)] cl by blast
  ultimately show ?thesis
    using None s c by (cases res) (auto simp: route_record_def dialled_def Let_def)
qed

lemma offer_ok:
  assumes inv: "registry_inv (sv_registry srv)"
  shows "\<exists>srv' n. portillia_registry_offer_ssl_conn hash now srv hostname fd ssl = Some (srv', n) \<and>
    registry_inv (sv_registry srv') \<and> held_fds srv' = held_fds srv + {#fd#}"
proof (cases "lease_registry_lookup hash (sv_registry srv) hostname now")
  case None
  then show ?thesis using inv by (simp add: portillia_registry_offer_ssl_conn_def)
next
  case (Some rec)
  obtain s where s: "lr_stream rec = Some s" "wf_stream s" using lookup_has_stream [OF inv Some] by blast
  obtain s' n cl where o: "relay_stream_offer s fd ssl now = (s', n, cl)" by (metis prod_cases3)
  let ?srv = "touch_record (lr_addr rec) now srv" and ?rec = "rec\<lparr>lr_last_seen_at := now\<rparr>"
  have inv': "registry_inv (sv_registry ?srv)" by (rule registry_touch(1) [OF inv])
  have rec': "?rec \<in> set (rg_records (sv_registry ?srv))"
    using lookup_Some [OF Some] by (force simp: touch_record_def)
  have held: "held_fds ?srv = held_fds srv"
    using registry_touch(2) [OF inv] by (simp add: held_fds_def touch_record_def)
  have "held_fds (set_stream (lr_addr rec) s' ?srv) + mset (relay_stream_free s) =
      held_fds srv + mset (relay_stream_free s')"
    using held_set_stream [OF inv' rec', of s s'] s(1) offer_cases [OF s(2) o] held by simp
  moreover have "registry_inv (sv_registry (set_stream (lr_addr rec) s' ?srv))"
    using registry_set_stream(1) [OF inv' rec', of s s'] s(1) offer_cases [OF s(2) o] by simp
  moreover have "mset (relay_stream_free s') + mset cl = mset (relay_stream_free s) + {#fd#}"
    using offer_cases [OF s(2) o] by blast
  ultimately have "registry_inv (sv_registry (set_stream (lr_addr rec) s' ?srv))"
    "held_fds (set_stream (lr_addr rec) s' ?srv) + mset cl = held_fds srv + {#fd#}"
    using mset_balance_in by blast+
  then show ?thesis
    using Some s o by (simp add: portillia_registry_offer_ssl_conn_def)
qed

section \<open>Reachable states\<close>

text \<open>The steps of the running relay, with the descriptors each of them brings in: registrations, hop
  registrations, limit updates, the janitor, the three connection handlers, offered sessions, changes
  of the settings and the sweep of the bindings by the keepalive threads.\<close>

inductive server_step ::
  "(byte list \<Rightarrow> byte list) \<Rightarrow> (cstring \<Rightarrow> cstring option) \<Rightarrow> portillia_server \<Rightarrow> int multiset \<Rightarrow> portillia_server \<Rightarrow> bool"
  for sha256 hash where
  step_register: "server_step sha256 hash srv {#} (server_register hostname key bps ip rip hh now srv)"
| step_register_hop: "server_step sha256 hash srv {#}
    (srv\<lparr>sv_registry := portillia_registry_register_hop (sv_registry srv) token ipv4 next_token key now\<rparr>)"
| step_update_bps: "server_step sha256 hash srv {#}
    (srv\<lparr>sv_registry := portillia_registry_update_bps (sv_registry srv) key bps\<rparr>)"
| step_janitor: "server_step sha256 hash srv {#} (server_janitor now srv)"
| step_settings: "server_step sha256 hash srv {#} (srv\<lparr>sv_settings := settings\<rparr>)"
| step_sweep: "server_step sha256 hash srv {#}
    (srv\<lparr>sv_bindings := portillia_bindings_sweep_expired (sv_bindings srv) clock\<rparr>)"
| step_root: "hostname = rg_root_hostname (sv_registry srv) \<Longrightarrow>
    portillia_server_handle_connect sha256 hash env srv hostname fd = Some srv' \<Longrightarrow>
    server_step sha256 hash srv {#fd, he_api_fd env#} srv'"
| step_connect: "hostname \<noteq> rg_root_hostname (sv_registry srv) \<Longrightarrow>
    lease_registry_lookup hash (sv_registry srv) hostname (he_now env) = Some rec \<Longrightarrow>
    portillia_server_handle_connect sha256 hash env srv hostname fd = Some srv' \<Longrightarrow>
    server_step sha256 hash srv ({#fd#} + dialled env rec) srv'"
| step_connect_none: "hostname \<noteq> rg_root_hostname (sv_registry srv) \<Longrightarrow>
    lease_registry_lookup hash (sv_registry srv) hostname (he_now env) = None \<Longrightarrow>
    portillia_server_handle_connect sha256 hash env srv hostname fd = Some srv' \<Longrightarrow>
    server_step sha256 hash srv {#fd#} srv'"
| step_hop: "lease_registry_lookup_hop (sv_registry srv) token (he_now env) = Some rec \<Longrightarrow>
    portillia_server_handle_hop_stream sha256 env srv token fd = Some srv' \<Longrightarrow>
    server_step sha256 hash srv ({#fd#} + dialled env rec) srv'"
| step_hop_none: "lease_registry_lookup_hop (sv_registry srv) token (he_now env) = None \<Longrightarrow>
    portillia_server_handle_hop_stream sha256 env srv token fd = Some srv' \<Longrightarrow>
    server_step sha256 hash srv {#fd#} srv'"
| step_offer: "portillia_registry_offer_ssl_conn hash now srv hostname fd ssl = Some (srv', ready) \<Longrightarrow>
    server_step sha256 hash srv {#fd#} srv'"

inductive server_reach ::
  "(byte list \<Rightarrow> byte list) \<Rightarrow> (cstring \<Rightarrow> cstring option) \<Rightarrow> portillia_server \<Rightarrow> int multiset \<Rightarrow> bool"
  for sha256 hash where
  reach_setup: "server_reach sha256 hash (portillia_server_setup host port settings) {#}"
| reach_step: "server_reach sha256 hash srv fds \<Longrightarrow> server_step sha256 hash srv new_fds srv' \<Longrightarrow>
    server_reach sha256 hash srv' (fds + new_fds)"

inductive_cases server_stepE: "server_step sha256 hash srv fds srv'"

lemma connect_ok:
  assumes inv: "registry_inv (sv_registry srv)" and "hostname \<noteq> rg_root_hostname (sv_registry srv)"
    and rec: "lease_registry_lookup hash (sv_registry srv) hostname (he_now env) = Some rec"
  shows "\<exists>srv'. portillia_server_handle_connect sha256 hash env srv hostname fd = Some srv' \<and>
    registry_inv (sv_registry srv') \<and> held_fds srv' = held_fds srv + ({#fd#} + dialled env rec)"
  using route_record_ok [OF inv, of rec sha256 env fd] lookup_Some [OF rec] assms(2) rec
  by (auto simp: portillia_server_handle_connect_def union_assoc)

lemma hop_ok:
  assumes inv: "registry_inv (sv_registry srv)"
    and rec: "lease_registry_lookup_hop (sv_registry srv) token (he_now env) = Some rec"
  shows "\<exists>srv'. portillia_server_handle_hop_stream sha256 env srv token fd = Some srv' \<and>
    registry_inv (sv_registry srv') \<and> held_fds srv' = held_fds srv + ({#fd#} + dialled env rec)"
  using route_record_ok [OF inv, of rec sha256 env fd] rec live_match_Some
  by (fastforce simp: portillia_server_handle_hop_stream_def lease_registry_lookup_hop_def union_assoc)

lemma janitor_ok:
  assumes "registry_inv (sv_registry srv)"
  shows "registry_inv (sv_registry (server_janitor now srv))" "held_fds (server_janitor now srv) = held_fds srv"
proof -
  obtain r cl where j: "lease_janitor (sv_registry srv) now = (r, cl)" by (metis prod.exhaust)
  then show "registry_inv (sv_registry (server_janitor now srv))"
    using registry_inv_janitor [OF assms, of now] by (simp add: server_janitor_def)
  have "ready_fds (rg_records r) + mset cl = ready_fds (rg_records (sv_registry srv))"
    using ready_fds_janitor [of "sv_registry srv" now] j by simp
  then show "held_fds (server_janitor now srv) = held_fds srv"
    by (simp add: server_janitor_def j) (simp add: held_fds_def ac_simps)
qed

lemma step_ok:
  assumes "server_step sha256 hash srv fds srv'" "registry_inv (sv_registry srv)"
  shows "registry_inv (sv_registry srv') \<and> held_fds srv' = held_fds srv + fds"
  using assms
proof (induction rule: server_step.induct)
  case (step_register srv hostname key bps ip rip hh now)
  then show ?case
    using registry_inv_register by (simp add: server_register_def held_fds_def ready_fds_register)
next
  case (step_register_hop srv token ipv4 next_token key now)
  then show ?case using registry_inv_register_hop by (simp add: held_fds_def ready_fds_register_hop)
next
  case (step_update_bps srv key bps)
  then show ?case using registry_inv_update_bps by (simp add: held_fds_def ready_fds_update_bps)
next
  case (step_janitor srv now)
  then show ?case using janitor_ok by simp
next
  case (step_root hostname srv env fd srv')
  then show ?case by (auto simp: portillia_server_handle_connect_def add_mset_commute)
next
  case (step_connect hostname srv env rec fd srv')
  then show ?case using connect_ok [of srv hostname hash env rec sha256 fd] by auto
next
  case (step_hop srv token env rec fd srv')
  then show ?case using hop_ok [of srv token env rec sha256 fd] by auto
next
  case (step_offer now srv hostname fd ssl srv' ready)
  then show ?case using offer_ok [of srv hash now hostname fd ssl] by auto
qed (auto simp: portillia_server_handle_connect_def portillia_server_handle_hop_stream_def)

lemma reach_ok: "server_reach sha256 hash srv fds \<Longrightarrow> registry_inv (sv_registry srv) \<and> held_fds srv = fds"
proof (induction rule: server_reach.induct)
  case (reach_setup host port settings)
  then show ?case by (simp add: portillia_server_setup_def held_fds_def) (simp add: lease_registry_new_def)
next
  case (reach_step srv fds new_fds srv')
  then show ?case using step_ok [of sha256 hash srv new_fds srv'] by simp
qed

section \<open>Properties\<close>

text \<open>A server that has been asked to register a lease and a hop, with one session offered.\<close>

definition sample_env :: handler_env where
  "sample_env = \<lparr>he_now = 1200, he_clock = (1200, 0), he_rand = replicate 16 7, he_sent = (\<lambda>_. True),
     he_api_connects = True, he_api_fd = 50, he_dial = (\<lambda>_ _. -1)\<rparr>"

definition sample_server :: portillia_server where
  "sample_server = server_register ''demo.relay.example'' ''0xB'' 0 None None None 1000
     (portillia_server_setup ''relay.example'' 8080 None)"

definition offered_server :: portillia_server where
  "offered_server = fst (the (portillia_registry_offer_ssl_conn (\<lambda>_. None) 1100 sample_server ''demo.relay.example'' 9 None))"

lemmas sample_server_simps = sample_server_def server_register_def portillia_server_setup_def
  lease_registry_register_def lease_registry_is_allowed_def lease_registry_new_def append_record_def new_lease_def
  MAX_RECORDS_def

lemma sample_offer:
  "portillia_registry_offer_ssl_conn (\<lambda>_. None) 1100 sample_server ''demo.relay.example'' 9 None = Some (offered_server, 1)"
  by (simp add: offered_server_def sample_server_simps portillia_registry_offer_ssl_conn_def lease_registry_lookup_def
      live_match_def relay_stream_offer_def relay_stream_new_def stream_push_def READY_LIMIT_def Let_def)

lemma sample_reach: "server_reach sha256 (\<lambda>_. None) offered_server {#9#}"
proof -
  have "server_reach sha256 (\<lambda>_. None) sample_server ({#} + {#})"
    unfolding sample_server_def by (rule reach_step [OF reach_setup step_register])
  from reach_step [OF this step_offer [OF sample_offer]] show ?thesis by simp
qed

text \<open>C3. The registry stays consistent whatever order its threads run in: it never holds more than
  1024 records, no two records share a hostname or a hop token, and the length of every queue of
  ready sessions is what its counter says and at most eight.\<close>

theorem registry_invariant:
  assumes "server_reach sha256 hash srv fds"
  shows "length (rg_records (sv_registry srv)) \<le> 1024 \<and>
    distinct (somes (map lr_hostname (rg_records (sv_registry srv)))) \<and>
    distinct (somes (map lr_hop_token (rg_records (sv_registry srv)))) \<and>
    (\<forall>rec \<in> set (rg_records (sv_registry srv)). \<forall>s. lr_stream rec = Some s \<longrightarrow>
       rs_count s = length (rs_ready s) \<and> rs_count s \<le> 8)"
  using reach_ok [OF assms]
  by (auto simp: registry_inv_def records_inv_def wf_record_def wf_stream_def list_all_iff MAX_RECORDS_def READY_LIMIT_def)

theorem registry_invariant_witness:
  "length (rg_records (sv_registry offered_server)) \<le> 1024 \<and>
   distinct (somes (map lr_hostname (rg_records (sv_registry offered_server))))"
  using registry_invariant [OF sample_reach [of "\<lambda>x. x"]] by blast

text \<open>C22. Routing never dereferences a null stream: in every reachable state the handlers for a TLS
  connection, for a hop stream with and without its framing, and for an offered reverse session
  all return, although hop records carry no stream.\<close>

theorem routing_never_crashes:
  assumes "server_reach sha256 hash srv fds"
  shows "portillia_server_handle_connect sha256 hash env srv hostname fd \<noteq> None \<and>
    portillia_server_handle_hop_stream sha256 env srv token fd \<noteq> None \<and>
    portillia_server_handle_hop sha256 env srv header body fd \<noteq> None \<and>
    portillia_registry_offer_ssl_conn hash now srv hostname fd ssl \<noteq> None"
proof -
  have inv: "registry_inv (sv_registry srv)" using reach_ok [OF assms] by blast
  have "portillia_server_handle_connect sha256 hash env srv hostname fd \<noteq> None"
    using connect_ok [OF inv, of hostname hash env _ sha256 fd]
    by (cases "lease_registry_lookup hash (sv_registry srv) hostname (he_now env)")
      (fastforce simp: portillia_server_handle_connect_def)+
  moreover have hop: "portillia_server_handle_hop_stream sha256 env srv tok fd \<noteq> None" for tok
    using hop_ok [OF inv, of tok env _ sha256 fd]
    by (cases "lease_registry_lookup_hop (sv_registry srv) tok (he_now env)")
      (fastforce simp: portillia_server_handle_hop_stream_def)+
  moreover have "portillia_server_handle_hop sha256 env srv header body fd \<noteq> None"
    using hop by (simp add: portillia_server_handle_hop_def Let_def)
  moreover have "portillia_registry_offer_ssl_conn hash now srv hostname fd ssl \<noteq> None"
    using offer_ok [OF inv, of hash now hostname fd ssl] by auto
  ultimately show ?thesis by blast
qed

theorem routing_never_crashes_witness:
  "portillia_server_handle_connect (\<lambda>x. x) (\<lambda>_. None) sample_env offered_server ''demo.relay.example'' 4 \<noteq> None"
  using routing_never_crashes [OF sample_reach [of "\<lambda>x. x"]] by blast



text \<open>A round of the janitor removes exactly the expired records, each once, keeps every other
  record unchanged, and closes exactly the sessions that were queued on the removed ones, although
  it moves the last record into the slot it is looking at.\<close>

theorem janitor_removes_expired:
  "mset (rg_records (fst (lease_janitor r now))) =
     filter_mset (\<lambda>rec. lr_expires_at rec > now) (mset (rg_records r)) \<and>
   mset (snd (lease_janitor r now)) =
     (\<Sum>rec \<in># filter_mset (\<lambda>rec. lr_expires_at rec \<le> now) (mset (rg_records r)). mset (free_record rec))"
  using janitor_mset [of r now] by (simp add: unexpired_def [abs_def] not_less)

text \<open>Sessions are handed out in the order they were offered: after any run of offers and claims on
  a new stream, the claimed sessions followed by the waiting ones are the offered sessions in order.\<close>

theorem sessions_claimed_in_order:
  assumes "sessions.fifo_run relay_stream_new offered claimed s"
  shows "offered = claimed @ rs_ready s \<and> length (rs_ready s) \<le> 8"
  using sessions.fifo_run_order [OF assms] by (simp add: relay_stream_new_def wf_stream_def READY_LIMIT_def)

theorem sessions_claimed_in_order_witness:
  "\<exists>s :: relay_stream. [\<lparr>ss_fd = 5, ss_ssl = None, ss_created_at = 1\<rparr>, \<lparr>ss_fd = 6, ss_ssl = Some 0, ss_created_at = 2\<rparr>] =
    [\<lparr>ss_fd = 5, ss_ssl = None, ss_created_at = 1\<rparr>] @ rs_ready s \<and> length (rs_ready s) \<le> 8"
proof -
  let ?a = "\<lparr>ss_fd = 5, ss_ssl = None, ss_created_at = 1\<rparr> :: relay_session"
  let ?b = "\<lparr>ss_fd = 6, ss_ssl = Some 0, ss_created_at = 2\<rparr> :: relay_session"
  have "sessions.fifo_run relay_stream_new ([] @ [?a]) [] (stream_push ?a relay_stream_new)"
    by (intro sessions.run_push sessions.run_done) (simp add: relay_stream_new_def READY_LIMIT_def)
  then have "sessions.fifo_run relay_stream_new (([] @ [?a]) @ [?b]) [] (stream_push ?b (stream_push ?a relay_stream_new))"
    by (rule sessions.run_push) (simp add: stream_push_def relay_stream_new_def READY_LIMIT_def)
  then have "sessions.fifo_run relay_stream_new (([] @ [?a]) @ [?b]) ([] @ [?a])
      (relay_stream_new\<lparr>rs_ready := [?b], rs_count := 1\<rparr>)"
    by (rule sessions.run_pop) (simp add: stream_pop_def stream_push_def relay_stream_new_def)
  from sessions_claimed_in_order [OF this] show ?thesis unfolding append.simps by blast
qed

text \<open>Banning is effective at once and reversible: a banned identity cannot register or refresh a
  lease; after the ban is lifted, in automatic mode, it is admitted again.\<close>

theorem ban_blocks_registration:
  assumes "wf_settings s" "distinct (sl_items (s_banned s))" "portillia_settings_ban_identity s key = Some s'"
  shows "lease_registry_register (Some s') r hostname key bps ip rip hh now = r \<and>
    lease_registry_is_allowed (Some (portillia_settings_unban_identity s' key)) key =
      (s_approval_mode s \<noteq> ''manual'' \<or> key \<in> set (sl_items (s_approved s)))"
proof
  have banned: "key \<in> set (sl_items (s_banned s'))"
    using bans.add_set [OF assms(1), of key] assms(3) by auto
  then show "lease_registry_register (Some s') r hostname key bps ip rip hh now = r"
    by (auto simp: lease_registry_register_def lease_registry_is_allowed_def list_ex_iff)
  have "distinct (sl_items (s_banned s'))" by (rule bans.add_distinct [OF assms])
  then have "key \<notin> set (sl_items (s_banned (portillia_settings_unban_identity s' key)))"
    by (simp add: portillia_settings_unban_identity_def set_list_drop_first)
  moreover have "s_approval_mode s' = s_approval_mode s" "s_approved s' = s_approved s"
    using assms(3) by (auto simp: portillia_settings_ban_identity_def)
  ultimately show "lease_registry_is_allowed (Some (portillia_settings_unban_identity s' key)) key =
      (s_approval_mode s \<noteq> ''manual'' \<or> key \<in> set (sl_items (s_approved s)))"
    by (auto simp: lease_registry_is_allowed_def list_ex_iff portillia_settings_unban_identity_def)
qed

theorem ban_blocks_registration_witness:
  "\<exists>s'. portillia_settings_ban_identity (default_settings ''p'') ''0xBAD'' = Some s' \<and>
     lease_registry_register (Some s') sample_registry ''x.relay.example'' ''0xBAD'' 0 None None None 5 = sample_registry \<and>
     lease_registry_is_allowed (Some (portillia_settings_unban_identity s' ''0xBAD'')) ''0xBAD''"
proof -
  have s: "wf_settings (default_settings ''p'')" "distinct (sl_items (s_banned (default_settings ''p'')))"
    by (simp_all add: wf_settings_def wf_list_def default_settings_def initial_list_def)
  obtain s' where s': "portillia_settings_ban_identity (default_settings ''p'') ''0xBAD'' = Some s'"
    using bans.add_set [OF s(1)] by blast
  show ?thesis
    using ban_blocks_registration [OF s s'] s' by (auto simp: default_settings_def)
qed

text \<open>Registering a hostname that is already leased does not check who holds the lease: any admitted
  identity prolongs it, replaces its rate limit and its recorded addresses, and the record keeps the
  identity of the first owner.\<close>

theorem register_ignores_owner:
  assumes "registry_inv r" "rec \<in> set (rg_records r)" "lr_hostname rec = Some hostname"
    and "lease_registry_is_allowed settings intruder"
  shows "\<exists>rec' \<in> set (rg_records (lease_registry_register settings r hostname intruder bps (Some ip) rip hh now)).
    lr_hostname rec' = Some hostname \<and> lr_identity_key rec' = lr_identity_key rec \<and>
    lr_expires_at rec' = now + 300 \<and> lr_bps_limit rec' = bps \<and> lr_client_ip rec' = Some ip \<and>
    lr_stream rec' = lr_stream rec"
proof -
  obtain i where i: "first_index (\<lambda>rec. lr_hostname rec = Some hostname) (rg_records r) = Some i"
    using assms(2,3) by (cases "first_index (\<lambda>rec. lr_hostname rec = Some hostname) (rg_records r)")
      (auto simp: first_index_None)
  then have "rg_records r ! i = rec" "i < length (rg_records r)"
    using unique_hostname [OF assms(1), of "rg_records r ! i" rec hostname] first_index_Some [OF i] assms(2,3) by auto
  then show ?thesis
    using i assms(3,4)
    by (auto simp: lease_registry_register_def refresh_record_def or_keep_def
        intro!: bexI [OF _ set_update_memI])
qed

theorem register_ignores_owner_witness:
  "\<exists>rec' \<in> set (rg_records (lease_registry_register None sample_registry ''demo.relay.example'' ''0xEVE'' 1 (Some ''6.6.6.6'') None None 1200)).
    lr_hostname rec' = Some ''demo.relay.example'' \<and> lr_identity_key rec' = ''0xB'' \<and> lr_expires_at rec' = 1500 \<and>
    lr_bps_limit rec' = 1 \<and> lr_client_ip rec' = Some ''6.6.6.6'' \<and> lr_stream rec' = Some relay_stream_new"
proof -
  let ?rec = "new_lease 1 1000 ''demo.relay.example'' ''0xB'' 0 None None None"
  have "?rec \<in> set (rg_records sample_registry)"
    by (simp add: sample_registry_def lease_registry_register_def lease_registry_is_allowed_def
        lease_registry_new_def append_record_def new_lease_def MAX_RECORDS_def)
  from register_ignores_owner [OF sample_registry_inv this, of "''demo.relay.example''" None "''0xEVE''" 1 "''6.6.6.6''" None None 1200]
  show ?thesis by (simp add: new_lease_def lease_registry_is_allowed_def)
qed

text \<open>A handler can be left with a dangling record: the lookup returns a pointer and releases the
  mutex, and when the lease runs out before the handler is done with it, the janitor frees the
  record, while the claim on it may wait for up to ten seconds.\<close>

theorem lookup_result_can_be_freed:
  assumes "registry_inv r" "lease_registry_lookup hash r hostname t0 = Some rec" "lr_expires_at rec \<le> t1"
  shows "t0 < t1 \<and> lr_addr rec \<in> lr_addr ` set (rg_records r) \<and>
    lr_addr rec \<notin> lr_addr ` set (rg_records (fst (lease_janitor r t1)))"
proof -
  have rec: "rec \<in> set (rg_records r)" "unexpired t0 rec" using lookup_Some [OF assms(2)] by auto
  have kept: "set (rg_records (fst (lease_janitor r t1))) = {x \<in> set (rg_records r). unexpired t1 x}"
    using arg_cong [OF janitor_mset(1) [of r t1], of set_mset] by simp
  have "x = rec" if "x \<in> set (rg_records r)" "lr_addr x = lr_addr rec" for x
    using assms(1) rec(1) that by (auto simp: registry_inv_def records_inv_def dest: distinct_map [THEN iffD1] inj_onD)
  then have "lr_addr rec \<notin> lr_addr ` set (rg_records (fst (lease_janitor r t1)))"
    using assms(3) by (auto simp: kept unexpired_def)
  with rec assms(3) show ?thesis by (auto simp: unexpired_def)
qed

theorem lookup_result_can_be_freed_witness:
  "\<exists>rec. lease_registry_lookup (\<lambda>_. None) sample_registry ''demo.relay.example'' 1299 = Some rec \<and>
     lr_addr rec \<notin> lr_addr ` set (rg_records (fst (lease_janitor sample_registry 1300)))"
proof -
  obtain rec where rec: "lease_registry_lookup (\<lambda>_. None) sample_registry ''demo.relay.example'' 1299 = Some rec"
    "lr_expires_at rec = 1300"
    by (simp add: sample_registry_def lease_registry_register_def lease_registry_is_allowed_def
        lease_registry_new_def append_record_def new_lease_def MAX_RECORDS_def lease_registry_lookup_def live_match_def)
  show ?thesis
    using lookup_result_can_be_freed [OF sample_registry_inv rec(1), of 1300] rec by auto
qed

end
