(* ===== verification/Relay_Set.thy ===== *)
theory Relay_Set
  imports Relay_State Mols "HOL-Library.AList"
begin

text \<open>
  The relay set of \<^verbatim>\<open>src/portal/discovery/relay_set.c\<close>: what the node knows about other relays, keyed by
  URL, and the index by identity address that defends against replayed, older descriptors.

  The two hash tables are \<open>ttak_table_t\<close> of a library outside the sources. Their operations are the
  fields of a record that every operation takes; writing through the pointer that \<open>get\<close> returns is
  \<open>modify\<close>, walking the occupied slots and writing through each pointer is \<open>modify_all\<close>. The
  predicate \<open>table_laws\<close> states what the code relies on. The tables hash the bytes of a key but
  compare keys with \<open>strcasecmp\<close>, so nothing is assumed about two keys that differ only in case.
  The operations hold the lock of the rset, hence are single steps; the clock is an argument.
\<close>

record ('t, 'v) ttak_table =
  tt_empty :: 't
  tt_get :: "'t \<Rightarrow> cstring \<Rightarrow> 'v option"
  tt_put :: "'t \<Rightarrow> cstring \<Rightarrow> 'v \<Rightarrow> 't"
  tt_remove :: "'t \<Rightarrow> cstring \<Rightarrow> 't"
  tt_modify :: "'t \<Rightarrow> cstring \<Rightarrow> ('v \<Rightarrow> 'v) \<Rightarrow> 't"
  tt_modify_all :: "'t \<Rightarrow> ('v \<Rightarrow> 'v) \<Rightarrow> 't"
  tt_occupied :: "'t \<Rightarrow> (cstring \<times> 'v) list"

type_synonym 't relay_table = "('t, portillia_relay_state) ttak_table"
type_synonym 'k key_table = "('k, portillia_key_index_entry) ttak_table"

record ('t, 'k) portillia_relay_set =
  rs_relays :: 't
  rs_key_index :: 'k

record portillia_discovery_response =
  dr_protocol_version :: cstring
  dr_generated_at :: time_t
  dr_relays :: "portillia_relay_descriptor list"

section \<open>Bootstrap management\<close>

text \<open>An entry that holds nothing worth keeping once it is no bootstrap relay.\<close>

definition disposable :: "portillia_relay_state \<Rightarrow> bool" where
  "disposable s \<longleftrightarrow> \<not> confirmed s \<and> \<not> banned s \<and> discovery_failures s = 0 \<and> active_failures s = 0 \<and>
     next_discovery_refresh_at s = 0 \<and> suppress_active_until s = 0 \<and> d_address (descriptor s) = None"

definition mark_bootstrap :: "'t relay_table \<Rightarrow> cstring option \<Rightarrow> 't \<Rightarrow> 't" where
  "mark_bootstrap tb url_ptr t =
     (if \<not> nonempty url_ptr then t
      else let url = or_empty url_ptr
           in case tt_get tb t url of
                Some _ \<Rightarrow> tt_modify tb t url (\<lambda>s. s\<lparr>bootstrap := True\<rparr>)
              | None \<Rightarrow> tt_put tb t url ((url_relay_state url)\<lparr>bootstrap := True\<rparr>))"

text \<open>The walk over the slots removes the key of every disposable entry that is no bootstrap relay.\<close>

definition evict_disposable :: "'t relay_table \<Rightarrow> 't \<Rightarrow> 't" where
  "evict_disposable tb t =
     foldl (\<lambda>t' (key, s). if \<not> bootstrap s \<and> disposable s then tt_remove tb t' key else t') t (tt_occupied tb t)"

definition portillia_relay_set_set_bootstrap_urls ::
  "'t relay_table \<Rightarrow> ('t, 'k) portillia_relay_set \<Rightarrow> cstring option list \<Rightarrow> ('t, 'k) portillia_relay_set" where
  "portillia_relay_set_set_bootstrap_urls tb rset urls =
     (let t1 = tt_modify_all tb (rs_relays rset) (\<lambda>s. s\<lparr>bootstrap := False\<rparr>);
          t2 = foldl (\<lambda>t url. mark_bootstrap tb url t) t1 urls
      in rset\<lparr>rs_relays := evict_disposable tb t2\<rparr>)"

definition portillia_relay_set_create ::
  "'t relay_table \<Rightarrow> 'k key_table \<Rightarrow> cstring option list \<Rightarrow> ('t, 'k) portillia_relay_set" where
  "portillia_relay_set_create tb kb urls =
     (let rset = \<lparr>rs_relays = tt_empty tb, rs_key_index = tt_empty kb\<rparr>
      in if urls \<noteq> [] then portillia_relay_set_set_bootstrap_urls tb rset urls else rset)"

definition portillia_relay_set_add_bootstrap_url ::
  "'t relay_table \<Rightarrow> ('t, 'k) portillia_relay_set \<Rightarrow> cstring option \<Rightarrow> ('t, 'k) portillia_relay_set" where
  "portillia_relay_set_add_bootstrap_url tb rset url = rset\<lparr>rs_relays := mark_bootstrap tb url (rs_relays rset)\<rparr>"

definition portillia_relay_set_remove_bootstrap_url ::
  "'t relay_table \<Rightarrow> ('t, 'k) portillia_relay_set \<Rightarrow> cstring option \<Rightarrow> ('t, 'k) portillia_relay_set" where
  "portillia_relay_set_remove_bootstrap_url tb rset url_ptr =
     (if \<not> nonempty url_ptr then rset
      else let url = or_empty url_ptr
           in case tt_get tb (rs_relays rset) url of
                None \<Rightarrow> rset
              | Some s \<Rightarrow>
                  let t = tt_modify tb (rs_relays rset) url (\<lambda>s. s\<lparr>bootstrap := False\<rparr>)
                  in rset\<lparr>rs_relays := (if disposable s then tt_remove tb t url else t)\<rparr>)"

section \<open>Queries\<close>

definition relay_states :: "'t relay_table \<Rightarrow> ('t, 'k) portillia_relay_set \<Rightarrow> portillia_relay_state list" where
  "relay_states tb rset = map snd (tt_occupied tb (rs_relays rset))"

definition portillia_relay_set_all_relays ::
  "'t relay_table \<Rightarrow> ('t, 'k) portillia_relay_set \<Rightarrow> portillia_relay_state list" where
  "portillia_relay_set_all_relays tb rset = relay_states tb rset"

definition portillia_relay_set_confirmed_relays ::
  "'t relay_table \<Rightarrow> ('t, 'k) portillia_relay_set \<Rightarrow> portillia_relay_state list" where
  "portillia_relay_set_confirmed_relays tb rset = filter confirmed (relay_states tb rset)"

definition selectable_states :: "'t relay_table \<Rightarrow> ('t, 'k) portillia_relay_set \<Rightarrow> portillia_relay_state list" where
  "selectable_states tb rset = take 256 (filter (\<lambda>s. \<not> banned s) (relay_states tb rset))"

definition portillia_relay_set_priority_relays ::
  "'t relay_table \<Rightarrow> ('t, 'k) portillia_relay_set \<Rightarrow> portillia_client_state \<Rightarrow> time_t \<Rightarrow> cstring list option" where
  "portillia_relay_set_priority_relays tb rset client now =
     mols_select_priority (selectable_states tb rset) (Some (or_empty (c_local_address client)))
       (c_require_udp client) (c_require_tcp client) (c_max_active_relays client) now"

definition portillia_relay_set_priority_multi_hop ::
  "'t relay_table \<Rightarrow> ('t, 'k) portillia_relay_set \<Rightarrow> portillia_client_state \<Rightarrow> time_t \<Rightarrow> cstring list option" where
  "portillia_relay_set_priority_multi_hop tb rset client now =
     mols_select_multihop (selectable_states tb rset) (Some (or_empty (c_local_address client)))
       (c_require_udp client) (c_require_tcp client) (c_multi_hop_depth client) now"

definition overlay_usable :: "time_t \<Rightarrow> portillia_relay_state \<Rightarrow> bool" where
  "overlay_usable now s \<longleftrightarrow> \<not> banned s \<and> nonempty (d_address (descriptor s)) \<and> d_expires_at (descriptor s) > now \<and>
     portillia_relay_descriptor_has_overlay_peer (descriptor s)"

definition portillia_relay_set_overlay_peers ::
  "'t relay_table \<Rightarrow> ('t, 'k) portillia_relay_set \<Rightarrow> time_t \<Rightarrow> portillia_relay_state list" where
  "portillia_relay_set_overlay_peers tb rset now = filter (overlay_usable now) (relay_states tb rset)"

text \<open>A zero \<open>now\<close> is replaced by the clock.\<close>

definition at_time :: "time_t \<Rightarrow> time_t \<Rightarrow> time_t" where
  "at_time now clock = (if now = 0 then clock else now)"

definition portillia_relay_set_overlay_descriptor ::
  "'t relay_table \<Rightarrow> ('t, 'k) portillia_relay_set \<Rightarrow> cstring \<Rightarrow> time_t \<Rightarrow> time_t \<Rightarrow> portillia_relay_descriptor option"
  where
  "portillia_relay_set_overlay_descriptor tb rset url now clock =
     (case tt_get tb (rs_relays rset) url of
        None \<Rightarrow> None
      | Some s \<Rightarrow> if overlay_usable (at_time now clock) s then Some (descriptor s) else None)"

definition portillia_relay_set_bootstrap_urls ::
  "'t relay_table \<Rightarrow> ('t, 'k) portillia_relay_set \<Rightarrow> cstring list" where
  "portillia_relay_set_bootstrap_urls tb rset =
     map state_url (filter (\<lambda>s. bootstrap s \<and> \<not> banned s) (relay_states tb rset))"

text \<open>Appending a copy of a descriptor unless one with the same address is already listed.\<close>

definition add_descriptor ::
  "portillia_relay_descriptor list \<Rightarrow> portillia_relay_descriptor \<Rightarrow> portillia_relay_descriptor list" where
  "add_descriptor out d =
     (if list_ex (\<lambda>x. d_api_https_addr x = d_api_https_addr d) out then out
      else out @ [portillia_relay_descriptor_copy portillia_relay_descriptor_init d])"

definition portillia_relay_set_descriptors ::
  "'t relay_table \<Rightarrow> ('t, 'k) portillia_relay_set \<Rightarrow> portillia_relay_descriptor option \<Rightarrow> time_t \<Rightarrow>
   portillia_relay_descriptor list" where
  "portillia_relay_set_descriptors tb rset self now =
     (let out0 = (case self of
                    Some d \<Rightarrow> if nonempty (d_api_https_addr d) \<and> d_expires_at d > now then add_descriptor [] d else []
                  | None \<Rightarrow> [])
      in foldl (\<lambda>out s.
           let d = descriptor s
           in if banned s \<or> \<not> nonempty (d_address d) \<or> \<not> nonempty (d_api_https_addr d) \<or> d_expires_at d \<le> now then out
              else add_descriptor out d) out0 (relay_states tb rset))"

section \<open>Mutations\<close>

text \<open>Change the state of a URL, or create one for it.\<close>

definition upsert_url ::
  "'t relay_table \<Rightarrow> ('t, 'k) portillia_relay_set \<Rightarrow> cstring \<Rightarrow> (portillia_relay_state \<Rightarrow> portillia_relay_state) \<Rightarrow>
   (portillia_relay_state \<Rightarrow> portillia_relay_state) \<Rightarrow> ('t, 'k) portillia_relay_set" where
  "upsert_url tb rset url change create =
     (case tt_get tb (rs_relays rset) url of
        Some _ \<Rightarrow> rset\<lparr>rs_relays := tt_modify tb (rs_relays rset) url change\<rparr>
      | None \<Rightarrow> rset\<lparr>rs_relays := tt_put tb (rs_relays rset) url (create (url_relay_state url))\<rparr>)"

definition change_url ::
  "'t relay_table \<Rightarrow> ('t, 'k) portillia_relay_set \<Rightarrow> cstring \<Rightarrow> (portillia_relay_state \<Rightarrow> portillia_relay_state) \<Rightarrow>
   ('t, 'k) portillia_relay_set" where
  "change_url tb rset url change =
     (case tt_get tb (rs_relays rset) url of
        Some _ \<Rightarrow> rset\<lparr>rs_relays := tt_modify tb (rs_relays rset) url change\<rparr>
      | None \<Rightarrow> rset)"

definition portillia_relay_set_ban_url ::
  "'t relay_table \<Rightarrow> ('t, 'k) portillia_relay_set \<Rightarrow> cstring \<Rightarrow> ('t, 'k) portillia_relay_set" where
  "portillia_relay_set_ban_url tb rset url =
     upsert_url tb rset url (\<lambda>s. s\<lparr>banned := True\<rparr>) (\<lambda>s. s\<lparr>banned := True\<rparr>)"

definition portillia_relay_set_allow_url ::
  "'t relay_table \<Rightarrow> ('t, 'k) portillia_relay_set \<Rightarrow> cstring \<Rightarrow> ('t, 'k) portillia_relay_set" where
  "portillia_relay_set_allow_url tb rset url = change_url tb rset url (\<lambda>s. s\<lparr>banned := False\<rparr>)"

definition portillia_relay_set_confirm_url ::
  "'t relay_table \<Rightarrow> ('t, 'k) portillia_relay_set \<Rightarrow> cstring \<Rightarrow> ('t, 'k) portillia_relay_set" where
  "portillia_relay_set_confirm_url tb rset url =
     upsert_url tb rset url (\<lambda>s. s\<lparr>confirmed := True, active_failures := 0, suppress_active_until := 0\<rparr>)
       (\<lambda>s. s\<lparr>confirmed := True\<rparr>)"

definition portillia_relay_set_unconfirm_url ::
  "'t relay_table \<Rightarrow> ('t, 'k) portillia_relay_set \<Rightarrow> cstring \<Rightarrow> ('t, 'k) portillia_relay_set" where
  "portillia_relay_set_unconfirm_url tb rset url = change_url tb rset url (\<lambda>s. s\<lparr>confirmed := False\<rparr>)"

definition portillia_relay_set_record_discovery_rtt ::
  "'t relay_table \<Rightarrow> ('t, 'k) portillia_relay_set \<Rightarrow> cstring \<Rightarrow> real \<Rightarrow> time_t \<Rightarrow> ('t, 'k) portillia_relay_set" where
  "portillia_relay_set_record_discovery_rtt tb rset url rtt_ms measured_at =
     change_url tb rset url (\<lambda>s. s\<lparr>discovery_rtt_ms := rtt_ms, discovery_rtt_at := measured_at\<rparr>)"

section \<open>Descriptors from other relays\<close>

definition validate_descriptor_freshness :: "portillia_relay_descriptor \<Rightarrow> time_t \<Rightarrow> bool" where
  "validate_descriptor_freshness desc now \<longleftrightarrow>
     \<not> (d_issued_at desc = 0) \<and> \<not> (d_expires_at desc \<le> now) \<and>
     \<not> (d_issued_at desc - now > PORTILLIA_ANNOUNCE_CLOCK_SKEW_TOLERANCE_SEC) \<and>
     \<not> (d_expires_at desc - d_issued_at desc > PORTILLIA_ANNOUNCE_MAX_VALIDITY_SEC)"

definition merge_descriptor ::
  "portillia_relay_state option \<Rightarrow> portillia_relay_descriptor \<Rightarrow> time_t \<Rightarrow> portillia_relay_state" where
  "merge_descriptor existing desc now =
     (let base = (case existing of None \<Rightarrow> zero_relay_state | Some s \<Rightarrow> s)
      in base\<lparr>descriptor := portillia_relay_descriptor_copy portillia_relay_descriptor_init desc, last_seen_at := now\<rparr>)"

text \<open>The key under which an identity is indexed: its address in lower case.\<close>

definition address_key :: "portillia_relay_descriptor \<Rightarrow> cstring" where
  "address_key desc = str_tolower (or_empty (d_address desc))"

text \<open>Storing a merged state under its URL and indexing its address.\<close>

definition store_descriptor ::
  "'t relay_table \<Rightarrow> 'k key_table \<Rightarrow> ('t, 'k) portillia_relay_set \<Rightarrow> cstring \<Rightarrow> portillia_relay_state \<Rightarrow>
   portillia_relay_descriptor \<Rightarrow> ('t, 'k) portillia_relay_set" where
  "store_descriptor tb kb rset url merged desc =
     (let stored = merged\<lparr>descriptor := portillia_relay_descriptor_copy portillia_relay_descriptor_init (descriptor merged)\<rparr>;
          rset1 = rset\<lparr>rs_relays := tt_put tb (rs_relays rset) url stored\<rparr>
      in if nonempty (d_address desc) then
           rset1\<lparr>rs_key_index := tt_put kb (rs_key_index rset1) (address_key desc)
              \<lparr>k_issued_at = d_issued_at desc,
               k_tombstone_until = d_issued_at desc + PORTILLIA_ANNOUNCE_MAX_VALIDITY_SEC\<rparr>\<rparr>
         else rset1)"

definition apply_descriptor ::
  "'t relay_table \<Rightarrow> 'k key_table \<Rightarrow> cstring option \<Rightarrow> bool \<Rightarrow> time_t \<Rightarrow>
   ('t, 'k) portillia_relay_set \<times> bool \<Rightarrow> portillia_relay_descriptor \<Rightarrow> ('t, 'k) portillia_relay_set \<times> bool" where
  "apply_descriptor tb kb target_url protocol_mismatch now acc desc =
     (case acc of (rset, changed) \<Rightarrow>
       if \<not> nonempty (d_api_https_addr desc) \<or> \<not> validate_descriptor_freshness desc now then (rset, changed)
       else
         let url = or_empty (d_api_https_addr desc);
             merged = merge_descriptor (tt_get tb (rs_relays rset) url) desc now;
             merged' = (if \<not> protocol_mismatch \<and> nonempty target_url \<and> Some url = target_url
                        then merged\<lparr>discovery_failures := 0, next_discovery_refresh_at := 0\<rparr> else merged);
             rollback = (address_key desc \<noteq> [] \<and>
               (case tt_get kb (rs_key_index rset) (address_key desc) of
                  None \<Rightarrow> False
                | Some prev \<Rightarrow>
                    if now > k_tombstone_until prev \<and> k_tombstone_until prev \<noteq> 0 then False
                    else k_issued_at prev - d_issued_at desc > 0))
         in if rollback then (rset, changed) else (store_descriptor tb kb rset url merged' desc, True))"

text \<open>The error number, 0 for success, and whether anything changed.\<close>

datatype relay_errno = EINVAL | EACCES | EPROTO

definition portillia_relay_set_apply_discovery_response ::
  "'t relay_table \<Rightarrow> 'k key_table \<Rightarrow> cstring \<Rightarrow> ('t, 'k) portillia_relay_set \<Rightarrow> cstring option \<Rightarrow>
   portillia_discovery_response \<Rightarrow> time_t \<Rightarrow> time_t \<Rightarrow> ('t, 'k) portillia_relay_set \<times> bool \<times> relay_errno option" where
  "portillia_relay_set_apply_discovery_response tb kb discovery_version rset target_url resp now clock =
     (let t = at_time now clock;
          protocol_mismatch = (dr_protocol_version resp \<noteq> discovery_version);
          (rset', changed) = foldl (apply_descriptor tb kb target_url protocol_mismatch t) (rset, False) (dr_relays resp)
      in (rset', changed, if nonempty target_url \<and> protocol_mismatch then Some EPROTO else None))"

definition portillia_relay_set_insert_announced ::
  "'t relay_table \<Rightarrow> 'k key_table \<Rightarrow> ('t, 'k) portillia_relay_set \<Rightarrow> portillia_relay_descriptor \<Rightarrow> time_t \<Rightarrow> time_t \<Rightarrow>
   ('t, 'k) portillia_relay_set \<times> relay_errno option" where
  "portillia_relay_set_insert_announced tb kb rset desc now clock =
     (let t = at_time now clock in
      if \<not> validate_descriptor_freshness desc t then (rset, Some EINVAL)
      else
        let url = or_empty (d_api_https_addr desc);
            merged = merge_descriptor (tt_get tb (rs_relays rset) url) desc t;
            rollback = (address_key desc \<noteq> [] \<and>
              (case tt_get kb (rs_key_index rset) (address_key desc) of
                 None \<Rightarrow> False
               | Some prev \<Rightarrow> t \<le> k_tombstone_until prev \<and> k_issued_at prev - d_issued_at desc > 0))
        in if rollback then (rset, Some EACCES) else (store_descriptor tb kb rset url merged desc, None))"

section \<open>Failures and backoff\<close>

definition recovery_backoff :: "int \<Rightarrow> int \<Rightarrow> int" where
  "recovery_backoff failures recovery_failures =
     (let over = min 3 (failures - recovery_failures);
          backoff = push_bit (nat over) PORTILLIA_DEFAULT_DIRECT_RECOVERY_BACKOFF_SEC
      in min backoff PORTILLIA_MAX_DIRECT_RECOVERY_BACKOFF_SEC)"

text \<open>The new set, whether the relay is backed off, the reason and the failure count.\<close>

definition portillia_relay_set_record_discovery_failure ::
  "'t relay_table \<Rightarrow> ('t, 'k) portillia_relay_set \<Rightarrow> cstring \<Rightarrow> int \<Rightarrow> time_t \<Rightarrow>
   ('t, 'k) portillia_relay_set \<times> bool \<times> cstring option \<times> int" where
  "portillia_relay_set_record_discovery_failure tb rset url recovery_failures now =
     (case tt_get tb (rs_relays rset) url of
        None \<Rightarrow> (rset, False, None, 0)
      | Some s \<Rightarrow>
          let n = discovery_failures s + 1
          in if recovery_failures > 0 \<and> n \<ge> recovery_failures
             then (change_url tb rset url (\<lambda>s. s\<lparr>discovery_failures := n,
                     next_discovery_refresh_at := now + recovery_backoff n recovery_failures\<rparr>), True, Some ''discovery'', n)
             else (change_url tb rset url (\<lambda>s. s\<lparr>discovery_failures := n\<rparr>), False, None, n))"

definition portillia_relay_set_record_active_failure ::
  "'t relay_table \<Rightarrow> ('t, 'k) portillia_relay_set \<Rightarrow> cstring \<Rightarrow> int \<Rightarrow> time_t \<Rightarrow>
   ('t, 'k) portillia_relay_set \<times> bool \<times> cstring option \<times> int" where
  "portillia_relay_set_record_active_failure tb rset url recovery_failures now =
     (case tt_get tb (rs_relays rset) url of
        None \<Rightarrow> (rset, False, None, 0)
      | Some s \<Rightarrow>
          let n = active_failures s + 1
          in if recovery_failures > 0 \<and> n \<ge> recovery_failures
             then (change_url tb rset url (\<lambda>s. s\<lparr>active_failures := n,
                     suppress_active_until := now + recovery_backoff n recovery_failures\<rparr>), True, Some ''active'', n)
             else (change_url tb rset url (\<lambda>s. s\<lparr>active_failures := n\<rparr>), False, None, n))"

section \<open>What the tables promise\<close>

definition slot_keys :: "('t, 'v) ttak_table \<Rightarrow> 't \<Rightarrow> cstring set" where
  "slot_keys tb t = fst ` set (tt_occupied tb t)"

definition put_law :: "('t, 'v) ttak_table \<Rightarrow> ('t \<Rightarrow> bool) \<Rightarrow> bool" where
  "put_law tb valid \<longleftrightarrow> (\<forall>t k v. valid t \<longrightarrow> valid (tt_put tb t k v) \<and> tt_get tb (tt_put tb t k v) k = Some v \<and>
     (\<forall>k'. \<not> strcasecmp_eq k k' \<longrightarrow> tt_get tb (tt_put tb t k v) k' = tt_get tb t k') \<and>
     slot_keys tb (tt_put tb t k v) \<subseteq> insert k (slot_keys tb t))"

definition remove_law :: "('t, 'v) ttak_table \<Rightarrow> ('t \<Rightarrow> bool) \<Rightarrow> bool" where
  "remove_law tb valid \<longleftrightarrow> (\<forall>t k. valid t \<longrightarrow> valid (tt_remove tb t k) \<and> tt_get tb (tt_remove tb t k) k = None \<and>
     (\<forall>k'. \<not> strcasecmp_eq k k' \<longrightarrow> tt_get tb (tt_remove tb t k) k' = tt_get tb t k') \<and>
     slot_keys tb (tt_remove tb t k) \<subseteq> slot_keys tb t)"

definition modify_law :: "('t, 'v) ttak_table \<Rightarrow> ('t \<Rightarrow> bool) \<Rightarrow> bool" where
  "modify_law tb valid \<longleftrightarrow> (\<forall>t k f. valid t \<longrightarrow> valid (tt_modify tb t k f) \<and>
     tt_get tb (tt_modify tb t k f) k = map_option f (tt_get tb t k) \<and>
     (\<forall>k'. \<not> strcasecmp_eq k k' \<longrightarrow> tt_get tb (tt_modify tb t k f) k' = tt_get tb t k') \<and>
     slot_keys tb (tt_modify tb t k f) \<subseteq> slot_keys tb t)"

definition modify_all_law :: "('t, 'v) ttak_table \<Rightarrow> ('t \<Rightarrow> bool) \<Rightarrow> bool" where
  "modify_all_law tb valid \<longleftrightarrow> (\<forall>t f. valid t \<longrightarrow> valid (tt_modify_all tb t f) \<and>
     (\<forall>k. tt_get tb (tt_modify_all tb t f) k = map_option f (tt_get tb t k)) \<and>
     slot_keys tb (tt_modify_all tb t f) \<subseteq> slot_keys tb t)"

definition occupied_law :: "('t, 'v) ttak_table \<Rightarrow> ('t \<Rightarrow> bool) \<Rightarrow> bool" where
  "occupied_law tb valid \<longleftrightarrow> (\<forall>t k v. valid t \<longrightarrow> (k, v) \<in> set (tt_occupied tb t) \<longrightarrow> tt_get tb t k = Some v)"

definition empty_law :: "('t, 'v) ttak_table \<Rightarrow> ('t \<Rightarrow> bool) \<Rightarrow> bool" where
  "empty_law tb valid \<longleftrightarrow> valid (tt_empty tb) \<and> tt_occupied tb (tt_empty tb) = [] \<and> (\<forall>k. tt_get tb (tt_empty tb) k = None)"

definition table_laws :: "('t, 'v) ttak_table \<Rightarrow> ('t \<Rightarrow> bool) \<Rightarrow> bool" where
  "table_laws tb valid \<longleftrightarrow> empty_law tb valid \<and> put_law tb valid \<and> remove_law tb valid \<and> modify_law tb valid \<and>
     modify_all_law tb valid \<and> occupied_law tb valid"

lemma table_valid:
  assumes "table_laws tb valid"
  shows "valid (tt_empty tb)" "valid t \<Longrightarrow> valid (tt_put tb t k v)" "valid t \<Longrightarrow> valid (tt_remove tb t k)"
    "valid t \<Longrightarrow> valid (tt_modify tb t k f)" "valid t \<Longrightarrow> valid (tt_modify_all tb t f)"
  using assms
  by (simp_all add: table_laws_def empty_law_def put_law_def remove_law_def modify_law_def modify_all_law_def)

lemma table_keys:
  assumes "table_laws tb valid" "valid t"
  shows "slot_keys tb (tt_put tb t k v) \<subseteq> insert k (slot_keys tb t)" "slot_keys tb (tt_remove tb t k) \<subseteq> slot_keys tb t"
    "slot_keys tb (tt_modify tb t k f) \<subseteq> slot_keys tb t" "slot_keys tb (tt_modify_all tb t g) \<subseteq> slot_keys tb t"
  using assms by (simp_all add: table_laws_def put_law_def remove_law_def modify_law_def modify_all_law_def)

text \<open>Among keys that are equal or differ in more than case, a table is a map.\<close>

definition canonical :: "cstring set \<Rightarrow> bool" where
  "canonical U \<longleftrightarrow> (\<forall>a \<in> U. \<forall>b \<in> U. strcasecmp_eq a b \<longrightarrow> a = b)"

lemma table_get:
  assumes "table_laws tb valid" "valid t" "canonical U" "k \<in> U" "k' \<in> U"
  shows "tt_get tb (tt_put tb t k v) k' = (if k' = k then Some v else tt_get tb t k')"
    "tt_get tb (tt_remove tb t k) k' = (if k' = k then None else tt_get tb t k')"
    "tt_get tb (tt_modify tb t k f) k' = (if k' = k then map_option f (tt_get tb t k) else tt_get tb t k')"
proof -
  have "\<not> strcasecmp_eq k k'" if "k' \<noteq> k" using assms(3-5) that by (auto simp: canonical_def)
  then show "tt_get tb (tt_put tb t k v) k' = (if k' = k then Some v else tt_get tb t k')"
    "tt_get tb (tt_remove tb t k) k' = (if k' = k then None else tt_get tb t k')"
    "tt_get tb (tt_modify tb t k f) k' = (if k' = k then map_option f (tt_get tb t k) else tt_get tb t k')"
    using assms(1,2)
    by (cases "k' = k"; simp add: table_laws_def put_law_def remove_law_def modify_law_def)+
qed

lemma table_get_all:
  "table_laws tb valid \<Longrightarrow> valid t \<Longrightarrow> tt_get tb (tt_modify_all tb t f) k = map_option f (tt_get tb t k)"
  "table_laws tb valid \<Longrightarrow> tt_get tb (tt_empty tb) k = None"
  "table_laws tb valid \<Longrightarrow> slot_keys tb (tt_empty tb) = {}"
  "table_laws tb valid \<Longrightarrow> valid t \<Longrightarrow> (k, v) \<in> set (tt_occupied tb t) \<Longrightarrow> tt_get tb t k = Some v"
  by (simp_all add: table_laws_def empty_law_def modify_all_law_def occupied_law_def slot_keys_def)

lemma canonical_lower: "canonical {a. str_tolower a = a}"
  by (auto simp: canonical_def strcasecmp_eq_def)

section \<open>Sequences of operations\<close>

datatype relay_op =
    Set_bootstrap "cstring option list"
  | Add_bootstrap "cstring option"
  | Remove_bootstrap "cstring option"
  | Ban cstring
  | Allow cstring
  | Confirm cstring
  | Unconfirm cstring
  | Rtt cstring real time_t
  | Response "cstring option" portillia_discovery_response time_t time_t
  | Announced portillia_relay_descriptor time_t time_t
  | Discovery_failure cstring int time_t
  | Active_failure cstring int time_t

fun relay_exec ::
  "'t relay_table \<Rightarrow> 'k key_table \<Rightarrow> cstring \<Rightarrow> relay_op \<Rightarrow> ('t, 'k) portillia_relay_set \<Rightarrow> ('t, 'k) portillia_relay_set"
  where
  "relay_exec tb kb ver (Set_bootstrap urls) rset = portillia_relay_set_set_bootstrap_urls tb rset urls"
| "relay_exec tb kb ver (Add_bootstrap url) rset = portillia_relay_set_add_bootstrap_url tb rset url"
| "relay_exec tb kb ver (Remove_bootstrap url) rset = portillia_relay_set_remove_bootstrap_url tb rset url"
| "relay_exec tb kb ver (Ban url) rset = portillia_relay_set_ban_url tb rset url"
| "relay_exec tb kb ver (Allow url) rset = portillia_relay_set_allow_url tb rset url"
| "relay_exec tb kb ver (Confirm url) rset = portillia_relay_set_confirm_url tb rset url"
| "relay_exec tb kb ver (Unconfirm url) rset = portillia_relay_set_unconfirm_url tb rset url"
| "relay_exec tb kb ver (Rtt url ms t) rset = portillia_relay_set_record_discovery_rtt tb rset url ms t"
| "relay_exec tb kb ver (Response target resp now clock) rset =
     fst (portillia_relay_set_apply_discovery_response tb kb ver rset target resp now clock)"
| "relay_exec tb kb ver (Announced desc now clock) rset =
     fst (portillia_relay_set_insert_announced tb kb rset desc now clock)"
| "relay_exec tb kb ver (Discovery_failure url r now) rset =
     fst (portillia_relay_set_record_discovery_failure tb rset url r now)"
| "relay_exec tb kb ver (Active_failure url r now) rset =
     fst (portillia_relay_set_record_active_failure tb rset url r now)"

definition relay_run ::
  "'t relay_table \<Rightarrow> 'k key_table \<Rightarrow> cstring \<Rightarrow> relay_op list \<Rightarrow> ('t, 'k) portillia_relay_set \<Rightarrow> ('t, 'k) portillia_relay_set"
  where
  "relay_run tb kb ver ops rset = foldl (\<lambda>s op. relay_exec tb kb ver op s) rset ops"

section \<open>Rollback defence\<close>

definition key_inv :: "'k key_table \<Rightarrow> ('k \<Rightarrow> bool) \<Rightarrow> 'k \<Rightarrow> bool" where
  "key_inv kb valid k \<longleftrightarrow> valid k \<and>
     (\<forall>a e. str_tolower a = a \<and> tt_get kb k a = Some e \<longrightarrow> k_tombstone_until e = k_issued_at e + 86400)"

definition key_newer :: "'k key_table \<Rightarrow> 'k \<Rightarrow> 'k \<Rightarrow> bool" where
  "key_newer kb k k' \<longleftrightarrow>
     (\<forall>a e. str_tolower a = a \<and> tt_get kb k a = Some e \<longrightarrow> (\<exists>e'. tt_get kb k' a = Some e' \<and> k_issued_at e \<le> k_issued_at e'))"

lemma key_inv_tombstone:
  "key_inv kb valid k \<Longrightarrow> str_tolower a = a \<Longrightarrow> tt_get kb k a = Some e \<Longrightarrow> k_tombstone_until e = k_issued_at e + 86400"
  by (simp add: key_inv_def)

lemma key_newer_refl [simp]: "key_newer kb k k"
  by (auto simp: key_newer_def)

lemma key_newer_trans: "key_newer kb k k' \<Longrightarrow> key_newer kb k' k'' \<Longrightarrow> key_newer kb k k''"
  unfolding key_newer_def by (meson order_trans)

lemma address_key_lower [simp]: "str_tolower (address_key desc) = address_key desc"
  by (simp add: address_key_def)

lemma address_key_Nil: "address_key desc = [] \<longleftrightarrow> \<not> nonempty (d_address desc)"
  by (simp add: address_key_def nonempty_def)

text \<open>An index entry whose tombstone has passed is older than any fresh descriptor.\<close>

lemma fresh_after_tombstone:
  assumes "validate_descriptor_freshness desc now" "now > issued + 86400"
  shows "issued < d_issued_at desc"
  using assms by (simp add: validate_descriptor_freshness_def PORTILLIA_ANNOUNCE_MAX_VALIDITY_SEC_def)

lemma store_key_index:
  assumes laws: "table_laws kb valid" and inv: "key_inv kb valid (rs_key_index rset)"
    and newer: "\<And>e. tt_get kb (rs_key_index rset) (address_key desc) = Some e \<Longrightarrow> address_key desc \<noteq> [] \<Longrightarrow>
      k_issued_at e \<le> d_issued_at desc"
  shows "key_inv kb valid (rs_key_index (store_descriptor tb kb rset url merged desc)) \<and>
    key_newer kb (rs_key_index rset) (rs_key_index (store_descriptor tb kb rset url merged desc))"
proof (cases "nonempty (d_address desc)")
  case True
  have valid: "valid (rs_key_index rset)" using inv by (simp add: key_inv_def)
  let ?e = "\<lparr>k_issued_at = d_issued_at desc, k_tombstone_until = d_issued_at desc + PORTILLIA_ANNOUNCE_MAX_VALIDITY_SEC\<rparr>"
  have get: "tt_get kb (tt_put kb (rs_key_index rset) (address_key desc) ?e) a =
      (if a = address_key desc then Some ?e else tt_get kb (rs_key_index rset) a)" if "str_tolower a = a" for a
    using table_get(1) [OF laws valid canonical_lower, of "address_key desc" a] that by simp
  have "rs_key_index (store_descriptor tb kb rset url merged desc) = tt_put kb (rs_key_index rset) (address_key desc) ?e"
    using True by (simp add: store_descriptor_def Let_def)
  moreover have "key_inv kb valid (tt_put kb (rs_key_index rset) (address_key desc) ?e)"
    using inv table_valid(2) [OF laws valid] unfolding key_inv_def
    by (auto simp: get split: if_splits) (simp add: PORTILLIA_ANNOUNCE_MAX_VALIDITY_SEC_def)
  moreover have "key_newer kb (rs_key_index rset) (tt_put kb (rs_key_index rset) (address_key desc) ?e)"
    using newer True by (auto simp: key_newer_def get address_key_Nil)
  ultimately show ?thesis by simp
qed (use inv in \<open>simp add: store_descriptor_def Let_def\<close>)

lemma apply_descriptor_key_index:
  assumes laws: "table_laws kb valid" and inv: "key_inv kb valid (rs_key_index rset)"
    and res: "apply_descriptor tb kb target mismatch now (rset, ch) desc = (rset', ch')"
  shows "key_inv kb valid (rs_key_index rset') \<and> key_newer kb (rs_key_index rset) (rs_key_index rset')"
proof -
  let ?k = "address_key desc" and ?prev = "tt_get kb (rs_key_index rset) (address_key desc)"
  let ?rollback = "?k \<noteq> [] \<and> (case ?prev of None \<Rightarrow> False | Some prev \<Rightarrow>
      if now > k_tombstone_until prev \<and> k_tombstone_until prev \<noteq> 0 then False
      else k_issued_at prev - d_issued_at desc > 0)"
  show ?thesis
  proof (cases "\<not> nonempty (d_api_https_addr desc) \<or> \<not> validate_descriptor_freshness desc now \<or> ?rollback")
    case True
    then show ?thesis using res inv by (auto simp: apply_descriptor_def Let_def split: if_splits)
  next
    case False
    then obtain url merged where "rset' = store_descriptor tb kb rset url merged desc"
      using res by (auto simp: apply_descriptor_def Let_def)
    moreover have "k_issued_at e \<le> d_issued_at desc" if e: "?prev = Some e" "?k \<noteq> []" for e
    proof (cases "now > k_tombstone_until e \<and> k_tombstone_until e \<noteq> 0")
      case True
      then have "now > k_issued_at e + 86400" using key_inv_tombstone [OF inv _ e(1)] by simp
      then show ?thesis using fresh_after_tombstone [of desc now "k_issued_at e"] False by simp
    qed (use False e in auto)
    ultimately show ?thesis using store_key_index [OF laws inv] by blast
  qed
qed

lemma insert_announced_key_index:
  assumes laws: "table_laws kb valid" and inv: "key_inv kb valid (rs_key_index rset)"
  shows "key_inv kb valid (rs_key_index (fst (portillia_relay_set_insert_announced tb kb rset desc now clock))) \<and>
    key_newer kb (rs_key_index rset) (rs_key_index (fst (portillia_relay_set_insert_announced tb kb rset desc now clock)))"
proof -
  let ?k = "address_key desc" and ?prev = "tt_get kb (rs_key_index rset) (address_key desc)" and ?t = "at_time now clock"
  let ?rollback = "?k \<noteq> [] \<and> (case ?prev of None \<Rightarrow> False | Some prev \<Rightarrow>
      ?t \<le> k_tombstone_until prev \<and> k_issued_at prev - d_issued_at desc > 0)"
  show ?thesis
  proof (cases "validate_descriptor_freshness desc ?t \<and> \<not> ?rollback")
    case False
    then show ?thesis using inv by (auto simp: portillia_relay_set_insert_announced_def Let_def)
  next
    case True
    then obtain url merged where store: "fst (portillia_relay_set_insert_announced tb kb rset desc now clock) =
        store_descriptor tb kb rset url merged desc"
      by (auto simp: portillia_relay_set_insert_announced_def Let_def)
    have "k_issued_at e \<le> d_issued_at desc" if e: "?prev = Some e" "?k \<noteq> []" for e
    proof (cases "?t \<le> k_tombstone_until e")
      case False
      then have "?t > k_issued_at e + 86400" using key_inv_tombstone [OF inv _ e(1)] by simp
      then show ?thesis using fresh_after_tombstone [of desc ?t "k_issued_at e"] True by simp
    qed (use True e in auto)
    then show ?thesis using store_key_index [OF laws inv] unfolding store by blast
  qed
qed

lemma apply_response_key_index:
  assumes laws: "table_laws kb valid" and inv: "key_inv kb valid (rs_key_index rset)"
  shows "key_inv kb valid (rs_key_index (fst (foldl (apply_descriptor tb kb target mismatch now) (rset, ch) descs))) \<and>
    key_newer kb (rs_key_index rset)
      (rs_key_index (fst (foldl (apply_descriptor tb kb target mismatch now) (rset, ch) descs)))"
  using inv
proof (induction descs arbitrary: rset ch)
  case (Cons desc descs)
  obtain rset1 ch1 where s: "apply_descriptor tb kb target mismatch now (rset, ch) desc = (rset1, ch1)"
    by (metis prod.exhaust)
  note k = apply_descriptor_key_index [OF laws Cons.prems s]
  show ?case
    using Cons.IH [of rset1 ch1] k key_newer_trans [of kb "rs_key_index rset" "rs_key_index rset1"] s by auto
qed simp

lemma key_index_unchanged [simp]:
  "rs_key_index (portillia_relay_set_set_bootstrap_urls tb rset urls) = rs_key_index rset"
  "rs_key_index (portillia_relay_set_add_bootstrap_url tb rset url) = rs_key_index rset"
  "rs_key_index (portillia_relay_set_remove_bootstrap_url tb rset url) = rs_key_index rset"
  "rs_key_index (upsert_url tb rset u f g) = rs_key_index rset"
  "rs_key_index (change_url tb rset u f) = rs_key_index rset"
  by (simp_all add: portillia_relay_set_set_bootstrap_urls_def portillia_relay_set_add_bootstrap_url_def
      portillia_relay_set_remove_bootstrap_url_def upsert_url_def change_url_def Let_def split: option.split)

lemmas url_op_defs = portillia_relay_set_ban_url_def portillia_relay_set_allow_url_def
  portillia_relay_set_confirm_url_def portillia_relay_set_unconfirm_url_def
  portillia_relay_set_record_discovery_rtt_def

lemma exec_key_index:
  assumes "table_laws kb valid" "key_inv kb valid (rs_key_index rset)"
  shows "key_inv kb valid (rs_key_index (relay_exec tb kb ver op rset)) \<and>
    key_newer kb (rs_key_index rset) (rs_key_index (relay_exec tb kb ver op rset))"
proof (cases op)
  case (Response target resp now clock)
  then show ?thesis
    using apply_response_key_index [OF assms]
    by (simp add: portillia_relay_set_apply_discovery_response_def case_prod_beta Let_def)
next
  case (Announced desc now clock)
  then show ?thesis using insert_announced_key_index [OF assms] by simp
qed (use assms in \<open>auto simp: url_op_defs portillia_relay_set_record_discovery_failure_def
      portillia_relay_set_record_active_failure_def Let_def split: option.split\<close>)

lemma run_key_index:
  assumes "table_laws kb valid" "key_inv kb valid (rs_key_index rset)"
  shows "key_inv kb valid (rs_key_index (relay_run tb kb ver ops rset)) \<and>
    key_newer kb (rs_key_index rset) (rs_key_index (relay_run tb kb ver ops rset))"
  using assms(2)
proof (induction ops arbitrary: rset)
  case (Cons op ops)
  note k = exec_key_index [OF assms(1) Cons.prems, of tb ver op]
  show ?case
    using Cons.IH [of "relay_exec tb kb ver op rset"] k
      key_newer_trans [of kb "rs_key_index rset" "rs_key_index (relay_exec tb kb ver op rset)"]
    by (auto simp: relay_run_def)
qed (simp add: relay_run_def)

lemma create_key_index:
  "table_laws kb valid \<Longrightarrow> key_inv kb valid (rs_key_index (portillia_relay_set_create tb kb urls))"
  using table_valid(1) [of kb valid] table_get_all(2) [of kb valid]
  by (auto simp: portillia_relay_set_create_def key_inv_def Let_def)

text \<open>C8. Rollback defence: the newest issue time known for an identity never goes back. However
  responses, announcements and other calls are interleaved, and whatever clock values they see, once
  an address is indexed it stays indexed, with an issue time that never decreases, even though an
  entry whose tombstone has passed is replaced without comparing the two.\<close>

theorem rollback_defence:
  assumes "table_laws kb valid" "str_tolower addr = addr"
    and "before = relay_run tb kb ver ops (portillia_relay_set_create tb kb urls)"
    and "tt_get kb (rs_key_index before) addr = Some e"
  shows "\<exists>e'. tt_get kb (rs_key_index (relay_run tb kb ver ops' before)) addr = Some e' \<and>
    k_issued_at e \<le> k_issued_at e'"
proof -
  have "key_inv kb valid (rs_key_index before)"
    using run_key_index [OF assms(1) create_key_index [OF assms(1)]] assms(3) by blast
  then have "key_newer kb (rs_key_index before) (rs_key_index (relay_run tb kb ver ops' before))"
    using run_key_index [OF assms(1)] by blast
  then show ?thesis using assms(2,4) by (simp add: key_newer_def)
qed

section \<open>An instance of the tables\<close>

text \<open>An association list whose keys are distinct, compared byte by byte.\<close>

definition list_table :: "((cstring \<times> 'v) list, 'v) ttak_table" where
  "list_table = \<lparr>tt_empty = [], tt_get = map_of, tt_put = (\<lambda>t k v. AList.update k v t),
     tt_remove = (\<lambda>t k. AList.delete k t), tt_modify = (\<lambda>t k f. AList.map_entry k f t),
     tt_modify_all = (\<lambda>t f. map (\<lambda>(k, v). (k, f v)) t), tt_occupied = (\<lambda>t. t)\<rparr>"

definition list_table_valid :: "(cstring \<times> 'v) list \<Rightarrow> bool" where
  "list_table_valid t \<longleftrightarrow> distinct (map fst t)"

lemma map_of_map_snd: "map_of (map (\<lambda>(k, v). (k, f v)) t) k = map_option f (map_of t k)"
  by (induction t) auto

lemma list_table_laws: "table_laws list_table list_table_valid"
proof -
  have "put_law list_table list_table_valid"
    by (auto simp: put_law_def list_table_def list_table_valid_def slot_keys_def AList.distinct_update
        AList.update_conv' AList.dom_update)
  moreover have "remove_law list_table list_table_valid"
    by (auto simp: remove_law_def list_table_def list_table_valid_def slot_keys_def AList.distinct_delete
        AList.delete_conv') (force simp: AList.delete_eq)
  moreover have "modify_law list_table list_table_valid"
    by (auto simp: modify_law_def list_table_def list_table_valid_def slot_keys_def AList.distinct_map_entry
        AList.map_of_map_entry AList.dom_map_entry split: option.split)
  moreover have "modify_all_law list_table list_table_valid"
    by (auto simp: modify_all_law_def list_table_def list_table_valid_def slot_keys_def map_of_map_snd
        comp_def case_prod_beta) force
  moreover have "occupied_law list_table list_table_valid"
    by (auto simp: occupied_law_def list_table_def list_table_valid_def)
  moreover have "empty_law list_table list_table_valid"
    by (simp add: empty_law_def list_table_def list_table_valid_def)
  ultimately show ?thesis by (simp add: table_laws_def)
qed

definition sample_desc :: "cstring \<Rightarrow> cstring \<Rightarrow> int \<Rightarrow> portillia_relay_descriptor" where
  "sample_desc url addr issued = portillia_relay_descriptor_init
     \<lparr>d_api_https_addr := Some url, d_address := Some addr, d_issued_at := issued, d_expires_at := issued + 3600\<rparr>"

lemma sample_announced:
  "\<exists>e. tt_get list_table (rs_key_index (relay_run list_table list_table ''9'' [Announced (sample_desc ''u'' ''0xab'' 1000) 1100 0]
      (portillia_relay_set_create list_table list_table []))) ''0xab'' = Some e \<and> k_issued_at e = 1000"
  by (simp add: relay_run_def portillia_relay_set_create_def portillia_relay_set_insert_announced_def Let_def
      at_time_def validate_descriptor_freshness_def sample_desc_def portillia_relay_descriptor_init_def
      PORTILLIA_ANNOUNCE_CLOCK_SKEW_TOLERANCE_SEC_def PORTILLIA_ANNOUNCE_MAX_VALIDITY_SEC_def
      address_key_def str_tolower_def char_tolower_def char_code_def store_descriptor_def list_table_def)

theorem rollback_defence_witness:
  "\<exists>e'. tt_get list_table (rs_key_index (relay_run list_table list_table ''9'' [Announced (sample_desc ''u'' ''0xAB'' 900) 1200 0]
      (relay_run list_table list_table ''9'' [Announced (sample_desc ''u'' ''0xab'' 1000) 1100 0]
        (portillia_relay_set_create list_table list_table [])))) ''0xab'' = Some e' \<and> 1000 \<le> k_issued_at e'"
proof -
  obtain e where e: "tt_get list_table (rs_key_index (relay_run list_table list_table ''9'' [Announced (sample_desc ''u'' ''0xab'' 1000) 1100 0]
      (portillia_relay_set_create list_table list_table []))) ''0xab'' = Some e" "k_issued_at e = 1000"
    using sample_announced by blast
  have "str_tolower ''0xab'' = ''0xab''" by (simp add: str_tolower_def char_tolower_def char_code_def)
  from rollback_defence [OF list_table_laws this refl e(1), of "[Announced (sample_desc ''u'' ''0xAB'' 900) 1200 0]"] e(2)
  show ?thesis by simp
qed

section \<open>Bans\<close>

text \<open>The URLs an operation names.\<close>

definition url_of :: "portillia_relay_descriptor \<Rightarrow> cstring" where
  "url_of desc = or_empty (d_api_https_addr desc)"

fun op_urls :: "relay_op \<Rightarrow> cstring set" where
  "op_urls (Set_bootstrap urls) = {u. Some u \<in> set urls}"
| "op_urls (Add_bootstrap url) = {u. Some u = url}"
| "op_urls (Remove_bootstrap url) = {u. Some u = url}"
| "op_urls (Response target resp now clock) = url_of ` set (dr_relays resp)"
| "op_urls (Announced desc now clock) = {url_of desc}"
| "op_urls (Ban url) = {url}"
| "op_urls (Allow url) = {url}"
| "op_urls (Confirm url) = {url}"
| "op_urls (Unconfirm url) = {url}"
| "op_urls (Rtt url _ _) = {url}"
| "op_urls (Discovery_failure url _ _) = {url}"
| "op_urls (Active_failure url _ _) = {url}"

text \<open>Every state is stored under its own URL, and the URLs in \<open>X\<close> are banned.\<close>

definition relay_inv ::
  "'t relay_table \<Rightarrow> ('t \<Rightarrow> bool) \<Rightarrow> cstring set \<Rightarrow> cstring set \<Rightarrow> 't \<Rightarrow> bool" where
  "relay_inv tb valid U X t \<longleftrightarrow> valid t \<and> slot_keys tb t \<subseteq> U \<and>
     (\<forall>u \<in> U. \<forall>s. tt_get tb t u = Some s \<longrightarrow> state_url s = u) \<and>
     (\<forall>u \<in> X. \<exists>s. tt_get tb t u = Some s \<and> banned s)"

definition keeps :: "(portillia_relay_state \<Rightarrow> portillia_relay_state) \<Rightarrow> bool" where
  "keeps f \<longleftrightarrow> (\<forall>s. state_url (f s) = state_url s \<and> (banned s \<longrightarrow> banned (f s)))"

lemma keepsI [intro]: "(\<And>s. state_url (f s) = state_url s) \<Longrightarrow> (\<And>s. banned s \<Longrightarrow> banned (f s)) \<Longrightarrow> keeps f"
  by (simp add: keeps_def)

lemma relay_inv_modify:
  assumes "table_laws tb valid" "canonical U" "X \<subseteq> U" "u \<in> U" "keeps f" "relay_inv tb valid U X t"
  shows "relay_inv tb valid U X (tt_modify tb t u f)"
proof -
  have v: "valid t" using assms(6) by (simp add: relay_inv_def)
  note get = table_get(3) [OF assms(1) v assms(2,4)]
  have "state_url s' = k" if k: "k \<in> U" "tt_get tb (tt_modify tb t u f) k = Some s'" for k s'
  proof -
    obtain s where "tt_get tb t k = Some s" "state_url s' = state_url s"
      using k get [of k f] assms(5) by (auto simp: keeps_def split: if_splits)
    then show ?thesis using assms(6) k(1) unfolding relay_inv_def by blast
  qed
  moreover have "\<exists>s'. tt_get tb (tt_modify tb t u f) k = Some s' \<and> banned s'" if k: "k \<in> X" for k
  proof -
    obtain s where "tt_get tb t k = Some s" "banned s" using assms(6) k unfolding relay_inv_def by blast
    moreover have "k \<in> U" using assms(3) k by blast
    ultimately show ?thesis using assms(5) get [of k f] by (cases "k = u") (simp_all add: keeps_def)
  qed
  moreover have "slot_keys tb (tt_modify tb t u f) \<subseteq> U"
    using assms(6) table_keys(3) [OF assms(1) v, of u f] unfolding relay_inv_def by blast
  ultimately show ?thesis
    using table_valid(4) [OF assms(1) v] unfolding relay_inv_def by blast
qed

lemma relay_inv_modify_all:
  assumes "table_laws tb valid" "keeps f" "relay_inv tb valid U X t"
  shows "relay_inv tb valid U X (tt_modify_all tb t f)"
proof -
  have v: "valid t" using assms(3) by (simp add: relay_inv_def)
  show ?thesis
    using assms(2,3) table_valid(5) [OF assms(1) v] table_keys(4) [OF assms(1) v, of f]
    unfolding relay_inv_def keeps_def by (auto simp: table_get_all(1) [OF assms(1) v])
qed

lemma relay_inv_put:
  assumes "table_laws tb valid" "canonical U" "X \<subseteq> U" "u \<in> U" "relay_inv tb valid U X t"
    and "state_url s = u" "u \<in> X \<longrightarrow> banned s"
  shows "relay_inv tb valid U X (tt_put tb t u s)"
proof -
  have v: "valid t" using assms(5) by (simp add: relay_inv_def)
  note get = table_get(1) [OF assms(1) v assms(2,4)]
  show ?thesis
    using assms(3-7) table_valid(2) [OF assms(1) v] table_keys(1) [OF assms(1) v, of u s]
    unfolding relay_inv_def
    by (intro conjI ballI allI impI) (auto simp: get subset_iff split: if_splits)
qed

lemma relay_inv_remove:
  assumes "table_laws tb valid" "canonical U" "X \<subseteq> U" "u \<in> U" "u \<notin> X" "relay_inv tb valid U X t"
  shows "relay_inv tb valid U X (tt_remove tb t u)"
proof -
  have v: "valid t" using assms(6) by (simp add: relay_inv_def)
  note get = table_get(2) [OF assms(1) v assms(2,4)]
  show ?thesis
    using assms(3-6) table_valid(3) [OF assms(1) v] table_keys(2) [OF assms(1) v, of u]
    unfolding relay_inv_def
    by (intro conjI ballI allI impI) (auto simp: get subset_iff split: if_splits)
qed

text \<open>The laws, the URLs in use and the banned ones, fixed for the rest of this section.\<close>

definition relay_ctx ::
  "'t relay_table \<Rightarrow> ('t \<Rightarrow> bool) \<Rightarrow> cstring set \<Rightarrow> cstring set \<Rightarrow> bool" where
  "relay_ctx tb valid U X \<longleftrightarrow> table_laws tb valid \<and> canonical U \<and> X \<subseteq> U"

lemma relay_inv_mark:
  assumes "relay_ctx tb valid U X" "relay_inv tb valid U X t" "{u. Some u = url} \<subseteq> U"
  shows "relay_inv tb valid U X (mark_bootstrap tb url t)"
proof (cases "nonempty url")
  case True
  then obtain u where u: "url = Some u" "u \<in> U" using assms(3) by (cases url) auto
  have keep: "keeps (\<lambda>s. s\<lparr>bootstrap := True\<rparr>)" by (auto simp: state_url_def)
  have new: "state_url ((url_relay_state u)\<lparr>bootstrap := True\<rparr>) = u"
    by (simp add: state_url_def url_relay_state_def)
  show ?thesis
  proof (cases "tt_get tb t u")
    case None
    then have "u \<notin> X" using assms(2) unfolding relay_inv_def by force
    then show ?thesis
      using relay_inv_put [OF _ _ _ u(2) assms(2) new] assms(1) True u(1) None
      by (simp add: mark_bootstrap_def relay_ctx_def)
  next
    case (Some s)
    then show ?thesis
      using relay_inv_modify [OF _ _ _ u(2) keep assms(2)] assms(1) True u(1)
      by (simp add: mark_bootstrap_def relay_ctx_def)
  qed
qed (use assms(2) in \<open>simp add: mark_bootstrap_def\<close>)

lemma relay_inv_marks:
  assumes "relay_ctx tb valid U X" "relay_inv tb valid U X t" "{u. Some u \<in> set urls} \<subseteq> U"
  shows "relay_inv tb valid U X (foldl (\<lambda>t url. mark_bootstrap tb url t) t urls)"
  using assms(2,3)
proof (induction urls arbitrary: t)
  case (Cons url urls)
  have "relay_inv tb valid U X (mark_bootstrap tb url t)"
    by (rule relay_inv_mark [OF assms(1) Cons.prems(1)]) (use Cons.prems(2) in auto)
  then show ?case using Cons.IH Cons.prems(2) by auto
qed simp

lemma relay_inv_evict:
  assumes ctx: "relay_ctx tb valid U X" and inv: "relay_inv tb valid U X t"
  shows "relay_inv tb valid U X (evict_disposable tb t)"
proof -
  have laws: "table_laws tb valid" "canonical U" "X \<subseteq> U" using ctx by (auto simp: relay_ctx_def)
  have slot: "u \<in> U \<and> (disposable s \<longrightarrow> u \<notin> X)" if us: "(u, s) \<in> set (tt_occupied tb t)" for u s
  proof -
    have "tt_get tb t u = Some s" using table_get_all(4) [OF laws(1) _ us] inv by (simp add: relay_inv_def)
    moreover have "u \<in> slot_keys tb t" using us by (force simp: slot_keys_def)
    ultimately show ?thesis using inv unfolding relay_inv_def disposable_def by force
  qed
  have "relay_inv tb valid U X (foldl (\<lambda>t' (key, s). if \<not> bootstrap s \<and> disposable s then tt_remove tb t' key else t') t' xs)"
    if "relay_inv tb valid U X t'" "set xs \<subseteq> set (tt_occupied tb t)" for t' xs
    using that
  proof (induction xs arbitrary: t')
    case (Cons x xs)
    obtain key s where x: "x = (key, s)" by (cases x)
    have "relay_inv tb valid U X (if \<not> bootstrap s \<and> disposable s then tt_remove tb t' key else t')"
      using relay_inv_remove [OF laws, of key t'] slot [of key s] Cons.prems x by auto
    then show ?case using Cons.IH Cons.prems(2) x by simp
  qed simp
  then show ?thesis using inv unfolding evict_disposable_def by blast
qed

lemma relay_inv_change:
  assumes "relay_ctx tb valid U X" "relay_inv tb valid U X (rs_relays rset)" "u \<in> U" "keeps f"
  shows "relay_inv tb valid U X (rs_relays (change_url tb rset u f))"
  using relay_inv_modify [OF _ _ _ assms(3,4,2)] assms(1,2)
  by (auto simp: change_url_def relay_ctx_def split: option.split)

lemma relay_inv_upsert:
  assumes "relay_ctx tb valid U X" "relay_inv tb valid U X (rs_relays rset)" "u \<in> U" "keeps f"
    "state_url (g (url_relay_state u)) = u"
  shows "relay_inv tb valid U X (rs_relays (upsert_url tb rset u f g))"
proof (cases "tt_get tb (rs_relays rset) u")
  case None
  then have "u \<notin> X" using assms(2) unfolding relay_inv_def by force
  then show ?thesis
    using relay_inv_put [OF _ _ _ assms(3,2,5)] assms(1) None by (simp add: upsert_url_def relay_ctx_def)
next
  case (Some s)
  then show ?thesis
    using relay_inv_modify [OF _ _ _ assms(3,4,2)] assms(1) by (simp add: upsert_url_def relay_ctx_def)
qed

lemma merge_sel [simp]:
  "state_url (merge_descriptor ex desc now) = url_of desc"
  "banned (merge_descriptor ex desc now) = (case ex of None \<Rightarrow> False | Some s \<Rightarrow> banned s)"
  "descriptor (merge_descriptor ex desc now) = portillia_relay_descriptor_copy portillia_relay_descriptor_init desc"
  by (simp_all add: merge_descriptor_def state_url_def url_of_def zero_relay_state_def Let_def split: option.split)

lemma relay_inv_store:
  assumes ctx: "relay_ctx tb valid U X" and inv: "relay_inv tb valid U X (rs_relays rset)" and u: "url_of desc \<in> U"
    and m: "descriptor merged = portillia_relay_descriptor_copy portillia_relay_descriptor_init desc"
    "banned merged = (case tt_get tb (rs_relays rset) (url_of desc) of None \<Rightarrow> False | Some s \<Rightarrow> banned s)"
  shows "relay_inv tb valid U X (rs_relays (store_descriptor tb kb rset (url_of desc) merged desc))"
proof -
  let ?s = "merged\<lparr>descriptor := portillia_relay_descriptor_copy portillia_relay_descriptor_init (descriptor merged)\<rparr>"
  have "relay_inv tb valid U X (tt_put tb (rs_relays rset) (url_of desc) ?s)"
  proof (rule relay_inv_put [OF _ _ _ u inv])
    show "state_url ?s = url_of desc" by (simp add: m state_url_def url_of_def)
    show "url_of desc \<in> X \<longrightarrow> banned ?s" using inv m(2) unfolding relay_inv_def by fastforce
  qed (use ctx in \<open>simp_all add: relay_ctx_def\<close>)
  then show ?thesis by (simp add: store_descriptor_def Let_def)
qed

lemma relay_inv_apply:
  assumes "relay_ctx tb valid U X" "relay_inv tb valid U X (rs_relays rset)" "url_of desc \<in> U"
  shows "relay_inv tb valid U X (rs_relays (fst (apply_descriptor tb kb target mismatch now (rset, ch) desc)))"
  using relay_inv_store [OF assms] assms(2)
  by (simp add: apply_descriptor_def Let_def flip: url_of_def)

lemma relay_inv_response:
  assumes "relay_ctx tb valid U X" "relay_inv tb valid U X (rs_relays rset)" "url_of ` set descs \<subseteq> U"
  shows "relay_inv tb valid U X (rs_relays (fst (foldl (apply_descriptor tb kb target mismatch now) (rset, ch) descs)))"
  using assms(2,3)
proof (induction descs arbitrary: rset ch)
  case (Cons desc descs)
  obtain rset1 ch1 where s: "apply_descriptor tb kb target mismatch now (rset, ch) desc = (rset1, ch1)"
    by (metis prod.exhaust)
  have "relay_inv tb valid U X (rs_relays rset1)"
    using relay_inv_apply [OF assms(1) Cons.prems(1), of desc kb target mismatch now ch] Cons.prems(2) s by simp
  then show ?case using Cons.IH Cons.prems(2) s by simp
qed simp

lemma relay_inv_remove_bootstrap:
  assumes ctx: "relay_ctx tb valid U X" and inv: "relay_inv tb valid U X (rs_relays rset)"
    and urls: "{u. Some u = url} \<subseteq> U"
  shows "relay_inv tb valid U X (rs_relays (portillia_relay_set_remove_bootstrap_url tb rset url))"
proof (cases "nonempty url \<and> tt_get tb (rs_relays rset) (or_empty url) \<noteq> None")
  case True
  have laws: "table_laws tb valid" "canonical U" "X \<subseteq> U" using ctx by (auto simp: relay_ctx_def)
  obtain u s where u: "url = Some u" "tt_get tb (rs_relays rset) u = Some s" using True by (cases url) auto
  have uU: "u \<in> U" using urls u(1) by simp
  have "keeps (\<lambda>s. s\<lparr>bootstrap := False\<rparr>)" by (auto simp: state_url_def)
  then have mod: "relay_inv tb valid U X (tt_modify tb (rs_relays rset) u (\<lambda>s. s\<lparr>bootstrap := False\<rparr>))"
    using relay_inv_modify [OF laws uU _ inv] by blast
  have "disposable s \<Longrightarrow> u \<notin> X" using inv u(2) unfolding relay_inv_def disposable_def by force
  then show ?thesis
    using mod relay_inv_remove [OF laws uU _ mod] True u
    by (simp add: portillia_relay_set_remove_bootstrap_url_def Let_def)
qed (use inv in \<open>auto simp: portillia_relay_set_remove_bootstrap_url_def Let_def\<close>)

lemma relay_inv_antimono: "relay_inv tb valid U X t \<Longrightarrow> Y \<subseteq> X \<Longrightarrow> relay_inv tb valid U Y t"
  unfolding relay_inv_def by blast

lemma relay_inv_allow:
  assumes ctx: "relay_ctx tb valid U X" and inv: "relay_inv tb valid U X (rs_relays rset)"
    and u: "u \<in> U" "u \<notin> X"
  shows "relay_inv tb valid U X (rs_relays (portillia_relay_set_allow_url tb rset u))"
proof (cases "tt_get tb (rs_relays rset) u")
  case (Some s)
  have laws: "table_laws tb valid" "canonical U" using ctx by (auto simp: relay_ctx_def)
  have v: "valid (rs_relays rset)" using inv by (simp add: relay_inv_def)
  note get = table_get(3) [OF laws(1) v laws(2) u(1), of _ "\<lambda>s. s\<lparr>banned := False\<rparr>"]
  let ?t = "tt_modify tb (rs_relays rset) u (\<lambda>s. s\<lparr>banned := False\<rparr>)"
  have "state_url s' = k" if k: "k \<in> U" "tt_get tb ?t k = Some s'" for k s'
  proof -
    obtain s where "tt_get tb (rs_relays rset) k = Some s" "state_url s' = state_url s"
      using k get [of k] by (auto simp: state_url_def split: if_splits)
    then show ?thesis using inv k(1) unfolding relay_inv_def by blast
  qed
  moreover have "\<exists>s'. tt_get tb ?t k = Some s' \<and> banned s'" if k: "k \<in> X" for k
  proof -
    have "k \<noteq> u" "k \<in> U" using k u(2) ctx by (auto simp: relay_ctx_def)
    then show ?thesis using inv k get [of k] unfolding relay_inv_def by simp
  qed
  moreover have "slot_keys tb ?t \<subseteq> U" "valid ?t"
    using inv table_keys(3) [OF laws(1) v] table_valid(4) [OF laws(1) v] unfolding relay_inv_def by blast+
  ultimately have "relay_inv tb valid U X ?t" unfolding relay_inv_def by blast
  then show ?thesis using Some by (simp add: portillia_relay_set_allow_url_def change_url_def)
qed (use inv in \<open>simp add: portillia_relay_set_allow_url_def change_url_def\<close>)

lemma relay_inv_exec:
  assumes ctx: "relay_ctx tb valid U X" and inv: "relay_inv tb valid U X (rs_relays rset)"
    and urls: "op_urls op \<subseteq> U" and allow: "\<And>u. op = Allow u \<Longrightarrow> u \<notin> X"
  shows "relay_inv tb valid U X (rs_relays (relay_exec tb kb ver op rset))"
proof (cases op)
  case (Set_bootstrap us)
  have "relay_inv tb valid U X (tt_modify_all tb (rs_relays rset) (\<lambda>s. s\<lparr>bootstrap := False\<rparr>))"
    by (rule relay_inv_modify_all [OF _ _ inv]) (use ctx in \<open>auto simp: relay_ctx_def state_url_def\<close>)
  from relay_inv_evict [OF ctx relay_inv_marks [OF ctx this]] show ?thesis
    using Set_bootstrap urls by (simp add: portillia_relay_set_set_bootstrap_urls_def Let_def)
next
  case (Add_bootstrap u)
  then show ?thesis
    using relay_inv_mark [OF ctx inv] urls by (simp add: portillia_relay_set_add_bootstrap_url_def)
next
  case (Remove_bootstrap url)
  then show ?thesis using relay_inv_remove_bootstrap [OF ctx inv] urls by simp
next
  case (Ban u)
  then show ?thesis
    using relay_inv_upsert [OF ctx inv, of u "\<lambda>s. s\<lparr>banned := True\<rparr>" "\<lambda>s. s\<lparr>banned := True\<rparr>"] urls
    by (auto simp: portillia_relay_set_ban_url_def state_url_def url_relay_state_def keepsI)
next
  case (Allow u)
  then show ?thesis using relay_inv_allow [OF ctx inv] urls allow by simp
next
  case (Response target resp now clock)
  then show ?thesis
    using relay_inv_response [OF ctx inv] urls
    by (simp add: portillia_relay_set_apply_discovery_response_def case_prod_beta Let_def)
next
  case (Announced desc now clock)
  then show ?thesis
    using relay_inv_store [OF ctx inv] inv urls
    by (simp add: portillia_relay_set_insert_announced_def Let_def flip: url_of_def)
qed (use relay_inv_upsert [OF ctx inv] relay_inv_change [OF ctx inv] inv urls in
    \<open>auto simp: url_op_defs portillia_relay_set_record_discovery_failure_def url_relay_state_def
      portillia_relay_set_record_active_failure_def Let_def state_url_def keepsI split: option.split\<close>)

lemma relay_inv_run:
  assumes "relay_ctx tb valid U X" "relay_inv tb valid U X (rs_relays rset)"
    and "\<Union> (op_urls ` set ops) \<subseteq> U" "\<forall>u \<in> X. Allow u \<notin> set ops"
  shows "relay_inv tb valid U X (rs_relays (relay_run tb kb ver ops rset))"
  using assms(2-4)
proof (induction ops arbitrary: rset)
  case (Cons op ops)
  have "relay_inv tb valid U X (rs_relays (relay_exec tb kb ver op rset))"
    by (rule relay_inv_exec [OF assms(1) Cons.prems(1)]) (use Cons.prems(2,3) in auto)
  then show ?case using Cons.IH [of "relay_exec tb kb ver op rset"] Cons.prems(2,3) by (simp add: relay_run_def)
qed (simp add: relay_run_def)

lemma relay_inv_create:
  assumes "table_laws tb valid" "canonical U" "{u. Some u \<in> set urls} \<subseteq> U"
  shows "relay_inv tb valid U {} (rs_relays (portillia_relay_set_create tb kb urls))"
proof -
  have empty: "relay_inv tb valid U {} (tt_empty tb)"
    using table_valid(1) [OF assms(1)] table_get_all(2,3) [OF assms(1)] by (simp add: relay_inv_def)
  have ctx: "relay_ctx tb valid U {}" using assms by (simp add: relay_ctx_def)
  show ?thesis
    using relay_inv_exec [OF ctx, of "\<lparr>rs_relays = tt_empty tb, rs_key_index = tt_empty kb\<rparr>" "Set_bootstrap urls"]
      empty assms(3)
    by (simp add: portillia_relay_set_create_def Let_def)
qed

lemma ban_establishes:
  assumes ctx: "relay_ctx tb valid U {}" and inv: "relay_inv tb valid U {} (rs_relays rset)" and u: "u \<in> U"
  shows "relay_inv tb valid U {u} (rs_relays (portillia_relay_set_ban_url tb rset u))"
proof -
  have inv': "relay_inv tb valid U {} (rs_relays (portillia_relay_set_ban_url tb rset u))"
    using relay_inv_exec [OF ctx inv, of "Ban u"] u by simp
  have laws: "table_laws tb valid" "canonical U" "valid (rs_relays rset)"
    using ctx inv by (simp_all add: relay_ctx_def relay_inv_def)
  have "\<exists>s. tt_get tb (rs_relays (portillia_relay_set_ban_url tb rset u)) u = Some s \<and> banned s"
    using table_get(1,3) [OF laws(1,3,2) u u]
    by (cases "tt_get tb (rs_relays rset) u") (simp_all add: portillia_relay_set_ban_url_def upsert_url_def)
  with inv' show ?thesis unfolding relay_inv_def by simp
qed

lemma select_priority_eligible_state:
  "mols_select_priority states a udp tcp m now = Some urls \<Longrightarrow> u \<in> set urls \<Longrightarrow>
     \<exists>s \<in> set states. priority_eligible now udp tcp s \<and> state_url s = u"
  using select_sound [of "priority_eligible now udp tcp" states a _ "nat (if m \<le> 0 then MOLS_DEFAULT_MAX_ACTIVE_RELAYS else m)"]
  by (fastforce simp: mols_select_priority_def MOLS_DEFAULT_MAX_ACTIVE_RELAYS_def Let_def split: if_splits option.splits)

lemma select_priority_from:
  "mols_select_priority states a udp tcp m now = Some urls \<Longrightarrow> u \<in> set urls \<Longrightarrow> \<exists>s \<in> set states. state_url s = u"
  using select_priority_eligible_state by blast

lemma select_multihop_from:
  "mols_select_multihop states a udp tcp m now = Some urls \<Longrightarrow> u \<in> set urls \<Longrightarrow> \<exists>s \<in> set states. state_url s = u"
  using select_sound [of "multihop_eligible now udp tcp" states a _ "nat m"]
  by (fastforce simp: mols_select_multihop_def split: if_splits option.splits)

lemma banned_not_selectable:
  assumes "table_laws tb valid" "relay_inv tb valid U {u} (rs_relays rset)" "s \<in> set (selectable_states tb rset)"
  shows "state_url s \<noteq> u"
proof
  assume eq: "state_url s = u"
  obtain k where k: "(k, s) \<in> set (tt_occupied tb (rs_relays rset))" "\<not> banned s"
    using assms(3) by (auto simp: selectable_states_def relay_states_def dest!: in_set_takeD)
  have "tt_get tb (rs_relays rset) k = Some s"
    using table_get_all(4) [OF assms(1) _ k(1)] assms(2) by (simp add: relay_inv_def)
  moreover have "k \<in> U"
    using k(1) assms(2) by (force simp: relay_inv_def slot_keys_def)
  ultimately have "k = u" using assms(2) eq unfolding relay_inv_def by blast
  then show False using assms(2) \<open>tt_get tb (rs_relays rset) k = Some s\<close> k(2) unfolding relay_inv_def by force
qed

text \<open>C15. A ban is final until it is lifted: once a relay URL is banned, no sequence of bootstrap changes,
  confirmations, failures, discovery responses and announcements brings it back, and neither the
  priority selection nor the multi-hop selection returns it (for URLs that are equal or differ in
  more than case).\<close>

theorem ban_is_final:
  assumes "table_laws tb valid" "canonical U" "u \<in> U"
    and "{x. Some x \<in> set urls} \<union> \<Union> (op_urls ` set ops) \<union> \<Union> (op_urls ` set ops') \<subseteq> U" "Allow u \<notin> set ops'"
    and "rset = relay_run tb kb ver ops'
      (portillia_relay_set_ban_url tb (relay_run tb kb ver ops (portillia_relay_set_create tb kb urls)) u)"
  shows "(\<forall>sel. portillia_relay_set_priority_relays tb rset client now = Some sel \<longrightarrow> u \<notin> set sel) \<and>
    (\<forall>sel. portillia_relay_set_priority_multi_hop tb rset client now = Some sel \<longrightarrow> u \<notin> set sel)"
proof -
  have ctx: "relay_ctx tb valid U {}" "relay_ctx tb valid U {u}" using assms(1-3) by (auto simp: relay_ctx_def)
  have "relay_inv tb valid U {} (rs_relays (relay_run tb kb ver ops (portillia_relay_set_create tb kb urls)))"
    by (rule relay_inv_run [OF ctx(1) relay_inv_create [OF assms(1,2)]]) (use assms(4) in auto)
  from ban_establishes [OF ctx(1) this assms(3)]
  have "relay_inv tb valid U {u} (rs_relays rset)"
    unfolding assms(6) by (rule relay_inv_run [OF ctx(2)]) (use assms(4,5) in auto)
  from banned_not_selectable [OF assms(1) this] show ?thesis
    unfolding portillia_relay_set_priority_relays_def portillia_relay_set_priority_multi_hop_def
    using select_priority_from select_multihop_from by metis
qed

definition sample_client :: portillia_client_state where
  "sample_client = \<lparr>c_explicit_relay_urls = [], c_suppressed_relay_urls = [], c_max_active_relays = 3,
     c_multi_hop_depth = 2, c_require_udp = False, c_require_tcp = False, c_local_address = None\<rparr>"

theorem ban_is_final_witness:
  "case portillia_relay_set_priority_relays list_table
     (relay_run list_table list_table ''9'' [Confirm ''https://x'', Announced (sample_desc ''https://x'' ''0xab'' 1000) 1100 0]
       (portillia_relay_set_ban_url list_table (relay_run list_table list_table ''9'' []
          (portillia_relay_set_create list_table list_table [Some ''https://x'', Some ''https://y''])) ''https://x''))
     sample_client 1200 of None \<Rightarrow> True | Some sel \<Rightarrow> ''https://x'' \<notin> set sel"
proof -
  let ?U = "{''https://x'', ''https://y''}"
  have "canonical ?U" by (simp add: canonical_def strcasecmp_eq_def str_tolower_def char_tolower_def char_code_def)
  note final = ban_is_final [OF list_table_laws this, of "''https://x''" "[Some ''https://x'', Some ''https://y'']" "[]"
      "[Confirm ''https://x'', Announced (sample_desc ''https://x'' ''0xab'' 1000) 1100 0]", OF _ _ _ refl]
  have "\<forall>sel. portillia_relay_set_priority_relays list_table
     (relay_run list_table list_table ''9'' [Confirm ''https://x'', Announced (sample_desc ''https://x'' ''0xab'' 1000) 1100 0]
       (portillia_relay_set_ban_url list_table (relay_run list_table list_table ''9'' []
          (portillia_relay_set_create list_table list_table [Some ''https://x'', Some ''https://y''])) ''https://x''))
     sample_client 1200 = Some sel \<longrightarrow> ''https://x'' \<notin> set sel"
    by (rule final [THEN conjunct1]) (auto simp: url_of_def sample_desc_def)
  then show ?thesis by (simp split: option.split)
qed

section \<open>Accepting an announcement\<close>

text \<open>What an announced descriptor does: it is refused as invalid unless it is fresh (issued, not
  expired, not from the future beyond the tolerated skew, valid for at most a day), refused as a
  rollback when a newer one of the same identity is indexed, and otherwise stored under its URL with
  the flags, failures and measurements of that relay kept and the identity indexed with its issue
  time. A refused one changes nothing.\<close>

theorem insert_announced_decides:
  assumes "table_laws tb valid" "table_laws kb kvalid" "valid (rs_relays rset)" "key_inv kb kvalid (rs_key_index rset)"
    and "now \<noteq> 0" "nonempty (d_address desc)"
  shows "let url = or_empty (d_api_https_addr desc); key = str_tolower (or_empty (d_address desc));
      prev = tt_get kb (rs_key_index rset) key;
      (rset', err) = portillia_relay_set_insert_announced tb kb rset desc now clock
    in if \<not> (d_issued_at desc \<noteq> 0 \<and> now < d_expires_at desc \<and> d_issued_at desc \<le> now + 300 \<and>
             d_expires_at desc \<le> d_issued_at desc + 86400)
       then err = Some EINVAL \<and> rset' = rset
       else if prev \<noteq> None \<and> d_issued_at desc < k_issued_at (the prev) then err = Some EACCES \<and> rset' = rset
       else err = None \<and>
         map_option k_issued_at (tt_get kb (rs_key_index rset') key) = Some (d_issued_at desc) \<and>
         (\<exists>s. tt_get tb (rs_relays rset') url = Some s \<and>
           descriptor s = portillia_relay_descriptor_copy portillia_relay_descriptor_init desc \<and> last_seen_at s = now \<and>
           (\<forall>old. tt_get tb (rs_relays rset) url = Some old \<longrightarrow>
              s = old\<lparr>descriptor := descriptor s, last_seen_at := now\<rparr>))"
proof -
  let ?url = "or_empty (d_api_https_addr desc)" and ?key = "address_key desc"
  let ?prev = "tt_get kb (rs_key_index rset) ?key"
  have kv: "kvalid (rs_key_index rset)" using assms(4) by (simp add: key_inv_def)
  have fresh: "validate_descriptor_freshness desc now \<longleftrightarrow> d_issued_at desc \<noteq> 0 \<and> now < d_expires_at desc \<and>
      d_issued_at desc \<le> now + 300 \<and> d_expires_at desc \<le> d_issued_at desc + 86400"
    by (auto simp: validate_descriptor_freshness_def PORTILLIA_ANNOUNCE_CLOCK_SKEW_TOLERANCE_SEC_def
        PORTILLIA_ANNOUNCE_MAX_VALIDITY_SEC_def)
  have tomb: "now \<le> k_tombstone_until e"
    if "?prev = Some e" "d_issued_at desc < k_issued_at e" "validate_descriptor_freshness desc now" for e
    using that fresh_after_tombstone [of desc now "k_issued_at e"] key_inv_tombstone [OF assms(4) _ that(1)] by force
  have put: "tt_get tb (tt_put tb (rs_relays rset) ?url s) ?url = Some s"
    "tt_get kb (tt_put kb (rs_key_index rset) ?key e) ?key = Some e" for s e
    using assms(1-3) kv by (simp_all add: table_laws_def put_law_def)
  have key: "?key \<noteq> []" "str_tolower (or_empty (d_address desc)) = ?key"
    using assms(6) by (simp_all add: address_key_Nil) (simp add: address_key_def)
  show ?thesis
  proof (cases "validate_descriptor_freshness desc now \<and> (?prev = None \<or> k_issued_at (the ?prev) \<le> d_issued_at desc)")
    case True
    then show ?thesis
      using assms(5,6) put key
      by (auto simp: portillia_relay_set_insert_announced_def at_time_def Let_def fresh [symmetric]
          store_descriptor_def merge_descriptor_def split: option.splits)
  next
    case False
    then show ?thesis
      using assms(5) key tomb
      by (fastforce simp: portillia_relay_set_insert_announced_def at_time_def Let_def fresh [symmetric]
          split: option.splits)
  qed
qed

theorem insert_announced_decides_witness:
  "snd (portillia_relay_set_insert_announced list_table list_table
     (relay_run list_table list_table ''9'' [Announced (sample_desc ''u'' ''0xab'' 1000) 1100 0]
        (portillia_relay_set_create list_table list_table [])) (sample_desc ''u'' ''0xab'' 900) 1200 0) = Some EACCES"
proof -
  let ?rset = "relay_run list_table list_table ''9'' [Announced (sample_desc ''u'' ''0xab'' 1000) 1100 0]
      (portillia_relay_set_create list_table list_table [])"
  obtain e where e: "tt_get list_table (rs_key_index ?rset) ''0xab'' = Some e" "k_issued_at e = 1000"
    using sample_announced by blast
  have ctx: "relay_ctx list_table list_table_valid {''u''} {}"
    by (simp add: relay_ctx_def list_table_laws canonical_def)
  have "relay_inv list_table list_table_valid {''u''} {} (rs_relays ?rset)"
    by (rule relay_inv_run [OF ctx relay_inv_create]) (simp_all add: list_table_laws canonical_def url_of_def sample_desc_def)
  then have valid: "list_table_valid (rs_relays ?rset)" by (simp add: relay_inv_def)
  have "key_inv list_table list_table_valid (rs_key_index ?rset)"
    using run_key_index [OF list_table_laws create_key_index [OF list_table_laws]] by blast
  from insert_announced_decides [OF list_table_laws list_table_laws valid this, of 1200 "sample_desc ''u'' ''0xab'' 900" 0]
  show ?thesis
    using e by (simp add: sample_desc_def Let_def case_prod_beta str_tolower_def char_tolower_def char_code_def)
qed

section \<open>Backoff\<close>

lemma recovery_backoff_value:
  "recovery_failures \<le> n \<Longrightarrow> recovery_backoff n recovery_failures = min 300 (60 * 2 ^ nat (min 3 (n - recovery_failures)))"
  by (simp add: recovery_backoff_def Let_def push_bit_eq_mult PORTILLIA_DEFAULT_DIRECT_RECOVERY_BACKOFF_SEC_def
      PORTILLIA_MAX_DIRECT_RECOVERY_BACKOFF_SEC_def min.commute)

lemma recovery_backoff_bounds:
  assumes "recovery_failures \<le> n"
  shows "60 \<le> recovery_backoff n recovery_failures" "recovery_backoff n recovery_failures \<le> 300"
proof -
  have "(1 :: int) \<le> 2 ^ nat (min 3 (n - recovery_failures))" by simp
  then show "60 \<le> recovery_backoff n recovery_failures" "recovery_backoff n recovery_failures \<le> 300"
    unfolding recovery_backoff_value [OF assms] by auto
qed

text \<open>A relay that fails too often is left alone for a while, but never for long: after the failure
  that reaches the threshold, the priority selection does not offer the relay for the next 60
  seconds, and it is not suppressed for more than 300 seconds; the wait doubles with every further
  failure in between.\<close>

theorem active_failure_suppresses:
  assumes laws: "table_laws tb valid" and canon: "canonical U" and url: "url \<in> U"
    and inv: "relay_inv tb valid U {} (rs_relays rset)" and s: "tt_get tb (rs_relays rset) url = Some s"
    and n: "0 < r" "r \<le> active_failures s + 1"
    and res: "portillia_relay_set_record_active_failure tb rset url r now = (rset', backed_off, reason, fails)"
  shows "backed_off \<and> reason = Some ''active'' \<and> fails = active_failures s + 1 \<and>
    (\<exists>s'. tt_get tb (rs_relays rset') url = Some s' \<and> active_failures s' = fails \<and>
       suppress_active_until s' = now + min 300 (60 * 2 ^ nat (min 3 (fails - r))) \<and>
       suppress_active_until s' \<le> now + 300) \<and>
    (\<forall>later client sel. later < now + 60 \<and>
       portillia_relay_set_priority_relays tb rset' client later = Some sel \<longrightarrow> url \<notin> set sel)"
proof -
  define m where "m = active_failures s + 1"
  let ?f = "\<lambda>s. s\<lparr>active_failures := m, suppress_active_until := now + recovery_backoff m r\<rparr>"
  have out: "rset' = rset\<lparr>rs_relays := tt_modify tb (rs_relays rset) url ?f\<rparr>" "backed_off" "reason = Some ''active''" "fails = m"
    using res s n by (auto simp: portillia_relay_set_record_active_failure_def Let_def change_url_def m_def)
  have v: "valid (rs_relays rset)" using inv by (simp add: relay_inv_def)
  have get: "tt_get tb (rs_relays rset') url = Some (?f s)"
    using table_get(3) [OF laws v canon url url] s by (simp add: out(1))
  have ctx: "relay_ctx tb valid U {}" using laws canon by (simp add: relay_ctx_def)
  have inv': "relay_inv tb valid U {} (rs_relays rset')"
    unfolding out(1) by simp (rule relay_inv_modify [OF laws canon _ url _ inv]; auto simp: keeps_def state_url_def)
  have "url \<notin> set sel" if later: "later < now + 60"
    and sel: "portillia_relay_set_priority_relays tb rset' client later = Some sel" for later client sel
  proof
    assume "url \<in> set sel"
    then obtain x where x: "x \<in> set (selectable_states tb rset')" "state_url x = url" "\<not> later < suppress_active_until x"
      using select_priority_eligible_state [OF sel [unfolded portillia_relay_set_priority_relays_def]]
      by (auto simp: priority_eligible_def)
    then obtain k where "(k, x) \<in> set (tt_occupied tb (rs_relays rset'))"
      by (auto simp: selectable_states_def relay_states_def dest!: in_set_takeD)
    then have "tt_get tb (rs_relays rset') k = Some x" "k \<in> U"
      using table_get_all(4) [OF laws] inv' by (auto simp: relay_inv_def slot_keys_def)
    moreover from this have "k = url" using inv' x(2) unfolding relay_inv_def by blast
    ultimately have "x = ?f s" using get by simp
    then have "suppress_active_until x = now + recovery_backoff m r" by simp
    then show False using x(3) later recovery_backoff_bounds(1) [of r m] n(2) by (simp add: m_def)
  qed
  then show ?thesis
    using out get recovery_backoff_value [of r m] recovery_backoff_bounds(2) [of r m] n(2) by (auto simp: m_def)
qed

theorem active_failure_suppresses_witness:
  "case portillia_relay_set_priority_relays list_table
     (fst (portillia_relay_set_record_active_failure list_table
        (portillia_relay_set_create list_table list_table [Some ''https://x'', Some ''https://y'']) ''https://x'' 1 1000))
     sample_client 1059 of None \<Rightarrow> True | Some sel \<Rightarrow> ''https://x'' \<notin> set sel"
proof -
  let ?U = "{''https://x'', ''https://y''}"
  let ?rset = "portillia_relay_set_create list_table list_table [Some ''https://x'', Some ''https://y''] ::
    ((cstring \<times> portillia_relay_state) list, (cstring \<times> portillia_key_index_entry) list) portillia_relay_set"
  have canon: "canonical ?U" by (simp add: canonical_def strcasecmp_eq_def str_tolower_def char_tolower_def char_code_def)
  have inv: "relay_inv list_table list_table_valid ?U {} (rs_relays ?rset)"
    by (rule relay_inv_create [OF list_table_laws canon]) auto
  obtain s where s: "tt_get list_table (rs_relays ?rset) ''https://x'' = Some s" "active_failures s = 0"
    by (simp add: portillia_relay_set_create_def portillia_relay_set_set_bootstrap_urls_def evict_disposable_def
        mark_bootstrap_def list_table_def Let_def url_relay_state_def zero_relay_state_def)
  have "0 < (1 :: int)" "1 \<le> active_failures s + 1" using s(2) by simp_all
  moreover obtain rset' backed_off reason fails where
    res: "portillia_relay_set_record_active_failure list_table ?rset ''https://x'' 1 1000 = (rset', backed_off, reason, fails)"
    by (metis prod.collapse)
  ultimately have "\<forall>later client sel. later < 1000 + 60 \<and>
     portillia_relay_set_priority_relays list_table rset' client later = Some sel \<longrightarrow> ''https://x'' \<notin> set sel"
    using active_failure_suppresses [OF list_table_laws canon _ inv s(1) _ _ res] by blast
  then have "\<forall>sel. portillia_relay_set_priority_relays list_table rset' sample_client 1059 = Some sel \<longrightarrow> ''https://x'' \<notin> set sel"
    by (intro allI) (erule_tac x = 1059 in allE, simp)
  then show ?thesis unfolding res by (simp split: option.split)
qed

end
