(* ===== verification/Http.thy ===== *)
theory Http
  imports Cjson
begin

text \<open>
  Requests and responses of the HTTP framework cwist, as far as the handlers see them. The lookups of
  headers and query parameters are functions of the request; \<open>rq_body\<close> is \<open>None\<close> when there is no
  body or an empty one; \<open>rq_peer\<close> is the address \<open>getpeername\<close> reports. A body that a handler sets is
  one of its literal texts or printed JSON: \<open>Body_ok\<close> is \<^verbatim>\<open>{"ok": true}\<close>, \<open>Body_error c m\<close> is
  \<^verbatim>\<open>{"ok": false, "error": {"code": c, "message": m}}\<close>, \<open>Body_message m\<close> is \<^verbatim>\<open>{"error":m}\<close>. The
  status names of cwist are kept symbolic.
\<close>

datatype http_method = CWIST_HTTP_GET | CWIST_HTTP_POST | CWIST_HTTP_other

datatype http_status =
    Http_code int
  | CWIST_HTTP_BAD_REQUEST
  | CWIST_HTTP_NOT_FOUND
  | CWIST_HTTP_FORBIDDEN
  | CWIST_HTTP_INTERNAL_ERROR
  | CWIST_HTTP_UNSUPPORTED_MEDIA_TYPE

record 't http_request =
  rq_method :: http_method
  rq_path :: "cstring option"
  rq_header :: "cstring \<Rightarrow> cstring option"
  rq_query :: "cstring \<Rightarrow> cstring option"
  rq_body :: "'t option"
  rq_body_size :: nat
  rq_peer :: "cstring option"

datatype 't http_body =
    Body_text cstring
  | Body_ok
  | Body_error cstring cstring
  | Body_message cstring
  | Body_json 't

record 't http_response =
  rp_status :: http_status
  rp_status_text :: cstring
  rp_body :: "'t http_body"
  rp_headers :: "(cstring \<times> cstring) list"
  rp_upgraded :: bool

definition header_add :: "cstring \<Rightarrow> cstring \<Rightarrow> 't http_response \<Rightarrow> 't http_response" where
  "header_add k v res = res\<lparr>rp_headers := rp_headers res @ [(k, v)]\<rparr>"

definition content_json :: "'t http_response \<Rightarrow> 't http_response" where
  "content_json res = header_add ''Content-Type'' ''application/json'' res"

text \<open>The three statements every early return consists of.\<close>

definition fail_with :: "http_status \<Rightarrow> cstring \<Rightarrow> cstring \<Rightarrow> 't http_response \<Rightarrow> 't http_response" where
  "fail_with status code message res = content_json (res\<lparr>rp_status := status, rp_body := Body_error code message\<rparr>)"

lemma http_simps [simp]:
  "rp_status (header_add k v res) = rp_status res" "rp_body (header_add k v res) = rp_body res"
  "rp_upgraded (header_add k v res) = rp_upgraded res" "rp_status_text (header_add k v res) = rp_status_text res"
  "rp_status (content_json res) = rp_status res" "rp_body (content_json res) = rp_body res"
  "rp_upgraded (content_json res) = rp_upgraded res"
  "rp_status (fail_with st c m res) = st" "rp_body (fail_with st c m res) = Body_error c m"
  "rp_upgraded (fail_with st c m res) = rp_upgraded res"
  by (simp_all add: header_add_def content_json_def fail_with_def)

text \<open>\<open>cJSON_IsString (x) && x->valuestring\<close> of a member that may be absent.\<close>

definition str_member :: "('j, 't) cjson \<Rightarrow> 'j \<Rightarrow> cstring \<Rightarrow> cstring option" where
  "str_member api j k = (case cj_get api j k of
     None \<Rightarrow> None | Some x \<Rightarrow> if cj_is_string api x then cj_valuestring api x else None)"

definition bool_member :: "('j, 't) cjson \<Rightarrow> 'j \<Rightarrow> cstring \<Rightarrow> bool" where
  "bool_member api j k = (case cj_get api j k of None \<Rightarrow> False | Some x \<Rightarrow> cj_is_true api x)"

definition num_member :: "('j, 't) cjson \<Rightarrow> 'j \<Rightarrow> cstring \<Rightarrow> real option" where
  "num_member api j k = (case cj_get api j k of
     None \<Rightarrow> None | Some x \<Rightarrow> if cj_is_number api x then Some (cj_valuedouble api x) else None)"

definition int_member :: "('j, 't) cjson \<Rightarrow> 'j \<Rightarrow> cstring \<Rightarrow> int option" where
  "int_member api j k = (case cj_get api j k of
     None \<Rightarrow> None | Some x \<Rightarrow> if cj_is_number api x then Some (cj_valueint api x) else None)"

lemma member_cases:
  assumes "cjson_laws api view"
  obtains "cj_get api j k = None" "json_get (view j) k = None"
  | x where "cj_get api j k = Some x" "json_get (view j) k = Some (view x)"
  using cjson_read(1) [OF assms, of j k] by (cases "cj_get api j k") auto

lemma str_member_view:
  assumes "cjson_laws api view"
  shows "str_member api j k = (case json_get (view j) k of Some v \<Rightarrow> json_string v | None \<Rightarrow> None)"
  by (rule member_cases [OF assms, of j k])
    (auto simp: str_member_def cjson_read [OF assms] json_string_def split: json.splits)

lemma bool_member_view:
  assumes "cjson_laws api view"
  shows "bool_member api j k \<longleftrightarrow> json_get (view j) k = Some (JBool True)"
  by (rule member_cases [OF assms, of j k]) (auto simp: bool_member_def cjson_read [OF assms])

lemma num_member_view:
  assumes "cjson_laws api view"
  shows "num_member api j k = (case json_get (view j) k of Some (JNumber r) \<Rightarrow> Some r | _ \<Rightarrow> None)"
  by (rule member_cases [OF assms, of j k]) (auto simp: num_member_def cjson_read [OF assms] split: json.splits)

lemma int_member_view:
  assumes "cjson_laws api view" "json_get (view j) k = Some (JNumber r)" "\<bar>r\<bar> \<le> 2 ^ 31 - 1"
  shows "int_member api j k = Some (int_of_double r)"
proof -
  obtain x where "cj_get api j k = Some x" "view x = JNumber r"
    by (rule cjson_get_Some [OF assms(1,2)])
  then show ?thesis
    using assms(3) by (simp add: int_member_def cjson_read [OF assms(1)] cjson_valueint [OF assms(1)])
qed

text \<open>\<open>snprintf (buf, n, "%s", s)\<close>: what fits.\<close>

definition snprintf_s :: "nat \<Rightarrow> cstring \<Rightarrow> cstring" where
  "snprintf_s n s = take (n - 1) s"

lemma snprintf_s_fits [simp]: "length s < n \<Longrightarrow> snprintf_s n s = s"
  by (simp add: snprintf_s_def)

lemma length_snprintf_s [simp]: "length (snprintf_s n s) \<le> n - 1"
  by (simp add: snprintf_s_def)

definition empty_request :: "'t http_request" where
  "empty_request = \<lparr>rq_method = CWIST_HTTP_POST, rq_path = None, rq_header = (\<lambda>_. None), rq_query = (\<lambda>_. None),
     rq_body = None, rq_body_size = 0, rq_peer = None\<rparr>"

definition fresh_response :: "'t http_response" where
  "fresh_response = \<lparr>rp_status = Http_code 200, rp_status_text = [], rp_body = Body_text [], rp_headers = [],
     rp_upgraded = False\<rparr>"

end
