(* ===== verification/Keyless_Sign.thy ===== *)
theory Keyless_Sign
  imports Http Bindings
begin

text \<open>
  The keyless signing endpoint (\<^verbatim>\<open>src/portal/keyless/server.c\<close>): lease tokens, and the handler of
  \<^verbatim>\<open>/v1/sign\<close> that signs the CertificateVerify input of a TLS 1.3 handshake for the tenant of a lease.

  The token functions of the Rust bridge, \<open>EVP_DecodeBlock\<close> and \<open>EVP_PKEY_sign\<close> of OpenSSL, SHA-256,
  cJSON and the clock are parameters. A length that wrapped around below zero makes the next use of the
  buffer read outside it; the handler is then \<open>None\<close>.
\<close>

section \<open>Parameters and state\<close>

text \<open>The bridge returns JSON text, or null. \<open>br_verify\<close> takes token, public key, issuer and time,
  \<open>br_issue\<close> private key, key id, issuer, identity and lifetime.\<close>

record 't token_bridge =
  br_verify :: "cstring \<Rightarrow> cstring \<Rightarrow> cstring \<Rightarrow> time_t \<Rightarrow> 't option"
  br_issue :: "cstring \<Rightarrow> cstring \<Rightarrow> cstring \<Rightarrow> 't \<Rightarrow> int \<Rightarrow> 't option"

record keyless_keys =
  kk_identity_path :: "cstring option"
  kk_private_key_hex :: "cstring option"
  kk_public_key_hex :: "cstring option"

record openssl =
  os_sha256 :: "byte list \<Rightarrow> byte list"
  os_decode_block :: "cstring \<Rightarrow> byte list option"
  os_encode_block :: "byte list \<Rightarrow> cstring option"
  os_pkey_sign :: "bool \<Rightarrow> byte list \<Rightarrow> byte list option"

section \<open>Lease tokens\<close>

definition portillia_issue_lease_token ::
  "('j, 't) cjson \<Rightarrow> 't token_bridge \<Rightarrow> keyless_keys \<Rightarrow> cstring \<Rightarrow> cstring \<Rightarrow> int \<Rightarrow> 't option" where
  "portillia_issue_lease_token api br keys name address ttl_seconds =
     (case kk_private_key_hex keys of
        None \<Rightarrow> None
      | Some priv \<Rightarrow> br_issue br priv ''relay'' ''portal-sdk''
          (cj_print api (cj_object api [(''name'', cj_string api name), (''address'', cj_string api address)])) ttl_seconds)"

definition portillia_verify_lease_token ::
  "'t token_bridge \<Rightarrow> keyless_keys \<Rightarrow> cstring \<Rightarrow> time_t \<Rightarrow> 't option" where
  "portillia_verify_lease_token br keys token now =
     (case kk_public_key_hex keys of None \<Rightarrow> None | Some pub \<Rightarrow> br_verify br token pub ''portal-sdk'' now)"

definition verify_access_token_address ::
  "('j, 't) cjson \<Rightarrow> 't token_bridge \<Rightarrow> keyless_keys \<Rightarrow> cstring option \<Rightarrow> time_t \<Rightarrow> cstring option" where
  "verify_access_token_address api br keys token now =
     (if \<not> nonempty token then None
      else case kk_public_key_hex keys of
        None \<Rightarrow> None
      | Some pub \<Rightarrow>
          (case br_verify br (or_empty token) pub ''portal-sdk'' now of
             None \<Rightarrow> None
           | Some claims_json \<Rightarrow>
               (case cj_parse api claims_json of
                  None \<Rightarrow> None
                | Some claims \<Rightarrow>
                    (case str_member api claims ''identity_address'' of
                       None \<Rightarrow> None
                     | Some addr \<Rightarrow> if addr \<noteq> [] then Some addr else None))))"

section \<open>Base64 fields\<close>

text \<open>The buffer and the length the caller is told: every trailing padding sign takes one byte off the
  decoded length, in the arithmetic of \<open>size_t\<close>.\<close>

definition base64_decode :: "openssl \<Rightarrow> cstring \<Rightarrow> (byte list \<times> 64 word) option" where
  "base64_decode os s =
     (case os_decode_block os s of
        None \<Rightarrow> None
      | Some buf \<Rightarrow>
          let pads = length (takeWhile (\<lambda>c. c = CHR ''='') (rev s))
          in Some (buf, word_of_int (int (length buf) - int pads)))"

definition json_b64_field ::
  "openssl \<Rightarrow> ('j, 't) cjson \<Rightarrow> 'j \<Rightarrow> cstring \<Rightarrow> (byte list \<times> 64 word) option" where
  "json_b64_field os api doc name =
     (case str_member api doc name of
        None \<Rightarrow> None
      | Some s \<Rightarrow>
          if s = [] then None
          else case base64_decode os s of
            None \<Rightarrow> None
          | Some (buf, len) \<Rightarrow> if len = 0 then None else Some (buf, len))"

text \<open>What reading the field yields: \<open>None\<close> when the length points past the buffer.\<close>

definition field_bytes :: "byte list \<times> 64 word \<Rightarrow> byte list option" where
  "field_bytes f = (if unat (snd f) \<le> length (fst f) then Some (take (unat (snd f)) (fst f)) else None)"

section \<open>Signing\<close>

definition PORTILLIA_RELAY_KEY_ID :: cstring where "PORTILLIA_RELAY_KEY_ID = ''relay-cert''"
definition PORTILLIA_SIGN_MAX_BODY :: nat where "PORTILLIA_SIGN_MAX_BODY = 524288"
definition PORTILLIA_SIGN_ALLOWED_SKEW_SEC :: int where "PORTILLIA_SIGN_ALLOWED_SKEW_SEC = 30"

text \<open>\<open>pkey\<close> tells whether the certificate key could be loaded.\<close>

definition sign_certificate_verify ::
  "openssl \<Rightarrow> bool \<Rightarrow> cstring \<Rightarrow> byte list \<Rightarrow> int + byte list" where
  "sign_certificate_verify os pkey algorithm digest =
     (if algorithm \<notin> {''ECDSA_SHA256'', ''RSA_PSS_SHA256'', ''Ed25519''} then Inl (-2)
      else if \<not> pkey then Inl (-1)
      else case os_pkey_sign os (algorithm = ''RSA_PSS_SHA256'') digest of
        None \<Rightarrow> Inl (-1)
      | Some sig \<Rightarrow> Inr sig)"

definition cstring_bytes :: "cstring \<Rightarrow> byte list" where
  "cstring_bytes s = map (\<lambda>c. word_of_nat (char_code c)) s"

text \<open>64 spaces, the context string with its terminating NUL, the transcript hash.\<close>

definition certificate_verify_content ::
  "openssl \<Rightarrow> byte list \<Rightarrow> byte list \<Rightarrow> byte list \<Rightarrow> byte list \<Rightarrow> byte list" where
  "certificate_verify_content os client_hello server_hello encrypted_extensions certificate =
     replicate 64 0x20 @ cstring_bytes ''TLS 1.3, server CertificateVerify'' @ [0] @
     os_sha256 os (client_hello @ server_hello @ encrypted_extensions @ certificate)"

definition sign_input :: "openssl \<Rightarrow> cstring \<Rightarrow> byte list \<Rightarrow> byte list" where
  "sign_input os algorithm content = (if algorithm \<noteq> ''Ed25519'' then os_sha256 os content else content)"

definition write_sign_error :: "'t http_response \<Rightarrow> http_status \<Rightarrow> cstring \<Rightarrow> 't http_response" where
  "write_sign_error res status message = content_json (res\<lparr>rp_status := status, rp_body := Body_message message\<rparr>)"

text \<open>The last part of the handler: from an accepted binding to the response.\<close>

definition sign_transcript ::
  "openssl \<Rightarrow> ('j, 't) cjson \<Rightarrow> bool \<Rightarrow> cstring \<Rightarrow> cstring \<Rightarrow> byte list \<Rightarrow> byte list \<Rightarrow> byte list \<Rightarrow> byte list \<Rightarrow>
   't http_response \<Rightarrow> 't http_response" where
  "sign_transcript os api pkey key_id algorithm ch sh ee cert res =
     (case sign_certificate_verify os pkey algorithm
             (sign_input os algorithm (certificate_verify_content os ch sh ee cert)) of
        Inl _ \<Rightarrow> write_sign_error res CWIST_HTTP_INTERNAL_ERROR ''sign failed''
      | Inr sig \<Rightarrow>
          (case os_encode_block os sig of
             None \<Rightarrow> write_sign_error res CWIST_HTTP_INTERNAL_ERROR ''encode failed''
           | Some sig_b64 \<Rightarrow>
               content_json (res\<lparr>rp_body := Body_json (cj_print api (cj_object api
                 [(''key_id'', cj_string api key_id), (''algorithm'', cj_string api algorithm),
                  (''signature'', cj_string api sig_b64)]))\<rparr>)))"

text \<open>The transcript validator and what follows. The binding is only read when its length is right, the
  ClientHello is hashed before the registry is looked at, the other parts after it accepted.\<close>

definition sign_bound ::
  "openssl \<Rightarrow> ('j, 't) cjson \<Rightarrow> bool \<Rightarrow> timespec \<Rightarrow> cstring \<Rightarrow> cstring \<Rightarrow> cstring \<Rightarrow> (byte list \<times> 64 word) list \<Rightarrow>
   portillia_binding_registry \<Rightarrow> 't http_response \<Rightarrow> (portillia_binding_registry \<times> 't http_response) option" where
  "sign_bound os api pkey now lease_id key_id algorithm parts bindings res =
     (let denied = (\<lambda>status. write_sign_error res CWIST_HTTP_FORBIDDEN
                      (snprintf_s 160 (''permission denied: '' @ portillia_binding_strerror status)))
      in if unat (snd (parts ! 0)) \<noteq> 16 then Some (bindings, denied PORTILLIA_BINDING_ERR_BAD_SIZE)
         else case those (map field_bytes (take 2 parts)) of
           Some [binding, ch] \<Rightarrow>
             (case portillia_bindings_validate_and_consume (os_sha256 os) bindings binding (Some lease_id) ch now of
                (bindings', status) \<Rightarrow>
                  if status \<noteq> PORTILLIA_BINDING_OK then Some (bindings', denied status)
                  else if key_id \<noteq> PORTILLIA_RELAY_KEY_ID
                  then Some (bindings', write_sign_error res CWIST_HTTP_FORBIDDEN ''permission denied: unknown signing key'')
                  else case those (map field_bytes (drop 2 parts)) of
                    Some [sh, ee, cert] \<Rightarrow>
                      Some (bindings', sign_transcript os api pkey key_id algorithm ch sh ee cert res)
                  | _ \<Rightarrow> None)
         | _ \<Rightarrow> None)"

text \<open>From the five transcript fields on: timestamp, token, binding.\<close>

definition sign_checked ::
  "openssl \<Rightarrow> ('j, 't) cjson \<Rightarrow> 't token_bridge \<Rightarrow> keyless_keys \<Rightarrow> bool \<Rightarrow> timespec \<Rightarrow> 'j \<Rightarrow> cstring \<Rightarrow> cstring \<Rightarrow>
   (byte list \<times> 64 word) list \<Rightarrow> portillia_binding_registry \<Rightarrow> 't http_request \<Rightarrow> 't http_response \<Rightarrow>
   (portillia_binding_registry \<times> 't http_response) option" where
  "sign_checked os api br keys pkey now doc key_id algorithm parts bindings req res =
     (if (case num_member api doc ''timestamp_unix'' of
            None \<Rightarrow> True
          | Some d \<Rightarrow> int_of_double d < fst now - PORTILLIA_SIGN_ALLOWED_SKEW_SEC \<or>
                      int_of_double d > fst now + PORTILLIA_SIGN_ALLOWED_SKEW_SEC)
      then Some (bindings, write_sign_error res CWIST_HTTP_BAD_REQUEST
             ''invalid argument: request timestamp outside allowed skew'')
      else case verify_access_token_address api br keys (rq_header req ''X-Portal-Access-Token'') (fst now) of
        None \<Rightarrow> Some (bindings, write_sign_error res CWIST_HTTP_FORBIDDEN ''unauthorized'')
      | Some lease_id \<Rightarrow> sign_bound os api pkey now lease_id key_id algorithm parts bindings res)"

definition handle_keyless_sign ::
  "openssl \<Rightarrow> ('j, 't) cjson \<Rightarrow> 't token_bridge \<Rightarrow> keyless_keys \<Rightarrow> bool \<Rightarrow> timespec \<Rightarrow>
   portillia_binding_registry \<Rightarrow> 't http_request \<Rightarrow> 't http_response \<Rightarrow>
   (portillia_binding_registry \<times> 't http_response) option" where
  "handle_keyless_sign os api br keys pkey now bindings req res =
     (let err = (\<lambda>status message. Some (bindings, write_sign_error res status message));
          ct = rq_header req ''Content-Type''
      in if rq_method req \<noteq> CWIST_HTTP_POST
         then Some (bindings, write_sign_error (header_add ''Allow'' ''POST'' res) (Http_code 405) ''method not allowed'')
         else if nonempty ct \<and> take 16 (or_empty ct) \<noteq> ''application/json''
         then err CWIST_HTTP_UNSUPPORTED_MEDIA_TYPE ''content type must be application/json''
         else case rq_body req of
           None \<Rightarrow> err CWIST_HTTP_BAD_REQUEST ''invalid json body''
         | Some data \<Rightarrow>
             if rq_body_size req > PORTILLIA_SIGN_MAX_BODY then err CWIST_HTTP_BAD_REQUEST ''invalid json body''
             else case cj_parse api data of
               None \<Rightarrow> err CWIST_HTTP_BAD_REQUEST ''invalid json body''
             | Some doc \<Rightarrow>
                 let key_id = str_member api doc ''key_id''; alg = str_member api doc ''algorithm'';
                     nonce = str_member api doc ''nonce''
                 in if \<not> nonempty key_id \<or> \<not> nonempty alg \<or> \<not> nonempty nonce
                    then err CWIST_HTTP_BAD_REQUEST ''invalid argument: missing required metadata field''
                    else case those (map (json_b64_field os api doc)
                           [''binding'', ''client_hello'', ''server_hello'', ''encrypted_extensions'', ''certificate'']) of
                      None \<Rightarrow> err CWIST_HTTP_BAD_REQUEST ''invalid argument: missing required handshake transcript field''
                    | Some parts \<Rightarrow> sign_checked os api br keys pkey now doc (or_empty key_id) (or_empty alg)
                                       parts bindings req res)"

section \<open>What a signature proves\<close>

lemma sign_error_body [simp]: "rp_body (write_sign_error res st m) = Body_message m" "rp_status (write_sign_error res st m) = st"
  by (simp_all add: write_sign_error_def)

lemma sign_transcript_signed:
  assumes "rp_body (sign_transcript os api pkey key_id alg ch sh ee cert res) = Body_json x"
  obtains sig b64 where
    "os_pkey_sign os (alg = ''RSA_PSS_SHA256'') (sign_input os alg (certificate_verify_content os ch sh ee cert)) = Some sig"
    "os_encode_block os sig = Some b64"
    "x = cj_print api (cj_object api [(''key_id'', cj_string api key_id), (''algorithm'', cj_string api alg),
       (''signature'', cj_string api b64)])"
  using assms
  by (auto simp: sign_transcript_def sign_certificate_verify_def split: sum.splits option.splits if_splits)

lemma consume_effect:
  assumes "portillia_bindings_validate_and_consume sha256 reg b lease hello now = (reg', PORTILLIA_BINDING_OK)"
  shows "reg' = binding_unlink b reg"
  using assms by (auto simp: portillia_bindings_validate_and_consume_def split: if_splits option.splits)

lemma sign_bound_signed:
  assumes "sign_bound os api pkey now lease_id key_id alg parts bindings res = Some (bindings', res')"
    and "rp_body res' = Body_json x"
  obtains binding ch sh ee cert where
    "portillia_bindings_validate_and_consume (os_sha256 os) bindings binding (Some lease_id) ch now =
       (bindings', PORTILLIA_BINDING_OK)"
    "key_id = PORTILLIA_RELAY_KEY_ID" "res' = sign_transcript os api pkey key_id alg ch sh ee cert res"
  using assms
  by (fastforce simp: sign_bound_def Let_def split: if_splits option.splits list.splits prod.splits)

lemma handle_signed:
  assumes "handle_keyless_sign os api br keys pkey now bindings req res = Some (bindings', res')"
    and "rp_body res' = Body_json x"
  obtains doc key_id alg parts lease_id where
    "verify_access_token_address api br keys (rq_header req ''X-Portal-Access-Token'') (fst now) = Some lease_id"
    "sign_bound os api pkey now lease_id key_id alg parts bindings res = Some (bindings', res')"
proof -
  obtain doc key_id alg parts where
    "sign_checked os api br keys pkey now doc key_id alg parts bindings req res = Some (bindings', res')"
    using assms by (fastforce simp: handle_keyless_sign_def Let_def split: if_splits option.splits)
  with assms(2) that show thesis
    by (fastforce simp: sign_checked_def split: if_splits option.splits)
qed

text \<open>C2. A signature is only ever made for the tenant of a lease and a connection the relay saw: when the
  endpoint answers with a signature, the request carried a token that verifies for some identity
  address, the binding it presented had been issued for the lease of that address and had not
  expired, and the ClientHello of the signed transcript has the hash of one the relay itself recorded
  for that binding. The signature is over the CertificateVerify input of a transcript that starts with
  that ClientHello, and the binding is spent.\<close>

theorem signature_bound_to_hello:
  assumes "handle_keyless_sign os api br keys pkey now
      (binding_run (os_sha256 os) cs (portillia_bindings_new ttl)) req res = Some (bindings', res')"
    and "rp_body res' = Body_json x"
  shows "\<exists>lease_id binding ch sh ee cert alg sig b64.
    verify_access_token_address api br keys (rq_header req ''X-Portal-Access-Token'') (fst now) = Some lease_id \<and>
    (\<exists>lease0 hello0 t0 h. Issue lease0 hello0 binding t0 \<in> set cs \<and> or_empty lease0 = lease_id \<and>
       timespec_before now (fst t0 + ttl, snd t0) \<and> h \<noteq> [] \<and> os_sha256 os h = os_sha256 os ch \<and>
       (h = hello0 \<or> (\<exists>t. Fix_hello binding h t \<in> set cs))) \<and>
    os_pkey_sign os (alg = ''RSA_PSS_SHA256'') (sign_input os alg (certificate_verify_content os ch sh ee cert)) = Some sig \<and>
    os_encode_block os sig = Some b64 \<and>
    x = cj_print api (cj_object api [(''key_id'', cj_string api PORTILLIA_RELAY_KEY_ID),
          (''algorithm'', cj_string api alg), (''signature'', cj_string api b64)]) \<and>
    bindings' = binding_unlink binding (binding_run (os_sha256 os) cs (portillia_bindings_new ttl))"
proof -
  let ?reg = "binding_run (os_sha256 os) cs (portillia_bindings_new ttl)"
  obtain key_id alg parts lease_id where
    tok: "verify_access_token_address api br keys (rq_header req ''X-Portal-Access-Token'') (fst now) = Some lease_id"
    and "sign_bound os api pkey now lease_id key_id alg parts ?reg res = Some (bindings', res')"
    using assms by (rule handle_signed)
  then obtain binding ch sh ee cert where
    ok: "portillia_bindings_validate_and_consume (os_sha256 os) ?reg binding (Some lease_id) ch now =
       (bindings', PORTILLIA_BINDING_OK)"
    and key: "key_id = PORTILLIA_RELAY_KEY_ID" and res': "res' = sign_transcript os api pkey key_id alg ch sh ee cert res"
    using assms(2) by (metis sign_bound_signed)
  obtain sig b64 where
    sig: "os_pkey_sign os (alg = ''RSA_PSS_SHA256'') (sign_input os alg (certificate_verify_content os ch sh ee cert)) = Some sig"
      "os_encode_block os sig = Some b64"
      "x = cj_print api (cj_object api [(''key_id'', cj_string api key_id), (''algorithm'', cj_string api alg),
       (''signature'', cj_string api b64)])"
    using assms(2) unfolding res' by (rule sign_transcript_signed)
  have "\<exists>lease0 hello0 t0 h. Issue lease0 hello0 binding t0 \<in> set cs \<and> or_empty lease0 = lease_id \<and>
       timespec_before now (fst t0 + ttl, snd t0) \<and> h \<noteq> [] \<and> os_sha256 os h = os_sha256 os ch \<and>
       (h = hello0 \<or> (\<exists>t. Fix_hello binding h t \<in> set cs))"
    using accepted_binding_origin [of "os_sha256 os" cs ttl binding "Some lease_id" ch now] ok by simp
  then show ?thesis
    using tok sig key consume_effect [OF ok] by blast
qed

text \<open>A request with trivial encodings, for the witness.\<close>

definition sample_openssl :: openssl where
  "sample_openssl = \<lparr>os_sha256 = sample_hash, os_decode_block = (\<lambda>s. Some (cstring_bytes s)),
     os_encode_block = (\<lambda>b. Some (bytes_to_cstring b)), os_pkey_sign = (\<lambda>pss d. Some [65])\<rparr>"

definition sample_bridge :: "json token_bridge" where
  "sample_bridge = \<lparr>br_verify = (\<lambda>tok pub iss now. Some (JObject [(''identity_address'', JString tok)])),
     br_issue = (\<lambda>priv kid iss identity ttl. Some (JObject [(''token'', JString ''tok'')]))\<rparr>"

definition sample_keys :: keyless_keys where
  "sample_keys = \<lparr>kk_identity_path = None, kk_private_key_hex = Some ''01'', kk_public_key_hex = Some ''02''\<rparr>"

definition sample_sign_doc :: json where
  "sample_sign_doc = JObject [(''key_id'', JString ''relay-cert''), (''algorithm'', JString ''Ed25519''), (''nonce'', JString ''n''),
     (''binding'', JString (replicate 16 (CHR 0x07))), (''client_hello'', JString [CHR 0x01, CHR 0x02, CHR 0x03]),
     (''server_hello'', JString ''s''), (''encrypted_extensions'', JString ''e''), (''certificate'', JString ''c''),
     (''timestamp_unix'', JNumber 399)]"

definition sample_sign_request :: "json http_request" where
  "sample_sign_request = empty_request\<lparr>rq_body := Some sample_sign_doc, rq_body_size := 100,
     rq_header := (\<lambda>k. if k = ''X-Portal-Access-Token'' then Some ''lease-a'' else None)\<rparr>"

lemma sample_handle:
  "\<exists>bindings' res' x. handle_keyless_sign sample_openssl tree_json sample_bridge sample_keys True (399, 0)
     (binding_run sample_hash sample_calls (portillia_bindings_new 300)) sample_sign_request fresh_response =
       Some (bindings', res') \<and> rp_body res' = Body_json x"
proof -
  let ?reg = "binding_run sample_hash sample_calls (portillia_bindings_new 300)"
  have fields: "json_b64_field sample_openssl tree_json sample_sign_doc ''binding'' = Some (replicate 16 7, 16)"
    "json_b64_field sample_openssl tree_json sample_sign_doc ''client_hello'' = Some ([1, 2, 3], 3)"
    "json_b64_field sample_openssl tree_json sample_sign_doc ''server_hello'' = Some ([115], 1)"
    "json_b64_field sample_openssl tree_json sample_sign_doc ''encrypted_extensions'' = Some ([101], 1)"
    "json_b64_field sample_openssl tree_json sample_sign_doc ''certificate'' = Some ([99], 1)"
    by code_simp+
  have members: "str_member tree_json sample_sign_doc ''key_id'' = Some ''relay-cert''"
    "str_member tree_json sample_sign_doc ''algorithm'' = Some ''Ed25519''"
    "str_member tree_json sample_sign_doc ''nonce'' = Some ''n''"
    "num_member tree_json sample_sign_doc ''timestamp_unix'' = Some 399"
    by (simp_all add: str_member_def num_member_def sample_sign_doc_def str_tolower_def char_tolower_def char_code_def)
  have tok: "verify_access_token_address tree_json sample_bridge sample_keys
      (rq_header sample_sign_request ''X-Portal-Access-Token'') 399 = Some ''lease-a''"
    by (simp add: verify_access_token_address_def sample_bridge_def sample_keys_def sample_sign_request_def str_member_def)
  obtain reg' where ok: "portillia_bindings_validate_and_consume sample_hash ?reg (replicate 16 7) (Some ''lease-a'')
      [1, 2, 3] (399, 0) = (reg', PORTILLIA_BINDING_OK)"
    using sample_calls_consume by (metis prod.collapse)
  have sel: "os_sha256 sample_openssl = sample_hash" "os_pkey_sign sample_openssl pss d = Some [65]"
    "os_encode_block sample_openssl b = Some (bytes_to_cstring b)" for pss d b
    by (simp_all add: sample_openssl_def)
  have req: "rq_method sample_sign_request = CWIST_HTTP_POST" "rq_header sample_sign_request ''Content-Type'' = None"
    "rq_body sample_sign_request = Some sample_sign_doc" "rq_body_size sample_sign_request = 100"
    by (simp_all add: sample_sign_request_def empty_request_def)
  show ?thesis
    using members tok ok
    by (simp add: handle_keyless_sign_def fields Let_def req sel PORTILLIA_SIGN_MAX_BODY_def sign_checked_def PORTILLIA_SIGN_ALLOWED_SKEW_SEC_def
        int_of_double_def sign_bound_def field_bytes_def PORTILLIA_RELAY_KEY_ID_def sign_transcript_def
        sign_certificate_verify_def)
qed

theorem signature_bound_to_hello_witness:
  "\<exists>bindings' binding t0. Issue (Some ''lease-a'') [] binding t0 \<in> set sample_calls \<and>
     bindings' = binding_unlink binding (binding_run sample_hash sample_calls (portillia_bindings_new 300)) \<and>
     (\<exists>res' x. handle_keyless_sign sample_openssl tree_json sample_bridge sample_keys True (399, 0)
       (binding_run sample_hash sample_calls (portillia_bindings_new 300)) sample_sign_request fresh_response =
         Some (bindings', res') \<and> rp_body res' = Body_json x)"
proof -
  have sha: "os_sha256 sample_openssl = sample_hash" by (simp add: sample_openssl_def)
  obtain bindings' res' x where h: "handle_keyless_sign sample_openssl tree_json sample_bridge sample_keys True (399, 0)
      (binding_run sample_hash sample_calls (portillia_bindings_new 300)) sample_sign_request fresh_response =
       Some (bindings', res')" "rp_body res' = Body_json x"
    using sample_handle by blast
  have tok: "verify_access_token_address tree_json sample_bridge sample_keys
      (rq_header sample_sign_request ''X-Portal-Access-Token'') (fst (399, 0)) = Some ''lease-a''"
    by (simp add: verify_access_token_address_def sample_bridge_def sample_keys_def sample_sign_request_def str_member_def)
  from signature_bound_to_hello [of sample_openssl, unfolded sha, OF h]
  obtain binding lease0 hello0 t0 where "Issue lease0 hello0 binding t0 \<in> set sample_calls" "or_empty lease0 = ''lease-a''"
    "bindings' = binding_unlink binding (binding_run sample_hash sample_calls (portillia_bindings_new 300))"
    unfolding tok option.inject by blast
  moreover from this have "lease0 = Some ''lease-a''" "hello0 = []"
    by (auto simp: sample_calls_def)
  ultimately show ?thesis using h by blast
qed

end
