(* ===== verification/Calendar.thy ===== *)
theory Calendar
  imports Portillia_Prelude "HOL-Library.Monad_Syntax"
begin

text \<open>
  RFC 3339 timestamps: \<open>format_time_rfc3339\<close> of \<^verbatim>\<open>src/portal/api_server.c\<close>, \<open>format_rfc3339_utc\<close> and
  \<open>parse_rfc3339_utc\<close> of \<^verbatim>\<open>src/portal/discovery/discovery.c\<close>, over the calls of the C library they use:
  \<open>gmtime_r\<close>, \<open>strftime\<close>, \<open>sscanf\<close> and \<open>mktime\<close> in UTC, on the proleptic Gregorian calendar. Years are
  unbounded here; \<open>tm_year\<close> of the library is an \<open>int\<close>.
\<close>

section \<open>Decimal numbers\<close>

definition digit_char :: "nat \<Rightarrow> char" where
  "digit_char d = char_of (48 + d)"

fun dec :: "nat \<Rightarrow> cstring" where
  "dec n = (if n < 10 then [digit_char n] else dec (n div 10) @ [digit_char (n mod 10)])"

declare dec.simps [simp del]

definition dec2 :: "nat \<Rightarrow> cstring" where
  "dec2 n = (if n < 10 then digit_char 0 # dec n else dec n)"

definition dec_int :: "int \<Rightarrow> cstring" where
  "dec_int i = (if i < 0 then CHR ''-'' # dec (nat (- i)) else dec (nat i))"

definition char_isdigit :: "char \<Rightarrow> bool" where
  "char_isdigit c \<longleftrightarrow> 48 \<le> char_code c \<and> char_code c \<le> 57"

definition digits_value :: "cstring \<Rightarrow> int" where
  "digits_value ds = foldl (\<lambda>n c. 10 * n + (int (char_code c) - 48)) 0 ds"

text \<open>\<open>%d\<close> and a literal character of a \<open>sscanf\<close> format.\<close>

definition scan_int :: "cstring \<Rightarrow> (int \<times> cstring) option" where
  "scan_int s0 =
     (let s = dropWhile char_isspace s0;
          neg = (case s of c # _ \<Rightarrow> c = CHR ''-'' | [] \<Rightarrow> False);
          s' = (case s of c # r \<Rightarrow> if c = CHR ''-'' \<or> c = CHR ''+'' then r else s | [] \<Rightarrow> s);
          ds = takeWhile char_isdigit s'
      in if ds = [] then None
         else Some (if neg then - digits_value ds else digits_value ds, dropWhile char_isdigit s'))"

definition scan_char :: "char \<Rightarrow> cstring \<Rightarrow> cstring option" where
  "scan_char c s = (case s of d # r \<Rightarrow> if d = c then Some r else None | [] \<Rightarrow> None)"

section \<open>The calendar\<close>

record tm =
  tm_year :: int
  tm_mon :: int
  tm_mday :: int
  tm_hour :: int
  tm_min :: int
  tm_sec :: int

definition leap :: "int \<Rightarrow> bool" where
  "leap y \<longleftrightarrow> 4 dvd y \<and> (\<not> 100 dvd y \<or> 400 dvd y)"

definition days_in_year :: "int \<Rightarrow> int" where
  "days_in_year y = (if leap y then 366 else 365)"

definition days_in_month :: "int \<Rightarrow> nat \<Rightarrow> int" where
  "days_in_month y m = (if m = 1 then (if leap y then 29 else 28) else if m \<in> {3, 5, 8, 10} then 30 else 31)"

text \<open>Days since 1970-01-01 of the first day of a year, and of a month within its year.\<close>

definition days_before_year :: "int \<Rightarrow> int" where
  "days_before_year y = 365 * (y - 1970) + ((y - 1) div 4 - 492) - ((y - 1) div 100 - 19) + ((y - 1) div 400 - 4)"

definition days_before_month :: "int \<Rightarrow> nat \<Rightarrow> int" where
  "days_before_month y m = (\<Sum>k < m. days_in_month y k)"

function split_year :: "int \<Rightarrow> int \<Rightarrow> int \<times> int" where
  "split_year y d = (if d < days_in_year y then (y, d) else split_year (y + 1) (d - days_in_year y))"
  by auto
termination by (relation "measure (\<lambda>(y, d). nat d)") (auto simp: days_in_year_def split: if_splits)

function split_month :: "int \<Rightarrow> nat \<Rightarrow> int \<Rightarrow> nat \<times> int" where
  "split_month y m d = (if m \<ge> 11 \<or> d < days_in_month y m then (m, d) else split_month y (m + 1) (d - days_in_month y m))"
  by auto
termination by (relation "measure (\<lambda>(y, m, d). 11 - m)") auto

declare split_year.simps [simp del] split_month.simps [simp del]

definition gmtime :: "time_t \<Rightarrow> tm" where
  "gmtime t =
     (let days = t div 86400; secs = t mod 86400;
          (y, yday) = split_year (1970 + 400 * (days div 146097)) (days mod 146097);
          (m, mday) = split_month y 0 yday
      in \<lparr>tm_year = y - 1900, tm_mon = int m, tm_mday = mday + 1,
          tm_hour = secs div 3600, tm_min = secs mod 3600 div 60, tm_sec = secs mod 60\<rparr>)"

text \<open>\<open>mktime\<close> with the time zone set to UTC; months outside the year carry over.\<close>

definition mktime :: "tm \<Rightarrow> time_t" where
  "mktime x =
     (let y = tm_year x + 1900 + tm_mon x div 12; m = nat (tm_mon x mod 12)
      in (days_before_year y + days_before_month y m + tm_mday x - 1) * 86400 +
         tm_hour x * 3600 + tm_min x * 60 + tm_sec x)"

section \<open>The functions of the sources\<close>

text \<open>\<open>strftime\<close> with \<^verbatim>\<open>%Y-%m-%dT%H:%M:%SZ\<close>\<close>

definition format_rfc3339_utc :: "time_t \<Rightarrow> cstring" where
  "format_rfc3339_utc t =
     (let x = gmtime t
      in dec_int (tm_year x + 1900) @ ''-'' @ dec2 (nat (tm_mon x + 1)) @ ''-'' @ dec2 (nat (tm_mday x)) @ ''T'' @
         dec2 (nat (tm_hour x)) @ '':'' @ dec2 (nat (tm_min x)) @ '':'' @ dec2 (nat (tm_sec x)) @ ''Z'')"

definition format_time_rfc3339 :: "time_t \<Rightarrow> cstring" where
  "format_time_rfc3339 t = format_rfc3339_utc t"

definition parse_rfc3339_utc :: "cstring option \<Rightarrow> time_t" where
  "parse_rfc3339_utc value =
     (if \<not> nonempty value then 0
      else case (do {
          (y, s) \<leftarrow> scan_int (or_empty value);
          s \<leftarrow> scan_char CHR ''-'' s;
          (mon, s) \<leftarrow> scan_int s;
          s \<leftarrow> scan_char CHR ''-'' s;
          (d, s) \<leftarrow> scan_int s;
          s \<leftarrow> scan_char CHR ''T'' s;
          (h, s) \<leftarrow> scan_int s;
          s \<leftarrow> scan_char CHR '':'' s;
          (mi, s) \<leftarrow> scan_int s;
          s \<leftarrow> scan_char CHR '':'' s;
          (sec, s) \<leftarrow> scan_int s;
          Some (y, mon, d, h, mi, sec)
        }) of
        None \<Rightarrow> 0
      | Some (y, mon, d, h, mi, sec) \<Rightarrow>
          mktime \<lparr>tm_year = y - 1900, tm_mon = mon - 1, tm_mday = d, tm_hour = h, tm_min = mi, tm_sec = sec\<rparr>)"

section \<open>Formatting and parsing are inverse\<close>

lemma char_code_digit [simp]: "d < 10 \<Longrightarrow> char_code (digit_char d) = 48 + d"
  by (simp add: digit_char_def char_code_char_of)

lemma digit_isdigit [simp]: "d < 10 \<Longrightarrow> char_isdigit (digit_char d)"
  by (simp add: char_isdigit_def)

lemma dec_digits: "c \<in> set (dec n) \<Longrightarrow> char_isdigit c"
  by (induction n arbitrary: c rule: dec.induct) (subst (asm) (2) dec.simps, auto split: if_splits)

lemma dec_nonempty [simp]: "dec n \<noteq> []"
  by (subst dec.simps) simp

lemma digits_value_snoc [simp]: "digits_value (ds @ [c]) = 10 * digits_value ds + (int (char_code c) - 48)"
  by (simp add: digits_value_def)

lemma digits_value_dec [simp]: "digits_value (dec n) = int n"
proof (induction n rule: dec.induct)
  case (1 n)
  show ?case
  proof (cases "n < 10")
    case True
    then show ?thesis by (subst dec.simps) (simp add: digits_value_def)
  next
    case False
    then have "digits_value (dec n) = 10 * digits_value (dec (n div 10)) + int (n mod 10)"
      by (subst dec.simps) simp
    moreover have "int n = int (10 * (n div 10) + n mod 10)" by simp
    ultimately show ?thesis using 1 False by (metis of_nat_add of_nat_mult of_nat_numeral)
  qed
qed

lemma digits_value_zero: "digits_value (digit_char 0 # ds) = digits_value ds"
  by (simp add: digits_value_def)

lemma digit_not_sign: "char_isdigit c \<Longrightarrow> c \<noteq> CHR ''-'' \<and> c \<noteq> CHR ''+'' \<and> \<not> char_isspace c"
  by (auto simp: char_isdigit_def char_isspace_def char_code_def)

lemma scan_int_digits:
  assumes "ds \<noteq> []" "\<forall>c \<in> set ds. char_isdigit c" "\<not> char_isdigit e"
  shows "scan_int (ds @ e # rest) = Some (digits_value ds, e # rest)"
proof -
  obtain c ds' where ds: "ds = c # ds'" using assms(1) by (cases ds) auto
  then have "\<not> char_isspace c" "c \<noteq> CHR ''-''" "c \<noteq> CHR ''+''" using assms(2) digit_not_sign by auto
  moreover have "takeWhile char_isdigit (ds @ e # rest) = ds" "dropWhile char_isdigit (ds @ e # rest) = e # rest"
    using assms(2,3) by (simp_all add: takeWhile_append2 dropWhile_append2)
  ultimately show ?thesis using ds by (simp add: scan_int_def)
qed

lemma scan_int_dec [simp]: "\<not> char_isdigit e \<Longrightarrow> scan_int (dec n @ e # rest) = Some (int n, e # rest)"
  using scan_int_digits [of "dec n" e rest] dec_digits by auto

lemma scan_int_dec2 [simp]: "\<not> char_isdigit e \<Longrightarrow> scan_int (dec2 n @ e # rest) = Some (int n, e # rest)"
  using scan_int_digits [of "digit_char 0 # dec n" e rest] dec_digits
  by (auto simp: dec2_def digits_value_zero)

lemma scan_int_dec_int [simp]: "\<not> char_isdigit e \<Longrightarrow> scan_int (dec_int i @ e # rest) = Some (i, e # rest)"
proof (cases "i < 0")
  case True
  assume e: "\<not> char_isdigit e"
  obtain c ds where ds: "dec (nat (- i)) = c # ds" by (cases "dec (nat (- i))") auto
  have "\<not> char_isspace CHR ''-''" by (simp add: char_isspace_def char_code_def)
  moreover have "takeWhile char_isdigit (dec (nat (- i)) @ e # rest) = dec (nat (- i))"
    "dropWhile char_isdigit (dec (nat (- i)) @ e # rest) = e # rest"
    using e dec_digits by (auto simp: takeWhile_append2 dropWhile_append2)
  ultimately show ?thesis using True by (simp add: dec_int_def scan_int_def)
qed (simp add: dec_int_def)

lemma not_digits [simp]: "\<not> char_isdigit CHR ''-''" "\<not> char_isdigit CHR ''T''" "\<not> char_isdigit CHR '':''" "\<not> char_isdigit CHR ''Z''"
  by (simp_all add: char_isdigit_def char_code_def)

lemma div_pred:
  fixes y k :: int
  assumes "0 < k"
  shows "y div k = (y - 1) div k + (if k dvd y then 1 else 0)"
proof (cases "k dvd y")
  case True
  then obtain q where q: "y = k * q" by blast
  have "(y - 1) div k = q - 1"
    by (rule int_div_pos_eq [where r = "k - 1"]) (use assms in \<open>simp_all add: q algebra_simps\<close>)
  then show ?thesis using True q assms by simp
next
  case False
  then have "0 < y mod k" using assms by (simp add: dvd_eq_mod_eq_0 order_less_le)
  moreover have "y mod k < k" using assms by simp
  ultimately have "(y - 1) div k = y div k"
    using int_div_pos_eq [of "y - 1" k "y div k" "y mod k - 1"] by simp
  then show ?thesis using False by simp
qed

lemma days_before_year_Suc: "days_before_year (y + 1) = days_before_year y + days_in_year y"
proof -
  have "4 dvd y" if "100 dvd y" using dvd_trans [OF _ that, of 4] by simp
  moreover have "100 dvd y" if "400 dvd y" using dvd_trans [OF _ that, of 100] by simp
  moreover define a b c where "a = (y - 1) div 4" and "b = (y - 1) div 100" and "c = (y - 1) div 400"
  moreover have "y div 4 = a + (if 4 dvd y then 1 else 0)" "y div 100 = b + (if 100 dvd y then 1 else 0)"
    "y div 400 = c + (if 400 dvd y then 1 else 0)"
    unfolding a_def b_def c_def by (rule div_pred; simp)+
  ultimately show ?thesis
    unfolding days_before_year_def days_in_year_def leap_def a_def [symmetric] b_def [symmetric] c_def [symmetric]
    by (cases "4 dvd y"; cases "100 dvd y"; cases "400 dvd y") simp_all
qed

lemma days_before_year_era: "days_before_year (1970 + 400 * e) = 146097 * e"
proof -
  have "(1969 + 400 * e) div 4 = 492 + 100 * e" by (rule int_div_pos_eq [where r = 1]) auto
  moreover have "(1969 + 400 * e) div 100 = 19 + 4 * e" by (rule int_div_pos_eq [where r = 69]) auto
  moreover have "(1969 + 400 * e) div 400 = 4 + e" by (rule int_div_pos_eq [where r = 369]) auto
  ultimately show ?thesis by (simp add: days_before_year_def)
qed

lemma days_in_year_pos: "0 < days_in_year y"
  by (simp add: days_in_year_def)

lemma split_year_inverse:
  assumes "split_year y d = (y', d')" "0 \<le> d"
  shows "days_before_year y' + d' = days_before_year y + d \<and> 0 \<le> d' \<and> d' < days_in_year y'"
  using assms
proof (induction y d arbitrary: y' d' rule: split_year.induct)
  case (1 y d)
  then show ?case
    using days_before_year_Suc [of y]
    by (cases "d < days_in_year y") (auto simp: split_year.simps [of y d])
qed

lemma days_before_month_Suc [simp]: "days_before_month y (Suc m) = days_before_month y m + days_in_month y m"
  by (simp add: days_before_month_def)

lemma split_month_inverse:
  assumes "split_month y m d = (m', d')" "0 \<le> d" "m \<le> 11"
  shows "days_before_month y m' + d' = days_before_month y m + d \<and> 0 \<le> d' \<and> m' \<le> 11"
  using assms
proof (induction y m d arbitrary: m' d' rule: split_month.induct)
  case (1 y m d)
  then show ?case
    by (cases "m \<ge> 11 \<or> d < days_in_month y m") (auto simp: split_month.simps [of y m d])
qed

lemma gmtime_mktime:
  obtains y m d where "gmtime t = \<lparr>tm_year = y - 1900, tm_mon = int m, tm_mday = d + 1, tm_hour = t mod 86400 div 3600,
      tm_min = t mod 86400 mod 3600 div 60, tm_sec = t mod 86400 mod 60\<rparr>"
    "m \<le> 11" "0 \<le> d" "days_before_year y + days_before_month y m + d = t div 86400"
proof -
  let ?days = "t div 86400"
  obtain y yday where y: "split_year (1970 + 400 * (?days div 146097)) (?days mod 146097) = (y, yday)" by fastforce
  obtain m mday where m: "split_month y 0 yday = (m, mday)" by fastforce
  have "days_before_year y + yday = ?days" "0 \<le> yday"
    using split_year_inverse [OF y] days_before_year_era [of "?days div 146097"] by auto
  moreover from split_month_inverse [OF m] this(2) have "days_before_month y m + mday = yday" "0 \<le> mday" "m \<le> 11"
    by (auto simp: days_before_month_def)
  ultimately show thesis
    using that [of y m mday] by (simp add: gmtime_def Let_def y m)
qed

lemma mktime_gmtime: "mktime (gmtime t) = t"
proof -
  obtain y m d where g: "gmtime t = \<lparr>tm_year = y - 1900, tm_mon = int m, tm_mday = d + 1, tm_hour = t mod 86400 div 3600,
      tm_min = t mod 86400 mod 3600 div 60, tm_sec = t mod 86400 mod 60\<rparr>" "m \<le> 11"
    and days: "days_before_year y + days_before_month y m + d = t div 86400"
    by (rule gmtime_mktime)
  have m: "int m div 12 = 0" "nat (int m mod 12) = m" using g(2) by auto
  define s where "s = t mod 86400"
  have "s mod 3600 mod 60 = s mod 60" by (rule mod_mod_cancel) simp
  then have "(t div 86400) * 86400 + s div 3600 * 3600 + s mod 3600 div 60 * 60 + s mod 60 = t"
    using div_mult_mod_eq [of t 86400] div_mult_mod_eq [of s 3600] div_mult_mod_eq [of "s mod 3600" 60]
    unfolding s_def by linarith
  then show ?thesis
    unfolding mktime_def g(1) s_def [symmetric] days [symmetric] by (simp add: m)
qed

lemma tm_nonneg:
  "0 \<le> tm_mon (gmtime t)" "0 \<le> tm_mday (gmtime t)" "0 \<le> tm_hour (gmtime t)" "0 \<le> tm_min (gmtime t)" "0 \<le> tm_sec (gmtime t)"
  by (rule gmtime_mktime [of t], simp)+

text \<open>Timestamps survive the wire: parsing the RFC 3339 form of a time gives that time back.\<close>

lemma rfc3339_roundtrip:
  assumes "0 \<le> t" "t < 253402300800"
  shows "parse_rfc3339_utc (Some (format_rfc3339_utc t)) = t"
proof -
  let ?x = "gmtime t"
  have "format_rfc3339_utc t \<noteq> []" by (simp add: format_rfc3339_utc_def Let_def)
  then have "parse_rfc3339_utc (Some (format_rfc3339_utc t)) =
      mktime \<lparr>tm_year = tm_year ?x, tm_mon = tm_mon ?x, tm_mday = tm_mday ?x, tm_hour = tm_hour ?x,
        tm_min = tm_min ?x, tm_sec = tm_sec ?x\<rparr>"
    using tm_nonneg [of t]
    by (simp add: parse_rfc3339_utc_def format_rfc3339_utc_def Let_def scan_char_def)
  also have "\<dots> = mktime ?x" by (cases ?x) simp
  also have "\<dots> = t" by (rule mktime_gmtime)
  finally show ?thesis .
qed

end
