(* ===== verification/Api_Server.thy ===== *)
theory Api_Server
  imports Lease_Registry Keyless_Sign Calendar
begin

text \<open>
  The SDK endpoints of \<^verbatim>\<open>src/portal/api_server.c\<close>: SIWE registration challenges and their shared store,
  registering, renewing and unregistering a lease, opening a reverse connection, hop routes and the
  tunnel status.

  A handler takes the state, the request and the response it fills in. cJSON, the token functions and
  the SIWE functions of the Rust bridge, \<open>rand\<close> (the k-th call of a handler is \<open>ae_rand k\<close>) and the
  clock are parameters. The store of challenges is shared by all workers and guarded by a mutex. A
  handler is one step: \<open>handle_register\<close> gives the mutex up between looking a challenge up and
  consuming it, so what is said about challenges is about requests that do not overlap. \<open>extract_client_ip\<close> also cuts the header it reads at the
  comma, which no later code of a request reads. A null pointer handed to \<open>strdup\<close> is \<open>None\<close>.
\<close>

section \<open>State and parameters\<close>

record register_challenge_entry =
  ce_in_use :: bool
  ce_challenge_id :: cstring
  ce_siwe_message :: cstring
  ce_identity_name :: cstring
  ce_identity_address :: cstring
  ce_udp_enabled :: bool
  ce_tcp_enabled :: bool
  ce_route_hostname :: cstring
  ce_hostname_hash :: cstring
  ce_domain :: cstring
  ce_nonce :: cstring
  ce_expires_at :: time_t

definition MAX_REGISTER_CHALLENGES :: nat where "MAX_REGISTER_CHALLENGES = 512"

record api_state =
  ap_server :: portillia_server
  ap_challenges :: "register_challenge_entry list"
  ap_keyless_url :: "cstring option"
  ap_connect_hostname :: cstring
  ap_connect_remote :: "cstring option"

text \<open>\<open>ae_siwe_create\<close> takes domain, address, URI, nonce, statement, request id, issue and expiry time
  and chain id; \<open>ae_siwe_verify\<close> message, signature, domain, nonce and time.\<close>

record ('j, 't) api_env =
  ae_json :: "('j, 't) cjson"
  ae_tokens :: "'t token_bridge"
  ae_keys :: keyless_keys
  ae_siwe_create :: "cstring \<Rightarrow> cstring \<Rightarrow> cstring \<Rightarrow> cstring \<Rightarrow> cstring \<Rightarrow> cstring \<Rightarrow> cstring \<Rightarrow> cstring \<Rightarrow> int \<Rightarrow> cstring option"
  ae_siwe_verify :: "cstring \<Rightarrow> cstring option \<Rightarrow> cstring \<Rightarrow> cstring \<Rightarrow> time_t \<Rightarrow> 't option"
  ae_hostname_hash :: "cstring \<Rightarrow> cstring option"
  ae_sni_port :: int
  ae_rand :: "nat \<Rightarrow> nat"
  ae_now :: time_t

definition zero_challenge :: register_challenge_entry where
  "zero_challenge = \<lparr>ce_in_use = False, ce_challenge_id = [], ce_siwe_message = [], ce_identity_name = [],
     ce_identity_address = [], ce_udp_enabled = False, ce_tcp_enabled = False, ce_route_hostname = [],
     ce_hostname_hash = [], ce_domain = [], ce_nonce = [], ce_expires_at = 0\<rparr>"

definition register_challenge_store_init :: "register_challenge_entry list" where
  "register_challenge_store_init = replicate MAX_REGISTER_CHALLENGES zero_challenge"

definition portillia_server_set_keyless_url :: "cstring option \<Rightarrow> api_state \<Rightarrow> api_state" where
  "portillia_server_set_keyless_url url st = st\<lparr>ap_keyless_url := url\<rparr>"

section \<open>Host names\<close>

definition trim_ascii :: "cstring \<Rightarrow> cstring" where
  "trim_ascii s = rev (dropWhile char_isspace (rev (dropWhile char_isspace s)))"

text \<open>Everything before the last occurrence of a character that occurs.\<close>

definition before_last :: "char \<Rightarrow> cstring \<Rightarrow> cstring" where
  "before_last c s = rev (tl (dropWhile (\<lambda>x. x \<noteq> c) (rev s)))"

definition normalize_hostname :: "cstring \<Rightarrow> cstring" where
  "normalize_hostname s0 =
     (let s = takeWhile (\<lambda>c. c \<noteq> CHR ''/'') (trim_ascii s0);
          s = (if CHR '':'' \<in> set s \<and> hd s \<noteq> CHR ''['' then before_last CHR '':'' s else s);
          s = dropWhile (\<lambda>c. c = CHR ''.'') s;
          s = rev (dropWhile (\<lambda>c. c = CHR ''.'') (rev s))
      in str_tolower s)"

definition root_or_localhost :: "cstring \<Rightarrow> cstring" where
  "root_or_localhost host = (if host = [] then ''localhost'' else host)"

definition derive_hostname :: "cstring \<Rightarrow> cstring \<Rightarrow> cstring \<Rightarrow> nat \<Rightarrow> cstring" where
  "derive_hostname root_hostname identity_name identity_address out_len =
     (let name0 = (if identity_name \<noteq> [] then identity_name else identity_address);
          name = (if name0 = [] then ''lease'' else name0)
      in normalize_hostname (snprintf_s out_len
           (if CHR ''.'' \<in> set name then name else name @ ''.'' @ root_or_localhost root_hostname)))"

definition server_root :: "api_state \<Rightarrow> cstring" where
  "server_root st = rg_root_hostname (sv_registry (ap_server st))"

definition extract_client_ip :: "portillia_settings option \<Rightarrow> 't http_request \<Rightarrow> cstring" where
  "extract_client_ip settings req =
     (let peer = (case rq_peer req of Some ip \<Rightarrow> ip | None \<Rightarrow> ''127.0.0.1'')
      in case settings of
        None \<Rightarrow> peer
      | Some s \<Rightarrow>
          if s_trust_proxy_headers s then
            (case rq_header req ''X-Forwarded-For'' of
               Some forwarded \<Rightarrow> takeWhile (\<lambda>c. c \<noteq> CHR '','') forwarded
             | None \<Rightarrow> (case rq_header req ''X-Real-IP'' of Some real_ip \<Rightarrow> real_ip | None \<Rightarrow> peer))
          else peer)"

section \<open>The challenge store\<close>

definition find_register_challenge :: "register_challenge_entry list \<Rightarrow> cstring \<Rightarrow> register_challenge_entry option" where
  "find_register_challenge store challenge_id = find (\<lambda>e. ce_in_use e \<and> ce_challenge_id e = challenge_id) store"

text \<open>The first free slot, or a random one when all are taken.\<close>

definition challenge_slot :: "nat \<Rightarrow> register_challenge_entry list \<Rightarrow> nat" where
  "challenge_slot r store =
     (case first_index (\<lambda>e. \<not> ce_in_use e) store of Some i \<Rightarrow> i | None \<Rightarrow> r mod MAX_REGISTER_CHALLENGES)"

definition store_register_challenge ::
  "nat \<Rightarrow> cstring \<Rightarrow> cstring \<Rightarrow> cstring \<Rightarrow> bool \<Rightarrow> bool \<Rightarrow> cstring option \<Rightarrow> cstring option \<Rightarrow> cstring \<Rightarrow> cstring \<Rightarrow>
   time_t \<Rightarrow> cstring \<Rightarrow> register_challenge_entry list \<Rightarrow> register_challenge_entry list" where
  "store_register_challenge r name addr msg udp tcp route_hostname hostname_hash domain nonce expires_at challenge_id store =
     store[challenge_slot r store :=
       \<lparr>ce_in_use = True, ce_challenge_id = snprintf_s 96 challenge_id, ce_siwe_message = snprintf_s 2048 msg,
        ce_identity_name = snprintf_s 256 name, ce_identity_address = snprintf_s 96 addr, ce_udp_enabled = udp,
        ce_tcp_enabled = tcp, ce_route_hostname = snprintf_s 256 (or_empty route_hostname),
        ce_hostname_hash = snprintf_s 256 (or_empty hostname_hash), ce_domain = snprintf_s 256 domain,
        ce_nonce = snprintf_s 32 nonce, ce_expires_at = expires_at\<rparr>]"

text \<open>Consuming: the first entry in use with that id is released.\<close>

definition consume_challenge :: "cstring \<Rightarrow> register_challenge_entry list \<Rightarrow> register_challenge_entry list" where
  "consume_challenge challenge_id store =
     (case first_index (\<lambda>e. ce_in_use e \<and> ce_challenge_id e = challenge_id) store of
        None \<Rightarrow> store
      | Some i \<Rightarrow> store[i := (store ! i)\<lparr>ce_in_use := False\<rparr>])"

definition random_token :: "cstring \<Rightarrow> nat \<Rightarrow> time_t \<Rightarrow> nat \<Rightarrow> cstring" where
  "random_token prefix r now out_len = snprintf_s out_len (prefix @ dec (r mod 2 ^ 32) @ dec_int now)"

definition nonce_charset :: cstring where
  "nonce_charset = ''abcdefghijklmnopqrstuvwxyzABCDEFGHIJKLMNOPQRSTUVWXYZ0123456789''"

definition make_nonce :: "(nat \<Rightarrow> nat) \<Rightarrow> cstring" where
  "make_nonce rand = map (\<lambda>i. nonce_charset ! (rand (i + 1) mod 62)) [0..<16]"

definition challenge_domain :: "api_state \<Rightarrow> 't http_request \<Rightarrow> cstring" where
  "challenge_domain st req =
     (let host = rq_header req ''Host'';
          domain = (if nonempty host then normalize_hostname (snprintf_s 256 (or_empty host)) else [])
      in if domain = [] then snprintf_s 256 (root_or_localhost (server_root st)) else domain)"

definition ttl_of :: "('j, 't) cjson \<Rightarrow> 'j \<Rightarrow> int" where
  "ttl_of api doc = (case int_member api doc ''ttl'' of None \<Rightarrow> 300 | Some t \<Rightarrow> if t \<le> 0 then 300 else t)"

text \<open>The challenge for a request whose identity is an object.\<close>

definition issue_challenge ::
  "('j, 't) api_env \<Rightarrow> api_state \<Rightarrow> 'j \<Rightarrow> 'j \<Rightarrow> 't http_request \<Rightarrow> 't http_response \<Rightarrow> api_state \<times> 't http_response" where
  "issue_challenge env st doc identity req res =
     (let api = ae_json env;
          addr = or_empty (str_member api identity ''address'');
          name = or_empty (str_member api identity ''name'');
          expiry = ae_now env + ttl_of api doc;
          domain = challenge_domain st req;
          challenge_id = random_token ''rch_'' (ae_rand env 0) (ae_now env) 64;
          nonce = make_nonce (ae_rand env);
          uri = snprintf_s 256 (''https://'' @ domain @ (case rq_path req of Some p \<Rightarrow> p | None \<Rightarrow> ''/sdk/register''))
      in case ae_siwe_create env domain addr uri nonce ''Register a portal lease'' challenge_id
                (format_time_rfc3339 (ae_now env)) (format_time_rfc3339 expiry) 1 of
           None \<Rightarrow> (st, fail_with CWIST_HTTP_INTERNAL_ERROR ''internal_error'' ''failed to create siwe message'' res)
         | Some msg \<Rightarrow>
             (st\<lparr>ap_challenges := store_register_challenge (ae_rand env 17) name addr msg
                   (bool_member api doc ''udp_enabled'') (bool_member api doc ''tcp_enabled'')
                   (str_member api doc ''route_hostname'') (str_member api doc ''hostname_hash'')
                   domain nonce expiry challenge_id (ap_challenges st)\<rparr>,
              content_json (res\<lparr>rp_body := Body_json (cj_print api (cj_object api
                [(''data'', cj_object api
                   [(''challenge_id'', cj_string api challenge_id),
                    (''expires_at'', cj_string api (format_time_rfc3339 expiry)),
                    (''siwe_message'', cj_string api msg)]),
                 (''ok'', cj_bool api True)]))\<rparr>)))"

definition handle_register_challenge ::
  "('j, 't) api_env \<Rightarrow> api_state \<Rightarrow> 't http_request \<Rightarrow> 't http_response \<Rightarrow> api_state \<times> 't http_response" where
  "handle_register_challenge env st req res =
     (case rq_body req of
        None \<Rightarrow> (st, content_json res)
      | Some data \<Rightarrow>
          (case cj_parse (ae_json env) data of
             None \<Rightarrow> (st, content_json res)
           | Some doc \<Rightarrow>
               (case cj_get (ae_json env) doc ''identity'' of
                  None \<Rightarrow> (st, content_json res)
                | Some identity \<Rightarrow>
                    if cj_is_object (ae_json env) identity then issue_challenge env st doc identity req res
                    else (st, content_json res))))"

section \<open>Registering\<close>

text \<open>An early return of a handler: status, error code and message.\<close>

type_synonym api_failure = "http_status \<times> cstring \<times> cstring"

text \<open>Who registers, as the first part of the handler finds out: name, address, transports, and the
  route hostname and hostname hash of the challenge.\<close>

record registrant =
  rt_name :: cstring
  rt_address :: cstring
  rt_udp :: bool
  rt_tcp :: bool
  rt_route_hostname :: "cstring option"
  rt_hostname_hash :: "cstring option"

definition none_if_empty :: "cstring \<Rightarrow> cstring option" where
  "none_if_empty s = (if s = [] then None else Some s)"

definition challenge_registrant :: "register_challenge_entry \<Rightarrow> registrant" where
  "challenge_registrant e =
     \<lparr>rt_name = snprintf_s 256 (ce_identity_name e), rt_address = snprintf_s 96 (ce_identity_address e),
      rt_udp = ce_udp_enabled e, rt_tcp = ce_tcp_enabled e,
      rt_route_hostname = none_if_empty (ce_route_hostname e), rt_hostname_hash = none_if_empty (ce_hostname_hash e)\<rparr>"

text \<open>With a challenge id and a message: the challenge must be there and unexpired, the message must be
  its message, and the signature must verify; then the challenge is consumed.\<close>

definition register_by_challenge ::
  "('j, 't) api_env \<Rightarrow> register_challenge_entry list \<Rightarrow> 'j \<Rightarrow> cstring \<Rightarrow> cstring \<Rightarrow>
   api_failure + register_challenge_entry list \<times> registrant" where
  "register_by_challenge env store doc challenge_id message =
     (let sig = (case cj_get (ae_json env) doc ''siwe_signature'' of None \<Rightarrow> Some [] | Some x \<Rightarrow> cj_valuestring (ae_json env) x);
          missing = Inl (CWIST_HTTP_NOT_FOUND, ''lease_not_found'', ''register challenge not found'')
      in case find_register_challenge store challenge_id of
           None \<Rightarrow> missing
         | Some e \<Rightarrow>
             if \<not> ce_expires_at e > ae_now env then missing
             else if ce_siwe_message e \<noteq> message
             then Inl (CWIST_HTTP_BAD_REQUEST, ''invalid_request'', ''siwe message mismatch'')
             else case ae_siwe_verify env message sig (ce_domain e) (ce_nonce e) (ae_now env) of
               None \<Rightarrow> Inl (CWIST_HTTP_FORBIDDEN, ''unauthorized'', ''siwe signature is invalid'')
             | Some _ \<Rightarrow> Inr (consume_challenge challenge_id store, challenge_registrant e))"

text \<open>Without one: the identity member of the request, a string or an object.\<close>

definition register_by_identity :: "('j, 't) cjson \<Rightarrow> 'j \<Rightarrow> registrant" where
  "register_by_identity api doc =
     (let (name, address) =
        (case cj_get api doc ''identity'' of
           None \<Rightarrow> ([], [])
         | Some identity \<Rightarrow>
             (case cj_valuestring api identity of
                Some addr \<Rightarrow>
                  (case cj_get api doc ''name'' of None \<Rightarrow> [] | Some n \<Rightarrow> or_empty (cj_valuestring api n), addr)
              | None \<Rightarrow>
                  if cj_is_object api identity
                  then (or_empty (str_member api identity ''name''), or_empty (str_member api identity ''address''))
                  else ([], [])))
      in \<lparr>rt_name = snprintf_s 256 name, rt_address = snprintf_s 96 address,
          rt_udp = bool_member api doc ''udp_enabled'', rt_tcp = bool_member api doc ''tcp_enabled'',
          rt_route_hostname = None, rt_hostname_hash = None\<rparr>)"

definition resolve_registrant ::
  "('j, 't) api_env \<Rightarrow> register_challenge_entry list \<Rightarrow> 'j \<Rightarrow> api_failure + register_challenge_entry list \<times> registrant" where
  "resolve_registrant env store doc =
     (case (str_member (ae_json env) doc ''challenge_id'', str_member (ae_json env) doc ''siwe_message'') of
        (Some challenge_id, Some message) \<Rightarrow> register_by_challenge env store doc challenge_id message
      | _ \<Rightarrow> Inr (store, register_by_identity (ae_json env) doc))"

text \<open>\<open>route_hostname\<close> must be a proper child of the root hostname of the relay.\<close>

definition child_of_root :: "cstring \<Rightarrow> cstring \<Rightarrow> bool" where
  "child_of_root root_hostname route =
     (let rh = root_or_localhost root_hostname
      in \<not> (length route \<le> length rh + 1 \<or> route ! (length route - length rh - 1) \<noteq> CHR ''.'' \<or>
             \<not> strcasecmp_eq (drop (length route - length rh) route) rh))"

definition transport_failure :: "cstring \<Rightarrow> bool \<Rightarrow> registrant \<Rightarrow> api_failure option" where
  "transport_failure root_hostname hop who =
     (if hop \<and> (rt_udp who \<or> rt_tcp who)
      then Some (Http_code 409, ''transport_mismatch'', ''transport mismatch'')
      else if (rt_route_hostname who \<noteq> None \<or> rt_hostname_hash who \<noteq> None) \<and> (hop \<or> rt_udp who \<or> rt_tcp who)
      then Some (Http_code 409, ''transport_mismatch'', ''route hostname / hostname hash require stream lease'')
      else if rt_hostname_hash who \<noteq> None \<and> rt_route_hostname who = None
      then Some (CWIST_HTTP_BAD_REQUEST, ''invalid_request'', ''hostname hash requires route hostname'')
      else case rt_route_hostname who of
        None \<Rightarrow> None
      | Some route \<Rightarrow>
          if child_of_root root_hostname route then None
          else Some (CWIST_HTTP_BAD_REQUEST, ''invalid_request'', ''route hostname must be a child of relay root hostname''))"

fun split_scheme :: "cstring \<Rightarrow> (cstring \<times> cstring) option" where
  "split_scheme [] = None"
| "split_scheme (c # s) =
     (if take 3 (c # s) = ''://'' then Some ([], drop 3 (c # s))
      else map_option (\<lambda>(p, r). (c # p, r)) (split_scheme s))"

text \<open>The origin of the public relay URL with \<^verbatim>\<open>/sdk/connect\<close> appended, in a buffer of 1024 bytes.\<close>

definition reverse_url :: "cstring option \<Rightarrow> cstring" where
  "reverse_url keyless_url =
     (let base = snprintf_s 1024 (or_empty keyless_url);
          origin = (case split_scheme base of
                      None \<Rightarrow> takeWhile (\<lambda>c. c \<noteq> CHR ''/'') base
                    | Some (p, r) \<Rightarrow> p @ ''://'' @ takeWhile (\<lambda>c. c \<noteq> CHR ''/'') r)
      in snprintf_s 1024 (origin @ ''/sdk/connect''))"

definition add_reverse_endpoint ::
  "('j, 't) cjson \<Rightarrow> cstring option \<Rightarrow> cstring \<Rightarrow> cstring \<Rightarrow> cstring \<times> 'j" where
  "add_reverse_endpoint api keyless_url capability expires_at_str =
     (''reverse_endpoint'', cj_object api [(''url'', cj_string api (reverse_url keyless_url)),
        (''capability'', cj_string api capability), (''expires_at'', cj_string api expires_at_str)])"

definition fresh_token :: "('j, 't) api_env \<Rightarrow> cstring \<Rightarrow> cstring \<Rightarrow> int \<Rightarrow> cstring option" where
  "fresh_token env name address ttl =
     (case portillia_issue_lease_token (ae_json env) (ae_tokens env) (ae_keys env) name address ttl of
        None \<Rightarrow> None
      | Some token_json \<Rightarrow>
          (case cj_parse (ae_json env) token_json of
             None \<Rightarrow> None
           | Some token_doc \<Rightarrow> str_member (ae_json env) token_doc ''token''))"

definition register_response ::
  "('j, 't) api_env \<Rightarrow> api_state \<Rightarrow> registrant \<Rightarrow> cstring \<Rightarrow> cstring \<Rightarrow> 'j" where
  "register_response env st who hostname token =
     (let api = ae_json env; expires = format_time_rfc3339 (ae_now env + 300)
      in cj_object api
        [(''ok'', cj_bool api True),
         (''data'', cj_object api (
            [(''identity'', cj_object api [(''name'', cj_string api (rt_name who)), (''address'', cj_string api (rt_address who))]),
             (''expires_at'', cj_string api expires), (''hostname'', cj_string api hostname),
             (''access_token'', cj_string api token), add_reverse_endpoint api (ap_keyless_url st) token expires] @
            (if nonempty (ap_keyless_url st) then [(''keyless_url'', cj_string api (or_empty (ap_keyless_url st)))] else []) @
            [(''udp_enabled'', cj_bool api (rt_udp who)), (''tcp_enabled'', cj_bool api (rt_tcp who)),
             (''sni_port'', cj_number api (double_of_int (ae_sni_port env)))] @
            (if rt_udp who then [(''udp_addr'', cj_string api (snprintf_s 64 (''localhost:'' @ dec_int (ae_sni_port env))))] else []) @
            (if rt_tcp who then [(''tcp_addr'', cj_string api ''localhost:4017'')] else [])))])"

text \<open>The lease is registered twice, first plainly, then with the addresses and the hostname hash; the
  result of registering is not looked at. Then a token is issued.\<close>

definition register_lease ::
  "('j, 't) api_env \<Rightarrow> api_state \<Rightarrow> 'j \<Rightarrow> registrant \<Rightarrow> 't http_request \<Rightarrow> 't http_response \<Rightarrow> api_state \<times> 't http_response" where
  "register_lease env st doc who req res =
     (let api = ae_json env;
          bps = (case cj_get api doc ''bps_limit'' of None \<Rightarrow> 0 | Some b \<Rightarrow> int_of_double (cj_valuedouble api b));
          hostname = derive_hostname (server_root st) (rt_name who) (rt_address who) 256
      in case transport_failure (server_root st) (nonempty (str_member api doc ''hop_token'')) who of
           Some (status, code, message) \<Rightarrow> (st, fail_with status code message res)
         | None \<Rightarrow>
             let client_ip = extract_client_ip (sv_settings (ap_server st)) req;
                 srv1 = server_register hostname (rt_address who) bps None None None (ae_now env) (ap_server st);
                 srv2 = server_register hostname (rt_address who) bps (Some client_ip) (str_member api doc ''reported_ip'')
                          (rt_hostname_hash who) (ae_now env) srv1;
                 st' = st\<lparr>ap_server := srv2\<rparr>
             in case fresh_token env (rt_name who) (rt_address who) 300 of
                  None \<Rightarrow> (st', fail_with CWIST_HTTP_INTERNAL_ERROR ''internal_error'' ''failed to issue access token'' res)
                | Some token \<Rightarrow>
                    (st', content_json (res\<lparr>rp_body := Body_json (cj_print api (register_response env st who hostname token))\<rparr>)))"

definition handle_register ::
  "('j, 't) api_env \<Rightarrow> api_state \<Rightarrow> 't http_request \<Rightarrow> 't http_response \<Rightarrow> api_state \<times> 't http_response" where
  "handle_register env st req res =
     (case rq_body req of
        None \<Rightarrow> (st, content_json res)
      | Some data \<Rightarrow>
          (case cj_parse (ae_json env) data of
             None \<Rightarrow> (st, content_json res)
           | Some doc \<Rightarrow>
               (case resolve_registrant env (ap_challenges st) doc of
                  Inl (status, code, message) \<Rightarrow> (st, fail_with status code message res)
                | Inr (store, who) \<Rightarrow>
                    let st' = st\<lparr>ap_challenges := store\<rparr>
                    in if rt_address who \<noteq> [] then register_lease env st' doc who req res
                       else (st', fail_with CWIST_HTTP_BAD_REQUEST ''invalid_request'' ''missing identity'' res))))"

section \<open>Tokens\<close>

text \<open>Name and address of the claims of a verified token.\<close>

definition claims_of :: "('j, 't) cjson \<Rightarrow> 't \<Rightarrow> (cstring \<times> cstring option) option" where
  "claims_of api claims_json =
     map_option (\<lambda>claims. (or_empty (str_member api claims ''identity_name''), str_member api claims ''identity_address''))
       (cj_parse api claims_json)"

definition handle_renew ::
  "('j, 't) api_env \<Rightarrow> api_state \<Rightarrow> 't http_request \<Rightarrow> 't http_response \<Rightarrow> api_state \<times> 't http_response" where
  "handle_renew env st req res =
     (let api = ae_json env in
      case rq_body req of
        None \<Rightarrow> (st, fail_with CWIST_HTTP_BAD_REQUEST ''invalid_request'' ''missing renew payload'' res)
      | Some data \<Rightarrow>
          (case cj_parse api data of
             None \<Rightarrow> (st, fail_with CWIST_HTTP_BAD_REQUEST ''invalid_request'' ''invalid json'' res)
           | Some doc \<Rightarrow>
               (case str_member api doc ''access_token'' of
                  None \<Rightarrow> (st, fail_with CWIST_HTTP_BAD_REQUEST ''invalid_request'' ''access token is required'' res)
                | Some token \<Rightarrow>
                    (case portillia_verify_lease_token (ae_tokens env) (ae_keys env) token (ae_now env) of
                       None \<Rightarrow> (st, fail_with CWIST_HTTP_NOT_FOUND ''lease_not_found'' ''lease not found'' res)
                     | Some claims_json \<Rightarrow>
                         (case claims_of api claims_json of
                            None \<Rightarrow> (st, fail_with CWIST_HTTP_INTERNAL_ERROR ''internal_error'' ''failed to parse token claims'' res)
                          | Some (name0, None) \<Rightarrow>
                              (st, fail_with CWIST_HTTP_NOT_FOUND ''lease_not_found'' ''invalid token claims'' res)
                          | Some (name0, Some addr0) \<Rightarrow>
                              let name = snprintf_s 256 name0; addr = snprintf_s 96 addr0;
                                  hostname = derive_hostname (server_root st) name addr 256;
                                  ttl = ttl_of api doc;
                                  expires = format_time_rfc3339 (ae_now env + ttl);
                                  st' = st\<lparr>ap_server := server_register hostname addr 0 None None None (ae_now env) (ap_server st)\<rparr>
                              in case fresh_token env name addr ttl of
                                   None \<Rightarrow> (st', fail_with CWIST_HTTP_INTERNAL_ERROR ''internal_error'' ''failed to issue access token'' res)
                                 | Some access_token \<Rightarrow>
                                     (st', content_json (res\<lparr>rp_body := Body_json (cj_print api (cj_object api
                                       [(''ok'', cj_bool api True),
                                        (''data'', cj_object api [(''expires_at'', cj_string api expires),
                                           (''access_token'', cj_string api access_token),
                                           add_reverse_endpoint api (ap_keyless_url st) access_token expires])]))\<rparr>)))))))"

definition handle_unregister ::
  "('j, 't) api_env \<Rightarrow> api_state \<Rightarrow> 't http_request \<Rightarrow> 't http_response \<Rightarrow> api_state \<times> 't http_response" where
  "handle_unregister env st req res =
     (let api = ae_json env in
      case rq_body req of
        None \<Rightarrow> (st, fail_with CWIST_HTTP_BAD_REQUEST ''invalid_request'' ''missing token'' res)
      | Some data \<Rightarrow>
          (case cj_parse api data of
             None \<Rightarrow> (st, fail_with CWIST_HTTP_BAD_REQUEST ''invalid_request'' ''invalid json'' res)
           | Some doc \<Rightarrow>
               (case str_member api doc ''access_token'' of
                  None \<Rightarrow> (st, fail_with CWIST_HTTP_BAD_REQUEST ''invalid_request'' ''access token is required'' res)
                | Some token \<Rightarrow>
                    (case portillia_verify_lease_token (ae_tokens env) (ae_keys env) token (ae_now env) of
                       None \<Rightarrow> (st, fail_with CWIST_HTTP_NOT_FOUND ''lease_not_found'' ''lease not found'' res)
                     | Some _ \<Rightarrow> (st, content_json (res\<lparr>rp_body := Body_text ''{\"ok\": true, \"data\": {}}''\<rparr>))))))"

section \<open>Reverse connections\<close>

text \<open>The hostname of the token in either header, if it verifies; otherwise of the request headers.\<close>

definition connect_token :: "'t http_request \<Rightarrow> cstring option" where
  "connect_token req =
     (let token = rq_header req ''X-Portal-Access-Token''
      in if nonempty token then token else rq_header req ''X-Portal-Reverse-Capability'')"

definition token_hostname :: "('j, 't) api_env \<Rightarrow> api_state \<Rightarrow> cstring option \<Rightarrow> cstring" where
  "token_hostname env st token =
     (case token of
        None \<Rightarrow> []
      | Some tok \<Rightarrow>
          (case portillia_verify_lease_token (ae_tokens env) (ae_keys env) tok (ae_now env) of
             None \<Rightarrow> []
           | Some claims_json \<Rightarrow>
               (case claims_of (ae_json env) claims_json of
                  Some (name, Some addr) \<Rightarrow> derive_hostname (server_root st) name addr 256
                | _ \<Rightarrow> [])))"

definition connect_hostname :: "('j, 't) api_env \<Rightarrow> api_state \<Rightarrow> 't http_request \<Rightarrow> cstring" where
  "connect_hostname env st req =
     (let h = token_hostname env st (connect_token req)
      in if h \<noteq> [] then h
         else let host = (case rq_header req ''X-Portal-Hostname'' of Some x \<Rightarrow> Some x | None \<Rightarrow> rq_header req ''Host'')
              in normalize_hostname (snprintf_s 256 (or_empty host)))"

definition handle_connect ::
  "('j, 't) api_env \<Rightarrow> api_state \<Rightarrow> 't http_request \<Rightarrow> 't http_response \<Rightarrow> api_state \<times> 't http_response" where
  "handle_connect env st req res =
     (if rq_method req \<noteq> CWIST_HTTP_GET
      then (st, fail_with (Http_code 405) ''invalid_request'' ''method not allowed'' res)
      else let hostname = connect_hostname env st req
           in if hostname = []
              then (st, fail_with CWIST_HTTP_BAD_REQUEST ''invalid_request'' ''missing hostname or access token'' res)
              else
                let upgrade = (case rq_header req ''Upgrade'' of Some u \<Rightarrow> strcasecmp_eq u ''raw'' | None \<Rightarrow> False);
                    res1 = (if upgrade
                            then header_add ''Upgrade'' ''raw'' (header_add ''Connection'' ''Upgrade''
                                   (res\<lparr>rp_status := Http_code 101, rp_status_text := ''Switching Protocols''\<rparr>))
                            else header_add ''Connection'' ''keep-alive'' (res\<lparr>rp_status := Http_code 200\<rparr>))
                in (st\<lparr>ap_connect_hostname := snprintf_s 256 hostname,
                       ap_connect_remote := Some (extract_client_ip (sv_settings (ap_server st)) req)\<rparr>,
                    (header_add ''Content-Length'' ''0'' res1)\<lparr>rp_upgraded := True\<rparr>))"

text \<open>The upgrade hook: the connection goes to the ready queue of the lease of that hostname.\<close>

definition cwist_https_upgrade_handler ::
  "('j, 't) api_env \<Rightarrow> api_state \<Rightarrow> int \<Rightarrow> nat option \<Rightarrow> (api_state \<times> bool) option" where
  "cwist_https_upgrade_handler env st fd ssl =
     (if fd < 0 \<or> ssl = None then Some (st, False)
      else case portillia_registry_offer_ssl_conn (ae_hostname_hash env) (ae_now env) (ap_server st)
                  (ap_connect_hostname st) fd ssl of
        None \<Rightarrow> None
      | Some (srv, ready) \<Rightarrow>
          Some (st\<lparr>ap_server := srv, ap_connect_hostname := [], ap_connect_remote := None\<rparr>, ready > 0))"

section \<open>Hop routes and status\<close>

definition hop_key :: "('j, 't) cjson \<Rightarrow> 'j \<Rightarrow> cstring option" where
  "hop_key api doc =
     (let value = (\<lambda>k. case cj_get api doc k of None \<Rightarrow> None | Some x \<Rightarrow> cj_valuestring api x)
      in case value ''public_hostname'' of
           Some h \<Rightarrow> Some h
         | None \<Rightarrow> (case value ''match_hostname'' of Some h \<Rightarrow> Some h | None \<Rightarrow> value ''match_token''))"

text \<open>A route that is new is copied, so that its strings must not be null.\<close>

definition register_hop ::
  "time_t \<Rightarrow> cstring \<Rightarrow> cstring option \<Rightarrow> cstring option \<Rightarrow> cstring option \<Rightarrow> portillia_server \<Rightarrow> portillia_server option" where
  "register_hop now key next_ipv4 next_token identity srv =
     (case first_index (\<lambda>rec. lr_hop_token rec = Some key) (rg_records (sv_registry srv)) of
        None \<Rightarrow>
          if length (rg_records (sv_registry srv)) < MAX_RECORDS \<and> (next_ipv4 = None \<or> next_token = None \<or> identity = None)
          then None
          else Some (srv\<lparr>sv_registry := portillia_registry_register_hop (sv_registry srv) key (or_empty next_ipv4)
                      (or_empty next_token) (or_empty identity) now\<rparr>)
      | Some i \<Rightarrow> Some (srv\<lparr>sv_registry := portillia_registry_register_hop (sv_registry srv) key (or_empty next_ipv4)
                      (or_empty next_token) (or_empty identity) now\<rparr>))"

definition handle_hop ::
  "('j, 't) api_env \<Rightarrow> api_state \<Rightarrow> 't http_request \<Rightarrow> 't http_response \<Rightarrow> (api_state \<times> 't http_response) option" where
  "handle_hop env st req res =
     (let api = ae_json env; unchanged = Some (st, content_json res) in
      case rq_body req of
        None \<Rightarrow> unchanged
      | Some data \<Rightarrow>
          (case cj_parse api data of
             None \<Rightarrow> unchanged
           | Some doc \<Rightarrow>
               (case (cj_get api doc ''identity'', cj_get api doc ''forward_token'', cj_get api doc ''forward_relay'') of
                  (Some identity, Some forward_token, Some forward_relay) \<Rightarrow>
                    (case cj_get api forward_relay ''wireguard_ipv4'' of
                       None \<Rightarrow> unchanged
                     | Some next_ipv4 \<Rightarrow>
                         let res' = content_json (res\<lparr>rp_body := Body_ok\<rparr>)
                         in case hop_key api doc of
                              None \<Rightarrow> Some (st, res')
                            | Some key \<Rightarrow>
                                map_option (\<lambda>srv. (st\<lparr>ap_server := srv\<rparr>, res'))
                                  (register_hop (ae_now env) key (cj_valuestring api next_ipv4)
                                    (cj_valuestring api forward_token) (cj_valuestring api identity) (ap_server st)))
                | _ \<Rightarrow> unchanged)))"

definition handle_tunnel_status ::
  "('j, 't) api_env \<Rightarrow> api_state \<Rightarrow> 't http_request \<Rightarrow> 't http_response \<Rightarrow> 't http_response" where
  "handle_tunnel_status env st req res =
     (let api = ae_json env; hostname = normalize_hostname (snprintf_s 512 (or_empty (rq_query req ''hostname'')))
      in if hostname = [] then fail_with CWIST_HTTP_BAD_REQUEST ''invalid_request'' ''hostname is required'' res
         else case portillia_registry_tunnel_status (ae_hostname_hash env) (ae_now env) (ap_server st) (Some hostname) 512 of
           (registered, resolved, alive) \<Rightarrow>
             content_json (res\<lparr>rp_body := Body_json (cj_print api (cj_object api
               [(''ok'', cj_bool api True),
                (''data'', cj_object api
                  [(''hostname'', cj_string api (if registered \<and> resolved \<noteq> [] then resolved else hostname)),
                   (''registered'', cj_bool api registered), (''service_alive'', cj_bool api (registered \<and> alive))])]))\<rparr>))"

section \<open>Where a challenge comes from\<close>

text \<open>What the code relies on of the SIWE functions: a message that verifies under a domain and a nonce,
  and that was created for an address under them, carries a signature by that address. \<open>signed_by\<close> is
  the relation "this address signed_by this message"; the messages fit the store.\<close>

definition siwe_laws :: "('j, 't) api_env \<Rightarrow> (cstring \<Rightarrow> cstring \<Rightarrow> cstring option \<Rightarrow> bool) \<Rightarrow> bool" where
  "siwe_laws env signed_by \<longleftrightarrow>
     (\<forall>domain addr uri nonce stmt rid ia ex chain msg.
        ae_siwe_create env domain addr uri nonce stmt rid ia ex chain = Some msg \<longrightarrow> length msg < 2048) \<and>
     (\<forall>domain addr uri nonce stmt rid ia ex chain msg sig now.
        ae_siwe_create env domain addr uri nonce stmt rid ia ex chain = Some msg \<and>
        ae_siwe_verify env msg sig domain nonce now \<noteq> None \<longrightarrow> signed_by addr msg sig)"

text \<open>The requests that touch the store, each with its own clock and random numbers.\<close>

datatype 't api_call =
    Call_challenge "nat \<Rightarrow> nat" time_t "'t http_request"
  | Call_register "nat \<Rightarrow> nat" time_t "'t http_request"

definition at_call :: "('j, 't) api_env \<Rightarrow> (nat \<Rightarrow> nat) \<Rightarrow> time_t \<Rightarrow> ('j, 't) api_env" where
  "at_call env rand now = env\<lparr>ae_rand := rand, ae_now := now\<rparr>"

fun api_exec :: "('j, 't) api_env \<Rightarrow> 't api_call \<Rightarrow> api_state \<Rightarrow> api_state" where
  "api_exec env (Call_challenge rand now req) st = fst (handle_register_challenge (at_call env rand now) st req fresh_response)"
| "api_exec env (Call_register rand now req) st = fst (handle_register (at_call env rand now) st req fresh_response)"

definition api_run :: "('j, 't) api_env \<Rightarrow> 't api_call list \<Rightarrow> api_state \<Rightarrow> api_state" where
  "api_run env calls st = foldl (\<lambda>st c. api_exec env c st) st calls"

text \<open>An entry of the store belongs to a challenge request that named the identity.\<close>

definition challenged ::
  "('j, 't) api_env \<Rightarrow> 't api_call list \<Rightarrow> register_challenge_entry \<Rightarrow> bool" where
  "challenged env calls e \<longleftrightarrow>
     (\<exists>rand now req doc identity addr uri stmt rid ia ex chain.
        Call_challenge rand now req \<in> set calls \<and> (\<exists>data. rq_body req = Some data \<and> cj_parse (ae_json env) data = Some doc) \<and>
        cj_get (ae_json env) doc ''identity'' = Some identity \<and>
        addr = or_empty (str_member (ae_json env) identity ''address'') \<and>
        ce_identity_name e = snprintf_s 256 (or_empty (str_member (ae_json env) identity ''name'')) \<and>
        ce_identity_address e = snprintf_s 96 addr \<and>
        ae_siwe_create env (ce_domain e) addr uri (ce_nonce e) stmt rid ia ex chain = Some (ce_siwe_message e))"

definition store_inv :: "('j, 't) api_env \<Rightarrow> 't api_call list \<Rightarrow> register_challenge_entry list \<Rightarrow> bool" where
  "store_inv env calls store \<longleftrightarrow> length store = MAX_REGISTER_CHALLENGES \<and>
     (\<forall>e \<in> set store. ce_in_use e \<longrightarrow> challenged env calls e)"

lemma at_call_simps [simp]:
  "ae_json (at_call env r n) = ae_json env" "ae_siwe_create (at_call env r n) = ae_siwe_create env"
  "ae_siwe_verify (at_call env r n) = ae_siwe_verify env" "ae_now (at_call env r n) = n" "ae_rand (at_call env r n) = r"
  by (simp_all add: at_call_def)

lemma challenged_mono: "challenged env calls e \<Longrightarrow> set calls \<subseteq> set calls' \<Longrightarrow> challenged env calls' e"
  unfolding challenged_def by blast

lemma snprintf_s_idem [simp]: "snprintf_s n (snprintf_s n s) = snprintf_s n s"
  by (simp add: snprintf_s_def)

lemma length_normalize_hostname: "length (normalize_hostname s) \<le> length s"
proof -
  have d: "length (dropWhile P x) \<le> length x" for P and x :: cstring by (rule length_dropWhile_le)
  have r: "length (rev (dropWhile P (rev x))) \<le> length x" for P and x :: cstring
    using d [of P "rev x"] by simp
  have b: "length (before_last c x) \<le> length x" for c x
    using d [of "\<lambda>y. y \<noteq> c" "rev x"] by (simp add: before_last_def)
  have trim: "length (trim_ascii s) \<le> length s"
    unfolding trim_ascii_def using r d order_trans by blast
  define a where "a = takeWhile (\<lambda>c. c \<noteq> CHR ''/'') (trim_ascii s)"
  define h where "h = (if CHR '':'' \<in> set a \<and> hd a \<noteq> CHR ''['' then before_last CHR '':'' a else a)"
  have "length a \<le> length s" unfolding a_def using trim length_takeWhile_le order_trans by blast
  then have "length h \<le> length s" unfolding h_def using b [of "CHR '':''" a] by auto
  then have "length (dropWhile (\<lambda>c. c = CHR ''.'') h) \<le> length s"
    using d order_trans by blast
  then show ?thesis
    unfolding normalize_hostname_def Let_def str_tolower_def length_map a_def [symmetric] h_def [symmetric]
    using r order_trans by blast
qed

lemma length_challenge_domain: "length (challenge_domain st req) \<le> 255"
  using length_normalize_hostname [of "snprintf_s 256 (or_empty (rq_header req ''Host''))"]
    length_snprintf_s [of 256 "or_empty (rq_header req ''Host'')"]
    length_snprintf_s [of 256 "root_or_localhost (server_root st)"]
  by (auto simp: challenge_domain_def Let_def)

lemma store_inv_init: "store_inv env [] register_challenge_store_init"
  by (simp add: store_inv_def register_challenge_store_init_def zero_challenge_def MAX_REGISTER_CHALLENGES_def)

lemma store_inv_mono: "store_inv env calls store \<Longrightarrow> set calls \<subseteq> set calls' \<Longrightarrow> store_inv env calls' store"
  unfolding store_inv_def using challenged_mono by blast

lemma store_inv_consume: "store_inv env calls store \<Longrightarrow> store_inv env calls (consume_challenge cid store)"
  unfolding store_inv_def consume_challenge_def
  by (auto split: option.splits dest!: set_update_subset_insert [THEN subsetD])

lemma store_inv_put:
  assumes "store_inv env calls store" "challenged env calls e"
  shows "store_inv env calls (store[i := e])"
  using assms set_update_subset_insert [of store i e] unfolding store_inv_def by fastforce

lemma issue_challenge_store:
  assumes "Call_challenge rand now req \<in> set calls" "rq_body req = Some data" "cj_parse (ae_json env) data = Some doc"
    and "cj_get (ae_json env) doc ''identity'' = Some identity" "siwe_laws env signed_by"
    and "store_inv env calls (ap_challenges st)"
  shows "store_inv env calls (ap_challenges (fst (issue_challenge (at_call env rand now) st doc identity req res)))"
proof -
  let ?domain = "challenge_domain st req" and ?nonce = "make_nonce rand"
    and ?addr = "or_empty (str_member (ae_json env) identity ''address'')"
  define cid where "cid = random_token ''rch_'' (rand 0) now 64"
  define uri where "uri = snprintf_s 256 (''https://'' @ ?domain @ (case rq_path req of Some p \<Rightarrow> p | None \<Rightarrow> ''/sdk/register''))"
  define ia where "ia = format_time_rfc3339 now"
  define ex where "ex = format_time_rfc3339 (now + ttl_of (ae_json env) doc)"
  have fits: "snprintf_s 256 ?domain = ?domain" "snprintf_s 32 ?nonce = ?nonce"
    using length_challenge_domain [of st req] by (simp_all add: make_nonce_def)
  show ?thesis
  proof (cases "ae_siwe_create env ?domain ?addr uri ?nonce ''Register a portal lease'' cid ia ex 1")
    case None
    then show ?thesis
      using assms(6) by (simp add: issue_challenge_def Let_def cid_def uri_def ia_def ex_def)
  next
    case (Some msg)
    then have "snprintf_s 2048 msg = msg"
      using assms(5) unfolding siwe_laws_def by (intro snprintf_s_fits) blast
    moreover have "ap_challenges (fst (issue_challenge (at_call env rand now) st doc identity req res)) =
        store_register_challenge (rand 17) (or_empty (str_member (ae_json env) identity ''name'')) ?addr msg
          (bool_member (ae_json env) doc ''udp_enabled'') (bool_member (ae_json env) doc ''tcp_enabled'')
          (str_member (ae_json env) doc ''route_hostname'') (str_member (ae_json env) doc ''hostname_hash'')
          ?domain ?nonce (now + ttl_of (ae_json env) doc) cid (ap_challenges st)"
      using Some unfolding cid_def uri_def ia_def ex_def by (simp add: issue_challenge_def Let_def)
    moreover have "challenged env calls e" if "ce_domain e = ?domain" "ce_nonce e = ?nonce" "ce_siwe_message e = msg"
        "ce_identity_address e = snprintf_s 96 ?addr"
        "ce_identity_name e = snprintf_s 256 (or_empty (str_member (ae_json env) identity ''name''))" for e
      unfolding challenged_def that using assms(1-4) Some by blast
    ultimately show ?thesis
      using assms(6) fits by (auto simp: store_register_challenge_def intro!: store_inv_put)
  qed
qed

lemma resolve_store:
  assumes "store_inv env calls store" "resolve_registrant (at_call env rand now) store doc = Inr (store', who)"
  shows "store_inv env calls store'"
  using assms store_inv_consume [OF assms(1)]
  by (auto simp: resolve_registrant_def register_by_challenge_def Let_def split: option.splits if_splits)

lemma register_lease_challenges [simp]: "ap_challenges (fst (register_lease env st doc who req res)) = ap_challenges st"
  by (simp add: register_lease_def Let_def split: option.splits prod.splits)

lemma store_inv_exec:
  assumes "siwe_laws env signed_by" "store_inv env calls (ap_challenges st)"
  shows "store_inv env (calls @ [c]) (ap_challenges (api_exec env c st))"
proof (cases c)
  case (Call_challenge rand now req)
  have inv: "store_inv env (calls @ [c]) (ap_challenges st)" by (rule store_inv_mono [OF assms(2)]) auto
  have "c \<in> set (calls @ [c])" by simp
  note put = issue_challenge_store [OF this [unfolded Call_challenge] _ _ _ assms(1) inv [unfolded Call_challenge], of _ _ _ fresh_response]
  show ?thesis
    using inv put unfolding Call_challenge
    by (auto simp: handle_register_challenge_def split: option.splits)
next
  case (Call_register rand now req)
  have inv: "store_inv env (calls @ [c]) (ap_challenges st)" by (rule store_inv_mono [OF assms(2)]) auto
  show ?thesis
    using inv resolve_store [OF inv] unfolding Call_register
    by (auto simp: handle_register_def Let_def split: option.splits sum.splits prod.splits)
qed

lemma store_inv_run:
  assumes "siwe_laws env signed_by" "ap_challenges st = register_challenge_store_init"
  shows "store_inv env calls (ap_challenges (api_run env calls st))"
proof (induction calls rule: rev_induct)
  case Nil
  then show ?case using assms(2) store_inv_init by (simp add: api_run_def)
next
  case (snoc c calls)
  then show ?case using store_inv_exec [OF assms(1)] by (simp add: api_run_def)
qed

section \<open>Registering with a challenge\<close>

definition request_doc :: "('j, 't) cjson \<Rightarrow> 't http_request \<Rightarrow> 'j option" where
  "request_doc api req = (case rq_body req of None \<Rightarrow> None | Some data \<Rightarrow> cj_parse api data)"

definition request_signature :: "('j, 't) cjson \<Rightarrow> 'j \<Rightarrow> cstring option" where
  "request_signature api doc = (case cj_get api doc ''siwe_signature'' of None \<Rightarrow> Some [] | Some x \<Rightarrow> cj_valuestring api x)"

text \<open>The lease of a registrant, entered twice.\<close>

definition lease_entered :: "cstring \<Rightarrow> cstring \<Rightarrow> time_t \<Rightarrow> portillia_server \<Rightarrow> portillia_server \<Rightarrow> bool" where
  "lease_entered hostname address now srv srv' \<longleftrightarrow>
     (\<exists>bps ip rip hash. srv' = server_register hostname address bps ip rip hash now
        (server_register hostname address bps None None None now srv))"

lemma lease_enteredI [intro]:
  "lease_entered hostname address now srv (server_register hostname address bps ip rip hash now
     (server_register hostname address bps None None None now srv))"
  unfolding lease_entered_def by blast

lemma siwe_signed:
  assumes "siwe_laws env signed_by" "ae_siwe_create env domain addr uri nonce stmt rid ia ex chain = Some msg"
    and "ae_siwe_verify env msg sig domain nonce now \<noteq> None"
  shows "signed_by addr msg sig"
  using assms(1) [unfolded siwe_laws_def, THEN conjunct2] assms(2,3) by (elim allE impE) blast+

lemma handle_register_cases:
  assumes "request_doc (ae_json env) req = Some doc" "handle_register env st req res = (st', res')"
  shows "case resolve_registrant env (ap_challenges st) doc of
      Inl (status, code, message) \<Rightarrow> st' = st \<and> res' = fail_with status code message res
    | Inr (store, who) \<Rightarrow>
        if rt_address who = [] then st' = st\<lparr>ap_challenges := store\<rparr> \<and>
          res' = fail_with CWIST_HTTP_BAD_REQUEST ''invalid_request'' ''missing identity'' res
        else (st', res') = register_lease env (st\<lparr>ap_challenges := store\<rparr>) doc who req res"
  using assms
  by (auto simp: request_doc_def handle_register_def Let_def split: option.splits sum.splits prod.splits if_splits)

lemma register_lease_effect:
  assumes "register_lease env st doc who req res = (st', res')"
  shows "ap_challenges st' = ap_challenges st \<and>
    (ap_server st' = ap_server st \<and> (\<nexists>x. rp_body res' = Body_json x) \<or>
     lease_entered (derive_hostname (server_root st) (rt_name who) (rt_address who) 256) (rt_address who) (ae_now env)
       (ap_server st) (ap_server st'))"
  using assms
  by (auto simp: register_lease_def Let_def split: option.splits prod.splits)

lemma challenge_resolved:
  assumes "register_by_challenge env store doc cid msg = Inr (store', who)"
  obtains e where "find_register_challenge store cid = Some e" "ae_now env < ce_expires_at e" "ce_siwe_message e = msg"
    "ae_siwe_verify env msg (request_signature (ae_json env) doc) (ce_domain e) (ce_nonce e) (ae_now env) \<noteq> None"
    "store' = consume_challenge cid store" "who = challenge_registrant e"
  using assms
  by (auto simp: register_by_challenge_def request_signature_def Let_def split: option.splits if_splits)


text \<open>A toy signature scheme and a small relay, for the witnesses.\<close>

definition sample_api :: "(json, json) api_env" where
  "sample_api = \<lparr>ae_json = tree_json, ae_tokens = sample_bridge, ae_keys = sample_keys,
     ae_siwe_create = (\<lambda>domain addr uri nonce stmt rid ia ex chain. if length addr < 96 then Some (''by '' @ addr) else None),
     ae_siwe_verify = (\<lambda>msg sig domain nonce now. if sig = Some (''signed '' @ msg) then Some JNull else None),
     ae_hostname_hash = (\<lambda>_. None), ae_sni_port = 443, ae_rand = (\<lambda>_. 7), ae_now = 1000\<rparr>"

definition sample_signed :: "cstring \<Rightarrow> cstring \<Rightarrow> cstring option \<Rightarrow> bool" where
  "sample_signed addr msg sig \<longleftrightarrow> sig = Some (''signed '' @ msg)"

lemma sample_siwe_laws: "siwe_laws sample_api sample_signed"
  by (auto simp: siwe_laws_def sample_api_def sample_signed_def split: if_splits)

definition sample_state :: api_state where
  "sample_state = \<lparr>ap_server = portillia_server_setup ''r.io'' 4017 None, ap_challenges = register_challenge_store_init,
     ap_keyless_url = Some ''https://r.io/x'', ap_connect_hostname = [], ap_connect_remote = None\<rparr>"

definition json_request :: "(cstring \<times> json) list \<Rightarrow> json http_request" where
  "json_request fs = empty_request\<lparr>rq_body := Some (JObject fs), rq_body_size := 10\<rparr>"

lemma json_request_doc [simp]: "request_doc tree_json (json_request fs) = Some (JObject fs)"
  by (simp add: request_doc_def json_request_def)

lemma json_request_simps [simp]: "rq_body (json_request fs) = Some (JObject fs)" "rq_header (json_request fs) k = None"
  "rq_path (json_request fs) = None" "rq_peer (json_request fs) = None" "rq_method (json_request fs) = CWIST_HTTP_POST"
  by (simp_all add: json_request_def empty_request_def)

definition sample_challenge :: "json api_call" where
  "sample_challenge = Call_challenge (\<lambda>_. 7) 1000
     (json_request [(''identity'', JObject [(''name'', JString ''app''), (''address'', JString ''0xab'')])])"

definition sample_entry :: register_challenge_entry where
  "sample_entry = \<lparr>ce_in_use = True, ce_challenge_id = ''rch_71000'', ce_siwe_message = ''by 0xab'', ce_identity_name = ''app'',
     ce_identity_address = ''0xab'', ce_udp_enabled = False, ce_tcp_enabled = False, ce_route_hostname = [],
     ce_hostname_hash = [], ce_domain = ''r.io'', ce_nonce = replicate 16 (CHR ''h''), ce_expires_at = 1300\<rparr>"

definition sample_register :: "json http_request" where
  "sample_register = json_request [(''challenge_id'', JString ''rch_71000''), (''siwe_message'', JString ''by 0xab''),
     (''siwe_signature'', JString ''signed by 0xab'')]"

lemmas string_eval = str_tolower_def char_tolower_def char_code_def

definition sample_rest :: "register_challenge_entry list" where
  "sample_rest = replicate 511 zero_challenge"

lemma challenge_store_Cons: "register_challenge_store_init = zero_challenge # sample_rest"
proof -
  have "MAX_REGISTER_CHALLENGES = Suc 511" by (simp add: MAX_REGISTER_CHALLENGES_def)
  then show ?thesis unfolding register_challenge_store_init_def sample_rest_def by (metis replicate_Suc)
qed

lemma sample_api_simps [simp]:
  "ae_json sample_api = tree_json" "ae_now sample_api = 1000" "ae_tokens sample_api = sample_bridge" "ae_keys sample_api = sample_keys"
  "ae_tokens (at_call env r n) = ae_tokens env" "ae_keys (at_call env r n) = ae_keys env"
  by (simp_all add: sample_api_def at_call_def)

lemma sample_siwe [simp]:
  "ae_siwe_create sample_api d ''0xab'' u n s rid ia ex c = Some ''by 0xab''"
  "ae_siwe_verify sample_api ''by 0xab'' (Some ''signed by 0xab'') d n now = Some JNull"
  by (simp_all add: sample_api_def)

lemma sample_challenge_run:
  "ap_challenges (api_run sample_api [sample_challenge] sample_state) = sample_entry # sample_rest"
  "ap_server (api_run sample_api [sample_challenge] sample_state) = ap_server sample_state"
proof -
  have digits: "digit_char 7 = CHR ''7''" "digit_char 1 = CHR ''1''" "digit_char 0 = CHR ''0''" by code_simp+
  have "random_token ''rch_'' 7 1000 64 = ''rch_71000''"
    by (simp add: random_token_def dec_int_def dec.simps digits [simplified])
  moreover have "nonce_charset ! 7 = CHR ''h''" by (simp add: nonce_charset_def)
  then have "make_nonce (\<lambda>_. 7) = replicate 16 (CHR ''h'')" by (simp add: make_nonce_def map_replicate_trivial del: upt_conv_Cons_Cons)
  ultimately have id: "random_token ''rch_'' 7 1000 64 = ''rch_71000''" "make_nonce (\<lambda>_. 7) = replicate 16 (CHR ''h'')" .
  have root: "server_root sample_state = ''r.io''"
    by (simp add: server_root_def sample_state_def portillia_server_setup_def lease_registry_new_def)
  have init: "ap_challenges sample_state = zero_challenge # sample_rest"
    by (simp add: sample_state_def challenge_store_Cons)
  have slot: "challenge_slot r (zero_challenge # sample_rest) = 0" for r
    by (simp add: challenge_slot_def zero_challenge_def)
  show "ap_challenges (api_run sample_api [sample_challenge] sample_state) = sample_entry # sample_rest"
    "ap_server (api_run sample_api [sample_challenge] sample_state) = ap_server sample_state"
    using id root
    by (simp_all add: api_run_def sample_challenge_def handle_register_challenge_def issue_challenge_def init slot
        str_member_def bool_member_def int_member_def string_eval challenge_domain_def root_or_localhost_def
        Let_def ttl_of_def store_register_challenge_def sample_entry_def)
qed

lemma sample_resolved:
  "resolve_registrant (at_call sample_api (\<lambda>_. 7) 1100) (sample_entry # sample_rest)
     (JObject [(''challenge_id'', JString ''rch_71000''), (''siwe_message'', JString ''by 0xab''),
       (''siwe_signature'', JString ''signed by 0xab'')]) =
   Inr (sample_entry\<lparr>ce_in_use := False\<rparr> # sample_rest, challenge_registrant sample_entry)"
  by (simp add: resolve_registrant_def register_by_challenge_def find_register_challenge_def consume_challenge_def
      str_member_def string_eval sample_entry_def)

lemma register_lease_json:
  assumes "transport_failure (server_root st) (nonempty (str_member (ae_json env) doc ''hop_token'')) who = None"
    and "fresh_token env (rt_name who) (rt_address who) 300 = Some tok"
  shows "rp_body (snd (register_lease env st doc who req res)) =
    Body_json (cj_print (ae_json env) (register_response env st who (derive_hostname (server_root st) (rt_name who) (rt_address who) 256) tok))"
  using assms by (simp add: register_lease_def Let_def)

lemma sample_token: "fresh_token (at_call sample_api r n) name addr ttl = Some ''tok''" "fresh_token sample_api name addr ttl = Some ''tok''"
  by (simp_all add: fresh_token_def portillia_issue_lease_token_def sample_bridge_def sample_keys_def str_member_def)

lemma sample_registered:
  obtains st' res' x where "handle_register (at_call sample_api (\<lambda>_. 7) 1100) (api_run sample_api [sample_challenge] sample_state)
      sample_register fresh_response = (st', res')" "rp_body res' = Body_json x"
    "ap_challenges st' = sample_entry\<lparr>ce_in_use := False\<rparr> # sample_rest"
proof -
  let ?run = "handle_register (at_call sample_api (\<lambda>_. 7) 1100) (api_run sample_api [sample_challenge] sample_state)
      sample_register fresh_response"
  have who: "transport_failure rh False (challenge_registrant sample_entry) = None" "rt_address (challenge_registrant sample_entry) \<noteq> []" for rh
    by (simp_all add: transport_failure_def challenge_registrant_def sample_entry_def none_if_empty_def)
  have hop: "\<not> nonempty (str_member tree_json (JObject [(''challenge_id'', JString ''rch_71000''),
      (''siwe_message'', JString ''by 0xab''), (''siwe_signature'', JString ''signed by 0xab'')]) ''hop_token'')"
    by (simp add: str_member_def string_eval)
  have "\<exists>x. rp_body (snd ?run) = Body_json x"
    "ap_challenges (fst ?run) = sample_entry\<lparr>ce_in_use := False\<rparr> # sample_rest"
    using who hop
    by (simp_all add: handle_register_def sample_register_def sample_challenge_run sample_resolved Let_def
        register_lease_json [OF _ sample_token(1)])
  then show thesis using that by (metis prod.collapse)
qed


lemma consume_not_found:
  "distinct (map ce_challenge_id (filter ce_in_use store)) \<Longrightarrow>
   find_register_challenge (consume_challenge cid store) cid = None"
proof (induction store)
  case (Cons e es)
  show ?case
  proof (cases "ce_in_use e \<and> ce_challenge_id e = cid")
    case True
    then have "find_register_challenge es cid = None"
      using Cons.prems by (auto simp: find_register_challenge_def find_None_iff image_iff)
    with True show ?thesis by (simp add: consume_challenge_def find_register_challenge_def)
  next
    case False
    then have "consume_challenge cid (e # es) = e # consume_challenge cid es"
      by (auto simp: consume_challenge_def split: option.splits)
    moreover have "find_register_challenge (consume_challenge cid es) cid = None"
      using Cons by (auto split: if_splits)
    ultimately show ?thesis using False by (auto simp: find_register_challenge_def)
  qed
qed (simp add: find_register_challenge_def consume_challenge_def)

text \<open>A challenge admits one registration: once a request that presents it is given a token, any
  later request that presents the same challenge id is answered "not found" and changes nothing,
  provided the ids of the open challenges differ and the two requests do not overlap.\<close>

theorem challenge_single_use:
  assumes ids: "distinct (map ce_challenge_id (filter ce_in_use (ap_challenges st)))"
    and doc: "request_doc (ae_json env) req = Some doc" "str_member (ae_json env) doc ''challenge_id'' = Some cid"
      "str_member (ae_json env) doc ''siwe_message'' = Some msg"
    and reg: "handle_register env st req res = (st', res')" "rp_body res' = Body_json x"
    and again: "request_doc (ae_json env2) req2 = Some doc2" "str_member (ae_json env2) doc2 ''challenge_id'' = Some cid"
      "str_member (ae_json env2) doc2 ''siwe_message'' = Some msg2"
  shows "handle_register env2 st' req2 res2 =
    (st', fail_with CWIST_HTTP_NOT_FOUND ''lease_not_found'' ''register challenge not found'' res2)"
proof -
  have eq: "resolve_registrant env (ap_challenges st) doc = register_by_challenge env (ap_challenges st) doc cid msg"
    using doc by (simp add: resolve_registrant_def)
  obtain store' who where who: "register_by_challenge env (ap_challenges st) doc cid msg = Inr (store', who)"
      "(st', res') = register_lease env (st\<lparr>ap_challenges := store'\<rparr>) doc who req res"
    using handle_register_cases [OF doc(1) reg(1)] reg(2) unfolding eq by (auto split: sum.splits prod.splits if_splits)
  have "store' = consume_challenge cid (ap_challenges st)"
    using who(1) by (rule challenge_resolved)
  moreover have "ap_challenges st' = store'"
    using register_lease_effect [OF who(2) [symmetric]] by simp
  ultimately have "find_register_challenge (ap_challenges st') cid = None"
    using consume_not_found [OF ids] by simp
  then show ?thesis
    using again
    by (auto simp: handle_register_def request_doc_def resolve_registrant_def register_by_challenge_def Let_def split: option.splits)
qed

theorem challenge_single_use_witness:
  "\<exists>st'. handle_register (at_call sample_api (\<lambda>_. 9) 1200) st' sample_register fresh_response =
    (st', fail_with CWIST_HTTP_NOT_FOUND ''lease_not_found'' ''register challenge not found'' fresh_response) \<and>
   ap_challenges st' = sample_entry\<lparr>ce_in_use := False\<rparr> # sample_rest"
proof -
  obtain st' res' x where reg: "handle_register (at_call sample_api (\<lambda>_. 7) 1100) (api_run sample_api [sample_challenge] sample_state)
      sample_register fresh_response = (st', res')" "rp_body res' = Body_json x"
    "ap_challenges st' = sample_entry\<lparr>ce_in_use := False\<rparr> # sample_rest"
    by (rule sample_registered)
  have "filter ce_in_use (sample_entry # sample_rest) = [sample_entry]"
    by (simp add: sample_rest_def sample_entry_def zero_challenge_def filter_replicate)
  then have ids: "distinct (map ce_challenge_id (filter ce_in_use (ap_challenges (api_run sample_api [sample_challenge] sample_state))))"
    by (simp add: sample_challenge_run)
  define doc where "doc = JObject [(''challenge_id'', JString ''rch_71000''), (''siwe_message'', JString ''by 0xab''),
     (''siwe_signature'', JString ''signed by 0xab'')]"
  have doc: "request_doc (ae_json (at_call sample_api r n)) sample_register = Some doc"
    "str_member (ae_json (at_call sample_api r n)) doc ''challenge_id'' = Some ''rch_71000''"
    "str_member (ae_json (at_call sample_api r n)) doc ''siwe_message'' = Some ''by 0xab''" for r n
    by (simp_all add: sample_register_def doc_def str_member_def string_eval)
  show ?thesis
    using challenge_single_use [OF ids doc reg(1,2) doc, of "\<lambda>_. 9" 1200 fresh_response] reg(3) by blast
qed

section \<open>Registering without one\<close>

text \<open>A body that only names an identity.\<close>

definition identity_body :: "('j, 't) cjson \<Rightarrow> cstring \<Rightarrow> cstring \<Rightarrow> 't" where
  "identity_body api name address = cj_print api (cj_object api
     [(''identity'', cj_object api [(''name'', cj_string api name), (''address'', cj_string api address)])])"

lemma identity_registered:
  assumes laws: "cjson_laws (ae_json env) view" and body: "rq_body req = Some (identity_body (ae_json env) name address)"
    and len: "length name < 256" "length address < 96" "address \<noteq> []"
    and tok: "fresh_token env name address 300 = Some token"
  shows "\<exists>x. handle_register env st req res =
    (st\<lparr>ap_server := server_register (derive_hostname (server_root st) name address 256) address 0
       (Some (extract_client_ip (sv_settings (ap_server st)) req)) None None (ae_now env)
       (server_register (derive_hostname (server_root st) name address 256) address 0 None None None (ae_now env) (ap_server st))\<rparr>,
     content_json (res\<lparr>rp_body := Body_json x\<rparr>))"
proof -
  let ?api = "ae_json env"
  obtain doc where doc: "cj_parse ?api (identity_body ?api name address) = Some doc"
    and "view doc = view (cj_object ?api
      [(''identity'', cj_object ?api [(''name'', cj_string ?api name), (''address'', cj_string ?api address)])])"
    unfolding identity_body_def by (rule cjson_print_parse [OF laws])
  then have v: "view doc = JObject [(''identity'', JObject [(''name'', JString name), (''address'', JString address)])]"
    by (simp add: cjson_view [OF laws])
  have "json_get (view doc) ''identity'' = Some (JObject [(''name'', JString name), (''address'', JString address)])"
    by (simp add: v)
  then obtain identity where id: "cj_get ?api doc ''identity'' = Some identity"
      "view identity = JObject [(''name'', JString name), (''address'', JString address)]"
    by (rule cjson_get_Some [OF laws])
  have members: "str_member ?api doc ''challenge_id'' = None" "str_member ?api doc ''hop_token'' = None"
    "str_member ?api doc ''reported_ip'' = None" "bool_member ?api doc k = False" "cj_get ?api doc ''bps_limit'' = None"
    "str_member ?api identity ''name'' = Some name" "str_member ?api identity ''address'' = Some address" for k
    by (simp_all add: str_member_view [OF laws] bool_member_view [OF laws] v id(2) string_eval cjson_get_None [OF laws])
  have "cj_valuestring ?api identity = None" "cj_is_object ?api identity"
    using cjson_read(3,7) [OF laws, of identity] id(2) by simp_all
  then have "register_by_identity ?api doc = \<lparr>rt_name = name, rt_address = address, rt_udp = False, rt_tcp = False,
      rt_route_hostname = None, rt_hostname_hash = None\<rparr>"
    using id(1) members len by (simp add: register_by_identity_def)
  then show ?thesis
    using body doc members len tok
    by (simp add: handle_register_def resolve_registrant_def register_lease_def transport_failure_def Let_def server_root_def)
      (rule exI, rule refl)
qed

text \<open>Registering needs no signature: a request that just names an identity, with any address, gets a
  token for that address, and its lease is entered under the name, although the documentation says
  that registration is authenticated by the SIWE signature of a challenge.\<close>

theorem register_without_challenge:
  assumes "cjson_laws (ae_json env) view" "rq_body req = Some (identity_body (ae_json env) name address)"
    and "length name < 256" "length address < 96" "address \<noteq> []"
    and "fresh_token env name address 300 = Some token"
  shows "\<exists>st' x. handle_register env st req res = (st', content_json (res\<lparr>rp_body := Body_json x\<rparr>)) \<and>
    ap_challenges st' = ap_challenges st \<and>
    lease_entered (derive_hostname (server_root st) name address 256) address (ae_now env) (ap_server st) (ap_server st')"
  using identity_registered [OF assms, of st res] by auto

theorem register_without_challenge_witness:
  "\<exists>st' x. handle_register sample_api sample_state
      (empty_request\<lparr>rq_body := Some (identity_body tree_json ''app'' ''0xvictim'')\<rparr>) fresh_response =
    (st', content_json (fresh_response\<lparr>rp_body := Body_json x\<rparr>)) \<and>
    lease_entered ''app.r.io'' ''0xvictim'' 1000 (ap_server sample_state) (ap_server st')"
proof -
  have "derive_hostname (server_root sample_state) ''app'' ''0xvictim'' 256 = ''app.r.io''"
    unfolding server_root_def sample_state_def by code_simp
  then show ?thesis
    using register_without_challenge [of sample_api "\<lambda>j. j"
        "empty_request\<lparr>rq_body := Some (identity_body tree_json ''app'' ''0xvictim'')\<rparr>" "''app''" "''0xvictim''"
        "''tok''" sample_state fresh_response]
    by (auto simp: tree_json_laws sample_token)
qed

lemma register_banned:
  assumes "sv_settings srv = Some s" "address \<in> set (sl_items (s_banned s))"
  shows "server_register hostname address bps ip rip hash now srv = srv"
proof -
  have "\<not> lease_registry_is_allowed (sv_settings srv) address"
    using assms by (auto simp: lease_registry_is_allowed_def list_ex_iff)
  then show ?thesis by (simp add: server_register_def lease_registry_register_def)
qed

text \<open>A banned identity is kept out of the registry but not told so: registering it leaves the server
  as it was, yet the answer is a success that carries a fresh access token for the address.\<close>

theorem banned_identity_gets_token:
  assumes "cjson_laws (ae_json env) view" "rq_body req = Some (identity_body (ae_json env) name address)"
    and "length name < 256" "length address < 96" "address \<noteq> []"
    and "fresh_token env name address 300 = Some token"
    and "sv_settings (ap_server st) = Some s" "address \<in> set (sl_items (s_banned s))"
  shows "\<exists>st' x. handle_register env st req res = (st', content_json (res\<lparr>rp_body := Body_json x\<rparr>)) \<and>
    ap_server st' = ap_server st"
  using identity_registered [OF assms(1-6), of st res] register_banned [OF assms(7,8)] by auto

definition banned_state :: api_state where
  "banned_state = sample_state\<lparr>ap_server := portillia_server_setup ''r.io'' 4017
     (Some ((default_settings ''p'')\<lparr>s_banned := \<lparr>sl_items = [''0xbad''], sl_capacity = 8\<rparr>\<rparr>))\<rparr>"

theorem banned_identity_gets_token_witness:
  "\<exists>st' x. handle_register sample_api banned_state
      (empty_request\<lparr>rq_body := Some (identity_body tree_json ''app'' ''0xbad'')\<rparr>) fresh_response =
    (st', content_json (fresh_response\<lparr>rp_body := Body_json x\<rparr>)) \<and> ap_server st' = ap_server banned_state"
  using banned_identity_gets_token [of sample_api "\<lambda>j. j"
      "empty_request\<lparr>rq_body := Some (identity_body tree_json ''app'' ''0xbad'')\<rparr>" "''app''" "''0xbad''" "''tok''" banned_state]
  by (auto simp: tree_json_laws sample_token banned_state_def portillia_server_setup_def)

section \<open>Reverse connections without a token\<close>

text \<open>Opening a reverse connection needs no token: a request without one that names the hostname of
  somebody's lease in its headers is upgraded, and its connection joins the ready queue of that lease,
  from where the next tenant connection is handed to it. The documentation says the endpoint is
  authenticated by the access token.\<close>

theorem connect_without_token:
  assumes get: "rq_method req = CWIST_HTTP_GET"
    and no_token: "rq_header req ''X-Portal-Access-Token'' = None" "rq_header req ''X-Portal-Reverse-Capability'' = None"
    and host: "rq_header req ''X-Portal-Hostname'' = Some name" "length name < 256" "normalize_hostname name = hostname" "hostname \<noteq> []"
    and lease: "lease_registry_lookup (ae_hostname_hash env) (sv_registry (ap_server st)) hostname (ae_now env) = Some rec"
      "lr_stream rec = Some s" "rs_count s < READY_LIMIT"
    and conn: "0 \<le> fd" "handle_connect env st req res = (st1, res1)"
  shows "rp_upgraded res1 \<and>
    (\<exists>st2. cwist_https_upgrade_handler env st1 fd (Some ssl) = Some (st2, True) \<and>
       ap_server st2 = set_stream (lr_addr rec) (stream_push \<lparr>ss_fd = fd, ss_ssl = Some ssl, ss_created_at = ae_now env\<rparr> s)
         (touch_record (lr_addr rec) (ae_now env) (ap_server st)))"
proof -
  have "connect_hostname env st req = hostname"
    using no_token host by (simp add: connect_hostname_def token_hostname_def connect_token_def)
  moreover have "length hostname < 256"
    using host(2,3) length_normalize_hostname [of name] by simp
  ultimately have st1: "ap_connect_hostname st1 = hostname" "ap_server st1 = ap_server st" "rp_upgraded res1"
    using conn(2) get host(4) by (auto simp: handle_connect_def Let_def split: if_splits)
  then show ?thesis
    using lease conn(1)
    by (simp add: cwist_https_upgrade_handler_def portillia_registry_offer_ssl_conn_def relay_stream_offer_def Let_def
        close_fds_def stream_push_def)
qed

definition intruder_request :: "json http_request" where
  "intruder_request = empty_request\<lparr>rq_method := CWIST_HTTP_GET,
     rq_header := (\<lambda>k. if k = ''X-Portal-Hostname'' then Some ''Demo.Relay.Example'' else None)\<rparr>"

theorem connect_without_token_witness:
  "\<exists>st1 st2. cwist_https_upgrade_handler sample_api st1 66 (Some 1) = Some (st2, True) \<and>
     map ss_fd (rs_ready (the (lr_stream (rg_records (sv_registry (ap_server st2)) ! 0)))) = [66]"
proof -
  let ?st = "sample_state\<lparr>ap_server := sample_server\<rparr>"
  obtain st1 res1 where conn: "handle_connect sample_api ?st intruder_request fresh_response = (st1, res1)"
    by fastforce
  let ?rec = "new_lease 0 1000 ''demo.relay.example'' ''0xB'' 0 None None None"
  have rec: "rg_records (sv_registry sample_server) = [?rec]" by (simp add: sample_server_simps)
  have lookup: "lease_registry_lookup (ae_hostname_hash sample_api) (sv_registry (ap_server ?st)) ''demo.relay.example'' (ae_now sample_api) = Some ?rec"
    by (simp add: lease_registry_lookup_def live_match_def rec new_lease_def)
  have host: "normalize_hostname ''Demo.Relay.Example'' = ''demo.relay.example''" by code_simp
  from connect_without_token [OF _ _ _ _ _ host _ lookup _ _ _ conn, of relay_stream_new 66 1]
  obtain st2 where "cwist_https_upgrade_handler sample_api st1 66 (Some 1) = Some (st2, True)"
    "ap_server st2 = set_stream 0 (stream_push \<lparr>ss_fd = 66, ss_ssl = Some 1, ss_created_at = 1000\<rparr> relay_stream_new)
       (touch_record 0 1000 sample_server)"
    by (auto simp: intruder_request_def empty_request_def new_lease_def relay_stream_new_def READY_LIMIT_def)
  moreover from this(2)
  have "map ss_fd (rs_ready (the (lr_stream (rg_records (sv_registry (ap_server st2)) ! 0)))) = [66]"
    by (simp add: set_stream_def touch_record_def rec new_lease_def stream_push_def relay_stream_new_def)
  ultimately show ?thesis by (intro exI conjI) assumption+
qed

end
