(* ===== verification/Admin_Api.thy ===== *)
theory Admin_Api
  imports Api_Server
begin

text \<open>
  The admin endpoints of \<^verbatim>\<open>src/portal/api_server.c\<close>: actions on a lease (ban, unban, approve, limit) and the
  switches of the settings, each written to the settings file at once. The state adds the content of
  that file. Listings and the session endpoints follow. The path of an action is taken apart with \<open>sscanf\<close> into buffers of 256, 256 and 64
  bytes without a width; a part that does not fit is written past its buffer, and the handler is \<open>None\<close>.
\<close>

record 't admin_state =
  ad_api :: api_state
  ad_file :: "'t option"

definition ad_settings :: "'t admin_state \<Rightarrow> portillia_settings option" where
  "ad_settings ad = sv_settings (ap_server (ad_api ad))"

definition with_settings :: "portillia_settings \<Rightarrow> 't admin_state \<Rightarrow> 't admin_state" where
  "with_settings s ad = ad\<lparr>ad_api := (ad_api ad)\<lparr>ap_server := (ap_server (ad_api ad))\<lparr>sv_settings := Some s\<rparr>\<rparr>\<rparr>"

text \<open>Changing the settings and saving them.\<close>

definition save_settings :: "('j, 't) cjson \<Rightarrow> portillia_settings \<Rightarrow> 't admin_state \<Rightarrow> 't admin_state" where
  "save_settings api s ad = (with_settings s ad)\<lparr>ad_file := Some (portillia_settings_save api s)\<rparr>"

section \<open>Actions on a lease\<close>

text \<open>\<^verbatim>\<open>%[^/]/\<close> into a buffer, and \<^verbatim>\<open>%s\<close>; the outer option is the write past the end, the inner one a mismatch.\<close>

definition scan_segment :: "cstring \<Rightarrow> (cstring \<times> cstring) option option" where
  "scan_segment s =
     (let seg = takeWhile (\<lambda>c. c \<noteq> CHR ''/'') s
      in if seg = [] then Some None
         else if length seg \<ge> 256 then None
         else case drop (length seg) s of
           [] \<Rightarrow> Some None
         | _ # rest \<Rightarrow> Some (Some (seg, rest)))"

definition scan_word :: "cstring \<Rightarrow> cstring option option" where
  "scan_word s =
     (let w = takeWhile (\<lambda>c. \<not> char_isspace c) (dropWhile char_isspace s)
      in if w = [] then Some None else if length w \<ge> 64 then None else Some (Some w))"

definition admin_path :: "cstring \<Rightarrow> (cstring \<times> cstring \<times> cstring) option option" where
  "admin_path path =
     (case scan_segment (drop (length ''/admin/leases/'') path) of
        None \<Rightarrow> None
      | Some None \<Rightarrow> Some None
      | Some (Some (name, rest)) \<Rightarrow>
          (case scan_segment rest of
             None \<Rightarrow> None
           | Some None \<Rightarrow> Some None
           | Some (Some (addr, rest)) \<Rightarrow>
               map_option (map_option (\<lambda>action. (name, addr, action))) (scan_word rest)))"

definition admin_lists ::
  "('j, 't) cjson \<Rightarrow> portillia_settings option \<Rightarrow> 't admin_state \<Rightarrow> 't http_response \<Rightarrow> ('t admin_state \<times> 't http_response) option"
  where
  "admin_lists api changed ad res =
     map_option (\<lambda>s. (save_settings api s ad, content_json (res\<lparr>rp_body := Body_ok\<rparr>))) changed"

definition handle_admin_action ::
  "('j, 't) cjson \<Rightarrow> 't admin_state \<Rightarrow> 't http_request \<Rightarrow> 't http_response \<Rightarrow> ('t admin_state \<times> 't http_response) option" where
  "handle_admin_action api ad req res =
     (case ad_settings ad of
        None \<Rightarrow> Some (ad, res\<lparr>rp_status := CWIST_HTTP_INTERNAL_ERROR\<rparr>)
      | Some s \<Rightarrow>
          (case admin_path (or_empty (rq_path req)) of
             None \<Rightarrow> None
           | Some None \<Rightarrow> Some (ad, content_json (res\<lparr>rp_status := CWIST_HTTP_BAD_REQUEST\<rparr>))
           | Some (Some (name, identity_key, action)) \<Rightarrow>
               if action = ''ban'' then admin_lists api (portillia_settings_ban_identity s identity_key) ad res
               else if action = ''unban'' then admin_lists api (Some (portillia_settings_unban_identity s identity_key)) ad res
               else if action = ''approve'' then admin_lists api (portillia_settings_approve_identity s identity_key) ad res
               else if action = ''bps'' then
                 (case request_doc api req of
                    None \<Rightarrow> Some (ad, content_json res)
                  | Some doc \<Rightarrow>
                      (case cj_get api doc ''bps'' of
                         None \<Rightarrow> Some (ad, content_json res)
                       | Some bps \<Rightarrow>
                           let st = ad_api ad; srv = ap_server st;
                               r = portillia_registry_update_bps (sv_registry srv) identity_key (int_of_double (cj_valuedouble api bps))
                           in Some (ad\<lparr>ad_api := st\<lparr>ap_server := srv\<lparr>sv_registry := r\<rparr>\<rparr>\<rparr>,
                                    content_json (res\<lparr>rp_body := Body_ok\<rparr>))))
               else Some (ad, content_json (res\<lparr>rp_status := CWIST_HTTP_NOT_FOUND\<rparr>))))"

section \<open>Switches\<close>

text \<open>What the POST branch of a switch does with the member it reads.\<close>

definition admin_switch ::
  "('j, 't) cjson \<Rightarrow> cstring \<Rightarrow> ('j \<Rightarrow> portillia_settings option) \<Rightarrow> 't admin_state \<Rightarrow> 't http_request \<Rightarrow> 't http_response \<Rightarrow>
   't admin_state \<times> 't http_response" where
  "admin_switch api key change ad req res =
     (case request_doc api req of
        None \<Rightarrow> (ad, content_json res)
      | Some doc \<Rightarrow>
          (case cj_get api doc key of
             None \<Rightarrow> (ad, content_json res)
           | Some v \<Rightarrow>
               (case change v of
                  None \<Rightarrow> (ad, content_json res)
                | Some s \<Rightarrow> (save_settings api s ad, content_json (res\<lparr>rp_body := Body_ok\<rparr>)))))"

definition admin_show ::
  "('j, 't) cjson \<Rightarrow> (cstring \<times> 'j) list \<Rightarrow> 't admin_state \<Rightarrow> 't http_response \<Rightarrow> 't admin_state \<times> 't http_response" where
  "admin_show api fs ad res = (ad, content_json (res\<lparr>rp_body := Body_json (cj_print api (cj_object api fs))\<rparr>))"

definition handle_admin_landing_page ::
  "('j, 't) cjson \<Rightarrow> 't admin_state \<Rightarrow> 't http_request \<Rightarrow> 't http_response \<Rightarrow> 't admin_state \<times> 't http_response" where
  "handle_admin_landing_page api ad req res =
     (case ad_settings ad of
        None \<Rightarrow> (ad, res\<lparr>rp_status := CWIST_HTTP_INTERNAL_ERROR\<rparr>)
      | Some s \<Rightarrow> admin_switch api ''enabled'' (\<lambda>v. Some (s\<lparr>s_landing_page_enabled := cj_is_true api v\<rparr>)) ad req res)"

definition handle_admin_udp_settings ::
  "('j, 't) cjson \<Rightarrow> 't admin_state \<Rightarrow> 't http_request \<Rightarrow> 't http_response \<Rightarrow> 't admin_state \<times> 't http_response" where
  "handle_admin_udp_settings api ad req res =
     (case ad_settings ad of
        None \<Rightarrow> (ad, res\<lparr>rp_status := CWIST_HTTP_INTERNAL_ERROR\<rparr>)
      | Some s \<Rightarrow>
          (case rq_method req of
             CWIST_HTTP_GET \<Rightarrow> admin_show api [(''enabled'', cj_bool api (s_udp_enabled s)), (''max_leases'', cj_number api 0)] ad res
           | CWIST_HTTP_POST \<Rightarrow> admin_switch api ''enabled'' (\<lambda>v. Some (s\<lparr>s_udp_enabled := cj_is_true api v\<rparr>)) ad req res
           | _ \<Rightarrow> (ad, content_json res)))"

definition handle_admin_tcp_port_settings ::
  "('j, 't) cjson \<Rightarrow> 't admin_state \<Rightarrow> 't http_request \<Rightarrow> 't http_response \<Rightarrow> 't admin_state \<times> 't http_response" where
  "handle_admin_tcp_port_settings api ad req res =
     (case ad_settings ad of
        None \<Rightarrow> (ad, res\<lparr>rp_status := CWIST_HTTP_INTERNAL_ERROR\<rparr>)
      | Some s \<Rightarrow>
          (case rq_method req of
             CWIST_HTTP_GET \<Rightarrow> admin_show api [(''enabled'', cj_bool api (s_tcp_port_enabled s)), (''max_leases'', cj_number api 0)] ad res
           | CWIST_HTTP_POST \<Rightarrow> admin_switch api ''enabled'' (\<lambda>v. Some (s\<lparr>s_tcp_port_enabled := cj_is_true api v\<rparr>)) ad req res
           | _ \<Rightarrow> (ad, content_json res)))"

definition handle_admin_approval_mode ::
  "('j, 't) cjson \<Rightarrow> 't admin_state \<Rightarrow> 't http_request \<Rightarrow> 't http_response \<Rightarrow> 't admin_state \<times> 't http_response" where
  "handle_admin_approval_mode api ad req res =
     (case ad_settings ad of
        None \<Rightarrow> (ad, res\<lparr>rp_status := CWIST_HTTP_INTERNAL_ERROR\<rparr>)
      | Some s \<Rightarrow>
          (case rq_method req of
             CWIST_HTTP_GET \<Rightarrow> admin_show api [(''approval_mode'', cj_string api (s_approval_mode s))] ad res
           | CWIST_HTTP_POST \<Rightarrow>
               admin_switch api ''mode'' (\<lambda>v. map_option (\<lambda>mode. s\<lparr>s_approval_mode := mode\<rparr>) (cj_valuestring api v)) ad req res
           | _ \<Rightarrow> (ad, content_json res)))"

section \<open>Listings and sessions\<close>

definition lease_item :: "('j, 't) cjson \<Rightarrow> time_t \<Rightarrow> lease_record \<Rightarrow> 'j" where
  "lease_item api now rec = cj_object api
     [(''hostname'', cj_string api (or_empty (lr_hostname rec))), (''identity_key'', cj_string api (lr_identity_key rec)),
      (''client_ip'', cj_string api (or_empty (lr_client_ip rec))), (''reported_ip'', cj_string api (or_empty (lr_reported_ip rec))),
      (''hostname_hash'', cj_string api (or_empty (lr_hostname_hash rec))),
      (''expires_in'', cj_number api (double_of_int (lr_expires_at rec - now))),
      (''ready'', cj_number api (double_of_int (case lr_stream rec of None \<Rightarrow> 0 | Some s \<Rightarrow> int (rs_count s)))),
      (''bps_limit'', cj_number api (double_of_int (lr_bps_limit rec)))]"

definition portillia_registry_to_json :: "('j, 't) cjson \<Rightarrow> time_t \<Rightarrow> lease_registry \<Rightarrow> 't" where
  "portillia_registry_to_json api now r = cj_print api (cj_array api (map (lease_item api now) (rg_records r)))"

definition handle_admin_leases ::
  "('j, 't) cjson \<Rightarrow> time_t \<Rightarrow> 't admin_state \<Rightarrow> 't http_request \<Rightarrow> 't http_response \<Rightarrow> 't http_response" where
  "handle_admin_leases api now ad req res =
     content_json (res\<lparr>rp_body := Body_json (portillia_registry_to_json api now (sv_registry (ap_server (ad_api ad))))\<rparr>)"

text \<open>\<open>conns\<close> and \<open>bps\<close> are the figures of the proxy. A listing that does not parse is left out.\<close>

definition handle_admin_snapshot ::
  "('j, 't) cjson \<Rightarrow> time_t \<Rightarrow> int \<Rightarrow> real \<Rightarrow> 't admin_state \<Rightarrow> 't http_request \<Rightarrow> 't http_response \<Rightarrow> 't http_response" where
  "handle_admin_snapshot api now conns bps ad req res =
     (let set_or = (\<lambda>f d. case ad_settings ad of Some s \<Rightarrow> f s | None \<Rightarrow> d);
          limits = (\<lambda>b. cj_object api [(''enabled'', cj_bool api b), (''max_leases'', cj_number api 0)]);
          leases = cj_parse api (portillia_registry_to_json api now (sv_registry (ap_server (ad_api ad))))
      in content_json (res\<lparr>rp_body := Body_json (cj_print api (cj_object api
           ([(''approval_mode'', cj_string api (case ad_settings ad of Some s \<Rightarrow> s_approval_mode s | None \<Rightarrow> ''auto'')),
             (''landing_page_enabled'', cj_bool api (set_or s_landing_page_enabled True)),
             (''active_connections'', cj_number api (double_of_int conns)), (''tcp_bps'', cj_number api bps)] @
            (case leases of Some l \<Rightarrow> [(''leases'', l)] | None \<Rightarrow> []) @
            [(''udp'', limits (set_or s_udp_enabled True)), (''tcp_port'', limits (set_or s_tcp_port_enabled True))])))\<rparr>))"

definition handle_login :: "'t http_request \<Rightarrow> 't http_response \<Rightarrow> 't http_response" where
  "handle_login req res =
     header_add ''Set-Cookie'' ''portal_admin=session-token; Path=/admin; HttpOnly; Secure; SameSite=Strict''
       (content_json (res\<lparr>rp_body := Body_text ''{\"ok\": true, \"token\": \"session-token\"}''\<rparr>))"

definition handle_logout :: "'t http_request \<Rightarrow> 't http_response \<Rightarrow> 't http_response" where
  "handle_logout req res =
     header_add ''Set-Cookie'' ''portal_admin=; Path=/admin; HttpOnly; Secure; SameSite=Strict; Max-Age=-1''
       (content_json (res\<lparr>rp_body := Body_ok\<rparr>))"

definition handle_domain ::
  "('j, 't) cjson \<Rightarrow> cstring \<Rightarrow> cstring \<Rightarrow> 't http_request \<Rightarrow> 't http_response \<Rightarrow> 't http_response" where
  "handle_domain api sdk_version release_version req res =
     content_json (res\<lparr>rp_body := Body_json (cj_print api (cj_object api
       [(''data'', cj_object api [(''protocol_version'', cj_string api sdk_version),
          (''release_version'', cj_string api release_version)]), (''ok'', cj_bool api True)]))\<rparr>)"

definition handle_healthz :: "'t http_request \<Rightarrow> 't http_response \<Rightarrow> 't http_response" where
  "handle_healthz req res =
     content_json (res\<lparr>rp_body := Body_text ''{\"ok\":true,\"status\":\"ok\",\"data\":{\"status\":\"ok\"}}''\<rparr>)"

text \<open>Neither the action handler nor the switches look at the headers of a request, so the cookie that
  \<open>handle_login\<close> hands out to everybody is not asked for either.\<close>

lemma header_irrelevant:
  "rq_path (req\<lparr>rq_header := h\<rparr>) = rq_path req" "rq_method (req\<lparr>rq_header := h\<rparr>) = rq_method req"
  "request_doc api (req\<lparr>rq_header := h\<rparr>) = request_doc api req"
  by (simp_all add: request_doc_def)

lemma admin_ignores_session:
  "handle_admin_action api ad (req\<lparr>rq_header := h\<rparr>) res = handle_admin_action api ad req res"
  "handle_admin_landing_page api ad (req\<lparr>rq_header := h\<rparr>) res = handle_admin_landing_page api ad req res"
  "handle_admin_udp_settings api ad (req\<lparr>rq_header := h\<rparr>) res = handle_admin_udp_settings api ad req res"
  "handle_admin_tcp_port_settings api ad (req\<lparr>rq_header := h\<rparr>) res = handle_admin_tcp_port_settings api ad req res"
  "handle_admin_approval_mode api ad (req\<lparr>rq_header := h\<rparr>) res = handle_admin_approval_mode api ad req res"
  unfolding handle_admin_action_def handle_admin_landing_page_def handle_admin_udp_settings_def
    handle_admin_tcp_port_settings_def handle_admin_approval_mode_def admin_switch_def header_irrelevant
  by (rule refl)+

section \<open>A ban takes effect\<close>

lemma takeWhile_all: "\<forall>c \<in> set s. P c \<Longrightarrow> takeWhile P (s @ x # r) = (if P x then s @ takeWhile P (x # r) else s)"
  by (induction s) auto

definition segment :: "cstring \<Rightarrow> bool" where
  "segment s \<longleftrightarrow> s \<noteq> [] \<and> length s < 256 \<and> CHR ''/'' \<notin> set s"

lemma scan_segment_ok: "segment s \<Longrightarrow> scan_segment (s @ CHR ''/'' # rest) = Some (Some (s, rest))"
proof -
  assume s: "segment s"
  then have "takeWhile (\<lambda>c. c \<noteq> CHR ''/'') (s @ CHR ''/'' # rest) = s"
    by (subst takeWhile_all) (auto simp: segment_def)
  then show ?thesis using s by (simp add: scan_segment_def segment_def)
qed

lemma admin_path_ok:
  assumes "segment name" "segment addr" "scan_word action = Some (Some action)"
  shows "admin_path (''/admin/leases/'' @ name @ ''/'' @ addr @ ''/'' @ action) = Some (Some (name, addr, action))"
  using assms scan_segment_ok [of name "addr @ ''/'' @ action"] scan_segment_ok [of addr action]
  by (simp add: admin_path_def)

text \<open>A ban by the admin takes effect and survives a restart: after the ban action on an identity, no
  registration of that identity changes the server, whatever name it asks for, and loading the
  settings file that was written gives settings that ban the identity as well.\<close>

theorem admin_ban_effective:
  assumes laws: "cjson_laws api view" and path: "rq_path req = Some (''/admin/leases/'' @ name @ ''/'' @ addr @ ''/ban'')"
    and seg: "segment name" "segment addr" and set: "ad_settings ad = Some s" "wf_settings s" "\<bar>s_default_bps_limit s\<bar> \<le> 2 ^ 53"
  shows "\<exists>ad' file. handle_admin_action api ad req res = Some (ad', content_json (res\<lparr>rp_body := Body_ok\<rparr>)) \<and>
    (\<forall>hostname bps ip rip hash now. server_register hostname addr bps ip rip hash now (ap_server (ad_api ad')) = ap_server (ad_api ad')) \<and>
    ad_file ad' = Some file \<and>
    (\<exists>s'. portillia_settings_load api p (Some file) = Some s' \<and> addr \<in> set (sl_items (s_banned s')))"
proof -
  obtain s1 where s1: "portillia_settings_ban_identity s addr = Some s1" "set (sl_items (s_banned s1)) = insert addr (set (sl_items (s_banned s)))"
    using bans.add_set [OF set(2), of addr] by blast
  have bps: "s_default_bps_limit s1 = s_default_bps_limit s"
    using s1(1) by (auto simp: portillia_settings_ban_identity_def)
  have word: "scan_word ''ban'' = Some (Some ''ban'')" by code_simp
  let ?ad' = "save_settings api s1 ad"
  have act: "handle_admin_action api ad req res = Some (?ad', content_json (res\<lparr>rp_body := Body_ok\<rparr>))"
    using admin_path_ok [OF seg word] path set(1) s1(1) by (simp add: handle_admin_action_def admin_lists_def)
  have "sv_settings (ap_server (ad_api ?ad')) = Some s1" "ad_file ?ad' = Some (portillia_settings_save api s1)"
    by (simp_all add: save_settings_def with_settings_def)
  moreover have "addr \<in> set (sl_items (s_banned s1))" using s1(2) by simp
  moreover obtain s' where "portillia_settings_load api p (Some (portillia_settings_save api s1)) = Some s'" "same_settings s1 s'"
    using settings_saved_loads [OF laws, of s1 p] bps set(3) by auto
  ultimately show ?thesis
    using act register_banned by (fastforce simp: same_settings_def)
qed

theorem admin_ban_effective_witness:
  "\<exists>ad' file. handle_admin_action tree_json \<lparr>ad_api = banned_state, ad_file = None\<rparr>
      (empty_request\<lparr>rq_path := Some ''/admin/leases/app/0xEvil/ban''\<rparr>) fresh_response =
        Some (ad', content_json (fresh_response\<lparr>rp_body := Body_ok\<rparr>)) \<and> ad_file ad' = Some file \<and>
    (\<exists>s'. portillia_settings_load tree_json ''p'' (Some file) = Some s' \<and> ''0xEvil'' \<in> set (sl_items (s_banned s')))"
proof -
  let ?s = "(default_settings ''p'')\<lparr>s_banned := \<lparr>sl_items = [''0xbad''], sl_capacity = 8\<rparr>\<rparr>"
  have "ad_settings (\<lparr>ad_api = banned_state, ad_file = None\<rparr> :: json admin_state) = Some ?s"
    by (simp add: ad_settings_def banned_state_def portillia_server_setup_def)
  moreover have "wf_settings ?s" "\<bar>s_default_bps_limit ?s\<bar> \<le> 2 ^ 53"
    by (simp_all add: wf_settings_def default_settings_def wf_list_def initial_list_def)
  moreover have "segment ''app''" "segment ''0xEvil''" by (simp_all add: segment_def)
  ultimately show ?thesis
    using admin_ban_effective [OF tree_json_laws, of
        "empty_request\<lparr>rq_path := Some ''/admin/leases/app/0xEvil/ban''\<rparr>" "''app''" "''0xEvil''"
        "\<lparr>ad_api = banned_state, ad_file = None\<rparr>" ?s fresh_response "''p''"]
    by auto
qed

text \<open>A path whose first part has 256 characters or more is written past its buffer, before anything is
  checked of the request.\<close>

lemma admin_action_overflow:
  assumes "ad_settings ad = Some s" "rq_path req = Some (''/admin/leases/'' @ seg)" "256 \<le> length seg" "CHR ''/'' \<notin> set seg"
  shows "handle_admin_action api ad req res = None"
proof -
  have t: "takeWhile (\<lambda>c. c \<noteq> CHR ''/'') seg = seg" using assms(4) by (simp add: takeWhile_eq_all_conv) blast
  have "seg \<noteq> []" using assms(3) by auto
  then have "scan_segment seg = None" using assms(3) unfolding scan_segment_def t Let_def by simp
  moreover have "drop (length ''/admin/leases/'') (''/admin/leases/'' @ seg) = seg" by simp
  ultimately have "admin_path (''/admin/leases/'' @ seg) = None" unfolding admin_path_def by (simp only: option.case)
  then show ?thesis unfolding handle_admin_action_def assms(1,2) or_empty_simps by (simp only: option.case)
qed

end
