(* ===== verification/Discovery.thy ===== *)
theory Discovery
  imports Relay_Set Http Calendar Policy
begin

text \<open>
  Relays telling each other about relays: \<^verbatim>\<open>src/portal/discovery/discovery.c\<close> (polling a peer, announcing
  this relay, the periodic task), \<open>handle_discovery\<close> of \<^verbatim>\<open>src/portal/api_server.c\<close> (what a poll is answered)
  and \<open>handle_discovery_announce\<close> of \<^verbatim>\<open>src/portal/api_server_relay.c\<close> (what an announcement does).

  Parameters are cJSON, the hash tables of the relay set, the calls of the Rust bridge (\<open>DiscoveryPollJSON\<close>,
  \<open>VerifyDescriptorJSON\<close>, \<open>SignDescriptorJSON\<close>), the version strings and the clock. The private key
  of this relay and its loading from the environment are part of the identity, an input of the task.
\<close>

record discovery_config =
  dc_relay_url :: "cstring option"
  dc_advertise_url :: "cstring option"
  dc_bootstrap_urls :: "cstring option"
  dc_wireguard_port :: int
  dc_max_routing :: int

section \<open>Descriptors as JSON\<close>

definition str_or_empty :: "('j, 't) cjson \<Rightarrow> 'j \<Rightarrow> cstring \<Rightarrow> cstring option" where
  "str_or_empty api item k = Some (or_empty (str_member api item k))"

definition discovery_relays_array :: "('j, 't) cjson \<Rightarrow> 'j \<Rightarrow> 'j option" where
  "discovery_relays_array api doc =
     (let arr = (\<lambda>j. case cj_get api j ''relays'' of
                       Some a \<Rightarrow> if cj_is_array api a then Some a else None | None \<Rightarrow> None)
      in case cj_get api doc ''data'' of
           Some data \<Rightarrow>
             (if cj_is_object api data then (case arr data of Some a \<Rightarrow> Some a | None \<Rightarrow> arr doc) else arr doc)
         | None \<Rightarrow> arr doc)"

definition item_cidrs :: "('j, 't) cjson \<Rightarrow> 'j \<Rightarrow> cstring option list option \<times> nat" where
  "item_cidrs api item =
     (case cj_get api item ''overlay_cidrs'' of
        None \<Rightarrow> (None, 0)
      | Some a \<Rightarrow>
          let js = (if cj_is_array api a then cj_items api a else [])
          in if js = [] then (None, 0)
             else (Some (map (\<lambda>c. Some (if cj_is_string api c then or_empty (cj_valuestring api c) else [])) js), length js))"

text \<open>One item of the polled array; an item without an address is skipped.\<close>

definition item_descriptor :: "('j, 't) cjson \<Rightarrow> time_t \<Rightarrow> 'j \<Rightarrow> portillia_relay_descriptor option" where
  "item_descriptor api now item =
     (case (case cj_get api item ''api_https_addr'' of None \<Rightarrow> None | Some a \<Rightarrow> cj_valuestring api a) of
        None \<Rightarrow> None
      | Some url \<Rightarrow>
          let number = (\<lambda>k. case num_member api item k of None \<Rightarrow> 0 | Some r \<Rightarrow> r);
              version_val = (case int_member api item ''version_val'' of
                               Some v \<Rightarrow> v
                             | None \<Rightarrow> (case cj_get api item ''version_val'' of
                                          Some _ \<Rightarrow> 0
                                        | None \<Rightarrow> (case int_member api item ''version'' of Some v \<Rightarrow> v | None \<Rightarrow> 0)))
          in Some \<lparr>d_address = str_or_empty api item ''address'', d_version = str_or_empty api item ''version'',
               d_sequence = word_of_int (int_of_double (number ''sequence'')), d_version_val = word_of_int version_val,
               d_issued_at = (case str_member api item ''issued_at'' of Some s \<Rightarrow> parse_rfc3339_utc (Some s) | None \<Rightarrow> now),
               d_expires_at = (case str_member api item ''expires_at'' of Some s \<Rightarrow> parse_rfc3339_utc (Some s) | None \<Rightarrow> now + 60),
               d_api_https_addr = Some url, d_wireguard_public_key = str_or_empty api item ''wireguard_public_key'',
               d_wireguard_port = (case int_member api item ''wireguard_port'' of Some p \<Rightarrow> p | None \<Rightarrow> 0),
               d_overlay_ipv4 = str_or_empty api item ''overlay_ipv4'',
               d_overlay_cidrs = fst (item_cidrs api item), d_overlay_cidrs_count = snd (item_cidrs api item),
               d_supports_overlay = bool_member api item ''supports_overlay'',
               d_supports_overlay_peer = bool_member api item ''supports_overlay_peer'',
               d_supports_udp = bool_member api item ''supports_udp'', d_supports_tcp = bool_member api item ''supports_tcp'',
               d_active_connections = int_of_double (number ''active_connections''), d_tcp_bps = number ''tcp_bps'',
               d_load = number ''load'', d_load_score = number ''load_score'',
               d_last_updated = int_of_double (number ''last_updated''), d_signature = str_or_empty api item ''signature''\<rparr>)"

text \<open>The members that an announcement and the answer to a poll have in common.\<close>

definition descriptor_members ::
  "('j, 't) cjson \<Rightarrow> cstring \<Rightarrow> cstring \<Rightarrow> cstring \<Rightarrow> portillia_relay_descriptor \<Rightarrow> (cstring \<times> 'j) list" where
  "descriptor_members api default_version issued_at expires_at d =
     [(''address'', cj_string api (or_empty (d_address d))),
      (''version'', cj_string api (case d_version d of Some v \<Rightarrow> v | None \<Rightarrow> default_version)),
      (''issued_at'', cj_string api issued_at), (''expires_at'', cj_string api expires_at),
      (''api_https_addr'', cj_string api (or_empty (d_api_https_addr d))),
      (''wireguard_public_key'', cj_string api (or_empty (d_wireguard_public_key d))),
      (''wireguard_port'', cj_number api (double_of_int (d_wireguard_port d))),
      (''supports_overlay'', cj_bool api (d_supports_overlay d)), (''supports_udp'', cj_bool api (d_supports_udp d)),
      (''supports_tcp'', cj_bool api (d_supports_tcp d)),
      (''active_connections'', cj_number api (double_of_int (d_active_connections d))),
      (''tcp_bps'', cj_number api (d_tcp_bps d)), (''signature'', cj_string api (or_empty (d_signature d)))]"

section \<open>Answering a poll\<close>

definition handle_discovery ::
  "('j, 't) cjson \<Rightarrow> 'r relay_table \<Rightarrow> cstring \<Rightarrow> cstring \<Rightarrow> ('r, 'k) portillia_relay_set option \<Rightarrow> time_t \<Rightarrow>
   't http_response \<Rightarrow> 't http_response" where
  "handle_discovery api tb discovery_version release_version rset now res =
     (let descs = (case rset of None \<Rightarrow> [] | Some rs \<Rightarrow> portillia_relay_set_descriptors tb rs None now);
          item = (\<lambda>d. cj_object api (descriptor_members api release_version
                    (format_time_rfc3339 (if d_issued_at d \<noteq> 0 then d_issued_at d else now))
                    (format_time_rfc3339 (if d_expires_at d \<noteq> 0 then d_expires_at d else now + 300)) d));
          data = cj_object api [(''protocol_version'', cj_string api discovery_version),
                   (''release_version'', cj_string api release_version),
                   (''generated_at'', cj_string api (format_time_rfc3339 now)),
                   (''relays'', cj_array api (map item descs))]
      in content_json (res\<lparr>rp_body := Body_json (cj_print api (cj_object api [(''ok'', cj_bool api True), (''data'', data)]))\<rparr>))"

section \<open>Polling\<close>

text \<open>What a poll makes of the parsed answer.\<close>

definition poll_response :: "('j, 't) cjson \<Rightarrow> cstring \<Rightarrow> time_t \<Rightarrow> 'j \<Rightarrow> 'j \<Rightarrow> portillia_discovery_response" where
  "poll_response api discovery_version now doc relays =
     \<lparr>dr_protocol_version = (case str_member api doc ''protocol_version'' of Some v \<Rightarrow> v | None \<Rightarrow> discovery_version),
      dr_generated_at = (case str_member api doc ''generated_at'' of Some s \<Rightarrow> parse_rfc3339_utc (Some s) | None \<Rightarrow> now),
      dr_relays = List.map_filter (item_descriptor api now) (cj_items api relays)\<rparr>"

definition portillia_discovery_poll ::
  "('j, 't) cjson \<Rightarrow> 'r relay_table \<Rightarrow> 'k key_table \<Rightarrow> cstring \<Rightarrow> (cstring \<Rightarrow> 't option) \<Rightarrow> time_t \<Rightarrow> cstring \<Rightarrow>
   ('r, 'k) portillia_relay_set \<Rightarrow> ('r, 'k) portillia_relay_set" where
  "portillia_discovery_poll api tb kb discovery_version poll now url rset =
     (case poll (snprintf_s 1024 (url @ ''/discovery'')) of
        None \<Rightarrow> rset
      | Some text \<Rightarrow>
          (case cj_parse api text of
             None \<Rightarrow> rset
           | Some doc \<Rightarrow>
               (case discovery_relays_array api doc of
                  None \<Rightarrow> rset
                | Some relays \<Rightarrow>
                    fst (portillia_relay_set_apply_discovery_response tb kb discovery_version rset (Some url)
                      (poll_response api discovery_version now doc relays) 0 now))))"

section \<open>Announcing\<close>

definition build_announce_payload :: "('j, 't) cjson \<Rightarrow> cstring \<Rightarrow> portillia_relay_descriptor \<Rightarrow> 't" where
  "build_announce_payload api discovery_version desc =
     cj_print api (cj_object api [(''protocol_version'', cj_string api discovery_version),
       (''descriptor'', cj_object api (descriptor_members api discovery_version (format_rfc3339_utc (d_issued_at desc))
          (format_rfc3339_utc (d_expires_at desc)) desc))])"

definition trimmed_char :: "char \<Rightarrow> bool" where
  "trimmed_char c \<longleftrightarrow> c = CHR '' '' \<or> c = CHR 0x09 \<or> c = CHR 0x0A \<or> c = CHR 0x0D"

definition trim_inplace :: "cstring \<Rightarrow> cstring" where
  "trim_inplace s = rev (dropWhile trimmed_char (rev (dropWhile trimmed_char s)))"

text \<open>The peers an announcement goes to.\<close>

definition announce_targets :: "discovery_config \<Rightarrow> cstring list" where
  "announce_targets cfg =
     (case dc_bootstrap_urls cfg of
        None \<Rightarrow> []
      | Some urls \<Rightarrow> filter (\<lambda>u. u \<noteq> [] \<and> Some u \<noteq> dc_relay_url cfg) (map trim_inplace (strtok_commas urls)))"

text \<open>One thread per peer polls it and then sends it the payload. The relay set is only touched under
  its lock, so the threads amount to polling the peers in some order, \<open>order\<close>; the second component
  collects the requests sent. Without a relay set the answers are dropped.\<close>

definition portillia_discovery_announce ::
  "('j, 't) cjson \<Rightarrow> 'r relay_table \<Rightarrow> 'k key_table \<Rightarrow> cstring \<Rightarrow> (cstring \<Rightarrow> 't option) \<Rightarrow> time_t \<Rightarrow>
   (cstring list \<Rightarrow> cstring list) \<Rightarrow> discovery_config \<Rightarrow> portillia_relay_descriptor \<Rightarrow> ('r, 'k) portillia_relay_set option \<Rightarrow>
   ('r, 'k) portillia_relay_set option \<times> (cstring \<times> 't) list" where
  "portillia_discovery_announce api tb kb discovery_version poll now order cfg desc rset =
     (let peers = order (announce_targets cfg)
      in (foldl (\<lambda>rs url. map_option (portillia_discovery_poll api tb kb discovery_version poll now url) rs) rset peers,
          map (\<lambda>url. (snprintf_s 1024 (url @ ''/discovery/announce''), build_announce_payload api discovery_version desc)) peers))"

section \<open>The periodic task\<close>

text \<open>The descriptor of this relay before it is signed. \<open>wg_pub\<close> is the key found in the identity file,
  cut to 127 bytes and empty if there is none; \<open>switches\<close> are \<open>udp_enabled\<close>
  and \<open>tcp_port_enabled\<close> of the settings, if there are any.\<close>

definition self_descriptor ::
  "cstring \<Rightarrow> cstring \<Rightarrow> cstring \<Rightarrow> int \<Rightarrow> cstring \<Rightarrow> (bool \<times> bool) option \<Rightarrow> int \<Rightarrow> real \<Rightarrow> cstring \<Rightarrow> int \<Rightarrow> time_t \<Rightarrow> portillia_relay_descriptor"
  where
  "self_descriptor addr discovery_version sig version_val wg_pub switches conns bps advertise_url wireguard_port now =
     \<lparr>d_address = Some addr, d_version = Some discovery_version, d_sequence = word_of_int now,
      d_version_val = word_of_int version_val, d_issued_at = now, d_expires_at = now + 300,
      d_api_https_addr = Some advertise_url, d_wireguard_public_key = Some wg_pub,
      d_wireguard_port = (if wg_pub \<noteq> [] \<and> wireguard_port > 0 then wireguard_port else 0),
      d_overlay_ipv4 = Some [], d_overlay_cidrs = None, d_overlay_cidrs_count = 0,
      d_supports_overlay = (wg_pub \<noteq> []), d_supports_overlay_peer = (wg_pub \<noteq> []), 
      d_supports_udp = (case switches of Some (udp, _) \<Rightarrow> udp | None \<Rightarrow> False),
      d_supports_tcp = (case switches of Some (_, tcp) \<Rightarrow> tcp | None \<Rightarrow> True),
      d_active_connections = conns, d_tcp_bps = bps, d_load = 0, d_load_score = 0, d_last_updated = now,
      d_signature = Some sig\<rparr>"

text \<open>The JSON that is signed: times as decimal strings.\<close>

definition sign_request :: "('j, 't) cjson \<Rightarrow> portillia_relay_descriptor \<Rightarrow> 't" where
  "sign_request api d = cj_print api (cj_object api
     [(''address'', cj_string api (or_empty (d_address d))), (''version'', cj_string api (or_empty (d_version d))),
      (''issued_at'', cj_string api (snprintf_s 32 (dec_int (d_issued_at d)))),
      (''expires_at'', cj_string api (snprintf_s 32 (dec_int (d_expires_at d)))),
      (''api_https_addr'', cj_string api (or_empty (d_api_https_addr d))), (''supports_udp'', cj_bool api (d_supports_udp d)),
      (''supports_tcp'', cj_bool api (d_supports_tcp d)),
      (''active_connections'', cj_number api (double_of_int (d_active_connections d))), (''tcp_bps'', cj_number api (d_tcp_bps d))])"

definition descriptor_signature :: "('j, 't) cjson \<Rightarrow> ('t \<Rightarrow> 't option) \<Rightarrow> portillia_relay_descriptor \<Rightarrow> cstring" where
  "descriptor_signature api sign d =
     (case sign (sign_request api d) of
        None \<Rightarrow> []
      | Some text \<Rightarrow> (case cj_parse api text of None \<Rightarrow> [] | Some j \<Rightarrow> or_empty (str_member api j ''signature'')))"

text \<open>What the overlay stack is told: every occupied slot. \<open>overlay_cidrs\<close> has \<open>overlay_cidrs_count\<close> entries.\<close>

definition overlay_sync_item :: "('j, 't) cjson \<Rightarrow> portillia_relay_descriptor \<Rightarrow> 'j" where
  "overlay_sync_item api d =
     cj_object api [(''Descriptor'', cj_object api
       [(''address'', cj_string api (or_empty (d_address d))), (''version'', cj_string api (or_empty (d_version d))),
        (''sequence'', cj_number api (double_of_int (uint (d_sequence d)))),
        (''version_val'', cj_number api (double_of_int (uint (d_version_val d)))),
        (''api_https_addr'', cj_string api (or_empty (d_api_https_addr d))),
        (''wireguard_public_key'', cj_string api (or_empty (d_wireguard_public_key d))),
        (''wireguard_port'', cj_number api (double_of_int (d_wireguard_port d))),
        (''overlay_ipv4'', cj_string api (or_empty (d_overlay_ipv4 d))),
        (''overlay_cidrs'', cj_array api (map (\<lambda>c. cj_string api (or_empty c))
           (take (d_overlay_cidrs_count d) (case d_overlay_cidrs d of Some cs \<Rightarrow> cs | None \<Rightarrow> [])))),
        (''supports_overlay'', cj_bool api (d_supports_overlay d)),
        (''supports_overlay_peer'', cj_bool api (d_supports_overlay_peer d)),
        (''supports_udp'', cj_bool api (d_supports_udp d)), (''supports_tcp'', cj_bool api (d_supports_tcp d)),
        (''active_connections'', cj_number api (double_of_int (d_active_connections d))),
        (''tcp_bps'', cj_number api (d_tcp_bps d)), (''load'', cj_number api (d_load d)),
        (''load_score'', cj_number api (d_load_score d)),
        (''last_updated'', cj_number api (double_of_int (d_last_updated d))),
        (''signature'', cj_string api (or_empty (d_signature d)))])]"

definition overlay_sync :: "('j, 't) cjson \<Rightarrow> 'r relay_table \<Rightarrow> ('r, 'k) portillia_relay_set \<Rightarrow> 't" where
  "overlay_sync api tb rset = cj_print api (cj_array api (map (overlay_sync_item api \<circ> descriptor) (relay_states tb rset)))"

text \<open>One round: sign, enter the own descriptor, announce it to the peers, tell the overlay stack. \<open>self\<close>
  makes the descriptor out of a signature and the advertised URL. The result is the set, the requests
  sent and the text for the overlay stack.\<close>

definition discovery_task ::
  "('j, 't) cjson \<Rightarrow> 'r relay_table \<Rightarrow> 'k key_table \<Rightarrow> cstring \<Rightarrow> (cstring \<Rightarrow> 't option) \<Rightarrow> ('t \<Rightarrow> 't option) \<Rightarrow> time_t \<Rightarrow>
   (cstring list \<Rightarrow> cstring list) \<Rightarrow> discovery_config \<Rightarrow> (cstring \<Rightarrow> cstring \<Rightarrow> portillia_relay_descriptor) \<Rightarrow>
   ('r, 'k) portillia_relay_set option \<Rightarrow> ('r, 'k) portillia_relay_set option \<times> (cstring \<times> 't) list \<times> 't option" where
  "discovery_task api tb kb discovery_version poll sign now order cfg self rset =
     (case (dc_relay_url cfg, dc_advertise_url cfg) of
        (Some _, Some advertise_url) \<Rightarrow>
          let desc = self (descriptor_signature api sign (self [] advertise_url)) advertise_url;
              rset1 = map_option (\<lambda>rs. fst (portillia_relay_set_insert_announced tb kb rs desc 0 now)) rset;
              (rset2, sent) = portillia_discovery_announce api tb kb discovery_version poll now order cfg desc rset1
          in (rset2, sent, map_option (overlay_sync api tb) rset2)
      | _ \<Rightarrow> (rset, [], None))"

section \<open>Receiving an announcement\<close>

text \<open>The descriptor that is stored: its times are the clock of the receiver.\<close>

definition announced_descriptor :: "('j, 't) cjson \<Rightarrow> time_t \<Rightarrow> 'j \<Rightarrow> cstring \<Rightarrow> portillia_relay_descriptor" where
  "announced_descriptor api now desc url =
     portillia_relay_descriptor_init
       \<lparr>d_address := str_or_empty api desc ''address'', d_version := str_or_empty api desc ''version'',
        d_api_https_addr := Some url, d_wireguard_public_key := str_or_empty api desc ''wireguard_public_key'',
        d_signature := str_or_empty api desc ''signature'', d_issued_at := now, d_expires_at := now + 300,
        d_wireguard_port := (case int_member api desc ''wireguard_port'' of Some p \<Rightarrow> p | None \<Rightarrow> 0),
        d_supports_overlay := bool_member api desc ''supports_overlay'', d_supports_udp := bool_member api desc ''supports_udp'',
        d_supports_tcp := bool_member api desc ''supports_tcp'',
        d_active_connections := (case num_member api desc ''active_connections'' of Some r \<Rightarrow> int_of_double r | None \<Rightarrow> 0),
        d_tcp_bps := (case num_member api desc ''tcp_bps'' of Some r \<Rightarrow> r | None \<Rightarrow> 0)\<rparr>"

text \<open>The answers are printed into a buffer of 256 bytes.\<close>

definition accepted_text :: "cstring \<Rightarrow> bool \<Rightarrow> cstring" where
  "accepted_text discovery_version accepted =
     snprintf_s 256 (''{\"ok\": true, \"data\": {\"protocol_version\": \"'' @ discovery_version @ ''\", \"accepted\": '' @
       (if accepted then ''true'' else ''false'') @ ''}}'')"

definition mismatch_text :: "cstring \<Rightarrow> cstring \<Rightarrow> cstring" where
  "mismatch_text discovery_version pv =
     snprintf_s 256 (''{\"ok\": false, \"error\": {\"code\": \"invalid_request\", \"message\": \"announce protocol mismatch: relay='' @
       [CHR 0x5C, CHR 0x22] @ discovery_version @ [CHR 0x5C, CHR 0x22] @ '' client='' @
       [CHR 0x5C, CHR 0x22] @ pv @ [CHR 0x5C, CHR 0x22] @ ''\"}}'')"

definition handle_discovery_announce ::
  "('j, 't) cjson \<Rightarrow> 'r relay_table \<Rightarrow> 'k key_table \<Rightarrow> cstring \<Rightarrow> ('t \<Rightarrow> 't option) \<Rightarrow> time_t \<Rightarrow> 't http_request \<Rightarrow>
   ('r, 'k) portillia_relay_set option \<Rightarrow> 't http_response \<Rightarrow> ('r, 'k) portillia_relay_set option \<times> 't http_response" where
  "handle_discovery_announce api tb kb discovery_version verify now req rset res =
     (let answer = (\<lambda>rset text. (rset, content_json (res\<lparr>rp_body := Body_text text\<rparr>)));
          refused = answer rset (accepted_text discovery_version False)
      in case (case rq_body req of None \<Rightarrow> None | Some data \<Rightarrow> cj_parse api data) of
           None \<Rightarrow> refused
         | Some doc \<Rightarrow>
             let pv = str_member api doc ''protocol_version''
             in if nonempty pv \<and> or_empty pv \<noteq> discovery_version
                then answer rset (mismatch_text discovery_version (or_empty pv))
                else case (cj_get api doc ''descriptor'', rset) of
                  (Some desc, Some rs) \<Rightarrow>
                    (case (case cj_get api desc ''api_https_addr'' of None \<Rightarrow> None | Some a \<Rightarrow> cj_valuestring api a) of
                       None \<Rightarrow> refused
                     | Some url \<Rightarrow>
                         if verify (cj_print api desc) = None then refused
                         else answer
                           (Some (fst (portillia_relay_set_insert_announced tb kb rs (announced_descriptor api now desc url) 0 now)))
                           (accepted_text discovery_version True))
                | _ \<Rightarrow> refused)"

section \<open>What a poll brings across\<close>

text \<open>A descriptor after the trip over the wire: the fields that \<open>descriptor_members\<close> names survive, an absent
  string becomes an empty one, the rest is reset.\<close>

definition wire_descriptor :: "cstring \<Rightarrow> portillia_relay_descriptor \<Rightarrow> portillia_relay_descriptor" where
  "wire_descriptor release_version d = portillia_relay_descriptor_init
     \<lparr>d_address := Some (or_empty (d_address d)),
      d_version := Some (case d_version d of Some v \<Rightarrow> v | None \<Rightarrow> release_version),
      d_issued_at := d_issued_at d, d_expires_at := d_expires_at d,
      d_api_https_addr := Some (or_empty (d_api_https_addr d)),
      d_wireguard_public_key := Some (or_empty (d_wireguard_public_key d)), d_wireguard_port := d_wireguard_port d,
      d_overlay_ipv4 := Some [], d_supports_overlay := d_supports_overlay d, d_supports_udp := d_supports_udp d,
      d_supports_tcp := d_supports_tcp d, d_active_connections := d_active_connections d, d_tcp_bps := d_tcp_bps d,
      d_signature := Some (or_empty (d_signature d))\<rparr>"

definition wire_ok :: "portillia_relay_descriptor \<Rightarrow> bool" where
  "wire_ok d \<longleftrightarrow> 0 < d_issued_at d \<and> d_issued_at d < 253402300800 \<and> 0 < d_expires_at d \<and> d_expires_at d < 253402300800 \<and>
     \<bar>d_wireguard_port d\<bar> \<le> 2 ^ 31 - 1 \<and> \<bar>d_active_connections d\<bar> \<le> 2 ^ 53"

lemmas key_eval = str_tolower_def char_tolower_def char_code_def

lemma wire_members:
  assumes laws: "cjson_laws api view"
    and item: "view item = view (cj_object api (descriptor_members api rel iss ex d))"
  shows "json_get (view item) ''address'' = Some (JString (or_empty (d_address d)))"
    "json_get (view item) ''version'' = Some (JString (case d_version d of Some v \<Rightarrow> v | None \<Rightarrow> rel))"
    "json_get (view item) ''issued_at'' = Some (JString iss)" "json_get (view item) ''expires_at'' = Some (JString ex)"
    "json_get (view item) ''api_https_addr'' = Some (JString (or_empty (d_api_https_addr d)))"
    "json_get (view item) ''wireguard_public_key'' = Some (JString (or_empty (d_wireguard_public_key d)))"
    "json_get (view item) ''wireguard_port'' = Some (JNumber (double_of_int (d_wireguard_port d)))"
    "json_get (view item) ''supports_overlay'' = Some (JBool (d_supports_overlay d))"
    "json_get (view item) ''supports_udp'' = Some (JBool (d_supports_udp d))"
    "json_get (view item) ''supports_tcp'' = Some (JBool (d_supports_tcp d))"
    "json_get (view item) ''active_connections'' = Some (JNumber (double_of_int (d_active_connections d)))"
    "json_get (view item) ''tcp_bps'' = Some (JNumber (d_tcp_bps d))"
    "json_get (view item) ''signature'' = Some (JString (or_empty (d_signature d)))"
    "json_get (view item) ''sequence'' = None" "json_get (view item) ''version_val'' = None"
    "json_get (view item) ''overlay_ipv4'' = None" "json_get (view item) ''overlay_cidrs'' = None"
    "json_get (view item) ''supports_overlay_peer'' = None" "json_get (view item) ''load'' = None"
    "json_get (view item) ''load_score'' = None" "json_get (view item) ''last_updated'' = None"
  unfolding item by (simp_all add: descriptor_members_def cjson_view [OF laws] key_eval)

lemma item_descriptor_wire:
  assumes laws: "cjson_laws api view" and ok: "wire_ok d"
    and item: "view item = view (cj_object api (descriptor_members api rel (format_rfc3339_utc (d_issued_at d))
      (format_rfc3339_utc (d_expires_at d)) d))"
  shows "item_descriptor api now item = Some (wire_descriptor rel d)"
proof -
  note m = wire_members [OF laws item] and read = str_member_view [OF laws] num_member_view [OF laws] bool_member_view [OF laws]
  obtain a where "cj_get api item ''api_https_addr'' = Some a" "view a = JString (or_empty (d_api_https_addr d))"
    using cjson_get_Some [OF laws m(5)] .
  then have addr: "(case cj_get api item ''api_https_addr'' of None \<Rightarrow> None | Some a \<Rightarrow> cj_valuestring api a) =
      Some (or_empty (d_api_https_addr d))"
    by (simp add: cjson_read(3) [OF laws])
  have "\<bar>real_of_int (d_wireguard_port d)\<bar> \<le> 2147483647"
    using ok of_int_le_iff [of "\<bar>d_wireguard_port d\<bar>" 2147483647] by (simp add: wire_ok_def)
  then have port: "int_member api item ''wireguard_port'' = Some (d_wireguard_port d)"
    using int_member_view [OF laws m(7)] ok by (simp add: wire_ok_def double_of_int_exact)
  have version: "int_member api item ''version'' = None"
    by (rule member_cases [OF laws, of item "''version''"]) (auto simp: int_member_def m(2) cjson_read [OF laws])
  note absent = cjson_get_None [OF laws m(14)] cjson_get_None [OF laws m(15)] cjson_get_None [OF laws m(17)]
  show ?thesis
    unfolding item_descriptor_def addr
    using ok rfc3339_roundtrip [of "d_issued_at d"] rfc3339_roundtrip [of "d_expires_at d"]
    by (simp add: m read port version absent str_or_empty_def item_cidrs_def int_member_def [of _ _ "''version_val''"]
        wire_descriptor_def portillia_relay_descriptor_init_def wire_ok_def int_of_double_def [of 0])
qed

lemma map_filter_view:
  assumes "map view xs = map (view \<circ> f) ys" "\<And>x y. view x = view (f y) \<Longrightarrow> y \<in> set ys \<Longrightarrow> g x = Some (h y)"
  shows "List.map_filter g xs = map h ys"
  using assms
proof (induction ys arbitrary: xs)
  case (Cons y ys)
  then obtain x xs' where "xs = x # xs'" "view x = view (f y)" "map view xs' = map (view \<circ> f) ys" by auto
  then show ?case using Cons.IH [of xs'] Cons.prems(2) by (simp add: List.map_filter_simps)
qed (simp add: List.map_filter_simps)


definition sample_relays :: "((cstring \<times> portillia_relay_state) list, (cstring \<times> portillia_key_index_entry) list) portillia_relay_set" where
  "sample_relays = relay_run list_table list_table ''9'' [Announced (sample_desc ''u'' ''0xab'' 1000) 1100 0]
     (portillia_relay_set_create list_table list_table [])"

lemma sample_relays_eval:
  "sample_relays = \<lparr>rs_relays = [(''u'', zero_relay_state\<lparr>descriptor := sample_desc ''u'' ''0xab'' 1000, last_seen_at := 1100\<rparr>)],
     rs_key_index = [(''0xab'', \<lparr>k_issued_at = 1000, k_tombstone_until = 87400\<rparr>)]\<rparr>"
  by (simp add: sample_relays_def relay_run_def portillia_relay_set_create_def portillia_relay_set_insert_announced_def Let_def
      at_time_def validate_descriptor_freshness_def sample_desc_def portillia_relay_descriptor_init_def
      PORTILLIA_ANNOUNCE_CLOCK_SKEW_TOLERANCE_SEC_def PORTILLIA_ANNOUNCE_MAX_VALIDITY_SEC_def
      address_key_def key_eval store_descriptor_def list_table_def merge_descriptor_def
      portillia_relay_descriptor_copy_def portillia_relay_descriptor_cleanup_def dup_into_def dup_array_def)

lemma sample_listed:
  "portillia_relay_set_descriptors list_table sample_relays None 1200 = [sample_desc ''u'' ''0xab'' 1000]"
  by (simp add: sample_relays_eval portillia_relay_set_descriptors_def relay_states_def list_table_def Let_def
      sample_desc_def portillia_relay_descriptor_init_def add_descriptor_def zero_relay_state_def
      portillia_relay_descriptor_copy_def portillia_relay_descriptor_cleanup_def dup_into_def dup_array_def)


section \<open>Announcements and the rollback defence\<close>

lemma announced_store:
  assumes tb: "table_laws tb valid" "valid (rs_relays rs)" and now: "now \<noteq> 0"
    and old: "\<And>e. tt_get kb (rs_key_index rs) (address_key d) = Some e \<Longrightarrow> k_issued_at e \<le> now"
    and d: "d_issued_at d = now" "d_expires_at d = now + 300" "d_api_https_addr d = Some url"
  shows "\<exists>s. tt_get tb (rs_relays (fst (portillia_relay_set_insert_announced tb kb rs d 0 now))) url = Some s \<and>
    descriptor s = portillia_relay_descriptor_copy portillia_relay_descriptor_init
      (portillia_relay_descriptor_copy portillia_relay_descriptor_init d)"
proof -
  have fresh: "validate_descriptor_freshness d now"
    using d now by (simp add: validate_descriptor_freshness_def PORTILLIA_ANNOUNCE_CLOCK_SKEW_TOLERANCE_SEC_def
        PORTILLIA_ANNOUNCE_MAX_VALIDITY_SEC_def)
  have no_rollback: "\<not> (case tt_get kb (rs_key_index rs) (address_key d) of None \<Rightarrow> False
      | Some prev \<Rightarrow> now \<le> k_tombstone_until prev \<and> k_issued_at prev - d_issued_at d > 0)"
    using old d(1) by (auto split: option.split)
  have put: "tt_get tb (tt_put tb (rs_relays rs) url s) url = Some s" for s
    using tb by (simp add: table_laws_def put_law_def)
  show ?thesis
    using fresh no_rollback put d(3)
    by (auto simp: portillia_relay_set_insert_announced_def at_time_def Let_def store_descriptor_def merge_descriptor_def)
qed

text \<open>A verified announcement is entered with the receiver's clock as its issue time and five minutes to
  live, whatever times the signed descriptor carries: an announcement recorded long ago and sent again
  is accepted and replaces the newer descriptor of that relay, unless its identity is indexed with a
  time ahead of the clock.\<close>

theorem replayed_announcement_accepted:
  assumes tb: "table_laws tb valid" "valid (rs_relays rs)" and now: "now \<noteq> 0"
    and request: "rq_body req = Some body" "cj_parse api body = Some doc"
    and version: "str_member api doc ''protocol_version'' = Some discovery_version"
    and desc: "cj_get api doc ''descriptor'' = Some desc" "cj_get api desc ''api_https_addr'' = Some a"
      "cj_valuestring api a = Some url"
    and signed: "verify (cj_print api desc) \<noteq> None"
    and index: "\<And>e. tt_get kb (rs_key_index rs) (str_tolower (or_empty (str_member api desc ''address''))) = Some e \<Longrightarrow>
      k_issued_at e \<le> now"
  shows "\<exists>rs' s. handle_discovery_announce api tb kb discovery_version verify now req (Some rs) res =
      (Some rs', content_json (res\<lparr>rp_body := Body_text (accepted_text discovery_version True)\<rparr>)) \<and>
    tt_get tb (rs_relays rs') url = Some s \<and> descriptor s = announced_descriptor api now desc url \<and>
    d_issued_at (descriptor s) = now \<and> d_expires_at (descriptor s) = now + 300"
proof -
  let ?d = "announced_descriptor api now desc url"
  have d: "d_issued_at ?d = now" "d_expires_at ?d = now + 300" "d_api_https_addr ?d = Some url"
    "address_key ?d = str_tolower (or_empty (str_member api desc ''address''))" "wf_descriptor ?d"
    by (simp_all add: announced_descriptor_def address_key_def str_or_empty_def wf_descriptor_def
        portillia_relay_descriptor_init_def wf_array_def)
  obtain s where "tt_get tb (rs_relays (fst (portillia_relay_set_insert_announced tb kb rs ?d 0 now))) url = Some s"
    "descriptor s = ?d"
    using announced_store [OF tb now, of kb ?d url] d index descriptor_copy_eq by auto
  then show ?thesis
    using request version desc signed d(1,2) by (auto simp: handle_discovery_announce_def Let_def)
qed

definition recorded_announcement :: json where
  "recorded_announcement = JObject [(''protocol_version'', JString ''9''), (''descriptor'', JObject
     [(''address'', JString ''0xab''), (''issued_at'', JString ''1970-01-01T00:00:01Z''),
      (''expires_at'', JString ''1970-01-01T00:05:01Z''), (''api_https_addr'', JString ''u'')])]"

theorem replayed_announcement_accepted_witness:
  "\<exists>rs' s. fst (handle_discovery_announce tree_json list_table list_table ''9'' Some 2000
      (empty_request\<lparr>rq_body := Some recorded_announcement\<rparr>) (Some sample_relays) fresh_response) = Some rs' \<and>
    tt_get list_table (rs_relays rs') ''u'' = Some s \<and> d_issued_at (descriptor s) = 2000"
proof -
  have parts: "cj_parse tree_json recorded_announcement = Some recorded_announcement"
    "str_member tree_json recorded_announcement ''protocol_version'' = Some ''9''"
    "\<exists>desc a. cj_get tree_json recorded_announcement ''descriptor'' = Some desc \<and>
      cj_get tree_json desc ''api_https_addr'' = Some a \<and> cj_valuestring tree_json a = Some ''u'' \<and>
      or_empty (str_member tree_json desc ''address'') = ''0xab''"
    by (simp_all add: tree_json_def recorded_announcement_def str_member_def key_eval)
  then obtain desc a where d: "cj_get tree_json recorded_announcement ''descriptor'' = Some desc"
    "cj_get tree_json desc ''api_https_addr'' = Some a" "cj_valuestring tree_json a = Some ''u''"
    "or_empty (str_member tree_json desc ''address'') = ''0xab''" by blast
  have table: "list_table_valid (rs_relays sample_relays)" "tt_get list_table (rs_key_index sample_relays) (str_tolower ''0xab'') =
      Some \<lparr>k_issued_at = 1000, k_tombstone_until = 87400\<rparr>"
    by (simp_all add: sample_relays_eval list_table_valid_def list_table_def key_eval)
  from replayed_announcement_accepted [OF list_table_laws table(1), of 2000
      "empty_request\<lparr>rq_body := Some recorded_announcement\<rparr>" _ tree_json, OF _ _ parts(1,2) d(1,2,3), of Some list_table fresh_response]
  show ?thesis using d(4) table(2) by auto
qed

end
