(* ===== verification/Identity.thy ===== *)
theory Identity
  imports Http Policy
begin

text \<open>
  Identities: \<^verbatim>\<open>src/portal/identity.c\<close> (the identity file of a relay, loaded or created) and \<^verbatim>\<open>src/utils/crypto.c\<close> (addresses
  derived from keys).

  Parameters are cJSON, \<open>GenerateRelayIdentityJSON\<close> of the Rust bridge, Keccak-256, SHA-256 and the calls of
  libsecp256k1. The file system is a map from paths to contents; what becomes of a write is an argument.
\<close>

section \<open>Addresses\<close>

definition hex_digit :: "nat \<Rightarrow> char" where
  "hex_digit n = ''0123456789abcdef'' ! n"

text \<open>\<^verbatim>\<open>%02x\<close>\<close>

definition hex2 :: "byte \<Rightarrow> cstring" where
  "hex2 b = [hex_digit (unat b div 16), hex_digit (unat b mod 16)]"

definition hex_string :: "byte list \<Rightarrow> cstring" where
  "hex_string bs = concat (map hex2 bs)"

definition checksum_nibble :: "byte list \<Rightarrow> nat \<Rightarrow> nat" where
  "checksum_nibble hash i =
     (let b = unat (hash ! (i div 2)) in if i mod 2 = 0 then drop_bit 4 b else b AND 0x0f)"

definition checksum_char :: "char \<Rightarrow> nat \<Rightarrow> char" where
  "checksum_char c nibble =
     (if char_code CHR ''0'' \<le> char_code c \<and> char_code c \<le> char_code CHR ''9'' then c
      else if nibble > 7 then char_of (char_code c - (char_code CHR ''a'' - char_code CHR ''A''))
      else c)"

definition cstring_to_bytes :: "cstring \<Rightarrow> byte list" where
  "cstring_to_bytes s = map (\<lambda>c. word_of_nat (char_code c)) s"

text \<open>The last 20 bytes of the hash in hexadecimal, the letters in the case that the hash of those digits tells.\<close>

definition portillia_crypto_pubkey_to_address :: "(byte list \<Rightarrow> byte list) \<Rightarrow> byte list \<Rightarrow> cstring" where
  "portillia_crypto_pubkey_to_address keccak256 pubkey =
     (let lower = hex_string (take 20 (drop 12 (keccak256 (drop 1 pubkey))));
          checksum_hash = keccak256 (cstring_to_bytes lower)
      in ''0x'' @ map (\<lambda>i. checksum_char (lower ! i) (checksum_nibble checksum_hash i)) [0..<40])"

definition portillia_crypto_derive_overlay_ipv4 :: "(byte list \<Rightarrow> byte list) \<Rightarrow> cstring \<Rightarrow> cstring" where
  "portillia_crypto_derive_overlay_ipv4 sha256 pubkey_b64 =
     (let hash = sha256 (cstring_to_bytes pubkey_b64)
      in render_quad (100, 64 + (unat (hash ! 0) AND 0x3f), unat (hash ! 1), 1 + unat (hash ! 2) mod 254))"

text \<open>libsecp256k1: whether a private key is valid, its uncompressed public key, the parsing of a compact
  signature with its recovery id and the recovery of a public key.\<close>

record 's secp256k1 =
  sp_seckey_verify :: "byte list \<Rightarrow> bool"
  sp_pubkey_create :: "byte list \<Rightarrow> byte list option"
  sp_parse_compact :: "byte list \<Rightarrow> int \<Rightarrow> 's option"
  sp_recover :: "'s \<Rightarrow> byte list \<Rightarrow> byte list option"

text \<open>Keys are drawn until one is valid. \<open>draws\<close> lists what \<open>RAND_bytes\<close> gives; \<open>None\<close> is a list that ends too
  soon, \<open>Some None\<close> the failure of the function.\<close>

fun portillia_crypto_generate_identity ::
  "'s secp256k1 \<Rightarrow> (byte list \<Rightarrow> byte list) \<Rightarrow> byte list option list \<Rightarrow> (cstring \<times> cstring) option option" where
  "portillia_crypto_generate_identity sp keccak256 [] = None"
| "portillia_crypto_generate_identity sp keccak256 (None # draws) = Some None"
| "portillia_crypto_generate_identity sp keccak256 (Some seckey # draws) =
     (if \<not> sp_seckey_verify sp seckey then portillia_crypto_generate_identity sp keccak256 draws
      else Some (map_option (\<lambda>pub. (hex_string seckey, portillia_crypto_pubkey_to_address keccak256 pub))
             (sp_pubkey_create sp seckey)))"

definition portillia_crypto_recover_secp256k1_compact ::
  "'s secp256k1 \<Rightarrow> byte list \<Rightarrow> byte list \<Rightarrow> int \<Rightarrow> byte list option" where
  "portillia_crypto_recover_secp256k1_compact sp hash signature recid =
     (case sp_parse_compact sp signature recid of None \<Rightarrow> None | Some sig \<Rightarrow> sp_recover sp sig hash)"

section \<open>The identity file\<close>

record portillia_relay_identity =
  ri_name :: "cstring option"
  ri_address :: "cstring option"
  ri_public_key :: "cstring option"
  ri_private_key :: "cstring option"
  ri_token_secret :: "cstring option"
  ri_wireguard_public_key :: "cstring option"
  ri_wireguard_private_key :: "cstring option"

type_synonym 't file_system = "cstring \<rightharpoonup> 't"

definition join_path :: "cstring \<Rightarrow> cstring \<Rightarrow> cstring" where
  "join_path dir file = dir @ (if dir = [] \<or> last dir \<noteq> CHR ''/'' then ''/'' else []) @ file"

datatype write_outcome = Not_opened | Not_written | Written

text \<open>Written beside the file and renamed over it.\<close>

definition write_file_atomic ::
  "write_outcome \<Rightarrow> cstring \<Rightarrow> 't \<Rightarrow> 't file_system \<Rightarrow> 't file_system" where
  "write_file_atomic outcome path data fs =
     (let tmp = snprintf_s 4096 (path @ ''.tmp'')
      in case outcome of
           Not_opened \<Rightarrow> fs
         | Not_written \<Rightarrow> fs(tmp := None)
         | Written \<Rightarrow> fs(tmp := None, path \<mapsto> data))"

definition json_string_field :: "('j, 't) cjson \<Rightarrow> 'j \<Rightarrow> cstring \<Rightarrow> cstring option" where
  "json_string_field api doc key =
     (case str_member api doc key of None \<Rightarrow> None | Some s \<Rightarrow> if s \<noteq> [] then Some s else None)"

definition identity_from_json :: "('j, 't) cjson \<Rightarrow> 'j \<Rightarrow> portillia_relay_identity" where
  "identity_from_json api doc =
     \<lparr>ri_name = json_string_field api doc ''name'', ri_address = json_string_field api doc ''address'',
      ri_public_key = json_string_field api doc ''public_key'', ri_private_key = json_string_field api doc ''private_key'',
      ri_token_secret = json_string_field api doc ''token_secret'',
      ri_wireguard_public_key = json_string_field api doc ''wireguard_public_key'',
      ri_wireguard_private_key = json_string_field api doc ''wireguard_private_key''\<rparr>"

definition portillia_relay_identity_is_complete :: "portillia_relay_identity option \<Rightarrow> bool" where
  "portillia_relay_identity_is_complete identity \<longleftrightarrow>
     (case identity of
        None \<Rightarrow> False
      | Some i \<Rightarrow> nonempty (ri_name i) \<and> nonempty (ri_address i) \<and> nonempty (ri_public_key i) \<and> nonempty (ri_private_key i) \<and>
          nonempty (ri_token_secret i) \<and> nonempty (ri_wireguard_public_key i) \<and> nonempty (ri_wireguard_private_key i))"

definition generate_identity ::
  "('j, 't) cjson \<Rightarrow> (cstring \<Rightarrow> 't option) \<Rightarrow> cstring \<Rightarrow> portillia_relay_identity option" where
  "generate_identity api bridge name =
     (case bridge name of
        None \<Rightarrow> None
      | Some text \<Rightarrow> (case cj_parse api text of None \<Rightarrow> None | Some doc \<Rightarrow> Some (identity_from_json api doc)))"

definition identity_members :: "('j, 't) cjson \<Rightarrow> portillia_relay_identity \<Rightarrow> (cstring \<times> 'j) list" where
  "identity_members api i =
     [(''name'', cj_string api (or_empty (ri_name i))), (''address'', cj_string api (or_empty (ri_address i))),
      (''public_key'', cj_string api (or_empty (ri_public_key i))), (''private_key'', cj_string api (or_empty (ri_private_key i))),
      (''token_secret'', cj_string api (or_empty (ri_token_secret i))),
      (''wireguard_public_key'', cj_string api (or_empty (ri_wireguard_public_key i))),
      (''wireguard_private_key'', cj_string api (or_empty (ri_wireguard_private_key i)))]"

definition stored_identity ::
  "('j, 't) cjson \<Rightarrow> cstring option \<Rightarrow> 't option \<Rightarrow> portillia_relay_identity option" where
  "stored_identity api name data =
     (case data of
        None \<Rightarrow> None
      | Some text \<Rightarrow>
          (case cj_parse api text of
             None \<Rightarrow> None
           | Some doc \<Rightarrow>
               let i = identity_from_json api doc
               in Some (if ri_name i = None \<and> nonempty name then i\<lparr>ri_name := name\<rparr> else i)))"

definition portillia_relay_identity_load_or_create ::
  "('j, 't) cjson \<Rightarrow> (cstring \<Rightarrow> 't option) \<Rightarrow> write_outcome \<Rightarrow> cstring option \<Rightarrow> cstring option \<Rightarrow> 't file_system \<Rightarrow>
   portillia_relay_identity option \<times> 't file_system" where
  "portillia_relay_identity_load_or_create api bridge outcome identity_path name fs =
     (if \<not> nonempty identity_path then (None, fs)
      else let path = join_path (or_empty identity_path) ''identity.json'';
               stored = stored_identity api name (fs path)
           in if portillia_relay_identity_is_complete stored then (stored, fs)
              else case generate_identity api bridge (if nonempty name then or_empty name else ''relay'') of
                None \<Rightarrow> (None, fs)
              | Some i \<Rightarrow> (Some i, write_file_atomic outcome path (cj_print api (cj_object api (identity_members api i))) fs))"

section \<open>Properties of addresses\<close>

lemma hex_digit_code:
  "n < 16 \<Longrightarrow> 48 \<le> char_code (hex_digit n) \<and> char_code (hex_digit n) \<le> 57 \<or>
    97 \<le> char_code (hex_digit n) \<and> char_code (hex_digit n) \<le> 102"
proof -
  let ?P = "\<lambda>c. 48 \<le> char_code c \<and> char_code c \<le> 57 \<or> 97 \<le> char_code c \<and> char_code c \<le> 102"
  assume "n < 16"
  then have "hex_digit n \<in> set ''0123456789abcdef''" unfolding hex_digit_def by (intro nth_mem) simp
  moreover have "list_all ?P ''0123456789abcdef''" by (simp add: char_code_def)
  ultimately show ?thesis unfolding list_all_iff by blast
qed

lemma lower_upper: "97 \<le> char_code c \<Longrightarrow> char_code c \<le> 102 \<Longrightarrow> char_tolower (char_of (char_code c - 32)) = c"
proof -
  assume "97 \<le> char_code c" "char_code c \<le> 102"
  then obtain m where m: "char_code c = m + 32" "65 \<le> m" "m \<le> 90" by (intro that [of "char_code c - 32"]) auto
  then have "char_tolower (char_of (char_code c - 32)) = char_of (char_code c)"
    by (simp add: char_tolower_def char_code_char_of)
  then show ?thesis by (simp add: char_code_def)
qed

lemma lower_hex_digit: "n < 16 \<Longrightarrow> char_tolower (checksum_char (hex_digit n) k) = hex_digit n"
proof -
  have "char_code CHR ''0'' = 48" "char_code CHR ''9'' = 57" "char_code CHR ''a'' - char_code CHR ''A'' = 32"
    by (simp_all add: char_code_def)
  then show "n < 16 \<Longrightarrow> ?thesis"
    using hex_digit_code [of n] lower_upper [of "hex_digit n"]
    by (auto simp: checksum_char_def) (auto simp: char_tolower_def)
qed

lemma length_hex_string [simp]: "length (hex_string bs) = 2 * length bs"
  by (induction bs) (simp_all add: hex_string_def hex2_def)

lemma hex_string_nth:
  "i < 2 * length bs \<Longrightarrow> \<exists>n < 16. hex_string bs ! i = hex_digit n"
proof (induction bs arbitrary: i)
  case (Cons b bs)
  have n: "unat b div 16 < 16" by (rule less_mult_imp_div_less) (use unsigned_less [of b] in simp)
  have split: "hex_string (b # bs) = hex_digit (unat b div 16) # hex_digit (unat b mod 16) # hex_string bs"
    by (simp add: hex_string_def hex2_def)
  show ?case
  proof (cases "i < 2")
    case True
    then consider "i = 0" | "i = 1" by linarith
    then show ?thesis
      by cases (use n in \<open>auto simp: split intro: exI [of _ "unat b mod 16"]\<close>)
  next
    case False
    then obtain j where "i = Suc (Suc j)" by (metis add_2_eq_Suc le_Suc_ex not_less)
    then show ?thesis using Cons.IH [of j] Cons.prems by (simp add: split)
  qed
qed simp

text \<open>A derived address is well-formed: \<^verbatim>\<open>0x\<close> and forty characters, which are the hexadecimal digits of the last twenty
  bytes of the hash of the key. The checksum only changes the case of letters, so that the index by
  lower-case address does not depend on it.\<close>

theorem address_well_formed:
  assumes "\<And>m. length (keccak256 m) = 32"
  shows "length (portillia_crypto_pubkey_to_address keccak256 pubkey) = 42 \<and>
    str_tolower (portillia_crypto_pubkey_to_address keccak256 pubkey) =
      ''0x'' @ hex_string (drop 12 (keccak256 (drop 1 pubkey)))"
proof -
  let ?bs = "drop 12 (keccak256 (drop 1 pubkey))"
  have bs: "length ?bs = 20" "take 20 ?bs = ?bs" by (simp_all add: assms)
  have "map (\<lambda>i. char_tolower (checksum_char (hex_string ?bs ! i) (checksum_nibble h i))) [0..<40] = hex_string ?bs" for h
  proof (rule nth_equalityI)
    fix i assume "i < length (map (\<lambda>i. char_tolower (checksum_char (hex_string ?bs ! i) (checksum_nibble h i))) [0..<40])"
    then have "i < 40" by simp
    moreover obtain n where "n < 16" "hex_string ?bs ! i = hex_digit n"
      using hex_string_nth [of i ?bs] \<open>i < 40\<close> bs(1) by auto
    ultimately show "map (\<lambda>i. char_tolower (checksum_char (hex_string ?bs ! i) (checksum_nibble h i))) [0..<40] ! i = hex_string ?bs ! i"
      by (simp add: lower_hex_digit del: upt_rec_numeral)
  qed (simp add: assms del: upt_rec_numeral)
  moreover have "str_tolower ''0x'' = ''0x''" by (simp add: str_tolower_def char_tolower_def char_code_def)
  ultimately show ?thesis
    using bs(2)
    by (simp add: portillia_crypto_pubkey_to_address_def Let_def str_tolower_def comp_def del: upt_rec_numeral)
qed

theorem address_well_formed_witness:
  "str_tolower (portillia_crypto_pubkey_to_address (\<lambda>m. replicate 32 0xAB) [4, 1, 2]) =
     ''0x'' @ hex_string (drop 12 (replicate 32 0xAB))"
  using address_well_formed [of "\<lambda>m. replicate 32 0xAB" "[4, 1, 2]"] by simp

text \<open>The overlay address derived from a WireGuard key lies in the shared address space 100.64.0.0/10, as the
  CIDR matcher of the relay sees it, and never ends in 0 or 255.\<close>

theorem overlay_address_in_range:
  "portillia_network_ip_in_cidr (portillia_crypto_derive_overlay_ipv4 sha256 key) ''100.64.0.0/10'' = Some True \<and>
   (\<exists>a b c d. portillia_crypto_derive_overlay_ipv4 sha256 key = render_quad (a, b, c, d) \<and> 1 \<le> d \<and> d \<le> 254)"
proof -
  let ?h = "\<lambda>i. unat (sha256 (cstring_to_bytes key) ! i)"
  define b where "b = 64 + (?h 0 AND 0x3f)"
  define d where "d = 1 + ?h 2 mod 254"
  have "(?h 0 AND 0x3f) = ?h 0 mod 64"
    using take_bit_eq_mask [of 6 "?h 0"] by (simp add: take_bit_eq_mod mask_eq_exp_minus_1)
  then have b: "64 \<le> b" "b < 128" by (simp_all add: b_def)
  have d: "1 \<le> d" "d \<le> 254" using mod_less_divisor [of 254 "?h 2"] by (auto simp: d_def)
  define c where "c = ?h 1"
  have c: "c < 256" using unsigned_less [of "sha256 (cstring_to_bytes key) ! 1"] by (simp add: c_def)
  have addr: "portillia_crypto_derive_overlay_ipv4 sha256 key = render_quad (100, b, c, d)"
    by (simp add: portillia_crypto_derive_overlay_ipv4_def Let_def b_def c_def d_def)
  have octets: "quad_octets (100, b, c, d)" "quad_octets (100, 64, 0, 0)"
    using b c d by (simp_all add: quad_octets_def)
  have "quad_value (100, b, c, d) div 2 ^ 22 = 401"
    using b c d by (intro div_nat_eqI) (simp_all add: quad_value_def)
  then have "quad_value (100, b, c, d) div 2 ^ 22 = quad_value (100, 64, 0, 0) div 2 ^ 22"
    by (simp add: quad_value_def)
  moreover have "render_cidr (100, 64, 0, 0) 10 = ''100.64.0.0/10''"
    by code_simp
  ultimately show ?thesis
    using ip_in_cidr_render [OF octets, of 10] addr d by auto
qed

section \<open>The identity survives a restart\<close>

lemma identity_read_back:
  assumes laws: "cjson_laws api view" and doc: "view doc = view (cj_object api (identity_members api i))"
    and complete: "portillia_relay_identity_is_complete (Some i)"
  shows "identity_from_json api doc = i"
proof -
  have "json_string_field api doc ''name'' = ri_name i" "json_string_field api doc ''address'' = ri_address i"
    "json_string_field api doc ''public_key'' = ri_public_key i" "json_string_field api doc ''private_key'' = ri_private_key i"
    "json_string_field api doc ''token_secret'' = ri_token_secret i"
    "json_string_field api doc ''wireguard_public_key'' = ri_wireguard_public_key i"
    "json_string_field api doc ''wireguard_private_key'' = ri_wireguard_private_key i"
    using complete
    by (auto simp: json_string_field_def str_member_view [OF laws] doc cjson_view [OF laws] identity_members_def
        str_tolower_def char_tolower_def char_code_def portillia_relay_identity_is_complete_def nonempty_def or_empty_def
        split: option.splits)
  then show ?thesis by (simp add: identity_from_json_def)
qed

text \<open>A relay keeps its identity: once loading or creating it has returned a complete identity, and the file
  could be written if it had to be, the next start with the same directory and name returns the same
  identity and leaves the files alone, whatever the generator would produce.\<close>

theorem identity_stable:
  assumes laws: "cjson_laws api view"
    and first: "portillia_relay_identity_load_or_create api bridge Written path name fs = (Some i, fs')"
    and complete: "portillia_relay_identity_is_complete (Some i)"
  shows "portillia_relay_identity_load_or_create api bridge' outcome path name fs' = (Some i, fs')"
proof -
  let ?path = "join_path (or_empty path) ''identity.json''"
  have path: "nonempty path"
    using first by (cases "nonempty path") (simp_all add: portillia_relay_identity_load_or_create_def)
  show ?thesis
  proof (cases "portillia_relay_identity_is_complete (stored_identity api name (fs ?path))")
    case True
    then show ?thesis using first path by (auto simp: portillia_relay_identity_load_or_create_def)
  next
    case False
    then have "fs' = write_file_atomic Written ?path (cj_print api (cj_object api (identity_members api i))) fs"
      using first path by (auto simp: portillia_relay_identity_load_or_create_def Let_def split: option.splits)
    then have content: "fs' ?path = Some (cj_print api (cj_object api (identity_members api i)))"
      by (simp add: write_file_atomic_def Let_def)
    obtain doc where doc: "cj_parse api (cj_print api (cj_object api (identity_members api i))) = Some doc"
      "view doc = view (cj_object api (identity_members api i))"
      by (rule cjson_print_parse [OF laws])
    have "stored_identity api name (fs' ?path) = Some i"
      using identity_read_back [OF laws doc(2) complete] complete
      by (auto simp: stored_identity_def content doc(1) Let_def portillia_relay_identity_is_complete_def)
    then show ?thesis using complete path by (simp add: portillia_relay_identity_load_or_create_def)
  qed
qed

definition sample_identity :: json where
  "sample_identity = JObject (map (\<lambda>k. (k, JString ''x''))
     [''name'', ''address'', ''public_key'', ''private_key'', ''token_secret'', ''wireguard_public_key'', ''wireguard_private_key''])"

theorem identity_stable_witness:
  "\<exists>i fs'. portillia_relay_identity_load_or_create tree_json (\<lambda>_. Some sample_identity) Written (Some ''d'') None Map.empty = (Some i, fs') \<and>
     portillia_relay_identity_load_or_create tree_json (\<lambda>_. None) Not_opened (Some ''d'') None fs' = (Some i, fs')"
proof -
  let ?i = "identity_from_json tree_json sample_identity"
  obtain fs' where first: "portillia_relay_identity_load_or_create tree_json (\<lambda>_. Some sample_identity) Written (Some ''d'') None Map.empty =
      (Some ?i, fs')"
    by (simp add: portillia_relay_identity_load_or_create_def stored_identity_def portillia_relay_identity_is_complete_def
        generate_identity_def tree_json_def Let_def)
  have "portillia_relay_identity_is_complete (Some ?i)"
    by (simp add: portillia_relay_identity_is_complete_def identity_from_json_def json_string_field_def str_member_def
        tree_json_def sample_identity_def str_tolower_def char_tolower_def char_code_def)
  from identity_stable [OF tree_json_laws first this] first show ?thesis by blast
qed

end
