(* ===== verification/Sdk_Names.thy ===== *)
theory Sdk_Names
  imports Portal_Types Identity Calendar
begin

text \<open>
  The first part of \<^verbatim>\<open>src/sdk/api_client.c\<close>: how the SDK normalises hostnames, DNS labels and relay URLs, parses
  hexadecimal keys, and derives the token of a hop of a multi-hop route.

  HMAC-SHA256 and the base64 encoder are calls of OpenSSL and parameters; \<open>hmac\<close> is \<open>None\<close> where the context cannot be set up.
\<close>

section \<open>Normalisation\<close>

definition str_trim :: "cstring \<Rightarrow> cstring" where
  "str_trim s = rev (dropWhile char_isspace (rev (dropWhile char_isspace s)))"

definition trim_hex_prefix :: "cstring option \<Rightarrow> cstring" where
  "trim_hex_prefix s =
     (case s of Some (a # b # r) \<Rightarrow> if a = CHR ''0'' \<and> (b = CHR ''x'' \<or> b = CHR ''X'') then r else a # b # r
      | _ \<Rightarrow> or_empty s)"

definition sdk_normalize_hostname :: "cstring option \<Rightarrow> cstring" where
  "sdk_normalize_hostname raw =
     (let h = str_tolower (str_trim (or_empty raw))
      in if h \<noteq> [] \<and> last h = CHR ''.'' then butlast h else h)"

definition char_isalpha :: "char \<Rightarrow> bool" where
  "char_isalpha c \<longleftrightarrow> 65 \<le> char_code c \<and> char_code c \<le> 90 \<or> 97 \<le> char_code c \<and> char_code c \<le> 122"

text \<open>The loop of \<open>sanitize_dns_label_input\<close>, with the flag \<open>prev_hyphen\<close>.\<close>

fun dns_chars :: "bool \<Rightarrow> cstring \<Rightarrow> cstring" where
  "dns_chars prev_hyphen [] = []"
| "dns_chars prev_hyphen (c # s) =
     (if c = CHR ''-'' \<or> char_isalpha c \<or> char_isdigit c then c # dns_chars False s
      else if prev_hyphen then dns_chars prev_hyphen s
      else CHR ''-'' # dns_chars True s)"

definition strip_hyphens :: "cstring \<Rightarrow> cstring" where
  "strip_hyphens b = rev (dropWhile (\<lambda>c. c = CHR ''-'') (rev (dropWhile (\<lambda>c. c = CHR ''-'') b)))"

definition sanitize_dns_label_input :: "cstring option \<Rightarrow> cstring" where
  "sanitize_dns_label_input raw =
     (let input = str_tolower (str_trim (or_empty raw))
      in if input = [] then [] else strip_hyphens (dns_chars False input))"

definition label_char :: "char \<Rightarrow> bool" where
  "label_char c \<longleftrightarrow> 97 \<le> char_code c \<and> char_code c \<le> 122 \<or> 48 \<le> char_code c \<and> char_code c \<le> 57 \<or> c = CHR ''-''"

definition normalize_dns_label :: "cstring option \<Rightarrow> cstring option" where
  "normalize_dns_label raw =
     (let label = sanitize_dns_label_input raw
      in if label = [] then None
         else if CHR ''.'' \<in> set label then None
         else if length label > 63 then None
         else if hd label = CHR ''-'' \<or> last label = CHR ''-'' then None
         else if \<not> list_all label_char label then None
         else Some label)"

text \<open>\<open>strstr (s, p) != NULL\<close>\<close>

fun contains_sub :: "cstring \<Rightarrow> cstring \<Rightarrow> bool" where
  "contains_sub p [] \<longleftrightarrow> p = []"
| "contains_sub p (c # s) \<longleftrightarrow> take (length p) (c # s) = p \<or> contains_sub p s"

definition strip_slashes :: "cstring \<Rightarrow> cstring" where
  "strip_slashes s = rev (dropWhile (\<lambda>c. c = CHR ''/'') (rev s))"

definition strip_relay :: "cstring \<Rightarrow> cstring" where
  "strip_relay s =
     (if length s \<ge> 6 \<and> strcasecmp_eq (drop (length s - 6) s) ''/relay'' then take (length s - 6) s else s)"

definition normalize_relay_url :: "cstring option \<Rightarrow> cstring option" where
  "normalize_relay_url raw =
     (case raw of
        None \<Rightarrow> None
      | Some r \<Rightarrow>
          let trimmed0 = str_trim r
          in if trimmed0 = [] then None
             else let trimmed = (if contains_sub ''://'' trimmed0 then trimmed0 else ''https://'' @ trimmed0)
                  in if str_tolower (take 8 trimmed) \<noteq> ''https://'' then None
                     else let host_path = strip_relay (strip_slashes
                                (takeWhile (\<lambda>c. c \<noteq> CHR ''?'' \<and> c \<noteq> CHR ''#'') (drop 8 trimmed)))
                          in if host_path = [] \<or> hd host_path = CHR ''/'' then None else Some (''https://'' @ host_path))"

section \<open>Keys\<close>

definition identity_key :: "portillia_identity \<Rightarrow> cstring" where
  "identity_key i = str_tolower (str_trim (or_empty (id_name i))) @ '':'' @ str_tolower (str_trim (or_empty (id_address i)))"

definition char_isxdigit :: "char \<Rightarrow> bool" where
  "char_isxdigit c \<longleftrightarrow> char_isdigit c \<or> 65 \<le> char_code c \<and> char_code c \<le> 70 \<or> 97 \<le> char_code c \<and> char_code c \<le> 102"

definition xdigit_value :: "char \<Rightarrow> int" where
  "xdigit_value c =
     (if char_isdigit c then int (char_code c) - 48
      else if char_code c \<le> 70 then int (char_code c) - 55 else int (char_code c) - 87)"

text \<open>\<^verbatim>\<open>sscanf (s, "%2x", &v)\<close>: white space is skipped, then at most two characters are read, an optional sign and
  hexadecimal digits; a bare \<^verbatim>\<open>0x\<close> does not match. The value is cast to a byte.\<close>

definition scan_hex2 :: "cstring \<Rightarrow> byte option" where
  "scan_hex2 s =
     (let f = take 2 (dropWhile char_isspace s);
          neg = (f \<noteq> [] \<and> hd f = CHR ''-'');
          body = (if f \<noteq> [] \<and> (hd f = CHR ''-'' \<or> hd f = CHR ''+'') then tl f else f);
          ds = takeWhile char_isxdigit body;
          v = foldl (\<lambda>n c. 16 * n + xdigit_value c) 0 ds
      in if ds = [] \<or> body = ''0x'' \<or> body = ''0X'' then None else Some (word_of_int (if neg then - v else v)))"

fun parse_hex_loop :: "nat \<Rightarrow> cstring \<Rightarrow> byte list option" where
  "parse_hex_loop 0 cur = Some []"
| "parse_hex_loop (Suc n) cur =
     (case scan_hex2 cur of None \<Rightarrow> None | Some b \<Rightarrow> map_option (\<lambda>bs. b # bs) (parse_hex_loop n (drop 2 cur)))"

definition parse_hex_bytes :: "cstring option \<Rightarrow> nat \<Rightarrow> byte list option" where
  "parse_hex_bytes hex out_len =
     (case hex of
        None \<Rightarrow> None
      | Some _ \<Rightarrow>
          let cur = trim_hex_prefix hex
          in if length cur \<noteq> out_len * 2 then None else parse_hex_loop out_len cur)"

section \<open>Hop tokens\<close>

text \<open>The characters up to the padding, with the alphabet of URLs.\<close>

definition base64_raw_url_encode :: "(byte list \<Rightarrow> cstring) \<Rightarrow> byte list \<Rightarrow> cstring" where
  "base64_raw_url_encode encode_block data =
     map (\<lambda>c. if c = CHR ''+'' then CHR ''-'' else if c = CHR ''/'' then CHR ''_'' else c)
       (takeWhile (\<lambda>c. c \<noteq> CHR ''='') (encode_block data))"

definition length_prefixed :: "cstring \<Rightarrow> cstring" where
  "length_prefixed part = [CHR 0x0A] @ dec (length part) @ '':'' @ part"

text \<open>What is fed to the HMAC.\<close>

definition hop_token_input :: "portillia_identity \<Rightarrow> cstring \<Rightarrow> nat \<Rightarrow> cstring \<Rightarrow> cstring \<Rightarrow> cstring" where
  "hop_token_input i public_hostname hop_index from_relay to_relay =
     ''Portal identity token v1'' @ [CHR 0x0A] @ identity_key i @
     concat (map length_prefixed [''hop-token'', public_hostname, dec hop_index, from_relay, to_relay])"

definition derive_hop_token ::
  "(byte list \<Rightarrow> byte list \<Rightarrow> byte list option) \<Rightarrow> (byte list \<Rightarrow> cstring) \<Rightarrow> portillia_identity \<Rightarrow> cstring \<Rightarrow> nat \<Rightarrow>
   cstring \<Rightarrow> cstring \<Rightarrow> cstring option" where
  "derive_hop_token hmac encode_block i public_hostname hop_index from_relay to_relay =
     (case id_private_key i of
        None \<Rightarrow> None
      | Some key \<Rightarrow>
          map_option (base64_raw_url_encode encode_block)
            (hmac (cstring_to_bytes key) (cstring_to_bytes (hop_token_input i public_hostname hop_index from_relay to_relay))))"

section \<open>Labels\<close>

lemma dns_chars_ok: "c \<in> set (dns_chars p s) \<Longrightarrow> c = CHR ''-'' \<or> c \<in> set s \<and> (char_isalpha c \<or> char_isdigit c)"
  by (induction p s rule: dns_chars.induct) (auto split: if_splits)

lemma dns_chars_id: "\<forall>c \<in> set s. c = CHR ''-'' \<or> char_isalpha c \<or> char_isdigit c \<Longrightarrow> dns_chars p s = s"
  by (induction p s rule: dns_chars.induct) auto

lemma hyphen_code: "c = CHR ''-'' \<longleftrightarrow> char_code c = 45"
  using char_code_eq_iff [of c "CHR ''-''"] by (simp add: char_code_def del: char_code_eq_iff)

lemma tolower_code: "\<not> (65 \<le> char_code (char_tolower c) \<and> char_code (char_tolower c) \<le> 90)"
  by (auto simp: char_tolower_def char_code_char_of)

lemma lowered_label_char: "c \<in> set (str_tolower s) \<Longrightarrow> char_isalpha c \<or> char_isdigit c \<Longrightarrow> label_char c"
  using tolower_code by (auto simp: str_tolower_def char_isalpha_def char_isdigit_def label_char_def)

lemma label_char_fixed:
  assumes "label_char c"
  shows "char_tolower c = c" "\<not> char_isspace c" "c = CHR ''-'' \<or> char_isalpha c \<or> char_isdigit c" "c \<noteq> CHR ''.''"
proof -
  have dot: "char_code CHR ''.'' = 46" by (simp add: char_code_def)
  show "char_tolower c = c" "\<not> char_isspace c" "c = CHR ''-'' \<or> char_isalpha c \<or> char_isdigit c"
    using assms by (auto simp: label_char_def char_tolower_def char_isspace_def char_isalpha_def char_isdigit_def hyphen_code)
  show "c \<noteq> CHR ''.''" using assms dot by (auto simp: label_char_def hyphen_code)
qed

lemma strip_both_subset: "c \<in> set (rev (dropWhile P (rev (dropWhile P s)))) \<Longrightarrow> c \<in> set s"
  using set_dropWhileD [of c P s] set_dropWhileD [of c P "rev (dropWhile P s)"] by simp

lemma strip_both_ends:
  assumes "rev (dropWhile P (rev (dropWhile P s))) \<noteq> []" (is "?r \<noteq> []")
  shows "\<not> P (hd ?r)" "\<not> P (last ?r)"
proof -
  show "\<not> P (last ?r)"
    using assms hd_dropWhile [of P "rev (dropWhile P s)"] unfolding last_rev rev_is_Nil_conv by blast
  obtain pre where split: "dropWhile P s = ?r @ pre"
    by (metis rev_append rev_rev_ident takeWhile_dropWhile_id)
  with assms have "dropWhile P s \<noteq> []" "hd (dropWhile P s) = hd ?r" by (metis append_is_Nil_conv, metis hd_append2)
  then show "\<not> P (hd ?r)" using hd_dropWhile by metis
qed

lemma strip_both_id:
  assumes "s \<noteq> [] \<Longrightarrow> \<not> P (hd s) \<and> \<not> P (last s)"
  shows "rev (dropWhile P (rev (dropWhile P s))) = s"
proof (cases s)
  case (Cons a r)
  then have "\<not> P (hd s)" "\<not> P (last s)" using assms by auto
  then have "dropWhile P s = s" "dropWhile P (rev s) = rev s"
    unfolding dropWhile_eq_self_iff hd_rev by blast+
  then show ?thesis by simp
qed simp

lemma sanitized_chars: "c \<in> set (sanitize_dns_label_input raw) \<Longrightarrow> label_char c"
proof -
  assume c: "c \<in> set (sanitize_dns_label_input raw)"
  define input where "input = str_tolower (str_trim (or_empty raw))"
  have "c \<in> set (dns_chars False input)"
    using c strip_both_subset [of c "\<lambda>c. c = CHR ''-''" "dns_chars False input"]
    unfolding sanitize_dns_label_input_def input_def [symmetric] strip_hyphens_def Let_def
    by (simp split: if_splits)
  then show ?thesis
    using dns_chars_ok [of c False input] lowered_label_char [of c "str_trim (or_empty raw)"]
    by (auto simp: input_def label_char_def)
qed

lemma sanitized_ends:
  assumes "sanitize_dns_label_input raw \<noteq> []"
  shows "hd (sanitize_dns_label_input raw) \<noteq> CHR ''-''" "last (sanitize_dns_label_input raw) \<noteq> CHR ''-''"
  using assms strip_both_ends [of "\<lambda>c. c = CHR ''-''" "dns_chars False (str_tolower (str_trim (or_empty raw)))"]
  unfolding sanitize_dns_label_input_def strip_hyphens_def Let_def by (auto split: if_splits)

lemma sanitize_fixed:
  assumes "\<forall>c \<in> set l. label_char c" "l \<noteq> [] \<Longrightarrow> hd l \<noteq> CHR ''-'' \<and> last l \<noteq> CHR ''-''"
  shows "sanitize_dns_label_input (Some l) = l"
proof -
  have "str_trim l = l"
    unfolding str_trim_def by (rule strip_both_id) (use assms(1) label_char_fixed(2) hd_in_set last_in_set in blast)
  moreover have "str_tolower l = l"
    using assms(1) label_char_fixed(1) unfolding str_tolower_def by (intro map_idI) blast
  moreover have "dns_chars False l = l" using assms(1) label_char_fixed(3) by (intro dns_chars_id) blast
  moreover have "strip_hyphens l = l" unfolding strip_hyphens_def by (rule strip_both_id) (use assms(2) in blast)
  ultimately show ?thesis by (simp add: sanitize_dns_label_input_def)
qed

text \<open>The checks after sanitising can only fail on the length: the label is refused exactly when nothing is left of it
  or more than 63 characters are.\<close>

lemma normalize_dns_label_eq:
  "normalize_dns_label raw =
     (let l = sanitize_dns_label_input raw in if l = [] \<or> length l > 63 then None else Some l)"
  using sanitized_chars [of _ raw] sanitized_ends [of raw] label_char_fixed(4)
  by (auto simp: normalize_dns_label_def Let_def list_all_iff)

text \<open>C35. A normalised label is a DNS label: between one and 63 lower-case letters, digits and hyphens, with no hyphen at
  either end; and normalising it once more changes nothing. A label is refused only when nothing is left of it after
  sanitising or more than 63 characters are.\<close>

theorem dns_label_valid:
  "case normalize_dns_label raw of
     None \<Rightarrow> sanitize_dns_label_input raw = [] \<or> length (sanitize_dns_label_input raw) > 63
   | Some l \<Rightarrow> 0 < length l \<and> length l \<le> 63 \<and> list_all label_char l \<and> hd l \<noteq> CHR ''-'' \<and> last l \<noteq> CHR ''-'' \<and>
       normalize_dns_label (Some l) = Some l"
proof -
  let ?l = "sanitize_dns_label_input raw"
  have "sanitize_dns_label_input (Some ?l) = ?l"
    by (rule sanitize_fixed) (use sanitized_chars sanitized_ends in auto)
  then show ?thesis
    using sanitized_chars [of _ raw] sanitized_ends [of raw]
    by (auto simp: normalize_dns_label_eq Let_def list_all_iff)
qed

section \<open>Relay URLs\<close>

lemma relay_url_shape:
  assumes "normalize_relay_url raw = Some u"
  obtains h where "u = ''https://'' @ h" "h \<noteq> []" "hd h \<noteq> CHR ''/''" "CHR ''?'' \<notin> set h" "CHR ''#'' \<notin> set h"
proof -
  have sub: "P c" if c: "c \<in> set (strip_relay (strip_slashes (takeWhile P s)))" for c P s
  proof -
    have "set (strip_relay x) \<subseteq> set x" for x by (auto simp: strip_relay_def dest: in_set_takeD)
    moreover have "set (strip_slashes x) \<subseteq> set x" for x by (auto simp: strip_slashes_def dest: set_dropWhileD)
    ultimately have "c \<in> set (takeWhile P s)" using c by blast
    then show ?thesis by (rule set_takeWhileD [THEN conjunct2])
  qed
  from assms obtain t where u: "u = ''https://'' @ strip_relay (strip_slashes (takeWhile (\<lambda>c. c \<noteq> CHR ''?'' \<and> c \<noteq> CHR ''#'') t))"
      "strip_relay (strip_slashes (takeWhile (\<lambda>c. c \<noteq> CHR ''?'' \<and> c \<noteq> CHR ''#'') t)) \<noteq> []"
      "hd (strip_relay (strip_slashes (takeWhile (\<lambda>c. c \<noteq> CHR ''?'' \<and> c \<noteq> CHR ''#'') t))) \<noteq> CHR ''/''"
    unfolding normalize_relay_url_def Let_def by (auto split: option.splits if_splits)
  then show thesis using that sub by blast
qed

text \<open>A URL that is already normalised may change again: one \<^verbatim>\<open>/relay\<close> is dropped each time.\<close>

lemma relay_url_not_idempotent:
  "normalize_relay_url (Some ''https://a.io/relay/relay/'') = Some ''https://a.io/relay''"
  "normalize_relay_url (Some ''https://a.io/relay'') = Some ''https://a.io''"
  by code_simp+

section \<open>Hop tokens of different hops\<close>

lemma dec_inj [simp]: "dec m = dec n \<longleftrightarrow> m = n"
  by (metis digits_value_dec of_nat_eq_iff)

lemma length_prefixed_inj: "length_prefixed p @ r = length_prefixed p' @ r' \<longleftrightarrow> p = p' \<and> r = r'"
proof
  assume eq: "length_prefixed p @ r = length_prefixed p' @ r'"
  have digits: "takeWhile char_isdigit (dec n @ CHR '':'' # x) = dec n" for n x
    using dec_digits [of _ n] by (subst takeWhile_append2) auto
  from eq have body: "dec (length p) @ CHR '':'' # p @ r = dec (length p') @ CHR '':'' # p' @ r'"
    by (simp add: length_prefixed_def)
  from arg_cong [OF this, of "takeWhile char_isdigit"] have "length p = length p'" unfolding digits by simp
  with body show "p = p' \<and> r = r'" by simp
qed simp

lemma char_byte_inj: "(word_of_nat (char_code a) :: byte) = word_of_nat (char_code b) \<longleftrightarrow> a = b"
proof -
  have "unat (word_of_nat (char_code c) :: byte) = char_code c" for c
    by (simp add: unat_of_nat)
  then show ?thesis by (metis char_code_eq_iff)
qed

lemma cstring_to_bytes_inj [simp]: "cstring_to_bytes a = cstring_to_bytes b \<longleftrightarrow> a = b"
  unfolding cstring_to_bytes_def by (rule inj_map_eq_map) (simp add: inj_def char_byte_inj)

text \<open>What a hop token authenticates determines the hop: for one identity, two messages fed to the HMAC are equal only if they
  name the same public hostname, position, sending and receiving relay. No choice of names, however odd, makes
  the tokens of two hops computed from the same message.\<close>

theorem hop_token_input_determines_hop:
  "cstring_to_bytes (hop_token_input i host k from to) = cstring_to_bytes (hop_token_input i host' k' from' to') \<longleftrightarrow>
     host = host' \<and> k = k' \<and> from = from' \<and> to = to'"
  using length_prefixed_inj [of to "[]" to' "[]"]
  by (auto simp: hop_token_input_def length_prefixed_inj)

end
