(* ===== verification/Sdk_Client.thy ===== *)
theory Sdk_Client
  imports Sdk_Names Relay_Set Api_Server
begin

text \<open>
  The SDK's client of the relay API, \<^verbatim>\<open>src/sdk/api_client.c\<close>: registering a lease (challenge, signature, registration, hop routes),
  renewing and unregistering it, the version check and the discovery request.

  The network is \<open>se_curl\<close>: given a request and the state of the world it yields the new state and, unless the transfer
  fails, the status and the body that was received. cJSON, the calls of OpenSSL and libsecp256k1, the functions
  \<open>StreamLeaseExtrasJSON\<close> and \<open>StreamLeaseECHJSON\<close> of the bridge and the clock are parameters; \<open>se_text\<close> gives the bytes of JSON text. A
  relay set is that of the theory \<open>Relay_Set\<close>. Results are values: \<open>Inl\<close> carries the \<open>errno\<close> of a call that returns -1. Which
  strings are shared between the relay set and the arrays of the client is not modelled.
\<close>

section \<open>Environment\<close>

datatype sdk_errno = EINVAL | EIO | EACCES | EPROTO | EBADMSG | ENOENT | ENOSPC

record sdk_crypto =
  sc_keccak256 :: "byte list \<Rightarrow> byte list"
  sc_sha256 :: "byte list \<Rightarrow> byte list"
  sc_hmac_sha256 :: "byte list \<Rightarrow> byte list \<Rightarrow> byte list option"
  sc_encode_block :: "byte list \<Rightarrow> cstring"
  sc_pubkey_create :: "byte list \<Rightarrow> byte list option"
  sc_sign_recoverable :: "byte list \<Rightarrow> byte list \<Rightarrow> (byte list \<times> nat) option"
  sc_sign_der :: "byte list \<Rightarrow> byte list \<Rightarrow> byte list option"

text \<open>A request as libcurl is told to make it; \<open>call_skip_verify\<close> is \<open>None\<close> where TLS is not configured.\<close>

record 't sdk_call =
  call_url :: cstring
  call_method :: cstring
  call_headers :: "cstring list"
  call_body :: "'t option"
  call_skip_verify :: "bool option"

record ('j, 't, 'w, 'r) sdk_env =
  se_json :: "('j, 't) cjson"
  se_crypto :: sdk_crypto
  se_curl :: "'t sdk_call \<Rightarrow> 'w \<Rightarrow> 'w \<times> (int \<times> 't option) option"
  se_text :: "'t \<Rightarrow> byte list"
  se_extras :: "'t \<Rightarrow> cstring \<Rightarrow> 't option"
  se_ech :: "'t \<Rightarrow> cstring \<Rightarrow> cstring \<Rightarrow> 't option"
  se_table :: "'r relay_table"
  se_now :: time_t

record portillia_http_client =
  hc_relay_url :: cstring
  hc_insecure_skip_verify :: bool

definition SDK_PATH_DOMAIN :: cstring where "SDK_PATH_DOMAIN = ''/sdk/domain''"
definition SDK_PATH_REGISTER_CHALLENGE :: cstring where "SDK_PATH_REGISTER_CHALLENGE = ''/sdk/register/challenge''"
definition SDK_PATH_REGISTER :: cstring where "SDK_PATH_REGISTER = ''/sdk/register''"
definition SDK_PATH_RENEW :: cstring where "SDK_PATH_RENEW = ''/sdk/renew''"
definition SDK_PATH_UNREGISTER :: cstring where "SDK_PATH_UNREGISTER = ''/sdk/unregister''"
definition SDK_PATH_HOP :: cstring where "SDK_PATH_HOP = ''/sdk/hop''"
definition SDK_PATH_DISCOVERY :: cstring where "SDK_PATH_DISCOVERY = ''/discovery''"

definition portillia_http_client_create :: "cstring option \<Rightarrow> bool \<Rightarrow> portillia_http_client option" where
  "portillia_http_client_create relay_url insecure_skip_verify =
     map_option (\<lambda>u. \<lparr>hc_relay_url = u, hc_insecure_skip_verify = insecure_skip_verify\<rparr>) relay_url"

section \<open>Requests\<close>

text \<open>A reply with a status of 400 or more is an error whatever its body.\<close>

definition http_json ::
  "('j, 't, 'w, 'r) sdk_env \<Rightarrow> portillia_http_client \<Rightarrow> cstring option \<Rightarrow> cstring \<Rightarrow> cstring \<Rightarrow> 't option \<Rightarrow> 'w \<Rightarrow>
   'w \<times> (sdk_errno + 'j option)" where
  "http_json env client base_url method path body w =
     (let url = snprintf_s 2048 ((case base_url of Some b \<Rightarrow> b | None \<Rightarrow> hc_relay_url client) @ path);
          call = \<lparr>call_url = url, call_method = method,
            call_headers = ''Accept: application/json'' #
              (if method = ''POST'' \<or> method = ''DELETE'' then [''Content-Type: application/json''] else []),
            call_body = (if method = ''GET'' then None else body),
            call_skip_verify = (if take 8 url = ''https://'' then Some (hc_insecure_skip_verify client) else None)\<rparr>
      in case se_curl env call w of
           (w', None) \<Rightarrow> (w', Inl EIO)
         | (w', Some (status, data)) \<Rightarrow>
             if status \<ge> 400 then (w', Inl EACCES)
             else (w', Inr (case data of None \<Rightarrow> None | Some t \<Rightarrow> cj_parse (se_json env) t)))"

text \<open>The \<open>data\<close> member if it is an object, else the document; that \<open>ok\<close> is true makes no difference.\<close>

definition envelope_data_or_root :: "('j, 't) cjson \<Rightarrow> 'j \<Rightarrow> 'j" where
  "envelope_data_or_root api doc =
     (case cj_get api doc ''data'' of Some data \<Rightarrow> if cj_is_object api data then data else doc | None \<Rightarrow> doc)"

definition time_member :: "('j, 't) cjson \<Rightarrow> 'j \<Rightarrow> cstring \<Rightarrow> time_t" where
  "time_member api j k = (case str_member api j k of None \<Rightarrow> 0 | Some s \<Rightarrow> parse_rfc3339_utc (Some s))"

record portillia_register_challenge_response =
  cr_challenge_id :: cstring
  cr_expires_at :: time_t
  cr_siwe_message :: cstring

record portillia_register_response =
  rr_identity :: portillia_identity
  rr_expires_at :: time_t
  rr_hostname :: cstring
  rr_access_token :: cstring
  rr_keyless_url :: "cstring option"
  rr_sni_port :: int
  rr_udp_addr :: "cstring option"
  rr_udp_enabled :: bool
  rr_tcp_addr :: "cstring option"
  rr_tcp_enabled :: bool

record portillia_renew_response =
  nr_expires_at :: time_t
  nr_access_token :: cstring

text \<open>Each of the following is \<open>None\<close> where the code returns -1: a member it cannot do without is missing.\<close>

definition parse_domain_response_json :: "('j, 't) cjson \<Rightarrow> 'j option \<Rightarrow> (cstring \<times> cstring option) option" where
  "parse_domain_response_json api doc =
     (case doc of
        None \<Rightarrow> None
      | Some d \<Rightarrow>
          let data = envelope_data_or_root api d
          in map_option (\<lambda>v. (v, str_member api data ''release_version'')) (str_member api data ''protocol_version''))"

definition parse_register_challenge_response_json ::
  "('j, 't) cjson \<Rightarrow> 'j option \<Rightarrow> portillia_register_challenge_response option" where
  "parse_register_challenge_response_json api doc =
     (case doc of
        None \<Rightarrow> None
      | Some d \<Rightarrow>
          let data = envelope_data_or_root api d
          in case (str_member api data ''challenge_id'', str_member api data ''siwe_message'') of
               (Some cid, Some msg) \<Rightarrow>
                 Some \<lparr>cr_challenge_id = cid, cr_expires_at = time_member api data ''expires_at'', cr_siwe_message = msg\<rparr>
             | _ \<Rightarrow> None)"

definition parse_register_response_json :: "('j, 't) cjson \<Rightarrow> 'j option \<Rightarrow> portillia_register_response option" where
  "parse_register_response_json api doc =
     (case doc of
        None \<Rightarrow> None
      | Some d \<Rightarrow>
          let data = envelope_data_or_root api d;
              id_member = (\<lambda>k. case cj_get api data ''identity'' of None \<Rightarrow> None | Some i \<Rightarrow> str_member api i k)
          in case (str_member api data ''hostname'', str_member api data ''access_token'') of
               (Some hostname, Some token) \<Rightarrow>
                 Some \<lparr>rr_identity = portillia_identity_init\<lparr>id_name := id_member ''name'', id_address := id_member ''address''\<rparr>,
                       rr_expires_at = time_member api data ''expires_at'', rr_hostname = hostname, rr_access_token = token,
                       rr_keyless_url = str_member api data ''keyless_url'',
                       rr_sni_port = (case int_member api data ''sni_port'' of None \<Rightarrow> 0 | Some p \<Rightarrow> p),
                       rr_udp_addr = str_member api data ''udp_addr'', rr_udp_enabled = bool_member api data ''udp_enabled'',
                       rr_tcp_addr = str_member api data ''tcp_addr'', rr_tcp_enabled = bool_member api data ''tcp_enabled''\<rparr>
             | _ \<Rightarrow> None)"

definition parse_renew_response_json :: "('j, 't) cjson \<Rightarrow> 'j option \<Rightarrow> portillia_renew_response option" where
  "parse_renew_response_json api doc =
     (case doc of
        None \<Rightarrow> None
      | Some d \<Rightarrow>
          let data = envelope_data_or_root api d
          in map_option (\<lambda>tok. \<lparr>nr_expires_at = time_member api data ''expires_at'', nr_access_token = tok\<rparr>)
               (str_member api data ''access_token''))"

definition portillia_http_client_check_domain ::
  "('j, 't, 'w, 'r) sdk_env \<Rightarrow> cstring \<Rightarrow> portillia_http_client \<Rightarrow> 'w \<Rightarrow> 'w \<times> sdk_errno option" where
  "portillia_http_client_check_domain env sdk_version client w =
     (case http_json env client None ''GET'' SDK_PATH_DOMAIN None w of
        (w', Inl e) \<Rightarrow> (w', Some e)
      | (w', Inr doc) \<Rightarrow>
          (case parse_domain_response_json (se_json env) doc of
             None \<Rightarrow> (w', Some EPROTO)
           | Some (version, _) \<Rightarrow> (w', if version \<noteq> sdk_version then Some EPROTO else None)))"

section \<open>Signatures\<close>

definition siwe_payload :: "cstring \<Rightarrow> byte list" where
  "siwe_payload msg = cstring_to_bytes
     (snprintf_s 64 ([CHR 0x19] @ ''Ethereum Signed Message:'' @ [CHR 0x0A] @ dec (length msg)) @ msg)"

text \<open>The compact signature in hexadecimal with \<^verbatim>\<open>0x\<close> in front and 27 plus the recovery id behind.\<close>

definition sign_siwe :: "sdk_crypto \<Rightarrow> cstring \<Rightarrow> cstring option \<Rightarrow> sdk_errno + cstring" where
  "sign_siwe cr siwe_message private_key_hex =
     (case parse_hex_bytes private_key_hex 32 of
        None \<Rightarrow> Inl EINVAL
      | Some seckey \<Rightarrow>
          (case sc_sign_recoverable cr (sc_keccak256 cr (siwe_payload siwe_message)) seckey of
             None \<Rightarrow> Inl EIO
           | Some (compact64, recid) \<Rightarrow> Inr (''0x'' @ hex_string (compact64 @ [word_of_nat (27 + recid)]))))"

definition derive_address_from_private_key :: "sdk_crypto \<Rightarrow> cstring \<Rightarrow> cstring option" where
  "derive_address_from_private_key cr private_key_hex =
     (case parse_hex_bytes (Some private_key_hex) 32 of
        None \<Rightarrow> None
      | Some seckey \<Rightarrow> map_option (portillia_crypto_pubkey_to_address (sc_keccak256 cr)) (sc_pubkey_create cr seckey))"

definition sign_sha256_secp256k1_der_hex :: "sdk_crypto \<Rightarrow> byte list \<Rightarrow> cstring option \<Rightarrow> nat \<Rightarrow> sdk_errno + cstring" where
  "sign_sha256_secp256k1_der_hex cr payload private_key_hex out_len =
     (case parse_hex_bytes private_key_hex 32 of
        None \<Rightarrow> Inl EINVAL
      | Some seckey \<Rightarrow>
          (case sc_sign_der cr (sc_sha256 cr payload) seckey of
             None \<Rightarrow> Inl EIO
           | Some der \<Rightarrow> if out_len < length der * 2 + 1 then Inl ENOSPC else Inr (hex_string der)))"

section \<open>Hop routes as JSON\<close>

text \<open>\<open>(double) value * 1e9\<close>, for times the conversion of which is exact.\<close>

definition json_add_time_unix_nano :: "('j, 't) cjson \<Rightarrow> cstring \<Rightarrow> time_t \<Rightarrow> cstring \<times> 'j" where
  "json_add_time_unix_nano api key value = (key, cj_number api (double_of_int (value * 1000000000)))"

definition relay_descriptor_to_canonical_json ::
  "('j, 't) cjson \<Rightarrow> sdk_crypto \<Rightarrow> portillia_relay_descriptor \<Rightarrow> bool \<Rightarrow> 'j" where
  "relay_descriptor_to_canonical_json api cr d include_overlay_ipv4 =
     (let str = (\<lambda>k v. (k, cj_string api (or_empty v)))
      in cj_object api (
        [str ''address'' (d_address d), str ''version'' (d_version d),
         json_add_time_unix_nano api ''issued_at_unix_nano'' (d_issued_at d),
         json_add_time_unix_nano api ''expires_at_unix_nano'' (d_expires_at d),
         str ''api_https_addr'' (d_api_https_addr d), str ''wireguard_public_key'' (d_wireguard_public_key d),
         (''wireguard_port'', cj_number api (double_of_int (d_wireguard_port d))),
         (''supports_overlay'', cj_bool api (d_supports_overlay d)), (''supports_udp'', cj_bool api (d_supports_udp d)),
         (''supports_tcp'', cj_bool api (d_supports_tcp d)),
         (''active_connections'', cj_number api (double_of_int (d_active_connections d))),
         (''tcp_bps'', cj_number api (d_tcp_bps d))] @
        (if include_overlay_ipv4 \<and> nonempty (d_wireguard_public_key d)
         then [(''wireguard_ipv4'', cj_string api
                 (portillia_crypto_derive_overlay_ipv4 (sc_sha256 cr) (or_empty (d_wireguard_public_key d))))]
         else [])))"

definition char_toupper :: "char \<Rightarrow> char" where
  "char_toupper c = (if 97 \<le> char_code c \<and> char_code c \<le> 122 then char_of (char_code c - 32) else c)"

definition build_hop_route_payload :: "('j, 't) cjson \<Rightarrow> sdk_crypto \<Rightarrow> cstring \<Rightarrow> portillia_hop_route \<Rightarrow> 't" where
  "build_hop_route_payload api cr method route =
     (let str = (\<lambda>k v. (k, cj_string api (or_empty v)))
      in cj_print api (cj_object api
        [(''purpose'', cj_string api ''portal hop route v1''), (''method'', cj_string api (map char_toupper (take 15 method))),
         str ''owner_public_key'' (h_owner_public_key route), str ''relay_url'' (h_relay_url route),
         str ''public_hostname'' (h_public_hostname route), str ''route_hostname'' (h_route_hostname route),
         str ''hostname_hash'' (h_hostname_hash route), str ''match_token'' (h_match_token route),
         (''forward_relay'', relay_descriptor_to_canonical_json api cr (h_forward_relay route) False),
         str ''forward_token'' (h_forward_token route),
         json_add_time_unix_nano api ''first_seen_at_unix_nano'' (h_first_seen_at route),
         json_add_time_unix_nano api ''expires_at_unix_nano'' (h_expires_at route)]))"

definition sign_hop_route ::
  "('j, 't, 'w, 'r) sdk_env \<Rightarrow> cstring \<Rightarrow> portillia_hop_route \<Rightarrow> portillia_identity \<Rightarrow> time_t \<Rightarrow> sdk_errno + portillia_hop_route"
  where
  "sign_hop_route env method route0 identity expires_at =
     (if id_private_key identity = None \<or> id_public_key identity = None then Inl EINVAL
      else let pk = str_tolower (str_trim (trim_hex_prefix (id_public_key identity)));
               route = route0\<lparr>h_owner_public_key := (if pk \<noteq> [] then Some pk else id_public_key identity),
                 h_relay_url := (case normalize_relay_url (h_relay_url route0) of Some u \<Rightarrow> Some u | None \<Rightarrow> h_relay_url route0),
                 h_public_hostname := map_option (\<lambda>h. sdk_normalize_hostname (Some h)) (h_public_hostname route0),
                 h_match_token := map_option str_trim (h_match_token route0),
                 h_forward_token := map_option str_trim (h_forward_token route0),
                 h_expires_at := expires_at\<rparr>
           in case sign_sha256_secp256k1_der_hex (se_crypto env)
                    (se_text env (build_hop_route_payload (se_json env) (se_crypto env) method route)) (id_private_key identity) 200 of
                Inl e \<Rightarrow> Inl e
              | Inr sig \<Rightarrow> Inr (route\<lparr>h_signature := Some sig\<rparr>))"

definition metadata_to_json :: "('j, 't) cjson \<Rightarrow> portillia_lease_metadata \<Rightarrow> 'j" where
  "metadata_to_json api m =
     (let str = (\<lambda>k v. case v of None \<Rightarrow> [] | Some s \<Rightarrow> [(k, cj_string api s)])
      in cj_object api (
        str ''description'' (m_description m) @ str ''owner'' (m_owner m) @ str ''thumbnail'' (m_thumbnail m) @
        (case m_tags m of
           None \<Rightarrow> []
         | Some tags \<Rightarrow>
             if m_tags_count m > 0
             then [(''tags'', cj_array api (map (\<lambda>t. cj_string api (or_empty t)) (take (m_tags_count m) tags)))] else []) @
        [(''hide'', cj_bool api (m_hide m))]))"

definition hop_route_to_request_json ::
  "('j, 't) cjson \<Rightarrow> sdk_crypto \<Rightarrow> portillia_hop_route \<Rightarrow> portillia_identity option \<Rightarrow> 'j" where
  "hop_route_to_request_json api cr route identity =
     (let opt = (\<lambda>k v. if nonempty v then [(k, cj_string api (or_empty v))] else []);
          m = h_metadata route
      in cj_object api (
        [(''owner_public_key'', cj_string api (or_empty (h_owner_public_key route))),
         (''relay_url'', cj_string api (or_empty (h_relay_url route)))] @
        opt ''public_hostname'' (h_public_hostname route) @ opt ''route_hostname'' (h_route_hostname route) @
        opt ''hostname_hash'' (h_hostname_hash route) @ opt ''match_token'' (h_match_token route) @
        opt ''forward_token'' (h_forward_token route) @ opt ''signature'' (h_signature route) @
        (case identity of
           None \<Rightarrow> []
         | Some i \<Rightarrow> (case id_address i of None \<Rightarrow> [] | Some a \<Rightarrow> [(''identity'', cj_string api a)])) @
        (if m_description m \<noteq> None \<or> m_owner m \<noteq> None \<or> m_thumbnail m \<noteq> None \<or> m_hide m \<or> m_tags_count m > 0
         then [(''metadata'', metadata_to_json api m)] else []) @
        [(''forward_relay'', relay_descriptor_to_canonical_json api cr (h_forward_relay route) True)]))"

section \<open>Synchronising hop routes\<close>

definition overlay_lookup ::
  "('j, 't, 'w, 'r) sdk_env \<Rightarrow> ('r, 'k) portillia_relay_set \<Rightarrow> cstring option \<Rightarrow> portillia_relay_descriptor option" where
  "overlay_lookup env rset url =
     (case url of
        None \<Rightarrow> None
      | Some u \<Rightarrow> portillia_relay_set_overlay_descriptor (se_table env) rset u (se_now env) (se_now env))"

text \<open>Last hop first, each with the current descriptor of its next relay.\<close>

fun refresh_routes ::
  "(cstring option \<Rightarrow> portillia_relay_descriptor option) \<Rightarrow> portillia_hop_route list \<Rightarrow> portillia_hop_route list option" where
  "refresh_routes lookup [] = Some []"
| "refresh_routes lookup (r # rs) =
     (case lookup (d_api_https_addr (h_forward_relay r)) of
        None \<Rightarrow> None
      | Some d \<Rightarrow>
          map_option (\<lambda>rest. (portillia_hop_route_copy portillia_hop_route_init r)\<lparr>h_forward_relay := d\<rparr> # rest)
            (refresh_routes lookup rs))"

definition sync_route ::
  "('j, 't, 'w, 'r) sdk_env \<Rightarrow> portillia_http_client \<Rightarrow> cstring \<Rightarrow> time_t \<Rightarrow> portillia_identity option \<Rightarrow>
   portillia_hop_route \<Rightarrow> 'w \<Rightarrow> 'w \<times> sdk_errno option" where
  "sync_route env client method expires_at identity route0 w =
     (let is_post = (method = ''POST'');
          route = (portillia_hop_route_copy portillia_hop_route_init route0)
                    \<lparr>h_first_seen_at := (if is_post then expires_at - 300 else 0)\<rparr>;
          prepared = (case identity of
                        Some i \<Rightarrow> if is_post then sign_hop_route env method route i expires_at else Inr route
                      | None \<Rightarrow> if is_post then Inl EINVAL else Inr route)
      in case prepared of
           Inl e \<Rightarrow> (w, Some e)
         | Inr r \<Rightarrow>
             (case http_json env client (h_relay_url r) method SDK_PATH_HOP
                     (Some (cj_print (se_json env) (hop_route_to_request_json (se_json env) (se_crypto env) r identity))) w of
                (w', Inl e) \<Rightarrow> (w', Some e)
              | (w', Inr _) \<Rightarrow> (w', None)))"

text \<open>The loop: the first failure ends it when posting, the others are still tried when deleting.\<close>

fun sync_loop ::
  "(portillia_hop_route \<Rightarrow> 'w \<Rightarrow> 'w \<times> sdk_errno option) \<Rightarrow> bool \<Rightarrow> portillia_hop_route list \<Rightarrow> sdk_errno option \<Rightarrow> 'w \<Rightarrow>
   'w \<times> sdk_errno option" where
  "sync_loop step is_post [] rc w = (w, rc)"
| "sync_loop step is_post (r # rs) rc w =
     (case step r w of
        (w', None) \<Rightarrow> sync_loop step is_post rs rc w'
      | (w', Some e) \<Rightarrow> if is_post then (w', Some e) else sync_loop step is_post rs (Some e) w')"

definition portillia_api_sync_hop_routes ::
  "('j, 't, 'w, 'r) sdk_env \<Rightarrow> portillia_http_client \<Rightarrow> cstring \<Rightarrow> time_t \<Rightarrow> portillia_identity option \<Rightarrow>
   ('r, 'k) portillia_relay_set option \<Rightarrow> portillia_hop_route list \<Rightarrow> 'w \<Rightarrow> 'w \<times> sdk_errno option" where
  "portillia_api_sync_hop_routes env client method expires_at identity rset hops w =
     (if hops = [] then (w, None)
      else if method = ''POST'' then
        (case (identity, rset) of
           (Some _, Some s) \<Rightarrow>
             (case refresh_routes (overlay_lookup env s) (rev hops) of
                None \<Rightarrow> (w, Some ENOENT)
              | Some ordered \<Rightarrow> sync_loop (sync_route env client method expires_at identity) True ordered None w)
         | _ \<Rightarrow> (w, Some EINVAL))
      else sync_loop (sync_route env client method expires_at identity) False hops None w)"

section \<open>Unregistering and renewing\<close>

definition portillia_api_unregister_lease ::
  "('j, 't, 'w, 'r) sdk_env \<Rightarrow> portillia_http_client \<Rightarrow> cstring \<Rightarrow> portillia_hop_route list \<Rightarrow> 'w \<Rightarrow> 'w \<times> sdk_errno option" where
  "portillia_api_unregister_lease env client access_token hops w =
     (let w1 = fst (portillia_api_sync_hop_routes env client ''DELETE'' 0 None
                      (None :: ('r, unit) portillia_relay_set option) hops w)
      in case http_json env client None ''POST'' SDK_PATH_UNREGISTER
                (Some (cj_print (se_json env) (cj_object (se_json env)
                   [(''access_token'', cj_string (se_json env) access_token)]))) w1 of
           (w2, Inl e) \<Rightarrow> (w2, Some e)
         | (w2, Inr _) \<Rightarrow> (w2, None))"

definition renew_request :: "('j, 't) cjson \<Rightarrow> cstring \<Rightarrow> int \<Rightarrow> cstring option \<Rightarrow> 'j" where
  "renew_request api access_token ttl_sec reported_ip =
     cj_object api ([(''access_token'', cj_string api access_token), (''ttl'', cj_number api (double_of_int ttl_sec))] @
       (if nonempty reported_ip then [(''reported_ip'', cj_string api (or_empty reported_ip))] else []))"

definition portillia_api_renew_lease ::
  "('j, 't, 'w, 'r) sdk_env \<Rightarrow> portillia_http_client \<Rightarrow> int \<Rightarrow> cstring \<Rightarrow> cstring option \<Rightarrow> portillia_identity option \<Rightarrow>
   ('r, 'k) portillia_relay_set option \<Rightarrow> portillia_hop_route list \<Rightarrow> 'w \<Rightarrow> 'w \<times> (sdk_errno + portillia_renew_response)" where
  "portillia_api_renew_lease env client ttl_sec access_token reported_ip identity rset hops w =
     (case http_json env client None ''POST'' SDK_PATH_RENEW
             (Some (cj_print (se_json env) (renew_request (se_json env) access_token ttl_sec reported_ip))) w of
        (w1, Inl e) \<Rightarrow> (w1, Inl e)
      | (w1, Inr doc) \<Rightarrow>
          (case parse_renew_response_json (se_json env) doc of
             None \<Rightarrow> (w1, Inl EBADMSG)
           | Some resp \<Rightarrow>
               (case portillia_api_sync_hop_routes env client ''POST'' (nr_expires_at resp) identity rset hops w1 of
                  (w2, Some e) \<Rightarrow> (w2, Inl e)
                | (w2, None) \<Rightarrow> (w2, Inr resp))))"

section \<open>Multi-hop routes\<close>

text \<open>The descriptors of the relays of a path, each with the URL the code uses for it.\<close>

fun hop_path ::
  "(cstring option \<Rightarrow> portillia_relay_descriptor option) \<Rightarrow> cstring option list \<Rightarrow> (cstring \<times> portillia_relay_descriptor) list option"
  where
  "hop_path lookup [] = Some []"
| "hop_path lookup (u # us) =
     (case lookup u of
        None \<Rightarrow> None
      | Some d \<Rightarrow>
          map_option (\<lambda>rest. (case d_api_https_addr d of Some a \<Rightarrow> a | None \<Rightarrow> or_empty u, d) # rest) (hop_path lookup us))"

text \<open>One route per pair of neighbours: the first is found by the public hostname, the others by the token that the route
  before them forwards; the last token is that of the exit relay.\<close>

fun hop_routes ::
  "(nat \<Rightarrow> cstring \<Rightarrow> cstring \<Rightarrow> cstring option) \<Rightarrow> cstring \<Rightarrow> portillia_lease_metadata option \<Rightarrow> nat \<Rightarrow> cstring option \<Rightarrow>
   (cstring \<times> portillia_relay_descriptor) list \<Rightarrow> portillia_hop_route list \<times> cstring option" where
  "hop_routes derive public_hostname metadata i previous_token ((u, d) # (u', d') # path) =
     (let forward_token = snprintf_s 256 (''hpt_'' @ or_empty (derive i u u'));
          base = portillia_hop_route_init\<lparr>h_relay_url := Some (or_empty (normalize_relay_url (Some u))),
                   h_forward_relay := portillia_relay_descriptor_copy portillia_relay_descriptor_init d',
                   h_forward_token := Some forward_token\<rparr>;
          route = (if i = 0
                   then base\<lparr>h_public_hostname := Some public_hostname,
                     h_metadata := (case metadata of None \<Rightarrow> h_metadata base
                                    | Some m \<Rightarrow> portillia_lease_metadata_copy (h_metadata base) m)\<rparr>
                   else base\<lparr>h_match_token := previous_token\<rparr>);
          (routes, exit_token) = hop_routes derive public_hostname metadata (i + 1) (Some forward_token) ((u', d') # path)
      in (route # routes, exit_token))"
| "hop_routes derive public_hostname metadata i previous_token path = ([], previous_token)"

text \<open>Host part of a normalised URL, without its port.\<close>

definition entry_root_host :: "cstring \<Rightarrow> cstring" where
  "entry_root_host norm_entry =
     takeWhile (\<lambda>c. c \<noteq> CHR '':'') (takeWhile (\<lambda>c. c \<noteq> CHR ''/'') (drop 8 norm_entry))"

record hop_plan =
  hp_public_hostname :: cstring
  hp_root_host :: cstring
  hp_keyless_url :: cstring
  hp_routes :: "portillia_hop_route list"
  hp_exit_token :: "cstring option"

definition plan_hops ::
  "('j, 't, 'w, 'r) sdk_env \<Rightarrow> portillia_identity \<Rightarrow> portillia_lease_metadata option \<Rightarrow> ('r, 'k) portillia_relay_set option \<Rightarrow>
   cstring option list \<Rightarrow> sdk_errno + hop_plan" where
  "plan_hops env identity metadata rset multi_hop =
     (case rset of
        None \<Rightarrow> Inl EINVAL
      | Some s \<Rightarrow>
          if length multi_hop < 2 \<or> id_name identity = None then Inl EINVAL
          else case hop_path (overlay_lookup env s) multi_hop of
            None \<Rightarrow> Inl ENOENT
          | Some path \<Rightarrow>
              (case normalize_relay_url (Some (fst (hd path))) of
                 None \<Rightarrow> Inl EINVAL
               | Some norm_entry \<Rightarrow>
                   (case normalize_dns_label (id_name identity) of
                      None \<Rightarrow> Inl EINVAL
                    | Some label \<Rightarrow>
                        let norm_root = sdk_normalize_hostname (Some (entry_root_host norm_entry));
                            public_hostname = label @ ''.'' @ norm_root;
                            derive = derive_hop_token (sc_hmac_sha256 (se_crypto env)) (sc_encode_block (se_crypto env))
                                       identity public_hostname;
                            (routes, exit_token) = hop_routes derive public_hostname metadata 0 None path
                        in Inr \<lparr>hp_public_hostname = public_hostname, hp_root_host = norm_root, hp_keyless_url = norm_entry,
                                hp_routes = routes, hp_exit_token = exit_token\<rparr>)))"

section \<open>Registering\<close>

text \<open>The address that belongs to the private key, or else the configured one.\<close>

definition sdk_identity_address :: "sdk_crypto \<Rightarrow> portillia_identity \<Rightarrow> cstring" where
  "sdk_identity_address cr identity =
     (case id_private_key identity of
        None \<Rightarrow> or_empty (id_address identity)
      | Some key \<Rightarrow>
          (case derive_address_from_private_key cr key of
             None \<Rightarrow> or_empty (id_address identity)
           | Some a \<Rightarrow> a))"

definition identity_to_json :: "('j, 't) cjson \<Rightarrow> portillia_identity \<Rightarrow> cstring \<Rightarrow> 'j" where
  "identity_to_json api identity address =
     cj_object api [(''name'', cj_string api (or_empty (id_name identity))), (''address'', cj_string api address)]"

text \<open>Route hostname and hostname hash, as the bridge computes them.\<close>

definition stream_materials :: "('j, 't) cjson \<Rightarrow> 't option \<Rightarrow> cstring option \<times> cstring option" where
  "stream_materials api text =
     (case text of
        None \<Rightarrow> (None, None)
      | Some t \<Rightarrow>
          (case cj_parse api t of
             None \<Rightarrow> (None, None)
           | Some ej \<Rightarrow> (str_member api ej ''route_hostname'', str_member api ej ''hostname_hash'')))"

definition add_ech_materials ::
  "('j, 't, 'w, 'r) sdk_env \<Rightarrow> portillia_identity \<Rightarrow> cstring \<Rightarrow> bool \<Rightarrow> hop_plan \<Rightarrow> hop_plan" where
  "add_ech_materials env identity address stream plan =
     (case hp_routes plan of
        [] \<Rightarrow> plan
      | r # rs \<Rightarrow>
          if stream then
            let (rh, hh) = stream_materials (se_json env) (se_ech env
                  (cj_print (se_json env) (identity_to_json (se_json env) identity address)) (hp_public_hostname plan) (hp_root_host plan))
            in plan\<lparr>hp_routes := r\<lparr>h_route_hostname := dup_into (h_route_hostname r) rh,
                  h_hostname_hash := dup_into (h_hostname_hash r) hh\<rparr> # rs\<rparr>
          else plan)"

definition challenge_request ::
  "('j, 't) cjson \<Rightarrow> portillia_identity \<Rightarrow> cstring \<Rightarrow> portillia_lease_metadata option \<Rightarrow> int \<Rightarrow> bool \<Rightarrow> bool \<Rightarrow>
   cstring option \<Rightarrow> cstring option \<Rightarrow> cstring option \<Rightarrow> 'j" where
  "challenge_request api identity address metadata ttl_sec udp_enabled tcp_enabled hop_token route_hostname hostname_hash =
     (let opt = (\<lambda>k v. case v of None \<Rightarrow> [] | Some s \<Rightarrow> [(k, cj_string api s)])
      in cj_object api (
        [(''identity'', identity_to_json api identity address)] @
        (case metadata of None \<Rightarrow> [] | Some m \<Rightarrow> [(''metadata'', metadata_to_json api m)]) @
        [(''ttl'', cj_number api (double_of_int ttl_sec)), (''udp_enabled'', cj_bool api udp_enabled),
         (''tcp_enabled'', cj_bool api tcp_enabled)] @
        opt ''hop_token'' hop_token @ opt ''route_hostname'' route_hostname @ opt ''hostname_hash'' hostname_hash))"

definition register_request :: "('j, 't) cjson \<Rightarrow> portillia_register_challenge_response \<Rightarrow> cstring \<Rightarrow> 'j" where
  "register_request api ch signature =
     cj_object api [(''challenge_id'', cj_string api (cr_challenge_id ch)), (''siwe_message'', cj_string api (cr_siwe_message ch)),
       (''siwe_signature'', cj_string api signature)]"

text \<open>Answering the challenge.\<close>

definition answer_challenge ::
  "('j, 't, 'w, 'r) sdk_env \<Rightarrow> portillia_http_client \<Rightarrow> portillia_identity \<Rightarrow> portillia_register_challenge_response \<Rightarrow> 'w \<Rightarrow>
   'w \<times> (sdk_errno + portillia_register_response)" where
  "answer_challenge env client identity ch w =
     (case sign_siwe (se_crypto env) (cr_siwe_message ch) (id_private_key identity) of
        Inl e \<Rightarrow> (w, Inl e)
      | Inr sig \<Rightarrow>
          (case http_json env client None ''POST'' SDK_PATH_REGISTER
                  (Some (cj_print (se_json env) (register_request (se_json env) ch sig))) w of
             (w', Inl e) \<Rightarrow> (w', Inl e)
           | (w', Inr doc) \<Rightarrow>
               (case parse_register_response_json (se_json env) doc of
                  None \<Rightarrow> (w', Inl EBADMSG)
                | Some resp \<Rightarrow> (w', Inr resp))))"

definition install_hops ::
  "('j, 't, 'w, 'r) sdk_env \<Rightarrow> portillia_http_client \<Rightarrow> portillia_identity \<Rightarrow> ('r, 'k) portillia_relay_set option \<Rightarrow>
   hop_plan option \<Rightarrow> portillia_register_response \<Rightarrow> 'w \<Rightarrow> 'w \<times> (sdk_errno + portillia_register_response \<times> portillia_hop_route list)"
  where
  "install_hops env client identity rset plan resp w =
     (case plan of
        None \<Rightarrow> (w, Inr (resp, []))
      | Some p \<Rightarrow>
          (case portillia_api_sync_hop_routes env client ''POST'' (rr_expires_at resp) (Some identity) rset (hp_routes p) w of
             (w', Some _) \<Rightarrow> (fst (portillia_api_unregister_lease env client (rr_access_token resp) (hp_routes p) w'), Inl EIO)
           | (w', None) \<Rightarrow>
               (w', Inr (resp\<lparr>rr_hostname := hp_public_hostname p, rr_keyless_url := Some (hp_keyless_url p)\<rparr>, hp_routes p))))"

definition portillia_api_register_lease ::
  "('j, 't, 'w, 'r) sdk_env \<Rightarrow> portillia_http_client \<Rightarrow> portillia_identity \<Rightarrow> portillia_lease_metadata option \<Rightarrow>
   ('r, 'k) portillia_relay_set option \<Rightarrow> cstring option list \<Rightarrow> int \<Rightarrow> bool \<Rightarrow> bool \<Rightarrow> 'w \<Rightarrow>
   'w \<times> (sdk_errno + portillia_register_response \<times> portillia_hop_route list)" where
  "portillia_api_register_lease env client identity metadata rset multi_hop ttl_sec udp_enabled tcp_enabled w =
     (let api = se_json env;
          address = sdk_identity_address (se_crypto env) identity;
          stream = (\<not> udp_enabled \<and> \<not> tcp_enabled);
          planned = (if multi_hop = [] then Inr None
                     else map_sum id (\<lambda>p. Some (add_ech_materials env identity address stream p))
                            (plan_hops env identity metadata rset multi_hop));
          (route_hostname, hostname_hash) =
            (if stream \<and> multi_hop = []
             then stream_materials api (se_extras env (cj_print api (identity_to_json api identity address)) (hc_relay_url client))
             else (None, None))
      in case planned of
           Inl e \<Rightarrow> (w, Inl e)
         | Inr plan \<Rightarrow>
             (case http_json env client None ''POST'' SDK_PATH_REGISTER_CHALLENGE
                     (Some (cj_print api (challenge_request api identity address metadata ttl_sec udp_enabled tcp_enabled
                        (case plan of None \<Rightarrow> None | Some p \<Rightarrow> hp_exit_token p) route_hostname hostname_hash))) w of
                (w1, Inl e) \<Rightarrow> (w1, Inl e)
              | (w1, Inr doc) \<Rightarrow>
                  (case parse_register_challenge_response_json api doc of
                     None \<Rightarrow> (w1, Inl EBADMSG)
                   | Some ch \<Rightarrow>
                       (case answer_challenge env client identity ch w1 of
                          (w2, Inl e) \<Rightarrow> (w2, Inl e)
                        | (w2, Inr resp) \<Rightarrow> install_hops env client identity rset plan resp w2))))"

section \<open>Discovery\<close>

definition parse_relay_descriptor_json :: "('j, 't) cjson \<Rightarrow> 'j \<Rightarrow> portillia_relay_descriptor" where
  "parse_relay_descriptor_json api obj =
     portillia_relay_descriptor_init\<lparr>d_address := str_member api obj ''address'', d_version := str_member api obj ''version'',
       d_issued_at := time_member api obj ''issued_at'', d_expires_at := time_member api obj ''expires_at'',
       d_api_https_addr := str_member api obj ''api_https_addr'', d_wireguard_public_key := str_member api obj ''wireguard_public_key'',
       d_wireguard_port := (case int_member api obj ''wireguard_port'' of None \<Rightarrow> 0 | Some p \<Rightarrow> p),
       d_supports_overlay := bool_member api obj ''supports_overlay'', d_supports_udp := bool_member api obj ''supports_udp'',
       d_supports_tcp := bool_member api obj ''supports_tcp'',
       d_active_connections := (case num_member api obj ''active_connections'' of None \<Rightarrow> 0 | Some r \<Rightarrow> int_of_double r),
       d_tcp_bps := (case num_member api obj ''tcp_bps'' of None \<Rightarrow> 0 | Some r \<Rightarrow> r),
       d_signature := str_member api obj ''signature''\<rparr>"

definition portillia_api_discover_relays ::
  "('j, 't, 'w, 'r) sdk_env \<Rightarrow> portillia_http_client \<Rightarrow> 'w \<Rightarrow>
   'w \<times> (sdk_errno + cstring option \<times> time_t \<times> portillia_relay_descriptor list)" where
  "portillia_api_discover_relays env client w =
     (case http_json env client None ''GET'' SDK_PATH_DISCOVERY None w of
        (w', Inl e) \<Rightarrow> (w', Inl e)
      | (w', Inr None) \<Rightarrow> (w', Inr (None, 0, []))
      | (w', Inr (Some doc)) \<Rightarrow>
          let api = se_json env; data = envelope_data_or_root api doc
          in (w', Inr (str_member api data ''protocol_version'', time_member api data ''generated_at'',
                (case cj_get api data ''relays'' of
                   None \<Rightarrow> []
                 | Some relays \<Rightarrow>
                     if cj_is_array api relays then map (parse_relay_descriptor_json api) (cj_items api relays) else []))))"

end
