(* ===== verification/Sdk_Flow.thy ===== *)
theory Sdk_Flow
  imports Sdk_Client Admin_Api
begin

text \<open>
  The SDK against the relay: what the client of \<^verbatim>\<open>src/sdk/api_client.c\<close> sends is what the handlers of
  \<^verbatim>\<open>src/portal/api_server.c\<close> read. Registration, renewal and hop routes are followed from the call of the
  SDK through the handlers and back; the multi-hop plan is shown to be a chain.
\<close>

section \<open>The plan of a multi-hop route is a chain\<close>

text \<open>Route \<open>k\<close> is for the relay at position \<open>k\<close> of the path and forwards to the one at \<open>k + 1\<close>; each but the first is found by
  the token that the one before it forwards.\<close>

definition hop_chain ::
  "cstring \<Rightarrow> (cstring \<times> portillia_relay_descriptor) list \<Rightarrow> portillia_hop_route list \<Rightarrow> cstring option \<Rightarrow> bool" where
  "hop_chain host path routes exit_token \<longleftrightarrow>
     length routes + 1 = length path \<and>
     (\<forall>k < length routes. h_forward_relay (routes ! k) = portillia_relay_descriptor_copy portillia_relay_descriptor_init (snd (path ! (k + 1))) \<and>
        h_relay_url (routes ! k) = Some (or_empty (normalize_relay_url (Some (fst (path ! k)))))) \<and>
     (\<forall>k. Suc k < length routes \<longrightarrow> h_match_token (routes ! Suc k) = h_forward_token (routes ! k) \<and> h_public_hostname (routes ! Suc k) = None) \<and>
     h_public_hostname (hd routes) = Some host \<and> h_match_token (hd routes) = None \<and>
     exit_token = h_forward_token (last routes)"

lemma hop_routes_simps [simp]:
  "hop_routes derive host metadata i prev [] = ([], prev)" "hop_routes derive host metadata i prev [x] = ([], prev)"
  by (cases x; simp)+

lemma hop_routes_step:
  assumes "hop_routes derive host metadata i prev ((u, d) # (u', d') # path) = (routes, exit_token)"
  obtains r rs where "routes = r # rs" "hop_routes derive host metadata (i + 1) (h_forward_token r) ((u', d') # path) = (rs, exit_token)"
    "h_forward_relay r = portillia_relay_descriptor_copy portillia_relay_descriptor_init d'"
    "h_relay_url r = Some (or_empty (normalize_relay_url (Some u)))"
    "h_public_hostname r = (if i = 0 then Some host else None)" "h_match_token r = (if i = 0 then None else prev)"
proof -
  define tok where "tok = snprintf_s 256 (''hpt_'' @ or_empty (derive i u u'))"
  obtain rs e where rest: "hop_routes derive host metadata (i + 1) (Some tok) ((u', d') # path) = (rs, e)" by fastforce
  define base where "base = portillia_hop_route_init\<lparr>h_relay_url := Some (or_empty (normalize_relay_url (Some u))),
     h_forward_relay := portillia_relay_descriptor_copy portillia_relay_descriptor_init d', h_forward_token := Some tok\<rparr>"
  define r where "r = (if i = 0 then base\<lparr>h_public_hostname := Some host,
       h_metadata := (case metadata of None \<Rightarrow> h_metadata base | Some m \<Rightarrow> portillia_lease_metadata_copy (h_metadata base) m)\<rparr>
     else base\<lparr>h_match_token := prev\<rparr>)"
  have "routes = r # rs" "exit_token = e"
    using assms unfolding hop_routes.simps(1) tok_def [symmetric] base_def [symmetric] rest Let_def prod.case r_def by blast+
  then show thesis
    using rest by (intro that) (auto simp: r_def base_def portillia_hop_route_init_def)
qed

lemma hop_routes_chain:
  assumes "hop_routes derive host metadata i prev path = (routes, exit_token)" "2 \<le> length path"
  shows "length routes + 1 = length path \<and>
    (\<forall>k < length routes. h_forward_relay (routes ! k) = portillia_relay_descriptor_copy portillia_relay_descriptor_init (snd (path ! (k + 1))) \<and>
       h_relay_url (routes ! k) = Some (or_empty (normalize_relay_url (Some (fst (path ! k)))))) \<and>
    (\<forall>k. Suc k < length routes \<longrightarrow> h_match_token (routes ! Suc k) = h_forward_token (routes ! k) \<and> h_public_hostname (routes ! Suc k) = None) \<and>
    h_public_hostname (hd routes) = (if i = 0 then Some host else None) \<and>
    h_match_token (hd routes) = (if i = 0 then None else prev) \<and> exit_token = h_forward_token (last routes)"
  using assms
proof (induction path arbitrary: i prev routes exit_token rule: induct_list012)
  case (3 x y path)
  obtain u d u' d' where xy: "x = (u, d)" "y = (u', d')" by (cases x; cases y)
  obtain r rs where routes: "routes = r # rs"
    and rest: "hop_routes derive host metadata (i + 1) (h_forward_token r) (y # path) = (rs, exit_token)"
    and r: "h_forward_relay r = portillia_relay_descriptor_copy portillia_relay_descriptor_init d'"
      "h_relay_url r = Some (or_empty (normalize_relay_url (Some u)))"
      "h_public_hostname r = (if i = 0 then Some host else None)" "h_match_token r = (if i = 0 then None else prev)"
    using "3.prems"(1) unfolding xy by (rule hop_routes_step)
  show ?case
  proof (cases path)
    case Nil
    then show ?thesis using rest r routes xy by simp
  next
    case (Cons z path')
    note IH = "3.IH"(2) [OF rest] and rest
    then obtain r' rs' where rs: "rs = r' # rs'" using Cons by (cases rs) auto
    show ?thesis
      using IH r xy Cons unfolding routes rs by (simp add: All_less_Suc2)
  qed
qed auto

lemma hop_path_length: "hop_path lookup us = Some path \<Longrightarrow> length path = length us"
  by (induction us arbitrary: path) (auto split: option.splits)

text \<open>C26. A multi-hop plan is a chain: one route per pair of neighbouring relays, route \<open>k\<close> addressed to relay \<open>k\<close> and forwarding to relay
  \<open>k + 1\<close>; the first is found by the public hostname only, each later one by exactly the token the route before it
  forwards, and the token left over for the exit relay is the one the last route forwards.\<close>

theorem hop_plan_chains:
  assumes "plan_hops env identity metadata (Some s) multi_hop = Inr p"
  shows "\<exists>path. hop_path (overlay_lookup env s) multi_hop = Some path \<and>
    hop_chain (hp_public_hostname p) path (hp_routes p) (hp_exit_token p)"
proof -
  from assms obtain path label entry where path: "hop_path (overlay_lookup env s) multi_hop = Some path" "2 \<le> length multi_hop"
    and p: "hop_routes (derive_hop_token (sc_hmac_sha256 (se_crypto env)) (sc_encode_block (se_crypto env)) identity (hp_public_hostname p))
      (hp_public_hostname p) metadata 0 None path = (hp_routes p, hp_exit_token p)"
    by (auto simp: plan_hops_def Let_def split: option.splits if_splits prod.splits)
  then show ?thesis
    using hop_routes_chain [OF p] hop_path_length [OF path(1)] by (auto simp: hop_chain_def)
qed

section \<open>Reading what the client wrote\<close>

lemma find_append [simp]: "find P (xs @ ys) = (case find P xs of None \<Rightarrow> find P ys | Some x \<Rightarrow> Some x)"
  by (induction xs) auto

text \<open>The keys are in lower case, so that looking a member up compares them as they are.\<close>

lemma lower_keys [simp]:
  "str_tolower ''identity'' = ''identity''" "str_tolower ''name'' = ''name''" "str_tolower ''address'' = ''address''"
  "str_tolower ''data'' = ''data''" "str_tolower ''ok'' = ''ok''" "str_tolower ''ttl'' = ''ttl''"
  "str_tolower ''metadata'' = ''metadata''" "str_tolower ''udp_enabled'' = ''udp_enabled''"
  "str_tolower ''tcp_enabled'' = ''tcp_enabled''" "str_tolower ''hop_token'' = ''hop_token''"
  "str_tolower ''route_hostname'' = ''route_hostname''" "str_tolower ''hostname_hash'' = ''hostname_hash''"
  "str_tolower ''challenge_id'' = ''challenge_id''" "str_tolower ''siwe_message'' = ''siwe_message''"
  "str_tolower ''siwe_signature'' = ''siwe_signature''" "str_tolower ''expires_at'' = ''expires_at''"
  "str_tolower ''access_token'' = ''access_token''" "str_tolower ''hostname'' = ''hostname''"
  "str_tolower ''keyless_url'' = ''keyless_url''" "str_tolower ''sni_port'' = ''sni_port''"
  "str_tolower ''udp_addr'' = ''udp_addr''" "str_tolower ''tcp_addr'' = ''tcp_addr''"
  "str_tolower ''reverse_endpoint'' = ''reverse_endpoint''" "str_tolower ''reported_ip'' = ''reported_ip''"
  "str_tolower ''bps_limit'' = ''bps_limit''" "str_tolower ''protocol_version'' = ''protocol_version''"
  "str_tolower ''release_version'' = ''release_version''" "str_tolower ''owner_public_key'' = ''owner_public_key''"
  "str_tolower ''relay_url'' = ''relay_url''" "str_tolower ''public_hostname'' = ''public_hostname''"
  "str_tolower ''match_token'' = ''match_token''" "str_tolower ''match_hostname'' = ''match_hostname''"
  "str_tolower ''forward_token'' = ''forward_token''" "str_tolower ''forward_relay'' = ''forward_relay''"
  "str_tolower ''signature'' = ''signature''" "str_tolower ''wireguard_ipv4'' = ''wireguard_ipv4''"
  "str_tolower ''version'' = ''version''" "str_tolower ''issued_at_unix_nano'' = ''issued_at_unix_nano''"
  "str_tolower ''expires_at_unix_nano'' = ''expires_at_unix_nano''" "str_tolower ''api_https_addr'' = ''api_https_addr''"
  "str_tolower ''wireguard_public_key'' = ''wireguard_public_key''" "str_tolower ''wireguard_port'' = ''wireguard_port''"
  "str_tolower ''supports_overlay'' = ''supports_overlay''" "str_tolower ''supports_udp'' = ''supports_udp''"
  "str_tolower ''supports_tcp'' = ''supports_tcp''" "str_tolower ''active_connections'' = ''active_connections''"
  "str_tolower ''tcp_bps'' = ''tcp_bps''"
  by (simp_all add: str_tolower_def char_tolower_def char_code_def)

section \<open>Hop routes\<close>

text \<open>Members that are there only sometimes.\<close>

definition opt_field :: "cstring \<Rightarrow> json option \<Rightarrow> (cstring \<times> json) list" where
  "opt_field k v = (case v of None \<Rightarrow> [] | Some x \<Rightarrow> [(k, x)])"

definition opt_text :: "cstring option \<Rightarrow> json option" where
  "opt_text v = (if nonempty v then Some (JString (or_empty v)) else None)"

lemma find_opt_field [simp]:
  "find (\<lambda>(k', _). str_tolower k' = key) (opt_field k v) = (if str_tolower k = key then map_option (Pair k) v else None)"
  by (simp add: opt_field_def split: option.splits)

lemma opt_field_view:
  assumes "cjson_laws api view"
  shows "map (\<lambda>(k, j). (k, view j)) (if nonempty v then [(k, cj_string api (or_empty v))] else []) = opt_field k (opt_text v)"
    "map (\<lambda>(k, j). (k, view j)) (if b then [(k, j)] else []) = opt_field k (if b then Some (view j) else None)"
    "map (\<lambda>(k, j). (k, view j)) (case v of None \<Rightarrow> [] | Some s \<Rightarrow> [(k, cj_string api s)]) = opt_field k (map_option JString v)"
    "map (\<lambda>(k, j). (k, view j)) (case m of None \<Rightarrow> [] | Some x \<Rightarrow> [(k, f x)]) = opt_field k (map_option (\<lambda>x. view (f x)) m)"
    "map (\<lambda>(k, j). (k, view j)) (case i of None \<Rightarrow> [] | Some i \<Rightarrow> (case id_address i of None \<Rightarrow> [] | Some s \<Rightarrow> [(k, cj_string api s)])) =
       opt_field k (map_option JString (case i of None \<Rightarrow> None | Some i \<Rightarrow> id_address i))"
  by (auto simp: opt_field_def opt_text_def cjson_view [OF assms] nonempty_def or_empty_def split: option.splits)

lemma hop_request_members:
  assumes "cjson_laws api view" "view doc = view (hop_route_to_request_json api cr r i)"
  shows "json_get (view doc) ''identity'' = map_option JString (case i of None \<Rightarrow> None | Some i \<Rightarrow> id_address i)"
    "json_get (view doc) ''forward_token'' = opt_text (h_forward_token r)"
    "json_get (view doc) ''public_hostname'' = opt_text (h_public_hostname r)"
    "json_get (view doc) ''match_token'' = opt_text (h_match_token r)"
    "json_get (view doc) ''match_hostname'' = None"
    "json_get (view doc) ''forward_relay'' = Some (view (relay_descriptor_to_canonical_json api cr (h_forward_relay r) True))"
  unfolding assms(2) hop_route_to_request_json_def Let_def cjson_view [OF assms(1)] map_append opt_field_view [OF assms(1)]
  by (simp_all add: cjson_view [OF assms(1)] opt_text_def cong: option.case_cong split: option.split)

lemma overlay_member:
  assumes "cjson_laws api view" "nonempty (d_wireguard_public_key d)"
  shows "json_get (view (relay_descriptor_to_canonical_json api cr d True)) ''wireguard_ipv4'' =
    Some (JString (portillia_crypto_derive_overlay_ipv4 (sc_sha256 cr) (or_empty (d_wireguard_public_key d))))"
  using assms(2) unfolding relay_descriptor_to_canonical_json_def Let_def json_add_time_unix_nano_def
  by (simp add: cjson_view [OF assms(1)])

text \<open>The key under which the relay files a route: the public hostname for the first, the match token for the others.\<close>

definition route_key :: "portillia_hop_route \<Rightarrow> cstring" where
  "route_key r = (if nonempty (h_public_hostname r) then or_empty (h_public_hostname r) else or_empty (h_match_token r))"

lemma hop_request_handled:
  assumes laws: "cjson_laws (ae_json env) view"
    and body: "rq_body req = Some (cj_print (ae_json env) (hop_route_to_request_json (ae_json env) cr r (Some i)))"
    and fields: "id_address i = Some a" "h_forward_token r = Some t" "t \<noteq> []" "nonempty (d_wireguard_public_key (h_forward_relay r))"
      "route_key r \<noteq> []"
  shows "handle_hop env st req res = Some (st\<lparr>ap_server := (ap_server st)\<lparr>sv_registry :=
    portillia_registry_register_hop (sv_registry (ap_server st)) (route_key r)
      (portillia_crypto_derive_overlay_ipv4 (sc_sha256 cr) (or_empty (d_wireguard_public_key (h_forward_relay r)))) t a (ae_now env)\<rparr>\<rparr>,
    content_json (res\<lparr>rp_body := Body_ok\<rparr>))"
proof -
  let ?api = "ae_json env"
  obtain doc where doc: "cj_parse ?api (cj_print ?api (hop_route_to_request_json ?api cr r (Some i))) = Some doc"
    and v: "view doc = view (hop_route_to_request_json ?api cr r (Some i))"
    by (rule cjson_print_parse [OF laws])
  note m = hop_request_members [OF laws v]
  obtain x where x: "cj_get ?api doc ''identity'' = Some x" "view x = JString a"
    by (rule cjson_get_Some [OF laws, of doc "''identity''" "JString a"]) (simp_all add: m fields opt_text_def)
  obtain y where y: "cj_get ?api doc ''forward_token'' = Some y" "view y = JString t"
    by (rule cjson_get_Some [OF laws, of doc "''forward_token''" "JString t"]) (simp_all add: m fields opt_text_def)
  obtain z where z: "cj_get ?api doc ''forward_relay'' = Some z"
      "view z = view (relay_descriptor_to_canonical_json ?api cr (h_forward_relay r) True)"
    by (rule cjson_get_Some [OF laws m(6)])
  obtain n where n: "cj_get ?api z ''wireguard_ipv4'' = Some n"
      "view n = JString (portillia_crypto_derive_overlay_ipv4 (sc_sha256 cr) (or_empty (d_wireguard_public_key (h_forward_relay r))))"
    by (rule cjson_get_Some [OF laws overlay_member [OF laws fields(4), of cr, folded z(2)]])
  have val: "(case cj_get ?api doc k of None \<Rightarrow> None | Some x \<Rightarrow> cj_valuestring ?api x) =
      (case json_get (view doc) k of None \<Rightarrow> None | Some v \<Rightarrow> json_string v)" for k
    by (rule member_cases [OF laws, of doc k]) (simp_all add: cjson_read(3) [OF laws])
  have "hop_key ?api doc = Some (route_key r)"
    using fields(5) unfolding hop_key_def Let_def val m route_key_def
    by (auto simp: opt_text_def nonempty_def or_empty_def split: option.splits if_splits)
  then show ?thesis
    using body doc x y z n
    by (simp add: handle_hop_def Let_def register_hop_def cjson_read(3) [OF laws] split: option.splits)
qed

definition install_route ::
  "('j, 't) api_env \<Rightarrow> sdk_crypto \<Rightarrow> portillia_identity \<Rightarrow> portillia_hop_route \<Rightarrow> 't http_request \<Rightarrow> bool" where
  "install_route env cr i r req \<longleftrightarrow>
     rq_body req = Some (cj_print (ae_json env) (hop_route_to_request_json (ae_json env) cr r (Some i))) \<and>
     id_address i \<noteq> None \<and> nonempty (h_forward_token r) \<and> nonempty (d_wireguard_public_key (h_forward_relay r)) \<and> route_key r \<noteq> []"

lemma install_route_record:
  assumes laws: "cjson_laws (ae_json env) view" and inst: "install_route env cr i r req"
    and fresh: "first_index (\<lambda>rec. lr_hop_token rec = Some (route_key r)) (rg_records (sv_registry (ap_server st))) = None"
    and room: "length (rg_records (sv_registry (ap_server st))) < MAX_RECORDS"
    and hop: "handle_hop env st req res = Some (st', res')"
  obtains addr where "rg_records (sv_registry (ap_server st')) = rg_records (sv_registry (ap_server st)) @
      [new_hop addr (ae_now env) (route_key r)
        (portillia_crypto_derive_overlay_ipv4 (sc_sha256 cr) (or_empty (d_wireguard_public_key (h_forward_relay r))))
        (or_empty (h_forward_token r)) (or_empty (id_address i))]"
    "rg_root_hostname (sv_registry (ap_server st')) = rg_root_hostname (sv_registry (ap_server st))"
proof -
  from inst obtain a t where "id_address i = Some a" "h_forward_token r = Some t" "t \<noteq> []"
    unfolding install_route_def nonempty_def by (cases "id_address i"; cases "h_forward_token r") auto
  moreover from this inst have "handle_hop env st req res = Some (st\<lparr>ap_server := (ap_server st)\<lparr>sv_registry :=
    portillia_registry_register_hop (sv_registry (ap_server st)) (route_key r)
      (portillia_crypto_derive_overlay_ipv4 (sc_sha256 cr) (or_empty (d_wireguard_public_key (h_forward_relay r)))) t a (ae_now env)\<rparr>\<rparr>,
    content_json (res\<lparr>rp_body := Body_ok\<rparr>))"
    using hop_request_handled [OF laws, of req cr r i a t st res] unfolding install_route_def by blast
  ultimately show thesis
    using fresh room hop that by (auto simp: portillia_registry_register_hop_def append_record_def)
qed

text \<open>A middle relay forwards: once the SDK's request for a route has been handled, a hop stream that presents the route's match
  token is dialled on to the overlay address derived from the key of the next relay, with the token the
  route forwards, and bridged.\<close>

theorem middle_hop_forwards:
  assumes laws: "cjson_laws (ae_json env) view" and inst: "install_route env cr i r req"
    and fresh: "first_index (\<lambda>rec. lr_hop_token rec = Some (route_key r)) (rg_records (sv_registry (ap_server st))) = None"
    and room: "length (rg_records (sv_registry (ap_server st))) < MAX_RECORDS"
    and hop: "handle_hop env st req res = Some (st', res')"
    and later: "he_now henv < ae_now env + 300"
    and dial: "he_dial henv (portillia_crypto_derive_overlay_ipv4 (sc_sha256 cr) (or_empty (d_wireguard_public_key (h_forward_relay r))))
      (or_empty (h_forward_token r)) = fd" "0 \<le> fd"
  shows "portillia_server_handle_hop_stream sha256 henv (ap_server st') (route_key r) hop_fd =
    Some (start_bridge hop_fd (To_hop fd) 0 (ap_server st'))"
proof -
  obtain addr where recs: "rg_records (sv_registry (ap_server st')) = rg_records (sv_registry (ap_server st)) @
      [new_hop addr (ae_now env) (route_key r)
        (portillia_crypto_derive_overlay_ipv4 (sc_sha256 cr) (or_empty (d_wireguard_public_key (h_forward_relay r))))
        (or_empty (h_forward_token r)) (or_empty (id_address i))]"
    by (rule install_route_record [OF laws inst fresh room hop])
  have "find (\<lambda>rec. lr_hop_token rec = Some (route_key r) \<and> he_now henv < lr_expires_at rec) (rg_records (sv_registry (ap_server st))) = None"
    using fresh by (auto simp: find_None_iff first_index_None)
  then show ?thesis
    using later dial
    by (simp add: portillia_server_handle_hop_stream_def lease_registry_lookup_hop_def live_match_def recs new_hop_def
        route_record_def Let_def)
qed

text \<open>The entry relay of a multi-hop route turns browsers away: the route is installed under the public hostname, but as a hop
  token, which the lookup by hostname does not consult. When no lease has that hostname, a browser that connects for it is
  closed although the route was accepted.\<close>

theorem entry_hop_unreachable:
  assumes laws: "cjson_laws (ae_json env) view" and inst: "install_route env cr i r req" and first: "h_public_hostname r = Some host"
    and fresh: "first_index (\<lambda>rec. lr_hop_token rec = Some (route_key r)) (rg_records (sv_registry (ap_server st))) = None"
    and room: "length (rg_records (sv_registry (ap_server st))) < MAX_RECORDS"
    and hop: "handle_hop env st req res = Some (st', res')"
    and no_lease: "host \<noteq> rg_root_hostname (sv_registry (ap_server st))"
      "lease_registry_lookup hostname_hash (sv_registry (ap_server st)) host (he_now henv) = None"
  shows "portillia_server_handle_connect sha256 hostname_hash henv (ap_server st') host client_fd =
    Some (close_fds [client_fd] (ap_server st'))"
proof -
  obtain addr where recs: "rg_records (sv_registry (ap_server st')) = rg_records (sv_registry (ap_server st)) @
      [new_hop addr (ae_now env) (route_key r)
        (portillia_crypto_derive_overlay_ipv4 (sc_sha256 cr) (or_empty (d_wireguard_public_key (h_forward_relay r))))
        (or_empty (h_forward_token r)) (or_empty (id_address i))]"
      "rg_root_hostname (sv_registry (ap_server st')) = rg_root_hostname (sv_registry (ap_server st))"
    by (rule install_route_record [OF laws inst fresh room hop])
  have "live_match now P (sv_registry (ap_server st')) = live_match now P (sv_registry (ap_server st))"
    if "\<And>rec. lr_hostname rec = None \<Longrightarrow> lr_hostname_hash rec = None \<Longrightarrow> \<not> P rec" for now P
    using that [of "new_hop _ _ _ _ _ _"]
    by (simp add: live_match_def recs new_hop_def split: option.splits)
  moreover have "\<not> hostname_matches None h" for h by (simp add: hostname_matches_def)
  ultimately have "lease_registry_lookup hostname_hash (sv_registry (ap_server st')) host (he_now henv) = None"
    using no_lease(2) unfolding lease_registry_lookup_def by (simp split: option.splits)
  then show ?thesis
    using no_lease(1) recs(2) by (simp add: portillia_server_handle_connect_def)
qed

section \<open>The relay as the network of the SDK\<close>

text \<open>What the HTTP framework adds to a handler: the headers and the peer of a request, the number of a status and the text of a
  body. The versions are those of the manifest of the relay.\<close>

record 't relay_link =
  lk_header :: "cstring \<Rightarrow> cstring option"
  lk_peer :: "cstring option"
  lk_status :: "http_status \<Rightarrow> int"
  lk_render :: "'t http_body \<Rightarrow> 't option"
  lk_versions :: "cstring \<times> cstring"

definition link_laws :: "'t relay_link \<Rightarrow> bool" where
  "link_laws lk \<longleftrightarrow> (\<forall>n. lk_status lk (Http_code n) = n) \<and> (\<forall>t. lk_render lk (Body_json t) = Some t)"

text \<open>The POST routes of the SDK endpoints; a request that no route takes, or whose handler fails, yields no reply.\<close>

definition sdk_routes ::
  "('j, 't) api_env \<Rightarrow> cstring \<Rightarrow> api_state \<Rightarrow> 't http_request \<Rightarrow> (api_state \<times> 't http_response) option" where
  "sdk_routes env path st req =
     (if rq_method req \<noteq> CWIST_HTTP_POST then None
      else if path = ''/sdk/register/challenge'' then Some (handle_register_challenge env st req fresh_response)
      else if path = ''/sdk/register'' then Some (handle_register env st req fresh_response)
      else if path = ''/sdk/renew'' then Some (handle_renew env st req fresh_response)
      else if path = ''/sdk/unregister'' then Some (handle_unregister env st req fresh_response)
      else if path = ''/sdk/hop'' then handle_hop env st req fresh_response
      else None)"

definition relay_routes ::
  "'t relay_link \<Rightarrow> ('j, 't) api_env \<Rightarrow> cstring \<Rightarrow> api_state \<Rightarrow> 't http_request \<Rightarrow> (api_state \<times> 't http_response) option" where
  "relay_routes lk env path st req =
     (if rq_method req = CWIST_HTTP_GET \<and> path = ''/sdk/domain''
      then Some (st, handle_domain (ae_json env) (fst (lk_versions lk)) (snd (lk_versions lk)) req fresh_response)
      else sdk_routes env path st req)"

definition relay_request :: "'t relay_link \<Rightarrow> cstring \<Rightarrow> 't sdk_call \<Rightarrow> 't http_request" where
  "relay_request lk path call =
     \<lparr>rq_method = (if call_method call = ''GET'' then CWIST_HTTP_GET
                   else if call_method call = ''POST'' then CWIST_HTTP_POST else CWIST_HTTP_other),
      rq_path = Some path, rq_header = lk_header lk, rq_query = (\<lambda>_. None), rq_body = call_body call, rq_body_size = 0,
      rq_peer = lk_peer lk\<rparr>"

text \<open>The \<open>k\<close>-th request meets the relay in the environment \<open>envs k\<close>, with its clock and random numbers.\<close>

definition relay_net ::
  "(nat \<Rightarrow> ('j, 't) api_env) \<Rightarrow> cstring \<Rightarrow> 't relay_link \<Rightarrow> 't sdk_call \<Rightarrow> nat \<times> api_state \<Rightarrow>
   (nat \<times> api_state) \<times> (int \<times> 't option) option" where
  "relay_net envs base lk call w =
     (case w of (k, st) \<Rightarrow>
        let path = drop (length base) (call_url call)
        in case relay_routes lk (envs k) path st (relay_request lk path call) of
             None \<Rightarrow> ((k + 1, st), None)
           | Some (st', res) \<Rightarrow> ((k + 1, st'), Some (lk_status lk (rp_status res), lk_render lk (rp_body res))))"

definition posted :: "'t relay_link \<Rightarrow> cstring \<Rightarrow> 't \<Rightarrow> 't http_request" where
  "posted lk path body =
     \<lparr>rq_method = CWIST_HTTP_POST, rq_path = Some path, rq_header = lk_header lk, rq_query = (\<lambda>_. None), rq_body = Some body,
      rq_body_size = 0, rq_peer = lk_peer lk\<rparr>"

lemma posted_simps [simp]: "rq_body (posted lk path body) = Some body" "rq_method (posted lk path body) = CWIST_HTTP_POST"
  "rq_path (posted lk path body) = Some path" "rq_header (posted lk path body) = lk_header lk" "rq_peer (posted lk path body) = lk_peer lk"
  by (simp_all add: posted_def)

text \<open>The client talks to the relay at its URL.\<close>

definition connected ::
  "('j, 't, nat \<times> api_state, 'r) sdk_env \<Rightarrow> (nat \<Rightarrow> ('j, 't) api_env) \<Rightarrow> portillia_http_client \<Rightarrow> 't relay_link \<Rightarrow> ('j \<Rightarrow> json) \<Rightarrow> bool" where
  "connected senv envs client lk view \<longleftrightarrow>
     se_curl senv = relay_net envs (hc_relay_url client) lk \<and> (\<forall>k. ae_json (envs k) = se_json senv) \<and> cjson_laws (se_json senv) view \<and>
     link_laws lk \<and> length (hc_relay_url client) < 2000"

lemma http_json_relay:
  assumes con: "connected senv envs client lk view" and path: "length path < 48"
    and route: "sdk_routes (envs k) path st (posted lk path body) = Some (st', res)"
    and res: "rp_status res = Http_code 200" "rp_body res = Body_json t"
  shows "http_json senv client None ''POST'' path (Some body) (k, st) = ((k + 1, st'), Inr (cj_parse (se_json senv) t))"
proof -
  let ?url = "hc_relay_url client @ path"
  have url: "snprintf_s 2048 ?url = ?url" using con path by (simp add: connected_def)
  have req: "relay_request lk path \<lparr>call_url = ?url, call_method = ''POST'', call_headers = h, call_body = Some body, call_skip_verify = v\<rparr> =
      posted lk path body" for h v
    by (simp add: relay_request_def posted_def)
  show ?thesis
    using con route res
    by (simp add: http_json_def Let_def url connected_def relay_net_def relay_routes_def req link_laws_def)
qed

section \<open>Registering through the relay\<close>

lemma challenge_request_members:
  assumes "cjson_laws api view" "view doc = view (challenge_request api i a metadata ttl udp tcp hop rh hh)"
  shows "json_get (view doc) ''identity'' = Some (JObject [(''name'', JString (or_empty (id_name i))), (''address'', JString a)])"
    "json_get (view doc) ''ttl'' = Some (JNumber (double_of_int ttl))"
    "json_get (view doc) ''udp_enabled'' = Some (JBool udp)" "json_get (view doc) ''tcp_enabled'' = Some (JBool tcp)"
    "json_get (view doc) ''route_hostname'' = map_option JString rh" "json_get (view doc) ''hostname_hash'' = map_option JString hh"
  unfolding assms(2) challenge_request_def identity_to_json_def Let_def cjson_view [OF assms(1)] map_append opt_field_view [OF assms(1)]
  by (simp_all add: cjson_view [OF assms(1)] option.map_comp comp_def cong: option.case_cong split: option.split)

text \<open>What the SIWE functions are relied on for: a message can be made for the address of the identity and fits the store of the relay,
  and what the SDK signs with the key of the identity verifies.\<close>

definition siwe_works ::
  "('j, 't) api_env \<Rightarrow> ('j, 't) api_env \<Rightarrow> sdk_crypto \<Rightarrow> portillia_identity \<Rightarrow> bool" where
  "siwe_works env0 env1 cr i \<longleftrightarrow>
     (\<forall>domain uri nonce stmt rid ia ex. \<exists>msg sig.
        ae_siwe_create env0 domain (sdk_identity_address cr i) uri nonce stmt rid ia ex 1 = Some msg \<and> length msg < 2048 \<and>
        sign_siwe cr msg (id_private_key i) = Inr sig \<and> ae_siwe_verify env1 msg (Some sig) domain nonce (ae_now env1) \<noteq> None)"

definition challenge_id_of :: "('j, 't) api_env \<Rightarrow> cstring" where
  "challenge_id_of env = random_token ''rch_'' (ae_rand env 0) (ae_now env) 64"

lemma ttl_of_request:
  assumes "cjson_laws api view" "json_get (view doc) ''ttl'' = Some (JNumber (double_of_int ttl))" "0 < ttl" "ttl \<le> 2 ^ 31 - 1"
  shows "ttl_of api doc = ttl"
proof -
  have "double_of_int ttl = real_of_int ttl" using assms(3,4) by (intro double_of_int_exact) simp
  moreover have "\<bar>real_of_int ttl\<bar> \<le> 2 ^ 31 - 1" using assms(3,4) by simp
  ultimately show ?thesis
    using int_member_view [OF assms(1,2)] assms(3) by (simp add: ttl_of_def)
qed

text \<open>The first exchange: the challenge is stored and comes back.\<close>

lemma challenge_exchange:
  assumes laws: "cjson_laws (ae_json env) view" and ttl: "0 < ttl" "ttl \<le> 2 ^ 31 - 1"
    and len: "length (or_empty (id_name i)) < 256" "length a < 96"
    and body: "rq_body req = Some (cj_print (ae_json env) (challenge_request (ae_json env) i a metadata ttl udp tcp hop rh hh))"
    and create: "\<And>domain uri nonce stmt rid ia ex. \<exists>msg. ae_siwe_create env domain a uri nonce stmt rid ia ex 1 = Some msg \<and>
      length msg < 2048 \<and> Q domain nonce msg"
  obtains e res' t doc where "handle_register_challenge env st req res =
      (st\<lparr>ap_challenges := (ap_challenges st)[challenge_slot (ae_rand env 17) (ap_challenges st) := e]\<rparr>, res')"
    "rp_status res' = rp_status res" "rp_body res' = Body_json t" "cj_parse (ae_json env) t = Some doc"
    "parse_register_challenge_response_json (ae_json env) (Some doc) =
       Some \<lparr>cr_challenge_id = challenge_id_of env, cr_expires_at = time_member (ae_json env) (envelope_data_or_root (ae_json env) doc) ''expires_at'',
             cr_siwe_message = ce_siwe_message e\<rparr>"
    "ce_in_use e" "ce_challenge_id e = challenge_id_of env" "ce_expires_at e = ae_now env + ttl"
    "challenge_registrant e = \<lparr>rt_name = or_empty (id_name i), rt_address = a, rt_udp = udp, rt_tcp = tcp,
       rt_route_hostname = none_if_empty (snprintf_s 256 (or_empty rh)), rt_hostname_hash = none_if_empty (snprintf_s 256 (or_empty hh))\<rparr>"
    "Q (ce_domain e) (ce_nonce e) (ce_siwe_message e)"
proof -
  let ?api = "ae_json env"
  obtain doc0 where doc0: "cj_parse ?api (cj_print ?api (challenge_request ?api i a metadata ttl udp tcp hop rh hh)) = Some doc0"
    and v: "view doc0 = view (challenge_request ?api i a metadata ttl udp tcp hop rh hh)"
    by (rule cjson_print_parse [OF laws])
  note m = challenge_request_members [OF laws v]
  obtain identity where id: "cj_get ?api doc0 ''identity'' = Some identity"
      "view identity = JObject [(''name'', JString (or_empty (id_name i))), (''address'', JString a)]"
    by (rule cjson_get_Some [OF laws m(1)])
  have isobj: "cj_is_object ?api identity" using id(2) by (simp add: cjson_read(7) [OF laws])
  have members: "str_member ?api identity ''name'' = Some (or_empty (id_name i))" "str_member ?api identity ''address'' = Some a"
    "bool_member ?api doc0 ''udp_enabled'' = udp" "bool_member ?api doc0 ''tcp_enabled'' = tcp"
    "str_member ?api doc0 ''route_hostname'' = rh" "str_member ?api doc0 ''hostname_hash'' = hh" "ttl_of ?api doc0 = ttl"
    using ttl_of_request [OF laws m(2) ttl]
    by (simp_all add: str_member_view [OF laws] bool_member_view [OF laws] m id(2) split: option.splits)
  define domain where "domain = challenge_domain st req"
  define nonce where "nonce = make_nonce (ae_rand env)"
  define uri where "uri = snprintf_s 256 (''https://'' @ domain @ (case rq_path req of Some p \<Rightarrow> p | None \<Rightarrow> ''/sdk/register''))"
  obtain msg where msg: "ae_siwe_create env domain a uri nonce ''Register a portal lease'' (challenge_id_of env)
      (format_time_rfc3339 (ae_now env)) (format_time_rfc3339 (ae_now env + ttl)) 1 = Some msg" "length msg < 2048" "Q domain nonce msg"
    using create by blast
  have fits: "snprintf_s 256 domain = domain" "snprintf_s 32 nonce = nonce" "snprintf_s 96 (challenge_id_of env) = challenge_id_of env"
    using length_challenge_domain [of st req] length_snprintf_s [of 64]
    by (simp_all add: domain_def nonce_def make_nonce_def challenge_id_of_def random_token_def snprintf_s_def)
  define e where "e = \<lparr>ce_in_use = True, ce_challenge_id = challenge_id_of env, ce_siwe_message = msg,
    ce_identity_name = or_empty (id_name i), ce_identity_address = a, ce_udp_enabled = udp, ce_tcp_enabled = tcp,
    ce_route_hostname = snprintf_s 256 (or_empty rh), ce_hostname_hash = snprintf_s 256 (or_empty hh), ce_domain = domain,
    ce_nonce = nonce, ce_expires_at = ae_now env + ttl\<rparr>"
  define reply where "reply = cj_object ?api [(''data'', cj_object ?api [(''challenge_id'', cj_string ?api (challenge_id_of env)),
      (''expires_at'', cj_string ?api (format_time_rfc3339 (ae_now env + ttl))), (''siwe_message'', cj_string ?api msg)]),
      (''ok'', cj_bool ?api True)]"
  have issued: "issue_challenge env st doc0 identity req res =
      (st\<lparr>ap_challenges := (ap_challenges st)[challenge_slot (ae_rand env 17) (ap_challenges st) := e]\<rparr>,
       content_json (res\<lparr>rp_body := Body_json (cj_print ?api reply)\<rparr>))"
    unfolding issue_challenge_def Let_def members or_empty_simps domain_def [symmetric] nonce_def [symmetric]
      challenge_id_of_def [symmetric] uri_def [symmetric] msg(1) option.case reply_def [symmetric]
      store_register_challenge_def e_def fits
    using len msg(2) by (simp only: snprintf_s_fits)
  have handled: "handle_register_challenge env st req res =
      (st\<lparr>ap_challenges := (ap_challenges st)[challenge_slot (ae_rand env 17) (ap_challenges st) := e]\<rparr>,
       content_json (res\<lparr>rp_body := Body_json (cj_print ?api reply)\<rparr>))"
    unfolding handle_register_challenge_def body option.case doc0 id(1) issued using isobj by simp
  obtain doc where doc: "cj_parse ?api (cj_print ?api reply) = Some doc" "view doc = view reply"
    by (rule cjson_print_parse [OF laws])
  have "json_get (view doc) ''data'' = Some (JObject [(''challenge_id'', JString (challenge_id_of env)),
      (''expires_at'', JString (format_time_rfc3339 (ae_now env + ttl))), (''siwe_message'', JString msg)])"
    by (simp add: doc(2) reply_def cjson_view [OF laws])
  then obtain data where data: "cj_get ?api doc ''data'' = Some data" "view data = JObject [(''challenge_id'', JString (challenge_id_of env)),
      (''expires_at'', JString (format_time_rfc3339 (ae_now env + ttl))), (''siwe_message'', JString msg)]"
    by (rule cjson_get_Some [OF laws])
  have "envelope_data_or_root ?api doc = data"
    using data by (simp add: envelope_data_or_root_def cjson_read(7) [OF laws])
  then have parsed: "parse_register_challenge_response_json ?api (Some doc) =
     Some \<lparr>cr_challenge_id = challenge_id_of env, cr_expires_at = time_member ?api (envelope_data_or_root ?api doc) ''expires_at'',
           cr_siwe_message = msg\<rparr>"
    by (simp add: parse_register_challenge_response_json_def str_member_view [OF laws] data(2))
  show thesis
    by (rule that [OF handled _ _ doc(1)]) (use parsed msg(3) len in \<open>simp_all add: e_def challenge_registrant_def none_if_empty_def\<close>)
qed

text \<open>The second exchange: what the relay answers is what the client reads.\<close>

lemma data_member:
  assumes laws: "cjson_laws api view" and doc: "json_get (view doc) ''data'' = Some (JObject fs)"
  shows "view (envelope_data_or_root api doc) = JObject fs"
proof -
  obtain data where "cj_get api doc ''data'' = Some data" "view data = JObject fs"
    by (rule cjson_get_Some [OF laws doc])
  then show ?thesis by (simp add: envelope_data_or_root_def cjson_read(7) [OF laws])
qed

lemma register_response_read:
  assumes laws: "cjson_laws (ae_json env) view" and doc: "view doc = view (register_response env st who hostname token)"
    and now: "0 \<le> ae_now env + 300" "ae_now env + 300 < 253402300800" and port: "\<bar>ae_sni_port env\<bar> \<le> 2 ^ 31 - 1"
  shows "parse_register_response_json (ae_json env) (Some doc) = Some \<lparr>
    rr_identity = portillia_identity_init\<lparr>id_name := Some (rt_name who), id_address := Some (rt_address who)\<rparr>,
    rr_expires_at = ae_now env + 300, rr_hostname = hostname, rr_access_token = token,
    rr_keyless_url = (if nonempty (ap_keyless_url st) then ap_keyless_url st else None), rr_sni_port = ae_sni_port env,
    rr_udp_addr = (if rt_udp who then Some (snprintf_s 64 (''localhost:'' @ dec_int (ae_sni_port env))) else None),
    rr_udp_enabled = rt_udp who, rr_tcp_addr = (if rt_tcp who then Some ''localhost:4017'' else None), rr_tcp_enabled = rt_tcp who\<rparr>"
proof -
  let ?api = "ae_json env"
  define data where "data = envelope_data_or_root ?api doc"
  have "json_get (view doc) ''data'' = Some (JObject (
      [(''identity'', JObject [(''name'', JString (rt_name who)), (''address'', JString (rt_address who))]),
       (''expires_at'', JString (format_time_rfc3339 (ae_now env + 300))), (''hostname'', JString hostname),
       (''access_token'', JString token),
       (''reverse_endpoint'', view (snd (add_reverse_endpoint ?api (ap_keyless_url st) token (format_time_rfc3339 (ae_now env + 300)))))] @
      opt_field ''keyless_url'' (opt_text (ap_keyless_url st)) @
      [(''udp_enabled'', JBool (rt_udp who)), (''tcp_enabled'', JBool (rt_tcp who)), (''sni_port'', JNumber (double_of_int (ae_sni_port env)))] @
      opt_field ''udp_addr'' (if rt_udp who then Some (JString (snprintf_s 64 (''localhost:'' @ dec_int (ae_sni_port env)))) else None) @
      opt_field ''tcp_addr'' (if rt_tcp who then Some (JString ''localhost:4017'') else None)))"
    unfolding doc register_response_def Let_def cjson_view [OF laws] map_append opt_field_view(1,2) [OF laws]
    by (simp add: cjson_view [OF laws] add_reverse_endpoint_def opt_text_def opt_field_def)
  note v = data_member [OF laws this, folded data_def]
  have "json_get (view data) ''identity'' = Some (JObject [(''name'', JString (rt_name who)), (''address'', JString (rt_address who))])"
    by (simp add: v)
  then obtain identity where id: "cj_get ?api data ''identity'' = Some identity"
      "view identity = JObject [(''name'', JString (rt_name who)), (''address'', JString (rt_address who))]"
    by (rule cjson_get_Some [OF laws])
  have "int_member ?api data ''sni_port'' = Some (ae_sni_port env)"
    using port int_member_view [OF laws, of data "''sni_port''" "real_of_int (ae_sni_port env)"]
    by (simp add: v double_of_int_exact opt_text_def cong: option.case_cong)
  moreover have "time_member ?api data ''expires_at'' = ae_now env + 300"
    using rfc3339_roundtrip [OF now] by (simp add: time_member_def str_member_view [OF laws] v format_time_rfc3339_def)
  moreover have "str_member ?api data ''keyless_url'' = (if nonempty (ap_keyless_url st) then ap_keyless_url st else None)"
    by (cases "ap_keyless_url st") (simp_all add: str_member_view [OF laws] v opt_text_def cong: option.case_cong)
  moreover have "str_member ?api data ''hostname'' = Some hostname" "str_member ?api data ''access_token'' = Some token"
    "bool_member ?api data ''udp_enabled'' = rt_udp who" "bool_member ?api data ''tcp_enabled'' = rt_tcp who"
    "str_member ?api data ''udp_addr'' = (if rt_udp who then Some (snprintf_s 64 (''localhost:'' @ dec_int (ae_sni_port env))) else None)"
    "str_member ?api data ''tcp_addr'' = (if rt_tcp who then Some ''localhost:4017'' else None)"
    "str_member ?api identity ''name'' = Some (rt_name who)" "str_member ?api identity ''address'' = Some (rt_address who)"
    by (simp_all add: str_member_view [OF laws] bool_member_view [OF laws] v id(2) opt_text_def cong: option.case_cong)
  ultimately show ?thesis
    using id(1) by (simp add: parse_register_response_json_def Let_def data_def [symmetric])
qed

lemma register_exchange:
  assumes laws: "cjson_laws (ae_json env) view"
    and body: "rq_body req = Some (cj_print (ae_json env) (register_request (ae_json env) ch sig))"
    and open_: "find_register_challenge (ap_challenges st) (cr_challenge_id ch) = Some e" "ae_now env < ce_expires_at e"
      "ce_siwe_message e = cr_siwe_message ch"
      "ae_siwe_verify env (cr_siwe_message ch) (Some sig) (ce_domain e) (ce_nonce e) (ae_now env) \<noteq> None"
    and who: "who = challenge_registrant e" "rt_address who \<noteq> []" "transport_failure (server_root st) False who = None"
    and tok: "fresh_token env (rt_name who) (rt_address who) 300 = Some token"
    and now: "0 \<le> ae_now env + 300" "ae_now env + 300 < 253402300800" and port: "\<bar>ae_sni_port env\<bar> \<le> 2 ^ 31 - 1"
  obtains st' res' t doc resp where "handle_register env st req res = (st', res')" "rp_status res' = rp_status res"
    "rp_body res' = Body_json t" "cj_parse (ae_json env) t = Some doc"
    "parse_register_response_json (ae_json env) (Some doc) = Some resp"
    "rr_hostname resp = derive_hostname (server_root st) (rt_name who) (rt_address who) 256" "rr_access_token resp = token"
    "rr_expires_at resp = ae_now env + 300"
    "rr_identity resp = portillia_identity_init\<lparr>id_name := Some (rt_name who), id_address := Some (rt_address who)\<rparr>"
    "ap_challenges st' = consume_challenge (cr_challenge_id ch) (ap_challenges st)"
    "lease_entered (rr_hostname resp) (rt_address who) (ae_now env) (ap_server st) (ap_server st')"
proof -
  let ?api = "ae_json env"
  obtain doc0 where doc0: "cj_parse ?api (cj_print ?api (register_request ?api ch sig)) = Some doc0"
    and "view doc0 = view (register_request ?api ch sig)"
    by (rule cjson_print_parse [OF laws])
  then have v: "view doc0 = JObject [(''challenge_id'', JString (cr_challenge_id ch)), (''siwe_message'', JString (cr_siwe_message ch)),
      (''siwe_signature'', JString sig)]"
    by (simp add: register_request_def cjson_view [OF laws])
  have "json_get (view doc0) ''siwe_signature'' = Some (JString sig)" by (simp add: v)
  then obtain x where x: "cj_get ?api doc0 ''siwe_signature'' = Some x" "view x = JString sig"
    by (rule cjson_get_Some [OF laws])
  have members: "str_member ?api doc0 ''challenge_id'' = Some (cr_challenge_id ch)"
    "str_member ?api doc0 ''siwe_message'' = Some (cr_siwe_message ch)" "str_member ?api doc0 ''hop_token'' = None"
    "str_member ?api doc0 ''reported_ip'' = None" "cj_valuestring ?api x = Some sig"
    by (simp_all add: str_member_view [OF laws] v x(2) cjson_read(3) [OF laws])
  have resolved: "resolve_registrant env (ap_challenges st) doc0 = Inr (consume_challenge (cr_challenge_id ch) (ap_challenges st), who)"
    using open_ who(1) by (auto simp: resolve_registrant_def register_by_challenge_def members x(1))
  define st1 where "st1 = st\<lparr>ap_challenges := consume_challenge (cr_challenge_id ch) (ap_challenges st)\<rparr>"
  have root: "server_root st1 = server_root st" "ap_server st1 = ap_server st" by (simp_all add: st1_def server_root_def)
  obtain st' res' where reg: "register_lease env st1 doc0 who req res = (st', res')" by fastforce
  define hostname where "hostname = derive_hostname (server_root st) (rt_name who) (rt_address who) 256"
  have res': "rp_body res' = Body_json (cj_print ?api (register_response env st1 who hostname token))" "rp_status res' = rp_status res"
    using reg who(3) tok by (auto simp: register_lease_def members root hostname_def Let_def)
  have handled: "handle_register env st req res = (st', res')"
    using body doc0 resolved who(2) reg by (simp add: handle_register_def st1_def [symmetric])
  obtain doc where doc: "cj_parse ?api (cj_print ?api (register_response env st1 who hostname token)) = Some doc"
      "view doc = view (register_response env st1 who hostname token)"
    by (rule cjson_print_parse [OF laws])
  show thesis
    by (rule that [OF handled res'(2,1) doc(1) register_response_read [OF laws doc(2) now port]])
      (use register_lease_effect [OF reg] res'(1) root in \<open>auto simp: hostname_def st1_def\<close>)
qed

lemma find_update_unique:
  "i < length xs \<Longrightarrow> \<forall>x \<in> set xs. \<not> P x \<Longrightarrow> P e \<Longrightarrow> find P (xs[i := e]) = Some e"
  by (induction xs arbitrary: i) (auto split: nat.splits)

lemma first_index_update_unique:
  "i < length xs \<Longrightarrow> \<forall>x \<in> set xs. \<not> P x \<Longrightarrow> P e \<Longrightarrow> first_index P (xs[i := e]) = Some i"
  by (induction xs arbitrary: i) (auto split: nat.splits)

lemma challenge_slot_less: "length store = MAX_REGISTER_CHALLENGES \<Longrightarrow> challenge_slot r store < length store"
  by (auto simp: challenge_slot_def MAX_REGISTER_CHALLENGES_def split: option.splits dest: first_index_Some)

text \<open>What the relay makes of the registrant: strings are cut to its buffers.\<close>

definition sdk_registrant ::
  "('j, 't, 'w, 'r) sdk_env \<Rightarrow> portillia_http_client \<Rightarrow> portillia_identity \<Rightarrow> bool \<Rightarrow> bool \<Rightarrow> registrant" where
  "sdk_registrant senv client i udp tcp =
     (let a = sdk_identity_address (se_crypto senv) i;
          (rh, hh) = (if \<not> udp \<and> \<not> tcp then stream_materials (se_json senv)
                        (se_extras senv (cj_print (se_json senv) (identity_to_json (se_json senv) i a)) (hc_relay_url client))
                      else (None, None))
      in \<lparr>rt_name = or_empty (id_name i), rt_address = a, rt_udp = udp, rt_tcp = tcp,
          rt_route_hostname = none_if_empty (snprintf_s 256 (or_empty rh)), rt_hostname_hash = none_if_empty (snprintf_s 256 (or_empty hh))\<rparr>)"

text \<open>The challenge that is open after the first request: at the slot the relay chose, for this registrant, under an id nobody
  else has.\<close>

definition fresh_id :: "cstring \<Rightarrow> register_challenge_entry list \<Rightarrow> bool" where
  "fresh_id cid store \<longleftrightarrow> (\<forall>e \<in> set store. ce_in_use e \<longrightarrow> ce_challenge_id e \<noteq> cid)"

lemma consume_put:
  assumes "length store = MAX_REGISTER_CHALLENGES" "fresh_id cid store" "ce_in_use e" "ce_challenge_id e = cid"
  shows "find_register_challenge (store[challenge_slot r store := e]) cid = Some e"
    "fresh_id cid (consume_challenge cid (store[challenge_slot r store := e]))"
proof -
  let ?P = "\<lambda>e. ce_in_use e \<and> ce_challenge_id e = cid"
  have none: "\<forall>x \<in> set store. \<not> ?P x" using assms(2) by (auto simp: fresh_id_def)
  note slot = challenge_slot_less [OF assms(1), of r]
  show "find_register_challenge (store[challenge_slot r store := e]) cid = Some e"
    unfolding find_register_challenge_def by (rule find_update_unique [OF slot none]) (use assms in simp)
  have "first_index ?P (store[challenge_slot r store := e]) = Some (challenge_slot r store)"
    by (rule first_index_update_unique [OF slot none]) (use assms in simp)
  then show "fresh_id cid (consume_challenge cid (store[challenge_slot r store := e]))"
    using none slot by (auto simp: consume_challenge_def fresh_id_def dest!: set_update_subset_insert [THEN subsetD])
qed

lemma sdk_challenge_step:
  assumes con: "connected senv envs client lk view" and siwe: "siwe_works (envs k) (envs (k + 1)) (se_crypto senv) i"
    and a: "a = sdk_identity_address (se_crypto senv) i" "length a < 96" "length (or_empty (id_name i)) < 256"
    and ttl: "0 < ttl" "ttl \<le> 2 ^ 31 - 1"
  obtains e doc ch sig where
    "http_json senv client None ''POST'' SDK_PATH_REGISTER_CHALLENGE
       (Some (cj_print (se_json senv) (challenge_request (se_json senv) i a metadata ttl udp tcp hop rh hh))) (k, st) =
     ((k + 1, st\<lparr>ap_challenges := (ap_challenges st)[challenge_slot (ae_rand (envs k) 17) (ap_challenges st) := e]\<rparr>), Inr (Some doc))"
    "parse_register_challenge_response_json (se_json senv) (Some doc) = Some ch"
    "cr_challenge_id ch = challenge_id_of (envs k)" "cr_siwe_message ch = ce_siwe_message e"
    "ce_in_use e" "ce_challenge_id e = challenge_id_of (envs k)" "ce_expires_at e = ae_now (envs k) + ttl"
    "challenge_registrant e = \<lparr>rt_name = or_empty (id_name i), rt_address = a, rt_udp = udp, rt_tcp = tcp,
       rt_route_hostname = none_if_empty (snprintf_s 256 (or_empty rh)), rt_hostname_hash = none_if_empty (snprintf_s 256 (or_empty hh))\<rparr>"
    "sign_siwe (se_crypto senv) (cr_siwe_message ch) (id_private_key i) = Inr sig"
    "ae_siwe_verify (envs (k + 1)) (cr_siwe_message ch) (Some sig) (ce_domain e) (ce_nonce e) (ae_now (envs (k + 1))) \<noteq> None"
proof -
  let ?api = "se_json senv" and ?e0 = "envs k" and ?e1 = "envs (k + 1)"
  let ?body = "cj_print ?api (challenge_request ?api i a metadata ttl udp tcp hop rh hh)"
  have api: "ae_json (envs n) = ?api" for n using con by (simp add: connected_def)
  have laws: "cjson_laws (ae_json ?e0) view" using con by (simp add: connected_def)
  define Q where "Q = (\<lambda>domain nonce msg. \<exists>sig. sign_siwe (se_crypto senv) msg (id_private_key i) = Inr sig \<and>
      ae_siwe_verify ?e1 msg (Some sig) domain nonce (ae_now ?e1) \<noteq> None)"
  have create: "\<exists>msg. ae_siwe_create ?e0 domain a uri nonce stmt rid ia ex 1 = Some msg \<and> length msg < 2048 \<and> Q domain nonce msg"
    for domain uri nonce stmt rid ia ex
    using siwe unfolding siwe_works_def a(1) Q_def by blast
  have body: "rq_body (posted lk SDK_PATH_REGISTER_CHALLENGE ?body) =
      Some (cj_print (ae_json ?e0) (challenge_request (ae_json ?e0) i a metadata ttl udp tcp hop rh hh))"
    by (simp add: api)
  obtain e res t doc where c: "handle_register_challenge ?e0 st (posted lk SDK_PATH_REGISTER_CHALLENGE ?body) fresh_response =
      (st\<lparr>ap_challenges := (ap_challenges st)[challenge_slot (ae_rand ?e0 17) (ap_challenges st) := e]\<rparr>, res)"
    "rp_status res = rp_status (fresh_response :: 'b http_response)" "rp_body res = Body_json t" "cj_parse (ae_json ?e0) t = Some doc"
    and rest: "parse_register_challenge_response_json (ae_json ?e0) (Some doc) = Some \<lparr>cr_challenge_id = challenge_id_of ?e0,
        cr_expires_at = time_member (ae_json ?e0) (envelope_data_or_root (ae_json ?e0) doc) ''expires_at'', cr_siwe_message = ce_siwe_message e\<rparr>"
      "ce_in_use e" "ce_challenge_id e = challenge_id_of ?e0" "ce_expires_at e = ae_now ?e0 + ttl"
      "challenge_registrant e = \<lparr>rt_name = or_empty (id_name i), rt_address = a, rt_udp = udp, rt_tcp = tcp,
         rt_route_hostname = none_if_empty (snprintf_s 256 (or_empty rh)), rt_hostname_hash = none_if_empty (snprintf_s 256 (or_empty hh))\<rparr>"
      "Q (ce_domain e) (ce_nonce e) (ce_siwe_message e)"
    by (rule challenge_exchange [OF laws ttl a(3,2) body create])
  have "sdk_routes ?e0 SDK_PATH_REGISTER_CHALLENGE st (posted lk SDK_PATH_REGISTER_CHALLENGE ?body) =
      Some (st\<lparr>ap_challenges := (ap_challenges st)[challenge_slot (ae_rand ?e0 17) (ap_challenges st) := e]\<rparr>, res)"
    using c(1) by (simp add: sdk_routes_def SDK_PATH_REGISTER_CHALLENGE_def)
  note http = http_json_relay [OF con _ this _ c(3)]
  obtain sig where "sign_siwe (se_crypto senv) (ce_siwe_message e) (id_private_key i) = Inr sig"
      "ae_siwe_verify ?e1 (ce_siwe_message e) (Some sig) (ce_domain e) (ce_nonce e) (ae_now ?e1) \<noteq> None"
    using rest(6) unfolding Q_def by blast
  moreover have "http_json senv client None ''POST'' SDK_PATH_REGISTER_CHALLENGE (Some ?body) (k, st) =
      ((k + 1, st\<lparr>ap_challenges := (ap_challenges st)[challenge_slot (ae_rand ?e0 17) (ap_challenges st) := e]\<rparr>), Inr (Some doc))"
    using http c(2,4) by (simp add: fresh_response_def SDK_PATH_REGISTER_CHALLENGE_def api)
  ultimately show thesis
    using that [OF _ rest(1) [unfolded api], of e sig] rest(2-5) by simp
qed

lemma sdk_answer_step:
  assumes con: "connected senv envs client lk view"
    and sig: "sign_siwe (se_crypto senv) (cr_siwe_message ch) (id_private_key i) = Inr sig"
    and open_: "find_register_challenge (ap_challenges st) (cr_challenge_id ch) = Some e" "ae_now (envs k) < ce_expires_at e"
      "ce_siwe_message e = cr_siwe_message ch"
      "ae_siwe_verify (envs k) (cr_siwe_message ch) (Some sig) (ce_domain e) (ce_nonce e) (ae_now (envs k)) \<noteq> None"
    and who: "who = challenge_registrant e" "rt_address who \<noteq> []" "transport_failure (server_root st) False who = None"
    and tok: "fresh_token (envs k) (rt_name who) (rt_address who) 300 = Some token"
    and now: "0 \<le> ae_now (envs k) + 300" "ae_now (envs k) + 300 < 253402300800" and port: "\<bar>ae_sni_port (envs k)\<bar> \<le> 2 ^ 31 - 1"
  obtains st' resp where "answer_challenge senv client i ch (k, st) = ((k + 1, st'), Inr resp)"
    "rr_hostname resp = derive_hostname (server_root st) (rt_name who) (rt_address who) 256" "rr_access_token resp = token"
    "rr_expires_at resp = ae_now (envs k) + 300"
    "ap_challenges st' = consume_challenge (cr_challenge_id ch) (ap_challenges st)"
    "lease_entered (rr_hostname resp) (rt_address who) (ae_now (envs k)) (ap_server st) (ap_server st')"
proof -
  let ?api = "se_json senv" and ?body = "cj_print (se_json senv) (register_request (se_json senv) ch sig)"
  have api: "ae_json (envs n) = ?api" for n using con by (simp add: connected_def)
  have laws: "cjson_laws (ae_json (envs k)) view" using con by (simp add: connected_def)
  have body: "rq_body (posted lk SDK_PATH_REGISTER ?body) = Some (cj_print (ae_json (envs k)) (register_request (ae_json (envs k)) ch sig))"
    by (simp add: api)
  obtain st' res t doc resp where r: "handle_register (envs k) st (posted lk SDK_PATH_REGISTER ?body) fresh_response = (st', res)"
    "rp_status res = rp_status (fresh_response :: 'b http_response)" "rp_body res = Body_json t" "cj_parse (ae_json (envs k)) t = Some doc"
    "parse_register_response_json (ae_json (envs k)) (Some doc) = Some resp"
    and rest: "rr_hostname resp = derive_hostname (server_root st) (rt_name who) (rt_address who) 256" "rr_access_token resp = token"
      "rr_expires_at resp = ae_now (envs k) + 300"
      "ap_challenges st' = consume_challenge (cr_challenge_id ch) (ap_challenges st)"
      "lease_entered (rr_hostname resp) (rt_address who) (ae_now (envs k)) (ap_server st) (ap_server st')"
    by (rule register_exchange [OF laws body open_ who tok now port])
  have "sdk_routes (envs k) SDK_PATH_REGISTER st (posted lk SDK_PATH_REGISTER ?body) = Some (st', res)"
    using r(1) by (simp add: sdk_routes_def SDK_PATH_REGISTER_def)
  note http = http_json_relay [OF con _ this _ r(3)]
  have "answer_challenge senv client i ch (k, st) = ((k + 1, st'), Inr resp)"
    using http r(2,4,5) sig by (simp add: answer_challenge_def fresh_response_def SDK_PATH_REGISTER_def api)
  then show thesis using rest that by blast
qed

lemma register_over_relay:
  assumes con: "connected senv envs client lk view" and siwe: "siwe_works (envs k) (envs (k + 1)) (se_crypto senv) i"
    and who: "who = sdk_registrant senv client i udp tcp" "rt_address who \<noteq> []" "length (rt_name who) < 256" "length (rt_address who) < 96"
      "transport_failure (server_root st) False who = None"
    and ttl: "0 < ttl" "ttl \<le> 2 ^ 31 - 1" "ae_now (envs (k + 1)) < ae_now (envs k) + ttl"
    and store: "length (ap_challenges st) = MAX_REGISTER_CHALLENGES"
      "fresh_id (challenge_id_of (envs k)) (ap_challenges st)"
    and tok: "fresh_token (envs (k + 1)) (rt_name who) (rt_address who) 300 = Some token"
    and now: "0 \<le> ae_now (envs (k + 1)) + 300" "ae_now (envs (k + 1)) + 300 < 253402300800"
    and port: "\<bar>ae_sni_port (envs (k + 1))\<bar> \<le> 2 ^ 31 - 1"
  shows "\<exists>st' resp. portillia_api_register_lease senv client i metadata rset [] ttl udp tcp (k, st) = ((k + 2, st'), Inr (resp, [])) \<and>
    rr_hostname resp = derive_hostname (server_root st) (rt_name who) (rt_address who) 256 \<and> rr_access_token resp = token \<and>
    rr_expires_at resp = ae_now (envs (k + 1)) + 300 \<and>
    lease_entered (rr_hostname resp) (rt_address who) (ae_now (envs (k + 1))) (ap_server st) (ap_server st') \<and>
    fresh_id (challenge_id_of (envs k)) (ap_challenges st')"
proof -
  let ?api = "se_json senv" and ?e1 = "envs (k + 1)"
  define a where "a = sdk_identity_address (se_crypto senv) i"
  obtain rh hh where mat: "(if \<not> udp \<and> \<not> tcp then stream_materials ?api
      (se_extras senv (cj_print ?api (identity_to_json ?api i a)) (hc_relay_url client)) else (None, None)) = (rh, hh)" by fastforce
  have w: "who = \<lparr>rt_name = or_empty (id_name i), rt_address = a, rt_udp = udp, rt_tcp = tcp,
      rt_route_hostname = none_if_empty (snprintf_s 256 (or_empty rh)), rt_hostname_hash = none_if_empty (snprintf_s 256 (or_empty hh))\<rparr>"
    unfolding who(1) sdk_registrant_def Let_def a_def [symmetric] mat by simp
  have len: "length a < 96" "length (or_empty (id_name i)) < 256" using who(3,4) by (simp_all add: w)
  obtain e doc ch sig where c: "http_json senv client None ''POST'' SDK_PATH_REGISTER_CHALLENGE
       (Some (cj_print ?api (challenge_request ?api i a metadata ttl udp tcp None rh hh))) (k, st) =
     ((k + 1, st\<lparr>ap_challenges := (ap_challenges st)[challenge_slot (ae_rand (envs k) 17) (ap_challenges st) := e]\<rparr>), Inr (Some doc))"
    "parse_register_challenge_response_json ?api (Some doc) = Some ch"
    and ch: "cr_challenge_id ch = challenge_id_of (envs k)" "cr_siwe_message ch = ce_siwe_message e"
      "ce_in_use e" "ce_challenge_id e = challenge_id_of (envs k)" "ce_expires_at e = ae_now (envs k) + ttl" "challenge_registrant e = who"
    and sig: "sign_siwe (se_crypto senv) (cr_siwe_message ch) (id_private_key i) = Inr sig"
      "ae_siwe_verify ?e1 (cr_siwe_message ch) (Some sig) (ce_domain e) (ce_nonce e) (ae_now ?e1) \<noteq> None"
    unfolding w by (rule sdk_challenge_step [OF con siwe a_def len ttl(1,2)])
  define st1 where "st1 = st\<lparr>ap_challenges := (ap_challenges st)[challenge_slot (ae_rand (envs k) 17) (ap_challenges st) := e]\<rparr>"
  note put = consume_put [OF store ch(3,4), of "ae_rand (envs k) 17"]
  have st1: "server_root st1 = server_root st" "ap_server st1 = ap_server st"
    "find_register_challenge (ap_challenges st1) (cr_challenge_id ch) = Some e" "ae_now ?e1 < ce_expires_at e"
    using put(1) ttl(3) by (simp_all add: st1_def server_root_def ch)
  obtain st' resp where r: "answer_challenge senv client i ch (k + 1, st1) = ((k + 1 + 1, st'), Inr resp)"
    and rest: "rr_hostname resp = derive_hostname (server_root st1) (rt_name who) (rt_address who) 256" "rr_access_token resp = token"
      "rr_expires_at resp = ae_now ?e1 + 300" "ap_challenges st' = consume_challenge (cr_challenge_id ch) (ap_challenges st1)"
      "lease_entered (rr_hostname resp) (rt_address who) (ae_now ?e1) (ap_server st1) (ap_server st')"
    by (rule sdk_answer_step [OF con sig(1) st1(3,4) ch(2) [symmetric] sig(2) ch(6) [symmetric] who(2) who(5) [folded st1(1)] tok now port])
  have "portillia_api_register_lease senv client i metadata rset [] ttl udp tcp (k, st) = ((k + 2, st'), Inr (resp, []))"
    using c r mat
    by (simp add: portillia_api_register_lease_def Let_def a_def [symmetric] st1_def [symmetric] install_hops_def split: prod.splits)
  then show ?thesis
    using rest put(2) unfolding st1(1,2) by (simp add: st1_def ch(1))
qed

text \<open>Registering works from end to end: the SDK asks the relay for a challenge, signs it and registers, and what it gets
  back is a lease under the hostname the relay derives from its name, a token the relay has just issued and the time at
  which the lease ends; the lease is in the registry of the relay under the address that belongs to the SDK's key, and
  the challenge is used up. This holds over a network that delivers, if the SIWE functions fit together, the two requests are
  less than the requested time apart, the id of the challenge is new and the relay accepts the transports.\<close>

theorem sdk_register_end_to_end:
  assumes con: "connected senv envs client lk view" and siwe: "siwe_works (envs k) (envs (k + 1)) (se_crypto senv) i"
    and who: "who = sdk_registrant senv client i udp tcp" "rt_address who \<noteq> []" "length (rt_name who) < 256" "length (rt_address who) < 96"
      "transport_failure (server_root st) False who = None"
    and ttl: "0 < ttl" "ttl \<le> 2 ^ 31 - 1" "ae_now (envs (k + 1)) < ae_now (envs k) + ttl"
    and store: "length (ap_challenges st) = MAX_REGISTER_CHALLENGES"
      "fresh_id (challenge_id_of (envs k)) (ap_challenges st)"
    and tok: "fresh_token (envs (k + 1)) (rt_name who) (rt_address who) 300 = Some token"
    and now: "0 \<le> ae_now (envs (k + 1)) + 300" "ae_now (envs (k + 1)) + 300 < 253402300800"
    and port: "\<bar>ae_sni_port (envs (k + 1))\<bar> \<le> 2 ^ 31 - 1"
  shows "\<exists>st' resp. portillia_api_register_lease senv client i metadata rset [] ttl udp tcp (k, st) = ((k + 2, st'), Inr (resp, [])) \<and>
    rr_hostname resp = derive_hostname (server_root st) (rt_name who) (rt_address who) 256 \<and> rr_access_token resp = token \<and>
    rr_expires_at resp = ae_now (envs (k + 1)) + 300 \<and>
    lease_entered (rr_hostname resp) (rt_address who) (ae_now (envs (k + 1))) (ap_server st) (ap_server st') \<and>
    fresh_id (challenge_id_of (envs k)) (ap_challenges st')"
  using register_over_relay [OF con siwe who ttl store tok now port] .

section \<open>Renewing and unregistering through the relay\<close>

lemma renew_request_members:
  assumes "cjson_laws api view" "view doc = view (renew_request api token ttl ip)"
  shows "json_get (view doc) ''access_token'' = Some (JString token)" "json_get (view doc) ''ttl'' = Some (JNumber (double_of_int ttl))"
  unfolding assms(2) renew_request_def cjson_view [OF assms(1)] map_append opt_field_view [OF assms(1)]
  by (simp_all add: cjson_view [OF assms(1)])

text \<open>Renewing works from end to end: with a token the relay verifies, the SDK gets a fresh token and an end of the lease that is the
  requested time away, and the lease of the name and address in the token is registered again.\<close>

theorem sdk_renew_end_to_end:
  assumes con: "connected senv envs client lk view" and ttl: "0 < ttl" "ttl \<le> 2 ^ 31 - 1"
    and valid: "portillia_verify_lease_token (ae_tokens (envs k)) (ae_keys (envs k)) token (ae_now (envs k)) = Some claims"
      "claims_of (se_json senv) claims = Some (name, Some addr)" "length name < 256" "length addr < 96"
    and tok: "fresh_token (envs k) name addr ttl = Some token'"
    and now: "0 \<le> ae_now (envs k) + ttl" "ae_now (envs k) + ttl < 253402300800"
  shows "portillia_api_renew_lease senv client ttl token ip i rset [] (k, st) =
    ((k + 1, st\<lparr>ap_server := server_register (derive_hostname (server_root st) name addr 256) addr 0 None None None
        (ae_now (envs k)) (ap_server st)\<rparr>),
     Inr \<lparr>nr_expires_at = ae_now (envs k) + ttl, nr_access_token = token'\<rparr>)"
proof -
  let ?api = "se_json senv" and ?env = "envs k" and ?body = "cj_print (se_json senv) (renew_request (se_json senv) token ttl ip)"
  have api: "ae_json ?env = ?api" and laws: "cjson_laws ?api view" using con by (simp_all add: connected_def)
  obtain doc0 where doc0: "cj_parse ?api ?body = Some doc0" "view doc0 = view (renew_request ?api token ttl ip)"
    by (rule cjson_print_parse [OF laws])
  note m = renew_request_members [OF laws doc0(2)]
  have members: "str_member ?api doc0 ''access_token'' = Some token" "ttl_of ?api doc0 = ttl"
    using ttl_of_request [OF laws m(2) ttl] by (simp_all add: str_member_view [OF laws] m)
  define expires where "expires = format_time_rfc3339 (ae_now ?env + ttl)"
  define reply where "reply = cj_object ?api [(''ok'', cj_bool ?api True), (''data'', cj_object ?api
      [(''expires_at'', cj_string ?api expires), (''access_token'', cj_string ?api token'),
       add_reverse_endpoint ?api (ap_keyless_url st) token' expires])]"
  define st' where "st' = st\<lparr>ap_server := server_register (derive_hostname (server_root st) name addr 256) addr 0 None None None
        (ae_now ?env) (ap_server st)\<rparr>"
  have "handle_renew ?env st (posted lk SDK_PATH_RENEW ?body) fresh_response =
      (st', content_json (fresh_response\<lparr>rp_body := Body_json (cj_print ?api reply)\<rparr>))"
    unfolding handle_renew_def Let_def posted_simps option.case api doc0(1) members valid(1,2) prod.case snprintf_s_fits [OF valid(3)]
      snprintf_s_fits [OF valid(4)] tok expires_def [symmetric] reply_def [symmetric] st'_def [symmetric] by (rule refl)
  then have route: "sdk_routes ?env SDK_PATH_RENEW st (posted lk SDK_PATH_RENEW ?body) =
      Some (st', content_json (fresh_response\<lparr>rp_body := Body_json (cj_print ?api reply)\<rparr>))"
    by (simp add: sdk_routes_def SDK_PATH_RENEW_def)
  obtain doc where doc: "cj_parse ?api (cj_print ?api reply) = Some doc" "view doc = view reply"
    by (rule cjson_print_parse [OF laws])
  have http: "http_json senv client None ''POST'' SDK_PATH_RENEW (Some ?body) (k, st) = ((k + 1, st'), Inr (Some doc))"
    using http_json_relay [OF con _ route] doc(1) by (simp add: SDK_PATH_RENEW_def fresh_response_def)
  have "json_get (view doc) ''data'' = Some (JObject [(''expires_at'', JString expires), (''access_token'', JString token'),
      (''reverse_endpoint'', view (snd (add_reverse_endpoint ?api (ap_keyless_url st) token' expires)))])"
    by (simp add: doc(2) reply_def cjson_view [OF laws] add_reverse_endpoint_def)
  note v = data_member [OF laws this]
  have "parse_renew_response_json ?api (Some doc) = Some \<lparr>nr_expires_at = ae_now ?env + ttl, nr_access_token = token'\<rparr>"
    using rfc3339_roundtrip [OF now]
    by (simp add: parse_renew_response_json_def Let_def time_member_def str_member_view [OF laws] v expires_def format_time_rfc3339_def)
  then show ?thesis
    by (simp add: portillia_api_renew_lease_def http portillia_api_sync_hop_routes_def st'_def)
qed

text \<open>Unregistering is answered with success and leaves the lease where it is.\<close>

lemma handle_unregister_state [simp]: "fst (handle_unregister env st req res) = st"
  by (simp add: handle_unregister_def Let_def split: option.splits)

text \<open>The version check reads what the relay says of itself.\<close>

lemma domain_response_read:
  assumes "cjson_laws api view" "rp_body (handle_domain api version release req res) = Body_json t" "cj_parse api t = Some doc"
  shows "parse_domain_response_json api (Some doc) = Some (version, Some release)"
proof -
  let ?reply = "cj_object api [(''data'', cj_object api [(''protocol_version'', cj_string api version),
     (''release_version'', cj_string api release)]), (''ok'', cj_bool api True)]"
  obtain r where "cj_parse api (cj_print api ?reply) = Some r" "view r = view ?reply"
    by (rule cjson_print_parse [OF assms(1)])
  then have "view doc = view ?reply" using assms(2,3) by (simp add: handle_domain_def)
  then have "json_get (view doc) ''data'' = Some (JObject [(''protocol_version'', JString version), (''release_version'', JString release)])"
    by (simp add: cjson_view [OF assms(1)])
  note v = data_member [OF assms(1) this]
  show ?thesis by (simp add: parse_domain_response_json_def Let_def str_member_view [OF assms(1)] v)
qed

section \<open>The exit relay\<close>

definition hop_tokens :: "portillia_server \<Rightarrow> cstring set" where
  "hop_tokens srv = {t. \<exists>rec \<in> set (rg_records (sv_registry srv)). lr_hop_token rec = Some t}"

lemma hop_tokens_register: "hop_tokens (server_register hostname address bps ip rip hash now srv) \<subseteq> hop_tokens srv"
proof -
  have "lr_hop_token (refresh_record now bps ip rip hash rec) = lr_hop_token rec" for rec by (simp add: refresh_record_def)
  then show ?thesis
    by (auto simp: hop_tokens_def server_register_def lease_registry_register_def append_record_def new_lease_def
        split: option.splits if_splits dest!: set_update_subset_insert [THEN subsetD]) (meson first_index_Some nth_mem)
qed

lemma hop_tokens_exec: "hop_tokens (ap_server (api_exec env c st)) \<subseteq> hop_tokens (ap_server st)"
proof (cases c)
  case (Call_challenge rand now req)
  then show ?thesis
    by (simp add: handle_register_challenge_def issue_challenge_def Let_def split: option.splits)
next
  case (Call_register rand now req)
  have sub: "hop_tokens (ap_server (fst (register_lease e s doc who req res))) \<subseteq> hop_tokens (ap_server s)" for e :: "('a, 'b) api_env" and s doc who res
    using register_lease_effect [OF prod.collapse [symmetric], of e s doc who req res]
    by (auto simp: lease_entered_def dest!: hop_tokens_register [THEN subsetD])
  show ?thesis
    unfolding Call_register
    by (auto simp: handle_register_def Let_def split: option.splits sum.splits prod.splits dest!: sub [THEN subsetD])
qed

text \<open>The exit relay of a multi-hop route turns hops away: no challenge and no registration, whatever they carry, gives a lease a hop
  token. The token of the last hop, which the SDK puts into its challenge request, is never recorded, so that the stream that
  presents it is closed.\<close>

theorem exit_hop_unreachable:
  assumes "t \<notin> hop_tokens (ap_server st)"
  shows "portillia_server_handle_hop_stream sha256 henv (ap_server (api_run env calls st)) t hop_fd =
    Some (close_fds [hop_fd] (ap_server (api_run env calls st)))"
proof -
  have "hop_tokens (ap_server (api_run env calls st)) \<subseteq> hop_tokens (ap_server st)"
  proof (induction calls rule: rev_induct)
    case (snoc c calls)
    then show ?case using hop_tokens_exec [of env c "api_run env calls st"] by (auto simp: api_run_def)
  qed (simp add: api_run_def)
  with assms have "t \<notin> hop_tokens (ap_server (api_run env calls st))" by blast
  then have "lease_registry_lookup_hop (sv_registry (ap_server (api_run env calls st))) t (he_now henv) = None"
    by (auto simp: lease_registry_lookup_hop_def live_match_def hop_tokens_def find_None_iff)
  then show ?thesis by (simp add: portillia_server_handle_hop_stream_def)
qed

section \<open>A small world\<close>

text \<open>A toy key, signature and relay, for the witnesses.\<close>

definition toy_crypto :: sdk_crypto where
  "toy_crypto = \<lparr>sc_keccak256 = (\<lambda>_. replicate 32 0), sc_sha256 = (\<lambda>_. replicate 32 0), sc_hmac_sha256 = (\<lambda>k m. Some [1]),
     sc_encode_block = (\<lambda>_. ''AQ==''), sc_pubkey_create = (\<lambda>k. Some (4 # replicate 64 0)),
     sc_sign_recoverable = (\<lambda>h k. Some (replicate 64 1, 0)), sc_sign_der = (\<lambda>h k. Some [48])\<rparr>"

definition toy_identity :: portillia_identity where
  "toy_identity = \<lparr>id_name = Some ''app'', id_address = Some ''0xab'', id_public_key = Some ''02'', id_private_key = Some (replicate 64 (CHR ''1''))\<rparr>"

definition toy_api :: "(json, json) api_env" where
  "toy_api = sample_api\<lparr>ae_siwe_verify := (\<lambda>msg sig domain nonce now.
     if map_option Inr sig = Some (sign_siwe toy_crypto msg (id_private_key toy_identity)) then Some JNull else None)\<rparr>"

definition toy_link :: "json relay_link" where
  "toy_link = \<lparr>lk_header = (\<lambda>_. None), lk_peer = None, lk_status = (\<lambda>s. case s of Http_code n \<Rightarrow> n | _ \<Rightarrow> 500),
     lk_render = (\<lambda>b. case b of Body_json t \<Rightarrow> Some t | _ \<Rightarrow> None), lk_versions = (''1'', ''1.0'')\<rparr>"

definition toy_client :: portillia_http_client where
  "toy_client = \<lparr>hc_relay_url = ''https://r.io'', hc_insecure_skip_verify = False\<rparr>"

definition toy_sdk :: "(json, json, nat \<times> api_state, (cstring \<times> portillia_relay_state) list) sdk_env" where
  "toy_sdk = \<lparr>se_json = tree_json, se_crypto = toy_crypto, se_curl = relay_net (\<lambda>_. toy_api) ''https://r.io'' toy_link,
     se_text = (\<lambda>_. []), se_extras = (\<lambda>_ _. None), se_ech = (\<lambda>_ _ _. None), se_table = list_table, se_now = 1000\<rparr>"

definition toy_address :: cstring where "toy_address = ''0x'' @ replicate 40 (CHR ''0'')"

lemma toy_simps [simp]:
  "se_json toy_sdk = tree_json" "se_crypto toy_sdk = toy_crypto" "se_table toy_sdk = list_table" "se_now toy_sdk = 1000"
  "ae_json toy_api = tree_json" "ae_now toy_api = 1000" "ae_tokens toy_api = sample_bridge" "ae_keys toy_api = sample_keys"
  "ae_sni_port toy_api = 443" "hc_relay_url toy_client = ''https://r.io''"
  by (simp_all add: toy_sdk_def toy_api_def toy_client_def sample_api_def)

lemma toy_key: "parse_hex_bytes (Some (replicate 64 (CHR ''1''))) 32 = Some (replicate 32 17)"
  by code_simp

lemma toy_address_eval: "sdk_identity_address toy_crypto toy_identity = toy_address"
proof -
  have "portillia_crypto_pubkey_to_address (\<lambda>_. replicate 32 0) (4 # replicate 64 0) = toy_address"
    unfolding toy_address_def by code_simp
  then show ?thesis
    by (simp add: sdk_identity_address_def derive_address_from_private_key_def toy_identity_def toy_crypto_def toy_key)
qed

lemma toy_connected: "connected toy_sdk (\<lambda>_. toy_api) toy_client toy_link (\<lambda>j. j)"
  by (simp add: connected_def toy_sdk_def toy_client_def tree_json_laws link_laws_def toy_link_def)

lemma toy_siwe: "siwe_works toy_api toy_api toy_crypto toy_identity"
proof -
  have "length toy_address < 96" by (simp add: toy_address_def)
  moreover have "\<exists>sig. sign_siwe toy_crypto msg (id_private_key toy_identity) = Inr sig" for msg
    by (simp add: sign_siwe_def toy_identity_def toy_key toy_crypto_def)
  ultimately show ?thesis
    unfolding siwe_works_def toy_address_eval by (auto simp: toy_api_def sample_api_def) (metis (no_types))
qed

lemma toy_registrant: "sdk_registrant toy_sdk toy_client toy_identity False False =
  \<lparr>rt_name = ''app'', rt_address = toy_address, rt_udp = False, rt_tcp = False, rt_route_hostname = None, rt_hostname_hash = None\<rparr>"
  by (simp add: sdk_registrant_def toy_address_eval) (simp add: toy_sdk_def stream_materials_def none_if_empty_def snprintf_s_def toy_identity_def)

theorem sdk_register_end_to_end_witness:
  "\<exists>st' resp. portillia_api_register_lease toy_sdk toy_client toy_identity None
      (None :: ((cstring \<times> portillia_relay_state) list, unit) portillia_relay_set option) [] 60 False False (0, sample_state) =
        ((2, st'), Inr (resp, [])) \<and> rr_hostname resp = ''app.r.io'' \<and> rr_access_token resp = ''tok'' \<and> rr_expires_at resp = 1300 \<and>
    lease_entered ''app.r.io'' toy_address 1000 (ap_server sample_state) (ap_server st')"
proof -
  let ?who = "sdk_registrant toy_sdk toy_client toy_identity False False"
  have host: "derive_hostname (server_root sample_state) ''app'' toy_address 256 = ''app.r.io''"
    unfolding server_root_def sample_state_def toy_address_def by code_simp
  have store: "length (ap_challenges sample_state) = MAX_REGISTER_CHALLENGES"
    "fresh_id cid (ap_challenges sample_state)" for cid
    by (simp_all add: sample_state_def register_challenge_store_init_def fresh_id_def zero_challenge_def)
  have who: "rt_address ?who \<noteq> []" "length (rt_name ?who) < 256" "length (rt_address ?who) < 96"
    "transport_failure (server_root sample_state) False ?who = None"
    by (simp_all add: toy_registrant toy_address_def transport_failure_def)
  have tok: "fresh_token toy_api (rt_name ?who) (rt_address ?who) 300 = Some ''tok''"
    by (simp add: fresh_token_def portillia_issue_lease_token_def sample_bridge_def sample_keys_def str_member_def)
  show ?thesis
    using sdk_register_end_to_end [where k = 0 and ttl = 60 and token = "''tok''" and metadata = None and rset = "None :: ((cstring \<times> portillia_relay_state) list, unit) portillia_relay_set option",
        OF toy_connected _ refl who] store tok toy_siwe
    by (auto simp: host toy_registrant numeral_2_eq_2)
qed

theorem sdk_renew_end_to_end_witness:
  "\<exists>st'. portillia_api_renew_lease toy_sdk toy_client 60 ''0xab'' None None
      (None :: ((cstring \<times> portillia_relay_state) list, unit) portillia_relay_set option) [] (5, sample_state) =
    ((6, st'), Inr \<lparr>nr_expires_at = 1060, nr_access_token = ''tok''\<rparr>)"
proof -
  have "portillia_verify_lease_token (ae_tokens toy_api) (ae_keys toy_api) ''0xab'' (ae_now toy_api) =
      Some (JObject [(''identity_address'', JString ''0xab'')])"
    by (simp add: portillia_verify_lease_token_def sample_bridge_def sample_keys_def)
  moreover have "claims_of (se_json toy_sdk) (JObject [(''identity_address'', JString ''0xab'')]) = Some ([], Some ''0xab'')"
    by (simp add: claims_of_def str_member_def string_eval)
  moreover have "fresh_token toy_api [] ''0xab'' 60 = Some ''tok''"
    by (simp add: fresh_token_def portillia_issue_lease_token_def sample_bridge_def sample_keys_def str_member_def)
  ultimately show ?thesis
    using sdk_renew_end_to_end [where k = 5 and ttl = 60 and token = "''0xab''" and ip = None and i = None and rset = "None :: ((cstring \<times> portillia_relay_state) list, unit) portillia_relay_set option"
        and st = sample_state and name = "[]" and addr = "''0xab''" and token' = "''tok''"
        and claims = "JObject [(''identity_address'', JString ''0xab'')]", OF toy_connected] by simp
qed

definition toy_route :: portillia_hop_route where
  "toy_route = portillia_hop_route_init\<lparr>h_public_hostname := Some ''app.r.io'', h_forward_token := Some ''hpt_AQ'',
     h_forward_relay := portillia_relay_descriptor_init\<lparr>d_wireguard_public_key := Some ''wg''\<rparr>\<rparr>"

definition toy_hop_request :: "json http_request" where
  "toy_hop_request = empty_request\<lparr>rq_body := Some (cj_print tree_json (hop_route_to_request_json tree_json toy_crypto toy_route (Some toy_identity)))\<rparr>"

lemma toy_installed: "install_route toy_api toy_crypto toy_identity toy_route toy_hop_request"
  by (simp add: install_route_def toy_hop_request_def toy_identity_def toy_route_def route_key_def portillia_hop_route_init_def)

lemma toy_hop_handled: "\<exists>st' res'. handle_hop toy_api sample_state toy_hop_request fresh_response = Some (st', res')"
  using hop_request_handled [of toy_api "\<lambda>j. j" toy_hop_request toy_crypto toy_route toy_identity] toy_installed
  by (simp add: install_route_def tree_json_laws toy_identity_def toy_route_def portillia_hop_route_init_def)

lemma toy_records: "rg_records (sv_registry (ap_server sample_state)) = []" "rg_root_hostname (sv_registry (ap_server sample_state)) = ''r.io''"
  by (simp_all add: sample_state_def portillia_server_setup_def lease_registry_new_def)

theorem middle_hop_forwards_witness:
  "\<exists>st' res'. handle_hop toy_api sample_state toy_hop_request fresh_response = Some (st', res') \<and>
     portillia_server_handle_hop_stream (\<lambda>m. m) (sample_env\<lparr>he_dial := (\<lambda>ip tok. if ip = ''100.64.0.1'' \<and> tok = ''hpt_AQ'' then 8 else -1)\<rparr>)
       (ap_server st') ''app.r.io'' 7 = Some (start_bridge 7 (To_hop 8) 0 (ap_server st'))"
proof -
  obtain st' res' where hop: "handle_hop toy_api sample_state toy_hop_request fresh_response = Some (st', res')"
    using toy_hop_handled by blast
  have ip: "portillia_crypto_derive_overlay_ipv4 (sc_sha256 toy_crypto) (or_empty (d_wireguard_public_key (h_forward_relay toy_route))) = ''100.64.0.1''"
    unfolding toy_crypto_def toy_route_def by code_simp
  have route: "route_key toy_route = ''app.r.io''" "or_empty (h_forward_token toy_route) = ''hpt_AQ''"
    by (simp_all add: route_key_def toy_route_def)
  show ?thesis
    using middle_hop_forwards [OF _ toy_installed _ _ hop, of "\<lambda>j. j" "sample_env\<lparr>he_dial := (\<lambda>ip tok. if ip = ''100.64.0.1'' \<and> tok = ''hpt_AQ'' then 8 else -1)\<rparr>"
        8 "\<lambda>m. m" 7] hop
    by (simp add: tree_json_laws toy_records MAX_RECORDS_def ip route) (simp add: sample_env_def)
qed

theorem entry_hop_unreachable_witness:
  "\<exists>st' res'. handle_hop toy_api sample_state toy_hop_request fresh_response = Some (st', res') \<and>
     portillia_server_handle_connect (\<lambda>m. m) (\<lambda>_. None) sample_env (ap_server st') ''app.r.io'' 7 = Some (close_fds [7] (ap_server st'))"
proof -
  obtain st' res' where hop: "handle_hop toy_api sample_state toy_hop_request fresh_response = Some (st', res')"
    using toy_hop_handled by blast
  have "h_public_hostname toy_route = Some ''app.r.io''" by (simp add: toy_route_def)
  moreover have "lease_registry_lookup (\<lambda>_. None) (sv_registry (ap_server sample_state)) ''app.r.io'' (he_now sample_env) = None"
    by (simp add: lease_registry_lookup_def live_match_def toy_records)
  ultimately show ?thesis
    using entry_hop_unreachable [OF _ toy_installed _ _ _ hop, of "\<lambda>j. j" "''app.r.io''" "\<lambda>_. None" sample_env "\<lambda>m. m" 7] hop
    by (simp add: tree_json_laws toy_records MAX_RECORDS_def)
qed

definition toy_exit_challenge :: "json api_call" where
  "toy_exit_challenge = Call_challenge (\<lambda>_. 7) 1000
     (json_request [(''identity'', JObject [(''name'', JString ''app''), (''address'', JString ''0xab'')]), (''hop_token'', JString ''hpt_AQ'')])"

theorem exit_hop_unreachable_witness:
  "portillia_server_handle_hop_stream (\<lambda>m. m) sample_env (ap_server (api_run toy_api [toy_exit_challenge] sample_state)) ''hpt_AQ'' 7 =
    Some (close_fds [7] (ap_server (api_run toy_api [toy_exit_challenge] sample_state)))"
  by (rule exit_hop_unreachable) (simp add: hop_tokens_def toy_records)

definition toy_relay :: "cstring \<Rightarrow> portillia_relay_state" where
  "toy_relay url = zero_relay_state\<lparr>descriptor := (sample_desc url ''0xab'' 1000)\<lparr>d_supports_overlay := True,
     d_wireguard_public_key := Some ''wg'', d_wireguard_port := 51820\<rparr>\<rparr>"

definition toy_relays :: "((cstring \<times> portillia_relay_state) list, unit) portillia_relay_set" where
  "toy_relays = \<lparr>rs_relays = map (\<lambda>u. (u, toy_relay u)) [''https://a.io'', ''https://b.io'', ''https://c.io''], rs_key_index = ()\<rparr>"

theorem hop_plan_chains_witness:
  "\<exists>path p. plan_hops toy_sdk toy_identity None (Some toy_relays) [Some ''https://a.io'', Some ''https://b.io'', Some ''https://c.io''] = Inr p \<and>
     hop_chain ''app.a.io'' path (hp_routes p) (hp_exit_token p) \<and> hp_exit_token p = Some ''hpt_AQ''"
proof -
  have norm: "normalize_relay_url (Some ''https://a.io'') = Some ''https://a.io''" "normalize_dns_label (Some ''app'') = Some ''app''"
    "sdk_normalize_hostname (Some (entry_root_host ''https://a.io'')) = ''a.io''" by code_simp+
  define us where "us = [Some ''https://a.io'', Some ''https://b.io'', Some ''https://c.io'']"
  have path: "hop_path (overlay_lookup toy_sdk toy_relays) us =
      Some (map (\<lambda>u. (u, descriptor (toy_relay u))) [''https://a.io'', ''https://b.io'', ''https://c.io''])" "length us = 3"
    by (simp_all add: us_def overlay_lookup_def portillia_relay_set_overlay_descriptor_def toy_relays_def list_table_def overlay_usable_def
        toy_relay_def sample_desc_def zero_relay_state_def portillia_relay_descriptor_init_def at_time_def
        portillia_relay_descriptor_has_overlay_peer_def)
  have tok: "derive_hop_token (sc_hmac_sha256 toy_crypto) (sc_encode_block toy_crypto) toy_identity h k f t = Some ''AQ''" for h k f t
    by (simp add: derive_hop_token_def toy_identity_def toy_crypto_def base64_raw_url_encode_def)
  have name: "id_name toy_identity = Some ''app''" by (simp add: toy_identity_def)
  obtain p where p: "plan_hops toy_sdk toy_identity None (Some toy_relays) us = Inr p"
    "hp_public_hostname p = ''app.a.io''" "hp_exit_token p = Some ''hpt_AQ''"
    by (simp add: plan_hops_def path name norm Let_def tok)
  then show ?thesis using hop_plan_chains [OF p(1)] unfolding us_def by auto
qed

end
