(* ===== verification/Conn_Channel.thy ===== *)
theory Conn_Channel
  imports Task_Queue
begin

text \<open>
  The channel of accepted connections of \<^verbatim>\<open>src/sdk/expose.c\<close>: a ring buffer of fixed capacity under a mutex, filled by the accept threads of the
  listeners and emptied by \<open>portillia_exposure_accept\<close>. It refines a bounded first-in first-out queue; closing it turns
  waiting and later readers away.
\<close>

record 'a conn_channel =
  ch_items :: "'a option list"
  ch_cap :: nat
  ch_count :: nat
  ch_head :: nat
  ch_tail :: nat
  ch_closed :: bool

definition channel_new :: "nat \<Rightarrow> 'a conn_channel" where
  "channel_new cap = \<lparr>ch_items = replicate cap None, ch_cap = cap, ch_count = 0, ch_head = 0, ch_tail = 0, ch_closed = False\<rparr>"

definition channel_close :: "'a conn_channel \<Rightarrow> 'a conn_channel" where
  "channel_close ch = ch\<lparr>ch_closed := True\<rparr>"

definition channel_put :: "'a \<Rightarrow> 'a conn_channel \<Rightarrow> 'a conn_channel" where
  "channel_put conn ch = ch\<lparr>ch_items := (ch_items ch)[ch_tail ch := Some conn], ch_tail := (ch_tail ch + 1) mod ch_cap ch,
     ch_count := ch_count ch + 1\<rparr>"

definition channel_push :: "'a \<Rightarrow> 'a conn_channel \<Rightarrow> 'a conn_channel \<times> bool" where
  "channel_push conn ch = (if ch_closed ch \<or> ch_count ch \<ge> ch_cap ch then (ch, False) else (channel_put conn ch, True))"

text \<open>Taking the oldest item; \<open>None\<close> when there is none.\<close>

definition channel_take :: "'a conn_channel \<Rightarrow> ('a \<times> 'a conn_channel) option" where
  "channel_take ch =
     (if ch_count ch = 0 then None
      else map_option (\<lambda>conn. (conn, ch\<lparr>ch_head := (ch_head ch + 1) mod ch_cap ch, ch_count := ch_count ch - 1\<rparr>))
             (ch_items ch ! ch_head ch))"

datatype 'a pop_result = Waits | Turned_away | Popped 'a

definition channel_pop :: "'a conn_channel \<Rightarrow> 'a conn_channel \<times> 'a pop_result" where
  "channel_pop ch =
     (if ch_count ch = 0 \<and> \<not> ch_closed ch then (ch, Waits)
      else if ch_closed ch then (ch, Turned_away)
      else case channel_take ch of None \<Rightarrow> (ch, Waits) | Some (conn, ch') \<Rightarrow> (ch', Popped conn))"

text \<open>Freeing: close, then clean up what is still queued, oldest first.\<close>

fun channel_drain :: "nat \<Rightarrow> 'a conn_channel \<Rightarrow> 'a list" where
  "channel_drain 0 ch = []"
| "channel_drain (Suc n) ch = (case channel_take ch of None \<Rightarrow> [] | Some (conn, ch') \<Rightarrow> conn # channel_drain n ch')"

definition channel_free :: "'a conn_channel \<Rightarrow> 'a list" where
  "channel_free ch = channel_drain (ch_count ch) (channel_close ch)"

section \<open>The queue behind the ring\<close>

definition slot :: "'a conn_channel \<Rightarrow> nat \<Rightarrow> nat" where
  "slot ch i = (ch_head ch + i) mod ch_cap ch"

definition channel_items :: "'a conn_channel \<Rightarrow> 'a list" where
  "channel_items ch = map (\<lambda>i. the (ch_items ch ! slot ch i)) [0..<ch_count ch]"

definition wf_channel :: "'a conn_channel \<Rightarrow> bool" where
  "wf_channel ch \<longleftrightarrow> 0 < ch_cap ch \<and> length (ch_items ch) = ch_cap ch \<and> ch_count ch \<le> ch_cap ch \<and> ch_head ch < ch_cap ch \<and>
     ch_tail ch = slot ch (ch_count ch) \<and> (\<forall>i < ch_count ch. ch_items ch ! slot ch i \<noteq> None)"

definition channel_room :: "'a conn_channel \<Rightarrow> bool" where
  "channel_room ch \<longleftrightarrow> ch_count ch < ch_cap ch"

lemma wf_channel_new [simp]: "0 < cap \<Longrightarrow> wf_channel (channel_new cap)" "channel_items (channel_new cap) = []"
  "ch_cap (channel_new cap) = cap"
  by (simp_all add: wf_channel_def channel_new_def slot_def channel_items_def)

lemma slot_inj: "slot ch i = slot ch j \<Longrightarrow> i < ch_cap ch \<Longrightarrow> j < ch_cap ch \<Longrightarrow> i = j"
proof (induction i j rule: linorder_wlog)
  case (le i j)
  then have "ch_cap ch dvd j - i"
    using mod_eq_dvd_iff_nat [of "ch_head ch + i" "ch_head ch + j" "ch_cap ch"] by (simp add: slot_def)
  then show ?case using le by (metis dvd_imp_le less_imp_diff_less not_less zero_less_diff order_le_less)
qed simp

lemma put_fields [simp]:
  "ch_cap (channel_put x ch) = ch_cap ch" "ch_head (channel_put x ch) = ch_head ch" "ch_count (channel_put x ch) = Suc (ch_count ch)"
  "slot (channel_put x ch) i = slot ch i" "ch_items (channel_put x ch) = (ch_items ch)[ch_tail ch := Some x]"
  "ch_tail (channel_put x ch) = (ch_tail ch + 1) mod ch_cap ch" "ch_closed (channel_put x ch) = ch_closed ch"
  by (simp_all add: channel_put_def slot_def)

lemma put_slot:
  assumes "wf_channel ch" "channel_room ch" "i \<le> ch_count ch"
  shows "ch_items (channel_put x ch) ! slot ch i = (if i = ch_count ch then Some x else ch_items ch ! slot ch i)"
proof -
  have "slot ch i \<noteq> slot ch (ch_count ch)" if "i < ch_count ch"
    using slot_inj [of ch i "ch_count ch"] that assms by (auto simp: channel_room_def)
  moreover have "slot ch (ch_count ch) < length (ch_items ch)" using assms(1) by (simp add: wf_channel_def slot_def)
  ultimately show ?thesis using assms by (auto simp: wf_channel_def)
qed

lemma wf_put: "wf_channel ch \<Longrightarrow> channel_room ch \<Longrightarrow> wf_channel (channel_put x ch)"
  using put_slot [of ch _ x]
  by (auto simp: wf_channel_def channel_room_def less_Suc_eq_le slot_def mod_simps add.assoc)

lemma items_put: "wf_channel ch \<Longrightarrow> channel_room ch \<Longrightarrow> channel_items (channel_put x ch) = channel_items ch @ [x]"
  using put_slot [of ch _ x] by (simp add: channel_items_def)

lemma take_cases:
  assumes "wf_channel ch" "ch_count ch \<noteq> 0"
  obtains x where "channel_take ch = Some (x, ch\<lparr>ch_head := slot ch (Suc 0), ch_count := ch_count ch - 1\<rparr>)"
    "channel_items ch = x # channel_items (ch\<lparr>ch_head := slot ch (Suc 0), ch_count := ch_count ch - 1\<rparr>)"
    "wf_channel (ch\<lparr>ch_head := slot ch (Suc 0), ch_count := ch_count ch - 1\<rparr>)"
proof -
  let ?ch = "ch\<lparr>ch_head := slot ch (Suc 0), ch_count := ch_count ch - 1\<rparr>"
  obtain n where n: "ch_count ch = Suc n" using assms(2) by (cases "ch_count ch") auto
  have slots: "slot (ch\<lparr>ch_head := slot ch (Suc 0), ch_count := m\<rparr>) i = slot ch (Suc i)" for i m by (simp add: slot_def mod_simps)
  have first: "slot ch 0 = ch_head ch" and less: "slot ch (Suc 0) < ch_cap ch" using assms(1) by (simp_all add: slot_def wf_channel_def)
  obtain x where x: "ch_items ch ! ch_head ch = Some x"
    using assms n first by (auto simp: wf_channel_def)
  have "channel_take ch = Some (x, ?ch)" using n x by (simp add: channel_take_def slot_def)
  moreover have "[0..<Suc n] = 0 # map Suc [0..<n]" by (simp add: upt_conv_Cons map_Suc_upt del: upt_Suc)
  then have "channel_items ch = x # channel_items ?ch"
    by (simp add: channel_items_def n first x slots del: upt_Suc)
  moreover have "wf_channel ?ch"
    using assms(1) n less unfolding wf_channel_def slots by simp
  ultimately show thesis using that by blast
qed

interpretation conns: fifo channel_items channel_room channel_put channel_take wf_channel
proof unfold_locales
  fix q :: "'a conn_channel"
  assume wf: "wf_channel q"
  show "channel_take q = None \<longleftrightarrow> channel_items q = []"
  proof (cases "ch_count q = 0")
    case False
    then show ?thesis by (rule take_cases [OF wf]) simp
  qed (simp add: channel_take_def channel_items_def)
  show "channel_items q = x # channel_items q' \<and> wf_channel q'" if t: "channel_take q = Some (x, q')" for x q'
  proof (cases "ch_count q = 0")
    case False
    then show ?thesis by (rule take_cases [OF wf]) (use t in auto)
  qed (use t in \<open>simp add: channel_take_def\<close>)
qed (simp_all add: items_put wf_put)

section \<open>What comes out\<close>

datatype 'a channel_op = Push 'a | Pop | Close

text \<open>A run of operations: the channel, the connections it accepted and those it handed out.\<close>

fun channel_exec :: "'a channel_op \<Rightarrow> 'a conn_channel \<times> 'a list \<times> 'a list \<Rightarrow> 'a conn_channel \<times> 'a list \<times> 'a list" where
  "channel_exec (Push x) (ch, ins, outs) = (case channel_push x ch of (ch', ok) \<Rightarrow> (ch', if ok then ins @ [x] else ins, outs))"
| "channel_exec Pop (ch, ins, outs) =
     (case channel_pop ch of (ch', r) \<Rightarrow> (ch', ins, case r of Popped x \<Rightarrow> outs @ [x] | _ \<Rightarrow> outs))"
| "channel_exec Close (ch, ins, outs) = (channel_close ch, ins, outs)"

definition channel_run :: "'a channel_op list \<Rightarrow> 'a conn_channel \<Rightarrow> 'a conn_channel \<times> 'a list \<times> 'a list" where
  "channel_run ops ch = fold channel_exec ops (ch, [], [])"

lemma close_fields [simp]:
  "channel_items (channel_close ch) = channel_items ch" "wf_channel (channel_close ch) = wf_channel ch"
  "ch_count (channel_close ch) = ch_count ch" "ch_cap (channel_close ch) = ch_cap ch"
  by (simp_all add: channel_close_def channel_items_def wf_channel_def slot_def)

lemma length_channel_items [simp]: "length (channel_items ch) = ch_count ch"
  by (simp add: channel_items_def)

lemma take_cap: "channel_take ch = Some (x, ch') \<Longrightarrow> ch_cap ch' = ch_cap ch"
  by (auto simp: channel_take_def split: if_splits)

lemma channel_exec_inv:
  assumes "channel_exec c (ch, ins, outs) = (ch', ins', outs')" "wf_channel ch" "ins = outs @ channel_items ch"
  shows "wf_channel ch' \<and> ins' = outs' @ channel_items ch' \<and> ch_cap ch' = ch_cap ch"
proof (cases c)
  case (Push x)
  then show ?thesis
    using assms by (auto simp: channel_push_def items_put wf_put channel_room_def split: if_splits)
next
  case Pop
  then show ?thesis
    using assms conns.pop_some [OF assms(2)]
    by (auto simp: channel_pop_def take_cap split: if_splits option.splits)
qed (use assms in auto)

lemma channel_fold_inv:
  assumes "fold channel_exec ops (ch, ins, outs) = (ch', ins', outs')" "wf_channel ch" "ins = outs @ channel_items ch"
  shows "wf_channel ch' \<and> ins' = outs' @ channel_items ch' \<and> ch_cap ch' = ch_cap ch"
  using assms
proof (induction ops arbitrary: ch ins outs)
  case (Cons c ops)
  obtain ch1 ins1 outs1 where step: "channel_exec c (ch, ins, outs) = (ch1, ins1, outs1)" by (metis prod.exhaust)
  note inv = channel_exec_inv [OF this Cons.prems(2,3)]
  show ?case using Cons.IH [of ch1 ins1 outs1] Cons.prems(1) step inv by simp
qed simp

lemma channel_drain_all: "wf_channel ch \<Longrightarrow> channel_drain (ch_count ch) ch = channel_items ch"
proof (induction "ch_count ch" arbitrary: ch)
  case (Suc n)
  let ?ch = "ch\<lparr>ch_head := slot ch (Suc 0), ch_count := ch_count ch - 1\<rparr>"
  have "ch_count ch \<noteq> 0" using Suc.hyps(2) by simp
  then obtain x where x: "channel_take ch = Some (x, ?ch)" "channel_items ch = x # channel_items ?ch" "wf_channel ?ch"
    by (rule take_cases [OF Suc.prems])
  moreover have "n = ch_count ?ch" by (simp flip: Suc.hyps(2))
  then have "channel_drain n ?ch = channel_items ?ch" using Suc.hyps(1) [of ?ch] x(3) by simp
  ultimately show ?case by (simp add: Suc.hyps(2) [symmetric])
qed (simp add: channel_items_def)

text \<open>The ring buffer is a bounded queue: whatever accept threads and readers do, in any order, and whether or not the channel is closed
  on the way, the connections handed out, followed by those that freeing it would clean up, are exactly
  the connections it accepted, in the order of their arrival. None is lost or handed out twice, and never more than its
  capacity wait.\<close>

theorem channel_in_order:
  assumes "channel_run ops (channel_new cap) = (ch, ins, outs)" "0 < cap"
  shows "ins = outs @ channel_free ch \<and> length (channel_free ch) \<le> cap"
proof -
  have inv: "wf_channel ch" "ins = outs @ channel_items ch" "ch_cap ch = cap"
    using channel_fold_inv [OF assms(1) [unfolded channel_run_def]] assms(2) by auto
  then have "channel_free ch = channel_items ch"
    using channel_drain_all [of "channel_close ch"] by (simp add: channel_free_def)
  then show ?thesis using inv by (simp add: wf_channel_def)
qed

theorem channel_in_order_witness:
  "\<exists>ch. channel_run [Push 1, Push 2, Pop, Push 3, Push (4 :: nat), Close, Pop] (channel_new 2) = (ch, [1, 2, 3], [1]) \<and>
     [1, 2, 3] = [1] @ channel_free ch"
proof -
  have "channel_run [Push 1, Push 2, Pop, Push 3, Push (4 :: nat), Close, Pop] (channel_new 2) =
      (\<lparr>ch_items = [Some 3, Some 2], ch_cap = 2, ch_count = 2, ch_head = 1, ch_tail = 1, ch_closed = True\<rparr>, [1, 2, 3], [1])"
    by code_simp
  then show ?thesis using channel_in_order [of _ 2] by fastforce
qed

end
