(* ===== verification/Discovery_Order.thy ===== *)
theory Discovery_Order
  imports Portillia_Prelude "HOL-Library.Signed_Division"
begin

text \<open>
  The order in which the discovery loop of \<^verbatim>\<open>src/sdk/expose.c\<close> polls relays: the URLs sorted by a weight and then permuted by
  an affine map whose step is coprime to their number and changes with the round.

  \<open>int\<close> is unbounded here; the theorems about a round are for numbers whose products stay below $2^{31}$. \<open>round\<close> is a 64-bit
  counter that the code converts to \<open>int\<close>. The square root of the C library and the rounding of \<open>double\<close> are the parameter
  \<open>weight\<close>, computed from the load of a relay.
\<close>

section \<open>Coprime steps\<close>

lemma smod_abs_less: "b \<noteq> 0 \<Longrightarrow> \<bar>a smod b\<bar> < \<bar>b :: int\<bar>"
  using smod_int_range [of b a] by auto

function gcd_val :: "int \<Rightarrow> int \<Rightarrow> int" where
  "gcd_val a b = (if b \<noteq> 0 then gcd_val b (a smod b) else if a < 0 then - a else a)"
  by pat_completeness auto
termination
  by (relation "measure (\<lambda>(a, b). nat \<bar>b\<bar>)") (auto simp: smod_abs_less)

function coprime_from :: "int \<Rightarrow> int \<Rightarrow> int" where
  "coprime_from n candidate =
     (if candidate < n then if gcd_val candidate n = 1 then candidate else coprime_from n (candidate + 1) else 1)"
  by pat_completeness auto
termination
  by (relation "measure (\<lambda>(n, c). nat (n - c))") auto

declare gcd_val.simps [simp del] coprime_from.simps [simp del]

definition pick_coprime_step :: "int \<Rightarrow> int \<Rightarrow> int" where
  "pick_coprime_step n round = (if n \<le> 1 then 1 else coprime_from n (round smod (n - 1) + 1))"

lemma gcd_val_eq_gcd: "gcd_val a b = gcd a b"
proof (induction a b rule: gcd_val.induct)
  case (1 a b)
  show ?case
  proof (cases "b = 0")
    case False
    have "a smod b = a + - (a sdiv b) * b" using minus_sdiv_mult_eq_smod [of a b] by simp
    then have "gcd b (a smod b) = gcd b (a + - (a sdiv b) * b)" by simp
    also have "\<dots> = gcd b a" by (metis add.commute gcd_add_mult)
    finally show ?thesis using 1 False by (simp add: gcd_val.simps [of a b] gcd.commute)
  qed (simp add: gcd_val.simps)
qed

lemma coprime_from_range:
  assumes "1 \<le> c" "c < n"
  shows "c \<le> coprime_from n c \<and> coprime_from n c < n \<and> gcd (coprime_from n c) n = 1"
  using assms
proof (induction n c rule: coprime_from.induct)
  case (1 n c)
  show ?case
  proof (cases "gcd c n = 1")
    case False
    have "gcd (n - 1) n = 1" by (metis coprime_iff_gcd_eq_1 coprime_diff_one_left)
    then have "c + 1 < n" using False 1 by (cases "c + 1 = n") auto
    then show ?thesis using 1 False by (auto simp: coprime_from.simps [of n c] gcd_val_eq_gcd)
  qed (use 1 in \<open>simp add: coprime_from.simps [of n c] gcd_val_eq_gcd\<close>)
qed

lemma pick_coprime_step_ok:
  assumes "1 < n" "0 \<le> r"
  shows "1 \<le> pick_coprime_step n r \<and> pick_coprime_step n r < n \<and> gcd (pick_coprime_step n r) n = 1"
proof -
  define c where "c = r smod (n - 1) + 1"
  have m: "0 \<le> r mod (n - 1)" "r mod (n - 1) < n - 1" using assms by simp_all
  have "c = r mod (n - 1) + 1" using assms smod_mod_positive [of r "n - 1"] by (simp add: c_def)
  with m have c: "1 \<le> c" "c < n" by linarith+
  have "pick_coprime_step n r = coprime_from n c" using assms(1) by (simp add: pick_coprime_step_def c_def)
  with coprime_from_range [OF c] c(1) show ?thesis by simp
qed

section \<open>Sorting and permuting\<close>

fun insert_by :: "('a \<Rightarrow> 'a \<Rightarrow> bool) \<Rightarrow> 'a \<Rightarrow> 'a list \<Rightarrow> 'a list" where
  "insert_by before x [] = [x]"
| "insert_by before x (y # ys) = (if before y x then y # insert_by before x ys else x # y # ys)"

text \<open>\<open>qsort\<close> with a comparison under which only equal strings are equal, so that its result is determined.\<close>

definition sort_by :: "('a \<Rightarrow> 'a \<Rightarrow> bool) \<Rightarrow> 'a list \<Rightarrow> 'a list" where
  "sort_by before xs = foldr (insert_by before) xs []"

definition weight_before :: "(cstring \<Rightarrow> 'w :: linorder) \<Rightarrow> cstring \<Rightarrow> cstring \<Rightarrow> bool" where
  "weight_before weight u v \<longleftrightarrow> weight u < weight v \<or> weight u = weight v \<and> strcmp_less u v"

definition ols_sorted :: "(cstring \<Rightarrow> 'w :: linorder) \<Rightarrow> cstring list \<Rightarrow> cstring list" where
  "ols_sorted weight urls = sort_by (weight_before weight) (sort_by strcmp_less urls)"

definition affine_slots :: "64 word \<Rightarrow> nat \<Rightarrow> int list" where
  "affine_slots round n0 =
     (let n = int n0; a = pick_coprime_step n (signed_take_bit 31 (uint round)); b = uint round mod n
      in map (\<lambda>i. (a * int i + b) smod n) [0..<n0])"

text \<open>A slot below zero would be a read in front of the array.\<close>

definition discovery_order :: "(cstring \<Rightarrow> 'w :: linorder) \<Rightarrow> 64 word \<Rightarrow> cstring list \<Rightarrow> cstring list option" where
  "discovery_order weight round urls =
     (if length urls > 1 then
        let slots = affine_slots round (length urls)
        in if list_all (\<lambda>s. 0 \<le> s) slots then Some (map (\<lambda>s. ols_sorted weight urls ! nat s) slots) else None
      else Some urls)"

lemma mset_insert_by: "mset (insert_by before x xs) = add_mset x (mset xs)"
  by (induction xs) auto

lemma mset_sort_by [simp]: "mset (sort_by before xs) = mset xs"
  unfolding sort_by_def by (induction xs) (simp_all add: mset_insert_by)

lemma mset_ols_sorted [simp]: "mset (ols_sorted weight urls) = mset urls"
  by (simp add: ols_sorted_def)

lemma length_ols_sorted [simp]: "length (ols_sorted weight urls) = length urls"
  by (rule mset_eq_length) simp

lemma mset_map_nth_permuted:
  assumes "inj_on f {0..<length xs}" "f ` {0..<length xs} \<subseteq> {0..<length xs}"
  shows "mset (map (\<lambda>i. xs ! f i) [0..<length xs]) = mset xs"
proof -
  have "f ` {0..<length xs} = {0..<length xs}" using assms by (simp add: endo_inj_surj)
  then have "mset (map f [0..<length xs]) = mset [0..<length xs]"
    using assms(1) by (simp add: image_mset_mset_set)
  then have "image_mset ((!) xs) (mset (map f [0..<length xs])) = mset (map ((!) xs) [0..<length xs])" by simp
  then show ?thesis by (simp add: multiset.map_comp comp_def map_nth)
qed

lemma affine_slots_eq:
  assumes "uint round < 2 ^ 31" "1 < n0"
  obtains a where "gcd a (int n0) = 1" "affine_slots round n0 = map (\<lambda>i. (a * int i + uint round) mod int n0) [0..<n0]"
proof -
  let ?a = "pick_coprime_step (int n0) (uint round)"
  have cast: "signed_take_bit 31 (uint round) = uint round"
    using assms(1) by (intro signed_take_bit_int_eq_self) (auto intro: order_trans [of _ 0])
  have a: "1 \<le> ?a" "gcd ?a (int n0) = 1" using pick_coprime_step_ok [of "int n0" "uint round"] assms(2) by auto
  have "(?a * int i + uint round mod int n0) smod int n0 = (?a * int i + uint round) mod int n0" for i
    using a(1) assms(2) by (subst smod_mod_positive) (auto simp: mod_add_right_eq)
  then show thesis using that [of ?a] a(2) by (simp add: affine_slots_def cast Let_def)
qed

lemma affine_slot_inj:
  assumes "gcd a (int n) = 1"
  shows "inj_on (\<lambda>i. nat ((a * int i + b) mod int n)) {0..<n}"
proof (rule inj_onI)
  fix i j assume ij: "i \<in> {0..<n}" "j \<in> {0..<n}" "nat ((a * int i + b) mod int n) = nat ((a * int j + b) mod int n)"
  then have "(a * int i + b) mod int n = (a * int j + b) mod int n" by (simp add: eq_nat_nat_iff)
  then have "int n dvd a * (int i - int j)" by (simp add: mod_eq_dvd_iff algebra_simps)
  then have "int n dvd int i - int j" using assms by (metis coprime_commute coprime_dvd_mult_right_iff coprime_iff_gcd_eq_1)
  then have "int i mod int n = int j mod int n" by (simp add: mod_eq_dvd_iff)
  then show "i = j" using ij(1,2) by simp
qed

lemma discovery_order_permuted:
  assumes "uint round < 2 ^ 31" "urls \<noteq> []"
  shows "\<exists>rest. discovery_order weight round urls =
      Some ((if length urls > 1 then ols_sorted weight urls ! nat (uint round mod int (length urls)) else hd urls) # rest)"
    and "\<exists>order. discovery_order weight round urls = Some order \<and> mset order = mset urls"
proof -
  let ?n = "length urls" and ?w = "ols_sorted weight urls"
  show "\<exists>rest. discovery_order weight round urls =
      Some ((if ?n > 1 then ?w ! nat (uint round mod int ?n) else hd urls) # rest)"
    "\<exists>order. discovery_order weight round urls = Some order \<and> mset order = mset urls"
  proof (atomize (full), cases "?n > 1")
    case True
    obtain a where a: "gcd a (int ?n) = 1" "affine_slots round ?n = map (\<lambda>i. (a * int i + uint round) mod int ?n) [0..<?n]"
      using assms(1) True by (rule affine_slots_eq)
    let ?f = "\<lambda>i. nat ((a * int i + uint round) mod int ?n)"
    have "list_all (\<lambda>s. 0 \<le> s) (affine_slots round ?n)" using True by (auto simp: a(2) list_all_iff intro!: pos_mod_sign)
    then have order: "discovery_order weight round urls = Some (map (\<lambda>i. ?w ! ?f i) [0..<?n])"
      using True by (simp add: discovery_order_def a(2) comp_def)
    have "?f ` {0..<length ?w} \<subseteq> {0..<length ?w}" 
    proof -
      have "0 < int ?n" using True by linarith
      then have "(a * int i + uint round) mod int ?n < int ?n" "0 \<le> (a * int i + uint round) mod int ?n" for i by simp_all
      then have "?f i < ?n" for i by (simp add: nat_less_iff)
      then show ?thesis by auto
    qed
    then have "mset (map (\<lambda>i. ?w ! ?f i) [0..<?n]) = mset ?w"
      using mset_map_nth_permuted [of ?f ?w] affine_slot_inj [OF a(1), of "uint round"] by simp
    moreover have "[0..<?n] = 0 # [Suc 0..<?n]" using True by (intro upt_conv_Cons) linarith
    ultimately show "(\<exists>rest. discovery_order weight round urls =
        Some ((if ?n > 1 then ?w ! nat (uint round mod int ?n) else hd urls) # rest)) \<and>
      (\<exists>order. discovery_order weight round urls = Some order \<and> mset order = mset urls)"
      using True order by simp
  next
    case False
    then have "urls = [hd urls]" using assms(2) by (cases urls) auto
    then show "(\<exists>rest. discovery_order weight round urls =
        Some ((if ?n > 1 then ?w ! nat (uint round mod int ?n) else hd urls) # rest)) \<and>
      (\<exists>order. discovery_order weight round urls = Some order \<and> mset order = mset urls)"
      using False by (auto simp: discovery_order_def)
  qed
qed



end
