(* ===== verification/Exposure.thy ===== *)
theory Exposure
  imports Sdk_Client Conn_Channel Discovery_Order
begin

text \<open>
  The exposure of the SDK, \<^verbatim>\<open>src/sdk/expose.c\<close>: the lists of explicit, seed and multi-hop relays, the listeners that are kept
  in step with them, the discovery loop and the channel of accepted connections.

  Listeners are the result of \<open>portillia_listener_new\<close>, a parameter here that may fail; a listener that was closed is
  recorded in \<open>ex_closed\<close>. The strings of the multi-hop path carry their addresses, since they can be freed twice; \<open>ex_freed\<close>
  records what was handed to \<open>portillia_gc_free_later\<close>. The other lists hold strings the callers pass, none of them null. An operation
  that holds the lock is one step; what follows it without the lock is modelled in sequence.
\<close>

section \<open>State\<close>

record hop_string =
  hs_addr :: nat
  hs_text :: cstring

record listener_args =
  la_url :: cstring
  la_identity :: portillia_identity
  la_metadata :: portillia_lease_metadata
  la_multi_hop :: "cstring list"
  la_udp_enabled :: bool
  la_tcp_enabled :: bool
  la_retry_count :: int
  la_insecure_skip_verify :: bool

record 't portillia_expose_config =
  ec_relay_urls :: "cstring list"
  ec_discovery :: bool
  ec_identity_path :: "cstring option"
  ec_identity_json :: "'t option"
  ec_name :: "cstring option"
  ec_target_addr :: "cstring option"
  ec_udp_addr :: "cstring option"
  ec_udp_enabled :: bool
  ec_tcp_enabled :: bool
  ec_multi_hop :: "cstring list"
  ec_multi_hop_depth :: int
  ec_ban_mitm :: bool
  ec_insecure_skip_verify :: bool
  ec_max_active_relays :: int
  ec_max_routing :: int
  ec_metadata :: portillia_lease_metadata

record ('l, 'c, 'r, 'k) portillia_exposure =
  ex_cancelled :: bool
  ex_identity :: portillia_identity
  ex_explicit_relays :: "cstring list"
  ex_seed_only_relays :: "cstring list"
  ex_target_addr :: "cstring option"
  ex_udp_addr :: "cstring option"
  ex_udp_enabled :: bool
  ex_tcp_enabled :: bool
  ex_multi_hop :: "hop_string list"
  ex_multi_hop_depth :: int
  ex_ban_mitm :: bool
  ex_insecure_skip_verify :: bool
  ex_max_active_relays :: int
  ex_max_routing :: int
  ex_metadata :: portillia_lease_metadata
  ex_accepted :: "'c conn_channel option"
  ex_relay_set :: "('r, 'k) portillia_relay_set option"
  ex_listeners :: "(cstring \<times> 'l) list"
  ex_discovery_running :: bool
  ex_closed :: "'l list"
  ex_freed :: "nat list"
  ex_next_addr :: nat
  ex_cleaned :: "'c list"

text \<open>What the exposure calls: the SDK client, the key index and protocol version of the relay set, the constructor of listeners,
  \<open>sqrt\<close>, and the file that holds the identity.\<close>

record ('j, 't, 'w, 'r, 'k, 'l) expose_env =
  xe_sdk :: "('j, 't, 'w, 'r) sdk_env"
  xe_keys :: "'k key_table"
  xe_version :: cstring
  xe_listener :: "listener_args \<Rightarrow> 'l option"
  xe_sqrt :: "real \<Rightarrow> real"
  xe_file :: "cstring \<Rightarrow> 't option"

section \<open>Keeping the listeners in step\<close>

text \<open>The relays that should have a listener: the exit of an explicit path, the selection of the relay set, or the explicit list.\<close>

definition desired_relays ::
  "('j, 't, 'w, 'r, 'k, 'l) expose_env \<Rightarrow> ('l, 'c, 'r, 'k) portillia_exposure \<Rightarrow> ('r, 'k) portillia_relay_set \<Rightarrow> cstring list" where
  "desired_relays env e rset =
     (if ex_multi_hop e \<noteq> [] then [hs_text (last (ex_multi_hop e))]
      else if ex_multi_hop_depth e > 1 then
        (case portillia_relay_set_priority_multi_hop (se_table (xe_sdk env)) rset
                \<lparr>c_explicit_relay_urls = [], c_suppressed_relay_urls = [],
                  c_max_active_relays = (if ex_max_active_relays e > 0 then ex_max_active_relays e else 4),
                  c_multi_hop_depth = ex_multi_hop_depth e, c_require_udp = ex_udp_enabled e, c_require_tcp = ex_tcp_enabled e,
                  c_local_address = ex_target_addr e\<rparr> (se_now (xe_sdk env)) of
           None \<Rightarrow> [] | Some urls \<Rightarrow> urls)
      else ex_explicit_relays e)"

definition exposure_remove_listener_at :: "nat \<Rightarrow> ('l, 'c, 'r, 'k) portillia_exposure \<Rightarrow> ('l, 'c, 'r, 'k) portillia_exposure" where
  "exposure_remove_listener_at idx e =
     (if length (ex_listeners e) \<le> idx then e
      else e\<lparr>ex_listeners := take idx (ex_listeners e) @ drop (Suc idx) (ex_listeners e),
             ex_closed := ex_closed e @ [snd (ex_listeners e ! idx)]\<rparr>)"

text \<open>The indices of the listeners nobody wants any more are collected first and then removed from the last to the first.\<close>

definition stale_indices :: "cstring list \<Rightarrow> (cstring \<times> 'l) list \<Rightarrow> nat list" where
  "stale_indices urls listeners = filter (\<lambda>i. fst (listeners ! i) \<notin> set urls) [0..<length listeners]"

definition listener_index_by_url :: "('l, 'c, 'r, 'k) portillia_exposure \<Rightarrow> cstring \<Rightarrow> nat option" where
  "listener_index_by_url e url = first_index (\<lambda>l. fst l = url) (ex_listeners e)"

definition listener_hops :: "('l, 'c, 'r, 'k) portillia_exposure \<Rightarrow> cstring \<Rightarrow> cstring list" where
  "listener_hops e url =
     (if ex_multi_hop e \<noteq> [] \<and> url = hs_text (last (ex_multi_hop e)) then map hs_text (ex_multi_hop e) else [])"

definition listener_args_of :: "('l, 'c, 'r, 'k) portillia_exposure \<Rightarrow> cstring \<Rightarrow> listener_args" where
  "listener_args_of e url =
     \<lparr>la_url = url, la_identity = ex_identity e, la_metadata = ex_metadata e, la_multi_hop = listener_hops e url,
      la_udp_enabled = ex_udp_enabled e, la_tcp_enabled = ex_tcp_enabled e, la_retry_count = 0,
      la_insecure_skip_verify = ex_insecure_skip_verify e\<rparr>"

definition add_listener ::
  "('j, 't, 'w, 'r, 'k, 'l) expose_env \<Rightarrow> cstring \<Rightarrow> ('l, 'c, 'r, 'k) portillia_exposure \<Rightarrow> ('l, 'c, 'r, 'k) portillia_exposure" where
  "add_listener env url e =
     (if listener_index_by_url e url \<noteq> None then e
      else case xe_listener env (listener_args_of e url) of
             None \<Rightarrow> e
           | Some l \<Rightarrow> e\<lparr>ex_listeners := ex_listeners e @ [(url, l)]\<rparr>)"

definition reconcile_relay_listeners ::
  "('j, 't, 'w, 'r, 'k, 'l) expose_env \<Rightarrow> ('l, 'c, 'r, 'k) portillia_exposure \<Rightarrow> ('l, 'c, 'r, 'k) portillia_exposure" where
  "reconcile_relay_listeners env e =
     (case ex_relay_set e of
        None \<Rightarrow> e
      | Some rset \<Rightarrow>
          let urls = desired_relays env e rset
          in fold (add_listener env) urls
               (fold exposure_remove_listener_at (rev (stale_indices urls (ex_listeners e))) e))"

section \<open>Operations\<close>

datatype expose_errno = EBADF | ENOSYS | EINVAL | ENOENT

definition with_relay_set ::
  "(('r, 'k) portillia_relay_set \<Rightarrow> ('r, 'k) portillia_relay_set) \<Rightarrow> ('l, 'c, 'r, 'k) portillia_exposure \<Rightarrow> ('l, 'c, 'r, 'k) portillia_exposure"
  where
  "with_relay_set f e = e\<lparr>ex_relay_set := map_option f (ex_relay_set e)\<rparr>"

definition allow_bootstrap ::
  "('j, 't, 'w, 'r, 'k, 'l) expose_env \<Rightarrow> cstring \<Rightarrow> ('r, 'k) portillia_relay_set \<Rightarrow> ('r, 'k) portillia_relay_set" where
  "allow_bootstrap env url rset =
     portillia_relay_set_add_bootstrap_url (se_table (xe_sdk env))
       (portillia_relay_set_allow_url (se_table (xe_sdk env)) rset url) (Some url)"

definition list_with :: "cstring \<Rightarrow> cstring list \<Rightarrow> cstring list" where
  "list_with url urls = (if url \<in> set urls then urls else urls @ [url])"

definition list_without :: "cstring \<Rightarrow> cstring list \<Rightarrow> cstring list" where
  "list_without url urls = filter (\<lambda>u. u \<noteq> url) urls"

text \<open>Taking a relay out of the multi-hop path. The strings that stay are moved to the front of the same array; when fewer than two stay, the
  whole array is freed, with the entries behind the moved ones as they were.\<close>

definition drop_hop :: "cstring \<Rightarrow> ('l, 'c, 'r, 'k) portillia_exposure \<Rightarrow> ('l, 'c, 'r, 'k) portillia_exposure" where
  "drop_hop url e =
     (if url \<notin> hs_text ` set (ex_multi_hop e) then e
      else let kept = filter (\<lambda>h. hs_text h \<noteq> url) (ex_multi_hop e);
               gone = filter (\<lambda>h. hs_text h = url) (ex_multi_hop e);
               arr = kept @ drop (length kept) (ex_multi_hop e)
           in if length kept < 2
              then e\<lparr>ex_multi_hop := [], ex_multi_hop_depth := 0, ex_freed := ex_freed e @ map hs_addr gone @ map hs_addr arr\<rparr>
              else e\<lparr>ex_multi_hop := kept, ex_freed := ex_freed e @ map hs_addr gone\<rparr>)"

text \<open>\<open>string_list_copy\<close> for the path: new strings at new addresses.\<close>

definition copy_hops :: "nat \<Rightarrow> cstring list \<Rightarrow> hop_string list" where
  "copy_hops addr urls = map2 (\<lambda>a u. \<lparr>hs_addr = a, hs_text = u\<rparr>) [addr..<addr + length urls] urls"

definition portillia_exposure_add_relay ::
  "('j, 't, 'w, 'r, 'k, 'l) expose_env \<Rightarrow> cstring \<Rightarrow> ('l, 'c, 'r, 'k) portillia_exposure \<Rightarrow>
   ('l, 'c, 'r, 'k) portillia_exposure \<times> expose_errno option" where
  "portillia_exposure_add_relay env url e =
     (if ex_cancelled e then (e, Some EBADF)
      else (reconcile_relay_listeners env (with_relay_set (allow_bootstrap env url)
              (e\<lparr>ex_explicit_relays := list_with url (ex_explicit_relays e),
                 ex_seed_only_relays := list_without url (ex_seed_only_relays e)\<rparr>)), None))"

definition portillia_exposure_remove_relay ::
  "('j, 't, 'w, 'r, 'k, 'l) expose_env \<Rightarrow> cstring \<Rightarrow> ('l, 'c, 'r, 'k) portillia_exposure \<Rightarrow>
   ('l, 'c, 'r, 'k) portillia_exposure \<times> expose_errno option" where
  "portillia_exposure_remove_relay env url e =
     (if ex_cancelled e then (e, Some EBADF)
      else let tb = se_table (xe_sdk env);
               e1 = drop_hop url (e\<lparr>ex_explicit_relays := list_without url (ex_explicit_relays e),
                                    ex_seed_only_relays := list_without url (ex_seed_only_relays e)\<rparr>)
           in (reconcile_relay_listeners env (with_relay_set
                 (\<lambda>rset. portillia_relay_set_remove_bootstrap_url tb (portillia_relay_set_ban_url tb rset url) (Some url)) e1), None))"

definition portillia_exposure_seed_relay ::
  "('j, 't, 'w, 'r, 'k, 'l) expose_env \<Rightarrow> cstring \<Rightarrow> ('l, 'c, 'r, 'k) portillia_exposure \<Rightarrow>
   ('l, 'c, 'r, 'k) portillia_exposure \<times> expose_errno option" where
  "portillia_exposure_seed_relay env url e =
     (if ex_cancelled e then (e, Some EBADF)
      else let e1 = drop_hop url (e\<lparr>ex_explicit_relays := list_without url (ex_explicit_relays e)\<rparr>);
               e2 = e1\<lparr>ex_seed_only_relays := list_with url (ex_seed_only_relays e1)\<rparr>
           in (reconcile_relay_listeners env (with_relay_set (allow_bootstrap env url) e2), None))"

definition portillia_exposure_set_multi_hop ::
  "('j, 't, 'w, 'r, 'k, 'l) expose_env \<Rightarrow> cstring list \<Rightarrow> ('l, 'c, 'r, 'k) portillia_exposure \<Rightarrow>
   ('l, 'c, 'r, 'k) portillia_exposure \<times> expose_errno option" where
  "portillia_exposure_set_multi_hop env urls e =
     (if ex_cancelled e then (e, Some EBADF)
      else if length urls = 1 then (e, Some EINVAL)
      else if (urls \<noteq> [] \<or> ex_multi_hop_depth e > 1) \<and> (ex_udp_enabled e \<or> ex_tcp_enabled e) then (e, Some EINVAL)
      else let e1 = e\<lparr>ex_freed := ex_freed e @ map hs_addr (ex_multi_hop e),
                      ex_multi_hop := copy_hops (ex_next_addr e) urls, ex_next_addr := ex_next_addr e + length urls, ex_multi_hop_depth := 0,
                      ex_seed_only_relays := filter (\<lambda>u. u \<notin> set urls) (ex_seed_only_relays e)\<rparr>
           in (reconcile_relay_listeners env (with_relay_set (fold (allow_bootstrap env) urls) e1), None))"

definition portillia_exposure_active_relay_urls :: "('l, 'c, 'r, 'k) portillia_exposure \<Rightarrow> cstring list" where
  "portillia_exposure_active_relay_urls e = map fst (ex_listeners e)"

definition portillia_exposure_accept ::
  "('l, 'c, 'r, 'k) portillia_exposure \<Rightarrow> ('l, 'c, 'r, 'k) portillia_exposure \<times> (expose_errno + 'c pop_result)" where
  "portillia_exposure_accept e =
     (if ex_cancelled e then (e, Inl EBADF)
      else case ex_accepted e of
             None \<Rightarrow> (e, Inl ENOSYS)
           | Some ch \<Rightarrow> (case channel_pop ch of (ch', r) \<Rightarrow> (e\<lparr>ex_accepted := Some ch'\<rparr>, Inr r)))"

definition portillia_exposure_close :: "('l, 'c, 'r, 'k) portillia_exposure \<Rightarrow> ('l, 'c, 'r, 'k) portillia_exposure" where
  "portillia_exposure_close e =
     (if ex_cancelled e then e
      else e\<lparr>ex_cancelled := True, ex_closed := ex_closed e @ map snd (ex_listeners e), ex_listeners := [], ex_relay_set := None,
             ex_discovery_running := False,
             ex_cleaned := ex_cleaned e @ (case ex_accepted e of None \<Rightarrow> [] | Some ch \<Rightarrow> channel_free ch), ex_accepted := None,
             ex_freed := ex_freed e @ map hs_addr (ex_multi_hop e)\<rparr>)"

section \<open>Creating an exposure\<close>

definition read_identity :: "('j, 't) cjson \<Rightarrow> 't \<Rightarrow> portillia_identity" where
  "read_identity api text =
     (case cj_parse api text of
        None \<Rightarrow> portillia_identity_init
      | Some doc \<Rightarrow> portillia_identity_init\<lparr>id_name := str_member api doc ''name'', id_address := str_member api doc ''address'',
          id_public_key := str_member api doc ''public_key'', id_private_key := str_member api doc ''private_key''\<rparr>)"

definition expose_identity ::
  "('j, 't, 'w, 'r, 'k, 'l) expose_env \<Rightarrow> 't portillia_expose_config \<Rightarrow> portillia_identity" where
  "expose_identity env cfg =
     (let text = (if nonempty (ec_identity_path cfg) then xe_file env (or_empty (ec_identity_path cfg)) else ec_identity_json cfg);
          id = (case text of None \<Rightarrow> portillia_identity_init | Some t \<Rightarrow> read_identity (se_json (xe_sdk env)) t)
      in if id_name id = None then id\<lparr>id_name := ec_name cfg\<rparr> else id)"

definition portillia_expose ::
  "('j, 't, 'w, 'r, 'k, 'l) expose_env \<Rightarrow> 't portillia_expose_config \<Rightarrow> ('l, 'c, 'r, 'k) portillia_exposure" where
  "portillia_expose env cfg =
     (let e = \<lparr>ex_cancelled = False, ex_identity = expose_identity env cfg, ex_explicit_relays = ec_relay_urls cfg,
            ex_seed_only_relays = [], ex_target_addr = ec_target_addr cfg, ex_udp_addr = ec_udp_addr cfg,
            ex_udp_enabled = ec_udp_enabled cfg, ex_tcp_enabled = ec_tcp_enabled cfg, ex_multi_hop = copy_hops 0 (ec_multi_hop cfg),
            ex_multi_hop_depth = ec_multi_hop_depth cfg, ex_ban_mitm = ec_ban_mitm cfg,
            ex_insecure_skip_verify = ec_insecure_skip_verify cfg, ex_max_active_relays = ec_max_active_relays cfg,
            ex_max_routing = (if ec_max_routing cfg > 0 then ec_max_routing cfg else 1),
            ex_metadata = portillia_lease_metadata_copy portillia_lease_metadata_init (ec_metadata cfg),
            ex_accepted = Some (channel_new 128),
            ex_relay_set = Some (portillia_relay_set_create (se_table (xe_sdk env)) (xe_keys env) (map Some (ec_relay_urls cfg))),
            ex_listeners = [], ex_discovery_running = False, ex_closed = [], ex_freed = [],
            ex_next_addr = length (ec_multi_hop cfg), ex_cleaned = []\<rparr>;
          e' = reconcile_relay_listeners env e
      in if ec_discovery cfg \<or> ex_multi_hop e' \<noteq> [] \<or> ex_multi_hop_depth e' > 1 then e'\<lparr>ex_discovery_running := True\<rparr> else e')"

section \<open>The discovery loop\<close>

text \<open>The weight of a relay, one round, and the loop for a number of rounds. A round that leaves the array of sorted relays is \<open>None\<close>.\<close>

definition compensated_weight ::
  "('j, 't, 'w, 'r, 'k, 'l) expose_env \<Rightarrow> ('r, 'k) portillia_relay_set option \<Rightarrow> cstring \<Rightarrow> real" where
  "compensated_weight env rset url =
     (let load = (case rset of
                    None \<Rightarrow> 0
                  | Some s \<Rightarrow> (case tt_get (se_table (xe_sdk env)) (rs_relays s) url of None \<Rightarrow> 0 | Some st \<Rightarrow> d_load (descriptor st)));
          load' = (if load < 0 then 0 else load)
      in xe_sqrt env (load' * load' + 1))"

text \<open>An answer without a protocol version makes the relay set compare a null pointer.\<close>

definition poll_relay ::
  "('j, 't, 'w, 'r, 'k, 'l) expose_env \<Rightarrow> bool \<Rightarrow> cstring \<Rightarrow> 'w \<times> ('r, 'k) portillia_relay_set \<Rightarrow>
   ('w \<times> ('r, 'k) portillia_relay_set) option" where
  "poll_relay env insecure url = (\<lambda>(w, rset).
     case portillia_http_client_create (Some url) insecure of
       None \<Rightarrow> Some (w, rset)
     | Some client \<Rightarrow>
         (case portillia_api_discover_relays (xe_sdk env) client w of
            (w', Inl _) \<Rightarrow> Some (w', rset)
          | (w', Inr (None, _, _)) \<Rightarrow> None
          | (w', Inr (Some version, generated_at, relays)) \<Rightarrow>
              Some (w', fst (portillia_relay_set_apply_discovery_response (se_table (xe_sdk env)) (xe_keys env) (xe_version env) rset
                 (Some url) \<lparr>dr_protocol_version = version, dr_generated_at = generated_at, dr_relays = relays\<rparr>
                 (se_now (xe_sdk env)) (se_now (xe_sdk env))))))"

fun poll_relays ::
  "('j, 't, 'w, 'r, 'k, 'l) expose_env \<Rightarrow> bool \<Rightarrow> cstring list \<Rightarrow> 'w \<times> ('r, 'k) portillia_relay_set \<Rightarrow>
   ('w \<times> ('r, 'k) portillia_relay_set) option" where
  "poll_relays env insecure [] st = Some st"
| "poll_relays env insecure (url # urls) st =
     (case poll_relay env insecure url st of None \<Rightarrow> None | Some st' \<Rightarrow> poll_relays env insecure urls st')"

definition discovery_round ::
  "('j, 't, 'w, 'r, 'k, 'l) expose_env \<Rightarrow> 64 word \<Rightarrow> ('l, 'c, 'r, 'k) portillia_exposure \<Rightarrow> 'w \<Rightarrow>
   ('w \<times> ('l, 'c, 'r, 'k) portillia_exposure) option" where
  "discovery_round env rnd e w =
     (case discovery_order (compensated_weight env (ex_relay_set e)) rnd (ex_explicit_relays e @ ex_seed_only_relays e) of
        None \<Rightarrow> None
      | Some order \<Rightarrow>
          (case ex_relay_set e of
             None \<Rightarrow> Some (w, e)
           | Some rset \<Rightarrow>
               (case poll_relays env (ex_insecure_skip_verify e)
                       (take (nat (if ex_max_routing e > 0 then ex_max_routing e else 1)) order) (w, rset) of
                  None \<Rightarrow> None
                | Some (w', rset') \<Rightarrow> Some (w', reconcile_relay_listeners env (e\<lparr>ex_relay_set := Some rset'\<rparr>)))))"

section \<open>What reconciling does\<close>

definition wanted :: "cstring list \<Rightarrow> (cstring \<times> 'l) \<Rightarrow> bool" where
  "wanted urls l \<longleftrightarrow> fst l \<in> set urls"

lemma stale_indices_snoc:
  "stale_indices urls (xs @ [x]) = stale_indices urls xs @ (if wanted urls x then [] else [length xs])"
proof -
  have "filter (\<lambda>i. fst ((xs @ [x]) ! i) \<notin> set urls) [0..<length xs] = filter (\<lambda>i. fst (xs ! i) \<notin> set urls) [0..<length xs]"
    by (rule filter_cong) (simp_all add: nth_append)
  then show ?thesis by (simp add: stale_indices_def wanted_def)
qed

lemma remove_stale:
  "ex_listeners e = xs @ ys \<Longrightarrow>
   fold exposure_remove_listener_at (rev (stale_indices urls xs)) e =
     e\<lparr>ex_listeners := filter (wanted urls) xs @ ys,
       ex_closed := ex_closed e @ rev (map snd (filter (\<lambda>l. \<not> wanted urls l) xs))\<rparr>"
proof (induction xs arbitrary: ys e rule: rev_induct)
  case Nil
  then show ?case by (simp add: stale_indices_def)
next
  case (snoc x xs)
  show ?case
  proof (cases "wanted urls x")
    case True
    then show ?thesis using snoc.IH [of e "x # ys"] snoc.prems by (simp add: stale_indices_snoc)
  next
    case False
    let ?e = "e\<lparr>ex_listeners := xs @ ys, ex_closed := ex_closed e @ [snd x]\<rparr>"
    have "exposure_remove_listener_at (length xs) e = ?e"
      using snoc.prems by (simp add: exposure_remove_listener_at_def)
    then show ?thesis using snoc.IH [of ?e ys] False by (simp add: stale_indices_snoc)
  qed
qed

definition same_but_listeners :: "('l, 'c, 'r, 'k) portillia_exposure \<Rightarrow> ('l, 'c, 'r, 'k) portillia_exposure \<Rightarrow> bool" where
  "same_but_listeners e e' \<longleftrightarrow> e' = e\<lparr>ex_listeners := ex_listeners e'\<rparr>"

lemma listener_args_same: "same_but_listeners e e' \<Longrightarrow> listener_args_of e' url = listener_args_of e url"
  unfolding same_but_listeners_def by (cases e; cases e') (simp add: listener_args_of_def listener_hops_def)

lemma index_by_url_None [simp]: "listener_index_by_url e url = None \<longleftrightarrow> url \<notin> fst ` set (ex_listeners e)"
  by (auto simp: listener_index_by_url_def first_index_None)

lemma add_listeners:
  assumes "same_but_listeners e0 e"
  shows "same_but_listeners e0 (fold (add_listener env) urls e) \<and>
    (\<exists>new. ex_listeners (fold (add_listener env) urls e) = ex_listeners e @ new \<and>
      (distinct (map fst (ex_listeners e)) \<longrightarrow> distinct (map fst (ex_listeners e @ new))) \<and>
      fst ` set new = {u \<in> set urls. u \<notin> fst ` set (ex_listeners e) \<and> xe_listener env (listener_args_of e0 u) \<noteq> None})"
  using assms
proof (induction urls arbitrary: e)
  case (Cons url urls)
  show ?case
  proof (cases "url \<notin> fst ` set (ex_listeners e) \<and> xe_listener env (listener_args_of e0 url) \<noteq> None")
    case False
    then have "add_listener env url e = e"
      using listener_args_same [OF Cons.prems, of url] by (auto simp: add_listener_def)
    then show ?thesis using Cons.IH [OF Cons.prems] False by (auto 0 3)
  next
    case True
    then obtain l where l: "xe_listener env (listener_args_of e0 url) = Some l" by blast
    let ?e = "e\<lparr>ex_listeners := ex_listeners e @ [(url, l)]\<rparr>"
    have step: "add_listener env url e = ?e"
      using True l listener_args_same [OF Cons.prems, of url] by (simp add: add_listener_def)
    have "same_but_listeners e0 ?e" using Cons.prems unfolding same_but_listeners_def by (cases e; cases e0) simp
    from Cons.IH [OF this] obtain new where new: "same_but_listeners e0 (fold (add_listener env) urls ?e)"
      "ex_listeners (fold (add_listener env) urls ?e) = ex_listeners e @ (url, l) # new"
      "distinct (map fst (ex_listeners ?e)) \<longrightarrow> distinct (map fst (ex_listeners e @ (url, l) # new))"
      "fst ` set new = {u \<in> set urls. u \<notin> fst ` set (ex_listeners ?e) \<and> xe_listener env (listener_args_of e0 u) \<noteq> None}"
      by auto
    show ?thesis
      using new True step l by (intro conjI exI [of _ "(url, l) # new"]) auto
  qed
qed simp

lemma reconcile_effect:
  assumes "ex_relay_set e = Some rset" "urls = desired_relays env e rset"
  obtains new where
    "reconcile_relay_listeners env e =
      e\<lparr>ex_listeners := filter (wanted urls) (ex_listeners e) @ new,
        ex_closed := ex_closed e @ rev (map snd (filter (\<lambda>l. \<not> wanted urls l) (ex_listeners e)))\<rparr>"
    "fst ` set new = {u \<in> set urls. u \<notin> fst ` set (ex_listeners e) \<and> xe_listener env (listener_args_of e u) \<noteq> None}"
    "distinct (map fst (ex_listeners e)) \<longrightarrow> distinct (map fst (filter (wanted urls) (ex_listeners e) @ new))"
proof -
  let ?kept = "filter (wanted urls) (ex_listeners e)"
  let ?e1 = "e\<lparr>ex_listeners := ?kept, ex_closed := ex_closed e @ rev (map snd (filter (\<lambda>l. \<not> wanted urls l) (ex_listeners e)))\<rparr>"
  have stale: "fold exposure_remove_listener_at (rev (stale_indices urls (ex_listeners e))) e = ?e1"
    using remove_stale [of e "ex_listeners e" "[]"] by simp
  have "same_but_listeners ?e1 ?e1" by (simp add: same_but_listeners_def)
  from add_listeners [OF this, of env urls] obtain new where new: "same_but_listeners ?e1 (fold (add_listener env) urls ?e1)"
    "ex_listeners (fold (add_listener env) urls ?e1) = ?kept @ new"
    "distinct (map fst ?kept) \<longrightarrow> distinct (map fst (?kept @ new))"
    "fst ` set new = {u \<in> set urls. u \<notin> fst ` set ?kept \<and> xe_listener env (listener_args_of ?e1 u) \<noteq> None}" by auto
  have args: "listener_args_of ?e1 u = listener_args_of e u" for u by (simp add: listener_args_of_def listener_hops_def)
  have kept: "u \<notin> fst ` set ?kept \<longleftrightarrow> u \<notin> fst ` set (ex_listeners e)" if "u \<in> set urls" for u
    using that by (auto simp: wanted_def)
  show thesis
  proof (rule that)
    have "fold (add_listener env) urls ?e1 = ?e1\<lparr>ex_listeners := ?kept @ new\<rparr>"
      using new(1,2) unfolding same_but_listeners_def by simp
    then show "reconcile_relay_listeners env e = e\<lparr>ex_listeners := ?kept @ new,
        ex_closed := ex_closed e @ rev (map snd (filter (\<lambda>l. \<not> wanted urls l) (ex_listeners e)))\<rparr>"
      using assms stale by (simp add: reconcile_relay_listeners_def Let_def)
    show "fst ` set new = {u \<in> set urls. u \<notin> fst ` set (ex_listeners e) \<and> xe_listener env (listener_args_of e u) \<noteq> None}"
      using kept by (simp add: new(4) args cong: conj_cong)
    show "distinct (map fst (ex_listeners e)) \<longrightarrow> distinct (map fst (?kept @ new))"
      using new(3) by (auto simp: distinct_map_filter)
  qed
qed


section \<open>A relay that was removed\<close>

datatype expose_op = Add_relay cstring | Remove_relay cstring | Seed_relay cstring | Set_hops "cstring list" | Discover "64 word"

fun expose_exec ::
  "('j, 't, 'w, 'r, 'k, 'l) expose_env \<Rightarrow> expose_op \<Rightarrow> 'w \<times> ('l, 'c, 'r, 'k) portillia_exposure \<Rightarrow>
   ('w \<times> ('l, 'c, 'r, 'k) portillia_exposure) option" where
  "expose_exec env (Add_relay url) (w, e) = Some (w, fst (portillia_exposure_add_relay env url e))"
| "expose_exec env (Remove_relay url) (w, e) = Some (w, fst (portillia_exposure_remove_relay env url e))"
| "expose_exec env (Seed_relay url) (w, e) = Some (w, fst (portillia_exposure_seed_relay env url e))"
| "expose_exec env (Set_hops urls) (w, e) = Some (w, fst (portillia_exposure_set_multi_hop env urls e))"
| "expose_exec env (Discover rnd) (w, e) = discovery_round env rnd e w"

fun expose_run ::
  "('j, 't, 'w, 'r, 'k, 'l) expose_env \<Rightarrow> expose_op list \<Rightarrow> 'w \<times> ('l, 'c, 'r, 'k) portillia_exposure \<Rightarrow>
   ('w \<times> ('l, 'c, 'r, 'k) portillia_exposure) option" where
  "expose_run env [] st = Some st"
| "expose_run env (op # ops) st = (case expose_exec env op st of None \<Rightarrow> None | Some st' \<Rightarrow> expose_run env ops st')"

text \<open>The URLs an operation brings back, and those it names.\<close>

fun brings_back :: "expose_op \<Rightarrow> cstring set" where
  "brings_back (Add_relay url) = {url}"
| "brings_back (Seed_relay url) = {url}"
| "brings_back (Set_hops urls) = set urls"
| "brings_back _ = {}"

fun names_urls :: "expose_op \<Rightarrow> cstring set" where
  "names_urls (Remove_relay url) = {url}"
| "names_urls op = brings_back op"

definition answers_within :: "('j, 't, 'w, 'r, 'k, 'l) expose_env \<Rightarrow> cstring set \<Rightarrow> bool" where
  "answers_within env U \<longleftrightarrow> (\<forall>client w w' version generated_at relays.
     portillia_api_discover_relays (xe_sdk env) client w = (w', Inr (version, generated_at, relays)) \<longrightarrow> url_of ` set relays \<subseteq> U)"

definition relays_ok ::
  "('j, 't, 'w, 'r, 'k, 'l) expose_env \<Rightarrow> ('r \<Rightarrow> bool) \<Rightarrow> cstring set \<Rightarrow> cstring set \<Rightarrow> ('l, 'c, 'r, 'k) portillia_exposure \<Rightarrow> bool" where
  "relays_ok env valid U X e \<longleftrightarrow>
     (\<forall>rset. ex_relay_set e = Some rset \<longrightarrow> relay_inv (se_table (xe_sdk env)) valid U X (rs_relays rset))"

definition stays_out ::
  "('j, 't, 'w, 'r, 'k, 'l) expose_env \<Rightarrow> ('r \<Rightarrow> bool) \<Rightarrow> cstring set \<Rightarrow> cstring \<Rightarrow> ('l, 'c, 'r, 'k) portillia_exposure \<Rightarrow> bool" where
  "stays_out env valid U url e \<longleftrightarrow> url \<notin> set (ex_explicit_relays e) \<and> url \<notin> hs_text ` set (ex_multi_hop e) \<and>
     relays_ok env valid U {url} e"

definition expose_ctx :: "('j, 't, 'w, 'r, 'k, 'l) expose_env \<Rightarrow> ('r \<Rightarrow> bool) \<Rightarrow> cstring set \<Rightarrow> bool" where
  "expose_ctx env valid U \<longleftrightarrow> table_laws (se_table (xe_sdk env)) valid \<and> canonical U \<and> answers_within env U"

lemma not_desired:
  assumes "table_laws (se_table (xe_sdk env)) valid" "stays_out env valid U url e" "ex_relay_set e = Some rset"
  shows "url \<notin> set (desired_relays env e rset)"
proof -
  have "relay_inv (se_table (xe_sdk env)) valid U {url} (rs_relays rset)" using assms(2,3) by (simp add: stays_out_def relays_ok_def)
  note banned = banned_not_selectable [OF assms(1) this]
  have "url \<notin> set urls" if "portillia_relay_set_priority_multi_hop (se_table (xe_sdk env)) rset client now = Some urls" for client now urls
    using that banned select_multihop_from unfolding portillia_relay_set_priority_multi_hop_def by metis
  moreover have "hs_text (last (ex_multi_hop e)) \<noteq> url" if "ex_multi_hop e \<noteq> []"
    using that assms(2) by (auto simp: stays_out_def)
  ultimately show ?thesis using assms(2) by (auto simp: desired_relays_def stays_out_def split: option.splits)
qed

lemma reconcile_shape: "\<exists>ls cl. reconcile_relay_listeners env e = e\<lparr>ex_listeners := ls, ex_closed := cl\<rparr>"
proof (cases "ex_relay_set e")
  case None
  then have "reconcile_relay_listeners env e = e\<lparr>ex_listeners := ex_listeners e, ex_closed := ex_closed e\<rparr>"
    by (simp add: reconcile_relay_listeners_def)
  then show ?thesis by blast
next
  case (Some rset)
  show ?thesis by (rule reconcile_effect [OF Some refl, of env]) blast
qed

lemma reconcile_fields:
  "ex_explicit_relays (reconcile_relay_listeners env e) = ex_explicit_relays e"
  "ex_multi_hop (reconcile_relay_listeners env e) = ex_multi_hop e"
  "ex_relay_set (reconcile_relay_listeners env e) = ex_relay_set e" "ex_freed (reconcile_relay_listeners env e) = ex_freed e"
  "ex_seed_only_relays (reconcile_relay_listeners env e) = ex_seed_only_relays e"
  "ex_cancelled (reconcile_relay_listeners env e) = ex_cancelled e"
  "ex_multi_hop_depth (reconcile_relay_listeners env e) = ex_multi_hop_depth e"
  "ex_insecure_skip_verify (reconcile_relay_listeners env e) = ex_insecure_skip_verify e"
  using reconcile_shape [of env e] by auto

lemma reconcile_stays_out:
  assumes "expose_ctx env valid U" "stays_out env valid U url e" "ex_relay_set e = None \<longrightarrow> url \<notin> set (portillia_exposure_active_relay_urls e)"
  shows "stays_out env valid U url (reconcile_relay_listeners env e) \<and>
    url \<notin> set (portillia_exposure_active_relay_urls (reconcile_relay_listeners env e))"
proof (cases "ex_relay_set e")
  case None
  then show ?thesis using assms by (simp add: reconcile_relay_listeners_def)
next
  case (Some rset)
  have "url \<notin> set (desired_relays env e rset)" using not_desired [OF _ assms(2) Some] assms(1) by (simp add: expose_ctx_def)
  moreover obtain new where "ex_listeners (reconcile_relay_listeners env e) =
      filter (wanted (desired_relays env e rset)) (ex_listeners e) @ new" "fst ` set new \<subseteq> set (desired_relays env e rset)"
    by (rule reconcile_effect [OF Some refl, of env]) auto
  ultimately have "url \<notin> fst ` set (ex_listeners (reconcile_relay_listeners env e))" by (auto simp: wanted_def)
  then show ?thesis using assms(2) by (simp add: stays_out_def relays_ok_def reconcile_fields portillia_exposure_active_relay_urls_def)
qed

lemma relays_ok_update:
  assumes "relays_ok env valid U X e"
    and "\<And>rset. relay_inv (se_table (xe_sdk env)) valid U X (rs_relays rset) \<Longrightarrow> relay_inv (se_table (xe_sdk env)) valid U Y (rs_relays (f rset))"
  shows "relays_ok env valid U Y (with_relay_set f e)"
  using assms by (auto simp: relays_ok_def with_relay_set_def)

lemma allow_bootstrap_inv:
  assumes "expose_ctx env valid U" "X \<subseteq> U" "u \<in> U" "u \<notin> X" "relay_inv (se_table (xe_sdk env)) valid U X (rs_relays rset)"
  shows "relay_inv (se_table (xe_sdk env)) valid U X (rs_relays (allow_bootstrap env u rset))"
proof -
  have ctx: "relay_ctx (se_table (xe_sdk env)) valid U X" using assms(1,2) by (simp add: expose_ctx_def relay_ctx_def)
  show ?thesis
    using relay_inv_exec [OF ctx relay_inv_allow [OF ctx assms(5,3,4)], of "Add_bootstrap (Some u)"] assms(3)
    by (simp add: allow_bootstrap_def)
qed

lemma allow_bootstraps_inv:
  assumes "expose_ctx env valid U" "X \<subseteq> U" "set us \<subseteq> U - X" "relay_inv (se_table (xe_sdk env)) valid U X (rs_relays rset)"
  shows "relay_inv (se_table (xe_sdk env)) valid U X (rs_relays (fold (allow_bootstrap env) us rset))"
  using assms(3,4) by (induction us arbitrary: rset) (auto intro!: allow_bootstrap_inv [OF assms(1,2)])

lemma ban_remove_inv:
  assumes "expose_ctx env valid U" "u \<in> U" "relay_inv (se_table (xe_sdk env)) valid U X (rs_relays rset)" "X \<subseteq> U"
  shows "relay_inv (se_table (xe_sdk env)) valid U (insert u X) (rs_relays (portillia_relay_set_remove_bootstrap_url (se_table (xe_sdk env))
    (portillia_relay_set_ban_url (se_table (xe_sdk env)) rset u) (Some u)))"
proof -
  let ?tb = "se_table (xe_sdk env)" let ?banned = "portillia_relay_set_ban_url ?tb rset u"
  have ctx: "relay_ctx ?tb valid U {}" "relay_ctx ?tb valid U X" "relay_ctx ?tb valid U (insert u X)"
    using assms(1,2,4) by (auto simp: expose_ctx_def relay_ctx_def)
  have "relay_inv ?tb valid U {u} (rs_relays ?banned)"
    using ban_establishes [OF ctx(1) relay_inv_antimono [OF assms(3)] assms(2)] by simp
  moreover have "relay_inv ?tb valid U X (rs_relays ?banned)"
    using relay_inv_exec [OF ctx(2) assms(3), of "Ban u"] assms(2) by simp
  ultimately have "relay_inv ?tb valid U (insert u X) (rs_relays ?banned)" unfolding relay_inv_def by blast
  then show ?thesis by (rule relay_inv_remove_bootstrap [OF ctx(3)]) (use assms(2) in auto)
qed

lemma poll_relays_inv:
  assumes ctx: "expose_ctx env valid U" and X: "X \<subseteq> U"
  shows "poll_relays env insecure urls (w, rset) = Some (w', rset') \<Longrightarrow>
    relay_inv (se_table (xe_sdk env)) valid U X (rs_relays rset) \<Longrightarrow> relay_inv (se_table (xe_sdk env)) valid U X (rs_relays rset')"
proof (induction urls arbitrary: w rset)
  case (Cons url urls)
  obtain w1 rset1 where step: "poll_relay env insecure url (w, rset) = Some (w1, rset1)"
    "poll_relays env insecure urls (w1, rset1) = Some (w', rset')"
    using Cons.prems(1) by (auto split: option.splits)
  have rctx: "relay_ctx (se_table (xe_sdk env)) valid U X" using ctx X by (simp add: expose_ctx_def relay_ctx_def)
  have "relay_inv (se_table (xe_sdk env)) valid U X (rs_relays (fst (portillia_relay_set_apply_discovery_response (se_table (xe_sdk env))
      (xe_keys env) ver rset target resp now clock)))" if "url_of ` set (dr_relays resp) \<subseteq> U" for ver target resp now clock
    using relay_inv_exec [OF rctx Cons.prems(2), of "Response target resp now clock"] that by simp
  moreover have "url_of ` set relays \<subseteq> U"
    if "portillia_api_discover_relays (xe_sdk env) client w = (w2, Inr (version, generated_at, relays))" for client w2 version generated_at relays
    using ctx that unfolding expose_ctx_def answers_within_def by blast
  ultimately have "relay_inv (se_table (xe_sdk env)) valid U X (rs_relays rset1)"
    using step(1) Cons.prems(2) by (auto simp: poll_relay_def split: option.splits prod.splits sum.splits)
  then show ?case using Cons.IH step(2) by blast
qed simp

text \<open>Each operation that does not name the relay keeps it out.\<close>

lemma drop_hop_fields [simp]:
  "ex_explicit_relays (drop_hop url e) = ex_explicit_relays e" "ex_relay_set (drop_hop url e) = ex_relay_set e"
  "ex_listeners (drop_hop url e) = ex_listeners e" "ex_seed_only_relays (drop_hop url e) = ex_seed_only_relays e"
  "set (ex_multi_hop (drop_hop url e)) \<subseteq> {h \<in> set (ex_multi_hop e). hs_text h \<noteq> url}"
  by (auto simp: drop_hop_def Let_def)

lemma hs_text_copy_hops [simp]: "map hs_text (copy_hops addr urls) = urls" "hs_text ` set (copy_hops addr urls) = set urls"
proof -
  show "map hs_text (copy_hops addr urls) = urls" by (rule nth_equalityI) (simp_all add: copy_hops_def)
  then show "hs_text ` set (copy_hops addr urls) = set urls" by (metis set_map)
qed

definition out_now ::
  "('j, 't, 'w, 'r, 'k, 'l) expose_env \<Rightarrow> ('r \<Rightarrow> bool) \<Rightarrow> cstring set \<Rightarrow> cstring \<Rightarrow> ('l, 'c, 'r, 'k) portillia_exposure \<Rightarrow> bool" where
  "out_now env valid U url e \<longleftrightarrow> stays_out env valid U url e \<and> url \<notin> set (portillia_exposure_active_relay_urls e)"

lemma reconcile_out:
  assumes "expose_ctx env valid U" "stays_out env valid U url e" "url \<notin> fst ` set (ex_listeners e) \<or> ex_relay_set e \<noteq> None"
  shows "out_now env valid U url (reconcile_relay_listeners env e)"
  using reconcile_stays_out [OF assms(1,2)] assms(3) unfolding out_now_def portillia_exposure_active_relay_urls_def set_map by blast

definition moved_on ::
  "('j, 't, 'w, 'r, 'k, 'l) expose_env \<Rightarrow> ('r \<Rightarrow> bool) \<Rightarrow> cstring set \<Rightarrow> cstring set \<Rightarrow> cstring set \<Rightarrow>
   ('l, 'c, 'r, 'k) portillia_exposure \<Rightarrow> ('l, 'c, 'r, 'k) portillia_exposure \<Rightarrow> bool" where
  "moved_on env valid U X B e e1 \<longleftrightarrow> ex_listeners e1 = ex_listeners e \<and> relays_ok env valid U X e1 \<and>
     set (ex_explicit_relays e1) \<subseteq> set (ex_explicit_relays e) \<union> B \<and>
     hs_text ` set (ex_multi_hop e1) \<subseteq> hs_text ` set (ex_multi_hop e) \<union> B"

lemma moved_on_with:
  assumes "relays_ok env valid U X e" "ex_relay_set e1 = ex_relay_set e" "ex_listeners e1 = ex_listeners e"
    "set (ex_explicit_relays e1) \<subseteq> set (ex_explicit_relays e) \<union> B"
    "hs_text ` set (ex_multi_hop e1) \<subseteq> hs_text ` set (ex_multi_hop e) \<union> B"
    "\<And>rset. relay_inv (se_table (xe_sdk env)) valid U X (rs_relays rset) \<Longrightarrow> relay_inv (se_table (xe_sdk env)) valid U X (rs_relays (f rset))"
  shows "moved_on env valid U X B e (with_relay_set f e1)"
proof -
  have "relays_ok env valid U X e1" using assms(1,2) by (simp add: relays_ok_def)
  from relays_ok_update [OF this assms(6)] show ?thesis using assms(3-5) by (simp add: moved_on_def with_relay_set_def)
qed

lemma exec_step:
  assumes ctx: "expose_ctx env valid U" and X: "X \<subseteq> U" "X \<inter> brings_back op = {}" and op: "names_urls op \<subseteq> U"
    and ok: "relays_ok env valid U X e" and step: "expose_exec env op (w, e) = Some (w', e')"
  shows "e' = e \<or> (\<exists>e1. e' = reconcile_relay_listeners env e1 \<and> moved_on env valid U X (brings_back op) e e1)"
proof (cases "\<exists>rnd. op = Discover rnd")
  case True
  then obtain rnd where "discovery_round env rnd e w = Some (w', e')" using step by auto
  then obtain urls rset rset' where d: "e' = e \<or> ex_relay_set e = Some rset \<and>
      poll_relays env (ex_insecure_skip_verify e) urls (w, rset) = Some (w', rset') \<and>
      e' = reconcile_relay_listeners env (e\<lparr>ex_relay_set := Some rset'\<rparr>)"
    by (auto simp: discovery_round_def split: option.splits)
  have "moved_on env valid U X (brings_back op) e (e\<lparr>ex_relay_set := Some rset'\<rparr>)" if "ex_relay_set e = Some rset"
    "poll_relays env (ex_insecure_skip_verify e) urls (w, rset) = Some (w', rset')"
    using poll_relays_inv [OF ctx X(1) that(2)] ok that(1) by (auto simp: moved_on_def relays_ok_def)
  then show ?thesis using d by blast
next
  case False
  show ?thesis
  proof (cases "ex_cancelled e")
    case True
    then show ?thesis using step False
      by (cases op) (auto simp: portillia_exposure_add_relay_def portillia_exposure_remove_relay_def portillia_exposure_seed_relay_def
          portillia_exposure_set_multi_hop_def)
  next
    case live: False
    note move = moved_on_with [OF ok, where B = "brings_back op"]
    show ?thesis
    proof (cases op)
      case (Add_relay u)
      then have "e' = reconcile_relay_listeners env (with_relay_set (allow_bootstrap env u)
        (e\<lparr>ex_explicit_relays := list_with u (ex_explicit_relays e), ex_seed_only_relays := list_without u (ex_seed_only_relays e)\<rparr>))"
        using step live by (simp add: portillia_exposure_add_relay_def)
      moreover have "moved_on env valid U X (brings_back op) e (with_relay_set (allow_bootstrap env u)
        (e\<lparr>ex_explicit_relays := list_with u (ex_explicit_relays e), ex_seed_only_relays := list_without u (ex_seed_only_relays e)\<rparr>))"
        by (rule move) (use X op Add_relay in \<open>auto simp: list_with_def intro!: allow_bootstrap_inv [OF ctx X(1)]\<close>)
      ultimately show ?thesis by blast
    next
      case (Remove_relay u)
      let ?e1 = "drop_hop u (e\<lparr>ex_explicit_relays := list_without u (ex_explicit_relays e),
        ex_seed_only_relays := list_without u (ex_seed_only_relays e)\<rparr>)"
      let ?f = "\<lambda>rset. portillia_relay_set_remove_bootstrap_url (se_table (xe_sdk env))
        (portillia_relay_set_ban_url (se_table (xe_sdk env)) rset u) (Some u)"
      have "hs_text ` set (ex_multi_hop ?e1) \<subseteq> hs_text ` set (ex_multi_hop e)" using drop_hop_fields(5) by fastforce
      moreover have "relay_inv (se_table (xe_sdk env)) valid U X (rs_relays (?f rset))"
        if "relay_inv (se_table (xe_sdk env)) valid U X (rs_relays rset)" for rset
        using ban_remove_inv [OF ctx _ that X(1), of u] op Remove_relay by (auto intro: relay_inv_antimono)
      ultimately have "moved_on env valid U X (brings_back op) e (with_relay_set ?f ?e1)"
        by (intro move) (auto simp: list_without_def)
      moreover have "e' = reconcile_relay_listeners env (with_relay_set ?f ?e1)"
        using step live Remove_relay by (simp add: portillia_exposure_remove_relay_def Let_def)
      ultimately show ?thesis by blast
    next
      case (Seed_relay u)
      let ?e1 = "drop_hop u (e\<lparr>ex_explicit_relays := list_without u (ex_explicit_relays e)\<rparr>)"
      let ?e2 = "?e1\<lparr>ex_seed_only_relays := list_with u (ex_seed_only_relays ?e1)\<rparr>"
      have "hs_text ` set (ex_multi_hop ?e1) \<subseteq> hs_text ` set (ex_multi_hop e)" using drop_hop_fields(5) by fastforce
      then have "moved_on env valid U X (brings_back op) e (with_relay_set (allow_bootstrap env u) ?e2)"
        using X op Seed_relay by (intro move) (auto simp: list_without_def intro!: allow_bootstrap_inv [OF ctx X(1)])
      moreover have "e' = reconcile_relay_listeners env (with_relay_set (allow_bootstrap env u) ?e2)"
        using step live Seed_relay by (simp add: portillia_exposure_seed_relay_def Let_def)
      ultimately show ?thesis by blast
    next
      case (Set_hops us)
      let ?e1 = "e\<lparr>ex_freed := ex_freed e @ map hs_addr (ex_multi_hop e), ex_multi_hop := copy_hops (ex_next_addr e) us,
        ex_next_addr := ex_next_addr e + length us, ex_multi_hop_depth := 0,
        ex_seed_only_relays := filter (\<lambda>u. u \<notin> set us) (ex_seed_only_relays e)\<rparr>"
      have "moved_on env valid U X (brings_back op) e (with_relay_set (fold (allow_bootstrap env) us) ?e1)"
        using X op Set_hops by (intro move) (auto intro!: allow_bootstraps_inv [OF ctx X(1)])
      moreover have "e' = e \<or> e' = reconcile_relay_listeners env (with_relay_set (fold (allow_bootstrap env) us) ?e1)"
        using step live Set_hops by (auto simp: portillia_exposure_set_multi_hop_def Let_def split: if_splits)
      ultimately show ?thesis by blast
    qed (use False in blast)
  qed
qed

lemma exec_relays_ok:
  assumes "expose_ctx env valid U" "names_urls op \<subseteq> U" "relays_ok env valid U {} e" "expose_exec env op (w, e) = Some (w', e')"
  shows "relays_ok env valid U {} e'"
  using exec_step [OF assms(1) _ _ assms(2-4)] assms(3) by (auto simp: moved_on_def relays_ok_def reconcile_fields)

lemma exec_out:
  assumes ctx: "expose_ctx env valid U" and url: "url \<in> U" and op: "names_urls op \<subseteq> U" "url \<notin> brings_back op"
    and out: "out_now env valid U url e" and step: "expose_exec env op (w, e) = Some (w', e')"
  shows "out_now env valid U url e'"
proof -
  have ok: "relays_ok env valid U {url} e" using out by (simp add: out_now_def stays_out_def)
  from exec_step [OF ctx _ _ op(1) ok step] url op(2) consider "e' = e"
    | e1 where "e' = reconcile_relay_listeners env e1" "moved_on env valid U {url} (brings_back op) e e1" by auto
  then show ?thesis
  proof cases
    case 2
    then have "stays_out env valid U url e1" "url \<notin> fst ` set (ex_listeners e1)"
      using out op(2) by (auto simp: out_now_def stays_out_def moved_on_def portillia_exposure_active_relay_urls_def)
    then show ?thesis unfolding 2(1) by (intro reconcile_out [OF ctx]) blast+
  qed (use out in simp)
qed

lemma run_relays_ok:
  assumes "expose_ctx env valid U"
  shows "\<Union> (names_urls ` set ops) \<subseteq> U \<Longrightarrow> relays_ok env valid U {} e \<Longrightarrow> expose_run env ops (w, e) = Some (w', e') \<Longrightarrow>
    relays_ok env valid U {} e'"
proof (induction ops arbitrary: w e)
  case (Cons op ops)
  then obtain w1 e1 where "expose_exec env op (w, e) = Some (w1, e1)" "expose_run env ops (w1, e1) = Some (w', e')"
    by (auto split: option.splits)
  then show ?case using Cons exec_relays_ok [OF assms, of op e w w1 e1] by auto
qed simp

lemma run_out:
  assumes "expose_ctx env valid U" "url \<in> U"
  shows "\<Union> (names_urls ` set ops) \<subseteq> U \<Longrightarrow> url \<notin> \<Union> (brings_back ` set ops) \<Longrightarrow> out_now env valid U url e \<Longrightarrow>
    expose_run env ops (w, e) = Some (w', e') \<Longrightarrow> out_now env valid U url e'"
proof (induction ops arbitrary: w e)
  case (Cons op ops)
  then obtain w1 e1 where "expose_exec env op (w, e) = Some (w1, e1)" "expose_run env ops (w1, e1) = Some (w', e')"
    by (auto split: option.splits)
  then show ?case using Cons exec_out [OF assms, of op e w w1 e1] by auto
qed simp

lemma remove_out:
  assumes ctx: "expose_ctx env valid U" and url: "url \<in> U" and ok: "relays_ok env valid U {} e"
    and live: "\<not> ex_cancelled e" "ex_relay_set e \<noteq> None"
  shows "out_now env valid U url (fst (portillia_exposure_remove_relay env url e))"
proof -
  let ?e1 = "drop_hop url (e\<lparr>ex_explicit_relays := list_without url (ex_explicit_relays e),
    ex_seed_only_relays := list_without url (ex_seed_only_relays e)\<rparr>)"
  let ?f = "\<lambda>rset. portillia_relay_set_remove_bootstrap_url (se_table (xe_sdk env))
    (portillia_relay_set_ban_url (se_table (xe_sdk env)) rset url) (Some url)"
  have "relays_ok env valid U {} ?e1" using ok by (simp add: relays_ok_def)
  then have "relays_ok env valid U {url} (with_relay_set ?f ?e1)"
    by (rule relays_ok_update) (use ban_remove_inv [OF ctx url, of "{}"] in simp)
  moreover have "url \<notin> hs_text ` set (ex_multi_hop ?e1)" using drop_hop_fields(5) by fastforce
  ultimately have "stays_out env valid U url (with_relay_set ?f ?e1)"
    by (simp add: stays_out_def with_relay_set_def list_without_def)
  from reconcile_out [OF ctx this] show ?thesis
    using live by (simp add: portillia_exposure_remove_relay_def Let_def with_relay_set_def)
qed

lemma expose_relays_ok:
  assumes "expose_ctx env valid U" "set (ec_relay_urls cfg) \<subseteq> U"
  shows "relays_ok env valid U {} (portillia_expose env cfg)"
proof -
  have "relay_inv (se_table (xe_sdk env)) valid U {}
      (rs_relays (portillia_relay_set_create (se_table (xe_sdk env)) (xe_keys env) (map Some (ec_relay_urls cfg))))"
    by (rule relay_inv_create) (use assms in \<open>auto simp: expose_ctx_def\<close>)
  then show ?thesis by (simp add: portillia_expose_def Let_def relays_ok_def reconcile_fields)
qed

text \<open>C17. A relay that was removed from a running exposure has no listener, and gets none again by discovery, by selection or by
  any change to the other relays: only adding it, seeding it or putting it into a multi-hop path brings it back. This holds
  in every state an exposure can reach, however many rounds of discovery list the relay.\<close>

theorem removed_relay_stays_out:
  assumes ctx: "table_laws (se_table (xe_sdk env)) valid" "canonical U" "answers_within env U"
    and urls: "set (ec_relay_urls cfg) \<subseteq> U" "url \<in> U" "\<Union> (names_urls ` set ops) \<subseteq> U" "\<Union> (names_urls ` set ops') \<subseteq> U"
    and before: "expose_run env ops (w0, portillia_expose env cfg) = Some (w, e)" "\<not> ex_cancelled e" "ex_relay_set e \<noteq> None"
    and after: "expose_run env ops' (w, fst (portillia_exposure_remove_relay env url e)) = Some (w', e')"
      "url \<notin> \<Union> (brings_back ` set ops')"
  shows "url \<notin> set (portillia_exposure_active_relay_urls e')"
proof -
  have ctx': "expose_ctx env valid U" using ctx by (simp add: expose_ctx_def)
  have "relays_ok env valid U {} e" by (rule run_relays_ok [OF ctx' urls(3) expose_relays_ok [OF ctx' urls(1)] before(1)])
  from run_out [OF ctx' urls(2,4) after(2) remove_out [OF ctx' urls(2) this before(2,3)] after(1)]
  show ?thesis by (simp add: out_now_def)
qed

section \<open>Two defects\<close>

text \<open>Taking a relay out of a multi-hop path so that fewer than two relays stay frees the memory of a string twice: the string that
  goes is freed on its own and the array is then freed with all the entries it had.\<close>

theorem hop_removal_frees_twice:
  assumes "url \<in> hs_text ` set (ex_multi_hop e)" "length (filter (\<lambda>h. hs_text h \<noteq> url) (ex_multi_hop e)) < 2"
    "\<not> ex_cancelled e"
  shows "\<exists>freed. ex_freed (fst (portillia_exposure_remove_relay env url e)) = ex_freed e @ freed \<and> \<not> distinct freed \<and>
    set freed \<subseteq> hs_addr ` set (ex_multi_hop e)"
proof -
  let ?kept = "filter (\<lambda>h. hs_text h \<noteq> url) (ex_multi_hop e)" and ?gone = "filter (\<lambda>h. hs_text h = url) (ex_multi_hop e)"
  let ?freed = "map hs_addr ?gone @ map hs_addr (?kept @ drop (length ?kept) (ex_multi_hop e))"
  have "length ?kept \<le> length (ex_multi_hop e)" by simp
  moreover have "?gone \<noteq> []" using assms(1) by (auto simp: filter_empty_conv)
  ultimately have more: "length (ex_multi_hop e) < length ?freed" by (simp add: length_greater_0_conv [symmetric] del: length_greater_0_conv)
  have sub: "set ?freed \<subseteq> hs_addr ` set (ex_multi_hop e)" by (auto dest: in_set_dropD)
  have "card (set ?freed) \<le> length (ex_multi_hop e)"
    using card_mono [OF _ sub] card_image_le [of "set (ex_multi_hop e)" hs_addr] card_length [of "ex_multi_hop e"] by fastforce
  then have "\<not> distinct ?freed" using more distinct_card [of ?freed] by fastforce
  moreover have "ex_freed (fst (portillia_exposure_remove_relay env url e)) = ex_freed e @ ?freed"
    using assms by (simp add: portillia_exposure_remove_relay_def Let_def with_relay_set_def drop_hop_def reconcile_fields)
  ultimately show ?thesis using sub by blast
qed

text \<open>A relay can make the process of its tenant crash: an answer to the discovery request without a protocol version, an empty
  one for instance, makes the round compare a null pointer.\<close>

theorem versionless_answer_crashes:
  assumes "ex_explicit_relays e @ ex_seed_only_relays e = [url]" "ex_relay_set e = Some rset"
    and "portillia_http_client_create (Some url) (ex_insecure_skip_verify e) = Some client"
    and "portillia_api_discover_relays (xe_sdk env) client w = (w', Inr (None, generated_at, relays))"
  shows "discovery_round env rnd e w = None"
proof -
  define n where "n = nat (if ex_max_routing e > 0 then ex_max_routing e else 1)"
  then have "n \<noteq> 0" by simp
  then have "take n [url] = [url]" by simp
  then show ?thesis using assms by (simp add: discovery_round_def discovery_order_def poll_relay_def flip: n_def)
qed

section \<open>Sample exposures\<close>

definition sample_crypto :: sdk_crypto where
  "sample_crypto = \<lparr>sc_keccak256 = id, sc_sha256 = id, sc_hmac_sha256 = (\<lambda>_ _. None), sc_encode_block = (\<lambda>_. []),
     sc_pubkey_create = (\<lambda>_. None), sc_sign_recoverable = (\<lambda>_ _. None), sc_sign_der = (\<lambda>_ _. None)\<rparr>"

text \<open>A network that answers every request with the given status and no body, or not at all.\<close>

definition sample_net :: "int option \<Rightarrow> (json, json, unit, (cstring \<times> portillia_relay_state) list) sdk_env" where
  "sample_net status = \<lparr>se_json = tree_json, se_crypto = sample_crypto,
     se_curl = (\<lambda>_ w. (w, map_option (\<lambda>s. (s, None)) status)), se_text = (\<lambda>_. []), se_extras = (\<lambda>_ _. None), se_ech = (\<lambda>_ _ _. None),
     se_table = list_table, se_now = 1000\<rparr>"

definition sample_expose_env ::
  "int option \<Rightarrow> (json, json, unit, (cstring \<times> portillia_relay_state) list, (cstring \<times> portillia_key_index_entry) list, cstring) expose_env" where
  "sample_expose_env status = \<lparr>xe_sdk = sample_net status, xe_keys = list_table, xe_version = ''9'', xe_listener = (\<lambda>a. Some (la_url a)),
     xe_sqrt = id, xe_file = (\<lambda>_. None)\<rparr>"

definition sample_config :: "cstring list \<Rightarrow> cstring list \<Rightarrow> json portillia_expose_config" where
  "sample_config urls hops = \<lparr>ec_relay_urls = urls, ec_discovery = True, ec_identity_path = None, ec_identity_json = None,
     ec_name = Some ''n'', ec_target_addr = None, ec_udp_addr = None, ec_udp_enabled = False, ec_tcp_enabled = False,
     ec_multi_hop = hops, ec_multi_hop_depth = 0, ec_ban_mitm = False, ec_insecure_skip_verify = False, ec_max_active_relays = 0,
     ec_max_routing = 0, ec_metadata = portillia_lease_metadata_init\<rparr>"

abbreviation sample_exposure :: "int option \<Rightarrow> cstring list \<Rightarrow> cstring list \<Rightarrow>
  (cstring, unit, (cstring \<times> portillia_relay_state) list, (cstring \<times> portillia_key_index_entry) list) portillia_exposure" where
  "sample_exposure status urls hops \<equiv> portillia_expose (sample_expose_env status) (sample_config urls hops)"

lemma sample_env_simps [simp]:
  "xe_sdk (sample_expose_env status) = sample_net status" "xe_listener (sample_expose_env status) a = Some (la_url a)"
  "se_table (sample_net status) = list_table" "se_json (sample_net status) = tree_json"
  by (simp_all add: sample_expose_env_def sample_net_def)

lemma sample_discover:
  "portillia_api_discover_relays (sample_net None) client w = (w, Inl EIO)"
  "portillia_api_discover_relays (sample_net (Some 200)) client w = (w, Inr (None, 0, []))"
  by (simp_all add: portillia_api_discover_relays_def http_json_def sample_net_def Let_def)

lemma sample_exposure_fields [simp]:
  "ex_explicit_relays (sample_exposure status urls hops) = urls" "ex_seed_only_relays (sample_exposure status urls hops) = []"
  "ex_cancelled (sample_exposure status urls hops) = False" "ex_multi_hop (sample_exposure status urls hops) = copy_hops 0 hops"
  "ex_multi_hop_depth (sample_exposure status urls hops) = 0" "ex_insecure_skip_verify (sample_exposure status urls hops) = False"
  "ex_relay_set (sample_exposure status urls hops) = Some (portillia_relay_set_create list_table list_table (map Some urls))"
  by (simp_all add: portillia_expose_def sample_config_def Let_def reconcile_fields sample_expose_env_def sample_net_def)

lemma sample_config_urls: "ec_relay_urls (sample_config urls hops) = urls"
  by (simp add: sample_config_def)


theorem removed_relay_stays_out_witness:
  "case expose_run (sample_expose_env None) [Discover 0]
      ((), fst (portillia_exposure_remove_relay (sample_expose_env None) ''https://x'' (sample_exposure None [''https://x'', ''https://y''] []))) of
     None \<Rightarrow> False
   | Some (w, e) \<Rightarrow> ''https://x'' \<notin> set (portillia_exposure_active_relay_urls e)"
proof -
  let ?env = "sample_expose_env None" and ?e = "sample_exposure None [''https://x'', ''https://y''] []" and ?U = "{''https://x'', ''https://y''}"
  let ?e1 = "fst (portillia_exposure_remove_relay ?env ''https://x'' ?e)"
  have canon: "canonical ?U" by (simp add: canonical_def strcasecmp_eq_def str_tolower_def char_tolower_def char_code_def)
  have within: "answers_within ?env ?U" by (simp add: answers_within_def sample_discover)
  have "ex_explicit_relays ?e1 @ ex_seed_only_relays ?e1 = [''https://y'']"
    by (simp add: portillia_exposure_remove_relay_def Let_def reconcile_fields with_relay_set_def drop_hop_def copy_hops_def list_without_def)
  then have "\<exists>w e. discovery_round ?env 0 ?e1 () = Some (w, e)"
    by (auto simp: discovery_round_def discovery_order_def poll_relay_def portillia_http_client_create_def sample_discover
        split: option.splits)
  then obtain w e where run: "expose_run ?env [Discover 0] ((), ?e1) = Some (w, e)" by auto
  have "''https://x'' \<notin> set (portillia_exposure_active_relay_urls e)"
    by (rule removed_relay_stays_out [where env = ?env and U = ?U and ops = "[]" and ops' = "[Discover 0]" and cfg = "sample_config [''https://x'', ''https://y''] []",
          OF _ canon within _ _ _ _ _ _ _ run])
      (use list_table_laws in \<open>simp_all add: sample_config_urls\<close>)
  with run show ?thesis by simp
qed

theorem hop_removal_frees_twice_witness:
  "\<exists>freed. ex_freed (fst (portillia_exposure_remove_relay (sample_expose_env None) ''https://x''
      (sample_exposure None [] [''https://x'', ''https://y'']))) =
     ex_freed (sample_exposure None [] [''https://x'', ''https://y'']) @ freed \<and> \<not> distinct freed"
  using hop_removal_frees_twice [of "''https://x''" "sample_exposure None [] [''https://x'', ''https://y'']" "sample_expose_env None"]
  by (auto simp: copy_hops_def)

theorem versionless_answer_crashes_witness:
  "discovery_round (sample_expose_env (Some 200)) 0 (sample_exposure (Some 200) [''https://x''] []) () = None"
  by (rule versionless_answer_crashes) (simp_all add: portillia_http_client_create_def sample_discover)

end
