(* ===== verification/Http_Runtime.thy ===== *)
theory Http_Runtime
  imports Ranking Calendar Http
begin

text \<open>
  The local reverse proxy of the SDK, \<^verbatim>\<open>src/sdk/http_runtime.c\<close>: reading a request, choosing a route, rewriting the
  path, forwarding the request and returning the response.

  A socket is the list of the pieces in which \<open>recv\<close> finds what the peer sent; the end of the list is the end of the
  stream or an error, which the code does not tell apart. \<open>send\<close> delivers what it is given. An upstream is a function from
  the bytes it got to the pieces it answers with, which is all the proxy can see of it, since it reads only after it has sent
  everything. A buffer filled by \<open>snprintf\<close> that is then read past its end is the result \<open>None\<close>.
\<close>

section \<open>Reading from a socket\<close>

type_synonym segments = "cstring list"
type_synonym http_header_t = "cstring \<times> cstring"

definition HTTP_BUFSIZE :: nat where "HTTP_BUFSIZE = 8192"
definition MAX_HEADERS :: nat where "MAX_HEADERS = 64"

abbreviation crlf :: cstring where "crlf \<equiv> [CHR 0x0D, CHR 0x0A]"

text \<open>\<open>recv (fd, buf, n, 0)\<close> for \<open>n > 0\<close>; nothing read stands for a result that is not positive.\<close>

fun recv :: "nat \<Rightarrow> 'a list list \<Rightarrow> 'a list \<times> 'a list list" where
  "recv n [] = ([], [])"
| "recv n (s # ss) = (if s = [] then recv n ss else (take n s, if drop n s = [] then ss else drop n s # ss))"

definition ends_crlf :: "cstring \<Rightarrow> bool" where
  "ends_crlf buf \<longleftrightarrow> 2 \<le> length buf \<and> drop (length buf - 2) buf = crlf"

text \<open>The loop has room for \<open>k\<close> more bytes.\<close>

fun recv_line_loop :: "nat \<Rightarrow> cstring \<Rightarrow> segments \<Rightarrow> (cstring \<times> segments) option" where
  "recv_line_loop 0 buf segs = Some (buf, segs)"
| "recv_line_loop (Suc k) buf segs =
     (case recv 1 segs of
        ([], _) \<Rightarrow> None
      | (c # _, segs') \<Rightarrow>
          let buf' = buf @ [c]
          in if ends_crlf buf' then Some (take (length buf' - 2) buf', segs')
             else recv_line_loop k buf' segs')"

definition recv_line :: "nat \<Rightarrow> segments \<Rightarrow> (cstring \<times> segments) option" where
  "recv_line n segs =
     map_option (\<lambda>(line, rest). (takeWhile (\<lambda>c. c \<noteq> CHR 0x00) line, rest)) (recv_line_loop (n - 1) [] segs)"

lemma recv_concat: "recv n segs = (chunk, segs') \<Longrightarrow> concat segs = chunk @ concat segs'"
  by (induction n segs rule: recv.induct) (auto split: if_splits)

lemma recv_length: "recv n segs = (chunk, segs') \<Longrightarrow> length chunk \<le> n"
  by (induction n segs rule: recv.induct) (auto split: if_splits)

lemma recv_empty: "recv n segs = ([], segs') \<Longrightarrow> 0 < n \<Longrightarrow> concat segs = [] \<and> segs' = []"
  by (induction n segs rule: recv.induct) (auto split: if_splits)

lemma recv_1_Cons:
  assumes "concat segs = c # s"
  obtains segs' where "recv 1 segs = ([c], segs')" "concat segs' = s"
proof -
  obtain chunk segs' where r: "recv 1 segs = (chunk, segs')" by (cases "recv 1 segs")
  then have "chunk \<noteq> []" using recv_empty [of 1 segs segs'] assms by auto
  then have "chunk = [c]" using recv_concat [OF r] recv_length [OF r] assms by (cases chunk) auto
  then show thesis using that r recv_concat [OF r] assms by auto
qed

lemma recv_line_loop_consumes:
  "recv_line_loop (Suc k) buf segs = Some (line, rest) \<Longrightarrow> length (concat rest) < length (concat segs)"
proof (induction k arbitrary: buf segs)
  case 0
  then show ?case by (auto split: prod.splits list.splits if_splits simp: Let_def dest!: recv_concat)
next
  case (Suc k)
  obtain chunk segs' where r: "recv 1 segs = (chunk, segs')" by (cases "recv 1 segs")
  then obtain c cs where c: "chunk = c # cs" using Suc.prems by (cases chunk) auto
  then have "length (concat segs') < length (concat segs)" using recv_concat [OF r] by simp
  then show ?case using Suc r c by (auto simp: Let_def split: if_splits intro: less_trans)
qed

lemma recv_line_consumes: "recv_line 4096 segs = Some (line, rest) \<Longrightarrow> length (concat rest) < length (concat segs)"
  using recv_line_loop_consumes [of 4094 "[]" segs] by (auto simp: recv_line_def)

section \<open>Parsing requests and responses\<close>

record http_request_t =
  hq_method :: cstring
  hq_path :: cstring
  hq_version :: cstring
  hq_headers :: "http_header_t list"
  hq_content_length :: nat

record http_response_t =
  hr_status :: int
  hr_reason :: cstring
  hr_headers :: "http_header_t list"
  hr_content_length :: nat

text \<open>\<^verbatim>\<open>%<n>s\<close> of \<open>sscanf\<close>, and \<open>strtoul\<close> in base 10 on 64 bits.\<close>

definition scan_s :: "nat \<Rightarrow> cstring \<Rightarrow> (cstring \<times> cstring) option" where
  "scan_s n s0 =
     (let s = dropWhile char_isspace s0; w = take n (takeWhile (\<lambda>c. \<not> char_isspace c) s)
      in if w = [] then None else Some (w, drop (length w) s))"

definition strtoul :: "cstring \<Rightarrow> nat" where
  "strtoul s0 =
     (let s = dropWhile char_isspace s0;
          neg = (case s of c # _ \<Rightarrow> c = CHR ''-'' | [] \<Rightarrow> False);
          s' = (case s of c # r \<Rightarrow> if c = CHR ''-'' \<or> c = CHR ''+'' then r else s | [] \<Rightarrow> s);
          v = nat (digits_value (takeWhile char_isdigit s'))
      in if 2 ^ 64 \<le> v then 2 ^ 64 - 1 else if neg then (2 ^ 64 - v) mod 2 ^ 64 else v)"

definition split_header :: "cstring \<Rightarrow> http_header_t option" where
  "split_header line =
     (if CHR '':'' \<notin> set line then None
      else Some (takeWhile (\<lambda>c. c \<noteq> CHR '':'') line,
                 dropWhile (\<lambda>c. c = CHR '' '' \<or> c = CHR 0x09) (tl (dropWhile (\<lambda>c. c \<noteq> CHR '':'') line))))"

definition is_content_length :: "http_header_t \<Rightarrow> bool" where
  "is_content_length h \<longleftrightarrow> strcasecmp_eq (fst h) ''Content-Length''"

function header_loop :: "segments \<Rightarrow> http_header_t list \<Rightarrow> nat \<Rightarrow> (http_header_t list \<times> nat \<times> segments) option" where
  "header_loop segs headers content_length =
     (if length headers < MAX_HEADERS then
        (case recv_line 4096 segs of
           None \<Rightarrow> None
         | Some (line, rest) \<Rightarrow>
             if line = [] then Some (headers, content_length, rest)
             else case split_header line of
               None \<Rightarrow> header_loop rest headers content_length
             | Some h \<Rightarrow> header_loop rest (headers @ [h])
                 (if is_content_length h then strtoul (snd h) else content_length))
      else Some (headers, content_length, segs))"
  by pat_completeness auto
termination
  by (relation "measure (\<lambda>(segs, _, _). length (concat segs))") (auto dest: recv_line_consumes)

declare header_loop.simps [simp del]

definition parse_request :: "segments \<Rightarrow> (http_request_t \<times> segments) option" where
  "parse_request segs =
     do {
       (line, segs) \<leftarrow> recv_line 4096 segs;
       (method, s) \<leftarrow> scan_s 15 line;
       (path, s) \<leftarrow> scan_s 2047 s;
       (version, s) \<leftarrow> scan_s 15 s;
       (headers, content_length, segs) \<leftarrow> header_loop segs [] 0;
       Some (\<lparr>hq_method = method, hq_path = path, hq_version = version, hq_headers = headers,
              hq_content_length = content_length\<rparr>, segs)
     }"

definition parse_response :: "segments \<Rightarrow> (http_response_t \<times> segments) option" where
  "parse_response segs =
     do {
       (line, segs) \<leftarrow> recv_line 4096 segs;
       (version, s) \<leftarrow> scan_s 15 line;
       (status, s) \<leftarrow> scan_int s;
       (headers, content_length, segs) \<leftarrow> header_loop segs [] 0;
       Some (\<lparr>hr_status = status, hr_reason = (case scan_s 31 s of None \<Rightarrow> [] | Some (r, _) \<Rightarrow> r), hr_headers = headers,
              hr_content_length = content_length\<rparr>, segs)
     }"

definition get_header :: "http_header_t list \<Rightarrow> cstring \<Rightarrow> cstring option" where
  "get_header headers name = map_option snd (find (\<lambda>h. strcasecmp_eq (fst h) name) headers)"

section \<open>Routes\<close>

record proxy_route_t =
  pr_prefix :: cstring
  pr_upstream_host :: cstring
  pr_upstream_port :: int
  pr_upstream_path :: cstring

text \<open>\<^verbatim>\<open>%<n>[^...]\<close>\<close>

definition scan_not :: "cstring \<Rightarrow> nat \<Rightarrow> cstring \<Rightarrow> (cstring \<times> cstring) option" where
  "scan_not stop n s =
     (let w = take n (takeWhile (\<lambda>c. c \<notin> set stop) s) in if w = [] then None else Some (w, drop (length w) s))"

definition scan_literal :: "cstring \<Rightarrow> cstring \<Rightarrow> cstring option" where
  "scan_literal l s = (if take (length l) s = l then Some (drop (length l) s) else None)"

text \<open>Host, port and path. The second and third formats are tried only when the host of the first is empty.\<close>

definition parse_upstream_url :: "cstring \<Rightarrow> (cstring \<times> int \<times> cstring) option" where
  "parse_upstream_url url =
     (case scan_literal ''http://'' url of
        None \<Rightarrow> None
      | Some s \<Rightarrow>
          (case scan_not '':/'' 255 s of
             Some (host, r) \<Rightarrow>
               (case scan_char CHR '':'' r of
                  None \<Rightarrow> Some (host, 80, [])
                | Some r1 \<Rightarrow>
                    (case scan_int r1 of
                       None \<Rightarrow> Some (host, 80, [])
                     | Some (port, r2) \<Rightarrow> Some (host, port, (case scan_s 2047 r2 of None \<Rightarrow> [] | Some (path, _) \<Rightarrow> path))))
           | None \<Rightarrow>
               (case (scan_not ''/'' 255 s \<bind> (\<lambda>(host, r). map_option (\<lambda>(path, _). (host, 80, path)) (scan_s 2047 r))) of
                  Some found \<Rightarrow> Some found
                | None \<Rightarrow> map_option (\<lambda>(host, _). (host, 80, ''/'')) (scan_s 255 s))))"

definition route_matches :: "cstring \<Rightarrow> proxy_route_t \<Rightarrow> bool" where
  "route_matches path r \<longleftrightarrow> take (length (pr_prefix r)) path = pr_prefix r"

definition find_route :: "proxy_route_t list \<Rightarrow> cstring \<Rightarrow> proxy_route_t option" where
  "find_route routes path =
     fold (\<lambda>r best. if (case best of None \<Rightarrow> 0 | Some b \<Rightarrow> length (pr_prefix b)) < length (pr_prefix r) \<and> route_matches path r
                    then Some r else best) routes None"

text \<open>One entry of the table, and the table sorted by the length of the prefix.\<close>

definition proxy_route :: "cstring option \<times> cstring option \<Rightarrow> proxy_route_t" where
  "proxy_route route =
     (let prefix = (case fst route of Some p \<Rightarrow> p | None \<Rightarrow> ''/'')
      in case snd route \<bind> parse_upstream_url of
           Some (host, port, path) \<Rightarrow>
             \<lparr>pr_prefix = prefix, pr_upstream_host = host, pr_upstream_port = port, pr_upstream_path = path\<rparr>
         | None \<Rightarrow>
             \<lparr>pr_prefix = prefix, pr_upstream_host = ''localhost'', pr_upstream_port = 80, pr_upstream_path = ''/''\<rparr>)"

definition build_routes :: "(cstring option \<times> cstring option) list \<Rightarrow> proxy_route_t list" where
  "build_routes routes = exchange_sort (\<lambda>r. - int (length (pr_prefix r))) (map proxy_route routes)"

text \<open>Host and port of the local address.\<close>

definition listen_address :: "cstring \<Rightarrow> cstring \<times> int" where
  "listen_address local_addr =
     (case scan_not '':'' 255 local_addr of
        None \<Rightarrow> (take 255 local_addr, 8080)
      | Some (host, r) \<Rightarrow>
          (host, (case scan_char CHR '':'' r \<bind> scan_int of None \<Rightarrow> 8080 | Some (port, _) \<Rightarrow> port)))"

section \<open>Serving a client\<close>

datatype proxy_event = To_client cstring | To_upstream cstring | Close_client | Close_upstream

text \<open>\<open>n = snprintf (buf, size, ...); send (fd, buf, n, ...)\<close>: the terminating NUL is sent when the text is just too long, and
  what lies behind the buffer when it is longer.\<close>

definition send_formatted :: "nat \<Rightarrow> cstring \<Rightarrow> cstring option" where
  "send_formatted cap s =
     (if length s < cap then Some s
      else if length s = cap then Some (take (cap - 1) s @ [CHR 0x00])
      else None)"

definition header_line :: "http_header_t \<Rightarrow> cstring" where
  "header_line h = fst h @ '': '' @ snd h @ crlf"

fun write_headers :: "http_header_t list \<Rightarrow> cstring list option" where
  "write_headers [] = Some []"
| "write_headers (h # hs) =
     (case send_formatted 4096 (header_line h) of
        None \<Rightarrow> None
      | Some line \<Rightarrow> map_option ((#) line) (write_headers hs))"

text \<open>Copying a body of known length, and copying until the other side closes.\<close>

function copy_body :: "nat \<Rightarrow> segments \<Rightarrow> cstring list" where
  "copy_body remaining segs =
     (if remaining = 0 then []
      else case recv (min remaining HTTP_BUFSIZE) segs of
        ([], _) \<Rightarrow> []
      | (c # cs, segs') \<Rightarrow> (c # cs) # copy_body (remaining - length (c # cs)) segs')"
  by pat_completeness auto
termination
  by (relation "measure fst") auto

function copy_all :: "segments \<Rightarrow> cstring list" where
  "copy_all segs =
     (case recv HTTP_BUFSIZE segs of
        ([], _) \<Rightarrow> []
      | (c # cs, segs') \<Rightarrow> (c # cs) # copy_all segs')"
  by pat_completeness auto
termination
  by (relation "measure (\<lambda>segs. length (concat segs))") (auto dest!: sym [THEN recv_concat])

declare copy_body.simps [simp del] copy_all.simps [simp del]

definition not_found :: cstring where
  "not_found = ''HTTP/1.1 404 Not Found'' @ crlf @ ''Content-Length: 0'' @ crlf @ ''Connection: close'' @ crlf @ crlf"

definition bad_gw :: cstring where
  "bad_gw = ''HTTP/1.1 502 Bad Gateway'' @ crlf @ ''Content-Length: 0'' @ crlf @ ''Connection: close'' @ crlf @ crlf"

definition is_forwarded_proto :: "http_header_t \<Rightarrow> bool" where
  "is_forwarded_proto h \<longleftrightarrow> strcasecmp_eq (fst h) ''X-Forwarded-Proto''"

definition upstream_path :: "proxy_route_t \<Rightarrow> cstring \<Rightarrow> cstring" where
  "upstream_path route path = snprintf_s 2048 (pr_upstream_path route @ drop (length (pr_prefix route)) path)"

definition forward_request :: "http_request_t \<Rightarrow> cstring \<Rightarrow> segments \<Rightarrow> cstring list option" where
  "forward_request req path rest =
     do {
       line \<leftarrow> send_formatted 4096 (hq_method req @ '' '' @ path @ '' '' @ hq_version req @ crlf);
       headers \<leftarrow> write_headers (filter (\<lambda>h. \<not> is_forwarded_proto h) (hq_headers req));
       Some ([line] @ headers @ [''X-Forwarded-Proto: https'' @ crlf, crlf] @
             (if 0 < hq_content_length req then copy_body (hq_content_length req) rest else []))
     }"

definition return_response :: "cstring \<Rightarrow> http_response_t \<Rightarrow> segments \<Rightarrow> cstring list option" where
  "return_response version resp rest =
     do {
       line \<leftarrow> send_formatted 256 (version @ '' '' @ dec_int (hr_status resp) @ '' '' @ hr_reason resp @ crlf);
       headers \<leftarrow> write_headers (hr_headers resp);
       Some ([line] @ headers @ [crlf] @
             (if 0 < hr_content_length resp then copy_body (hr_content_length resp) rest else copy_all rest))
     }"

definition handle_client ::
  "(cstring \<Rightarrow> int \<Rightarrow> (cstring \<Rightarrow> segments) option) \<Rightarrow> proxy_route_t list \<Rightarrow> segments \<Rightarrow> proxy_event list option" where
  "handle_client dial routes client =
     (case parse_request client of
        None \<Rightarrow> Some [Close_client]
      | Some (req, rest) \<Rightarrow>
          (case find_route routes (hq_path req) of
             None \<Rightarrow> Some [To_client not_found, Close_client]
           | Some route \<Rightarrow>
               (case dial (pr_upstream_host route) (pr_upstream_port route) of
                  None \<Rightarrow> Some [To_client bad_gw, Close_client]
                | Some upstream \<Rightarrow>
                    (case forward_request req (upstream_path route (hq_path req)) rest of
                       None \<Rightarrow> None
                     | Some sent \<Rightarrow>
                         (case parse_response (upstream (concat sent)) of
                            None \<Rightarrow> Some (map To_upstream sent @ [To_client bad_gw, Close_upstream, Close_client])
                          | Some (resp, rest') \<Rightarrow>
                              map_option (\<lambda>reply. map To_upstream sent @ map To_client reply @ [Close_upstream, Close_client])
                                (return_response (hq_version req) resp rest'))))))"

section \<open>Lines and headers do not depend on how they arrive\<close>

lemma not_ends_crlf: "CHR 0x0D \<notin> set buf \<Longrightarrow> \<not> ends_crlf (buf @ [c])"
  by (cases buf rule: rev_cases) (auto simp: ends_crlf_def)

lemma ends_crlf_snoc [simp]: "ends_crlf (buf @ crlf)"
  by (simp add: ends_crlf_def)

lemma recv_line_loop_end:
  assumes "concat segs = line @ crlf @ rest" "CHR 0x0D \<notin> set line" "CHR 0x0D \<notin> set buf" "length line + 2 \<le> k"
  shows "\<exists>segs'. recv_line_loop k buf segs = Some (buf @ line, segs') \<and> concat segs' = rest"
  using assms
proof (induction line arbitrary: buf segs k)
  case Nil
  then obtain k' where k: "k = Suc (Suc k')" using le_Suc_ex [of 2 k] by auto
  obtain s1 where s1: "recv 1 segs = ([CHR 0x0D], s1)" "concat s1 = CHR 0x0A # rest"
    using Nil.prems(1) by (auto elim: recv_1_Cons [of segs])
  obtain s2 where s2: "recv 1 s1 = ([CHR 0x0A], s2)" "concat s2 = rest" using s1(2) by (rule recv_1_Cons)
  show ?case
    using s1 s2 not_ends_crlf [OF Nil.prems(3), of "CHR 0x0D"] ends_crlf_snoc [of buf] by (simp add: k Let_def)
next
  case (Cons c line)
  then obtain k' where k: "k = Suc k'" "length line + 2 \<le> k'" by (cases k) auto
  obtain s1 where s1: "recv 1 segs = ([c], s1)" "concat s1 = line @ crlf @ rest"
    using Cons.prems(1) by (auto elim: recv_1_Cons [of segs])
  moreover obtain s2 where "recv_line_loop k' (buf @ [c]) s1 = Some ((buf @ [c]) @ line, s2)" "concat s2 = rest"
    using Cons.IH [OF s1(2), of "buf @ [c]" k'] Cons.prems k by auto
  ultimately show ?case using k not_ends_crlf [OF Cons.prems(3), of c] by (simp add: Let_def)
qed

lemma recv_line_loop_full:
  assumes "concat segs = line @ rest" "CHR 0x0D \<notin> set line" "CHR 0x0D \<notin> set buf"
  shows "\<exists>segs'. recv_line_loop (length line) buf segs = Some (buf @ line, segs') \<and> concat segs' = rest"
  using assms
proof (induction line arbitrary: buf segs)
  case (Cons c line)
  obtain s1 where s1: "recv 1 segs = ([c], s1)" "concat s1 = line @ rest"
    using Cons.prems(1) by (auto elim: recv_1_Cons [of segs])
  moreover obtain s2 where "recv_line_loop (length line) (buf @ [c]) s1 = Some ((buf @ [c]) @ line, s2)" "concat s2 = rest"
    using Cons.IH [OF s1(2), of "buf @ [c]"] Cons.prems by auto
  ultimately show ?case using not_ends_crlf [OF Cons.prems(3), of c] by (simp add: Let_def)
qed simp

text \<open>Text that can stand in a line.\<close>

definition line_text :: "cstring \<Rightarrow> bool" where
  "line_text s \<longleftrightarrow> CHR 0x0D \<notin> set s \<and> CHR 0x00 \<notin> set s"

lemma line_text_simps [simp]:
  "line_text []" "line_text (c # s) \<longleftrightarrow> c \<noteq> CHR 0x0D \<and> c \<noteq> CHR 0x00 \<and> line_text s"
  "line_text (s @ t) \<longleftrightarrow> line_text s \<and> line_text t"
  by (auto simp: line_text_def)

lemma line_text_takeWhile [simp]: "line_text s \<Longrightarrow> takeWhile (\<lambda>c. c \<noteq> CHR 0x00) s = s"
  by (auto simp: line_text_def takeWhile_eq_all_conv)

lemma recv_line_text:
  assumes "concat segs = line @ crlf @ rest" "line_text line" "length line \<le> 4093"
  obtains segs' where "recv_line 4096 segs = Some (line, segs')" "concat segs' = rest"
  using recv_line_loop_end [OF assms(1), of "[]" 4095] assms that by (auto simp: recv_line_def line_text_def)

lemma recv_line_cut:
  assumes "concat segs = line @ rest" "line_text line" "length line = 4095"
  obtains segs' where "recv_line 4096 segs = Some (line, segs')" "concat segs' = rest"
  using recv_line_loop_full [OF assms(1), of "[]"] assms that by (auto simp: recv_line_def line_text_def)

definition header_text :: "http_header_t \<Rightarrow> bool" where
  "header_text h \<longleftrightarrow> line_text (fst h) \<and> line_text (snd h) \<and> CHR '':'' \<notin> set (fst h) \<and>
     (snd h = [] \<or> hd (snd h) \<noteq> CHR '' '' \<and> hd (snd h) \<noteq> CHR 0x09)"

definition fits_header :: "http_header_t \<Rightarrow> bool" where
  "fits_header h \<longleftrightarrow> header_text h \<and> length (header_line h) < 4096"

lemma split_header_text:
  assumes "header_text h" "blank = [] \<or> blank = '' ''"
  shows "split_header (fst h @ CHR '':'' # blank @ snd h) = Some h"
proof -
  have "takeWhile (\<lambda>c. c \<noteq> CHR '':'') (fst h @ CHR '':'' # blank @ snd h) = fst h"
    "dropWhile (\<lambda>c. c \<noteq> CHR '':'') (fst h @ CHR '':'' # blank @ snd h) = CHR '':'' # blank @ snd h"
    using assms(1) by (auto simp: header_text_def takeWhile_tail dropWhile_append3)
  moreover have "dropWhile (\<lambda>c. c = CHR '' '' \<or> c = CHR 0x09) (blank @ snd h) = snd h"
    using assms by (cases "snd h") (auto simp: header_text_def)
  ultimately show ?thesis by (simp add: split_header_def)
qed

definition content_length_of :: "nat \<Rightarrow> http_header_t list \<Rightarrow> nat" where
  "content_length_of n headers = fold (\<lambda>h n. if is_content_length h then strtoul (snd h) else n) headers n"

lemma header_loop_step:
  assumes "concat segs = header_line h @ rest" "fits_header h" "length acc < MAX_HEADERS"
  obtains segs' where "header_loop segs acc n = header_loop segs' (acc @ [h]) (content_length_of n [h])" "concat segs' = rest"
proof -
  let ?line = "fst h @ '': '' @ snd h"
  have h: "header_text h" "length (header_line h) < 4096" using assms(2) by (simp_all add: fits_header_def)
  have "concat segs = ?line @ crlf @ rest" "line_text ?line" "length ?line \<le> 4093"
    using assms(1) h by (auto simp: header_line_def header_text_def)
  then obtain segs' where segs': "recv_line 4096 segs = Some (?line, segs')" "concat segs' = rest" by (rule recv_line_text)
  have "split_header ?line = Some h" using split_header_text [OF h(1), of "'' ''"] by simp
  then show thesis using that segs' assms(3) by (simp add: header_loop.simps [of segs] content_length_of_def)
qed

lemma header_loop_lines:
  assumes "concat segs = concat (map header_line hs) @ rest" "list_all fits_header hs" "length acc + length hs \<le> MAX_HEADERS"
  shows "\<exists>segs'. header_loop segs acc n = header_loop segs' (acc @ hs) (content_length_of n hs) \<and> concat segs' = rest"
  using assms
proof (induction hs arbitrary: segs acc n)
  case (Cons h hs)
  obtain s1 where s1: "header_loop segs acc n = header_loop s1 (acc @ [h]) (content_length_of n [h])"
    "concat s1 = concat (map header_line hs) @ rest"
    by (rule header_loop_step [of segs h "concat (map header_line hs) @ rest" acc]) (use Cons.prems in auto)
  then show ?case using Cons.IH [OF s1(2), of "acc @ [h]" "content_length_of n [h]"] Cons.prems by (simp add: content_length_of_def)
qed (auto simp: content_length_of_def)

lemma header_loop_text:
  assumes "concat segs = concat (map header_line hs) @ crlf @ rest" "list_all fits_header hs" "length hs < MAX_HEADERS"
  obtains segs' where "header_loop segs [] 0 = Some (hs, content_length_of 0 hs, segs')" "concat segs' = rest"
proof -
  obtain s1 where s1: "header_loop segs [] 0 = header_loop s1 hs (content_length_of 0 hs)" "concat s1 = [] @ crlf @ rest"
    using header_loop_lines [OF assms(1,2), of "[]" 0] assms(3) by auto
  obtain s2 where "recv_line 4096 s1 = Some ([], s2)" "concat s2 = rest" by (rule recv_line_text [OF s1(2)]) simp_all
  then show thesis using that s1(1) assms(3) by (simp add: header_loop.simps [of s1])
qed

lemma header_loop_stop: "\<not> length acc < MAX_HEADERS \<Longrightarrow> header_loop segs acc n = Some (acc, n, segs)"
  by (simp add: header_loop.simps [of segs])

lemma write_headers_fit: "list_all fits_header hs \<Longrightarrow> write_headers hs = Some (map header_line hs)"
  by (induction hs) (auto simp: fits_header_def send_formatted_def)

lemma concat_copy_body: "concat (copy_body n segs) = take n (concat segs)"
proof (induction n segs rule: copy_body.induct)
  case (1 n segs)
  show ?case
  proof (cases "n = 0")
    case False
    obtain chunk segs' where r: "recv (min n HTTP_BUFSIZE) segs = (chunk, segs')" by (cases "recv (min n HTTP_BUFSIZE) segs")
    show ?thesis
    proof (cases chunk)
      case Nil
      then show ?thesis
        using recv_empty [OF r [unfolded Nil]] False r by (simp add: copy_body.simps [of n] HTTP_BUFSIZE_def)
    next
      case (Cons c cs)
      then show ?thesis
        using 1 [OF False r [symmetric], of c cs] False r recv_concat [OF r] recv_length [OF r]
        by (auto simp: copy_body.simps [of n] take_Cons')
    qed
  qed (simp add: copy_body.simps)
qed

lemma concat_copy_all: "concat (copy_all segs) = concat segs"
proof (induction segs rule: copy_all.induct)
  case (1 segs)
  obtain chunk segs' where r: "recv HTTP_BUFSIZE segs = (chunk, segs')" by (cases "recv HTTP_BUFSIZE segs")
  show ?case
  proof (cases chunk)
    case Nil
    then show ?thesis using recv_empty [OF r [unfolded Nil]] r by (simp add: copy_all.simps [of segs] HTTP_BUFSIZE_def)
  next
    case (Cons c cs)
    then show ?thesis using 1 [OF r [symmetric], of c cs] r recv_concat [OF r] by (simp add: copy_all.simps [of segs])
  qed
qed

section \<open>Requests and responses in their wire form\<close>

definition wire_word :: "nat \<Rightarrow> cstring \<Rightarrow> bool" where
  "wire_word n w \<longleftrightarrow> w \<noteq> [] \<and> length w \<le> n \<and> (\<forall>c \<in> set w. \<not> char_isspace c \<and> c \<noteq> CHR 0x00)"

definition render_request :: "cstring \<Rightarrow> cstring \<Rightarrow> cstring \<Rightarrow> http_header_t list \<Rightarrow> cstring \<Rightarrow> cstring" where
  "render_request method path version headers body =
     (method @ '' '' @ path @ '' '' @ version) @ crlf @ concat (map header_line headers) @ crlf @ body"

definition render_response :: "cstring \<Rightarrow> int \<Rightarrow> cstring \<Rightarrow> http_header_t list \<Rightarrow> cstring \<Rightarrow> cstring" where
  "render_response version status reason headers body =
     (version @ '' '' @ dec_int status @ '' '' @ reason) @ crlf @ concat (map header_line headers) @ crlf @ body"

lemma char_isspace_simps [simp]: "char_isspace CHR '' ''" "char_isspace CHR 0x0D" "\<not> char_isspace CHR 0x00"
  by (simp_all add: char_isspace_def char_code_def)

lemma wire_word_line: "wire_word n w \<Longrightarrow> line_text w"
  unfolding wire_word_def line_text_def using char_isspace_simps(2) by blast

lemma scan_s_word:
  assumes "wire_word n w" "rest = [] \<or> char_isspace (hd rest)"
  shows "scan_s n (w @ rest) = Some (w, rest)" "scan_s n (CHR '' '' # w @ rest) = Some (w, rest)"
proof -
  have "dropWhile char_isspace (w @ rest) = w @ rest" using assms(1) by (cases w) (auto simp: wire_word_def)
  moreover have "takeWhile (\<lambda>c. \<not> char_isspace c) (w @ rest) = w"
    using assms by (cases rest) (auto simp: wire_word_def takeWhile_append2 takeWhile_tail)
  moreover have w: "w \<noteq> []" "length w \<le> n" using assms(1) by (simp_all add: wire_word_def)
  then have "n \<noteq> 0" by (cases w) simp_all
  ultimately show "scan_s n (w @ rest) = Some (w, rest)" using w by (simp add: scan_s_def)
  then show "scan_s n (CHR '' '' # w @ rest) = Some (w, rest)" by (simp add: scan_s_def)
qed

lemma parse_request_rendered:
  assumes "concat client = render_request m p v hs body @ extra" "wire_word 15 m" "wire_word 2047 p" "wire_word 15 v"
    "list_all fits_header hs" "length hs < MAX_HEADERS"
  obtains rest where "parse_request client =
    Some (\<lparr>hq_method = m, hq_path = p, hq_version = v, hq_headers = hs, hq_content_length = content_length_of 0 hs\<rparr>, rest)"
    "concat rest = body @ extra"
proof -
  let ?line = "m @ '' '' @ p @ '' '' @ v"
  have "concat client = ?line @ crlf @ (concat (map header_line hs) @ crlf @ body @ extra)" "line_text ?line" "length ?line \<le> 4093"
    using assms(1) assms(2-4) [THEN wire_word_line] assms(2-4) by (simp_all add: render_request_def wire_word_def)
  then obtain s1 where s1: "recv_line 4096 client = Some (?line, s1)" "concat s1 = concat (map header_line hs) @ crlf @ body @ extra"
    by (rule recv_line_text)
  moreover obtain s2 where "header_loop s1 [] 0 = Some (hs, content_length_of 0 hs, s2)" "concat s2 = body @ extra"
    using header_loop_text [OF s1(2) assms(5,6)] .
  ultimately show thesis
    using that scan_s_word(1) [OF assms(2), of "'' '' @ p @ '' '' @ v"] scan_s_word(2) [OF assms(3), of "'' '' @ v"]
      scan_s_word(2) [OF assms(4), of "[]"] by (simp add: parse_request_def)
qed

lemma dec_int_line: "line_text (dec_int i)"
proof -
  have "\<forall>c \<in> set (dec n). char_isdigit c" for n using dec_digits by blast
  moreover have "\<not> char_isdigit CHR 0x0D" "\<not> char_isdigit CHR 0x00" by (simp_all add: char_isdigit_def char_code_def)
  ultimately have "CHR 0x0D \<notin> set (dec n)" "CHR 0x00 \<notin> set (dec n)" for n by blast+
  then show ?thesis by (auto simp: dec_int_def line_text_def)
qed

lemma parse_response_rendered:
  assumes "concat answer = render_response v status (w @ phrase) hs body" "wire_word 15 v" "wire_word 31 w"
    "phrase = [] \<or> hd phrase = CHR '' ''" "line_text phrase" "length (v @ '' '' @ dec_int status @ '' '' @ w @ phrase) \<le> 4093"
    "list_all fits_header hs" "length hs < MAX_HEADERS"
  obtains rest where "parse_response answer =
    Some (\<lparr>hr_status = status, hr_reason = w, hr_headers = hs, hr_content_length = content_length_of 0 hs\<rparr>, rest)"
    "concat rest = body"
proof -
  let ?line = "v @ '' '' @ dec_int status @ '' '' @ w @ phrase"
  have "concat answer = ?line @ crlf @ (concat (map header_line hs) @ crlf @ body)" "line_text ?line"
    using assms(1,5) assms(2,3) [THEN wire_word_line] dec_int_line by (simp_all add: render_response_def)
  then obtain s1 where s1: "recv_line 4096 answer = Some (?line, s1)" "concat s1 = concat (map header_line hs) @ crlf @ body"
    using assms(6) by (rule recv_line_text)
  moreover obtain s2 where "header_loop s1 [] 0 = Some (hs, content_length_of 0 hs, s2)" "concat s2 = body"
    using header_loop_text [OF s1(2) assms(7,8)] .
  moreover have "scan_int (CHR '' '' # dec_int status @ '' '' @ w @ phrase) = Some (status, '' '' @ w @ phrase)"
    using scan_int_dec_int [of "CHR '' ''" status "w @ phrase"] by (simp add: scan_int_def char_isdigit_def char_code_def)
  moreover have "phrase = [] \<or> char_isspace (hd phrase)" using assms(4) by auto
  ultimately show thesis
    using that scan_s_word(1) [OF assms(2), of "'' '' @ dec_int status @ '' '' @ w @ phrase"] scan_s_word(2) [OF assms(3), of phrase]
    by (simp add: parse_response_def)
qed

section \<open>What the proxy does with a request\<close>

definition sent_upstream :: "proxy_event list \<Rightarrow> cstring" where
  "sent_upstream evs = concat (map (\<lambda>e. case e of To_upstream s \<Rightarrow> s | _ \<Rightarrow> []) evs)"

definition sent_client :: "proxy_event list \<Rightarrow> cstring" where
  "sent_client evs = concat (map (\<lambda>e. case e of To_client s \<Rightarrow> s | _ \<Rightarrow> []) evs)"

lemma sent_simps [simp]:
  "sent_upstream (map To_upstream ss) = concat ss" "sent_upstream (map To_client ss) = []"
  "sent_client (map To_upstream ss) = []" "sent_client (map To_client ss) = concat ss"
  "sent_upstream (xs @ ys) = sent_upstream xs @ sent_upstream ys" "sent_client (xs @ ys) = sent_client xs @ sent_client ys"
  "sent_upstream [Close_upstream, Close_client] = []" "sent_client [Close_upstream, Close_client] = []"
  by (induction ss) (simp_all add: sent_upstream_def sent_client_def)

definition forwarded_headers :: "http_header_t list \<Rightarrow> http_header_t list" where
  "forwarded_headers hs = filter (\<lambda>h. \<not> is_forwarded_proto h) hs @ [(''X-Forwarded-Proto'', ''https'')]"

lemma forward_rendered:
  assumes "wire_word 15 m" "length p < 2048" "wire_word 15 v" "list_all fits_header hs" "concat rest = body @ extra" "n = length body"
  obtains sent where
    "forward_request \<lparr>hq_method = m, hq_path = p0, hq_version = v, hq_headers = hs, hq_content_length = n\<rparr> p rest = Some sent"
    "concat sent = render_request m p v (forwarded_headers hs) body"
proof -
  let ?line = "m @ '' '' @ p @ '' '' @ v @ crlf" and ?hs = "filter (\<lambda>h. \<not> is_forwarded_proto h) hs"
  have "send_formatted 4096 ?line = Some ?line" using assms(1-3) by (simp add: send_formatted_def wire_word_def)
  moreover have "list_all fits_header ?hs" using assms(4) by (simp add: list_all_iff)
  then have "write_headers ?hs = Some (map header_line ?hs)" by (rule write_headers_fit)
  moreover have "concat (if 0 < n then copy_body n rest else []) = body" using assms(5,6) by (simp add: concat_copy_body)
  ultimately show thesis
    using that by (simp add: forward_request_def render_request_def forwarded_headers_def
        header_line_def [of "(''X-Forwarded-Proto'', ''https'')"] cong: if_cong)
qed

lemma length_dec_bound: "n < 10 ^ Suc k \<Longrightarrow> length (dec n) \<le> Suc k"
proof (induction k arbitrary: n)
  case (Suc k)
  then have "n div 10 < 10 ^ Suc k" by (simp add: less_mult_imp_div_less mult.commute)
  then show ?case using Suc.IH [of "n div 10"] by (subst dec.simps) auto
qed (simp add: dec.simps)

lemma length_dec_int: "\<bar>i\<bar> < 2 ^ 31 \<Longrightarrow> length (dec_int i) \<le> 11"
  using length_dec_bound [of "nat i" 9] length_dec_bound [of "nat (- i)" 9] by (auto simp: dec_int_def nat_less_iff)

lemma return_rendered:
  assumes "wire_word 15 v" "wire_word 31 w" "\<bar>status\<bar> < 2 ^ 31" "list_all fits_header hs" "concat rest = body"
    "n = length body \<or> n = 0"
  obtains reply where
    "return_response v \<lparr>hr_status = status, hr_reason = w, hr_headers = hs, hr_content_length = n\<rparr> rest = Some reply"
    "concat reply = render_response v status w hs body"
proof -
  let ?line = "v @ '' '' @ dec_int status @ '' '' @ w @ crlf"
  have "send_formatted 256 ?line = Some ?line"
    using assms(1,2) length_dec_int [OF assms(3)] by (simp add: send_formatted_def wire_word_def)
  moreover have "concat (if 0 < n then copy_body n rest else copy_all rest) = body"
    using assms(5,6) by (auto simp: concat_copy_body concat_copy_all)
  ultimately show thesis
    using that write_headers_fit [OF assms(4)] by (simp add: return_response_def render_response_def cong: if_cong)
qed

text \<open>C16. The proxy is transparent: a request that arrives in any pieces is sent to the upstream of its route with the same method,
  version, headers and body, the path with the prefix of the route replaced, and one header \<^verbatim>\<open>X-Forwarded-Proto: https\<close> in
  place of any the client sent; the answer, in any pieces, comes back with its status, the first word of its reason, its headers and its body, and then
  both connections are closed. It holds for fewer than 64 headers of less than 4096 bytes each, for a request whose body has
  the length it announces and for an answer that announces its length or ends with the connection.\<close>

theorem proxy_transparent:
  assumes request: "concat client = render_request m p v hs body @ extra" "wire_word 15 m" "wire_word 2047 p" "wire_word 15 v"
      "list_all fits_header hs" "length hs < MAX_HEADERS" "content_length_of 0 hs = length body"
    and route: "find_route routes p = Some route" "dial (pr_upstream_host route) (pr_upstream_port route) = Some upstream"
      "upath = pr_upstream_path route @ drop (length (pr_prefix route)) p" "length upath < 2048"
    and answer: "concat (upstream (render_request m upath v (forwarded_headers hs) body)) = render_response v' status (w @ phrase) hs' body'"
      "wire_word 15 v'" "wire_word 31 w" "phrase = [] \<or> hd phrase = CHR '' ''" "line_text phrase" "\<bar>status\<bar> < 2 ^ 31"
      "length (v' @ '' '' @ dec_int status @ '' '' @ w @ phrase) \<le> 4093"
      "list_all fits_header hs'" "length hs' < MAX_HEADERS" "content_length_of 0 hs' = length body' \<or> content_length_of 0 hs' = 0"
  shows "\<exists>evs. handle_client dial routes client = Some (evs @ [Close_upstream, Close_client]) \<and>
    sent_upstream evs = render_request m upath v (forwarded_headers hs) body \<and>
    sent_client evs = render_response v status w hs' body'"
proof -
  obtain rest where req: "parse_request client =
      Some (\<lparr>hq_method = m, hq_path = p, hq_version = v, hq_headers = hs, hq_content_length = content_length_of 0 hs\<rparr>, rest)"
    "concat rest = body @ extra"
    using request(1-6) by (rule parse_request_rendered)
  have path: "upstream_path route p = upath" using route(3,4) by (simp add: upstream_path_def)
  obtain sent where sent: "forward_request \<lparr>hq_method = m, hq_path = p, hq_version = v, hq_headers = hs,
        hq_content_length = content_length_of 0 hs\<rparr> upath rest = Some sent"
    "concat sent = render_request m upath v (forwarded_headers hs) body"
    using request(2) route(4) request(4,5) req(2) request(7) by (rule forward_rendered)
  have "concat (upstream (concat sent)) = render_response v' status (w @ phrase) hs' body'" using answer(1) sent(2) by simp
  then obtain rest' where resp: "parse_response (upstream (concat sent)) =
      Some (\<lparr>hr_status = status, hr_reason = w, hr_headers = hs', hr_content_length = content_length_of 0 hs'\<rparr>, rest')"
    "concat rest' = body'"
    using answer(2-5,7-9) by (rule parse_response_rendered)
  obtain reply where reply: "return_response v \<lparr>hr_status = status, hr_reason = w, hr_headers = hs',
        hr_content_length = content_length_of 0 hs'\<rparr> rest' = Some reply"
    "concat reply = render_response v status w hs' body'"
    using request(4) answer(3,6,8) resp(2) answer(10) by (rule return_rendered)
  show ?thesis
    using req(1) route(1,2) path sent resp(1) reply
    by (intro exI [of _ "map To_upstream sent @ map To_client reply"]) (simp add: handle_client_def)
qed

lemma pr_prefix_proxy_route [simp]: "pr_prefix (proxy_route c) = (case fst c of Some p \<Rightarrow> p | None \<Rightarrow> ''/'')"
  by (auto simp: proxy_route_def Let_def split: option.splits)

lemma find_route_longest:
  "case find_route routes path of
     None \<Rightarrow> \<forall>r \<in> set routes. route_matches path r \<longrightarrow> pr_prefix r = []
   | Some r \<Rightarrow> r \<in> set routes \<and> route_matches path r \<and> pr_prefix r \<noteq> [] \<and>
       (\<forall>r' \<in> set routes. route_matches path r' \<longrightarrow> length (pr_prefix r') \<le> length (pr_prefix r))"
proof (induction routes rule: rev_induct)
  case (snoc r routes)
  have "find_route (routes @ [r]) path =
    (if (case find_route routes path of None \<Rightarrow> 0 | Some b \<Rightarrow> length (pr_prefix b)) < length (pr_prefix r) \<and> route_matches path r
     then Some r else find_route routes path)" by (simp add: find_route_def)
  then show ?case using snoc by (auto split: option.splits if_splits)
qed (simp add: find_route_def)

text \<open>A request goes to the configured route with the longest prefix of its path, whatever the order of the configuration; it
  is turned away exactly when no route has a prefix of its path, the empty prefix aside.\<close>

theorem route_longest_prefix:
  "case find_route (build_routes routes) path of
     None \<Rightarrow> \<forall>c \<in> set routes. route_matches path (proxy_route c) \<longrightarrow> pr_prefix (proxy_route c) = []
   | Some r \<Rightarrow> r \<in> proxy_route ` set routes \<and> route_matches path r \<and> pr_prefix r \<noteq> [] \<and>
       (\<forall>c \<in> set routes. route_matches path (proxy_route c) \<longrightarrow> length (pr_prefix (proxy_route c)) \<le> length (pr_prefix r))"
proof -
  have "set (build_routes routes) = proxy_route ` set routes" by (simp add: build_routes_def)
  then show ?thesis
    using find_route_longest [of "build_routes routes" path] by (cases "find_route (build_routes routes) path") simp_all
qed

text \<open>A header line that fills the buffer of the reader makes the proxy send what lies behind its own buffer: the line is read as
  a header and printed again with a blank and a line end, three bytes more than were read, and the length that \<open>snprintf\<close>
  reports is sent.\<close>

theorem long_header_overreads:
  assumes request: "concat client = (m @ '' '' @ p @ '' '' @ v) @ crlf @ (name @ '':'' @ value) @ crlf @ extra" "wire_word 15 m"
      "wire_word 2047 p" "wire_word 15 v"
    and header: "header_text (name, value)" "length (name @ '':'' @ value) = 4095" "\<not> is_forwarded_proto (name, value)"
    and route: "find_route routes p = Some route" "dial (pr_upstream_host route) (pr_upstream_port route) = Some upstream"
  shows "handle_client dial routes client = None"
proof -
  let ?line = "m @ '' '' @ p @ '' '' @ v" and ?h = "(name, value)"
  have "line_text ?line" "length ?line \<le> 4093"
    using request(2-4) [THEN wire_word_line] request(2-4) by (simp_all add: wire_word_def)
  then obtain s1 where s1: "recv_line 4096 client = Some (?line, s1)" "concat s1 = (name @ '':'' @ value) @ crlf @ extra"
    using recv_line_text [OF request(1)] by auto
  have "line_text (name @ '':'' @ value)" using header(1) by (simp add: header_text_def)
  then obtain s2 where s2: "recv_line 4096 s1 = Some (name @ '':'' @ value, s2)" "concat s2 = crlf @ extra"
    using recv_line_cut [OF s1(2)] header(2) by auto
  obtain s3 where s3: "recv_line 4096 s2 = Some ([], s3)" using recv_line_text [of s2 "[]" extra] s2(2) by auto
  have split: "split_header (name @ CHR '':'' # value) = Some ?h" using split_header_text [OF header(1), of "[]"] by simp
  define n where "n = content_length_of 0 [?h]"
  have last: "header_loop s2 [?h] n = Some ([?h], n, s3)" using s3 by (simp add: header_loop.simps [of s2] MAX_HEADERS_def)
  have "header_loop s1 [] 0 = header_loop s2 [?h] n"
    unfolding header_loop.simps [of s1] s2(1) by (simp add: MAX_HEADERS_def split n_def content_length_of_def)
  then have loop: "header_loop s1 [] 0 = Some ([?h], n, s3)" using last by (rule trans)
  let ?req = "\<lparr>hq_method = m, hq_path = p, hq_version = v, hq_headers = [?h], hq_content_length = n\<rparr>"
  have req: "parse_request client = Some (?req, s3)"
    using s1(1) loop scan_s_word(1) [OF request(2), of "'' '' @ p @ '' '' @ v"] scan_s_word(2) [OF request(3), of "'' '' @ v"]
      scan_s_word(2) [OF request(4), of "[]"] by (simp add: parse_request_def)
  have "send_formatted 4096 (header_line ?h) = None" using header(2) by (simp add: send_formatted_def header_line_def)
  then have "write_headers [?h] = None" by simp
  then have "forward_request ?req path s3 = None" for path
    using header(3) by (cases "send_formatted 4096 (m @ '' '' @ path @ '' '' @ v @ crlf)") (simp_all add: forward_request_def)
  then show ?thesis using req route by (simp add: handle_client_def)
qed

lemma scan_int_dec_end: "scan_int (dec n) = Some (int n, [])"
proof -
  obtain c ds where ds: "dec n = c # ds" using dec_nonempty by (cases "dec n") auto
  have digits: "\<forall>c \<in> set (dec n). char_isdigit c" using dec_digits by blast
  then have "\<not> char_isspace c" "c \<noteq> CHR ''-''" "c \<noteq> CHR ''+''" using digit_not_sign ds by auto
  moreover have "takeWhile char_isdigit (dec n) = dec n" "dropWhile char_isdigit (dec n) = []"
    using digits by (simp_all add: takeWhile_eq_all_conv)
  ultimately show ?thesis by (simp add: scan_int_def ds flip: digits_value_dec)
qed

text \<open>An upstream that is a host and a port has an empty path; one with a path and no port loses it, and one without the scheme or
  with another is taken for the local host.\<close>

lemma upstream_host_port:
  assumes "wire_word 255 h" "CHR '':'' \<notin> set h" "CHR ''/'' \<notin> set h"
  shows "parse_upstream_url (''http://'' @ h @ '':'' @ dec n) = Some (h, int n, [])"
    "parse_upstream_url (''http://'' @ h @ ''/'' @ path) = Some (h, 80, [])"
proof -
  have "takeWhile (\<lambda>c. c \<noteq> CHR '':'' \<and> c \<noteq> CHR ''/'') (h @ c # s) = h" if "c = CHR '':'' \<or> c = CHR ''/''" for c s
    using assms(2,3) that by (subst takeWhile_append2) auto
  moreover have "h \<noteq> []" "take 255 h = h" using assms(1) by (simp_all add: wire_word_def)
  ultimately have scan: "scan_not '':/'' 255 (h @ c # s) = Some (h, c # s)" if "c = CHR '':'' \<or> c = CHR ''/''" for c s
    using that by (simp add: scan_not_def)
  then show "parse_upstream_url (''http://'' @ h @ '':'' @ dec n) = Some (h, int n, [])"
    "parse_upstream_url (''http://'' @ h @ ''/'' @ path) = Some (h, 80, [])"
    by (simp_all add: parse_upstream_url_def scan_literal_def scan_char_def scan_int_dec_end scan_s_def)
qed

text \<open>With the upstream given as host and port, as in \<^verbatim>\<open>http://127.0.0.1:3000\<close>, a route for everything forwards requests without the
  slash that begins their path: nothing is put in place of the prefix that is cut off.\<close>

theorem bare_upstream_loses_slash:
  assumes "wire_word 255 h" "CHR '':'' \<notin> set h" "CHR ''/'' \<notin> set h"
    and routes: "routes = build_routes [(Some ''/'', Some (''http://'' @ h @ '':'' @ dec n))]"
    and request: "concat client = render_request m (CHR ''/'' # p) v hs body @ extra" "wire_word 15 m" "wire_word 2047 (CHR ''/'' # p)"
      "wire_word 15 v" "list_all fits_header hs" "length hs < MAX_HEADERS" "content_length_of 0 hs = length body"
    and dial: "dial h (int n) = Some upstream" and run: "handle_client dial routes client = Some evs"
  shows "sent_upstream evs = render_request m p v (forwarded_headers hs) body"
proof -
  let ?route = "\<lparr>pr_prefix = ''/'', pr_upstream_host = h, pr_upstream_port = int n, pr_upstream_path = []\<rparr>"
  have "routes = [?route]"
    using upstream_host_port(1) [OF assms(1-3), of n] by (simp add: routes build_routes_def proxy_route_def exchange_sort_def)
  then have route: "find_route routes (CHR ''/'' # p) = Some ?route" by (simp add: find_route_def route_matches_def)
  obtain rest where req: "parse_request client =
      Some (\<lparr>hq_method = m, hq_path = CHR ''/'' # p, hq_version = v, hq_headers = hs, hq_content_length = content_length_of 0 hs\<rparr>, rest)"
    "concat rest = body @ extra"
    using request(1-6) by (rule parse_request_rendered)
  have len: "length p < 2048" using request(3) by (simp add: wire_word_def)
  then have path: "upstream_path ?route (CHR ''/'' # p) = p" by (simp add: upstream_path_def)
  obtain sent where sent: "forward_request \<lparr>hq_method = m, hq_path = CHR ''/'' # p, hq_version = v, hq_headers = hs,
        hq_content_length = content_length_of 0 hs\<rparr> p rest = Some sent"
    "concat sent = render_request m p v (forwarded_headers hs) body"
    using request(2) len request(4,5) req(2) request(7) by (rule forward_rendered)
  have "sent_upstream [To_client bad_gw, Close_upstream, Close_client] = []" by (simp add: sent_upstream_def)
  then show ?thesis
    using run req(1) route dial path sent by (auto simp: handle_client_def split: option.splits)
qed

lemma parse_request_full:
  assumes "concat client = render_request m p v hs body @ extra" "wire_word 15 m" "wire_word 2047 p" "wire_word 15 v"
    "list_all fits_header hs" "length hs = MAX_HEADERS"
  obtains rest where "parse_request client =
    Some (\<lparr>hq_method = m, hq_path = p, hq_version = v, hq_headers = hs, hq_content_length = content_length_of 0 hs\<rparr>, rest)"
    "concat rest = crlf @ body @ extra"
proof -
  let ?line = "m @ '' '' @ p @ '' '' @ v" and ?rest = "concat (map header_line hs) @ crlf @ body @ extra"
  have "concat client = ?line @ crlf @ ?rest" "line_text ?line" "length ?line \<le> 4093"
    using assms(1) assms(2-4) [THEN wire_word_line] assms(2-4) by (simp_all add: render_request_def wire_word_def)
  then obtain s1 where s1: "recv_line 4096 client = Some (?line, s1)" "concat s1 = ?rest" by (rule recv_line_text)
  obtain s2 where s2: "header_loop s1 [] 0 = header_loop s2 hs (content_length_of 0 hs)" "concat s2 = crlf @ body @ extra"
    using header_loop_lines [OF s1(2) assms(5), of "[]" 0] assms(6) by auto
  then have "header_loop s1 [] 0 = Some (hs, content_length_of 0 hs, s2)" using header_loop_stop [of hs] assms(6) by simp
  then show thesis
    using that s2(2) s1(1) scan_s_word(1) [OF assms(2), of "'' '' @ p @ '' '' @ v"] scan_s_word(2) [OF assms(3), of "'' '' @ v"]
      scan_s_word(2) [OF assms(4), of "[]"] by (simp add: parse_request_def)
qed

text \<open>The 65th line is taken for the body: with 64 headers the reader stops before the blank line, so that the upstream gets
  a line end and the body without its last two bytes.\<close>

theorem header_limit_shifts_body:
  assumes request: "concat client = render_request m p v hs body @ extra" "wire_word 15 m" "wire_word 2047 p" "wire_word 15 v"
      "list_all fits_header hs" "length hs = MAX_HEADERS" "content_length_of 0 hs = length body"
    and route: "find_route routes p = Some route" "dial (pr_upstream_host route) (pr_upstream_port route) = Some upstream"
      "upath = pr_upstream_path route @ drop (length (pr_prefix route)) p" "length upath < 2048"
    and run: "handle_client dial routes client = Some evs"
  shows "sent_upstream evs = render_request m upath v (forwarded_headers hs) (take (length body) (crlf @ body))"
proof -
  let ?req = "\<lparr>hq_method = m, hq_path = p, hq_version = v, hq_headers = hs, hq_content_length = length body\<rparr>"
  obtain s2 where req: "parse_request client = Some (?req, s2)" and s2: "concat s2 = crlf @ body @ extra"
    using parse_request_full [OF request(1-6)] request(7) by auto
  have path: "upstream_path route p = upath" using route(3,4) by (simp add: upstream_path_def)
  have "concat s2 = take (length body) (crlf @ body) @ drop (length body) (crlf @ body) @ extra"
    "length body = length (take (length body) (crlf @ body))" using s2 by (simp_all flip: append_assoc)
  then obtain sent where sent: "forward_request ?req upath s2 = Some sent"
    "concat sent = render_request m upath v (forwarded_headers hs) (take (length body) (crlf @ body))"
    by (rule forward_rendered [OF request(2) route(4) request(4,5)])
  have "sent_upstream [To_client bad_gw, Close_upstream, Close_client] = []" by (simp add: sent_upstream_def)
  then show ?thesis
    using run req route(1,2) path sent by (auto simp: handle_client_def split: option.splits)
qed

section \<open>Sample requests\<close>

definition sample_route :: proxy_route_t where
  "sample_route = \<lparr>pr_prefix = ''/'', pr_upstream_host = ''h'', pr_upstream_port = 80, pr_upstream_path = ''/''\<rparr>"

definition sample_dial :: "cstring \<Rightarrow> int \<Rightarrow> (cstring \<Rightarrow> segments) option" where
  "sample_dial host port = Some (\<lambda>_. [render_response ''HTTP/1.1'' 200 ''OK'' [] ''hi''])"

lemma wire_word_code [simp]:
  "wire_word n w \<longleftrightarrow> w \<noteq> [] \<and> length w \<le> n \<and> list_all (\<lambda>c. \<not> char_isspace c \<and> c \<noteq> CHR 0x00) w"
  by (simp add: wire_word_def list_all_iff)

lemmas sample_simps = sample_dial_def sample_route_def find_route_def route_matches_def fits_header_def header_text_def header_line_def
  line_text_def MAX_HEADERS_def content_length_of_def is_content_length_def is_forwarded_proto_def strcasecmp_eq_def str_tolower_def
  char_tolower_def char_code_def char_isspace_def dec_int_def dec.simps digit_char_def

theorem proxy_transparent_witness:
  "\<exists>evs. handle_client sample_dial [sample_route] [''GE'', ''T /a H'', ''TTP/1.1'' @ crlf @ ''A: b'' @ crlf, crlf] =
      Some (evs @ [Close_upstream, Close_client]) \<and>
    sent_upstream evs = render_request ''GET'' ''/a'' ''HTTP/1.1'' (forwarded_headers [(''A'', ''b'')]) [] \<and>
    sent_client evs = render_response ''HTTP/1.1'' 200 ''OK'' [] ''hi''"
  by (rule proxy_transparent [where route = sample_route and extra = "[]" and phrase = "[]" and p = "''/a''" and v' = "''HTTP/1.1''"
        and hs' = "[]" and upstream = "\<lambda>_. [render_response ''HTTP/1.1'' 200 ''OK'' [] ''hi'']"])
    (simp_all add: sample_simps render_request_def)

theorem route_longest_prefix_witness:
  "\<exists>r. find_route (build_routes [(Some ''/'', None), (Some ''/api'', None)]) ''/api/x'' = Some r \<and> pr_prefix r = ''/api''"
  using route_longest_prefix [of "[(Some ''/'', None), (Some ''/api'', None)]" "''/api/x''"]
  by (auto simp: route_matches_def split: option.splits)

definition sample_value :: "nat \<Rightarrow> cstring" where "sample_value n = replicate n (CHR ''b'')"

lemma sample_value_simps [simp]:
  "length (sample_value n) = n" "header_text (''A'', sample_value n)"
  by (cases n; auto simp: sample_value_def header_text_def line_text_def)+

theorem long_header_overreads_witness:
  "handle_client sample_dial [sample_route]
     [(''GET'' @ '' '' @ ''/'' @ '' '' @ ''HTTP/1.1'') @ crlf @ (''A'' @ '':'' @ sample_value 4093) @ crlf @ crlf] = None"
  by (rule long_header_overreads [where route = sample_route and extra = crlf and m = "''GET''" and p = "''/''" and v = "''HTTP/1.1''", OF _ _ _ _ sample_value_simps(2)])
    (simp_all add: sample_simps)

text \<open>An upstream that closes the connection without an answer.\<close>

definition silent_dial :: "cstring \<Rightarrow> int \<Rightarrow> (cstring \<Rightarrow> segments) option" where
  "silent_dial host port = Some (\<lambda>_. [])"

lemma silent_run:
  assumes "parse_request client = Some (req, rest)" "list_all fits_header (hq_headers req)" "find_route routes (hq_path req) = Some route"
    "length (hq_method req) \<le> 15" "length (hq_version req) \<le> 15"
  obtains evs where "handle_client silent_dial routes client = Some evs"
proof -
  let ?path = "upstream_path route (hq_path req)"
  have "length ?path \<le> 2047" by (simp add: upstream_path_def snprintf_s_def)
  then have "send_formatted 4096 (hq_method req @ '' '' @ ?path @ '' '' @ hq_version req @ crlf) \<noteq> None"
    using assms(4,5) by (simp add: send_formatted_def)
  moreover have "list_all fits_header (filter (\<lambda>h. \<not> is_forwarded_proto h) (hq_headers req))"
    using assms(2) by (simp add: list_all_iff)
  ultimately obtain sent where "forward_request req ?path rest = Some sent"
    using write_headers_fit by (auto simp: forward_request_def)
  moreover have "parse_response [] = None" by (simp add: parse_response_def recv_line_def numeral_eq_Suc)
  ultimately show thesis using that assms(1,3) by (simp add: handle_client_def silent_dial_def)
qed

theorem bare_upstream_loses_slash_witness:
  "\<exists>evs. handle_client silent_dial (build_routes [(Some ''/'', Some (''http://'' @ ''h'' @ '':'' @ dec 3000))])
     [render_request ''GET'' ''/a'' ''HTTP/1.1'' [] []] = Some evs \<and>
   sent_upstream evs = render_request ''GET'' ''a'' ''HTTP/1.1'' (forwarded_headers []) []"
proof -
  let ?routes = "build_routes [(Some ''/'', Some (''http://'' @ ''h'' @ '':'' @ dec 3000))]"
    and ?client = "[render_request ''GET'' ''/a'' ''HTTP/1.1'' [] []]"
  have word: "wire_word 15 ''GET''" "wire_word 2047 ''/a''" "wire_word 15 ''HTTP/1.1''" "wire_word 255 ''h''" by (simp_all add: sample_simps)
  obtain rest where "parse_request ?client =
      Some (\<lparr>hq_method = ''GET'', hq_path = ''/a'', hq_version = ''HTTP/1.1'', hq_headers = [], hq_content_length = content_length_of 0 []\<rparr>, rest)"
    by (rule parse_request_rendered [of ?client "''GET''" "''/a''" "''HTTP/1.1''" "[]" "[]" "[]"]) (use word in \<open>simp_all add: MAX_HEADERS_def\<close>)
  moreover have "\<exists>route. find_route ?routes ''/a'' = Some route"
    by (simp add: build_routes_def exchange_sort_def find_route_def route_matches_def)
  ultimately obtain evs where run: "handle_client silent_dial ?routes ?client = Some evs" using silent_run by fastforce
  have "sent_upstream evs = render_request ''GET'' ''a'' ''HTTP/1.1'' (forwarded_headers []) []"
    by (rule bare_upstream_loses_slash [where dial = silent_dial and extra = "[]", OF word(4) _ _ refl _ word(1) _ word(3) _ _ _ _ run])
      (use word(2) in \<open>simp_all add: MAX_HEADERS_def content_length_of_def silent_dial_def\<close>)
  with run show ?thesis by blast
qed

definition sample_headers :: "http_header_t list" where
  "sample_headers = (''Content-Length'', ''3'') # replicate 63 (''A'', ''b'')"

theorem header_limit_shifts_body_witness:
  "\<exists>evs. handle_client silent_dial [sample_route] [render_request ''POST'' ''/'' ''HTTP/1.1'' sample_headers ''xyz''] = Some evs \<and>
   sent_upstream evs = render_request ''POST'' ''/'' ''HTTP/1.1'' (forwarded_headers sample_headers) (crlf @ ''x'')"
proof -
  let ?client = "[render_request ''POST'' ''/'' ''HTTP/1.1'' sample_headers ''xyz'']"
  have word: "wire_word 15 ''POST''" "wire_word 2047 ''/''" "wire_word 15 ''HTTP/1.1''" by (simp_all add: sample_simps)
  have "\<not> is_content_length (''A'', ''b'')" by (simp add: sample_simps)
  then have "fold (\<lambda>h n. if is_content_length h then strtoul (snd h) else n) (replicate k (''A'', ''b'')) n = n" for k n
    by (induction k) simp_all
  then have len: "content_length_of 0 sample_headers = length ''xyz''"
    by (simp add: sample_headers_def sample_simps strtoul_def char_isdigit_def digits_value_def)
  have fits: "list_all fits_header sample_headers" "length sample_headers = MAX_HEADERS"
    by (simp_all add: sample_headers_def list_all_iff fits_header_def header_text_def header_line_def MAX_HEADERS_def)
  have route: "find_route [sample_route] ''/'' = Some sample_route" by (simp add: sample_simps)
  obtain rest where "parse_request ?client = Some (\<lparr>hq_method = ''POST'', hq_path = ''/'', hq_version = ''HTTP/1.1'',
      hq_headers = sample_headers, hq_content_length = content_length_of 0 sample_headers\<rparr>, rest)"
    by (rule parse_request_full [of ?client "''POST''" "''/''" "''HTTP/1.1''" sample_headers "''xyz''" "[]"]) (use word fits in simp_all)
  then obtain evs where run: "handle_client silent_dial [sample_route] ?client = Some evs"
    using silent_run fits(1) route by fastforce
  have "sent_upstream evs = render_request ''POST'' ''/'' ''HTTP/1.1'' (forwarded_headers sample_headers)
      (take (length ''xyz'') (crlf @ ''xyz''))"
    by (rule header_limit_shifts_body [where extra = "[]", OF _ word fits len route _ _ _ run])
      (simp_all add: silent_dial_def sample_route_def)
  with run show ?thesis by auto
qed

end
