(* ===== verification/Stream_Client.thy ===== *)
theory Stream_Client
  imports Conn_Channel Http_Runtime Lease_Registry
begin

text \<open>
  The reverse stream client of the SDK, \<^verbatim>\<open>src/transport/stream_client.c\<close>: the ring of accepted connections and the session on a reverse
  connection, which waits for the activation by the relay, ends the inner TLS handshake and hands the connection over.

  A socket is the list of the pieces in which it delivers bytes, as in \<open>Http_Runtime\<close>. The inner TLS engine of OpenSSL is a
  parameter: a state that \<open>SSL_accept\<close> moves on, with the memory BIOs that feed and empty it. Each turn of the
  handshake loop gets from the environment whether the outer read has to be repeated, how the writes go and the time; when the turns given
  are used up, the call is still waiting. Handing a null SSL object to OpenSSL is undefined. SSL objects are numbers, and what is freed or closed is recorded in the state.
\<close>

section \<open>Connections\<close>

datatype released = Ssl_freed nat | Fd_closed int

record portillia_net_conn =
  nc_fd :: int
  nc_ssl :: "nat option"
  nc_outer_ssl :: "nat option"
  nc_owns_ssl :: bool
  nc_local :: "cstring \<times> cstring"
  nc_remote :: "cstring \<times> cstring"
  nc_closed :: bool

definition portillia_net_conn_init :: portillia_net_conn where
  "portillia_net_conn_init =
     \<lparr>nc_fd = -1, nc_ssl = None, nc_outer_ssl = None, nc_owns_ssl = False, nc_local = ([], []), nc_remote = ([], []),
      nc_closed = False\<rparr>"

definition ssl_freed :: "nat option \<Rightarrow> released list" where
  "ssl_freed ssl = (case ssl of None \<Rightarrow> [] | Some i \<Rightarrow> [Ssl_freed i])"

definition portillia_net_conn_cleanup :: "portillia_net_conn \<Rightarrow> portillia_net_conn \<times> released list" where
  "portillia_net_conn_cleanup c =
     (portillia_net_conn_init,
      (if nc_owns_ssl c then ssl_freed (nc_ssl c) @ ssl_freed (nc_outer_ssl c) else []) @
      (if 0 \<le> nc_fd c then [Fd_closed (nc_fd c)] else []))"

section \<open>The ring of accepted connections\<close>

record portillia_stream_client =
  sc_accepted_conns :: "portillia_net_conn option list"
  sc_accepted_count :: nat
  sc_accepted_cap :: nat
  sc_accepted_head :: nat
  sc_accepted_tail :: nat
  sc_handshake_timeout_sec :: int
  sc_closed :: bool
  sc_released :: "released list"

definition ring_push :: "portillia_net_conn \<Rightarrow> portillia_stream_client \<Rightarrow> portillia_stream_client \<times> bool" where
  "ring_push conn s =
     (if sc_closed s then (s, False)
      else if sc_accepted_count s \<ge> sc_accepted_cap s then (s, False)
      else (s\<lparr>sc_accepted_conns := (sc_accepted_conns s)[sc_accepted_tail s := Some conn],
              sc_accepted_tail := (sc_accepted_tail s + 1) mod sc_accepted_cap s,
              sc_accepted_count := sc_accepted_count s + 1\<rparr>, True))"

definition ring_pop :: "portillia_stream_client \<Rightarrow> portillia_stream_client \<times> portillia_net_conn pop_result" where
  "ring_pop s =
     (if sc_accepted_count s = 0 \<and> \<not> sc_closed s then (s, Waits)
      else if sc_closed s then (s, Turned_away)
      else case sc_accepted_conns s ! sc_accepted_head s of
             None \<Rightarrow> (s, Waits)
           | Some conn \<Rightarrow>
               (s\<lparr>sc_accepted_head := (sc_accepted_head s + 1) mod sc_accepted_cap s,
                  sc_accepted_count := sc_accepted_count s - 1\<rparr>, Popped conn))"

definition portillia_stream_client_new :: "int \<Rightarrow> int \<Rightarrow> portillia_stream_client" where
  "portillia_stream_client_new ready_target handshake_timeout_sec =
     (let cap = (if ready_target > 0 then nat (ready_target * 2) else 2)
      in \<lparr>sc_accepted_conns = replicate cap None, sc_accepted_count = 0, sc_accepted_cap = cap, sc_accepted_head = 0,
          sc_accepted_tail = 0, sc_handshake_timeout_sec = handshake_timeout_sec, sc_closed = False, sc_released = []\<rparr>)"

definition release :: "released list \<Rightarrow> portillia_stream_client \<Rightarrow> portillia_stream_client" where
  "release rs s = s\<lparr>sc_released := sc_released s @ rs\<rparr>"

function portillia_stream_client_drain :: "portillia_stream_client \<Rightarrow> portillia_stream_client" where
  "portillia_stream_client_drain s =
     (if sc_accepted_count s > 0 then
        let s' = s\<lparr>sc_accepted_head := (sc_accepted_head s + 1) mod sc_accepted_cap s,
                   sc_accepted_count := sc_accepted_count s - 1\<rparr>
        in portillia_stream_client_drain
             (case sc_accepted_conns s ! sc_accepted_head s of
                None \<Rightarrow> s'
              | Some conn \<Rightarrow> release (snd (portillia_net_conn_cleanup conn)) s')
      else s)"
  by pat_completeness auto
termination
  by (relation "measure sc_accepted_count") (auto simp: release_def split: option.splits)

declare portillia_stream_client_drain.simps [simp del]

definition portillia_stream_client_destroy :: "portillia_stream_client \<Rightarrow> portillia_stream_client" where
  "portillia_stream_client_destroy s = (portillia_stream_client_drain s)\<lparr>sc_closed := True\<rparr>"

definition portillia_stream_client_accept ::
  "portillia_stream_client \<Rightarrow> portillia_stream_client \<times> portillia_net_conn pop_result" where
  "portillia_stream_client_accept s = ring_pop s"

section \<open>The inner handshake\<close>

datatype ssl_status = Ssl_done | Want_read | Want_write | Ssl_failed
datatype write_result = Wrote nat | Write_again int | Write_failed

text \<open>\<open>SSL_accept\<close> with \<open>SSL_get_error\<close>, \<open>BIO_write\<close> to the BIO it reads from, \<open>BIO_read\<close> from the BIO it writes to.\<close>

record 's tls_engine =
  te_accept :: "'s \<Rightarrow> ssl_status \<times> 's"
  te_feed :: "byte list \<Rightarrow> 's \<Rightarrow> 's"
  te_output :: "nat \<Rightarrow> 's \<Rightarrow> byte list \<times> 's"

record handshake_turn =
  ht_again :: bool
  ht_writes :: "write_result list"
  ht_time :: int

datatype handshake_end = Hs_ok | Hs_failed | Hs_waits | Hs_undefined

text \<open>Writing what the engine put out; the bytes that left, and \<open>None\<close> when all did.\<close>

fun write_out :: "int \<Rightarrow> write_result list \<Rightarrow> byte list \<Rightarrow> byte list \<times> handshake_end option" where
  "write_out deadline ws [] = ([], None)"
| "write_out deadline [] buf = ([], Some Hs_waits)"
| "write_out deadline (Wrote n # ws) buf =
     (let k = max 1 n in apfst ((@) (take k buf)) (write_out deadline ws (drop k buf)))"
| "write_out deadline (Write_again t # ws) buf = (if t \<ge> deadline then ([], Some Hs_failed) else write_out deadline ws buf)"
| "write_out deadline (Write_failed # ws) buf = ([], Some Hs_failed)"

fun handshake_loop ::
  "'s tls_engine \<Rightarrow> nat option \<Rightarrow> int \<Rightarrow> handshake_turn list \<Rightarrow> 's \<Rightarrow> byte list list \<Rightarrow> handshake_end \<times> byte list" where
  "handshake_loop eng outer deadline [] st segs = (Hs_waits, [])"
| "handshake_loop eng outer deadline (turn # turns) st segs =
     (case te_accept eng st of
        (Ssl_done, st') \<Rightarrow> (Hs_ok, [])
      | (Ssl_failed, st') \<Rightarrow> (Hs_failed, [])
      | (Want_read, st') \<Rightarrow>
          if outer = None then (Hs_undefined, [])
          else if ht_again turn then
            (if ht_time turn \<ge> deadline then (Hs_failed, []) else handshake_loop eng outer deadline turns st' segs)
          else (case recv 4096 segs of
                  ([], _) \<Rightarrow> (Hs_failed, [])
                | (chunk, segs') \<Rightarrow>
                    if ht_time turn \<ge> deadline then (Hs_failed, [])
                    else handshake_loop eng outer deadline turns (te_feed eng chunk st') segs')
      | (Want_write, st') \<Rightarrow>
          (case te_output eng 4096 st' of
             (out, st'') \<Rightarrow>
               if out \<noteq> [] \<and> outer = None then (Hs_undefined, [])
               else case write_out deadline (ht_writes turn) out of
                 (sent, Some failure) \<Rightarrow> (failure, sent)
               | (sent, None) \<Rightarrow>
                   if ht_time turn \<ge> deadline then (Hs_failed, sent)
                   else apsnd ((@) sent) (handshake_loop eng outer deadline turns st'' segs)))"

text \<open>What a session meets: the engine in the state \<open>SSL_new\<close> gives, none when that fails; the number of the new SSL object; the
  addresses of the socket; the turns of the handshake and the time it begins.\<close>

record 's session_env =
  sn_engine :: "'s tls_engine"
  sn_ssl_new :: "'s option"
  sn_ssl_id :: nat
  sn_sockname :: "cstring option"
  sn_peername :: "cstring option"
  sn_turns :: "handshake_turn list"
  sn_now :: int

definition socket_address :: "cstring option \<Rightarrow> cstring \<times> cstring" where
  "socket_address name = (case name of None \<Rightarrow> ([], []) | Some a \<Rightarrow> (''tcp'', a))"

definition perform_tls_handshake ::
  "'s session_env \<Rightarrow> portillia_stream_client \<Rightarrow> int \<Rightarrow> nat option \<Rightarrow> bool \<Rightarrow> byte list list \<Rightarrow>
   (handshake_end \<times> portillia_net_conn option) \<times> byte list" where
  "perform_tls_handshake env s conn_fd outer has_ctx segs =
     (if \<not> has_ctx then ((Hs_failed, None), [])
      else case sn_ssl_new env of
             None \<Rightarrow> ((Hs_failed, None), [])
           | Some st \<Rightarrow>
               let timeout = sc_handshake_timeout_sec s; deadline = sn_now env + (if timeout > 0 then timeout else 15)
               in case handshake_loop (sn_engine env) outer deadline (sn_turns env) st segs of
                    (Hs_ok, sent) \<Rightarrow>
                      ((Hs_ok, Some \<lparr>nc_fd = conn_fd, nc_ssl = Some (sn_ssl_id env), nc_outer_ssl = outer, nc_owns_ssl = True,
                         nc_local = socket_address (sn_sockname env), nc_remote = socket_address (sn_peername env),
                         nc_closed = False\<rparr>), sent)
                  | (failure, sent) \<Rightarrow> ((failure, None), sent))"

section \<open>A session\<close>

definition PORTILLIA_MARKER_KEEPALIVE :: byte where "PORTILLIA_MARKER_KEEPALIVE = 0x00"
definition PORTILLIA_MARKER_RAW_START :: byte where "PORTILLIA_MARKER_RAW_START = 0x01"
definition PORTILLIA_MARKER_TLS_START :: byte where "PORTILLIA_MARKER_TLS_START = 0x02"

lemmas marker_defs = PORTILLIA_MARKER_KEEPALIVE_def PORTILLIA_MARKER_RAW_START_def PORTILLIA_MARKER_TLS_START_def

datatype session_errno = No_errno | EPIPE | EPROTO | EBADF_session
datatype session_end = Session_waits | Session_undefined | Session_over bool session_errno

definition abandon :: "int \<Rightarrow> nat option \<Rightarrow> session_errno \<Rightarrow> portillia_stream_client \<Rightarrow> portillia_stream_client \<times> session_end" where
  "abandon conn_fd outer err s = (release (ssl_freed outer @ [Fd_closed conn_fd]) s, Session_over False err)"

definition hand_over :: "portillia_net_conn \<Rightarrow> portillia_stream_client \<Rightarrow> portillia_stream_client \<times> session_end" where
  "hand_over conn s =
     (case ring_push conn s of
        (s', True) \<Rightarrow> (s', Session_over True No_errno)
      | (s', False) \<Rightarrow> (release (snd (portillia_net_conn_cleanup conn)) s', Session_over True No_errno))"

text \<open>An SSL object whose handshake failed is freed by \<open>perform_tls_handshake\<close> itself.\<close>

definition start_tls ::
  "'s session_env \<Rightarrow> int \<Rightarrow> nat option \<Rightarrow> bool \<Rightarrow> byte list list \<Rightarrow> portillia_stream_client \<Rightarrow> portillia_stream_client \<times> session_end" where
  "start_tls env conn_fd outer has_ctx segs s =
     (case fst (perform_tls_handshake env s conn_fd outer has_ctx segs) of
        (Hs_ok, Some conn) \<Rightarrow> hand_over conn s
      | (Hs_waits, _) \<Rightarrow> (s, Session_waits)
      | (Hs_undefined, _) \<Rightarrow> (s, Session_undefined)
      | _ \<Rightarrow> abandon conn_fd outer EPROTO
               (if has_ctx \<and> sn_ssl_new env \<noteq> None then release [Ssl_freed (sn_ssl_id env)] s else s))"

definition raw_conn :: "'s session_env \<Rightarrow> int \<Rightarrow> nat option \<Rightarrow> portillia_net_conn" where
  "raw_conn env conn_fd outer =
     \<lparr>nc_fd = conn_fd, nc_ssl = None, nc_outer_ssl = outer, nc_owns_ssl = (outer \<noteq> None),
      nc_local = socket_address (sn_sockname env), nc_remote = socket_address (sn_peername env), nc_closed = False\<rparr>"

text \<open>The binding that follows the marker, in as many reads as it takes.\<close>

function read_binding :: "nat \<Rightarrow> byte list list \<Rightarrow> (byte list \<times> byte list list) option" where
  "read_binding need segs =
     (if need = 0 then Some ([], segs)
      else case recv need segs of
             ([], _) \<Rightarrow> None
           | (b # bs, segs') \<Rightarrow> map_option (apfst ((@) (b # bs))) (read_binding (need - length (b # bs)) segs'))"
  by pat_completeness auto
termination
  by (relation "measure fst") auto

function session_loop ::
  "'s session_env \<Rightarrow> int \<Rightarrow> nat option \<Rightarrow> bool \<Rightarrow> byte list list \<Rightarrow> portillia_stream_client \<Rightarrow> portillia_stream_client \<times> session_end" where
  "session_loop env conn_fd outer has_ctx segs s =
     (case recv 1 segs of
        ([], _) \<Rightarrow> abandon conn_fd outer EPIPE s
      | (marker # _, segs') \<Rightarrow>
          if marker = PORTILLIA_MARKER_KEEPALIVE then session_loop env conn_fd outer has_ctx segs' s
          else if marker = PORTILLIA_MARKER_TLS_START then
            (case read_binding 16 segs' of
               None \<Rightarrow> abandon conn_fd outer EPIPE s
             | Some (binding, rest) \<Rightarrow> start_tls env conn_fd outer has_ctx rest s)
          else if marker = PORTILLIA_MARKER_RAW_START then hand_over (raw_conn env conn_fd outer) s
          else abandon conn_fd outer EPROTO s)"
  by pat_completeness auto
termination
  by (relation "measure (\<lambda>(_, _, _, _, segs, _). length (concat segs))") (auto dest!: sym [THEN recv_concat])

declare read_binding.simps [simp del] session_loop.simps [simp del]

definition portillia_stream_client_run_session ::
  "'s session_env \<Rightarrow> int \<Rightarrow> nat option \<Rightarrow> bool \<Rightarrow> byte list list \<Rightarrow> portillia_stream_client \<Rightarrow> portillia_stream_client \<times> session_end" where
  "portillia_stream_client_run_session env conn_fd outer has_ctx segs s =
     (if conn_fd < 0 then (s, Session_over False EBADF_session) else session_loop env conn_fd outer has_ctx segs s)"

section \<open>The ring is the channel of the exposure\<close>

definition ring :: "portillia_stream_client \<Rightarrow> portillia_net_conn conn_channel" where
  "ring s = \<lparr>ch_items = sc_accepted_conns s, ch_cap = sc_accepted_cap s, ch_count = sc_accepted_count s,
     ch_head = sc_accepted_head s, ch_tail = sc_accepted_tail s, ch_closed = sc_closed s\<rparr>"

definition wf_client :: "portillia_stream_client \<Rightarrow> bool" where
  "wf_client s \<longleftrightarrow> wf_channel (ring s)"

lemma ring_push_channel: "ring_push conn s = (s', ok) \<Longrightarrow> channel_push conn (ring s) = (ring s', ok) \<and> sc_released s' = sc_released s"
  by (auto simp: ring_push_def channel_push_def channel_put_def ring_def split: if_splits)

lemma ring_pop_channel: "ring_pop s = (s', r) \<Longrightarrow> channel_pop (ring s) = (ring s', r) \<and> sc_released s' = sc_released s"
  by (auto simp: ring_pop_def channel_pop_def channel_take_def ring_def split: if_splits option.splits)

lemma ring_release [simp]: "ring (release rs s) = ring s" "sc_released (release rs s) = sc_released s @ rs"
  by (simp_all add: release_def ring_def)

lemma wf_client_new: "wf_client (portillia_stream_client_new n t)" "channel_items (ring (portillia_stream_client_new n t)) = []"
proof -
  have "ring (portillia_stream_client_new n t) = channel_new (if n > 0 then nat (n * 2) else 2)"
    by (simp add: portillia_stream_client_new_def ring_def channel_new_def Let_def)
  then show "wf_client (portillia_stream_client_new n t)" "channel_items (ring (portillia_stream_client_new n t)) = []"
    by (simp_all add: wf_client_def)
qed

section \<open>Nothing leaks\<close>

text \<open>What cleaning up a connection releases, and all that a client still holds or has released.\<close>

definition held_by :: "portillia_net_conn list \<Rightarrow> released list" where
  "held_by conns = concat (map (\<lambda>c. snd (portillia_net_conn_cleanup c)) conns)"

definition resources :: "portillia_stream_client \<Rightarrow> released multiset" where
  "resources s = mset (sc_released s) + mset (held_by (channel_items (ring s)))"

lemma held_by_simps [simp]: "held_by [] = []" "held_by (c # cs) = snd (portillia_net_conn_cleanup c) @ held_by cs"
  "held_by (cs @ ds) = held_by cs @ held_by ds"
  by (simp_all add: held_by_def)

lemma release_resources [simp]: "resources (release rs s) = resources s + mset rs" "wf_client (release rs s) = wf_client s"
  by (simp_all add: resources_def wf_client_def)

lemma push_resources:
  assumes "ring_push conn s = (s', ok)" "wf_client s"
  shows "wf_client s' \<and> resources s' = resources s + (if ok then mset (snd (portillia_net_conn_cleanup conn)) else {#})"
  using ring_push_channel [OF assms(1)] assms(2) wf_put [of "ring s" conn] items_put [of "ring s" conn]
  by (auto simp: channel_push_def channel_room_def wf_client_def resources_def split: if_splits)

lemma hand_over_resources:
  assumes "hand_over conn s = (s', r)" "wf_client s"
  shows "wf_client s' \<and> resources s' = resources s + mset (snd (portillia_net_conn_cleanup conn)) \<and> r = Session_over True No_errno"
proof -
  obtain s1 ok where p: "ring_push conn s = (s1, ok)" by (cases "ring_push conn s")
  with push_resources [OF p assms(2)] assms(1) show ?thesis by (cases ok) (auto simp: hand_over_def)
qed

lemma pop_resources:
  assumes "ring_pop s = (s', r)" "wf_client s"
  shows "wf_client s' \<and>
    resources s = resources s' + (case r of Popped conn \<Rightarrow> mset (snd (portillia_net_conn_cleanup conn)) | _ \<Rightarrow> {#})"
  using ring_pop_channel [OF assms(1)] assms(2) conns.pop_some [of "ring s"]
  by (auto simp: channel_pop_def wf_client_def resources_def split: if_splits option.splits)

lemma drain_resources:
  "wf_client s \<Longrightarrow> wf_client (portillia_stream_client_drain s) \<and> resources (portillia_stream_client_drain s) = resources s \<and>
    channel_items (ring (portillia_stream_client_drain s)) = []"
proof (induction s rule: portillia_stream_client_drain.induct)
  case (1 s)
  show ?case
  proof (cases "sc_accepted_count s = 0")
    case True
    then show ?thesis using 1 by (simp add: portillia_stream_client_drain.simps [of s] channel_items_def ring_def)
  next
    case False
    let ?s = "s\<lparr>sc_accepted_head := (sc_accepted_head s + 1) mod sc_accepted_cap s, sc_accepted_count := sc_accepted_count s - 1\<rparr>"
    have "ch_count (ring s) \<noteq> 0" using False by (simp add: ring_def)
    then obtain conn where conn: "channel_take (ring s) = Some (conn, ring ?s)" "channel_items (ring s) = conn # channel_items (ring ?s)"
      "wf_client ?s"
      by (rule take_cases [OF 1(2) [unfolded wf_client_def]]) (auto simp: ring_def slot_def wf_client_def)
    then have "sc_accepted_conns s ! sc_accepted_head s = Some conn" by (auto simp: channel_take_def ring_def split: if_splits)
    moreover have "resources (release (snd (portillia_net_conn_cleanup conn)) ?s) = resources s"
      using conn(2) by (simp add: resources_def)
    ultimately show ?thesis
      using 1(1) [OF _ refl] False conn(3) by (simp add: portillia_stream_client_drain.simps [of s])
  qed
qed

text \<open>A session that is over has put its descriptor, the outer SSL object and the inner one, if it made one, where they are
  released or handed over.\<close>

definition accounted :: "'s session_env \<Rightarrow> int \<Rightarrow> nat option \<Rightarrow> portillia_stream_client \<Rightarrow> portillia_stream_client \<Rightarrow> bool" where
  "accounted env fd outer s s' \<longleftrightarrow> wf_client s' \<and>
     (\<exists>inner. inner \<subseteq># {#Ssl_freed (sn_ssl_id env)#} \<and>
        resources s' = resources s + mset (ssl_freed outer @ [Fd_closed fd]) + inner)"

lemma accounted_plain:
  "wf_client s' \<Longrightarrow> resources s' = resources s + mset (ssl_freed outer @ [Fd_closed fd]) \<Longrightarrow> accounted env fd outer s s'"
  unfolding accounted_def by (intro conjI exI [of _ "{#}"]) simp_all

lemma accounted_inner:
  "wf_client s' \<Longrightarrow> resources s' = resources s + mset (ssl_freed outer @ [Fd_closed fd]) + {#Ssl_freed (sn_ssl_id env)#} \<Longrightarrow>
    accounted env fd outer s s'"
  unfolding accounted_def by (intro conjI exI [of _ "{#Ssl_freed (sn_ssl_id env)#}"]) simp_all

lemma abandon_accounted: "wf_client s \<Longrightarrow> abandon fd outer e s = (s', r) \<Longrightarrow> accounted env fd outer s s'"
  by (rule accounted_plain) (auto simp: abandon_def)

lemma handshake_ok:
  assumes "perform_tls_handshake env s fd outer has_ctx segs = ((Hs_ok, conn), sent)"
  obtains c where "conn = Some c" "nc_fd c = fd" "nc_ssl c = Some (sn_ssl_id env)" "nc_outer_ssl c = outer" "nc_owns_ssl c"
proof -
  obtain st where st: "has_ctx" "sn_ssl_new env = Some st"
    using assms by (cases has_ctx; cases "sn_ssl_new env") (simp_all add: perform_tls_handshake_def)
  define deadline where "deadline = sn_now env + (if sc_handshake_timeout_sec s > 0 then sc_handshake_timeout_sec s else 15)"
  obtain e sent' where "handshake_loop (sn_engine env) outer deadline (sn_turns env) st segs = (e, sent')"
    by (cases "handshake_loop (sn_engine env) outer deadline (sn_turns env) st segs")
  then have "conn = Some \<lparr>nc_fd = fd, nc_ssl = Some (sn_ssl_id env), nc_outer_ssl = outer, nc_owns_ssl = True,
      nc_local = socket_address (sn_sockname env), nc_remote = socket_address (sn_peername env), nc_closed = False\<rparr>"
    using assms st unfolding perform_tls_handshake_def Let_def deadline_def [symmetric] by (cases e) simp_all
  then show thesis by (rule that) simp_all
qed

lemma start_tls_resources:
  assumes run: "start_tls env fd outer has_ctx segs s = (s', Session_over claimed err)" and wf: "wf_client s" and fd: "0 \<le> fd"
  shows "accounted env fd outer s s'"
proof -
  obtain r conn sent where h: "perform_tls_handshake env s fd outer has_ctx segs = ((r, conn), sent)" by (metis prod.exhaust)
  show ?thesis
  proof (cases r)
    case Hs_ok
    then obtain c where c: "conn = Some c" "nc_fd c = fd" "nc_ssl c = Some (sn_ssl_id env)" "nc_outer_ssl c = outer" "nc_owns_ssl c"
      using handshake_ok h by blast
    then have "hand_over c s = (s', Session_over claimed err)" using run h Hs_ok by (simp add: start_tls_def)
    from hand_over_resources [OF this wf] show ?thesis
      using c fd by (intro accounted_inner) (simp_all add: portillia_net_conn_cleanup_def ssl_freed_def)
  next
    case Hs_failed
    let ?s = "if has_ctx \<and> sn_ssl_new env \<noteq> None then release [Ssl_freed (sn_ssl_id env)] s else s"
    have "s' = release (ssl_freed outer @ [Fd_closed fd]) ?s"
      using run h Hs_failed by (simp add: start_tls_def abandon_def)
    then show ?thesis using wf by (cases "has_ctx \<and> sn_ssl_new env \<noteq> None") (auto intro: accounted_inner accounted_plain)
  qed (use run h in \<open>simp_all add: start_tls_def\<close>)
qed

lemma session_loop_resources:
  assumes "session_loop env fd outer has_ctx segs s = (s', Session_over claimed err)" "wf_client s" "0 \<le> fd"
  shows "accounted env fd outer s s'"
  using assms
proof (induction env fd outer has_ctx segs s rule: session_loop.induct)
  case (1 env fd outer has_ctx segs s)
  have raw: "snd (portillia_net_conn_cleanup (raw_conn env fd outer)) = ssl_freed outer @ [Fd_closed fd]"
    using 1(4) by (cases outer) (simp_all add: portillia_net_conn_cleanup_def raw_conn_def ssl_freed_def)
  obtain chunk segs' where r: "recv 1 segs = (chunk, segs')" by (cases "recv 1 segs")
  show ?case
  proof (cases chunk)
    case Nil
    then show ?thesis using 1(2) r abandon_accounted [OF 1(3)] by (simp add: session_loop.simps [of env fd])
  next
    case (Cons m ms)
    note run = 1(2) [unfolded session_loop.simps [of env fd outer has_ctx segs], unfolded r Cons, simplified]
    consider "m = PORTILLIA_MARKER_KEEPALIVE" | "m = PORTILLIA_MARKER_TLS_START" | "m = PORTILLIA_MARKER_RAW_START"
      | "m \<notin> {PORTILLIA_MARKER_KEEPALIVE, PORTILLIA_MARKER_TLS_START, PORTILLIA_MARKER_RAW_START}" by blast
    then show ?thesis
    proof cases
      case 1
      then show ?thesis using "1.IH" [OF r [symmetric] Cons] run "1.prems" by simp
    next
      case 2
      then have run2: "(case read_binding 16 segs' of None \<Rightarrow> abandon fd outer EPIPE s
          | Some (binding, rest) \<Rightarrow> start_tls env fd outer has_ctx rest s) = (s', Session_over claimed err)"
        using run by (simp add: marker_defs)
      show ?thesis
      proof (cases "read_binding 16 segs'")
        case None
        then show ?thesis using run2 abandon_accounted [OF "1.prems"(2)] by simp
      next
        case (Some br)
        then show ?thesis using run2 start_tls_resources [OF _ "1.prems"(2,3)] by (cases br) simp
      qed
    next
      case 3
      then have "hand_over (raw_conn env fd outer) s = (s', Session_over claimed err)" using run by (simp add: marker_defs)
      from hand_over_resources [OF this "1.prems"(2)] raw show ?thesis by (auto intro: accounted_plain)
    next
      case 4
      then show ?thesis using run abandon_accounted [OF "1.prems"(2)] by auto
    qed
  qed
qed

datatype 's stream_op =
    Session "'s session_env" int "nat option" bool "byte list list"
  | Accept
  | Drain

text \<open>A run of sessions that come to an end, accepts and drains: the client and the connections handed out.\<close>

fun stream_exec ::
  "'s stream_op \<Rightarrow> portillia_stream_client \<times> portillia_net_conn list \<Rightarrow> (portillia_stream_client \<times> portillia_net_conn list) option" where
  "stream_exec (Session env fd outer has_ctx segs) (s, given) =
     (case portillia_stream_client_run_session env fd outer has_ctx segs s of
        (s', Session_over _ _) \<Rightarrow> Some (s', given) | _ \<Rightarrow> None)"
| "stream_exec Accept (s, given) =
     (case portillia_stream_client_accept s of (s', Popped conn) \<Rightarrow> Some (s', given @ [conn]) | (s', _) \<Rightarrow> Some (s', given))"
| "stream_exec Drain (s, given) = Some (portillia_stream_client_drain s, given)"

fun stream_run ::
  "'s stream_op list \<Rightarrow> portillia_stream_client \<times> portillia_net_conn list \<Rightarrow> (portillia_stream_client \<times> portillia_net_conn list) option" where
  "stream_run [] st = Some st"
| "stream_run (op # ops) st = stream_exec op st \<bind> stream_run ops"

fun brought :: "'s stream_op \<Rightarrow> released list" where
  "brought (Session env fd outer has_ctx segs) = (if 0 \<le> fd then ssl_freed outer @ [Fd_closed fd] else [])"
| "brought _ = []"

fun made :: "'s stream_op \<Rightarrow> released list" where
  "made (Session env fd outer has_ctx segs) = [Ssl_freed (sn_ssl_id env)]"
| "made _ = []"

lemma stream_exec_resources:
  assumes "stream_exec op (s, given) = Some (s', given')" "wf_client s"
  shows "wf_client s' \<and> (\<exists>inner. inner \<subseteq># mset (made op) \<and>
    resources s' + mset (held_by given') = resources s + mset (held_by given) + mset (brought op) + inner)"
proof (cases op)
  case (Session env fd outer has_ctx segs)
  obtain r where r: "portillia_stream_client_run_session env fd outer has_ctx segs s = (s', r)" "given' = given"
    "\<exists>claimed err. r = Session_over claimed err"
    using assms(1) Session by (auto split: prod.splits session_end.splits)
  show ?thesis
  proof (cases "0 \<le> fd")
    case True
    then have "accounted env fd outer s s'"
      using r session_loop_resources [OF _ assms(2)] by (auto simp: portillia_stream_client_run_session_def)
    then show ?thesis using True Session r(2) by (auto simp: accounted_def ac_simps)
  next
    case False
    then show ?thesis using r Session assms(2) by (auto simp: portillia_stream_client_run_session_def)
  qed
next
  case Accept
  obtain s1 r where "ring_pop s = (s1, r)" by (cases "ring_pop s")
  with pop_resources [OF this assms(2)] show ?thesis
    using assms(1) Accept by (cases r) (auto simp: portillia_stream_client_accept_def)
next
  case Drain
  then show ?thesis using assms drain_resources by auto
qed

lemma stream_run_resources:
  assumes "stream_run ops (s, given) = Some (s', given')" "wf_client s"
  shows "wf_client s' \<and> (\<exists>inner. inner \<subseteq># mset (concat (map made ops)) \<and>
    resources s' + mset (held_by given') = resources s + mset (held_by given) + mset (concat (map brought ops)) + inner)"
  using assms
proof (induction ops arbitrary: s given)
  case (Cons op ops)
  obtain s1 given1 where step: "stream_exec op (s, given) = Some (s1, given1)" "stream_run ops (s1, given1) = Some (s', given')"
    using Cons.prems(1) by (auto simp: bind_eq_Some_conv)
  from stream_exec_resources [OF step(1) Cons.prems(2)] obtain i1 where i1: "wf_client s1" "i1 \<subseteq># mset (made op)"
    "resources s1 + mset (held_by given1) = resources s + mset (held_by given) + mset (brought op) + i1" by blast
  from Cons.IH [OF step(2) i1(1)] obtain i2 where i2: "wf_client s'" "i2 \<subseteq># mset (concat (map made ops))"
    "resources s' + mset (held_by given') = resources s1 + mset (held_by given1) + mset (concat (map brought ops)) + i2" by blast
  have "i1 + i2 \<subseteq># mset (concat (map made (op # ops)))" using i1(2) i2(2) by (simp add: subset_mset.add_mono)
  then show ?case using i1(3) i2(1,3) by (intro conjI exI [of _ "i1 + i2"]) (simp_all add: ac_simps)
qed simp


section \<open>The activation frame\<close>

lemma read_binding_exact:
  assumes "concat segs = b @ rest" "length b = n"
  shows "\<exists>segs'. read_binding n segs = Some (b, segs') \<and> concat segs' = rest"
  using assms
proof (induction n segs arbitrary: b rule: read_binding.induct)
  case (1 n segs)
  show ?case
  proof (cases "n = 0")
    case True
    then show ?thesis using 1 by (simp add: read_binding.simps [of 0])
  next
    case False
    obtain chunk segs' where r: "recv n segs = (chunk, segs')" by (cases "recv n segs")
    have ne: "chunk \<noteq> []" using recv_empty [of n segs segs'] r False 1(2,3) by auto
    then obtain c cs where c: "chunk = c # cs" by (cases chunk) auto
    have len: "length chunk \<le> n" by (rule recv_length [OF r])
    have split: "b = chunk @ drop (length chunk) b" "concat segs' = drop (length chunk) b @ rest"
      using recv_concat [OF r] 1(2,3) len by (metis append_eq_append_conv_if append_take_drop_id)+
    have "\<exists>segs''. read_binding (n - length (c # cs)) segs' = Some (drop (length chunk) b, segs'') \<and> concat segs'' = rest"
      by (rule "1.IH" [OF False r [symmetric] c split(2)]) (use 1(3) c in simp)
    then show ?thesis using False r c split(1) by (auto simp: read_binding.simps [of n])
  qed
qed

lemma session_keepalives:
  assumes "concat segs = replicate k PORTILLIA_MARKER_KEEPALIVE @ s"
  shows "\<exists>segs'. concat segs' = s \<and> session_loop env fd outer has_ctx segs cl = session_loop env fd outer has_ctx segs' cl"
  using assms
proof (induction k arbitrary: segs)
  case (Suc k)
  then obtain segs' where r: "recv 1 segs = ([PORTILLIA_MARKER_KEEPALIVE], segs')"
    "concat segs' = replicate k PORTILLIA_MARKER_KEEPALIVE @ s"
    using recv_1_Cons [of segs PORTILLIA_MARKER_KEEPALIVE "replicate k PORTILLIA_MARKER_KEEPALIVE @ s"] by auto
  then have "session_loop env fd outer has_ctx segs cl = session_loop env fd outer has_ctx segs' cl"
    by (simp add: session_loop.simps [of env fd outer has_ctx segs])
  then show ?case using Suc.IH [OF r(2)] by simp
qed auto

text \<open>C11. Relay and client agree on the activation of a reverse connection. When the relay claims a session, the frame it writes, behind any
  number of keepalives and however the bytes arrive in pieces, is consumed by the session of the client to the last
  byte: the inner TLS handshake begins with exactly the bytes that follow the frame.\<close>

theorem activation_frame_aligned:
  assumes relay: "relay_stream_claim sha256 rs lease rand now sent bindings = (rs', bindings', Claimed sess binding)"
      "\<forall>f. sent f \<longrightarrow> f = frame" "length rand = 16"
    and wire: "concat segs = replicate k PORTILLIA_MARKER_KEEPALIVE @ frame @ rest"
    and fd: "0 \<le> fd"
  shows "\<exists>segs'. concat segs' = rest \<and>
    portillia_stream_client_run_session env fd outer has_ctx segs cl = start_tls env fd outer has_ctx segs' cl"
proof -
  have frame: "frame = PORTILLIA_MARKER_TLS_START # rand"
    using relay by (auto simp: relay_stream_claim_def portillia_bindings_issue_def marker_defs Let_def
        split: option.splits prod.splits if_splits)
  obtain segs1 where s1: "concat segs1 = frame @ rest" "session_loop env fd outer has_ctx segs cl = session_loop env fd outer has_ctx segs1 cl"
    using session_keepalives [OF wire] by blast
  obtain segs2 where s2: "recv 1 segs1 = ([PORTILLIA_MARKER_TLS_START], segs2)" "concat segs2 = rand @ rest"
    using recv_1_Cons [of segs1 PORTILLIA_MARKER_TLS_START "rand @ rest"] s1(1) frame by auto
  obtain segs3 where s3: "read_binding 16 segs2 = Some (rand, segs3)" "concat segs3 = rest"
    using read_binding_exact [OF s2(2) relay(3)] by blast
  have "session_loop env fd outer has_ctx segs1 cl = start_tls env fd outer has_ctx segs3 cl"
    using s2(1) s3(1) by (simp add: session_loop.simps [of env fd outer has_ctx segs1] marker_defs)
  then show ?thesis using s1(2) s3(2) fd by (auto simp: portillia_stream_client_run_session_def)
qed

section \<open>The handshake that cannot be answered\<close>

lemma handshake_silent:
  assumes "\<And>st. fst (te_accept eng st) \<noteq> Want_write"
  shows "snd (handshake_loop eng outer deadline turns st segs) = []"
proof (induction turns arbitrary: st segs)
  case (Cons turn turns)
  show ?case using assms [of st] Cons.IH by (auto split: prod.splits ssl_status.splits list.splits)
qed simp

text \<open>The inner TLS handshake sends nothing. The engine writes into a memory BIO, which takes everything, so \<open>SSL_accept\<close> never reports
  that it wants to write; that report is the only occasion on which the loop passes the output of the engine on to
  the reverse connection. So no byte of the server's answer leaves, whatever arrives and however long the loop runs, and a
  browser that waits for the ServerHello never gets it.\<close>

theorem inner_handshake_never_answers:
  assumes "\<And>st. fst (te_accept (sn_engine env) st) \<noteq> Want_write"
  shows "snd (perform_tls_handshake env s fd outer has_ctx segs) = []"
proof -
  have "snd (handshake_loop (sn_engine env) outer deadline turns st segs) = []" for deadline turns st
    by (rule handshake_silent [OF assms])
  then show ?thesis by (auto simp: perform_tls_handshake_def Let_def split: option.splits prod.splits handshake_end.splits) (metis snd_conv)+
qed

text \<open>On a relay reached without TLS the outer SSL object is null, and the first read of the handshake uses it.\<close>

lemma plain_relay_undefined:
  assumes "has_ctx" "sn_ssl_new env = Some st" "fst (te_accept (sn_engine env) st) = Want_read" "sn_turns env \<noteq> []"
  shows "snd (start_tls env fd None has_ctx segs s) = Session_undefined"
proof -
  obtain turn turns where "sn_turns env = turn # turns" using assms(4) by (cases "sn_turns env") auto
  then show ?thesis
    using assms by (cases "te_accept (sn_engine env) st") (simp add: start_tls_def perform_tls_handshake_def Let_def)
qed

section \<open>Samples\<close>

text \<open>An engine that waits for three bytes from the client, answers with two and is done after two more.\<close>

definition sample_engine :: "(nat \<times> byte list) tls_engine" where
  "sample_engine = \<lparr>te_accept = (\<lambda>(n, out). (if n < 5 then Want_read else Ssl_done, (n, if n = 3 then [22, 3] else out))),
     te_feed = (\<lambda>bs (n, out). (n + length bs, out)), te_output = (\<lambda>k (n, out). (take k out, (n, drop k out)))\<rparr>"

definition sample_session :: "(nat \<times> byte list) session_env" where
  "sample_session = \<lparr>sn_engine = sample_engine, sn_ssl_new = Some (0, []), sn_ssl_id = 9, sn_sockname = None, sn_peername = Some ''10.0.0.1'',
     sn_turns = replicate 3 \<lparr>ht_again = False, ht_writes = [Wrote 2], ht_time = 1\<rparr>, sn_now = 0\<rparr>"

lemma sample_hands_over:
  "stream_run [Session sample_session 7 (Some 8) True [[0, 2], replicate 16 1, [1, 2, 3], [4, 5]], Accept, Session sample_session 5 None False [[1]]]
     (portillia_stream_client_new 1 30, []) =
   Some (\<lparr>sc_accepted_conns = [Some \<lparr>nc_fd = 7, nc_ssl = Some 9, nc_outer_ssl = Some 8, nc_owns_ssl = True, nc_local = ([], []),
                                nc_remote = (''tcp'', ''10.0.0.1''), nc_closed = False\<rparr>,
                              Some (raw_conn sample_session 5 None)],
          sc_accepted_count = 1, sc_accepted_cap = 2, sc_accepted_head = 1, sc_accepted_tail = 0, sc_handshake_timeout_sec = 30,
          sc_closed = False, sc_released = []\<rparr>,
         [\<lparr>nc_fd = 7, nc_ssl = Some 9, nc_outer_ssl = Some 8, nc_owns_ssl = True, nc_local = ([], []),
           nc_remote = (''tcp'', ''10.0.0.1''), nc_closed = False\<rparr>])"
  by code_simp


theorem activation_frame_aligned_witness:
  "\<exists>segs'. concat segs' = [1, 2, 3] \<and>
     portillia_stream_client_run_session sample_session 7 (Some 8) True [[0, 2, 5], replicate 15 5 @ [1], [2, 3]] (portillia_stream_client_new 1 30) =
     start_tls sample_session 7 (Some 8) True segs' (portillia_stream_client_new 1 30)"
proof -
  let ?rs = "\<lparr>rs_ready = [\<lparr>ss_fd = 4, ss_ssl = None, ss_created_at = 0\<rparr>], rs_count = 1, rs_stop = False\<rparr>"
  fix bindings :: portillia_binding_registry
  obtain bindings' where issue:
    "portillia_bindings_issue (\<lambda>b. b) bindings (Some ''lease'') [] (Some (replicate 16 5)) (0, 0) = Some (bindings', replicate 16 5)"
    by (simp add: portillia_bindings_issue_def Let_def)
  then have "\<exists>rs'. relay_stream_claim (\<lambda>b. b) ?rs ''lease'' (replicate 16 5) (0, 0) (\<lambda>f. f = 2 # replicate 16 5) bindings =
      (rs', bindings', Claimed \<lparr>ss_fd = 4, ss_ssl = None, ss_created_at = 0\<rparr> (replicate 16 5))"
    by (simp add: relay_stream_claim_def stream_pop_def)
  then obtain rs' where "relay_stream_claim (\<lambda>b. b) ?rs ''lease'' (replicate 16 5) (0, 0) (\<lambda>f. f = 2 # replicate 16 5) bindings =
      (rs', bindings', Claimed \<lparr>ss_fd = 4, ss_ssl = None, ss_created_at = 0\<rparr> (replicate 16 5))" by blast
  then show ?thesis
    by (rule activation_frame_aligned [where frame = "2 # replicate 16 5" and k = 1]) (simp_all add: marker_defs eval_nat_numeral)
qed

theorem inner_handshake_never_answers_witness:
  "perform_tls_handshake sample_session (portillia_stream_client_new 1 30) 7 (Some 8) True [[1, 2, 3], [4]] = ((Hs_failed, None), [])"
proof -
  have "fst (te_accept (sn_engine sample_session) st) \<noteq> Want_write" for st by (auto simp: sample_session_def sample_engine_def split: prod.splits)
  from inner_handshake_never_answers [OF this]
  have "snd (perform_tls_handshake sample_session (portillia_stream_client_new 1 30) 7 (Some 8) True [[1, 2, 3], [4]]) = []" by blast
  moreover have "fst (perform_tls_handshake sample_session (portillia_stream_client_new 1 30) 7 (Some 8) True [[1, 2, 3], [4]]) = (Hs_failed, None)"
    by code_simp
  ultimately show ?thesis by (simp add: prod_eq_iff)
qed

end
