(* ===== verification/Datagram.thy ===== *)
theory Datagram
  imports Portal_Types Conn_Channel "HOL-Library.Monad_Syntax"
begin

text \<open>
  The datagram transport of the SDK, \<^verbatim>\<open>src/transport/datagram_client.c\<close> and the queueing of \<^verbatim>\<open>src/transport/quic_conn.c\<close>: frames with a
  variable-length flow number, the bounded queue of received frames that drops the oldest, the client, and the single slot in which a
  QUIC connection keeps the datagram to send.

  Memory that was allocated and not written is \<open>None\<close>; the code frees pointers it finds there, which is undefined and makes the
  operation \<open>None\<close>. What the allocator returns is an argument of the constructor. ngtcp2, OpenSSL and the socket are not modelled.
\<close>

unbundle bit_operations_syntax

section \<open>Frames\<close>

function encode_uvarint :: "32 word \<Rightarrow> byte list" where
  "encode_uvarint v = (if 0x80 \<le> v then ucast (v OR 0x80) # encode_uvarint (drop_bit 7 v) else [ucast v])"
  by pat_completeness auto
termination
proof (relation "measure unat")
  fix v :: "32 word"
  assume "0x80 \<le> v"
  then have "0 < unat v" by (simp add: word_le_nat_alt)
  then show "(drop_bit 7 v, v) \<in> measure unat" by (simp add: drop_bit_eq_div unat_div)
qed simp

declare encode_uvarint.simps [simp del]

fun decode_loop :: "byte list \<Rightarrow> nat \<Rightarrow> 32 word \<Rightarrow> nat \<Rightarrow> (32 word \<times> nat) option" where
  "decode_loop [] shift v i = None"
| "decode_loop (b # bs) shift v i =
     (let v' = v OR push_bit shift (ucast (b AND 0x7F))
      in if b AND 0x80 = 0 then Some (v', i + 1)
         else if shift + 7 > 28 then None
         else decode_loop bs (shift + 7) v' (i + 1))"

definition decode_uvarint :: "byte list \<Rightarrow> (32 word \<times> nat) option" where
  "decode_uvarint buf = decode_loop buf 0 0 0"

text \<open>Nothing is returned when bytes that were never written would be sent.\<close>

definition encode_datagram_frame :: "portillia_datagram_frame \<Rightarrow> byte list option" where
  "encode_datagram_frame frame =
     (case f_payload frame of
        None \<Rightarrow> if f_payload_len frame > 0 then None else Some (encode_uvarint (f_flow_id frame))
      | Some payload \<Rightarrow> Some (encode_uvarint (f_flow_id frame) @ take (f_payload_len frame) payload))"

definition decode_datagram :: "byte list \<Rightarrow> portillia_datagram_frame \<Rightarrow> portillia_datagram_frame option" where
  "decode_datagram data out_frame =
     (case decode_uvarint data of
        None \<Rightarrow> None
      | Some (flow_id, n) \<Rightarrow>
          let payload_len = length data - n
          in Some (out_frame\<lparr>f_flow_id := flow_id, f_payload_len := payload_len,
               f_payload := (if payload_len > 0 then Some (drop n data) else None)\<rparr>))"

section \<open>The queue of received frames\<close>

definition DATAGRAM_QUEUE_CAP :: nat where "DATAGRAM_QUEUE_CAP = 256"

record portillia_datagram_frame_queue =
  fq_items :: "portillia_datagram_frame option list"
  fq_cap :: nat
  fq_count :: nat
  fq_head :: nat

definition frame_queue_init :: "portillia_datagram_frame option \<Rightarrow> portillia_datagram_frame_queue" where
  "frame_queue_init fresh =
     \<lparr>fq_items = replicate DATAGRAM_QUEUE_CAP fresh, fq_cap = DATAGRAM_QUEUE_CAP, fq_count = 0, fq_head = 0\<rparr>"

definition frame_queue_close :: "portillia_datagram_frame_queue \<Rightarrow> portillia_datagram_frame_queue" where
  "frame_queue_close q = q\<lparr>fq_count := 0\<rparr>"

text \<open>Taking the oldest frame out without looking at it.\<close>

definition drop_oldest :: "portillia_datagram_frame_queue \<Rightarrow> portillia_datagram_frame_queue option" where
  "drop_oldest q =
     map_option (\<lambda>frame. q\<lparr>fq_items := (fq_items q)[fq_head q := Some (portillia_datagram_frame_cleanup frame)],
                             fq_head := (fq_head q + 1) mod fq_cap q, fq_count := fq_count q - 1\<rparr>) (fq_items q ! fq_head q)"

definition append_frame ::
  "portillia_datagram_frame \<Rightarrow> portillia_datagram_frame_queue \<Rightarrow> portillia_datagram_frame_queue option" where
  "append_frame frame q =
     (let idx = (fq_head q + fq_count q) mod fq_cap q
      in map_option (\<lambda>dst. q\<lparr>fq_items := (fq_items q)[idx := Some (portillia_datagram_frame_copy dst frame)],
                               fq_count := fq_count q + 1\<rparr>) (fq_items q ! idx))"

definition frame_queue_push ::
  "bool \<Rightarrow> portillia_datagram_frame \<Rightarrow> portillia_datagram_frame_queue \<Rightarrow> (portillia_datagram_frame_queue \<times> bool) option" where
  "frame_queue_push drop_if_full frame q =
     (if fq_count q \<ge> fq_cap q then
        if drop_if_full then map_option (\<lambda>q'. (q', True)) (drop_oldest q \<bind> append_frame frame)
        else Some (q, False)
      else map_option (\<lambda>q'. (q', True)) (append_frame frame q))"

definition frame_queue_pop ::
  "bool \<Rightarrow> portillia_datagram_frame \<Rightarrow> portillia_datagram_frame_queue \<Rightarrow>
   (portillia_datagram_frame_queue \<times> portillia_datagram_frame pop_result) option" where
  "frame_queue_pop cancelled out q =
     (if fq_count q = 0 then Some (q, if cancelled then Turned_away else Waits)
      else case fq_items q ! fq_head q of
             None \<Rightarrow> None
           | Some frame \<Rightarrow> map_option (\<lambda>q'. (q', Popped (portillia_datagram_frame_copy out frame))) (drop_oldest q))"

fun free_frames :: "nat \<Rightarrow> portillia_datagram_frame_queue \<Rightarrow> portillia_datagram_frame list" where
  "free_frames 0 q = []"
| "free_frames (Suc n) q = free_frames n q @ (case fq_items q ! ((fq_head q + n) mod fq_cap q) of None \<Rightarrow> [] | Some f \<Rightarrow> [f])"

definition frame_queue_free :: "portillia_datagram_frame_queue \<Rightarrow> portillia_datagram_frame list" where
  "frame_queue_free q = free_frames (fq_count q) q"

section \<open>A QUIC connection\<close>

text \<open>The part of \<open>quic_conn_internal_t\<close> the datagrams pass through. The buffer to send is null or allocated.\<close>

record quic_conn =
  qc_closed :: bool
  qc_handshake_done :: bool
  qc_send_buf :: "byte list option"
  qc_recv_cb :: bool

definition portillia_quic_conn_send_datagram :: "byte list option \<Rightarrow> quic_conn \<Rightarrow> quic_conn \<times> int" where
  "portillia_quic_conn_send_datagram data qc =
     (if qc_closed qc then (qc, -1)
      else case data of None \<Rightarrow> (qc, -1) | Some bytes \<Rightarrow> (qc\<lparr>qc_send_buf := Some bytes\<rparr>, 0))"

text \<open>One turn of the I/O thread: what is handed to ngtcp2 as a datagram.\<close>

definition quic_send_queued :: "quic_conn \<Rightarrow> quic_conn \<times> byte list option" where
  "quic_send_queued qc =
     (qc\<lparr>qc_send_buf := None\<rparr>, case qc_send_buf qc of None \<Rightarrow> None | Some d \<Rightarrow> if length d > 0 then Some d else None)"

definition callback_handshake_completed :: "quic_conn \<Rightarrow> quic_conn" where
  "callback_handshake_completed qc = qc\<lparr>qc_handshake_done := True\<rparr>"

definition portillia_quic_conn_handshake_done :: "quic_conn \<Rightarrow> bool" where
  "portillia_quic_conn_handshake_done qc = qc_handshake_done qc"

definition portillia_quic_conn_set_recv_handler :: "quic_conn \<Rightarrow> quic_conn" where
  "portillia_quic_conn_set_recv_handler qc = qc\<lparr>qc_recv_cb := True\<rparr>"

section \<open>The client\<close>

record portillia_datagram_session =
  ds_conn :: "quic_conn option"
  ds_closed :: bool

record portillia_datagram_client =
  dc_session :: "portillia_datagram_session option"
  dc_incoming :: portillia_datagram_frame_queue
  dc_closed :: bool

datatype datagram_errno = EBADF_datagram | EINVAL_datagram | ECANCELED | EIO

definition portillia_datagram_client_new :: "portillia_datagram_frame option \<Rightarrow> portillia_datagram_client" where
  "portillia_datagram_client_new fresh = \<lparr>dc_session = None, dc_incoming = frame_queue_init fresh, dc_closed = False\<rparr>"

definition quic_recv_handler :: "byte list \<Rightarrow> portillia_datagram_client \<Rightarrow> portillia_datagram_client option" where
  "quic_recv_handler data d =
     (if dc_closed d then Some d
      else case decode_datagram data portillia_datagram_frame_init of
             None \<Rightarrow> Some d
           | Some frame \<Rightarrow> map_option (\<lambda>(q, _). d\<lparr>dc_incoming := q\<rparr>) (frame_queue_push True frame (dc_incoming d)))"

text \<open>Binding a connection locks a mutex of the session: undefined without a session.\<close>

definition portillia_datagram_client_bind :: "quic_conn option \<Rightarrow> portillia_datagram_client \<Rightarrow> portillia_datagram_client option" where
  "portillia_datagram_client_bind conn d =
     map_option (\<lambda>s. d\<lparr>dc_session := Some (s\<lparr>ds_conn := map_option portillia_quic_conn_set_recv_handler conn\<rparr>)\<rparr>) (dc_session d)"

definition portillia_datagram_client_accept ::
  "bool \<Rightarrow> portillia_datagram_frame \<Rightarrow> portillia_datagram_client \<Rightarrow>
   (portillia_datagram_client \<times> (datagram_errno + portillia_datagram_frame) option) option" where
  "portillia_datagram_client_accept cancelled out d =
     (if dc_closed d then Some (d, Some (Inl EBADF_datagram))
      else map_option (\<lambda>(q, r). (d\<lparr>dc_incoming := q\<rparr>,
             case r of Popped frame \<Rightarrow> Some (Inr frame) | Turned_away \<Rightarrow> Some (Inl ECANCELED) | Waits \<Rightarrow> None))
           (frame_queue_pop cancelled out (dc_incoming d)))"

definition portillia_datagram_client_send ::
  "32 word \<Rightarrow> byte list option \<Rightarrow> nat \<Rightarrow> portillia_datagram_client \<Rightarrow> (portillia_datagram_client \<times> datagram_errno option) option" where
  "portillia_datagram_client_send flow_id payload payload_len d =
     (if dc_closed d then Some (d, Some EBADF_datagram)
      else if payload = None \<and> payload_len > 0 then Some (d, Some EINVAL_datagram)
      else case dc_session d of
             None \<Rightarrow> Some (d, None)
           | Some s \<Rightarrow>
               (case ds_conn s of
                  None \<Rightarrow> Some (d, None)
                | Some qc \<Rightarrow>
                    (case encode_datagram_frame (portillia_datagram_frame_init
                            \<lparr>f_flow_id := flow_id, f_payload := payload, f_payload_len := payload_len\<rparr>) of
                       None \<Rightarrow> None
                     | Some encoded \<Rightarrow>
                         (case portillia_quic_conn_send_datagram (Some encoded) qc of
                            (qc', rv) \<Rightarrow> Some (d\<lparr>dc_session := Some (s\<lparr>ds_conn := Some qc'\<rparr>)\<rparr>,
                                               if rv \<noteq> 0 then Some EIO else None)))))"

definition portillia_datagram_client_connected :: "portillia_datagram_client \<Rightarrow> bool" where
  "portillia_datagram_client_connected d =
     (\<not> dc_closed d \<and> (case dc_session d of None \<Rightarrow> False | Some s \<Rightarrow> ds_conn s \<noteq> None))"

definition portillia_datagram_client_clear :: "portillia_datagram_client \<Rightarrow> portillia_datagram_client" where
  "portillia_datagram_client_clear d =
     d\<lparr>dc_session := map_option (\<lambda>s. s\<lparr>ds_conn := None\<rparr>) (dc_session d), dc_incoming := frame_queue_close (dc_incoming d)\<rparr>"

definition portillia_datagram_client_close :: "portillia_datagram_client \<Rightarrow> portillia_datagram_client" where
  "portillia_datagram_client_close d =
     d\<lparr>dc_closed := True, dc_incoming := frame_queue_close (dc_incoming d),
       dc_session := map_option (\<lambda>s. s\<lparr>ds_closed := True\<rparr>) (dc_session d)\<rparr>"

definition portillia_datagram_client_destroy :: "portillia_datagram_client \<Rightarrow> portillia_datagram_frame list" where
  "portillia_datagram_client_destroy d = frame_queue_free (dc_incoming (portillia_datagram_client_close d))"

section \<open>Frames survive the wire\<close>

lemma varint_masks: "(0x7F :: byte) = mask 7"
  by (simp add: mask_eq_exp_minus_1)

lemma bit_128:
  "bit (128 :: byte) n \<longleftrightarrow> n = 7" "bit (128 :: 32 word) n \<longleftrightarrow> n = 7" "bit (128 :: int) n \<longleftrightarrow> n = 7"
  using bit_exp_iff [of 7 n, where 'a = byte] bit_exp_iff [of 7 n, where 'a = "32 word"] bit_exp_iff [of 7 n, where 'a = int]
  by (auto simp: possible_bit_def)

lemma take_7_small: "v < 0x80 \<Longrightarrow> take_bit 7 v = v" for v :: "32 word"
  by (simp add: word_unat_eq_iff unsigned_take_bit_eq take_bit_nat_eq_self_iff word_less_nat_alt)

lemma varint_byte:
  fixes v :: "32 word"
  shows "(ucast (v OR 0x80) :: byte) AND 0x80 \<noteq> 0"
    and "ucast ((ucast (v OR 0x80) :: byte) AND 0x7F) = take_bit 7 v"
    and "ucast ((ucast v :: byte) AND 0x7F) = take_bit 7 v"
    and "v < 0x80 \<Longrightarrow> (ucast v :: byte) AND 0x80 = 0"
proof -
  have "bit ((ucast (v OR 0x80) :: byte) AND 0x80) 7" by (simp add: bit_simps bit_128)
  then show "(ucast (v OR 0x80) :: byte) AND 0x80 \<noteq> 0" by (metis bit_0_eq bot_apply bot_bool_def)
  show "ucast ((ucast (v OR 0x80) :: byte) AND 0x7F) = take_bit 7 v"
    unfolding varint_masks by (rule bit_word_eqI) (auto simp: bit_simps bit_128)
  show "ucast ((ucast v :: byte) AND 0x7F) = take_bit 7 v"
    unfolding varint_masks by (rule bit_word_eqI) (auto simp: bit_simps bit_128)
  assume "v < 0x80"
  then have "take_bit 7 v = v" by (simp add: take_7_small)
  then have "\<not> bit v 7" by (metis bit_take_bit_iff less_irrefl)
  then show "(ucast v :: byte) AND 0x80 = 0" by (intro bit_word_eqI) (auto simp: bit_simps bit_128)
qed

lemma varint_step:
  fixes v acc :: "32 word"
  shows "(acc OR push_bit shift (take_bit 7 v)) OR push_bit (shift + 7) (drop_bit 7 v) = acc OR push_bit shift v"
proof (rule bit_word_eqI)
  fix n
  show "bit ((acc OR push_bit shift (take_bit 7 v)) OR push_bit (shift + 7) (drop_bit 7 v)) n \<longleftrightarrow> bit (acc OR push_bit shift v) n"
    if "n < LENGTH(32)" using that by (cases "n - shift < 7") (auto simp: bit_simps bit_128)
qed

text \<open>A number below $2^{32-7k}$ is decoded from the shift \<open>7k\<close> on; the last of five bytes has no continuation.\<close>

lemma varint_more:
  fixes v :: "32 word"
  assumes "k \<le> 4" "unat v < 2 ^ (32 - 7 * k)" "0x80 \<le> v"
  shows "Suc k \<le> 4" "unat (drop_bit 7 v) < 2 ^ (32 - 7 * Suc k)"
proof -
  have "0x80 \<le> unat v" using assms(3) by (simp add: word_le_nat_alt)
  with assms show k: "Suc k \<le> 4" by (cases "k = 4") auto
  have "32 - 7 * k = (32 - 7 * Suc k) + 7" using k by simp
  then have "(2 :: nat) ^ (32 - 7 * k) = 2 ^ (32 - 7 * Suc k) * 2 ^ 7" by (simp only: power_add)
  with assms(2) show "unat (drop_bit 7 v) < 2 ^ (32 - 7 * Suc k)"
    by (simp add: drop_bit_eq_div unat_div less_mult_imp_div_less)
qed

lemma decode_encode:
  assumes "k \<le> 4" "unat v < 2 ^ (32 - 7 * k)"
  shows "decode_loop (encode_uvarint v @ rest) (7 * k) acc i = Some (acc OR push_bit (7 * k) v, i + length (encode_uvarint v))"
  using assms
proof (induction v arbitrary: k acc i rule: encode_uvarint.induct)
  case (1 v)
  show ?case
  proof (cases "0x80 \<le> v")
    case True
    note more = varint_more [OF 1(2,3) True]
    from "1.IH" [OF True more] more(1) show ?thesis
      using True varint_step [of acc "7 * k" v]
      by (simp add: encode_uvarint.simps [of v] varint_byte Let_def add.commute)
  next
    case False
    then have "take_bit 7 v = v" by (simp add: take_7_small)
    with False show ?thesis by (simp add: encode_uvarint.simps [of v] varint_byte)
  qed
qed

lemma decode_uvarint_encode: "decode_uvarint (encode_uvarint v @ rest) = Some (v, length (encode_uvarint v))"
  using decode_encode [of 0 v rest 0 0] unsigned_less [of v, where 'a = nat] by (simp add: decode_uvarint_def)

lemma encode_uvarint_length: "k \<le> 4 \<Longrightarrow> unat v < 2 ^ (32 - 7 * k) \<Longrightarrow> length (encode_uvarint v) \<le> 5 - k"
proof (induction v arbitrary: k rule: encode_uvarint.induct)
  case (1 v)
  show ?case
  proof (cases "0x80 \<le> v")
    case True
    note more = varint_more [OF 1(2,3) True]
    from "1.IH" [OF True more] more(1) show ?thesis using True by (simp add: encode_uvarint.simps [of v])
  qed (use 1 in \<open>simp add: encode_uvarint.simps [of v]\<close>)
qed

text \<open>C30. A datagram frame survives the wire: decoding an encoded frame, at any flow number of 32 bits and with any payload, gives the flow number and
  the payload back, and the encoded number fits the five bytes the code reserves for it.\<close>

theorem datagram_roundtrip:
  assumes "wf_frame f"
  shows "\<exists>data. encode_datagram_frame f = Some data \<and> length (encode_uvarint (f_flow_id f)) \<le> 5 \<and>
    decode_datagram data portillia_datagram_frame_init =
      Some (portillia_datagram_frame_init\<lparr>f_flow_id := f_flow_id f, f_payload := f_payload f, f_payload_len := f_payload_len f\<rparr>)"
proof -
  have len: "length (encode_uvarint (f_flow_id f)) \<le> 5"
    using encode_uvarint_length [of 0 "f_flow_id f"] unsigned_less [of "f_flow_id f", where 'a = nat] by simp
  show ?thesis
  proof (cases "f_payload f")
    case None
    then show ?thesis
      using assms len decode_uvarint_encode [of "f_flow_id f" "[]"]
      by (simp add: wf_frame_def wf_array_def encode_datagram_frame_def decode_datagram_def)
  next
    case (Some payload)
    then show ?thesis
      using assms len decode_uvarint_encode [of "f_flow_id f" payload]
      by (simp add: wf_frame_def wf_array_def encode_datagram_frame_def decode_datagram_def)
  qed
qed

text \<open>Bits above the 32nd of a fifth byte are lost instead of being reported as an overflow.\<close>

lemma decode_drops_high_bits: "decode_uvarint [0x80, 0x80, 0x80, 0x80, 0x10] = Some (0, 5)"
  by (simp add: decode_uvarint_def Let_def)

section \<open>The queue keeps the newest frames\<close>

definition frames :: "portillia_datagram_frame_queue \<Rightarrow> portillia_datagram_frame list" where
  "frames q = map (\<lambda>i. the (fq_items q ! ((fq_head q + i) mod fq_cap q))) [0..<fq_count q]"

definition wf_frames :: "portillia_datagram_frame_queue \<Rightarrow> bool" where
  "wf_frames q \<longleftrightarrow> 0 < fq_cap q \<and> length (fq_items q) = fq_cap q \<and> fq_count q \<le> fq_cap q \<and> fq_head q < fq_cap q \<and>
     list_all (\<lambda>item. item \<noteq> None) (fq_items q)"

text \<open>The ring of frames read as a channel of connections, whose lemmas then apply.\<close>

definition frame_ring :: "portillia_datagram_frame_queue \<Rightarrow> portillia_datagram_frame conn_channel" where
  "frame_ring q = \<lparr>ch_items = fq_items q, ch_cap = fq_cap q, ch_count = fq_count q, ch_head = fq_head q,
     ch_tail = (fq_head q + fq_count q) mod fq_cap q, ch_closed = False\<rparr>"

lemma frames_ring: "frames q = channel_items (frame_ring q)"
  by (simp add: frames_def channel_items_def frame_ring_def slot_def)

lemma wf_frame_ring: "wf_frames q \<Longrightarrow> wf_channel (frame_ring q)"
  by (auto simp: wf_frames_def wf_channel_def frame_ring_def slot_def list_all_length)

lemma wf_frames_item:
  assumes "wf_frames q" "i < fq_cap q"
  obtains f where "fq_items q ! i = Some f"
  using assms by (auto simp: wf_frames_def list_all_length)

lemma wf_frames_update: "wf_frames q \<Longrightarrow> list_all (\<lambda>item. item \<noteq> None) ((fq_items q)[i := Some f])"
  by (auto simp: wf_frames_def list_all_iff dest: set_update_subset_insert [THEN subsetD])

lemma append_frame_ok:
  assumes wf: "wf_frames q" and room: "fq_count q < fq_cap q" and f: "wf_frame f"
  shows "\<exists>q'. append_frame f q = Some q' \<and> wf_frames q' \<and> frames q' = frames q @ [f] \<and> fq_cap q' = fq_cap q"
proof -
  let ?idx = "(fq_head q + fq_count q) mod fq_cap q"
  have idx: "?idx < fq_cap q" using wf by (simp add: wf_frames_def)
  obtain dst where "fq_items q ! ?idx = Some dst" by (rule wf_frames_item [OF wf idx])
  then have step: "append_frame f q = Some (q\<lparr>fq_items := (fq_items q)[?idx := Some f], fq_count := fq_count q + 1\<rparr>)" (is "_ = Some ?q")
    by (simp add: append_frame_def Let_def datagram_frame_copy_eq [OF f])
  have "frame_ring ?q = channel_put f (frame_ring q)"
    using wf by (simp add: frame_ring_def channel_put_def mod_simps wf_frames_def)
  then have "frames ?q = frames q @ [f]"
    using items_put [OF wf_frame_ring [OF wf], of f] room by (simp add: frames_ring channel_room_def frame_ring_def)
  moreover have "wf_frames ?q"
    using wf room wf_frames_update [OF wf, of ?idx f] by (simp add: wf_frames_def)
  ultimately show ?thesis using step by auto
qed

lemma drop_oldest_ok:
  assumes wf: "wf_frames q" and some: "0 < fq_count q"
  shows "\<exists>q'. drop_oldest q = Some q' \<and> wf_frames q' \<and> fq_items q ! fq_head q = Some (hd (frames q)) \<and> frames q' = tl (frames q) \<and>
    fq_cap q' = fq_cap q \<and> fq_count q' = fq_count q - 1"
proof -
  have head: "fq_head q < fq_cap q" using wf by (simp add: wf_frames_def)
  obtain f where f: "fq_items q ! fq_head q = Some f" by (rule wf_frames_item [OF wf head])
  let ?q = "q\<lparr>fq_items := (fq_items q)[fq_head q := Some portillia_datagram_frame_init],
    fq_head := (fq_head q + 1) mod fq_cap q, fq_count := fq_count q - 1\<rparr>"
  have step: "drop_oldest q = Some ?q" using f by (simp add: drop_oldest_def portillia_datagram_frame_cleanup_def)
  have first: "fq_items q ! fq_head q = Some (hd (frames q))"
    using some head f by (simp add: frames_def upt_conv_Cons del: upt_Suc)
  have "frames ?q = tl (frames q)"
  proof (rule nth_equalityI)
    fix i
    assume "i < length (frames ?q)"
    then have i: "Suc i < fq_count q" by (simp add: frames_def)
    have "(fq_head q + Suc i) mod fq_cap q \<noteq> fq_head q"
      using slot_inj [of "frame_ring q" "Suc i" 0] i head wf by (auto simp: slot_def frame_ring_def wf_frames_def)
    then show "frames ?q ! i = tl (frames q) ! i"
      using i by (simp add: frames_def nth_tl mod_simps)
  qed (simp add: frames_def)
  moreover have "wf_frames ?q"
    using wf wf_frames_update [OF wf, of "fq_head q"] by (auto simp: wf_frames_def)
  ultimately show ?thesis using step first by auto
qed

text \<open>The specification: a list of at most \<open>cap\<close> frames; when it is full the oldest makes room.\<close>

definition newest :: "nat \<Rightarrow> 'a \<Rightarrow> 'a list \<Rightarrow> 'a list" where
  "newest cap x xs = (if length xs \<ge> cap then tl xs else xs) @ [x]"

lemma length_frames [simp]: "length (frames q) = fq_count q"
  by (simp add: frames_def)

lemma push_newest:
  assumes wf: "wf_frames q" and f: "wf_frame f"
  shows "\<exists>q'. frame_queue_push True f q = Some (q', True) \<and> wf_frames q' \<and> frames q' = newest (fq_cap q) f (frames q) \<and>
    fq_cap q' = fq_cap q"
proof (cases "fq_count q < fq_cap q")
  case True
  with append_frame_ok [OF wf True f] show ?thesis by (auto simp: frame_queue_push_def newest_def)
next
  case False
  then have "0 < fq_count q" using wf by (simp add: wf_frames_def)
  with drop_oldest_ok [OF wf] obtain q1 where q1: "drop_oldest q = Some q1" "wf_frames q1" "frames q1 = tl (frames q)"
    "fq_cap q1 = fq_cap q" "fq_count q1 = fq_count q - 1" by blast
  then have "fq_count q1 < fq_cap q1" using wf \<open>0 < fq_count q\<close> by (auto simp: wf_frames_def)
  from append_frame_ok [OF q1(2) this f] show ?thesis using False q1 by (auto simp: frame_queue_push_def newest_def)
qed

lemma pop_oldest:
  assumes "wf_frames q" "\<forall>f \<in> set (frames q). wf_frame f"
  shows "\<exists>q' r. frame_queue_pop c out q = Some (q', r) \<and> wf_frames q' \<and> frames q' = tl (frames q) \<and> fq_cap q' = fq_cap q \<and>
    r = (case frames q of [] \<Rightarrow> if c then Turned_away else Waits | f # _ \<Rightarrow> Popped f)"
proof (cases "fq_count q = 0")
  case True
  then show ?thesis using assms(1) by (auto simp: frame_queue_pop_def frames_def)
next
  case False
  with drop_oldest_ok [OF assms(1)] obtain q' where q': "drop_oldest q = Some q'" "wf_frames q'" "fq_cap q' = fq_cap q"
    "fq_items q ! fq_head q = Some (hd (frames q))" "frames q' = tl (frames q)" by blast
  obtain f fs where fs: "frames q = f # fs" using False by (cases "frames q") (auto simp flip: length_frames)
  then have "wf_frame f" using assms(2) by simp
  then show ?thesis using False q' fs by (simp add: frame_queue_pop_def datagram_frame_copy_eq)
qed

datatype frame_op = Receive portillia_datagram_frame | Take bool portillia_datagram_frame | Clear

text \<open>A run of the queue, with the results of the pops, and the same run of the list.\<close>

fun queue_run ::
  "frame_op list \<Rightarrow> portillia_datagram_frame_queue \<Rightarrow> (portillia_datagram_frame_queue \<times> portillia_datagram_frame pop_result list) option" where
  "queue_run [] q = Some (q, [])"
| "queue_run (Receive f # ops) q = frame_queue_push True f q \<bind> (\<lambda>(q', _). queue_run ops q')"
| "queue_run (Take c out # ops) q = frame_queue_pop c out q \<bind> (\<lambda>(q', r). map_option (apsnd ((#) r)) (queue_run ops q'))"
| "queue_run (Clear # ops) q = queue_run ops (frame_queue_close q)"

fun list_run :: "frame_op list \<Rightarrow> portillia_datagram_frame list \<Rightarrow> portillia_datagram_frame list \<times> portillia_datagram_frame pop_result list" where
  "list_run [] xs = (xs, [])"
| "list_run (Receive f # ops) xs = list_run ops (newest DATAGRAM_QUEUE_CAP f xs)"
| "list_run (Take c out # ops) xs =
     apsnd ((#) (case xs of [] \<Rightarrow> if c then Turned_away else Waits | f # _ \<Rightarrow> Popped f)) (list_run ops (tl xs))"
| "list_run (Clear # ops) xs = list_run ops []"

fun op_ok :: "frame_op \<Rightarrow> bool" where
  "op_ok (Receive f) = wf_frame f"
| "op_ok _ = True"

lemma close_frames: "wf_frames q \<Longrightarrow> wf_frames (frame_queue_close q) \<and> frames (frame_queue_close q) = []"
  by (simp add: wf_frames_def frame_queue_close_def frames_def)

lemma queue_run_refines:
  assumes "wf_frames q" "\<forall>f \<in> set (frames q). wf_frame f" "list_all op_ok ops" "fq_cap q = DATAGRAM_QUEUE_CAP"
  shows "\<exists>q'. queue_run ops q = Some (q', snd (list_run ops (frames q))) \<and> frames q' = fst (list_run ops (frames q))"
  using assms
proof (induction ops q rule: queue_run.induct)
  case (2 f ops q)
  then have f: "wf_frame f" by simp
  obtain q' where q': "frame_queue_push True f q = Some (q', True)" "wf_frames q'" "frames q' = newest (fq_cap q) f (frames q)"
    "fq_cap q' = fq_cap q" using push_newest [OF 2(2) f] by blast
  have "\<forall>f \<in> set (frames q'). wf_frame f"
    using 2(3) f unfolding q'(3) by (cases "frames q") (auto simp: newest_def)
  then show ?case using "2.IH" [of "(q', True)" q' True] 2(4,5) q' by simp
next
  case (3 c out ops q)
  obtain q' r where q': "frame_queue_pop c out q = Some (q', r)" "wf_frames q'" "frames q' = tl (frames q)" "fq_cap q' = fq_cap q"
    "r = (case frames q of [] \<Rightarrow> if c then Turned_away else Waits | f # _ \<Rightarrow> Popped f)"
    using pop_oldest [OF 3(2,3)] by blast
  have "\<forall>f \<in> set (frames q'). wf_frame f" using 3(3) unfolding q'(3) by (cases "frames q") auto
  then show ?case using "3.IH" [of "(q', r)" q' r] 3(4,5) q' by (auto simp: apsnd_def map_prod_def split: prod.splits)
next
  case (4 ops q)
  then show ?case using close_frames [OF 4(2)] by (simp add: frame_queue_close_def)
qed simp

text \<open>The ring of received datagrams implements a list that keeps the newest 256: in every run of receiving, taking and clearing, with memory
  that starts out zeroed, each take returns what the list returns, the oldest frame that is left, and a full queue drops its oldest frame
  for a new one.\<close>

theorem datagram_queue_keeps_newest:
  assumes "list_all op_ok ops"
  shows "\<exists>q. queue_run ops (frame_queue_init (Some portillia_datagram_frame_init)) = Some (q, snd (list_run ops [])) \<and>
    frames q = fst (list_run ops [])"
proof -
  let ?q = "frame_queue_init (Some portillia_datagram_frame_init)"
  have "wf_frames ?q" "frames ?q = []" "fq_cap ?q = DATAGRAM_QUEUE_CAP"
    by (simp_all add: frame_queue_init_def wf_frames_def frames_def DATAGRAM_QUEUE_CAP_def list_all_iff)
  with queue_run_refines [of ?q ops] assms show ?thesis by simp
qed

section \<open>What the datagram transport does not do\<close>

text \<open>The slots of the queue come from an allocator that does not clear them, and the first datagram frees the pointers found there.\<close>

lemma first_datagram_undefined:
  assumes "decode_datagram data portillia_datagram_frame_init = Some frame"
  shows "quic_recv_handler data (portillia_datagram_client_new None) = None"
  using assms
  by (simp add: quic_recv_handler_def portillia_datagram_client_new_def frame_queue_init_def frame_queue_push_def append_frame_def
      DATAGRAM_QUEUE_CAP_def)

text \<open>A reader that waits when the queue is closed keeps waiting, and a second datagram sent before the I/O thread comes round replaces the
  first.\<close>

lemma close_leaves_waiting: "frame_queue_pop False out (frame_queue_close q) = Some (frame_queue_close q, Waits)"
  by (simp add: frame_queue_pop_def frame_queue_close_def)

lemma second_send_replaces_first:
  assumes "\<not> qc_closed qc" "b \<noteq> []"
  shows "snd (quic_send_queued (fst (portillia_quic_conn_send_datagram (Some b) (fst (portillia_quic_conn_send_datagram (Some a) qc))))) = Some b"
  using assms by (simp add: portillia_quic_conn_send_datagram_def quic_send_queued_def)

datatype datagram_op = Bind "quic_conn option" | Deliver "byte list" | Fetch bool portillia_datagram_frame
  | Send "32 word" "byte list option" nat | Reset | Shut

fun datagram_exec :: "datagram_op \<Rightarrow> portillia_datagram_client \<Rightarrow> portillia_datagram_client option" where
  "datagram_exec (Bind conn) d = portillia_datagram_client_bind conn d"
| "datagram_exec (Deliver data) d = quic_recv_handler data d"
| "datagram_exec (Fetch c out) d = map_option fst (portillia_datagram_client_accept c out d)"
| "datagram_exec (Send flow payload n) d = map_option fst (portillia_datagram_client_send flow payload n d)"
| "datagram_exec Reset d = Some (portillia_datagram_client_clear d)"
| "datagram_exec Shut d = Some (portillia_datagram_client_close d)"

fun datagram_run :: "datagram_op list \<Rightarrow> portillia_datagram_client \<Rightarrow> portillia_datagram_client option" where
  "datagram_run [] d = Some d"
| "datagram_run (op # ops) d = datagram_exec op d \<bind> datagram_run ops"

lemma exec_no_session: "dc_session d = None \<Longrightarrow> datagram_exec op d = Some d' \<Longrightarrow> dc_session d' = None"
  by (cases op) (auto simp: portillia_datagram_client_bind_def quic_recv_handler_def portillia_datagram_client_accept_def
      portillia_datagram_client_send_def portillia_datagram_client_clear_def portillia_datagram_client_close_def
      split: if_splits option.splits)

lemma run_no_session: "dc_session d = None \<Longrightarrow> datagram_run ops d = Some d' \<Longrightarrow> dc_session d' = None"
  by (induction ops arbitrary: d) (auto simp: bind_eq_Some_conv dest: exec_no_session)

text \<open>No datagram ever leaves the SDK. Nothing creates the session of a datagram client, so in every state the client can reach binding a
  connection dereferences a null pointer, the client never counts as connected, and sending reports success
  and sends nothing.\<close>

theorem datagrams_never_leave:
  assumes "datagram_run ops (portillia_datagram_client_new fresh) = Some d"
  shows "portillia_datagram_client_bind conn d = None \<and> \<not> portillia_datagram_client_connected d \<and>
    (\<not> dc_closed d \<longrightarrow> portillia_datagram_client_send flow (Some payload) n d = Some (d, None))"
proof -
  have "dc_session d = None" using run_no_session [OF _ assms] by (simp add: portillia_datagram_client_new_def)
  then show ?thesis
    by (simp add: portillia_datagram_client_bind_def portillia_datagram_client_connected_def portillia_datagram_client_send_def)
qed

section \<open>Samples\<close>

theorem datagram_roundtrip_witness:
  "\<exists>data. encode_datagram_frame (portillia_datagram_frame_init\<lparr>f_flow_id := 300, f_payload := Some [7], f_payload_len := 1\<rparr>) = Some data \<and>
     decode_datagram data portillia_datagram_frame_init =
       Some (portillia_datagram_frame_init\<lparr>f_flow_id := 300, f_payload := Some [7], f_payload_len := 1\<rparr>)"
  using datagram_roundtrip [of "portillia_datagram_frame_init\<lparr>f_flow_id := 300, f_payload := Some [7], f_payload_len := 1\<rparr>"]
  by (auto simp: wf_frame_def wf_array_def portillia_datagram_frame_init_def)

definition sample_frame :: "32 word \<Rightarrow> portillia_datagram_frame" where
  "sample_frame n = portillia_datagram_frame_init\<lparr>f_flow_id := n\<rparr>"

theorem datagram_queue_keeps_newest_witness:
  "\<exists>q. queue_run [Receive (sample_frame 1), Receive (sample_frame 2), Take False portillia_datagram_frame_init, Clear,
       Take True portillia_datagram_frame_init] (frame_queue_init (Some portillia_datagram_frame_init)) =
     Some (q, [Popped (sample_frame 1), Turned_away]) \<and> frames q = []"
  using datagram_queue_keeps_newest [of "[Receive (sample_frame 1), Receive (sample_frame 2), Take False portillia_datagram_frame_init,
      Clear, Take True portillia_datagram_frame_init]"]
  by (simp add: sample_frame_def portillia_datagram_frame_init_def wf_frame_def wf_array_def newest_def DATAGRAM_QUEUE_CAP_def)

theorem datagrams_never_leave_witness:
  "portillia_datagram_client_send 5 (Some [1]) 1 (portillia_datagram_client_clear (portillia_datagram_client_new None)) =
     Some (portillia_datagram_client_clear (portillia_datagram_client_new None), None)"
  using datagrams_never_leave [of "[Reset]" None "portillia_datagram_client_clear (portillia_datagram_client_new None)"]
  by (simp add: portillia_datagram_client_clear_def portillia_datagram_client_new_def)

end
