(* ===== verification/Sdk_Listener.thy ===== *)
theory Sdk_Listener
  imports Sdk_Flow Exposure Stream_Client Datagram
begin

text \<open>
  The listener of the SDK, \<^verbatim>\<open>src/sdk/listener.c\<close>: registering a lease at one relay, keeping reverse sessions open, renewing the lease
  and closing down.

  The record holds what the struct holds; the relay set, which the struct shares with the exposure, is part of it. The network is the
  client of \<open>Sdk_Client\<close>; name resolution, the connection and the outer TLS handshake of a reverse session are one
  parameter, which gives the descriptor, the outer SSL object and the peer as a function from the request to what it answers. A loop
  that retries runs over the turns the environment gives: whether the listener is cancelled when the turn begins.
\<close>

section \<open>Retries\<close>

definition DEFAULT_HANDSHAKE_TIMEOUT_SEC :: int where "DEFAULT_HANDSHAKE_TIMEOUT_SEC = 30"
definition DEFAULT_LEASE_TTL_SEC :: int where "DEFAULT_LEASE_TTL_SEC = 300"
definition DEFAULT_RENEW_BEFORE_SEC :: int where "DEFAULT_RENEW_BEFORE_SEC = 5"
definition DEFAULT_READY_TARGET :: int where "DEFAULT_READY_TARGET = 2"
definition DEFAULT_RETRY_WAIT_SEC :: int where "DEFAULT_RETRY_WAIT_SEC = 3"
definition RELAXED_RETRY_BACKOFF_MULTIPLIER :: int where "RELAXED_RETRY_BACKOFF_MULTIPLIER = 5"
definition MAX_RETRY_SLEEP_SEC :: int where "MAX_RETRY_SLEEP_SEC = 300"
definition INT_MAX :: int where "INT_MAX = 2 ^ 31 - 1"

definition retry_sleep_seconds :: "int \<Rightarrow> bool \<Rightarrow> int" where
  "retry_sleep_seconds base_sec relaxed =
     (let safe_base = (if base_sec > 0 then base_sec else DEFAULT_RETRY_WAIT_SEC)
      in if \<not> relaxed then safe_base
         else let scaled = safe_base * RELAXED_RETRY_BACKOFF_MULTIPLIER
              in if scaled > MAX_RETRY_SLEEP_SEC then MAX_RETRY_SLEEP_SEC else scaled)"

definition retry_increment :: "int \<Rightarrow> int" where
  "retry_increment retries = (if retries < INT_MAX - 1 then retries + 1 else 1)"

definition retry_budget_exhausted :: "int \<Rightarrow> int \<Rightarrow> bool" where
  "retry_budget_exhausted retry_count retries \<longleftrightarrow> retry_count > 0 \<and> retries > retry_count"

text \<open>The number of failures and the sleep after one more.\<close>

definition retry_after :: "int \<Rightarrow> int \<Rightarrow> int \<Rightarrow> int \<times> int" where
  "retry_after retry_count retry_wait_sec retries =
     (let retries' = retry_increment retries
      in (retries', retry_sleep_seconds retry_wait_sec (retry_budget_exhausted retry_count retries')))"

section \<open>State\<close>

record portillia_listener_lease =
  le_hostname :: "cstring option"
  le_udp_addr :: "cstring option"
  le_tcp_addr :: "cstring option"
  le_access_token :: "cstring option"
  le_expires_at :: time_t
  le_sni_port :: int
  le_hop_routes :: "portillia_hop_route list"
  le_tls_ctx :: bool

record ('r, 'k) portillia_listener =
  li_relay_url :: cstring
  li_identity :: portillia_identity
  li_metadata :: portillia_lease_metadata
  li_relay_set :: "('r, 'k) portillia_relay_set option"
  li_multi_hop :: "cstring option list"
  li_udp_enabled :: bool
  li_tcp_enabled :: bool
  li_ready_target :: int
  li_retry_count :: int
  li_retry_wait_sec :: int
  li_lease_ttl_sec :: int
  li_renew_before_sec :: int
  li_insecure_skip_verify :: bool
  li_stream :: "portillia_stream_client option"
  li_datagram :: "portillia_datagram_client option"
  li_http_client :: "portillia_http_client option"
  li_cancelled :: bool
  li_lease :: "portillia_listener_lease option"

definition set_lease :: "portillia_listener_lease option \<Rightarrow> ('r, 'k) portillia_listener \<Rightarrow> ('r, 'k) portillia_listener" where
  "set_lease lease l = l\<lparr>li_lease := lease\<rparr>"

definition clear_lease :: "('r, 'k) portillia_listener \<Rightarrow> ('r, 'k) portillia_listener" where
  "clear_lease l = (set_lease None l)\<lparr>li_datagram := map_option portillia_datagram_client_clear (li_datagram l)\<rparr>"

section \<open>Reverse sessions\<close>

text \<open>\<^verbatim>\<open>%255[^:/]:%d\<close> behind a scheme; the port stays when there is none.\<close>

definition scan_host_port :: "cstring \<Rightarrow> cstring \<Rightarrow> int \<Rightarrow> (cstring \<times> int) option" where
  "scan_host_port scheme url port =
     (case scan_literal scheme url \<bind> scan_not '':/'' 255 of
        None \<Rightarrow> None
      | Some (host, r) \<Rightarrow> Some (host, case scan_char CHR '':'' r \<bind> scan_int of None \<Rightarrow> port | Some (p, _) \<Rightarrow> p))"

definition parse_relay_host_port :: "cstring \<Rightarrow> (cstring \<times> int) option" where
  "parse_relay_host_port relay_url =
     (case scan_host_port ''https://'' relay_url 443 of
        Some found \<Rightarrow> Some found
      | None \<Rightarrow>
          (case scan_host_port ''http://'' relay_url 443 of
             Some (host, port) \<Rightarrow> Some (host, if port = 443 then 80 else port)
           | None \<Rightarrow>
               (case scan_literal ''https://'' relay_url \<bind> scan_not ''/'' 255 of
                  Some (host, _) \<Rightarrow> Some (host, 443)
                | None \<Rightarrow> map_option (\<lambda>(host, _). (host, 80)) (scan_literal ''http://'' relay_url \<bind> scan_not ''/'' 255))))"

definition is_https_url :: "cstring \<Rightarrow> bool" where
  "is_https_url url \<longleftrightarrow> take 8 url = ''https://''"

definition reverse_request :: "cstring \<Rightarrow> cstring \<Rightarrow> cstring" where
  "reverse_request host token =
     ''GET /sdk/connect HTTP/1.1'' @ crlf @ ''Host: '' @ host @ crlf @ ''X-Portal-Access-Token: '' @ token @ crlf @
     ''Connection: keep-alive'' @ crlf @ crlf"

text \<open>The head of the response, byte by byte: up to the empty line or 4095 bytes.\<close>

fun read_head :: "nat \<Rightarrow> cstring \<Rightarrow> segments \<Rightarrow> (cstring \<times> segments) option" where
  "read_head 0 resp segs = Some (resp, segs)"
| "read_head (Suc k) resp segs =
     (case recv 1 segs of
        ([], _) \<Rightarrow> None
      | (c # _, segs') \<Rightarrow>
          let resp' = resp @ [c]
          in if 4 \<le> length resp' \<and> drop (length resp' - 4) resp' = crlf @ crlf then Some (resp', segs')
             else read_head k resp' segs')"

definition response_accepts :: "cstring \<Rightarrow> bool" where
  "response_accepts resp \<longleftrightarrow>
     (let s = takeWhile (\<lambda>c. c \<noteq> CHR 0x00) resp
      in contains_sub '' 200 '' s \<or> contains_sub ('' 200'' @ [CHR 0x0D]) s \<or> contains_sub ('' 200'' @ [CHR 0x0A]) s)"

datatype reverse_errno = RE_INVAL | RE_UNREACHABLE | RE_OVERFLOW | RE_IO | RE_ACCES

text \<open>Host, port and whether TLS is spoken to the descriptor, the SSL object and the answers of the peer.\<close>

type_synonym reverse_dial = "cstring \<Rightarrow> int \<Rightarrow> bool \<Rightarrow> (int \<times> nat option \<times> (cstring \<Rightarrow> segments)) option"

definition open_reverse_session ::
  "reverse_dial \<Rightarrow> ('r, 'k) portillia_listener \<Rightarrow> (reverse_errno + int \<times> nat option \<times> segments) \<times> released list" where
  "open_reverse_session dial l =
     (case li_lease l \<bind> le_access_token of
        None \<Rightarrow> (Inl RE_INVAL, [])
      | Some token \<Rightarrow>
          (case parse_relay_host_port (li_relay_url l) of
             None \<Rightarrow> (Inl RE_INVAL, [])
           | Some (host, port) \<Rightarrow>
               (case dial host port (is_https_url (li_relay_url l)) of
                  None \<Rightarrow> (Inl RE_UNREACHABLE, [])
                | Some (fd, outer, peer) \<Rightarrow>
                    let gone = ssl_freed outer @ [Fd_closed fd]; req = reverse_request host token
                    in if length req \<ge> 1024 then (Inl RE_OVERFLOW, gone)
                       else case read_head 4095 [] (peer req) of
                              None \<Rightarrow> (Inl RE_IO, gone)
                            | Some (resp, rest) \<Rightarrow>
                                if response_accepts resp then (Inr (fd, outer, rest), []) else (Inl RE_ACCES, gone))))"

text \<open>One turn of the loop of a reverse session thread: the listener, the number of failures, what was released and the sleep before
  the next turn, none when the session is opened again at once. A session that does not come to an end has no next turn.\<close>

definition reverse_turn ::
  "reverse_dial \<Rightarrow> 's session_env \<Rightarrow> int \<Rightarrow> ('r, 'k) portillia_listener \<Rightarrow>
   (('r, 'k) portillia_listener \<times> int \<times> released list \<times> int option) option" where
  "reverse_turn dial env retries l =
     (case open_reverse_session dial l of
        (Inl _, gone) \<Rightarrow>
          (case retry_after (li_retry_count l) (li_retry_wait_sec l) retries of
             (retries', pause) \<Rightarrow> Some (l, retries', gone, Some pause))
      | (Inr (fd, outer, rest), gone) \<Rightarrow>
          (case li_stream l of
             None \<Rightarrow> Some (l, 0, gone, None)
           | Some s \<Rightarrow>
               (case portillia_stream_client_run_session env fd outer
                       (case li_lease l of None \<Rightarrow> False | Some le \<Rightarrow> le_tls_ctx le) (map cstring_to_bytes rest) s of
                  (s', Session_over _ _) \<Rightarrow> Some (l\<lparr>li_stream := Some s'\<rparr>, 0, gone, None)
                | _ \<Rightarrow> None)))"

section \<open>Renewing\<close>

definition renew_interval :: "('r, 'k) portillia_listener \<Rightarrow> int" where
  "renew_interval l =
     (if li_renew_before_sec l > 0 \<and> li_renew_before_sec l < li_lease_ttl_sec l
      then li_lease_ttl_sec l - li_renew_before_sec l else li_lease_ttl_sec l sdiv 2)"

text \<open>The listener before the threads have set up a client never renews.\<close>

definition renew_attempt ::
  "('j, 't, 'w, 'r) sdk_env \<Rightarrow> portillia_listener_lease \<Rightarrow> cstring \<Rightarrow> portillia_http_client \<Rightarrow> ('r, 'k) portillia_listener \<Rightarrow> 'w \<Rightarrow>
   'w \<times> (sdk_errno + ('r, 'k) portillia_listener)" where
  "renew_attempt env lease token client l w =
     (case portillia_api_renew_lease env client (li_lease_ttl_sec l) token None (Some (li_identity l)) (li_relay_set l)
             (le_hop_routes lease) w of
        (w', Inl e) \<Rightarrow> (w', Inl e)
      | (w', Inr resp) \<Rightarrow>
          (w', Inr (l\<lparr>li_lease := map_option (\<lambda>le. le\<lparr>le_access_token := Some (nr_access_token resp), le_expires_at := nr_expires_at resp\<rparr>)
                                    (li_lease l)\<rparr>)))"

text \<open>One round after the sleep: attempts until one succeeds, with the sleeps between them.\<close>

fun renew_loop ::
  "('j, 't, 'w, 'r) sdk_env \<Rightarrow> portillia_listener_lease \<Rightarrow> cstring \<Rightarrow> portillia_http_client \<Rightarrow> bool list \<Rightarrow> int \<Rightarrow>
   ('r, 'k) portillia_listener \<Rightarrow> 'w \<Rightarrow> 'w \<times> ('r, 'k) portillia_listener \<times> int list" where
  "renew_loop env lease token client [] retries l w = (w, l, [])"
| "renew_loop env lease token client (cancelled # turns) retries l w =
     (if cancelled then (w, l, [])
      else case renew_attempt env lease token client l w of
             (w', Inr l') \<Rightarrow> (w', l', [])
           | (w', Inl _) \<Rightarrow>
               (case retry_after (li_retry_count l) (li_retry_wait_sec l) retries of
                  (retries', pause) \<Rightarrow> apsnd (apsnd ((#) pause)) (renew_loop env lease token client turns retries' l w')))"

definition renew_round ::
  "('j, 't, 'w, 'r) sdk_env \<Rightarrow> bool list \<Rightarrow> ('r, 'k) portillia_listener \<Rightarrow> 'w \<Rightarrow> 'w \<times> ('r, 'k) portillia_listener \<times> int list" where
  "renew_round env turns l w =
     (case (li_lease l, li_http_client l) of
        (Some lease, Some client) \<Rightarrow>
          (case le_access_token lease of
             None \<Rightarrow> (w, l, [])
           | Some token \<Rightarrow> renew_loop env lease token client turns 0 l w)
      | _ \<Rightarrow> (w, l, []))"

section \<open>Registering\<close>

text \<open>The inner TLS context comes from \<open>portillia_keyless_build_tls_ctx\<close>, a parameter.\<close>

definition lease_of_response :: "portillia_register_response \<Rightarrow> portillia_hop_route list \<Rightarrow> bool \<Rightarrow> portillia_listener_lease" where
  "lease_of_response resp hops tls_ctx =
     \<lparr>le_hostname = Some (rr_hostname resp), le_udp_addr = rr_udp_addr resp, le_tcp_addr = rr_tcp_addr resp,
      le_access_token = Some (rr_access_token resp), le_expires_at = rr_expires_at resp, le_sni_port = rr_sni_port resp,
      le_hop_routes = hops, le_tls_ctx = tls_ctx\<rparr>"

definition keyless_url_of :: "cstring \<Rightarrow> portillia_register_response \<Rightarrow> cstring" where
  "keyless_url_of relay_url resp = (case rr_keyless_url resp of None \<Rightarrow> relay_url | Some u \<Rightarrow> if u = [] then relay_url else u)"

definition register_and_configure ::
  "('j, 't, 'w, 'r) sdk_env \<Rightarrow> cstring \<Rightarrow> (cstring \<Rightarrow> cstring \<Rightarrow> cstring \<Rightarrow> bool \<Rightarrow> bool) \<Rightarrow> ('r, 'k) portillia_listener \<Rightarrow> 'w \<Rightarrow>
   'w \<times> ('r, 'k) portillia_listener \<times> bool" where
  "register_and_configure env sdk_version build_tls l w =
     (let client = (case li_http_client l of Some c \<Rightarrow> c
            | None \<Rightarrow> \<lparr>hc_relay_url = li_relay_url l, hc_insecure_skip_verify = li_insecure_skip_verify l\<rparr>);
          l1 = l\<lparr>li_http_client := Some client\<rparr>
      in case portillia_http_client_check_domain env sdk_version client w of
           (w1, Some e) \<Rightarrow> (w1, l1, False)
         | (w1, None) \<Rightarrow>
             (case portillia_api_register_lease env client (li_identity l) (Some (li_metadata l)) (li_relay_set l) (li_multi_hop l)
                     (li_lease_ttl_sec l) (li_udp_enabled l) (li_tcp_enabled l) w1 of
                (w2, Inl e) \<Rightarrow> (w2, l1, False)
              | (w2, Inr (resp, hops)) \<Rightarrow>
                  let tls_ctx = build_tls (keyless_url_of (li_relay_url l) resp) (rr_hostname resp) (rr_access_token resp)
                                  (li_insecure_skip_verify l);
                      l2 = set_lease (Some (lease_of_response resp hops tls_ctx)) l1
                  in (w2, l2\<lparr>li_relay_set := map_option (\<lambda>rset. portillia_relay_set_confirm_url (se_table env) rset (li_relay_url l)) (li_relay_set l)\<rparr>,
                      True)))"

text \<open>The main loop up to the lease: attempts until one succeeds, with the sleeps between them.\<close>

fun register_loop ::
  "('j, 't, 'w, 'r) sdk_env \<Rightarrow> cstring \<Rightarrow> (cstring \<Rightarrow> cstring \<Rightarrow> cstring \<Rightarrow> bool \<Rightarrow> bool) \<Rightarrow> bool list \<Rightarrow> int \<Rightarrow>
   ('r, 'k) portillia_listener \<Rightarrow> 'w \<Rightarrow> 'w \<times> ('r, 'k) portillia_listener \<times> int list \<times> bool" where
  "register_loop env version build_tls [] retries l w = (w, l, [], False)"
| "register_loop env version build_tls (cancelled # turns) retries l w =
     (if cancelled then (w, l, [], False)
      else case register_and_configure env version build_tls l w of
             (w', l', True) \<Rightarrow> (w', l', [], True)
           | (w', l', False) \<Rightarrow>
               (case retry_after (li_retry_count l) (li_retry_wait_sec l) retries of
                  (retries', pause) \<Rightarrow>
                    (case register_loop env version build_tls turns retries' l' w' of
                       (w'', l'', pauses, ok) \<Rightarrow> (w'', l'', pause # pauses, ok))))"

section \<open>Lifecycle and introspection\<close>

text \<open>Nothing when the thread cannot be started: the code then closes the listener, which joins a thread that does not exist.\<close>

definition portillia_listener_new ::
  "bool \<Rightarrow> portillia_datagram_frame option \<Rightarrow> ('r, 'k) portillia_relay_set option \<Rightarrow> listener_args \<Rightarrow> ('r, 'k) portillia_listener option" where
  "portillia_listener_new started fresh rset args =
     (if \<not> started then None
      else Some \<lparr>li_relay_url = la_url args, li_identity = la_identity args, li_metadata = la_metadata args, li_relay_set = rset,
             li_multi_hop = map Some (la_multi_hop args), li_udp_enabled = la_udp_enabled args, li_tcp_enabled = la_tcp_enabled args,
             li_ready_target = DEFAULT_READY_TARGET, li_retry_count = la_retry_count args, li_retry_wait_sec = DEFAULT_RETRY_WAIT_SEC,
             li_lease_ttl_sec = DEFAULT_LEASE_TTL_SEC, li_renew_before_sec = DEFAULT_RENEW_BEFORE_SEC,
             li_insecure_skip_verify = la_insecure_skip_verify args,
             li_stream = Some (portillia_stream_client_new DEFAULT_READY_TARGET DEFAULT_HANDSHAKE_TIMEOUT_SEC),
             li_datagram = (if la_udp_enabled args then Some (portillia_datagram_client_new fresh) else None),
             li_http_client = None, li_cancelled = False, li_lease = None\<rparr>)"

text \<open>What closing does once the thread has been joined; the resources the stream client held come out.\<close>

definition listener_release :: "('r, 'k) portillia_listener \<Rightarrow> ('r, 'k) portillia_listener \<times> released list" where
  "listener_release l =
     ((clear_lease l)\<lparr>li_cancelled := True, li_stream := None, li_datagram := None, li_http_client := None\<rparr>,
      case li_stream l of None \<Rightarrow> [] | Some s \<Rightarrow> sc_released (portillia_stream_client_destroy s))"

definition portillia_listener_accept ::
  "('r, 'k) portillia_listener \<Rightarrow> ('r, 'k) portillia_listener \<times> portillia_net_conn pop_result" where
  "portillia_listener_accept l =
     (if li_cancelled l then (l, Turned_away)
      else case li_stream l of
             None \<Rightarrow> (l, Turned_away)
           | Some s \<Rightarrow> (case portillia_stream_client_accept s of (s', r) \<Rightarrow> (l\<lparr>li_stream := Some s'\<rparr>, r)))"

definition portillia_listener_accept_datagram ::
  "bool \<Rightarrow> portillia_datagram_frame \<Rightarrow> ('r, 'k) portillia_listener \<Rightarrow>
   (('r, 'k) portillia_listener \<times> (datagram_errno + portillia_datagram_frame) option) option" where
  "portillia_listener_accept_datagram cancelled out l =
     (if li_cancelled l then Some (l, Some (Inl EBADF_datagram))
      else case li_datagram l of
             None \<Rightarrow> Some (l, Some (Inl EBADF_datagram))
           | Some d \<Rightarrow> map_option (\<lambda>(d', r). (l\<lparr>li_datagram := Some d'\<rparr>, r)) (portillia_datagram_client_accept cancelled out d))"

definition portillia_listener_send_datagram ::
  "portillia_datagram_frame \<Rightarrow> ('r, 'k) portillia_listener \<Rightarrow> (('r, 'k) portillia_listener \<times> datagram_errno option) option" where
  "portillia_listener_send_datagram frame l =
     (if li_cancelled l then Some (l, Some EBADF_datagram)
      else case li_datagram l of
             None \<Rightarrow> Some (l, Some EBADF_datagram)
           | Some d \<Rightarrow> map_option (\<lambda>(d', r). (l\<lparr>li_datagram := Some d'\<rparr>, r))
               (portillia_datagram_client_send (f_flow_id frame) (f_payload frame) (f_payload_len frame) d))"

text \<open>The address, whether it is ready, and whether it may still become so.\<close>

definition portillia_listener_datagram_ready :: "('r, 'k) portillia_listener \<Rightarrow> cstring option \<times> bool \<times> bool" where
  "portillia_listener_datagram_ready l =
     (case li_datagram l of
        None \<Rightarrow> (None, False, False)
      | Some d \<Rightarrow>
          let has_udp = (case li_lease l of None \<Rightarrow> False | Some le \<Rightarrow> nonempty (le_udp_addr le));
              has_hostname = (case li_lease l of None \<Rightarrow> False | Some le \<Rightarrow> nonempty (le_hostname le))
          in if portillia_datagram_client_connected d \<and> has_udp then (li_lease l \<bind> le_udp_addr, True, False)
             else (None, False, \<not> li_cancelled l \<and> (\<not> has_hostname \<or> has_udp)))"

definition portillia_listener_lease_snapshot :: "('r, 'k) portillia_listener \<Rightarrow> portillia_listener_lease option" where
  "portillia_listener_lease_snapshot l = map_option (\<lambda>le. le\<lparr>le_hop_routes := [], le_tls_ctx := False\<rparr>) (li_lease l)"

definition portillia_listener_public_url :: "('r, 'k) portillia_listener \<Rightarrow> cstring option" where
  "portillia_listener_public_url l =
     map_option (\<lambda>h. snprintf_s 256 (''https://'' @ h)) (portillia_listener_lease_snapshot l \<bind> le_hostname)"

section \<open>The threads of a listener\<close>

text \<open>
  The thread of \<open>listener_run_thread\<close>, the reverse and renewal threads it starts, counted, and a caller of \<open>portillia_listener_close\<close>. The main
  thread registers, starts the workers in \<open>run_lease\<close> and then waits on a condition variable until it finds itself cancelled or an error set.
  A worker ends when it sees the listener cancelled. Nothing signals the condition variable and nothing sets the error; the flag of the
  relation says whether \<open>pthread_cond_wait\<close> may return by itself, which POSIX allows.
\<close>

datatype run_pc = Run_top | Run_register | Run_sleep | Run_start | Run_check | Run_blocked | Run_join | Run_stopped
datatype close_pc = Close_idle | Close_joining | Close_returned

record listener_threads =
  lt_cancelled :: bool
  lt_run_err :: int
  lt_run :: run_pc
  lt_workers :: nat
  lt_close :: close_pc

definition listener_init :: listener_threads where
  "listener_init = \<lparr>lt_cancelled = False, lt_run_err = 0, lt_run = Run_top, lt_workers = 0, lt_close = Close_idle\<rparr>"

inductive listener_step :: "bool \<Rightarrow> listener_threads \<Rightarrow> listener_threads \<Rightarrow> bool" where
  loop_top: "lt_run t = Run_top \<Longrightarrow> listener_step sp t (t\<lparr>lt_run := if lt_cancelled t then Run_stopped else Run_register\<rparr>)"
| registered: "lt_run t = Run_register \<Longrightarrow> listener_step sp t (t\<lparr>lt_run := Run_start\<rparr>)"
| refused: "lt_run t = Run_register \<Longrightarrow> listener_step sp t (t\<lparr>lt_run := if lt_cancelled t then Run_stopped else Run_sleep\<rparr>)"
| slept: "lt_run t = Run_sleep \<Longrightarrow> listener_step sp t (t\<lparr>lt_run := Run_top\<rparr>)"
| start_workers: "lt_run t = Run_start \<Longrightarrow> n \<le> 3 \<Longrightarrow>
    listener_step sp t (t\<lparr>lt_run := Run_check, lt_run_err := 0, lt_workers := n\<rparr>)"
| check: "lt_run t = Run_check \<Longrightarrow>
    listener_step sp t (t\<lparr>lt_run := if \<not> lt_cancelled t \<and> lt_run_err t = 0 then Run_blocked else Run_join\<rparr>)"
| spurious: "sp \<Longrightarrow> lt_run t = Run_blocked \<Longrightarrow> listener_step sp t (t\<lparr>lt_run := Run_check\<rparr>)"
| joined: "lt_run t = Run_join \<Longrightarrow> lt_workers t = 0 \<Longrightarrow>
    listener_step sp t (t\<lparr>lt_run := if lt_run_err t = 0 \<and> lt_cancelled t then Run_stopped else Run_top\<rparr>)"
| worker_ends: "lt_cancelled t \<Longrightarrow> lt_workers t = Suc n \<Longrightarrow> listener_step sp t (t\<lparr>lt_workers := n\<rparr>)"
| close_begins: "lt_close t = Close_idle \<Longrightarrow> listener_step sp t (t\<lparr>lt_cancelled := True, lt_close := Close_joining\<rparr>)"
| close_joins: "lt_close t = Close_joining \<Longrightarrow> lt_run t = Run_stopped \<Longrightarrow> listener_step sp t (t\<lparr>lt_close := Close_returned\<rparr>)"

inductive_cases listener_stepE: "listener_step sp t t'"

abbreviation listener_reach :: "bool \<Rightarrow> listener_threads \<Rightarrow> listener_threads \<Rightarrow> bool" where
  "listener_reach sp \<equiv> (listener_step sp)\<^sup>*\<^sup>*"

definition threads_inv :: "listener_threads \<Rightarrow> bool" where
  "threads_inv t \<longleftrightarrow> lt_run_err t = 0 \<and> lt_workers t \<le> 3 \<and> (lt_close t = Close_idle \<longleftrightarrow> \<not> lt_cancelled t) \<and>
     (lt_close t = Close_returned \<longrightarrow> lt_run t = Run_stopped) \<and> (lt_run t = Run_stopped \<longrightarrow> lt_cancelled t)"

lemma step_inv: "listener_step sp t t' \<Longrightarrow> threads_inv t \<Longrightarrow> threads_inv t'"
  by (cases sp t t' rule: listener_step.cases) (auto simp: threads_inv_def)

lemma reach_inv: "listener_reach sp t t' \<Longrightarrow> threads_inv t \<Longrightarrow> threads_inv t'"
  by (induction rule: rtranclp_induct) (auto intro: step_inv)

lemma init_inv: "threads_inv listener_init"
  by (simp add: threads_inv_def listener_init_def)

lemma step_blocked: "listener_step False t t' \<Longrightarrow> lt_run t = Run_blocked \<Longrightarrow> lt_run t' = Run_blocked"
  by (cases False t t' rule: listener_step.cases) auto

lemma reach_blocked: "listener_reach False t t' \<Longrightarrow> lt_run t = Run_blocked \<Longrightarrow> lt_run t' = Run_blocked"
  by (induction rule: rtranclp_induct) (auto intro: step_blocked)

text \<open>Once cancelled, and not yet blocked, every step brings the end nearer.\<close>

definition run_rank :: "run_pc \<Rightarrow> nat" where
  "run_rank pc = (case pc of Run_stopped \<Rightarrow> 0 | Run_top \<Rightarrow> 1 | Run_sleep \<Rightarrow> 2 | Run_join \<Rightarrow> 3 | Run_check \<Rightarrow> 4 | Run_blocked \<Rightarrow> 4
     | Run_start \<Rightarrow> 5 | Run_register \<Rightarrow> 6)"

definition close_rank :: "listener_threads \<Rightarrow> nat" where
  "close_rank t = 5 * run_rank (lt_run t) + lt_workers t + (case lt_close t of Close_idle \<Rightarrow> 2 | Close_joining \<Rightarrow> 1 | Close_returned \<Rightarrow> 0)"

definition closing :: "listener_threads \<Rightarrow> bool" where
  "closing t \<longleftrightarrow> threads_inv t \<and> lt_cancelled t \<and> lt_run t \<noteq> Run_blocked"

lemma step_closing: "listener_step sp t t' \<Longrightarrow> closing t \<Longrightarrow> closing t' \<and> close_rank t' < close_rank t"
  by (frule step_inv) (auto simp: closing_def threads_inv_def close_rank_def run_rank_def elim!: listener_stepE)

lemma closing_progress: "closing t \<Longrightarrow> lt_close t = Close_returned \<or> (\<exists>t'. listener_step sp t t')"
proof -
  assume c: "closing t"
  show ?thesis
  proof (cases "lt_run t")
    case Run_join
    show ?thesis
    proof (cases "lt_workers t")
      case (Suc n)
      then show ?thesis using c worker_ends [of t n sp] by (auto simp: closing_def)
    qed (use Run_join joined [of t sp] in blast)
  next
    case Run_stopped
    then show ?thesis using c close_joins [of t sp] by (cases "lt_close t") (auto simp: closing_def threads_inv_def)
  next
    case Run_start
    then show ?thesis using start_workers [of t 0 sp] by auto
  qed (use c loop_top [of t sp] registered [of t sp] slept [of t sp] check [of t sp] in \<open>auto simp: closing_def\<close>)
qed

lemma closing_ends: "(listener_step sp ^^ n) t t' \<Longrightarrow> closing t \<Longrightarrow> closing t' \<and> n + close_rank t' \<le> close_rank t"
proof (induction n arbitrary: t')
  case (Suc n)
  then obtain t1 where t1: "(listener_step sp ^^ n) t t1" "listener_step sp t1 t'" by auto
  then show ?case using Suc.IH [OF t1(1) Suc.prems(2)] step_closing [OF t1(2)] by fastforce
qed simp

lemma workers_end:
  "lt_cancelled t \<Longrightarrow> listener_reach sp t (t\<lparr>lt_workers := 0\<rparr>)"
proof (induction "lt_workers t" arbitrary: t)
  case (Suc n)
  have "listener_step sp t (t\<lparr>lt_workers := n\<rparr>)" using worker_ends [of t n sp] Suc by simp
  then show ?case using Suc.hyps(1) [of "t\<lparr>lt_workers := n\<rparr>"] Suc.prems by (simp add: converse_rtranclp_into_rtranclp)
next
  case 0
  then have "t\<lparr>lt_workers := 0\<rparr> = t" by (cases t) simp
  then show ?case by simp
qed

lemma blocked_stuck:
  assumes "lt_run t = Run_blocked" "lt_workers t = 0" "lt_close t = Close_joining"
  shows "\<not> listener_step False t t'"
  using assms by (auto elim: listener_stepE)

text \<open>Closing a listener that serves a lease hangs. Once the main thread has registered and waits, no step of any thread wakes it: the
  caller of the close sets the flag without signalling the condition variable and waits for the thread to end.
  Whatever happens, the close has not returned, and the threads run into a state in which none can move. Only if
  \<open>pthread_cond_wait\<close> returned by itself could the close come back.\<close>

theorem close_hangs_while_serving:
  assumes "listener_reach False listener_init t" "lt_run t = Run_blocked"
  shows "(\<forall>t'. listener_reach False t t' \<longrightarrow> lt_run t' = Run_blocked \<and> lt_close t' \<noteq> Close_returned) \<and>
    (\<exists>t'. listener_reach False t t' \<and> lt_close t' = Close_joining \<and> (\<forall>t''. \<not> listener_step False t' t''))"
proof (intro conjI allI impI)
  have inv: "threads_inv t" by (rule reach_inv [OF assms(1) init_inv])
  fix t'
  assume "listener_reach False t t'"
  with reach_inv [OF this inv] show "lt_run t' = Run_blocked" "lt_close t' \<noteq> Close_returned"
    using reach_blocked [OF _ assms(2)] by (auto simp: threads_inv_def)
next
  have inv: "threads_inv t" by (rule reach_inv [OF assms(1) init_inv])
  let ?t = "t\<lparr>lt_cancelled := True, lt_close := Close_joining\<rparr>"
  have "listener_reach False t ?t"
  proof (cases "lt_close t")
    case Close_idle
    then show ?thesis using close_begins [of t False] by blast
  next
    case Close_joining
    then have "?t = t" using inv by (auto simp: threads_inv_def)
    then show ?thesis by simp
  next
    case Close_returned
    then show ?thesis using inv assms(2) by (simp add: threads_inv_def)
  qed
  then have "listener_reach False t (?t\<lparr>lt_workers := 0\<rparr>)"
    using workers_end [of ?t False] by (simp add: rtranclp_trans)
  then show "\<exists>t'. listener_reach False t t' \<and> lt_close t' = Close_joining \<and> (\<forall>t''. \<not> listener_step False t' t'')"
    using blocked_stuck [of "?t\<lparr>lt_workers := 0\<rparr>"] assms(2) by auto
qed


section \<open>Retries are paced and end\<close>

lemma retry_after_paced: "snd (retry_after rc DEFAULT_RETRY_WAIT_SEC retries) \<in> {3, 15}"
  by (simp add: retry_after_def retry_sleep_seconds_def Let_def DEFAULT_RETRY_WAIT_SEC_def RELAXED_RETRY_BACKOFF_MULTIPLIER_def
      MAX_RETRY_SLEEP_SEC_def)

text \<open>The world and the listener after a number of attempts.\<close>

fun attempts ::
  "('j, 't, 'w, 'r) sdk_env \<Rightarrow> cstring \<Rightarrow> (cstring \<Rightarrow> cstring \<Rightarrow> cstring \<Rightarrow> bool \<Rightarrow> bool) \<Rightarrow> nat \<Rightarrow> 'w \<times> ('r, 'k) portillia_listener \<Rightarrow>
   'w \<times> ('r, 'k) portillia_listener" where
  "attempts env version build_tls 0 s = s"
| "attempts env version build_tls (Suc n) (w, l) =
     (case register_and_configure env version build_tls l w of (w', l', _) \<Rightarrow> attempts env version build_tls n (w', l'))"

definition attempt_accepted ::
  "('j, 't, 'w, 'r) sdk_env \<Rightarrow> cstring \<Rightarrow> (cstring \<Rightarrow> cstring \<Rightarrow> cstring \<Rightarrow> bool \<Rightarrow> bool) \<Rightarrow> 'w \<times> ('r, 'k) portillia_listener \<Rightarrow> bool" where
  "attempt_accepted env version build_tls s = (case s of (w, l) \<Rightarrow> snd (snd (register_and_configure env version build_tls l w)))"

lemma register_keeps_settings:
  "register_and_configure env version build_tls l w = (w', l', ok) \<Longrightarrow>
    li_retry_wait_sec l' = li_retry_wait_sec l \<and> (ok \<longrightarrow> li_lease l' \<noteq> None)"
  by (auto simp: register_and_configure_def Let_def set_lease_def split: prod.splits option.splits sum.splits)

lemma register_loop_ends:
  assumes "attempt_accepted env version build_tls (attempts env version build_tls n (w, l))" "li_retry_wait_sec l = DEFAULT_RETRY_WAIT_SEC"
  shows "\<exists>w' l' pauses. register_loop env version build_tls (replicate (Suc n) False) retries l w = (w', l', pauses, True) \<and>
    li_lease l' \<noteq> None \<and> length pauses \<le> n \<and> set pauses \<subseteq> {3, 15}"
  using assms
proof (induction n arbitrary: retries l w)
  case 0
  obtain w' l' where r: "register_and_configure env version build_tls l w = (w', l', True)"
    using 0(1) by (auto simp: attempt_accepted_def split: prod.splits) (metis prod.exhaust snd_conv)
  then show ?case using register_keeps_settings [OF r] by auto
next
  case (Suc n)
  obtain w' l' ok where r: "register_and_configure env version build_tls l w = (w', l', ok)" by (metis prod.exhaust)
  show ?case
  proof (cases ok)
    case True
    then show ?thesis using r register_keeps_settings [OF r] by auto
  next
    case False
    obtain retries' pause where p: "retry_after (li_retry_count l) (li_retry_wait_sec l) retries = (retries', pause)" by fastforce
    with retry_after_paced [of "li_retry_count l" retries] have pause: "pause \<in> {3, 15}" by (simp add: Suc.prems(2))
    have acc: "attempt_accepted env version build_tls (attempts env version build_tls n (w', l'))" using Suc.prems(1) r by simp
    have wait: "li_retry_wait_sec l' = DEFAULT_RETRY_WAIT_SEC" using register_keeps_settings [OF r] Suc.prems(2) by simp
    obtain w'' l'' pauses where "register_loop env version build_tls (replicate (Suc n) False) retries' l' w' = (w'', l'', pauses, True)"
      "li_lease l'' \<noteq> None" "length pauses \<le> n" "set pauses \<subseteq> {3, 15}" using Suc.IH [OF acc wait] by blast
    then show ?thesis using r p False pause by auto
  qed
qed

text \<open>A listener registers as soon as the relay lets it. If the relay would accept the attempt that follows \<open>n\<close> attempts, a listener
  that is not cancelled has its lease after at most \<open>n\<close> failures, and sleeps three seconds after a failure, or fifteen once the budget of
  retries is used up; the budget never makes it give up.\<close>

theorem registers_when_accepted:
  assumes "portillia_listener_new True fresh rset args = Some l"
    "attempt_accepted env version build_tls (attempts env version build_tls n (w, l))"
  shows "\<exists>w' l' pauses. register_loop env version build_tls (replicate (Suc n) False) 0 l w = (w', l', pauses, True) \<and>
    li_lease l' \<noteq> None \<and> length pauses \<le> n \<and> set pauses \<subseteq> {3, 15}"
  using assms(1) by (intro register_loop_ends [OF assms(2)]) (auto simp: portillia_listener_new_def)

section \<open>Going live\<close>

lemma domain_over_relay:
  assumes con: "connected senv envs client lk view"
  shows "portillia_http_client_check_domain senv (fst (lk_versions lk)) client (k, st) = ((k + 1, st), None)"
proof -
  let ?url = "hc_relay_url client @ SDK_PATH_DOMAIN" and ?api = "se_json senv"
  have api: "ae_json (envs k) = ?api" and laws: "cjson_laws ?api view" using con by (simp_all add: connected_def)
  have url: "snprintf_s 2048 ?url = ?url" using con by (simp add: connected_def SDK_PATH_DOMAIN_def)
  define reply where "reply = cj_object ?api [(''data'', cj_object ?api [(''protocol_version'', cj_string ?api (fst (lk_versions lk))),
      (''release_version'', cj_string ?api (snd (lk_versions lk)))]), (''ok'', cj_bool ?api True)]"
  have handled: "rp_status (handle_domain ?api (fst (lk_versions lk)) (snd (lk_versions lk)) req fresh_response) = Http_code 200"
    "rp_body (handle_domain ?api (fst (lk_versions lk)) (snd (lk_versions lk)) req fresh_response) = Body_json (cj_print ?api reply)" for req
    by (simp_all add: handle_domain_def reply_def fresh_response_def)
  obtain doc where doc: "cj_parse ?api (cj_print ?api reply) = Some doc" by (rule cjson_print_parse [OF laws])
  have http: "http_json senv client None ''GET'' SDK_PATH_DOMAIN None (k, st) = ((k + 1, st), Inr (Some doc))"
    using con
    by (simp add: http_json_def Let_def url connected_def relay_net_def relay_routes_def relay_request_def link_laws_def SDK_PATH_DOMAIN_def
        handled doc)
  have "parse_domain_response_json ?api (Some doc) = Some (fst (lk_versions lk), Some (snd (lk_versions lk)))"
    using domain_response_read [OF laws, of "fst (lk_versions lk)" "snd (lk_versions lk)" empty_request fresh_response] doc handled by simp
  with http show ?thesis by (simp add: portillia_http_client_check_domain_def)
qed

lemma configured_over_relay:
  assumes con: "connected senv envs client lk view"
    and client: "client = \<lparr>hc_relay_url = li_relay_url l, hc_insecure_skip_verify = li_insecure_skip_verify l\<rparr>" "li_http_client l = None"
    and siwe: "siwe_works (envs (k + 1)) (envs (k + 2)) (se_crypto senv) (li_identity l)"
    and who: "who = sdk_registrant senv client (li_identity l) (li_udp_enabled l) (li_tcp_enabled l)" "rt_address who \<noteq> []"
      "length (rt_name who) < 256" "length (rt_address who) < 96" "transport_failure (server_root st) False who = None"
    and l: "li_multi_hop l = []" "li_lease_ttl_sec l = 300" "ae_now (envs (k + 2)) < ae_now (envs (k + 1)) + 300"
    and store: "length (ap_challenges st) = MAX_REGISTER_CHALLENGES" "fresh_id (challenge_id_of (envs (k + 1))) (ap_challenges st)"
    and tok: "fresh_token (envs (k + 2)) (rt_name who) (rt_address who) 300 = Some token"
    and now: "0 \<le> ae_now (envs (k + 2)) + 300" "ae_now (envs (k + 2)) + 300 < 253402300800"
    and port: "\<bar>ae_sni_port (envs (k + 2))\<bar> \<le> 2 ^ 31 - 1"
    and host: "host = derive_hostname (server_root st) (rt_name who) (rt_address who) 256" "length host < 248"
  shows "\<exists>st' l'. register_and_configure senv (fst (lk_versions lk)) build_tls l (k, st) = ((k + 3, st'), l', True) \<and>
    portillia_listener_public_url l' = Some (''https://'' @ host) \<and>
    map_option le_access_token (li_lease l') = Some (Some token) \<and> map_option le_expires_at (li_lease l') = Some (ae_now (envs (k + 2)) + 300) \<and>
    li_relay_set l' = map_option (\<lambda>rset. portillia_relay_set_confirm_url (se_table senv) rset (li_relay_url l)) (li_relay_set l) \<and>
    lease_entered host (rt_address who) (ae_now (envs (k + 2))) (ap_server st) (ap_server st')"
proof -
  have e: "envs (k + 2) = envs (k + 1 + 1)" by (simp add: numeral_2_eq_2)
  obtain st' resp where r: "portillia_api_register_lease senv client (li_identity l) (Some (li_metadata l)) (li_relay_set l) [] 300
      (li_udp_enabled l) (li_tcp_enabled l) (k + 1, st) = ((k + 1 + 2, st'), Inr (resp, []))"
    and resp: "rr_hostname resp = host" "rr_access_token resp = token" "rr_expires_at resp = ae_now (envs (k + 2)) + 300"
      "lease_entered (rr_hostname resp) (rt_address who) (ae_now (envs (k + 2))) (ap_server st) (ap_server st')"
    using register_over_relay [OF con siwe [unfolded e] who _ _ l(3) [unfolded e] store tok [unfolded e] now [unfolded e] port [unfolded e],
        of "Some (li_metadata l)" "li_relay_set l"] unfolding e host(1) by auto
  have "register_and_configure senv (fst (lk_versions lk)) build_tls l (k, st) =
      ((k + 3, st'), (set_lease (Some (lease_of_response resp [] (build_tls (keyless_url_of (li_relay_url l) resp) host token
          (li_insecure_skip_verify l)))) (l\<lparr>li_http_client := Some client\<rparr>))
        \<lparr>li_relay_set := map_option (\<lambda>rset. portillia_relay_set_confirm_url (se_table senv) rset (li_relay_url l)) (li_relay_set l)\<rparr>, True)"
    using r resp(1,2) domain_over_relay [OF con, of k st]
    by (simp add: register_and_configure_def Let_def client(2) client(1) [symmetric] l(1,2) numeral_3_eq_3)
  then show ?thesis
    using resp host(2)
    by (simp add: portillia_listener_public_url_def portillia_listener_lease_snapshot_def set_lease_def lease_of_response_def)
qed


section \<open>Defects of the reverse session\<close>

text \<open>The status is looked for anywhere in the head, so that a refusal with the right words in a header counts as accepted.\<close>

lemma refusal_counts_as_accepted:
  "response_accepts (''HTTP/1.1 403 Forbidden'' @ crlf @ ''X-Quota: 200 left'' @ crlf @ crlf)"
  by code_simp

text \<open>An explicit port 443 of a relay reached without TLS is replaced by 80.\<close>

lemma explicit_443_becomes_80: "parse_relay_host_port ''http://relay:443'' = Some (''relay'', 80)"
  by code_simp

text \<open>A session that the relay accepted and that then failed, such as one with a handshake that broke off, is opened again without a pause and
  without counting as a failure.\<close>

lemma broken_session_reopens_at_once:
  assumes "open_reverse_session dial l = (Inr (fd, outer, rest), gone)" "reverse_turn dial env retries l = Some (l', retries', gone', pause)"
  shows "pause = None \<and> retries' = 0"
  using assms by (auto simp: reverse_turn_def split: option.splits prod.splits session_end.splits)

section \<open>Samples\<close>

definition sample_args :: listener_args where
  "sample_args = \<lparr>la_url = ''https://r.io'', la_identity = toy_identity, la_metadata = portillia_lease_metadata_init, la_multi_hop = [],
     la_udp_enabled = False, la_tcp_enabled = False, la_retry_count = 0, la_insecure_skip_verify = False\<rparr>"

theorem close_hangs_while_serving_witness:
  "\<not> listener_reach False (listener_init\<lparr>lt_run := Run_blocked, lt_workers := 3\<rparr>)
      (listener_init\<lparr>lt_cancelled := True, lt_run := Run_stopped, lt_close := Close_returned\<rparr>)"
proof -
  let ?t = "\<lambda>pc. listener_init\<lparr>lt_run := pc\<rparr>"
  have "listener_step False listener_init (?t Run_register)"
    using loop_top [of listener_init False] by (simp add: listener_init_def)
  moreover have "listener_step False (?t Run_register) (?t Run_start)"
    using registered [of "?t Run_register" False] by simp
  moreover have "listener_step False (?t Run_start) (?t Run_check\<lparr>lt_workers := 3\<rparr>)"
    using start_workers [of "?t Run_start" 3 False] by (simp add: listener_init_def)
  moreover have "listener_step False (?t Run_check\<lparr>lt_workers := 3\<rparr>) (?t Run_blocked\<lparr>lt_workers := 3\<rparr>)"
    using check [of "?t Run_check\<lparr>lt_workers := 3\<rparr>" False] by (simp add: listener_init_def)
  ultimately have "listener_reach False listener_init (?t Run_blocked\<lparr>lt_workers := 3\<rparr>)" by (meson rtranclp.rtrancl_into_rtrancl rtranclp.rtrancl_refl)
  with close_hangs_while_serving [OF this] show ?thesis by auto
qed


definition sample_listener :: "((cstring \<times> portillia_relay_state) list, unit) portillia_listener" where
  "sample_listener = the (portillia_listener_new True None None sample_args)"

lemma sample_new: "portillia_listener_new True None None sample_args = Some sample_listener"
  by (simp add: sample_listener_def portillia_listener_new_def)

lemma sample_fields [simp]:
  "li_relay_url sample_listener = ''https://r.io''" "li_insecure_skip_verify sample_listener = False" "li_http_client sample_listener = None"
  "li_identity sample_listener = toy_identity" "li_udp_enabled sample_listener = False" "li_tcp_enabled sample_listener = False"
  "li_multi_hop sample_listener = []" "li_lease_ttl_sec sample_listener = 300" "li_relay_set sample_listener = None"
  by (simp_all add: sample_listener_def portillia_listener_new_def sample_args_def DEFAULT_LEASE_TTL_SEC_def)

lemma sample_hypotheses:
  "transport_failure (server_root sample_state) False (sdk_registrant toy_sdk toy_client toy_identity False False) = None"
  "length (ap_challenges sample_state) = MAX_REGISTER_CHALLENGES" "fresh_id cid (ap_challenges sample_state)"
  "fresh_token toy_api ''app'' toy_address 300 = Some ''tok''" "derive_hostname (server_root sample_state) ''app'' toy_address 256 = ''app.r.io''"
  "length toy_address = 42" "toy_address \<noteq> []"
proof -
  show "derive_hostname (server_root sample_state) ''app'' toy_address 256 = ''app.r.io''"
    unfolding server_root_def sample_state_def toy_address_def by code_simp
qed (simp_all add: toy_registrant toy_address_def transport_failure_def sample_state_def register_challenge_store_init_def fresh_id_def
    zero_challenge_def fresh_token_def portillia_issue_lease_token_def sample_bridge_def sample_keys_def str_member_def)


lemma sample_configured:
  "\<exists>st' l'. register_and_configure toy_sdk ''1'' (\<lambda>_ _ _ _. True) sample_listener (0, sample_state) = ((3, st'), l', True)"
  using configured_over_relay [where l = sample_listener and k = 0 and st = sample_state and build_tls = "\<lambda>_ _ _ _. True" and token = "''tok''",
      OF toy_connected _ _ _ refl _ _ _ _ _ _ _ _ _ _ _ _ _ refl]
    toy_siwe sample_hypotheses
  by (simp add: toy_registrant toy_link_def) (auto simp: toy_client_def)

theorem registers_when_accepted_witness:
  "\<exists>w' l'. register_loop toy_sdk ''1'' (\<lambda>_ _ _ _. True) [False] 0 sample_listener (0, sample_state) = (w', l', [], True)"
proof -
  have "attempt_accepted toy_sdk ''1'' (\<lambda>_ _ _ _. True) (attempts toy_sdk ''1'' (\<lambda>_ _ _ _. True) 0 ((0, sample_state), sample_listener))"
    using sample_configured by (auto simp: attempt_accepted_def)
  from registers_when_accepted [OF sample_new this] show ?thesis by (auto simp del: register_loop.simps)
qed

end
