(* ===== verification/Proxy_Bridge.thy ===== *)
theory Proxy_Bridge
  imports Hello_Capture Cjson "HOL-Library.Sublist"
begin

text \<open>
  The bridges of \<^verbatim>\<open>src/portal/proxy.c\<close>: copying between two descriptors with \<open>splice\<close> or through user space, copying between a descriptor and
  a TLS connection, throttling, the counters, and the two directions of a bridge.

  What the system calls return is given as two lists, one for the source and one for the destination; a copy that uses up a list is
  still waiting, which is the result \<open>None\<close>. A chunk is what one read returns, at most 64 KiB. Rounding of doubles is a parameter
  of the throttle. The threads of the TLS bridge are taken to start: the code does not look whether they did.
\<close>

section \<open>System calls and counters\<close>

datatype read_event = Got "byte list" | Read_intr | Read_einval | Read_end

datatype write_event = Wrote nat | Write_intr | Write_failed

text \<open>\<open>cs_reg\<close> and \<open>cs_cap\<close> are the bindings and the capture of the ClientHello, if there is one; \<open>cs_counted\<close> is what the copy added to the
  total of all bytes; \<open>cs_sleeps\<close> are the pauses in microseconds, \<open>None\<close> where the number does not fit the 32 bits of
  \<open>useconds_t\<close> and the conversion is undefined.\<close>

record copy_state =
  cs_reg :: portillia_binding_registry
  cs_cap :: "hello_capture option"
  cs_delivered :: "byte list"
  cs_counted :: nat
  cs_sleeps :: "int option list"

definition bytes_per_sec :: "int \<Rightarrow> int" where
  "bytes_per_sec bps_limit = (if bps_limit > 0 then bps_limit div 8 else 0)"

definition sleep_usec :: "(real \<Rightarrow> real) \<Rightarrow> nat \<Rightarrow> int \<Rightarrow> int option" where
  "sleep_usec rnd n rate =
     (let t = \<lfloor>rnd (rnd (real n / real_of_int rate) * 1000000)\<rfloor> in if t < 2 ^ 32 then Some t else None)"

text \<open>The end of a chunk: it is counted, and with a limit the thread sleeps.\<close>

definition ssl_sleep_for_bytes :: "(real \<Rightarrow> real) \<Rightarrow> nat \<Rightarrow> int \<Rightarrow> copy_state \<Rightarrow> copy_state" where
  "ssl_sleep_for_bytes rnd n rate st = (if rate > 0 then st\<lparr>cs_sleeps := cs_sleeps st @ [sleep_usec rnd n rate]\<rparr> else st)"

definition account :: "(real \<Rightarrow> real) \<Rightarrow> nat \<Rightarrow> int \<Rightarrow> copy_state \<Rightarrow> copy_state" where
  "account rnd n rate st = ssl_sleep_for_bytes rnd n rate (st\<lparr>cs_counted := cs_counted st + n\<rparr>)"

section \<open>Copying\<close>

text \<open>Writing the rest of a chunk: an interrupted call is repeated, one that writes nothing or fails ends the copy. With TLS, \<open>Write_intr\<close> is
  a call that has to be repeated. The result tells what was written and whether all of it was.\<close>

fun write_loop :: "write_event list \<Rightarrow> byte list \<Rightarrow> (byte list \<times> bool \<times> write_event list) option" where
  "write_loop ws [] = Some ([], True, ws)"
| "write_loop [] (b # bs) = None"
| "write_loop (Write_intr # ws) (b # bs) = write_loop ws (b # bs)"
| "write_loop (Write_failed # ws) (b # bs) = Some ([], False, ws)"
| "write_loop (Wrote k # ws) (b # bs) =
     (if k = 0 then Some ([], False, ws)
      else map_option (\<lambda>(out, ok, ws'). (take k (b # bs) @ out, ok, ws')) (write_loop ws (drop k (b # bs))))"

text \<open>The loop with \<open>splice\<close>. The flag of the result says whether the source does not support it; an error of the destination just ends
  the loop.\<close>

fun splice_loop ::
  "(real \<Rightarrow> real) \<Rightarrow> int \<Rightarrow> read_event list \<Rightarrow> write_event list \<Rightarrow> copy_state \<Rightarrow>
   (bool \<times> read_event list \<times> write_event list \<times> copy_state) option" where
  "splice_loop rnd rate [] ws st = None"
| "splice_loop rnd rate (Read_intr # rs) ws st = splice_loop rnd rate rs ws st"
| "splice_loop rnd rate (Read_einval # rs) ws st = Some (True, rs, ws, st)"
| "splice_loop rnd rate (Read_end # rs) ws st = Some (False, rs, ws, st)"
| "splice_loop rnd rate (Got data # rs) ws st =
     (if data = [] then Some (False, rs, ws, st)
      else case write_loop ws data of
        None \<Rightarrow> None
      | Some (out, ok, ws') \<Rightarrow>
          let st' = st\<lparr>cs_delivered := cs_delivered st @ out\<rparr>
          in if \<not> ok then Some (False, rs, ws', st')
             else splice_loop rnd rate rs ws' (account rnd (length data) rate st'))"

text \<open>The capture around a write: \<open>None\<close> where it is undefined, \<open>False\<close> where it refuses the chunk.\<close>

definition before_write ::
  "(byte list \<Rightarrow> byte list) \<Rightarrow> timespec \<Rightarrow> byte list \<Rightarrow> copy_state \<Rightarrow> (copy_state \<times> bool) option" where
  "before_write sha256 now data st =
     (case cs_cap st of
        None \<Rightarrow> Some (st, True)
      | Some cap \<Rightarrow>
          map_option (\<lambda>(reg, cap', ok). (st\<lparr>cs_reg := reg, cs_cap := Some cap'\<rparr>, ok)) (capture_on_write sha256 (cs_reg st) cap data now))"

definition after_write ::
  "(byte list \<Rightarrow> byte list) \<Rightarrow> timespec \<Rightarrow> byte list \<Rightarrow> copy_state \<Rightarrow> copy_state option" where
  "after_write sha256 now data st =
     (case cs_cap st of
        None \<Rightarrow> Some st
      | Some cap \<Rightarrow>
          map_option (\<lambda>(reg, cap'). st\<lparr>cs_reg := reg, cs_cap := Some cap'\<rparr>) (capture_after_write sha256 (cs_reg st) cap data now))"

text \<open>The loop through user space; here an interrupted read ends the copy like any other error.\<close>

fun read_loop ::
  "(byte list \<Rightarrow> byte list) \<Rightarrow> timespec \<Rightarrow> (real \<Rightarrow> real) \<Rightarrow> int \<Rightarrow> read_event list \<Rightarrow> write_event list \<Rightarrow> copy_state \<Rightarrow> copy_state option" where
  "read_loop sha256 now rnd rate [] ws st = None"
| "read_loop sha256 now rnd rate (Got data # rs) ws st =
     (if data = [] then Some st
      else case before_write sha256 now data st of
        None \<Rightarrow> None
      | Some (st1, False) \<Rightarrow> Some st1
      | Some (st1, True) \<Rightarrow>
          (case write_loop ws data of
             None \<Rightarrow> None
           | Some (out, ok, ws') \<Rightarrow>
               let st2 = st1\<lparr>cs_delivered := cs_delivered st1 @ out\<rparr>
               in if \<not> ok then Some st2
                  else case after_write sha256 now data st2 of
                    None \<Rightarrow> None
                  | Some st3 \<Rightarrow> read_loop sha256 now rnd rate rs ws' (account rnd (length data) rate st3)))"
| "read_loop sha256 now rnd rate (e # rs) ws st = Some st"

text \<open>\<open>pipe_ok\<close> tells whether a pipe could be made.\<close>

definition splice_copy ::
  "(byte list \<Rightarrow> byte list) \<Rightarrow> timespec \<Rightarrow> (real \<Rightarrow> real) \<Rightarrow> bool \<Rightarrow> int \<Rightarrow> read_event list \<Rightarrow> write_event list \<Rightarrow> copy_state \<Rightarrow>
   copy_state option" where
  "splice_copy sha256 now rnd pipe_ok bps_limit rs ws st =
     (let rate = bytes_per_sec bps_limit
      in if cs_cap st = None \<and> pipe_ok
         then case splice_loop rnd rate rs ws st of
                None \<Rightarrow> None
              | Some (unsupported, rs', ws', st') \<Rightarrow>
                  if unsupported then read_loop sha256 now rnd rate rs' ws' st' else Some st'
         else read_loop sha256 now rnd rate rs ws st)"

text \<open>The capture is emptied when the copy ends.\<close>

definition reset_capture :: "copy_state \<Rightarrow> copy_state" where
  "reset_capture st = st\<lparr>cs_cap := map_option (\<lambda>cap. cap\<lparr>cap_acc := portillia_ch_accum_reset (cap_acc cap)\<rparr>) (cs_cap st)\<rparr>"

definition copy_thread ::
  "(byte list \<Rightarrow> byte list) \<Rightarrow> timespec \<Rightarrow> (real \<Rightarrow> real) \<Rightarrow> bool \<Rightarrow> int \<Rightarrow> read_event list \<Rightarrow> write_event list \<Rightarrow> copy_state \<Rightarrow>
   copy_state option" where
  "copy_thread sha256 now rnd pipe_ok bps_limit rs ws st = map_option reset_capture (splice_copy sha256 now rnd pipe_ok bps_limit rs ws st)"

text \<open>From the browser to a TLS session, and back. A read of the TLS engine that has to be repeated is \<open>Read_intr\<close>.\<close>

definition ssl_copy_fd_to_ssl ::
  "(byte list \<Rightarrow> byte list) \<Rightarrow> timespec \<Rightarrow> (real \<Rightarrow> real) \<Rightarrow> int \<Rightarrow> read_event list \<Rightarrow> write_event list \<Rightarrow> copy_state \<Rightarrow> copy_state option" where
  "ssl_copy_fd_to_ssl sha256 now rnd bps_limit rs ws st =
     map_option reset_capture (read_loop sha256 now rnd (bytes_per_sec bps_limit) rs ws st)"

fun ssl_read_loop :: "(real \<Rightarrow> real) \<Rightarrow> int \<Rightarrow> read_event list \<Rightarrow> write_event list \<Rightarrow> copy_state \<Rightarrow> copy_state option" where
  "ssl_read_loop rnd rate [] ws st = None"
| "ssl_read_loop rnd rate (Got data # rs) ws st =
     (if data = [] then Some st
      else case write_loop ws data of
        None \<Rightarrow> None
      | Some (out, ok, ws') \<Rightarrow>
          let st' = st\<lparr>cs_delivered := cs_delivered st @ out\<rparr>
          in if \<not> ok then Some st' else ssl_read_loop rnd rate rs ws' (account rnd (length data) rate st'))"
| "ssl_read_loop rnd rate (Read_intr # rs) ws st = ssl_read_loop rnd rate rs ws st"
| "ssl_read_loop rnd rate (e # rs) ws st = Some st"

definition ssl_copy_ssl_to_fd :: "(real \<Rightarrow> real) \<Rightarrow> int \<Rightarrow> read_event list \<Rightarrow> write_event list \<Rightarrow> copy_state \<Rightarrow> copy_state option" where
  "ssl_copy_ssl_to_fd rnd bps_limit rs ws st = ssl_read_loop rnd (bytes_per_sec bps_limit) rs ws st"

section \<open>Threads of a bridge\<close>

text \<open>The counters that the status page shows, and the sampler that looks at them every second.\<close>

record telemetry =
  tl_active_conns :: int
  tl_total_bytes :: int
  tl_last_bytes :: int
  tl_current_bps :: real

definition telemetry_sample :: "telemetry \<Rightarrow> telemetry" where
  "telemetry_sample t =
     t\<lparr>tl_current_bps := double_of_int (tl_total_bytes t - tl_last_bytes t) * 8, tl_last_bytes := tl_total_bytes t\<rparr>"

text \<open>A bridge in operation: which of its two copies are running, whose end of data has arrived where, and what has been closed or freed. The
  first direction is that from the browser.\<close>

datatype bridge_resource = Client_fd | Target_fd | Target_ssl

record bridge_state =
  bg_up :: bool
  bg_down :: bool
  bg_client_ended :: bool
  bg_tenant_ended :: bool
  bg_client_gone :: bool
  bg_tenant_gone :: bool
  bg_tenant_sees_end :: bool
  bg_client_sees_end :: bool
  bg_released :: "bridge_resource list"
  bg_telemetry :: telemetry

text \<open>Starting a plain bridge: a copy that cannot be started is left out. The counter of active connections goes up with each copy.\<close>

definition bridge_thread_start :: "bool \<Rightarrow> bool \<Rightarrow> telemetry \<Rightarrow> bridge_state" where
  "bridge_thread_start started1 started2 t =
     \<lparr>bg_up = started1, bg_down = started2, bg_client_ended = False, bg_tenant_ended = False, bg_client_gone = False,
      bg_tenant_gone = False, bg_tenant_sees_end = False, bg_client_sees_end = False, bg_released = [],
      bg_telemetry = t\<lparr>tl_active_conns := tl_active_conns t + of_bool started1 + of_bool started2\<rparr>\<rparr>"

text \<open>A copy of a plain bridge ends: the counter goes down, the destination is told that there is no more data.\<close>

definition copy_thread_up_end :: "bridge_state \<Rightarrow> bridge_state" where
  "copy_thread_up_end b = b\<lparr>bg_up := False, bg_tenant_sees_end := True,
     bg_telemetry := (bg_telemetry b)\<lparr>tl_active_conns := tl_active_conns (bg_telemetry b) - 1\<rparr>\<rparr>"

definition copy_thread_down_end :: "bridge_state \<Rightarrow> bridge_state" where
  "copy_thread_down_end b = b\<lparr>bg_down := False, bg_client_sees_end := True,
     bg_telemetry := (bg_telemetry b)\<lparr>tl_active_conns := tl_active_conns (bg_telemetry b) - 1\<rparr>\<rparr>"

definition ssl_bridge_thread_start :: "telemetry \<Rightarrow> bridge_state" where
  "ssl_bridge_thread_start t =
     \<lparr>bg_up = True, bg_down = True, bg_client_ended = False, bg_tenant_ended = False, bg_client_gone = False,
      bg_tenant_gone = False, bg_tenant_sees_end = False, bg_client_sees_end = False, bg_released = [], bg_telemetry = t\<rparr>"

text \<open>With TLS only the reading side of the browser is shut when its data ends; nothing is sent to the tenant.\<close>

definition ssl_copy_up_end :: "bridge_state \<Rightarrow> bridge_state" where
  "ssl_copy_up_end b = b\<lparr>bg_up := False\<rparr>"

definition ssl_copy_down_end :: "bridge_state \<Rightarrow> bridge_state" where
  "ssl_copy_down_end b = b\<lparr>bg_down := False, bg_client_sees_end := True\<rparr>"

text \<open>When both copies have been joined the descriptors are closed, or the TLS connection shut down and freed.\<close>

definition bridge_thread_finish :: "bridge_state \<Rightarrow> bridge_state" where
  "bridge_thread_finish b = b\<lparr>bg_released := bg_released b @ [Client_fd, Target_fd], bg_client_sees_end := True, bg_tenant_sees_end := True\<rparr>"

definition ssl_bridge_thread_finish :: "bridge_state \<Rightarrow> bridge_state" where
  "ssl_bridge_thread_finish b = b\<lparr>bg_released := bg_released b @ [Target_ssl, Client_fd], bg_client_sees_end := True, bg_tenant_sees_end := True\<rparr>"

text \<open>Starting the thread of a bridge; without one everything is released at once.\<close>

definition portillia_proxy_bridge_bound :: "bool \<Rightarrow> bool \<times> bool \<Rightarrow> telemetry \<Rightarrow> bridge_state" where
  "portillia_proxy_bridge_bound created started t =
     (if created then bridge_thread_start (fst started) (snd started) t
      else bridge_thread_finish (bridge_thread_start False False t))"

definition portillia_proxy_ssl_bridge_bound :: "bool \<Rightarrow> telemetry \<Rightarrow> bridge_state" where
  "portillia_proxy_ssl_bridge_bound created t =
     (if created then ssl_bridge_thread_start t
      else ssl_bridge_thread_finish ((ssl_bridge_thread_start t)\<lparr>bg_up := False, bg_down := False\<rparr>))"

text \<open>The steps of a bridge and who takes them. Each peer may stop sending, or leave, at any time. A copy ends when its source has ended;
  it also ends when its source sends data that a destination which has left no longer takes, so this step is one of the source.\<close>

datatype bridge_actor = By_bridge | By_client | By_tenant

inductive bridge_step :: "bool \<Rightarrow> bridge_actor \<Rightarrow> bridge_state \<Rightarrow> bridge_state \<Rightarrow> bool" for tls :: bool where
  client_ends: "\<not> bg_client_ended b \<Longrightarrow> bridge_step tls By_client b (b\<lparr>bg_client_ended := True\<rparr>)"
| client_leaves: "\<not> bg_client_gone b \<Longrightarrow> bridge_step tls By_client b (b\<lparr>bg_client_ended := True, bg_client_gone := True\<rparr>)"
| tenant_ends: "\<not> bg_tenant_ended b \<Longrightarrow> bridge_step tls By_tenant b (b\<lparr>bg_tenant_ended := True\<rparr>)"
| tenant_leaves: "\<not> bg_tenant_gone b \<Longrightarrow> bridge_step tls By_tenant b (b\<lparr>bg_tenant_ended := True, bg_tenant_gone := True\<rparr>)"
| up_ends: "bg_up b \<Longrightarrow> bg_client_ended b \<Longrightarrow>
    bridge_step tls By_bridge b (if tls then ssl_copy_up_end b else copy_thread_up_end b)"
| up_fails: "bg_up b \<Longrightarrow> bg_tenant_gone b \<Longrightarrow> \<not> bg_client_ended b \<Longrightarrow>
    bridge_step tls By_client b (if tls then ssl_copy_up_end b else copy_thread_up_end b)"
| down_ends: "bg_down b \<Longrightarrow> bg_tenant_ended b \<Longrightarrow>
    bridge_step tls By_bridge b (if tls then ssl_copy_down_end b else copy_thread_down_end b)"
| down_fails: "bg_down b \<Longrightarrow> bg_client_gone b \<Longrightarrow> \<not> bg_tenant_ended b \<Longrightarrow>
    bridge_step tls By_tenant b (if tls then ssl_copy_down_end b else copy_thread_down_end b)"
| finishes: "\<not> bg_up b \<Longrightarrow> \<not> bg_down b \<Longrightarrow> bg_released b = [] \<Longrightarrow>
    bridge_step tls By_bridge b (if tls then ssl_bridge_thread_finish b else bridge_thread_finish b)"

inductive_cases bridge_stepE: "bridge_step tls a b b'"

inductive bridge_run :: "bool \<Rightarrow> bridge_state \<Rightarrow> bridge_state \<Rightarrow> bool" for tls :: bool and b0 :: bridge_state where
  bridge_start: "bridge_run tls b0 b0"
| bridge_next: "bridge_run tls b0 b \<Longrightarrow> bridge_step tls a b b' \<Longrightarrow> bridge_run tls b0 b'"

section \<open>What a copy delivers\<close>

text \<open>What a source offers up to its end, with \<open>splice\<close> and without; whether its events reach that end; destinations that do not fail, and
  how many calls of them write something.\<close>

fun source_data :: "bool \<Rightarrow> read_event list \<Rightarrow> byte list" where
  "source_data sp [] = []"
| "source_data sp (Got data # rs) = (if data = [] then [] else data @ source_data sp rs)"
| "source_data sp (Read_intr # rs) = (if sp then source_data sp rs else [])"
| "source_data sp (Read_einval # rs) = (if sp then source_data False rs else [])"
| "source_data sp (Read_end # rs) = []"

fun source_ends :: "bool \<Rightarrow> read_event list \<Rightarrow> bool" where
  "source_ends sp [] = False"
| "source_ends sp (Got data # rs) = (data = [] \<or> source_ends sp rs)"
| "source_ends sp (Read_intr # rs) = (sp \<longrightarrow> source_ends sp rs)"
| "source_ends sp (Read_einval # rs) = (sp \<longrightarrow> source_ends False rs)"
| "source_ends sp (Read_end # rs) = True"

definition working :: "write_event list \<Rightarrow> bool" where
  "working ws \<longleftrightarrow> Write_failed \<notin> set ws \<and> Wrote 0 \<notin> set ws"

definition writes :: "write_event list \<Rightarrow> nat" where
  "writes ws = length (filter (\<lambda>w. w \<noteq> Write_intr) ws)"

lemma working_simps [simp]:
  "working []" "working (w # ws) \<longleftrightarrow> w \<noteq> Write_failed \<and> w \<noteq> Wrote 0 \<and> working ws"
  by (auto simp: working_def)

lemma writes_simps [simp]: "writes [] = 0" "writes (w # ws) = (if w = Write_intr then writes ws else Suc (writes ws))"
  by (auto simp: writes_def)

lemma write_loop_prefix: "write_loop ws bs = Some (out, ok, ws') \<Longrightarrow> prefix out bs \<and> (ok \<longrightarrow> out = bs)"
proof (induction ws bs arbitrary: out ok ws' rule: write_loop.induct)
  case (5 k ws b bs)
  show ?case
  proof (cases "k = 0")
    case False
    then obtain out1 where o: "write_loop ws (drop k (b # bs)) = Some (out1, ok, ws')" "out = take k (b # bs) @ out1"
      using 5(2) by auto
    then show ?thesis
      using 5(1) [OF False o(1)] by (metis append_take_drop_id same_prefix_prefix)
  qed (use 5(2) in auto)
qed auto

lemma write_loop_complete:
  "working ws \<Longrightarrow> length bs \<le> writes ws \<Longrightarrow>
   \<exists>ws'. write_loop ws bs = Some (bs, True, ws') \<and> working ws' \<and> writes ws - length bs \<le> writes ws'"
proof (induction ws bs rule: write_loop.induct)
  case (5 k ws b bs)
  have "k \<noteq> 0" "working ws" "length (drop k (b # bs)) \<le> writes ws" using 5(2,3) by auto
  then show ?case using 5(1) by (fastforce simp: append_take_drop_id)
qed auto

lemma account_simps [simp]:
  "cs_delivered (account rnd n rate st) = cs_delivered st" "cs_counted (account rnd n rate st) = cs_counted st + n"
  "cs_cap (account rnd n rate st) = cs_cap st" "cs_reg (account rnd n rate st) = cs_reg st"
  "cs_sleeps (account rnd n rate st) = cs_sleeps st @ (if rate > 0 then [sleep_usec rnd n rate] else [])"
  by (simp_all add: account_def ssl_sleep_for_bytes_def)

lemma capture_keeps_copy:
  "before_write sha256 now data st = Some (st', ok) \<Longrightarrow>
     cs_delivered st' = cs_delivered st \<and> cs_counted st' = cs_counted st \<and> cs_sleeps st' = cs_sleeps st"
  "after_write sha256 now data st = Some st' \<Longrightarrow>
     cs_delivered st' = cs_delivered st \<and> cs_counted st' = cs_counted st \<and> cs_sleeps st' = cs_sleeps st"
  by (auto simp: before_write_def after_write_def split: option.splits)

lemma uncaptured [simp]:
  "cs_cap st = None \<Longrightarrow> before_write sha256 now data st = Some (st, True)"
  "cs_cap st = None \<Longrightarrow> after_write sha256 now data st = Some st"
  by (simp_all add: before_write_def after_write_def)

text \<open>Total correctness of the three loops against a destination that takes everything.\<close>

lemma read_loop_complete:
  "cs_cap st = None \<Longrightarrow> working ws \<Longrightarrow> source_ends False rs \<Longrightarrow> length (source_data False rs) \<le> writes ws \<Longrightarrow>
   \<exists>st'. read_loop sha256 now rnd rate rs ws st = Some st' \<and> cs_delivered st' = cs_delivered st @ source_data False rs \<and>
     cs_counted st' = cs_counted st + length (source_data False rs)"
proof (induction rs arbitrary: ws st)
  case (Cons e rs)
  show ?case
  proof (cases e)
    case (Got data)
    show ?thesis
    proof (cases "data = []")
      case False
      then obtain ws' where w: "write_loop ws data = Some (data, True, ws')" "working ws'" "writes ws - length data \<le> writes ws'"
        using write_loop_complete [OF Cons.prems(2), of data] Cons.prems(4) Got by auto
      have "length (source_data False rs) \<le> writes ws'" using Cons.prems(4) Got False w(3) by auto
      then show ?thesis
        using Cons.IH [of "account rnd (length data) rate (st\<lparr>cs_delivered := cs_delivered st @ data\<rparr>)" ws'] Cons.prems(1,3) False Got w(1,2)
        by (auto simp: Let_def add.assoc)
    qed (use Got in auto)
  qed auto
qed simp

lemma splice_loop_complete:
  "working ws \<Longrightarrow> source_ends True rs \<Longrightarrow> length (source_data True rs) \<le> writes ws \<Longrightarrow>
   \<exists>unsupported rs' ws' st' out. splice_loop rnd rate rs ws st = Some (unsupported, rs', ws', st') \<and>
     cs_cap st' = cs_cap st \<and> cs_delivered st' = cs_delivered st @ out \<and> cs_counted st' = cs_counted st + length out \<and>
     source_data True rs = out @ (if unsupported then source_data False rs' else []) \<and>
     (unsupported \<longrightarrow> source_ends False rs' \<and> working ws' \<and> length (source_data False rs') \<le> writes ws')"
proof (induction rs arbitrary: ws st)
  case (Cons e rs)
  show ?case
  proof (cases e)
    case (Got data)
    show ?thesis
    proof (cases "data = []")
      case False
      then obtain ws' where w: "write_loop ws data = Some (data, True, ws')" "working ws'" "writes ws - length data \<le> writes ws'"
        using write_loop_complete [OF Cons.prems(1), of data] Cons.prems(3) Got by auto
      have "source_ends True rs" "length (source_data True rs) \<le> writes ws'" using Cons.prems(2,3) False Got w(3) by auto
      then obtain u rs' ws2 st' out where
        "splice_loop rnd rate rs ws' (account rnd (length data) rate (st\<lparr>cs_delivered := cs_delivered st @ data\<rparr>)) = Some (u, rs', ws2, st')"
        "cs_cap st' = cs_cap st" "cs_delivered st' = cs_delivered st @ data @ out" "cs_counted st' = cs_counted st + length data + length out"
        "source_data True rs = out @ (if u then source_data False rs' else [])"
        "u \<longrightarrow> source_ends False rs' \<and> working ws2 \<and> length (source_data False rs') \<le> writes ws2"
        using Cons.IH [OF w(2), of "account rnd (length data) rate (st\<lparr>cs_delivered := cs_delivered st @ data\<rparr>)"] by auto
      then show ?thesis using False Got w(1) by (intro exI [of _ u] exI [of _ rs'] exI [of _ ws2] exI [of _ st'] exI [of _ "data @ out"]) (simp add: Let_def)
    qed (use Got in auto)
  qed (use Cons in \<open>auto\<close>)
qed simp

text \<open>Whatever the destination does, what it gets is the beginning of what the source offered, in order.\<close>

lemma read_loop_prefix:
  "read_loop sha256 now rnd rate rs ws st = Some st' \<Longrightarrow>
   \<exists>out. cs_delivered st' = cs_delivered st @ out \<and> prefix out (source_data False rs) \<and> cs_counted st' \<le> cs_counted st + length out"
proof (induction rs arbitrary: ws st)
  case (Cons e rs)
  show ?case
  proof (cases e)
    case (Got data)
    show ?thesis
    proof (cases "data = []")
      case False
      then obtain st1 ok where b: "before_write sha256 now data st = Some (st1, ok)"
        using Cons.prems Got by (auto split: option.splits)
      show ?thesis
      proof (cases ok)
        case True
        then obtain out ok2 ws' where w: "write_loop ws data = Some (out, ok2, ws')"
          using Cons.prems Got False b by (auto split: option.splits)
        note pre = write_loop_prefix [OF w]
        define st2 where "st2 = st1\<lparr>cs_delivered := cs_delivered st1 @ out\<rparr>"
        have st2: "cs_delivered st2 = cs_delivered st @ out" "cs_counted st2 = cs_counted st"
          using capture_keeps_copy(1) [OF b] by (simp_all add: st2_def)
        show ?thesis
        proof (cases ok2)
          case True
          then obtain st3 where a: "after_write sha256 now data st2 = Some st3"
            using Cons.prems Got False b \<open>ok\<close> w by (auto simp: Let_def st2_def split: option.splits)
          have "read_loop sha256 now rnd rate rs ws' (account rnd (length data) rate st3) = Some st'"
            using Cons.prems Got False b \<open>ok\<close> w a True by (simp add: Let_def st2_def)
          then obtain out2 where "cs_delivered st' = cs_delivered st3 @ out2" "prefix out2 (source_data False rs)"
            "cs_counted st' \<le> cs_counted st3 + length data + length out2"
            using Cons.IH by fastforce
          then show ?thesis
            using capture_keeps_copy(2) [OF a] st2 pre True False Got by (intro exI [of _ "data @ out2"]) auto
        next
          case False
          then have "st' = st2" using Cons.prems Got \<open>data \<noteq> []\<close> b \<open>ok\<close> w by (simp add: Let_def st2_def)
          then show ?thesis using st2 pre \<open>data \<noteq> []\<close> Got by (intro exI [of _ out]) (auto simp: prefix_def)
        qed
      next
        case no: False
        then show ?thesis using Cons.prems Got False b capture_keeps_copy(1) [OF b] by auto
      qed
    qed (use Cons.prems Got in auto)
  qed (use Cons.prems in auto)
qed simp

lemma splice_loop_prefix:
  "splice_loop rnd rate rs ws st = Some (unsupported, rs', ws', st') \<Longrightarrow>
   \<exists>out. cs_delivered st' = cs_delivered st @ out \<and> cs_counted st' \<le> cs_counted st + length out \<and>
     (if unsupported then source_data True rs = out @ source_data False rs' else prefix out (source_data True rs))"
proof (induction rs arbitrary: ws st)
  case (Cons e rs)
  show ?case
  proof (cases e)
    case (Got data)
    show ?thesis
    proof (cases "data = []")
      case False
      obtain out ok ws1 where w: "write_loop ws data = Some (out, ok, ws1)"
        using Cons.prems Got False by (auto split: option.splits)
      define st1 where "st1 = st\<lparr>cs_delivered := cs_delivered st @ out\<rparr>"
      note pre = write_loop_prefix [OF w]
      show ?thesis
      proof (cases ok)
        case True
        then have "splice_loop rnd rate rs ws1 (account rnd (length data) rate st1) = Some (unsupported, rs', ws', st')"
          using Cons.prems Got False w by (simp add: Let_def st1_def)
        from Cons.IH [OF this] obtain out2 where "cs_delivered st' = cs_delivered st @ data @ out2"
          "cs_counted st' \<le> cs_counted st + length data + length out2"
          "if unsupported then source_data True rs = out2 @ source_data False rs' else prefix out2 (source_data True rs)"
          using pre True by (auto simp: st1_def)
        then show ?thesis using Got False by (intro exI [of _ "data @ out2"]) (simp split: if_splits)
      next
        case no: False
        then have "st' = st1" "\<not> unsupported" using Cons.prems Got False w by (auto simp: Let_def st1_def)
        then show ?thesis using Got False pre by (intro exI [of _ out]) (auto simp: st1_def prefix_def)
      qed
    qed (use Cons.prems Got in auto)
  qed (use Cons in \<open>simp_all split del: if_split cong: if_cong\<close>)
qed simp

lemma ssl_read_loop_splice:
  "Read_einval \<notin> set rs \<Longrightarrow>
   ssl_read_loop rnd rate rs ws st = map_option (\<lambda>(_, _, _, st'). st') (splice_loop rnd rate rs ws st)"
proof (induction rs arbitrary: ws st)
  case (Cons e rs)
  then show ?case by (cases e) (auto simp: Let_def split: option.splits)
qed simp

text \<open>C25. A bridge copies a stream, not just some of its bytes. Whatever the two sockets do, with \<open>splice\<close>, through user space or with a
  change from one to the other in between, and with or without a ClientHello being captured, what the destination receives is
  a prefix of what the source offered until its end, each byte once and in order, and no more bytes are counted than were delivered.\<close>

theorem copy_delivers_prefix:
  assumes "copy_thread sha256 now rnd pipe_ok bps_limit rs ws st = Some st'"
  shows "\<exists>out. cs_delivered st' = cs_delivered st @ out \<and>
    prefix out (source_data (cs_cap st = None \<and> pipe_ok) rs) \<and> cs_counted st' \<le> cs_counted st + length out"
proof -
  obtain st1 where c: "splice_copy sha256 now rnd pipe_ok bps_limit rs ws st = Some st1" "st' = reset_capture st1"
    using assms by (auto simp: copy_thread_def)
  let ?rate = "bytes_per_sec bps_limit"
  have "\<exists>out. cs_delivered st1 = cs_delivered st @ out \<and>
    prefix out (source_data (cs_cap st = None \<and> pipe_ok) rs) \<and> cs_counted st1 \<le> cs_counted st + length out"
  proof (cases "cs_cap st = None \<and> pipe_ok")
    case True
    then obtain u rs' ws' st2 where l: "splice_loop rnd ?rate rs ws st = Some (u, rs', ws', st2)"
      and e: "if u then read_loop sha256 now rnd ?rate rs' ws' st2 = Some st1 else st1 = st2"
      using c(1) by (auto simp: splice_copy_def Let_def split: option.splits if_splits)
    from splice_loop_prefix [OF l] obtain out where o: "cs_delivered st2 = cs_delivered st @ out" "cs_counted st2 \<le> cs_counted st + length out"
      "if u then source_data True rs = out @ source_data False rs' else prefix out (source_data True rs)" by blast
    show ?thesis
    proof (cases u)
      case u: True
      then obtain out2 where "cs_delivered st1 = cs_delivered st2 @ out2" "prefix out2 (source_data False rs')"
        "cs_counted st1 \<le> cs_counted st2 + length out2" using read_loop_prefix e by fastforce
      then show ?thesis using o u True by (intro exI [of _ "out @ out2"]) auto
    qed (use o e True in auto)
  next
    case False
    then have "read_loop sha256 now rnd ?rate rs ws st = Some st1" using c(1) by (auto simp: splice_copy_def Let_def)
    moreover have "(cs_cap st = None \<and> pipe_ok) = False" using False by blast
    ultimately show ?thesis using read_loop_prefix [of sha256 now rnd ?rate rs ws st st1] by (simp only: simp_thms)
  qed
  then show ?thesis using c(2) by (simp add: reset_capture_def)
qed

text \<open>C5. The copy is complete and it ends: without a ClientHello to capture, once the source has ended and the destination has taken
  as many calls as there are bytes, however little each of them wrote and however often it was interrupted, the
  thread has returned, everything the source offered has been delivered, and the counter has gone up by exactly that many bytes. This
  covers a kernel that refuses to splice these descriptors after any number of chunks.\<close>

theorem copy_delivers_everything:
  assumes "cs_cap st = None" "working ws" "source_ends pipe_ok rs" "length (source_data pipe_ok rs) \<le> writes ws"
  shows "\<exists>st'. copy_thread sha256 now rnd pipe_ok bps_limit rs ws st = Some st' \<and>
    cs_delivered st' = cs_delivered st @ source_data pipe_ok rs \<and>
    cs_counted st' = cs_counted st + length (source_data pipe_ok rs)"
proof -
  let ?rate = "bytes_per_sec bps_limit"
  have "\<exists>st'. splice_copy sha256 now rnd pipe_ok bps_limit rs ws st = Some st' \<and>
    cs_delivered st' = cs_delivered st @ source_data pipe_ok rs \<and> cs_counted st' = cs_counted st + length (source_data pipe_ok rs)"
  proof (cases pipe_ok)
    case True
    have sp: "source_ends True rs" "length (source_data True rs) \<le> writes ws" using assms(3,4) True by simp_all
    from splice_loop_complete [OF assms(2) sp, of rnd ?rate st] obtain u rs' ws' st' out where l: "splice_loop rnd ?rate rs ws st = Some (u, rs', ws', st')"
      "cs_cap st' = cs_cap st" "cs_delivered st' = cs_delivered st @ out" "cs_counted st' = cs_counted st + length out"
      "source_data True rs = out @ (if u then source_data False rs' else [])"
      and u: "u \<longrightarrow> source_ends False rs' \<and> working ws' \<and> length (source_data False rs') \<le> writes ws'"
      by blast
    show ?thesis
    proof (cases u)
      case ok: True
      then show ?thesis
        using read_loop_complete [of st' ws' rs' sha256 now rnd ?rate] u l assms(1) True
        by (auto simp: splice_copy_def Let_def add.assoc)
    qed (use l assms(1) True in \<open>auto simp: splice_copy_def Let_def\<close>)
  next
    case False
    then show ?thesis using read_loop_complete assms by (simp add: splice_copy_def Let_def)
  qed
  then show ?thesis by (auto simp: copy_thread_def reset_capture_def)
qed

definition fresh_copy :: copy_state where
  "fresh_copy = \<lparr>cs_reg = portillia_bindings_new 0, cs_cap = None, cs_delivered = [], cs_counted = 0, cs_sleeps = []\<rparr>"

theorem copy_delivers_prefix_witness:
  "\<exists>out. cs_delivered (fresh_copy\<lparr>cs_delivered := [1, 2]\<rparr>) = cs_delivered fresh_copy @ out \<and>
     prefix out (source_data (cs_cap fresh_copy = None \<and> True) [Got [1, 2, 3], Read_end]) \<and>
     cs_counted (fresh_copy\<lparr>cs_delivered := [1, 2]\<rparr>) \<le> cs_counted fresh_copy + length out"
  by (rule copy_delivers_prefix [of "\<lambda>bs. bs" "(0, 0)" "\<lambda>x. x" True 0 "[Got [1, 2, 3], Read_end]" "[Wrote 2, Write_failed]"])
    (simp add: copy_thread_def splice_copy_def reset_capture_def fresh_copy_def Let_def)

theorem copy_delivers_everything_witness:
  "\<exists>st'. copy_thread (\<lambda>bs. bs) (0, 0) (\<lambda>x. x) True 0 [Got [1, 2], Read_intr, Read_einval, Got [3], Read_end]
       [Wrote 1, Write_intr, Wrote 1, Wrote 1] fresh_copy = Some st' \<and>
     cs_delivered st' = cs_delivered fresh_copy @ source_data True [Got [1, 2], Read_intr, Read_einval, Got [3], Read_end] \<and>
     cs_counted st' = cs_counted fresh_copy + length (source_data True [Got [1, 2], Read_intr, Read_einval, Got [3], Read_end])"
  by (rule copy_delivers_everything) (simp_all add: fresh_copy_def)

section \<open>Throttling\<close>

lemma read_loop_unthrottled:
  "rate \<le> 0 \<Longrightarrow> read_loop sha256 now rnd rate rs ws st = Some st' \<Longrightarrow> cs_sleeps st' = cs_sleeps st"
proof (induction rs arbitrary: ws st)
  case (Cons e rs)
  then show ?case
    by (cases e) (fastforce simp: Let_def dest: capture_keeps_copy split: option.splits prod.splits bool.splits if_splits)+
qed simp

lemma splice_loop_unthrottled:
  "rate \<le> 0 \<Longrightarrow> splice_loop rnd rate rs ws st = Some (u, rs', ws', st') \<Longrightarrow> cs_sleeps st' = cs_sleeps st"
proof (induction rs arbitrary: ws st)
  case (Cons e rs)
  then show ?case by (cases e) (fastforce simp: Let_def split: option.splits prod.splits if_splits)+
qed simp

text \<open>The smallest limits do not limit anything. The limit is in bits per second and is divided by eight as an integer, and the result
  zero stands for no limit: a lease limited to seven bits per second or fewer is copied at full speed, exactly like one
  with no limit, while with a limit of eight bits per second the pause after a full chunk does not fit the type of the argument of
  \<open>usleep\<close>.\<close>

theorem tiny_limit_is_no_limit:
  assumes "0 < bps_limit" "bps_limit < 8"
  shows "copy_thread sha256 now rnd pipe_ok bps_limit rs ws st = copy_thread sha256 now rnd pipe_ok 0 rs ws st \<and>
    (copy_thread sha256 now rnd pipe_ok bps_limit rs ws st = Some st' \<longrightarrow> cs_sleeps st' = cs_sleeps st) \<and>
    sleep_usec (\<lambda>x. x) 65536 (bytes_per_sec 8) = None"
proof (intro conjI impI)
  have rate: "bytes_per_sec bps_limit = 0" "bytes_per_sec 0 = 0" using assms by (simp_all add: bytes_per_sec_def)
  show "copy_thread sha256 now rnd pipe_ok bps_limit rs ws st = copy_thread sha256 now rnd pipe_ok 0 rs ws st"
    by (simp add: copy_thread_def splice_copy_def rate)
  show "sleep_usec (\<lambda>x. x) 65536 (bytes_per_sec 8) = None" by (simp add: sleep_usec_def bytes_per_sec_def)
  assume "copy_thread sha256 now rnd pipe_ok bps_limit rs ws st = Some st'"
  then show "cs_sleeps st' = cs_sleeps st"
    by (fastforce simp: copy_thread_def splice_copy_def rate reset_capture_def Let_def split: option.splits if_splits
        dest: read_loop_unthrottled [rotated] splice_loop_unthrottled [rotated])
qed

theorem tiny_limit_is_no_limit_witness:
  "copy_thread (\<lambda>bs. bs) (0, 0) (\<lambda>x. x) True 7 [Got [1, 2], Read_end] [Wrote 2] fresh_copy =
     Some (fresh_copy\<lparr>cs_delivered := [1, 2], cs_counted := 2\<rparr>) \<and>
   cs_sleeps (fresh_copy\<lparr>cs_delivered := [1, 2], cs_counted := 2\<rparr>) = cs_sleeps fresh_copy"
proof -
  have run: "copy_thread (\<lambda>bs. bs) (0, 0) (\<lambda>x. x) True 7 [Got [1, 2], Read_end] [Wrote 2] fresh_copy =
      Some (fresh_copy\<lparr>cs_delivered := [1, 2], cs_counted := 2\<rparr>)"
    by (simp add: copy_thread_def splice_copy_def reset_capture_def fresh_copy_def account_def ssl_sleep_for_bytes_def
        bytes_per_sec_def Let_def)
  then show ?thesis
    using tiny_limit_is_no_limit [of 7 "\<lambda>bs. bs" "(0, 0)" "\<lambda>x. x" True "[Got [1, 2], Read_end]" "[Wrote 2]" fresh_copy
        "fresh_copy\<lparr>cs_delivered := [1, 2], cs_counted := 2\<rparr>"] by simp
qed

section \<open>The capture inside the copy\<close>

lemma write_all: "working ws \<Longrightarrow> length bs \<le> writes ws \<Longrightarrow>
    (\<And>ws'. write_loop ws bs = Some (bs, True, ws') \<Longrightarrow> working ws' \<Longrightarrow> writes ws \<le> writes ws' + length bs \<Longrightarrow> P) \<Longrightarrow> P"
  using write_loop_complete [of ws bs] by fastforce

text \<open>C6. The copy with its system calls does to the bindings what the loop over whole chunks does, which the theorems on the capture
  are about: for a browser whose chunks are \<open>chunks\<close> and a tenant that takes them in whatever portions, the copy ends with the
  registry and capture (whose buffers it then releases) and the bytes that \<open>copy_captured\<close> computes, undefined exactly
  where that is.\<close>

theorem copy_refines_capture:
  assumes "cs_cap st = Some cap" "[] \<notin> set chunks" "working ws" "length (concat chunks) \<le> writes ws"
  shows "map_option (\<lambda>st'. (cs_reg st', cs_cap st', cs_delivered st'))
      (read_loop sha256 now rnd rate (map Got chunks @ [Read_end]) ws st) =
    map_option (\<lambda>(reg, cap', out). (reg, Some cap', cs_delivered st @ out))
      (copy_captured sha256 (\<lambda>_. True) now chunks (cs_reg st) cap)"
  using assms
proof (induction chunks arbitrary: ws st cap)
  case (Cons chunk chunks)
  have ne: "chunk \<noteq> []" and len: "length chunk \<le> writes ws" using Cons.prems by auto
  obtain ws' where w: "write_loop ws chunk = Some (chunk, True, ws')" "working ws'" "length (concat chunks) \<le> writes ws'"
    using write_all [OF Cons.prems(3) len] Cons.prems(4) by (metis add.commute add_le_cancel_left concat.simps(2) le_trans length_append)
  show ?case
  proof (cases "capture_on_write sha256 (cs_reg st) cap chunk now")
    case None
    then show ?thesis using ne Cons.prems(1) by (simp add: before_write_def)
  next
    case (Some r)
    obtain reg1 cap1 ok where r: "r = (reg1, cap1, ok)" by (cases r)
    define st1 where "st1 = st\<lparr>cs_reg := reg1, cs_cap := Some cap1\<rparr>"
    have b: "before_write sha256 now chunk st = Some (st1, ok)"
      using Some r Cons.prems(1) by (simp add: before_write_def st1_def)
    show ?thesis
    proof (cases ok)
      case False
      then show ?thesis using ne b Some r by (simp add: st1_def)
    next
      case True
      define st2 where "st2 = st1\<lparr>cs_delivered := cs_delivered st1 @ chunk\<rparr>"
      have a: "after_write sha256 now chunk st2 =
          map_option (\<lambda>(reg, cap'). st2\<lparr>cs_reg := reg, cs_cap := Some cap'\<rparr>) (capture_after_write sha256 reg1 cap1 chunk now)"
        by (simp add: after_write_def st1_def st2_def)
      show ?thesis
      proof (cases "capture_after_write sha256 reg1 cap1 chunk now")
        case None
        then show ?thesis using ne b Some r True w(1) a by (simp add: Let_def st2_def)
      next
        case after: (Some r2)
        obtain reg2 cap2 where r2: "r2 = (reg2, cap2)" by (cases r2)
        define st3 where "st3 = account rnd (length chunk) rate (st2\<lparr>cs_reg := reg2, cs_cap := Some cap2\<rparr>)"
        have st3: "cs_reg st3 = reg2" "cs_cap st3 = Some cap2" "cs_delivered st3 = cs_delivered st @ chunk"
          by (simp_all add: st3_def st2_def st1_def)
        have "read_loop sha256 now rnd rate (map Got (chunk # chunks) @ [Read_end]) ws st =
            read_loop sha256 now rnd rate (map Got chunks @ [Read_end]) ws' st3"
          using ne b True w(1) a after r2 by (simp add: Let_def st2_def st3_def)
        then show ?thesis
          using Cons.IH [OF st3(2) _ w(2,3)] Cons.prems(2) Some r True after r2 st3
          by (auto simp: option.map_comp comp_def split: option.splits)
      qed
    qed
  qed
qed simp

theorem copy_refines_capture_witness:
  "map_option (\<lambda>st'. (cs_reg st', cs_cap st', cs_delivered st'))
     (read_loop (\<lambda>bs. bs) (0, 0) (\<lambda>x. x) 0 (map Got [[1, 2], [3]] @ [Read_end]) [Wrote 1, Wrote 1, Wrote 1]
        (fresh_copy\<lparr>cs_cap := Some \<lparr>cap_acc = portillia_ch_accum_init, cap_fixed = True, cap_binding = []\<rparr>\<rparr>)) =
   Some (portillia_bindings_new 0, Some \<lparr>cap_acc = portillia_ch_accum_init, cap_fixed = True, cap_binding = []\<rparr>, [1, 2, 3])"
  using copy_refines_capture [of "fresh_copy\<lparr>cs_cap := Some \<lparr>cap_acc = portillia_ch_accum_init, cap_fixed = True, cap_binding = []\<rparr>\<rparr>"
      "\<lparr>cap_acc = portillia_ch_accum_init, cap_fixed = True, cap_binding = []\<rparr>" "[[1, 2], [3]]" "[Wrote 1, Wrote 1, Wrote 1]"
      "\<lambda>bs. bs" "(0, 0)" "\<lambda>x. x" 0]
  by (simp add: fresh_copy_def capture_on_write_def capture_after_write_def)

section \<open>The two directions of a bridge\<close>

lemmas bridge_defs = copy_thread_up_end_def copy_thread_down_end_def ssl_copy_up_end_def ssl_copy_down_end_def
  bridge_thread_finish_def ssl_bridge_thread_finish_def

text \<open>What holds in every state of a bridge whose counter started at \<open>n\<close>: what is released, which peers have been told of the end of
  the data, and the counter of active connections.\<close>

definition bridge_inv :: "bool \<Rightarrow> int \<Rightarrow> bridge_state \<Rightarrow> bool" where
  "bridge_inv tls n b \<longleftrightarrow>
     (bg_released b \<noteq> [] \<longrightarrow> \<not> bg_up b \<and> \<not> bg_down b \<and> bg_released b = (if tls then [Target_ssl, Client_fd] else [Client_fd, Target_fd])) \<and>
     (bg_released b \<noteq> [] \<longrightarrow> bg_tenant_sees_end b) \<and>
     (bg_released b = [] \<longrightarrow> (bg_tenant_sees_end b \<longleftrightarrow> \<not> tls \<and> \<not> bg_up b) \<and> (bg_client_sees_end b \<longleftrightarrow> \<not> bg_down b)) \<and>
     tl_active_conns (bg_telemetry b) = n + (if tls then 0 else of_bool (bg_up b) + of_bool (bg_down b))"

lemma bridge_inv_step: "bridge_step tls a b b' \<Longrightarrow> bridge_inv tls n b \<Longrightarrow> bridge_inv tls n b'"
  by (erule bridge_stepE) (auto simp: bridge_inv_def bridge_defs)

lemma bridge_inv_run: "bridge_run tls b0 b \<Longrightarrow> bridge_inv tls n b0 \<Longrightarrow> bridge_inv tls n b"
  by (induction rule: bridge_run.induct) (auto intro: bridge_inv_step)

lemma bridge_inv_start:
  "bridge_inv False (tl_active_conns t) (portillia_proxy_bridge_bound True (True, True) t)"
  "bridge_inv True (tl_active_conns t) (portillia_proxy_ssl_bridge_bound True t)"
  by (simp_all add: bridge_inv_def portillia_proxy_bridge_bound_def bridge_thread_start_def
      portillia_proxy_ssl_bridge_bound_def ssl_bridge_thread_start_def)


text \<open>C39. Half-closing. When the browser has sent all it will send, a plain bridge passes that on: as soon as the copy towards the tenant
  has ended, the tenant sees the end of the request. A bridge to a TLS session does not: as long as the bridge lives, the tenant is not
  told. A tenant that answers after the end of the request, or goes on waiting for more, then leaves the bridge
  where no thread of it and nothing the browser does, leaving included, changes anything: the thread that waits for the tenant
  and both descriptors stay until the tenant acts.\<close>

theorem tls_bridge_hides_end:
  assumes plain: "bridge_run False (portillia_proxy_bridge_bound True (True, True) t) b"
    and tls: "bridge_run True (portillia_proxy_ssl_bridge_bound True t) s"
  shows "(\<not> bg_up b \<longrightarrow> bg_tenant_sees_end b) \<and>
    (\<not> bg_up s \<and> \<not> bg_tenant_ended s \<and> bg_down s \<longrightarrow>
      \<not> bg_tenant_sees_end s \<and> bg_released s = [] \<and> (\<nexists>s'. bridge_step True By_bridge s s') \<and>
      (\<forall>s'. bridge_step True By_client s s' \<longrightarrow> bg_down s' \<and> bg_released s' = [] \<and> \<not> bg_tenant_sees_end s'))"
proof (intro conjI impI)
  assume "\<not> bg_up b"
  then show "bg_tenant_sees_end b"
    using bridge_inv_run [OF plain bridge_inv_start(1)] by (cases "bg_released b = []") (auto simp: bridge_inv_def)
next
  assume s: "\<not> bg_up s \<and> \<not> bg_tenant_ended s \<and> bg_down s"
  have "bridge_inv True (tl_active_conns t) s" by (rule bridge_inv_run [OF tls bridge_inv_start(2)])
  then show *: "\<not> bg_tenant_sees_end s" "bg_released s = []" using s by (auto simp: bridge_inv_def)
  show "\<nexists>s'. bridge_step True By_bridge s s'"
    and "\<forall>s'. bridge_step True By_client s s' \<longrightarrow> bg_down s' \<and> bg_released s' = [] \<and> \<not> bg_tenant_sees_end s'"
    using s * by (auto elim!: bridge_stepE simp: bridge_defs)
qed

definition idle_telemetry :: telemetry where
  "idle_telemetry = \<lparr>tl_active_conns = 0, tl_total_bytes = 0, tl_last_bytes = 0, tl_current_bps = 0\<rparr>"

definition half_closed :: bridge_state where
  "half_closed = (portillia_proxy_ssl_bridge_bound True idle_telemetry)\<lparr>bg_client_ended := True, bg_up := False\<rparr>"

lemma half_closed_reached: "bridge_run True (portillia_proxy_ssl_bridge_bound True idle_telemetry) half_closed"
proof -
  let ?b0 = "portillia_proxy_ssl_bridge_bound True idle_telemetry"
  have "bridge_step True By_client ?b0 (?b0\<lparr>bg_client_ended := True\<rparr>)"
    by (rule bridge_step.client_ends) (simp add: portillia_proxy_ssl_bridge_bound_def ssl_bridge_thread_start_def)
  moreover have "bridge_step True By_bridge (?b0\<lparr>bg_client_ended := True\<rparr>) half_closed"
    using bridge_step.up_ends [of "?b0\<lparr>bg_client_ended := True\<rparr>" True]
    by (simp add: portillia_proxy_ssl_bridge_bound_def ssl_bridge_thread_start_def ssl_copy_up_end_def half_closed_def)
  ultimately show ?thesis by (meson bridge_run.intros)
qed


theorem tls_bridge_hides_end_witness:
  "\<not> bg_tenant_sees_end half_closed \<and> bg_released half_closed = [] \<and> (\<nexists>s'. bridge_step True By_bridge half_closed s')"
  using tls_bridge_hides_end [OF bridge_run.bridge_start half_closed_reached]
  by (simp add: half_closed_def portillia_proxy_ssl_bridge_bound_def ssl_bridge_thread_start_def)

end
