(* ===== verification/Dns_Providers.thy ===== *)
theory Dns_Providers
  imports Sdk_Client
begin

text \<open>
  The DNS providers behind the certificate manager: \<^verbatim>\<open>src/portal/acme/cloudflare/provider.c\<close>, \<^verbatim>\<open>src/portal/acme/route53/provider.c\<close> and
  \<^verbatim>\<open>src/portal/acme/gcloud/provider.c\<close>, with the table of functions they fill (\<open>portillia_dns_provider\<close>).

  The services are reached through \<open>de_http\<close>, which yields the new state of the service and, unless the transfer failed, the body;
  the status is not looked at by the sources. cJSON, SHA-256, HMAC, base64 and RSA signatures are parameters. An operation is
  \<open>None\<close> where the C code dereferences a null pointer or writes outside a buffer.
\<close>

section \<open>Environment and the table of functions\<close>

record ('j, 't, 'n) dns_env =
  de_json :: "('j, 't) cjson"
  de_http :: "'t sdk_call \<Rightarrow> 'n \<Rightarrow> 'n \<times> 't option"
  de_text :: "cstring \<Rightarrow> 't"
  de_now :: time_t
  de_sha256 :: "byte list \<Rightarrow> byte list"
  de_hmac :: "byte list \<Rightarrow> byte list \<Rightarrow> byte list"
  de_encode_block :: "byte list \<Rightarrow> cstring"
  de_read_key :: "cstring \<Rightarrow> cstring option"
  de_sign_final :: "cstring \<Rightarrow> byte list \<Rightarrow> nat \<Rightarrow> byte list"
  de_service_account :: "(int \<times> 't) option"

text \<open>The state of the services, and the token that the Google provider keeps.\<close>

record 'n dns_world =
  dw_net :: 'n
  dw_access_token :: "cstring option"
  dw_token_expires_at :: time_t

record dnssec_answer =
  ds_state :: cstring
  ds_record :: cstring
  ds_message :: cstring

record 'w dns_provider =
  dn_name :: cstring
  dn_ensure_a_records :: "cstring \<Rightarrow> cstring \<Rightarrow> 'w \<Rightarrow> ('w \<times> bool) option"
  dn_ensure_a_record :: "cstring \<Rightarrow> cstring \<Rightarrow> 'w \<Rightarrow> ('w \<times> bool) option"
  dn_delete_a_record :: "cstring \<Rightarrow> 'w \<Rightarrow> ('w \<times> bool) option"
  dn_ensure_txt_record :: "cstring \<Rightarrow> cstring \<Rightarrow> 'w \<Rightarrow> ('w \<times> bool) option"
  dn_delete_txt_records :: "cstring \<Rightarrow> cstring \<Rightarrow> 'w \<Rightarrow> ('w \<times> bool) option"
  dn_ensure_dnssec :: "cstring \<Rightarrow> 'w \<Rightarrow> ('w \<times> dnssec_answer option) option"

definition dns_send :: "('j, 't, 'n) dns_env \<Rightarrow> 't sdk_call \<Rightarrow> 'n dns_world \<Rightarrow> 'n dns_world \<times> 'j option" where
  "dns_send env call w =
     (case de_http env call (dw_net w) of
        (n', None) \<Rightarrow> (w\<lparr>dw_net := n'\<rparr>, None)
      | (n', Some t) \<Rightarrow> (w\<lparr>dw_net := n'\<rparr>, cj_parse (de_json env) t))"

text \<open>\<open>cJSON_GetObjectItem (j, k)->valuestring\<close> where the string is used: \<open>None\<close> is the null pointer.\<close>

definition deref_string :: "('j, 't) cjson \<Rightarrow> 'j option \<Rightarrow> cstring \<Rightarrow> cstring option" where
  "deref_string api j k =
     (case j of None \<Rightarrow> None | Some x \<Rightarrow> (case cj_get api x k of None \<Rightarrow> None | Some v \<Rightarrow> cj_valuestring api v))"

definition array_member :: "('j, 't) cjson \<Rightarrow> 'j \<Rightarrow> cstring \<Rightarrow> 'j list" where
  "array_member api j k =
     (case cj_get api j k of None \<Rightarrow> [] | Some r \<Rightarrow> if cj_is_array api r then cj_items api r else [])"

section \<open>Cloudflare\<close>

definition CLOUDFLARE_API_BASE :: cstring where "CLOUDFLARE_API_BASE = ''https://api.cloudflare.com/client/v4''"

definition cloudflare_call :: "('j, 't) cjson \<Rightarrow> cstring \<Rightarrow> cstring \<Rightarrow> cstring \<Rightarrow> 'j option \<Rightarrow> 't sdk_call" where
  "cloudflare_call api token method endpoint body =
     \<lparr>call_url = snprintf_s 1024 (CLOUDFLARE_API_BASE @ endpoint), call_method = method,
      call_headers = [snprintf_s 256 (''Authorization: Bearer '' @ token), ''Content-Type: application/json''],
      call_body = map_option (cj_print api) body, call_skip_verify = None\<rparr>"

definition cloudflare_api_request ::
  "('j, 't, 'n) dns_env \<Rightarrow> cstring \<Rightarrow> cstring \<Rightarrow> cstring \<Rightarrow> 'j option \<Rightarrow> 'n dns_world \<Rightarrow> 'n dns_world \<times> 'j option" where
  "cloudflare_api_request env token method endpoint body w =
     dns_send env (cloudflare_call (de_json env) token method endpoint body) w"

text \<open>\<open>strtok (s, ".")\<close> to the end: the labels that are not empty.\<close>

fun dot_labels :: "cstring \<Rightarrow> cstring list" where
  "dot_labels [] = [[]]"
| "dot_labels (c # s) =
     (if c = CHR ''.'' then [] # dot_labels s else case dot_labels s of [] \<Rightarrow> [[c]] | l # ls \<Rightarrow> (c # l) # ls)"

definition strtok_dots :: "cstring \<Rightarrow> cstring list" where
  "strtok_dots s = filter (\<lambda>l. l \<noteq> []) (dot_labels s)"

fun join_dots :: "cstring list \<Rightarrow> cstring" where
  "join_dots [] = []"
| "join_dots [l] = l"
| "join_dots (l # ls) = l @ ''.'' @ join_dots ls"

definition zone_candidates :: "cstring \<Rightarrow> cstring list" where
  "zone_candidates domain =
     (let parts = take 32 (strtok_dots (take 255 domain))
      in map (\<lambda>i. join_dots (drop i parts)) [0..<length parts - 1])"

text \<open>The endpoints of the zone API, in their buffers of 512 bytes.\<close>

definition zones_endpoint :: "cstring \<Rightarrow> cstring" where
  "zones_endpoint name = snprintf_s 512 (''/zones?name='' @ name)"

definition list_endpoint :: "cstring \<Rightarrow> cstring \<Rightarrow> cstring \<Rightarrow> cstring" where
  "list_endpoint zid n t = snprintf_s 512 (''/zones/'' @ zid @ ''/dns_records?name='' @ n @ ''&type='' @ t)"

definition record_endpoint :: "cstring \<Rightarrow> cstring \<Rightarrow> cstring" where
  "record_endpoint zid rid = snprintf_s 512 (''/zones/'' @ zid @ ''/dns_records/'' @ rid)"

definition create_endpoint :: "cstring \<Rightarrow> cstring" where
  "create_endpoint zid = snprintf_s 512 (''/zones/'' @ zid @ ''/dns_records'')"

fun zone_search ::
  "('j, 't, 'n) dns_env \<Rightarrow> cstring \<Rightarrow> cstring list \<Rightarrow> 'n dns_world \<Rightarrow> ('n dns_world \<times> cstring option) option" where
  "zone_search env token [] w = Some (w, None)"
| "zone_search env token (candidate # rest) w =
     (case cloudflare_api_request env token ''GET'' (zones_endpoint candidate) None w of
        (w', None) \<Rightarrow> zone_search env token rest w'
      | (w', Some res) \<Rightarrow>
          if bool_member (de_json env) res ''success''
          then case array_member (de_json env) res ''result'' of
                 [] \<Rightarrow> zone_search env token rest w'
               | zone # _ \<Rightarrow>
                   (case deref_string (de_json env) (Some zone) ''id'' of None \<Rightarrow> None | Some zone_id \<Rightarrow> Some (w', Some zone_id))
          else zone_search env token rest w')"

definition find_zone_id ::
  "('j, 't, 'n) dns_env \<Rightarrow> cstring \<Rightarrow> cstring \<Rightarrow> 'n dns_world \<Rightarrow> ('n dns_world \<times> cstring option) option" where
  "find_zone_id env token domain w = zone_search env token (zone_candidates domain) w"

definition record_body :: "('j, 't) cjson \<Rightarrow> cstring \<Rightarrow> cstring \<Rightarrow> cstring \<Rightarrow> 'j" where
  "record_body api name type content =
     cj_object api ([(''type'', cj_string api type), (''name'', cj_string api name), (''content'', cj_string api content),
       (''ttl'', cj_number api 1)] @ (if type = ''A'' then [(''proxied'', cj_bool api False)] else []))"

definition succeeded :: "('j, 't) cjson \<Rightarrow> 'n dns_world \<times> 'j option \<Rightarrow> 'n dns_world \<times> bool" where
  "succeeded api r = (fst r, case snd r of None \<Rightarrow> False | Some res \<Rightarrow> bool_member api res ''success'')"

definition cloudflare_ensure_dns_record ::
  "('j, 't, 'n) dns_env \<Rightarrow> cstring \<Rightarrow> cstring \<Rightarrow> cstring \<Rightarrow> cstring \<Rightarrow> cstring \<Rightarrow> 'n dns_world \<Rightarrow> ('n dns_world \<times> bool) option" where
  "cloudflare_ensure_dns_record env token zone_id name type content w =
     (let api = de_json env
      in case cloudflare_api_request env token ''GET''
                (list_endpoint zone_id name type) None w of
           (w1, None) \<Rightarrow> Some (w1, False)
         | (w1, Some res) \<Rightarrow>
             (case array_member api res ''result'' of
                rec # _ \<Rightarrow>
                  (case deref_string api (Some rec) ''content'' of
                     None \<Rightarrow> None
                   | Some existing \<Rightarrow>
                       if existing = content then Some (w1, True)
                       else case deref_string api (Some rec) ''id'' of
                         None \<Rightarrow> None
                       | Some record_id \<Rightarrow>
                           Some (succeeded api (cloudflare_api_request env token ''PUT''
                             (record_endpoint zone_id record_id)
                             (Some (record_body api name type content)) w1)))
              | [] \<Rightarrow>
                  Some (succeeded api (cloudflare_api_request env token ''POST''
                    (create_endpoint zone_id) (Some (record_body api name type content)) w1))))"

text \<open>The steps that every operation starts with: find the zone, give up without one.\<close>

definition with_zone ::
  "('j, 't, 'n) dns_env \<Rightarrow> cstring \<Rightarrow> cstring \<Rightarrow> 'r \<Rightarrow> (cstring \<Rightarrow> 'n dns_world \<Rightarrow> ('n dns_world \<times> 'r) option) \<Rightarrow> 'n dns_world \<Rightarrow>
   ('n dns_world \<times> 'r) option" where
  "with_zone env token name failure f w =
     (case find_zone_id env token name w of
        None \<Rightarrow> None
      | Some (w', None) \<Rightarrow> Some (w', failure)
      | Some (w', Some zone_id) \<Rightarrow> f zone_id w')"

definition cloudflare_ensure_a_records ::
  "('j, 't, 'n) dns_env \<Rightarrow> cstring \<Rightarrow> cstring \<Rightarrow> cstring \<Rightarrow> 'n dns_world \<Rightarrow> ('n dns_world \<times> bool) option" where
  "cloudflare_ensure_a_records env token base_domain public_ipv4 w =
     with_zone env token base_domain False (\<lambda>zone_id w1.
       case cloudflare_ensure_dns_record env token zone_id base_domain ''A'' public_ipv4 w1 of
         None \<Rightarrow> None
       | Some (w2, ok) \<Rightarrow>
           if ok then cloudflare_ensure_dns_record env token zone_id (snprintf_s 256 (''*.'' @ base_domain)) ''A'' public_ipv4 w2
           else Some (w2, False)) w"

definition cloudflare_ensure_a_record ::
  "('j, 't, 'n) dns_env \<Rightarrow> cstring \<Rightarrow> cstring \<Rightarrow> cstring \<Rightarrow> 'n dns_world \<Rightarrow> ('n dns_world \<times> bool) option" where
  "cloudflare_ensure_a_record env token name public_ipv4 w =
     with_zone env token name False (\<lambda>zone_id w1. cloudflare_ensure_dns_record env token zone_id name ''A'' public_ipv4 w1) w"

definition cloudflare_ensure_txt_record ::
  "('j, 't, 'n) dns_env \<Rightarrow> cstring \<Rightarrow> cstring \<Rightarrow> cstring \<Rightarrow> 'n dns_world \<Rightarrow> ('n dns_world \<times> bool) option" where
  "cloudflare_ensure_txt_record env token name value w =
     with_zone env token name False (\<lambda>zone_id w1. cloudflare_ensure_dns_record env token zone_id name ''TXT'' value w1) w"

text \<open>Deleting the records of an answer one by one. What a deletion answers is ignored.\<close>

fun delete_records ::
  "('j, 't, 'n) dns_env \<Rightarrow> cstring \<Rightarrow> cstring \<Rightarrow> cstring option \<Rightarrow> 'j list \<Rightarrow> 'n dns_world \<Rightarrow> ('n dns_world \<times> bool) option" where
  "delete_records env token zone_id match_prefix [] w = Some (w, True)"
| "delete_records env token zone_id match_prefix (rec # recs) w =
     (case (case match_prefix of
              None \<Rightarrow> Some True
            | Some p \<Rightarrow> map_option (\<lambda>content. take (length p) content = p) (deref_string (de_json env) (Some rec) ''content'')) of
        None \<Rightarrow> None
      | Some False \<Rightarrow> delete_records env token zone_id match_prefix recs w
      | Some True \<Rightarrow>
          (case deref_string (de_json env) (Some rec) ''id'' of
             None \<Rightarrow> None
           | Some record_id \<Rightarrow>
               delete_records env token zone_id match_prefix recs
                 (fst (cloudflare_api_request env token ''DELETE''
                   (record_endpoint zone_id record_id) None w))))"

definition cloudflare_delete_matching ::
  "('j, 't, 'n) dns_env \<Rightarrow> cstring \<Rightarrow> cstring \<Rightarrow> cstring \<Rightarrow> cstring option \<Rightarrow> 'n dns_world \<Rightarrow> ('n dns_world \<times> bool) option" where
  "cloudflare_delete_matching env token name type match_prefix w =
     with_zone env token name False (\<lambda>zone_id w1.
       case cloudflare_api_request env token ''GET''
              (list_endpoint zone_id name type) None w1 of
         (w2, None) \<Rightarrow> Some (w2, True)
       | (w2, Some res) \<Rightarrow> delete_records env token zone_id match_prefix (array_member (de_json env) res ''result'') w2) w"

definition cloudflare_delete_a_record ::
  "('j, 't, 'n) dns_env \<Rightarrow> cstring \<Rightarrow> cstring \<Rightarrow> 'n dns_world \<Rightarrow> ('n dns_world \<times> bool) option" where
  "cloudflare_delete_a_record env token name w = cloudflare_delete_matching env token name ''A'' None w"

definition cloudflare_delete_txt_records ::
  "('j, 't, 'n) dns_env \<Rightarrow> cstring \<Rightarrow> cstring \<Rightarrow> cstring \<Rightarrow> 'n dns_world \<Rightarrow> ('n dns_world \<times> bool) option" where
  "cloudflare_delete_txt_records env token name match_prefix w =
     cloudflare_delete_matching env token name ''TXT'' (Some match_prefix) w"

text \<open>The answer that counts: that of the update when one was sent and answered.\<close>

definition cloudflare_ensure_dnssec ::
  "('j, 't, 'n) dns_env \<Rightarrow> cstring \<Rightarrow> cstring \<Rightarrow> 'n dns_world \<Rightarrow> ('n dns_world \<times> dnssec_answer option) option" where
  "cloudflare_ensure_dnssec env token base_domain w =
     with_zone env token base_domain None (\<lambda>zone_id w1.
       let api = de_json env; endpoint = snprintf_s 512 (''/zones/'' @ zone_id @ ''/dnssec'');
           finish = (\<lambda>w res. case deref_string api (cj_get api res ''result'') ''status'' of
             None \<Rightarrow> None
           | Some status \<Rightarrow>
               (case (case cj_get api res ''result'' of None \<Rightarrow> None | Some r \<Rightarrow> str_member api r ''ds'') of
                  Some ds \<Rightarrow> Some (w, Some \<lparr>ds_state = status, ds_record = ds, ds_message =
                    ''publish the DS record at the registrar if Cloudflare Registrar does not manage the zone''\<rparr>)
                | None \<Rightarrow> Some (w, Some \<lparr>ds_state = status, ds_record = [], ds_message = []\<rparr>)))
       in case cloudflare_api_request env token ''GET'' endpoint None w1 of
            (w2, None) \<Rightarrow> Some (w2, None)
          | (w2, Some res) \<Rightarrow>
              (case deref_string api (cj_get api res ''result'') ''status'' of
                 None \<Rightarrow> None
               | Some status \<Rightarrow>
                   if status \<noteq> ''active'' \<and> status \<noteq> ''pending''
                   then case cloudflare_api_request env token ''PATCH'' endpoint
                          (Some (cj_object api [(''status'', cj_string api ''active'')])) w2 of
                          (w3, None) \<Rightarrow> finish w3 res
                        | (w3, Some update) \<Rightarrow> finish w3 update
                   else finish w2 res)) w"

definition portillia_cloudflare_new :: "('j, 't, 'n) dns_env \<Rightarrow> cstring option \<Rightarrow> 'n dns_world dns_provider option" where
  "portillia_cloudflare_new env token =
     map_option (\<lambda>tok. \<lparr>dn_name = ''cloudflare'', dn_ensure_a_records = cloudflare_ensure_a_records env tok,
       dn_ensure_a_record = cloudflare_ensure_a_record env tok, dn_delete_a_record = cloudflare_delete_a_record env tok,
       dn_ensure_txt_record = cloudflare_ensure_txt_record env tok, dn_delete_txt_records = cloudflare_delete_txt_records env tok,
       dn_ensure_dnssec = cloudflare_ensure_dnssec env tok\<rparr>) token"

section \<open>Route 53\<close>

record route53_provider =
  r5_access_key_id :: "cstring option"
  r5_secret_access_key :: "cstring option"
  r5_session_token :: "cstring option"
  r5_region :: "cstring option"
  r5_hosted_zone_id :: "cstring option"
  r5_kms_key_arn :: "cstring option"

definition ROUTE53_API_BASE :: cstring where "ROUTE53_API_BASE = ''https://route53.amazonaws.com''"

definition newline :: cstring where "newline = [CHR 0x0A]"

definition sha256_hex :: "('j, 't, 'n) dns_env \<Rightarrow> cstring \<Rightarrow> cstring" where
  "sha256_hex env data = hex_string (de_sha256 env (cstring_to_bytes data))"

text \<open>A null secret is printed by the C library as \<^verbatim>\<open>(null)\<close>.\<close>

definition printed :: "cstring option \<Rightarrow> cstring" where
  "printed s = (case s of None \<Rightarrow> ''(null)'' | Some t \<Rightarrow> t)"

definition get_signature_key :: "('j, 't, 'n) dns_env \<Rightarrow> cstring option \<Rightarrow> cstring \<Rightarrow> cstring \<Rightarrow> cstring \<Rightarrow> byte list" where
  "get_signature_key env secret date region service =
     (let hmac = (\<lambda>key data. de_hmac env key (cstring_to_bytes data));
          k_secret = cstring_to_bytes (snprintf_s 128 (''AWS4'' @ printed secret))
      in hmac (hmac (hmac (hmac k_secret date) region) service) ''aws4_request'')"

text \<open>\<open>strftime\<close> with \<^verbatim>\<open>%Y%m%d\<close> and \<^verbatim>\<open>%Y%m%dT%H%M%SZ\<close>.\<close>

definition date_stamp_of :: "time_t \<Rightarrow> cstring" where
  "date_stamp_of t = (let x = gmtime t in dec_int (tm_year x + 1900) @ dec2 (nat (tm_mon x + 1)) @ dec2 (nat (tm_mday x)))"

definition amz_date_of :: "time_t \<Rightarrow> cstring" where
  "amz_date_of t = (let x = gmtime t in date_stamp_of t @ ''T'' @ dec2 (nat (tm_hour x)) @ dec2 (nat (tm_min x)) @ dec2 (nat (tm_sec x)) @ ''Z'')"

text \<open>The array of the signed headers has exactly the length of its initial text; appending to it writes outside, so that the request
  is \<open>None\<close> with a session token.\<close>

definition route53_headers :: "('j, 't, 'n) dns_env \<Rightarrow> route53_provider \<Rightarrow> cstring \<Rightarrow> cstring \<Rightarrow> cstring option \<Rightarrow> cstring list" where
  "route53_headers env rp method uri payload =
     (let amz_date = amz_date_of (de_now env); date_stamp = date_stamp_of (de_now env);
          region = (case r5_region rp of None \<Rightarrow> ''us-east-1'' | Some r \<Rightarrow> r);
          payload_hash = sha256_hex env (or_empty payload); signed_headers = ''host;x-amz-date'';
          canonical_headers = snprintf_s 512 (''host:route53.amazonaws.com'' @ newline @ ''x-amz-date:'' @ amz_date @ newline);
          canonical_request = snprintf_s 4096 (method @ newline @ uri @ newline @ newline @ canonical_headers @ newline @
            signed_headers @ newline @ payload_hash);
          credential_scope = snprintf_s 128 (date_stamp @ ''/'' @ region @ ''/route53/aws4_request'');
          string_to_sign = snprintf_s 512 (''AWS4-HMAC-SHA256'' @ newline @ amz_date @ newline @ credential_scope @ newline @
            sha256_hex env canonical_request);
          signing_key = get_signature_key env (r5_secret_access_key rp) date_stamp region ''route53'';
          signature = hex_string (de_hmac env signing_key (cstring_to_bytes string_to_sign))
      in [snprintf_s 1024 (''Authorization: AWS4-HMAC-SHA256 Credential='' @ printed (r5_access_key_id rp) @ ''/'' @ credential_scope @
            '', SignedHeaders='' @ signed_headers @ '', Signature='' @ signature),
          ''Content-Type: application/xml'', snprintf_s 64 (''x-amz-date: '' @ amz_date),
          snprintf_s 64 (''x-amz-content-sha256: '' @ payload_hash)])"

definition route53_api_request ::
  "('j, 't, 'n) dns_env \<Rightarrow> route53_provider \<Rightarrow> cstring \<Rightarrow> cstring \<Rightarrow> cstring option \<Rightarrow> 'n dns_world \<Rightarrow> ('n dns_world \<times> 'j option) option" where
  "route53_api_request env rp method uri payload w =
     (if nonempty (r5_session_token rp) then None
      else Some (dns_send env
        \<lparr>call_url = snprintf_s 1024 (ROUTE53_API_BASE @ uri), call_method = method,
         call_headers = route53_headers env rp method uri payload,
         call_body = (if nonempty payload then Some (de_text env (or_empty payload)) else None), call_skip_verify = None\<rparr> w))"

definition xml_tag :: "cstring \<Rightarrow> cstring \<Rightarrow> cstring" where
  "xml_tag t body = ''<'' @ t @ ''>'' @ body @ ''</'' @ t @ ''>''"

definition change_xml :: "cstring \<Rightarrow> cstring \<Rightarrow> cstring \<Rightarrow> int \<Rightarrow> cstring \<Rightarrow> cstring" where
  "change_xml action name type ttl value =
     ''<?xml version=\"1.0\" encoding=\"UTF-8\"?><ChangeResourceRecordSetsRequest xmlns=\"https://route53.amazonaws.com/doc/2013-04-01/\">'' @
     xml_tag ''ChangeBatch'' (xml_tag ''Changes'' (xml_tag ''Change'' (xml_tag ''Action'' action @
       xml_tag ''ResourceRecordSet'' (xml_tag ''Name'' name @ xml_tag ''Type'' type @ xml_tag ''TTL'' (dec_int ttl) @
         xml_tag ''ResourceRecords'' (xml_tag ''ResourceRecord'' (xml_tag ''Value'' value)))))) @
     ''</ChangeResourceRecordSetsRequest>''"

definition route53_change_record ::
  "('j, 't, 'n) dns_env \<Rightarrow> route53_provider \<Rightarrow> cstring \<Rightarrow> cstring \<Rightarrow> cstring \<Rightarrow> cstring option \<Rightarrow> int \<Rightarrow> 'n dns_world \<Rightarrow>
   ('n dns_world \<times> bool) option" where
  "route53_change_record env rp action name type value ttl w =
     (case r5_hosted_zone_id rp of
        None \<Rightarrow> Some (w, False)
      | Some zone \<Rightarrow>
          map_option (\<lambda>(w', doc). (w', doc \<noteq> None))
            (route53_api_request env rp ''POST'' (snprintf_s 512 (''/2013-04-01/hostedzone/'' @ zone @ ''/rrset/''))
               (Some (snprintf_s 4096 (change_xml action name type ttl (or_empty value)))) w))"

definition route53_ensure_a_records ::
  "('j, 't, 'n) dns_env \<Rightarrow> route53_provider \<Rightarrow> cstring \<Rightarrow> cstring \<Rightarrow> 'n dns_world \<Rightarrow> ('n dns_world \<times> bool) option" where
  "route53_ensure_a_records env rp base_domain public_ipv4 w =
     (case route53_change_record env rp ''UPSERT'' base_domain ''A'' (Some public_ipv4) 300 w of
        None \<Rightarrow> None
      | Some (w', ok) \<Rightarrow>
          if ok then route53_change_record env rp ''UPSERT'' (snprintf_s 256 (''*.'' @ base_domain)) ''A'' (Some public_ipv4) 300 w'
          else Some (w', False))"

definition route53_ensure_a_record ::
  "('j, 't, 'n) dns_env \<Rightarrow> route53_provider \<Rightarrow> cstring \<Rightarrow> cstring \<Rightarrow> 'n dns_world \<Rightarrow> ('n dns_world \<times> bool) option" where
  "route53_ensure_a_record env rp name public_ipv4 w = route53_change_record env rp ''UPSERT'' name ''A'' (Some public_ipv4) 300 w"

definition route53_delete_a_record ::
  "('j, 't, 'n) dns_env \<Rightarrow> route53_provider \<Rightarrow> cstring \<Rightarrow> 'n dns_world \<Rightarrow> ('n dns_world \<times> bool) option" where
  "route53_delete_a_record env rp name w = route53_change_record env rp ''DELETE'' name ''A'' (Some ''0.0.0.0'') 300 w"

definition route53_ensure_txt_record ::
  "('j, 't, 'n) dns_env \<Rightarrow> route53_provider \<Rightarrow> cstring \<Rightarrow> cstring \<Rightarrow> 'n dns_world \<Rightarrow> ('n dns_world \<times> bool) option" where
  "route53_ensure_txt_record env rp name value w = route53_change_record env rp ''UPSERT'' name ''TXT'' (Some value) 300 w"

definition route53_delete_txt_records ::
  "('j, 't, 'n) dns_env \<Rightarrow> route53_provider \<Rightarrow> cstring \<Rightarrow> cstring \<Rightarrow> 'n dns_world \<Rightarrow> ('n dns_world \<times> bool) option" where
  "route53_delete_txt_records env rp name match_prefix w = route53_change_record env rp ''DELETE'' name ''TXT'' (Some []) 300 w"

definition route53_ensure_dnssec ::
  "('j, 't, 'n) dns_env \<Rightarrow> route53_provider \<Rightarrow> cstring \<Rightarrow> 'n dns_world \<Rightarrow> ('n dns_world \<times> dnssec_answer option) option" where
  "route53_ensure_dnssec env rp base_domain w =
     (case r5_hosted_zone_id rp of
        None \<Rightarrow> Some (w, None)
      | Some zone \<Rightarrow>
          map_option (\<lambda>(w', doc). (w', map_option (\<lambda>_. \<lparr>ds_state = ''active'', ds_record = [],
              ds_message = ''Route53 DNSSEC managed externally if needed''\<rparr>) doc))
            (route53_api_request env rp ''GET'' (snprintf_s 512 (''/2013-04-01/hostedzone/'' @ zone @ ''/dnssec'')) None w))"

definition portillia_route53_new ::
  "('j, 't, 'n) dns_env \<Rightarrow> cstring option \<Rightarrow> cstring option \<Rightarrow> cstring option \<Rightarrow> cstring option \<Rightarrow> cstring option \<Rightarrow> cstring option \<Rightarrow>
   'n dns_world dns_provider" where
  "portillia_route53_new env access_key_id secret_access_key session_token region hosted_zone_id kms_key_arn =
     (let rp = \<lparr>r5_access_key_id = access_key_id, r5_secret_access_key = secret_access_key, r5_session_token = session_token,
            r5_region = region, r5_hosted_zone_id = hosted_zone_id, r5_kms_key_arn = kms_key_arn\<rparr>
      in \<lparr>dn_name = ''route53'', dn_ensure_a_records = route53_ensure_a_records env rp,
          dn_ensure_a_record = route53_ensure_a_record env rp, dn_delete_a_record = route53_delete_a_record env rp,
          dn_ensure_txt_record = route53_ensure_txt_record env rp, dn_delete_txt_records = route53_delete_txt_records env rp,
          dn_ensure_dnssec = route53_ensure_dnssec env rp\<rparr>)"

section \<open>Google Cloud DNS\<close>

definition GCLOUD_DNS_API_BASE :: cstring where "GCLOUD_DNS_API_BASE = ''https://dns.googleapis.com/dns/v1''"
definition GCLOUD_TOKEN_URL :: cstring where "GCLOUD_TOKEN_URL = ''https://oauth2.googleapis.com/token''"

definition base64url_encode :: "('j, 't, 'n) dns_env \<Rightarrow> byte list \<Rightarrow> cstring" where
  "base64url_encode env data =
     rev (dropWhile (\<lambda>c. c = CHR ''='') (rev (map (\<lambda>c. if c = CHR ''+'' then CHR ''-'' else if c = CHR ''/'' then CHR ''_'' else c)
       (de_encode_block env data))))"

text \<open>The size limits of the file; its text is a parameter together with its size.\<close>

definition load_service_account_json :: "('j, 't, 'n) dns_env \<Rightarrow> 't option" where
  "load_service_account_json env =
     (case de_service_account env of
        None \<Rightarrow> None
      | Some (sz, text) \<Rightarrow> if sz \<le> 0 \<or> sz > 65536 then None else Some text)"

definition quoted :: "cstring \<Rightarrow> cstring" where
  "quoted s = [CHR 0x22] @ s @ [CHR 0x22]"

definition claim_set :: "('j, 't, 'n) dns_env \<Rightarrow> cstring \<Rightarrow> cstring" where
  "claim_set env client_email =
     snprintf_s 1024 (''{'' @ quoted ''iss'' @ '':'' @ quoted client_email @ '','' @ quoted ''scope'' @ '':'' @
       quoted ''https://www.googleapis.com/auth/cloud-platform'' @ '','' @ quoted ''aud'' @ '':'' @ quoted GCLOUD_TOKEN_URL @ '','' @
       quoted ''iat'' @ '':'' @ dec_int (de_now env) @ '','' @ quoted ''exp'' @ '':'' @ dec_int (de_now env + 3600) @ ''}'')"

definition jwt_header :: cstring where
  "jwt_header = ''{'' @ quoted ''alg'' @ '':'' @ quoted ''RS256'' @ '','' @ quoted ''typ'' @ '':'' @ quoted ''JWT'' @ ''}''"

text \<open>The length handed to the signature call is 0; the result of the call is not looked at.\<close>

definition gcloud_jwt :: "('j, 't, 'n) dns_env \<Rightarrow> cstring \<Rightarrow> cstring \<Rightarrow> cstring" where
  "gcloud_jwt env client_email pkey =
     (let header_b64 = base64url_encode env (cstring_to_bytes jwt_header);
          claim_b64 = base64url_encode env (cstring_to_bytes (claim_set env client_email));
          signing_input = snprintf_s 4096 (header_b64 @ ''.'' @ claim_b64);
          sig = de_sign_final env pkey (cstring_to_bytes signing_input) 0
      in snprintf_s 8192 (header_b64 @ ''.'' @ claim_b64 @ ''.'' @ base64url_encode env sig))"

definition gcloud_refresh_token :: "('j, 't, 'n) dns_env \<Rightarrow> 'n dns_world \<Rightarrow> 'n dns_world \<times> bool" where
  "gcloud_refresh_token env w =
     (let api = de_json env
      in case load_service_account_json env of
           None \<Rightarrow> (w, False)
         | Some sa_json \<Rightarrow>
             (case cj_parse api sa_json of
                None \<Rightarrow> (w, False)
              | Some doc \<Rightarrow>
                  (case (str_member api doc ''client_email'', str_member api doc ''private_key'') of
                     (Some client_email, Some private_key) \<Rightarrow>
                       (case de_read_key env private_key of
                          None \<Rightarrow> (w, False)
                        | Some pkey \<Rightarrow>
                            (case dns_send env
                               \<lparr>call_url = GCLOUD_TOKEN_URL, call_method = ''POST'', call_headers = [],
                                call_body = Some (de_text env (snprintf_s 8192
                                  (''grant_type=urn%3Aietf%3Aparams%3Aoauth%3Agrant-type%3Ajwt-bearer&assertion='' @
                                   gcloud_jwt env client_email pkey))), call_skip_verify = None\<rparr> w of
                               (w', None) \<Rightarrow> (w', False)
                             | (w', Some tok) \<Rightarrow>
                                 (case str_member api tok ''access_token'' of
                                    None \<Rightarrow> (w', False)
                                  | Some access_token \<Rightarrow>
                                      (w'\<lparr>dw_access_token := Some access_token,
                                          dw_token_expires_at := de_now env +
                                            (case num_member api tok ''expires_in'' of None \<Rightarrow> 3600 | Some d \<Rightarrow> int_of_double d)\<rparr>, True))))
                   | _ \<Rightarrow> (w, False))))"

definition gcloud_ensure_token :: "('j, 't, 'n) dns_env \<Rightarrow> 'n dns_world \<Rightarrow> 'n dns_world \<times> bool" where
  "gcloud_ensure_token env w =
     (if dw_access_token w \<noteq> None \<and> dw_token_expires_at w > de_now env + 60 then (w, True) else gcloud_refresh_token env w)"

definition gcloud_api_request ::
  "('j, 't, 'n) dns_env \<Rightarrow> cstring \<Rightarrow> cstring \<Rightarrow> 't option \<Rightarrow> 'n dns_world \<Rightarrow> 'n dns_world \<times> 'j option" where
  "gcloud_api_request env method endpoint body w =
     (case gcloud_ensure_token env w of
        (w', False) \<Rightarrow> (w', None)
      | (w', True) \<Rightarrow>
          dns_send env
            \<lparr>call_url = snprintf_s 2048 (GCLOUD_DNS_API_BASE @ endpoint), call_method = method,
             call_headers = [snprintf_s 4096 (''Authorization: Bearer '' @ or_empty (dw_access_token w')), ''Content-Type: application/json''],
             call_body = body, call_skip_verify = None\<rparr> w')"

definition gcloud_dns_change ::
  "('j, 't, 'n) dns_env \<Rightarrow> cstring option \<Rightarrow> cstring option \<Rightarrow> 'j \<Rightarrow> 'n dns_world \<Rightarrow> 'n dns_world \<times> bool" where
  "gcloud_dns_change env project_id managed_zone change w =
     (case gcloud_api_request env ''POST''
             (snprintf_s 1024 (''/projects/'' @ printed project_id @ ''/managedZones/'' @ printed managed_zone @ ''/changes''))
             (Some (cj_print (de_json env) change)) w of
        (w', None) \<Rightarrow> (w', False)
      | (w', Some doc) \<Rightarrow> (w', str_member (de_json env) doc ''status'' = Some ''pending''))"

text \<open>Every operation sends one record set, as an addition or a deletion.\<close>

definition gcloud_change :: "('j, 't) cjson \<Rightarrow> cstring \<Rightarrow> cstring \<Rightarrow> cstring \<Rightarrow> cstring \<Rightarrow> 'j" where
  "gcloud_change api kind name type value =
     cj_object api [(kind, cj_array api [cj_object api
       [(''name'', cj_string api name), (''type'', cj_string api type), (''ttl'', cj_number api 300),
        (''rrdatas'', cj_array api [cj_string api value])]])]"

definition gcloud_ensure_a_records ::
  "('j, 't, 'n) dns_env \<Rightarrow> cstring option \<Rightarrow> cstring option \<Rightarrow> cstring \<Rightarrow> cstring \<Rightarrow> 'n dns_world \<Rightarrow> ('n dns_world \<times> bool) option" where
  "gcloud_ensure_a_records env project zone base_domain public_ipv4 w =
     (case gcloud_dns_change env project zone (gcloud_change (de_json env) ''additions'' base_domain ''A'' public_ipv4) w of
        (w', False) \<Rightarrow> Some (w', False)
      | (w', True) \<Rightarrow> Some (gcloud_dns_change env project zone
          (gcloud_change (de_json env) ''additions'' (snprintf_s 256 (''*.'' @ base_domain)) ''A'' public_ipv4) w'))"

definition gcloud_ensure_a_record ::
  "('j, 't, 'n) dns_env \<Rightarrow> cstring option \<Rightarrow> cstring option \<Rightarrow> cstring \<Rightarrow> cstring \<Rightarrow> 'n dns_world \<Rightarrow> ('n dns_world \<times> bool) option" where
  "gcloud_ensure_a_record env project zone name public_ipv4 w =
     Some (gcloud_dns_change env project zone (gcloud_change (de_json env) ''additions'' name ''A'' public_ipv4) w)"

definition gcloud_delete_a_record ::
  "('j, 't, 'n) dns_env \<Rightarrow> cstring option \<Rightarrow> cstring option \<Rightarrow> cstring \<Rightarrow> 'n dns_world \<Rightarrow> ('n dns_world \<times> bool) option" where
  "gcloud_delete_a_record env project zone name w =
     Some (gcloud_dns_change env project zone (gcloud_change (de_json env) ''deletions'' name ''A'' ''0.0.0.0'') w)"

definition gcloud_ensure_txt_record ::
  "('j, 't, 'n) dns_env \<Rightarrow> cstring option \<Rightarrow> cstring option \<Rightarrow> cstring \<Rightarrow> cstring \<Rightarrow> 'n dns_world \<Rightarrow> ('n dns_world \<times> bool) option" where
  "gcloud_ensure_txt_record env project zone name value w =
     Some (gcloud_dns_change env project zone (gcloud_change (de_json env) ''additions'' name ''TXT'' value) w)"

definition gcloud_delete_txt_records ::
  "('j, 't, 'n) dns_env \<Rightarrow> cstring option \<Rightarrow> cstring option \<Rightarrow> cstring \<Rightarrow> cstring \<Rightarrow> 'n dns_world \<Rightarrow> ('n dns_world \<times> bool) option" where
  "gcloud_delete_txt_records env project zone name match_prefix w =
     Some (gcloud_dns_change env project zone (gcloud_change (de_json env) ''deletions'' name ''TXT'' []) w)"

definition gcloud_ensure_dnssec ::
  "('j, 't, 'n) dns_env \<Rightarrow> cstring option \<Rightarrow> cstring option \<Rightarrow> cstring \<Rightarrow> 'n dns_world \<Rightarrow> ('n dns_world \<times> dnssec_answer option) option" where
  "gcloud_ensure_dnssec env project zone base_domain w =
     (case gcloud_api_request env ''GET''
             (snprintf_s 1024 (''/projects/'' @ printed project @ ''/managedZones/'' @ printed zone)) None w of
        (w', None) \<Rightarrow> Some (w', None)
      | (w', Some doc) \<Rightarrow>
          Some (w', Some \<lparr>ds_state = (case cj_get (de_json env) doc ''dnssecConfig'' of
                 None \<Rightarrow> [] | Some d \<Rightarrow> or_empty (str_member (de_json env) d ''state'')),
             ds_record = [], ds_message = ''GCP Cloud DNS DNSSEC state queried''\<rparr>))"

definition portillia_gcloud_new ::
  "('j, 't, 'n) dns_env \<Rightarrow> cstring option \<Rightarrow> cstring option \<Rightarrow> 'n dns_world dns_provider" where
  "portillia_gcloud_new env project_id managed_zone =
     \<lparr>dn_name = ''gcloud'', dn_ensure_a_records = gcloud_ensure_a_records env project_id managed_zone,
      dn_ensure_a_record = gcloud_ensure_a_record env project_id managed_zone,
      dn_delete_a_record = gcloud_delete_a_record env project_id managed_zone,
      dn_ensure_txt_record = gcloud_ensure_txt_record env project_id managed_zone,
      dn_delete_txt_records = gcloud_delete_txt_records env project_id managed_zone,
      dn_ensure_dnssec = gcloud_ensure_dnssec env project_id managed_zone\<rparr>"

section \<open>What Cloudflare does with a record\<close>

record dns_record =
  dr_id :: cstring
  dr_name :: cstring
  dr_type :: cstring
  dr_content :: cstring

definition zone_match :: "cstring \<Rightarrow> cstring \<Rightarrow> dns_record \<Rightarrow> bool" where
  "zone_match n t r \<longleftrightarrow> dr_name r = n \<and> dr_type r = t"

abbreviation records_at :: "cstring \<Rightarrow> cstring \<Rightarrow> dns_record list \<Rightarrow> dns_record list" where
  "records_at n t z \<equiv> filter (zone_match n t) z"

definition record_json :: "dns_record \<Rightarrow> json" where
  "record_json r = JObject [(''id'', JString (dr_id r)), (''name'', JString (dr_name r)), (''type'', JString (dr_type r)),
     (''content'', JString (dr_content r))]"

definition answer_json :: "json list \<Rightarrow> json" where
  "answer_json rs = JObject [(''success'', JBool True), (''result'', JArray rs)]"

text \<open>The documented behaviour of the service for the names that are used, in the states \<open>usable\<close>: a zone is found under its name; listing
  yields the records of a name and type; an update replaces the record with an identifier; creating appends one under a new
  identifier while the zone has room for it.\<close>

definition answers ::
  "('j, 't, 'n) dns_env \<Rightarrow> ('j \<Rightarrow> json) \<Rightarrow> cstring \<Rightarrow> cstring \<Rightarrow> cstring \<Rightarrow> 'j option \<Rightarrow> 'n \<Rightarrow> 'n \<Rightarrow> json \<Rightarrow> bool" where
  "answers env view token method endpoint body n n' j \<longleftrightarrow>
     (\<exists>t r. de_http env (cloudflare_call (de_json env) token method endpoint body) n = (n', Some t) \<and>
        cj_parse (de_json env) t = Some r \<and> view r = j)"

definition cloudflare_service ::
  "('j, 't, 'n) dns_env \<Rightarrow> ('j \<Rightarrow> json) \<Rightarrow> cstring \<Rightarrow> cstring \<Rightarrow> cstring \<Rightarrow> cstring set \<Rightarrow> (cstring \<times> cstring) set \<Rightarrow> nat \<Rightarrow>
   ('n \<Rightarrow> bool) \<Rightarrow> ('n \<Rightarrow> dns_record list) \<Rightarrow> bool" where
  "cloudflare_service env view token zid zname cands keys room usable zone \<longleftrightarrow>
     (\<forall>n c. usable n \<longrightarrow> c \<in> cands \<longrightarrow> answers env view token ''GET'' (zones_endpoint c) None n n
        (answer_json (if c = zname then [JObject [(''id'', JString zid)]] else []))) \<and>
     (\<forall>n name type. usable n \<longrightarrow> (name, type) \<in> keys \<longrightarrow> answers env view token ''GET'' (list_endpoint zid name type) None n n
        (answer_json (map record_json (records_at name type (zone n))))) \<and>
     (\<forall>n r name type c. usable n \<longrightarrow> r \<in> set (zone n) \<longrightarrow> (name, type) \<in> keys \<longrightarrow>
        (\<exists>n'. answers env view token ''PUT'' (record_endpoint zid (dr_id r)) (Some (record_body (de_json env) name type c)) n n'
           (answer_json []) \<and> usable n' \<and>
         zone n' = map (\<lambda>x. if dr_id x = dr_id r then \<lparr>dr_id = dr_id x, dr_name = name, dr_type = type, dr_content = c\<rparr> else x) (zone n))) \<and>
     (\<forall>n name type c. usable n \<longrightarrow> length (zone n) < room \<longrightarrow> (name, type) \<in> keys \<longrightarrow>
        (\<exists>n' fresh. answers env view token ''POST'' (create_endpoint zid)
           (Some (record_body (de_json env) name type c)) n n' (answer_json []) \<and> usable n' \<and> fresh \<notin> dr_id ` set (zone n) \<and>
         zone n' = zone n @ [\<lparr>dr_id = fresh, dr_name = name, dr_type = type, dr_content = c\<rparr>]))"

lemma answers_request:
  assumes "answers env view token method endpoint body (dw_net w) n' j"
  obtains r where "cloudflare_api_request env token method endpoint body w = (w\<lparr>dw_net := n'\<rparr>, Some r)" "view r = j"
  using assms by (auto simp: answers_def cloudflare_api_request_def dns_send_def)

lemma answer_json_reads:
  assumes "cjson_laws api view" "view r = answer_json js"
  shows "bool_member api r ''success''" "map view (array_member api r ''result'') = js"
proof -
  show "bool_member api r ''success''" using assms(2) by (simp add: bool_member_view [OF assms(1)] answer_json_def)
  have "json_get (view r) ''result'' = Some (JArray js)"
    using assms(2) by (simp add: answer_json_def str_tolower_def char_tolower_def char_code_def)
  then obtain x where x: "cj_get api r ''result'' = Some x" "view x = JArray js" by (rule cjson_get_Some [OF assms(1)])
  then have "map view (cj_items api x) = js" using cjson_read(2) [OF assms(1), of x] by simp
  then show "map view (array_member api r ''result'') = js"
    using x by (simp add: array_member_def cjson_read(6) [OF assms(1)])
qed

lemma deref_string_view:
  assumes "cjson_laws api view" "json_get (view j) k = Some (JString s)"
  shows "deref_string api (Some j) k = Some s"
proof -
  obtain x where "cj_get api j k = Some x" "view x = JString s" by (rule cjson_get_Some [OF assms])
  then show ?thesis by (simp add: deref_string_def cjson_read(3) [OF assms(1)])
qed

lemma record_json_reads:
  assumes "cjson_laws api view" "view j = record_json r"
  shows "deref_string api (Some j) ''id'' = Some (dr_id r)" "deref_string api (Some j) ''content'' = Some (dr_content r)"
  using assms(2)
  by (auto intro!: deref_string_view [OF assms(1)] simp: record_json_def str_tolower_def char_tolower_def char_code_def)

text \<open>The zone after a record has been ensured.\<close>

definition zone_ensure :: "cstring \<Rightarrow> cstring \<Rightarrow> cstring \<Rightarrow> cstring \<Rightarrow> dns_record list \<Rightarrow> dns_record list" where
  "zone_ensure fresh n t c z =
     (case records_at n t z of
        [] \<Rightarrow> z @ [\<lparr>dr_id = fresh, dr_name = n, dr_type = t, dr_content = c\<rparr>]
      | r # _ \<Rightarrow> map (\<lambda>x. if dr_id x = dr_id r then x\<lparr>dr_content := c\<rparr> else x) z)"

lemma zone_ensure_ids:
  "distinct (map dr_id z) \<Longrightarrow> fresh \<notin> dr_id ` set z \<Longrightarrow> distinct (map dr_id (zone_ensure fresh n t c z))"
  "length (zone_ensure fresh n t c z) \<le> Suc (length z)"
  by (auto simp: zone_ensure_def comp_def if_distrib [of dr_id] split: list.split cong: if_cong)

lemma records_at_update:
  assumes "distinct (map dr_id z)" "records_at n t z = r # rs"
  shows "records_at n' t' (map (\<lambda>x. if dr_id x = dr_id r then x\<lparr>dr_content := c\<rparr> else x) z) =
    (if (n', t') = (n, t) then r\<lparr>dr_content := c\<rparr> # rs else records_at n' t' z)"
proof -
  let ?f = "\<lambda>x. if dr_id x = dr_id r then x\<lparr>dr_content := c\<rparr> else x"
  have r: "r \<in> set z" "zone_match n t r" using assms(2) by (auto dest: Cons_eq_filterD filter_eq_ConsD)
  have same: "zone_match n' t' (?f x) = zone_match n' t' x" for x by (simp add: zone_match_def)
  have "records_at n' t' (map ?f z) = map ?f (records_at n' t' z)" by (simp add: filter_map comp_def same)
  moreover have "map ?f (records_at n' t' z) = (if (n', t') = (n, t) then r\<lparr>dr_content := c\<rparr> # rs else records_at n' t' z)"
  proof (cases "(n', t') = (n, t)")
    case True
    have "distinct (map dr_id (r # rs))" using assms(1) unfolding assms(2) [symmetric] by (simp add: distinct_map_filter)
    then have "map ?f rs = rs" by (intro map_idI) (force simp: image_iff)
    then show ?thesis using True assms(2) by simp
  next
    case False
    have "?f x = x" if "x \<in> set (records_at n' t' z)" for x
    proof -
      have "x \<noteq> r" using that r(2) False by (auto simp: zone_match_def)
      then have "dr_id x \<noteq> dr_id r" using that r(1) assms(1) by (auto simp: distinct_map inj_on_def)
      then show ?thesis by simp
    qed
    then have "map ?f (records_at n' t' z) = records_at n' t' z" by (intro map_idI)
    then show ?thesis unfolding if_not_P [OF False] .
  qed
  ultimately show ?thesis by simp
qed

lemma zone_ensure_at:
  assumes "distinct (map dr_id z)"
  shows "records_at n t (zone_ensure fresh n t c z) =
      (case records_at n t z of [] \<Rightarrow> [\<lparr>dr_id = fresh, dr_name = n, dr_type = t, dr_content = c\<rparr>] | r # rs \<Rightarrow> r\<lparr>dr_content := c\<rparr> # rs)"
    and "(n', t') \<noteq> (n, t) \<Longrightarrow> records_at n' t' (zone_ensure fresh n t c z) = records_at n' t' z"
  using records_at_update [OF assms, of n t]
  by (auto simp: zone_ensure_def zone_match_def split: list.split)

lemma ensure_record_refines:
  assumes laws: "cjson_laws (de_json env) view" and service: "cloudflare_service env view token zid zname cands keys room usable zone"
    and st: "usable (dw_net w)" "distinct (map dr_id (zone (dw_net w)))" "length (zone (dw_net w)) < room" and key: "(name, type) \<in> keys"
  shows "\<exists>n' fresh. cloudflare_ensure_dns_record env token zid name type content w = Some (w\<lparr>dw_net := n'\<rparr>, True) \<and> usable n' \<and>
    fresh \<notin> dr_id ` set (zone (dw_net w)) \<and> zone n' = zone_ensure fresh name type content (zone (dw_net w))"
proof -
  let ?z = "zone (dw_net w)"
  have "answers env view token ''GET'' (list_endpoint zid name type) None (dw_net w) (dw_net w)
      (answer_json (map record_json (records_at name type ?z)))"
    using service st(1) key unfolding cloudflare_service_def by blast
  then obtain res where get: "cloudflare_api_request env token ''GET'' (list_endpoint zid name type) None w = (w, Some res)"
    "view res = answer_json (map record_json (records_at name type ?z))"
    by (rule answers_request) simp
  then have listed: "map view (array_member (de_json env) res ''result'') = map record_json (records_at name type ?z)"
    using answer_json_reads(2) [OF laws] by blast
  obtain nf fresh where post: "answers env view token ''POST'' (create_endpoint zid)
      (Some (record_body (de_json env) name type content)) (dw_net w) nf (answer_json [])" "usable nf"
    "fresh \<notin> dr_id ` set ?z" "zone nf = ?z @ [\<lparr>dr_id = fresh, dr_name = name, dr_type = type, dr_content = content\<rparr>]"
    using service st(1,3) key unfolding cloudflare_service_def by blast
  note step = cloudflare_ensure_dns_record_def Let_def
  show ?thesis
  proof (cases "records_at name type ?z")
    case Nil
    obtain r where "cloudflare_api_request env token ''POST'' (create_endpoint zid)
        (Some (record_body (de_json env) name type content)) w = (w\<lparr>dw_net := nf\<rparr>, Some r)" "view r = answer_json []"
      using post(1) by (rule answers_request)
    then have "cloudflare_ensure_dns_record env token zid name type content w = Some (w\<lparr>dw_net := nf\<rparr>, True)"
      using get(1) listed Nil answer_json_reads(1) [OF laws, of r "[]"] by (simp add: step succeeded_def)
    then show ?thesis using post Nil by (auto simp: zone_ensure_def)
  next
    case (Cons rec rs)
    then obtain j js where j: "array_member (de_json env) res ''result'' = j # js" "view j = record_json rec"
      using listed by auto
    have rec: "rec \<in> set ?z" "dr_name rec = name" "dr_type rec = type"
      using Cons by (auto simp: zone_match_def dest: Cons_eq_filterD filter_eq_ConsD)
    show ?thesis
    proof (cases "dr_content rec = content")
      case True
      have "(if dr_id x = dr_id rec then x\<lparr>dr_content := content\<rparr> else x) = x" if "x \<in> set ?z" for x
        using that rec(1) st(2) True by (cases "x = rec") (auto simp: distinct_map inj_on_def)
      then have "zone_ensure fresh name type content ?z = ?z" using Cons by (auto simp: zone_ensure_def intro!: map_idI)
      moreover have "cloudflare_ensure_dns_record env token zid name type content w = Some (w, True)"
        using get(1) j record_json_reads [OF laws j(2)] True by (simp add: step)
      ultimately show ?thesis using st(1) post(3) by (intro exI [of _ "dw_net w"] exI [of _ fresh]) simp
    next
      case False
      obtain np where put: "answers env view token ''PUT'' (record_endpoint zid (dr_id rec))
          (Some (record_body (de_json env) name type content)) (dw_net w) np (answer_json [])" "usable np"
        "zone np = map (\<lambda>x. if dr_id x = dr_id rec then \<lparr>dr_id = dr_id x, dr_name = name, dr_type = type, dr_content = content\<rparr> else x) ?z"
        using service st(1) rec(1) key unfolding cloudflare_service_def by blast
      obtain r where "cloudflare_api_request env token ''PUT'' (record_endpoint zid (dr_id rec))
          (Some (record_body (de_json env) name type content)) w = (w\<lparr>dw_net := np\<rparr>, Some r)" "view r = answer_json []"
        using put(1) by (rule answers_request)
      then have "cloudflare_ensure_dns_record env token zid name type content w = Some (w\<lparr>dw_net := np\<rparr>, True)"
        using get(1) j record_json_reads [OF laws j(2)] False answer_json_reads(1) [OF laws, of r "[]"] by (simp add: step succeeded_def)
      moreover have "zone np = zone_ensure fresh name type content ?z"
        using Cons st(2) rec unfolding put(3) zone_ensure_def by (auto simp: distinct_map inj_on_def)
      ultimately show ?thesis using put(2) post(3) by blast
    qed
  qed
qed

lemma zone_search_finds:
  assumes laws: "cjson_laws (de_json env) view" and service: "cloudflare_service env view token zid zname cands keys room usable zone"
    and st: "usable (dw_net w)" and cs: "set cs \<subseteq> cands" "zname \<in> set cs"
  shows "zone_search env token cs w = Some (w, Some zid)"
  using cs
proof (induction cs)
  case (Cons c cs)
  have "answers env view token ''GET'' (zones_endpoint c) None (dw_net w) (dw_net w)
      (answer_json (if c = zname then [JObject [(''id'', JString zid)]] else []))"
    using service st Cons.prems(1) unfolding cloudflare_service_def by simp
  then obtain res where res: "cloudflare_api_request env token ''GET'' (zones_endpoint c) None w = (w, Some res)"
    "view res = answer_json (if c = zname then [JObject [(''id'', JString zid)]] else [])"
    by (rule answers_request) simp
  note reads = answer_json_reads [OF laws res(2)]
  show ?case
  proof (cases "c = zname")
    case True
    then obtain z js where z: "array_member (de_json env) res ''result'' = z # js" "view z = JObject [(''id'', JString zid)]"
      using reads(2) by auto
    have "deref_string (de_json env) (Some z) ''id'' = Some zid" by (rule deref_string_view [OF laws]) (simp add: z(2))
    then show ?thesis using res(1) reads(1) z(1) by simp
  next
    case False
    then show ?thesis using res(1) reads Cons by simp
  qed
qed simp

lemma cloudflare_zone_effect:
  assumes laws: "cjson_laws (de_json env) view"
    and service: "cloudflare_service env view token zid zname (set (zone_candidates domain)) keys room usable zone"
    and zone: "zname \<in> set (zone_candidates domain)" "usable (dw_net w)" "distinct (map dr_id (zone (dw_net w)))"
      "Suc (length (zone (dw_net w))) < room"
    and keys: "(domain, ''A'') \<in> keys" "(''*.'' @ domain, ''A'') \<in> keys" "length domain < 254"
  shows "\<exists>n'. cloudflare_ensure_a_records env token domain ip w = Some (w\<lparr>dw_net := n'\<rparr>, True) \<and> usable n' \<and>
    map dr_content (take 1 (records_at domain ''A'' (zone n'))) = [ip] \<and>
    map dr_content (take 1 (records_at (''*.'' @ domain) ''A'' (zone n'))) = [ip] \<and>
    (\<forall>n t. t \<noteq> ''A'' \<or> n \<noteq> domain \<and> n \<noteq> ''*.'' @ domain \<longrightarrow> records_at n t (zone n') = records_at n t (zone (dw_net w)))"
proof -
  let ?z = "zone (dw_net w)" and ?wild = "''*.'' @ domain"
  have found: "find_zone_id env token domain w = Some (w, Some zid)"
    unfolding find_zone_id_def using zone_search_finds [OF laws service zone(2) _ zone(1)] by simp
  have room1: "length ?z < room" using zone(4) by simp
  obtain n1 f1 where one: "cloudflare_ensure_dns_record env token zid domain ''A'' ip w = Some (w\<lparr>dw_net := n1\<rparr>, True)" "usable n1"
    "f1 \<notin> dr_id ` set ?z" "zone n1 = zone_ensure f1 domain ''A'' ip ?z"
    using ensure_record_refines [OF laws service zone(2,3) room1 keys(1), of ip] by blast
  have ids: "distinct (map dr_id (zone n1))" "length (zone n1) \<le> Suc (length ?z)"
    unfolding one(4) by (rule zone_ensure_ids(1) [OF zone(3) one(3)], rule zone_ensure_ids(2))
  let ?w1 = "w\<lparr>dw_net := n1\<rparr>"
  have st1: "usable (dw_net ?w1)" "distinct (map dr_id (zone (dw_net ?w1)))" "length (zone (dw_net ?w1)) < room"
    using one(2) ids zone(4) by simp_all
  obtain n2 f2 where two: "cloudflare_ensure_dns_record env token zid ?wild ''A'' ip ?w1 = Some (?w1\<lparr>dw_net := n2\<rparr>, True)"
    "usable n2" "zone n2 = zone_ensure f2 ?wild ''A'' ip (zone n1)"
    using ensure_record_refines [OF laws service st1 keys(2), of ip] by auto
  have "length domain \<noteq> length ?wild" by simp
  then have ne: "domain \<noteq> ?wild" by metis
  have "snprintf_s 256 ?wild = ?wild" using keys(3) by (intro snprintf_s_fits) simp
  then have done_: "cloudflare_ensure_a_records env token domain ip w = Some (w\<lparr>dw_net := n2\<rparr>, True)"
    unfolding cloudflare_ensure_a_records_def with_zone_def using found one(1) two(1)
    by (simp only: option.case prod.case if_True) simp
  have wild: "map dr_content (take 1 (records_at ?wild ''A'' (zone n2))) = [ip]"
    unfolding two(3) zone_ensure_at(1) [OF ids(1)] by (simp split: list.split)
  have apex: "map dr_content (take 1 (records_at domain ''A'' (zone n2))) = [ip]"
  proof -
    have "records_at domain ''A'' (zone n2) = records_at domain ''A'' (zone n1)"
      unfolding two(3) using ne by (intro zone_ensure_at(2) [OF ids(1)]) blast
    then show ?thesis unfolding one(4) zone_ensure_at(1) [OF zone(3)] by (simp split: list.split)
  qed
  have rest: "records_at n t (zone n2) = records_at n t ?z" if "t \<noteq> ''A'' \<or> n \<noteq> domain \<and> n \<noteq> ?wild" for n t
  proof -
    have k: "(n, t) \<noteq> (domain, ''A'')" "(n, t) \<noteq> (?wild, ''A'')" using that by blast+
    have "records_at n t (zone n2) = records_at n t (zone n1)" unfolding two(3) by (rule zone_ensure_at(2) [OF ids(1) k(2)])
    also have "\<dots> = records_at n t ?z" unfolding one(4) by (rule zone_ensure_at(2) [OF zone(3) k(1)])
    finally show ?thesis .
  qed
  show ?thesis by (intro exI [of _ n2] conjI allI impI done_ two(2) apex wild rest)
qed


section \<open>Providers as the relay sees them\<close>

text \<open>What the relay relies on: in a world where the provider is ready for a domain, ensuring the address records succeeds and lets the domain and
  its wildcard point to the address.\<close>

locale address_provider =
  fixes ensure :: "cstring \<Rightarrow> cstring \<Rightarrow> 'w \<Rightarrow> ('w \<times> bool) option"
    and ready :: "cstring \<Rightarrow> 'w \<Rightarrow> bool"
    and points :: "'w \<Rightarrow> cstring \<Rightarrow> cstring \<Rightarrow> bool"
  assumes ensure_points: "ready domain w \<Longrightarrow>
    \<exists>w'. ensure domain ip w = Some (w', True) \<and> points w' domain ip \<and> points w' (''*.'' @ domain) ip"

definition cloudflare_ready ::
  "('j, 't, 'n) dns_env \<Rightarrow> ('j \<Rightarrow> json) \<Rightarrow> cstring \<Rightarrow> cstring \<Rightarrow> cstring \<Rightarrow> (cstring \<times> cstring) set \<Rightarrow> nat \<Rightarrow> ('n \<Rightarrow> bool) \<Rightarrow>
   ('n \<Rightarrow> dns_record list) \<Rightarrow> cstring \<Rightarrow> 'n dns_world \<Rightarrow> bool" where
  "cloudflare_ready env view token zid zname keys room usable zone domain w \<longleftrightarrow>
     cjson_laws (de_json env) view \<and> cloudflare_service env view token zid zname (set (zone_candidates domain)) keys room usable zone \<and>
     zname \<in> set (zone_candidates domain) \<and> usable (dw_net w) \<and> distinct (map dr_id (zone (dw_net w))) \<and>
     Suc (length (zone (dw_net w))) < room \<and> (domain, ''A'') \<in> keys \<and> (''*.'' @ domain, ''A'') \<in> keys \<and> length domain < 254"

definition zone_points :: "('n \<Rightarrow> dns_record list) \<Rightarrow> 'n dns_world \<Rightarrow> cstring \<Rightarrow> cstring \<Rightarrow> bool" where
  "zone_points zone w name ip \<longleftrightarrow> map dr_content (take 1 (records_at name ''A'' (zone (dw_net w)))) = [ip]"

lemma cloudflare_ready_points:
  assumes ready: "cloudflare_ready env view token zid zname keys room usable zone domain w"
  shows "\<exists>w'. cloudflare_ensure_a_records env token domain ip w = Some (w', True) \<and> zone_points zone w' domain ip \<and>
    zone_points zone w' (''*.'' @ domain) ip"
proof -
  note r = ready [unfolded cloudflare_ready_def]
  note c = conjunct1 [OF r] conjunct1 [OF r [THEN conjunct2]] conjunct1 [OF r [THEN conjunct2, THEN conjunct2]]
  note r3 = r [THEN conjunct2, THEN conjunct2, THEN conjunct2]
  note d = conjunct1 [OF r3] conjunct1 [OF r3 [THEN conjunct2]] conjunct1 [OF r3 [THEN conjunct2, THEN conjunct2]]
  note r6 = r3 [THEN conjunct2, THEN conjunct2, THEN conjunct2]
  note e = conjunct1 [OF r6] conjunct1 [OF r6 [THEN conjunct2]] r6 [THEN conjunct2, THEN conjunct2]
  from cloudflare_zone_effect [OF c d e, of ip] show ?thesis
    unfolding zone_points_def
  proof (elim exE conjE)
    fix n'
    assume done_: "cloudflare_ensure_a_records env token domain ip w = Some (w\<lparr>dw_net := n'\<rparr>, True)"
      and at: "map dr_content (take 1 (records_at domain ''A'' (zone n'))) = [ip]"
        "map dr_content (take 1 (records_at (''*.'' @ domain) ''A'' (zone n'))) = [ip]"
    have net: "dw_net (w\<lparr>dw_net := n'\<rparr>) = n'" by simp
    show "\<exists>w'. cloudflare_ensure_a_records env token domain ip w = Some (w', True) \<and>
        map dr_content (take 1 (records_at domain ''A'' (zone (dw_net w')))) = [ip] \<and>
        map dr_content (take 1 (records_at (''*.'' @ domain) ''A'' (zone (dw_net w')))) = [ip]"
      by (rule exI [of _ "w\<lparr>dw_net := n'\<rparr>"]) (unfold net, intro conjI done_ at)
  qed
qed

interpretation cloud: address_provider "cloudflare_ensure_a_records env token" "cloudflare_ready env view token zid zname keys room usable zone"
  "zone_points zone" for env :: "('j, 't, 'n) dns_env" and view token zid zname keys room usable and zone :: "'n \<Rightarrow> dns_record list"
  by unfold_locales (rule cloudflare_ready_points)

text \<open>A service with a zone of two records, for the witnesses.\<close>

definition toy_ids :: "cstring list" where "toy_ids = [''1'', ''2'', ''3'']"

definition toy_cloud_http :: "cstring \<Rightarrow> json sdk_call \<Rightarrow> dns_record list \<Rightarrow> dns_record list \<times> json option" where
  "toy_cloud_http domain call z =
     (let here = (\<lambda>e. call_url call = snprintf_s 1024 (CLOUDFLARE_API_BASE @ e));
          field = (\<lambda>k. case call_body call of None \<Rightarrow> [] | Some j \<Rightarrow> or_empty (str_member tree_json j k));
          new = (\<lambda>i. \<lparr>dr_id = i, dr_name = field ''name'', dr_type = field ''type'', dr_content = field ''content''\<rparr>)
      in if call_method call = ''GET''
         then (z, Some (answer_json
           (if here (zones_endpoint ''a.io'') then [JObject [(''id'', JString ''Z'')]]
            else if here (list_endpoint ''Z'' domain ''A'') then map record_json (records_at domain ''A'' z)
            else if here (list_endpoint ''Z'' (''*.'' @ domain) ''A'') then map record_json (records_at (''*.'' @ domain) ''A'' z)
            else if here (list_endpoint ''Z'' domain ''TXT'') then map record_json (records_at domain ''TXT'' z)
            else [])))
         else if call_method call = ''PUT''
         then (map (\<lambda>x. if here (record_endpoint ''Z'' (dr_id x)) then new (dr_id x) else x) z, Some (answer_json []))
         else (z @ [new (toy_ids ! length z)], Some (answer_json [])))"

definition toy_dns :: "(json, json, dns_record list) dns_env" where
  "toy_dns = \<lparr>de_json = tree_json, de_http = toy_cloud_http ''r.a.io'', de_text = JString, de_now = 0, de_sha256 = (\<lambda>b. b),
     de_hmac = (\<lambda>k b. b), de_encode_block = (\<lambda>b. map (\<lambda>_. CHR ''A'') b), de_read_key = Some, de_sign_final = (\<lambda>k m n. take n m),
     de_service_account = None\<rparr>"

definition toy_zone_usable :: "dns_record list \<Rightarrow> bool" where
  "toy_zone_usable z \<longleftrightarrow> map dr_id z = take (length z) toy_ids"

definition toy_world :: "dns_record list \<Rightarrow> dns_record list dns_world" where
  "toy_world z = \<lparr>dw_net = z, dw_access_token = None, dw_token_expires_at = 0\<rparr>"

lemma toy_zone_ids: "toy_zone_usable z \<Longrightarrow> r \<in> set z \<Longrightarrow> dr_id r \<in> {''1'', ''2'', ''3''}"
proof -
  assume "toy_zone_usable z" "r \<in> set z"
  then have "dr_id r \<in> set (take (length z) toy_ids)" unfolding toy_zone_usable_def by (metis image_eqI list.set_map)
  then have "dr_id r \<in> set toy_ids" by (rule in_set_takeD)
  then show "dr_id r \<in> {''1'', ''2'', ''3''}" by (simp add: toy_ids_def)
qed

lemma toy_record_endpoints:
  "snprintf_s 1024 (CLOUDFLARE_API_BASE @ record_endpoint ''Z'' i) = CLOUDFLARE_API_BASE @ ''/zones/Z/dns_records/'' @ i"
  if "i \<in> {''1'', ''2'', ''3''}"
  using that by (auto simp: record_endpoint_def CLOUDFLARE_API_BASE_def snprintf_s_def)

lemma toy_service:
  "cloudflare_service toy_dns (\<lambda>j. j) ''tok'' ''Z'' ''a.io'' {''r.a.io'', ''a.io''}
     {(''r.a.io'', ''A''), (''*.r.a.io'', ''A''), (''r.a.io'', ''TXT'')} 3 toy_zone_usable (\<lambda>z. z)"
proof -
  note ev = answers_def toy_dns_def toy_cloud_http_def cloudflare_call_def zones_endpoint_def list_endpoint_def snprintf_s_def
    CLOUDFLARE_API_BASE_def create_endpoint_def
  have members: "str_member tree_json (record_body tree_json n t c) ''name'' = Some n"
    "str_member tree_json (record_body tree_json n t c) ''type'' = Some t"
    "str_member tree_json (record_body tree_json n t c) ''content'' = Some c" for n t c
    by (simp_all add: str_member_def record_body_def str_tolower_def char_tolower_def char_code_def)
  have lists: "answers toy_dns (\<lambda>j. j) ''tok'' ''GET'' (zones_endpoint c) None z z
      (answer_json (if c = ''a.io'' then [JObject [(''id'', JString ''Z'')]] else []))" if "c \<in> {''r.a.io'', ''a.io''}" for z c
    using that by (auto simp: ev)
  have finds: "answers toy_dns (\<lambda>j. j) ''tok'' ''GET'' (list_endpoint ''Z'' n t) None z z
      (answer_json (map record_json (records_at n t z)))"
    if "(n, t) \<in> {(''r.a.io'', ''A''), (''*.r.a.io'', ''A''), (''r.a.io'', ''TXT'')}" for n t z
    using that by (auto simp: ev)
  have puts: "answers toy_dns (\<lambda>j. j) ''tok'' ''PUT'' (record_endpoint ''Z'' (dr_id r)) (Some (record_body tree_json n t c)) z
      (map (\<lambda>x. if dr_id x = dr_id r then \<lparr>dr_id = dr_id x, dr_name = n, dr_type = t, dr_content = c\<rparr> else x) z) (answer_json [])"
    if "toy_zone_usable z" "r \<in> set z" for z r n t c
  proof -
    have "(snprintf_s 1024 (CLOUDFLARE_API_BASE @ record_endpoint ''Z'' (dr_id r)) =
        snprintf_s 1024 (CLOUDFLARE_API_BASE @ record_endpoint ''Z'' (dr_id x))) = (dr_id x = dr_id r)" if "x \<in> set z" for x
      using toy_zone_ids [OF \<open>toy_zone_usable z\<close>] that \<open>r \<in> set z\<close> by (auto simp: toy_record_endpoints)
    then have "map (\<lambda>x. if snprintf_s 1024 (CLOUDFLARE_API_BASE @ record_endpoint ''Z'' (dr_id r)) =
          snprintf_s 1024 (CLOUDFLARE_API_BASE @ record_endpoint ''Z'' (dr_id x))
          then \<lparr>dr_id = dr_id x, dr_name = n, dr_type = t, dr_content = c\<rparr> else x) z =
        map (\<lambda>x. if dr_id x = dr_id r then \<lparr>dr_id = dr_id x, dr_name = n, dr_type = t, dr_content = c\<rparr> else x) z"
      by (intro map_cong refl if_cong) auto
    then show ?thesis
      by (simp add: answers_def toy_dns_def toy_cloud_http_def cloudflare_call_def members cong: if_cong del: map_eq_conv)
  qed
  have posts: "answers toy_dns (\<lambda>j. j) ''tok'' ''POST'' (create_endpoint ''Z'') (Some (record_body tree_json n t c)) z
      (z @ [\<lparr>dr_id = toy_ids ! length z, dr_name = n, dr_type = t, dr_content = c\<rparr>]) (answer_json [])" for n t c z
    by (simp add: answers_def toy_dns_def toy_cloud_http_def cloudflare_call_def members)
  have fresh: "toy_ids ! length z \<notin> dr_id ` set z \<and>
      toy_zone_usable (z @ [\<lparr>dr_id = toy_ids ! length z, dr_name = n, dr_type = t, dr_content = c\<rparr>])"
    if "toy_zone_usable z" "length z < 3" for z n t c
  proof -
    have "distinct toy_ids" "length toy_ids = 3" by (simp_all add: toy_ids_def)
    then have "toy_ids ! length z \<notin> set (take (length z) toy_ids)" using that(2) by (metis distinct_take id_take_nth_drop not_distinct_conv_prefix)
    then show ?thesis
      using that \<open>length toy_ids = 3\<close> unfolding toy_zone_usable_def by (metis (no_types, lifting) length_append_singleton list.set_map map_append list.simps(8,9) dns_record.select_convs(1) take_Suc_conv_app_nth)
  qed
  have keeps: "toy_zone_usable (map (\<lambda>x. if dr_id x = i then \<lparr>dr_id = dr_id x, dr_name = n, dr_type = t, dr_content = c\<rparr> else x) z)"
    if "toy_zone_usable z" for z i n t c
    using that by (simp add: toy_zone_usable_def comp_def if_distrib [of dr_id] cong: if_cong)
  have json: "de_json toy_dns = tree_json" by (simp add: toy_dns_def)
  show ?thesis
    unfolding cloudflare_service_def json
  proof (intro conjI allI impI, goal_cases)
    case (1 n c)
    then show ?case by (intro lists)
  next
    case (2 n name type)
    then show ?case by (intro finds)
  next
    case (3 n r name type c)
    show ?case by (intro exI conjI) (rule puts [OF 3(1,2)], rule keeps [OF 3(1)], rule refl)
  next
    case (4 n name type c)
    show ?case using fresh [OF 4(1,2)] by (intro exI conjI) (rule posts, simp_all)
  qed
qed


text \<open>Ensuring a text record replaces the first text record the name has, whatever it was for.\<close>

theorem cloudflare_overwrites_text:
  assumes laws: "cjson_laws (de_json env) view"
    and service: "cloudflare_service env view token zid zname (set (zone_candidates domain)) keys room usable zone"
    and zone: "zname \<in> set (zone_candidates domain)" "usable (dw_net w)" "distinct (map dr_id (zone (dw_net w)))"
      "length (zone (dw_net w)) < room" and key: "(domain, ''TXT'') \<in> keys"
    and old: "records_at domain ''TXT'' (zone (dw_net w)) = r # rs"
  shows "\<exists>n'. cloudflare_ensure_txt_record env token domain val w = Some (w\<lparr>dw_net := n'\<rparr>, True) \<and>
    records_at domain ''TXT'' (zone n') = r\<lparr>dr_content := val\<rparr> # rs"
proof -
  have found: "find_zone_id env token domain w = Some (w, Some zid)"
    unfolding find_zone_id_def using zone_search_finds [OF laws service zone(2) _ zone(1)] by simp
  obtain n1 f1 where one: "cloudflare_ensure_dns_record env token zid domain ''TXT'' val w = Some (w\<lparr>dw_net := n1\<rparr>, True)"
    "zone n1 = zone_ensure f1 domain ''TXT'' val (zone (dw_net w))"
    using ensure_record_refines [OF laws service zone(2-4) key, of val] by blast
  have "records_at domain ''TXT'' (zone n1) = r\<lparr>dr_content := val\<rparr> # rs"
    unfolding one(2) zone_ensure_at(1) [OF zone(3)] old by simp
  then show ?thesis using found one(1) unfolding cloudflare_ensure_txt_record_def with_zone_def by auto
qed

section \<open>Route 53 and Google never succeed\<close>

text \<open>Route 53 answers in XML, which is not JSON.\<close>

definition answers_no_json :: "('j, 't, 'n) dns_env \<Rightarrow> bool" where
  "answers_no_json env \<longleftrightarrow> (\<forall>call n n' t. de_http env call n = (n', Some t) \<longrightarrow> cj_parse (de_json env) t = None)"

text \<open>Every change at Route 53 is reported as failed, even when the service has carried it out; so the wildcard record is never asked for. With
  a session token the request is not even well defined.\<close>

theorem route53_never_succeeds:
  assumes "answers_no_json env"
  shows "route53_ensure_a_records env rp domain ip w =
      route53_change_record env rp ''UPSERT'' domain ''A'' (Some ip) 300 w \<and>
    (case route53_ensure_a_records env rp domain ip w of
       None \<Rightarrow> nonempty (r5_session_token rp) \<and> r5_hosted_zone_id rp \<noteq> None | Some (w', ok) \<Rightarrow> \<not> ok)"
proof -
  let ?change = "route53_change_record env rp ''UPSERT'' domain ''A'' (Some ip) 300 w"
  have none: "\<exists>w'. dns_send env call w = (w', None)" for call
    using assms by (cases "de_http env call (dw_net w)") (auto simp: dns_send_def answers_no_json_def split: option.splits)
  have "?change = None \<and> nonempty (r5_session_token rp) \<and> r5_hosted_zone_id rp \<noteq> None \<or> (\<exists>w'. ?change = Some (w', False))"
  proof (cases "r5_hosted_zone_id rp = None \<or> nonempty (r5_session_token rp)")
    case False
    then obtain z where z: "r5_hosted_zone_id rp = Some z" "\<not> nonempty (r5_session_token rp)" by auto
    have "route53_api_request env rp m u p w = Some (dns_send env
        \<lparr>call_url = snprintf_s 1024 (ROUTE53_API_BASE @ u), call_method = m, call_headers = route53_headers env rp m u p,
         call_body = (if nonempty p then Some (de_text env (or_empty p)) else None), call_skip_verify = None\<rparr> w)" for m u p
      unfolding route53_api_request_def using z(2) by (simp only: if_False)
    then have "\<exists>w'. route53_api_request env rp m u p w = Some (w', None)" for m u p using none by metis
    then obtain w' where "route53_api_request env rp ''POST'' (snprintf_s 512 (''/2013-04-01/hostedzone/'' @ z @ ''/rrset/''))
        (Some (snprintf_s 4096 (change_xml ''UPSERT'' domain ''A'' 300 ip))) w = Some (w', None)" by blast
    then have "?change = Some (w', False)"
      unfolding route53_change_record_def z(1) option.case or_empty_simps by (simp only: option.map prod.case not_Some_eq simp_thms)
    then show ?thesis by blast
  next
    case True
    then show ?thesis
      by (cases "r5_hosted_zone_id rp") (auto simp: route53_change_record_def route53_api_request_def)
  qed
  then show ?thesis unfolding route53_ensure_a_records_def by (elim disjE conjE exE) (simp_all only: option.case prod.case if_False simp_thms)
qed

text \<open>\<open>EVP_DigestSignFinal\<close> writes nothing into a buffer of length 0, and nothing encodes to nothing.\<close>

definition sign_needs_room :: "('j, 't, 'n) dns_env \<Rightarrow> bool" where
  "sign_needs_room env \<longleftrightarrow> (\<forall>k m. de_sign_final env k m 0 = []) \<and> de_encode_block env [] = []"

text \<open>The assertion with which the Google provider asks for a token carries an empty signature.\<close>

theorem gcloud_jwt_unsigned:
  assumes "sign_needs_room env"
  shows "\<exists>body. gcloud_jwt env client_email pkey = snprintf_s 8192 (body @ ''.'')"
proof -
  have "base64url_encode env (de_sign_final env pkey m 0) = []" for m
    using assms by (simp add: sign_needs_room_def base64url_encode_def)
  then have "gcloud_jwt env client_email pkey = snprintf_s 8192 ((base64url_encode env (cstring_to_bytes jwt_header) @ ''.'' @
      base64url_encode env (cstring_to_bytes (claim_set env client_email))) @ ''.'')"
    unfolding gcloud_jwt_def Let_def by (simp only: append_Nil2 append_assoc)
  then show ?thesis by (rule exI)
qed

end
