(* ===== verification/Keyless_Tls.thy ===== *)
theory Keyless_Tls
  imports Keyless_Sign Sdk_Flow
begin

text \<open>
  The TLS terminator of the tenant (\<^verbatim>\<open>src/portal/keyless/tls.c\<close>): fetching the certificate chain of the relay, the TLS context that
  is built from it, and the RSA method that forwards signatures to the relay. Beside it the part of \<^verbatim>\<open>src/portal/keyless/server.c\<close> that
  reads the files of the relay: the keys, and the endpoint that serves the chain.

  libcurl, cJSON, OpenSSL's objects and its base64 functions, random numbers and the clock are parameters (\<open>tls_env\<close>); every OpenSSL call
  that can fail has its outcome in \<open>te_ok\<close>. Bytes that a call writes behind the end of its buffer are counted, so that an overrun is
  part of the result.
\<close>

section \<open>Base64\<close>

text \<open>What OpenSSL documents of its block functions: decoding what was encoded gives the bytes filled up with zeros to a multiple of
  three, and the text ends with one padding sign for every byte that was filled in.\<close>

definition block_fill :: "nat \<Rightarrow> nat" where
  "block_fill n = (3 - n mod 3) mod 3"

definition trailing_pads :: "cstring \<Rightarrow> nat" where
  "trailing_pads s = length (takeWhile (\<lambda>c. c = CHR ''='') (rev s))"

definition base64_laws :: "openssl \<Rightarrow> bool" where
  "base64_laws os \<longleftrightarrow> (\<forall>bs. \<exists>s. os_encode_block os bs = Some s \<and>
     os_decode_block os s = Some (bs @ replicate (block_fill (length bs)) 0) \<and> trailing_pads s = block_fill (length bs))"

text \<open>The decoder of the terminator: the bytes written to the output and the length returned. The size of the output is compared
  after the block function has written to it.\<close>

definition base64_decode_into :: "openssl \<Rightarrow> cstring option \<Rightarrow> nat \<Rightarrow> byte list \<times> int" where
  "base64_decode_into os inp out_max =
     (case inp of
        None \<Rightarrow> ([], -1)
      | Some s \<Rightarrow>
          (case os_decode_block os s of
             None \<Rightarrow> ([], -1)
           | Some out \<Rightarrow>
               if length out > out_max then (out, -1)
               else let n = int (length out) - int (trailing_pads s) in (out, if n < 0 then -1 else n)))"

section \<open>The environment of the terminator\<close>

datatype hash_nid = NID_undef | NID_sha256 | NID_sha384 | NID_sha512 | NID_other

datatype tls_call =
    SSL_CTX_new | BIO_new_mem_buf | SSL_CTX_use_certificate | X509_get_pubkey | EVP_PKEY_get1_RSA | ENGINE_new | ENGINE_set_RSA_method
  | RSA_new_method | BN_dup_n | BN_dup_e | RSA_set_ex_data | EVP_PKEY_new | EVP_PKEY_assign_RSA | SSL_CTX_use_PrivateKey

text \<open>A transfer yields the status and the pieces of the body that were passed to the write callback. \<open>te_pem\<close> lists the certificates
  that repeated reads find in a text, \<open>te_rsa\<close> gives modulus and exponent of a certificate with an RSA key.\<close>

record ('j, 't, 'c, 'w) tls_env =
  te_json :: "('j, 't) cjson"
  te_openssl :: openssl
  te_sign_http :: "'t sdk_call \<Rightarrow> 'w \<Rightarrow> 'w \<times> (int \<times> 't option) option"
  te_cert_http :: "cstring \<Rightarrow> bool \<Rightarrow> (int \<times> cstring list) option"
  te_rand :: "nat \<Rightarrow> byte"
  te_now :: time_t
  te_pem :: "cstring \<Rightarrow> 'c list"
  te_rsa :: "'c \<Rightarrow> (nat \<times> nat) option"
  te_ok :: "tls_call \<Rightarrow> bool"

section \<open>Fetching the chain\<close>

text \<open>The buffer is a string: what the callback appends starts at its first NUL.\<close>

definition until_nul :: "cstring \<Rightarrow> cstring" where
  "until_nul s = takeWhile (\<lambda>c. c \<noteq> CHR 0x00) s"

definition curl_write_cb :: "cstring \<Rightarrow> cstring option \<Rightarrow> cstring option" where
  "curl_write_cb contents buf = Some (until_nul (or_empty buf) @ contents)"

definition fetch_cert_chain :: "('j, 't, 'c, 'w) tls_env \<Rightarrow> cstring \<Rightarrow> cstring \<Rightarrow> bool \<Rightarrow> cstring option" where
  "fetch_cert_chain env endpoint server_name insecure_skip_verify =
     (let url = snprintf_s 2048 (endpoint @ ''/.well-known/keyless-tls/cert?server_name='' @ server_name)
      in case te_cert_http env url insecure_skip_verify of
           None \<Rightarrow> None
         | Some (status, chunks) \<Rightarrow> if status \<ge> 400 then None else map_option until_nul (fold curl_write_cb chunks None))"

section \<open>Signing at the relay\<close>

record remote_signer_ctx_t =
  rs_endpoint :: cstring
  rs_server_name :: "cstring option"
  rs_access_token :: "cstring option"
  rs_insecure_skip_verify :: bool

definition remote_signer_ctx_new ::
  "cstring option \<Rightarrow> cstring option \<Rightarrow> cstring option \<Rightarrow> bool \<Rightarrow> remote_signer_ctx_t option" where
  "remote_signer_ctx_new endpoint server_name access_token insecure_skip_verify =
     map_option (\<lambda>ep. \<lparr>rs_endpoint = ep, rs_server_name = server_name, rs_access_token = access_token,
       rs_insecure_skip_verify = insecure_skip_verify\<rparr>) endpoint"

definition algorithm_for_nid :: "hash_nid \<Rightarrow> cstring" where
  "algorithm_for_nid nid =
     (case nid of NID_sha384 \<Rightarrow> ''RSA_PKCS1V15_SHA384'' | NID_sha512 \<Rightarrow> ''RSA_PKCS1V15_SHA512'' | _ \<Rightarrow> ''RSA_PKCS1V15_SHA256'')"

text \<open>\<open>RSA_size\<close>: the bytes of the modulus.\<close>

definition RSA_size :: "nat \<Rightarrow> nat" where
  "RSA_size n = (floorlog 2 n + 7) div 8"

definition sign_request_members ::
  "('j, 't, 'c, 'w) tls_env \<Rightarrow> remote_signer_ctx_t \<Rightarrow> hash_nid \<Rightarrow> cstring \<Rightarrow> (cstring \<times> 'j) list" where
  "sign_request_members env rs type digest_b64 =
     (let api = te_json env; nonce = concat (map (\<lambda>i. hex2 (te_rand env i)) [0..<16])
      in [(''key_id'', cj_string api ''relay''), (''algorithm'', cj_string api (algorithm_for_nid type)),
          (''digest'', cj_string api digest_b64), (''timestamp_unix'', cj_number api (double_of_int (te_now env))),
          (''nonce'', cj_string api nonce)] @
         (case rs_server_name rs of None \<Rightarrow> [] | Some s \<Rightarrow> [(''server_name'', cj_string api s)]))"

definition sign_call :: "remote_signer_ctx_t \<Rightarrow> 't \<Rightarrow> 't sdk_call" where
  "sign_call rs req_json =
     \<lparr>call_url = snprintf_s 2048 (rs_endpoint rs @ ''/v1/sign''), call_method = ''POST'',
      call_headers = ''Content-Type: application/json'' #
        (if nonempty (rs_access_token rs)
         then [snprintf_s 512 (''X-Portal-Access-Token: '' @ or_empty (rs_access_token rs))] else []),
      call_body = Some req_json, call_skip_verify = Some (rs_insecure_skip_verify rs)\<rparr>"

text \<open>The result of the RSA method: whether it succeeded, the signature, and how many bytes went past the end of the heap buffer.\<close>

record sign_outcome =
  so_ok :: bool
  so_sig :: "byte list"
  so_overrun :: nat

definition sign_failed :: sign_outcome where
  "sign_failed = \<lparr>so_ok = False, so_sig = [], so_overrun = 0\<rparr>"

definition read_signature :: "('j, 't, 'c, 'w) tls_env \<Rightarrow> nat \<Rightarrow> 'j \<Rightarrow> sign_outcome" where
  "read_signature env modulus resp_json =
     (case str_member (te_json env) resp_json ''signature'' of
        None \<Rightarrow> sign_failed
      | Some b64 \<Rightarrow>
          let key_size = (if RSA_size modulus = 0 then 4096 else RSA_size modulus)
          in case base64_decode_into (te_openssl env) (Some b64) key_size of
               (out, decoded) \<Rightarrow>
                 \<lparr>so_ok = (decoded > 0), so_sig = (if decoded > 0 then take (nat decoded) out else []),
                  so_overrun = length out - key_size\<rparr>)"

definition remote_rsa_sign ::
  "('j, 't, 'c, 'w) tls_env \<Rightarrow> remote_signer_ctx_t option \<Rightarrow> nat \<Rightarrow> hash_nid \<Rightarrow> byte list \<Rightarrow> 'w \<Rightarrow> 'w \<times> sign_outcome" where
  "remote_rsa_sign env signer modulus type m w =
     (if type = NID_undef then (w, sign_failed)
      else case signer of
        None \<Rightarrow> (w, sign_failed)
      | Some rs \<Rightarrow>
          (case os_encode_block (te_openssl env) m of
             None \<Rightarrow> (w, sign_failed)
           | Some digest_b64 \<Rightarrow>
               let req_json = cj_print (te_json env) (cj_object (te_json env) (sign_request_members env rs type digest_b64))
               in case te_sign_http env (sign_call rs req_json) w of
                    (w', None) \<Rightarrow> (w', sign_failed)
                  | (w', Some (status, resp)) \<Rightarrow>
                      if status \<ge> 400 then (w', sign_failed)
                      else case resp of
                        None \<Rightarrow> (w', sign_failed)
                      | Some text \<Rightarrow>
                          (case cj_parse (te_json env) text of
                             None \<Rightarrow> (w', sign_failed)
                           | Some resp_json \<Rightarrow> (w', read_signature env modulus resp_json))))"

definition remote_rsa_decrypt :: "byte list \<Rightarrow> byte list option" where
  "remote_rsa_decrypt inp = None"

section \<open>Building the context\<close>

datatype tls_version = TLS1_2_VERSION | TLS1_3_VERSION

record 'c tls_ctx =
  tc_min_version :: tls_version
  tc_max_version :: tls_version
  tc_cipher_list :: cstring
  tc_groups :: cstring
  tc_sigalgs :: cstring
  tc_verify_peer :: bool
  tc_leaf :: "'c option"
  tc_chain :: "'c list"
  tc_key :: "((nat \<times> nat) \<times> remote_signer_ctx_t) option"

definition new_tls_ctx :: "'c tls_ctx" where
  "new_tls_ctx =
     \<lparr>tc_min_version = TLS1_2_VERSION, tc_max_version = TLS1_2_VERSION,
      tc_cipher_list = ''ECDHE-RSA-AES128-GCM-SHA256:ECDHE-RSA-AES256-GCM-SHA384:ECDHE-RSA-CHACHA20-POLY1305'',
      tc_groups = ''X25519:P-256:P-384'', tc_sigalgs = ''RSA+SHA256:RSA+SHA384:RSA+SHA512'', tc_verify_peer = False,
      tc_leaf = None, tc_chain = [], tc_key = None\<rparr>"

text \<open>The objects the function allocates; it returns the list of those that are alive.\<close>

datatype tls_object = Ctx_object | Leaf_object | Pubkey_object | Cert_rsa_object | Engine_object | Rsa_object | Bn_n_object | Bn_e_object
  | Signer_object | Pkey_object

definition without_objects :: "tls_object list \<Rightarrow> tls_object list \<Rightarrow> tls_object list" where
  "without_objects objs live = filter (\<lambda>x. x \<notin> set objs) live"

text \<open>The certificate and its chain. Reading stops at the first text that is not a certificate; a leaf the context refuses is only
  logged.\<close>

definition use_chain :: "('j, 't, 'c, 'w) tls_env \<Rightarrow> cstring option \<Rightarrow> 'c tls_ctx \<Rightarrow> 'c option \<times> 'c tls_ctx" where
  "use_chain env cert_pem ctx =
     (case cert_pem of
        None \<Rightarrow> (None, ctx)
      | Some pem \<Rightarrow>
          if \<not> te_ok env BIO_new_mem_buf then (None, ctx)
          else case te_pem env pem of
            [] \<Rightarrow> (None, ctx)
          | leaf # cas \<Rightarrow>
              (Some leaf, ctx\<lparr>tc_leaf := if te_ok env SSL_CTX_use_certificate then Some leaf else None, tc_chain := cas\<rparr>))"

text \<open>From the RSA key of the leaf to the private key of the context. The key owns the numbers once they are set and the signer once it is
  attached, and frees them with itself; the private key owns the RSA key once it is assigned.\<close>

definition install_key ::
  "('j, 't, 'c, 'w) tls_env \<Rightarrow> nat \<times> nat \<Rightarrow> cstring \<Rightarrow> cstring option \<Rightarrow> cstring option \<Rightarrow> bool \<Rightarrow> 'c tls_ctx \<Rightarrow> tls_object list \<Rightarrow>
   tls_object list \<times> 'c tls_ctx option" where
  "install_key env key keyless_url hostname access_token insecure_skip_verify ctx live0 =
     (let numbers = (if te_ok env BN_dup_n then [Bn_n_object] else []) @ (if te_ok env BN_dup_e then [Bn_e_object] else [])
      in if \<not> te_ok env ENGINE_new then (without_objects [Cert_rsa_object, Ctx_object] live0, None)
         else let live1 = Engine_object # live0
         in if \<not> te_ok env ENGINE_set_RSA_method then (without_objects [Engine_object, Cert_rsa_object, Ctx_object] live1, None)
         else if \<not> te_ok env RSA_new_method
         then (without_objects [Cert_rsa_object, Ctx_object] (without_objects [Engine_object] live1), None)
         else let live2 = numbers @ Rsa_object # without_objects [Engine_object] live1
         in if \<not> te_ok env BN_dup_n \<or> \<not> te_ok env BN_dup_e
         then (without_objects [Bn_n_object, Bn_e_object, Rsa_object, Cert_rsa_object, Ctx_object] live2, None)
         else let live3 = without_objects [Cert_rsa_object] live2
         in case remote_signer_ctx_new (Some keyless_url) hostname access_token insecure_skip_verify of
              None \<Rightarrow> (without_objects [Rsa_object, Bn_n_object, Bn_e_object, Ctx_object] live3, None)
            | Some rsctx \<Rightarrow>
                let live4 = Signer_object # live3; rsa_and_owned = [Rsa_object, Bn_n_object, Bn_e_object, Signer_object]
                in if \<not> te_ok env RSA_set_ex_data
                   then (without_objects [Signer_object, Rsa_object, Bn_n_object, Bn_e_object, Ctx_object] live4, None)
                   else if \<not> te_ok env EVP_PKEY_new then (without_objects (Ctx_object # rsa_and_owned) live4, None)
                   else let live5 = Pkey_object # live4
                   in if \<not> te_ok env EVP_PKEY_assign_RSA then (without_objects [Pkey_object, Ctx_object] live5, None)
                   else if \<not> te_ok env SSL_CTX_use_PrivateKey
                   then (without_objects (Ctx_object # Pkey_object # rsa_and_owned) live5, None)
                   else (live5, Some (ctx\<lparr>tc_key := Some (key, rsctx)\<rparr>)))"

text \<open>The last reference to the private key is that of the context, which lives on with everything it owns.\<close>

definition portillia_keyless_build_tls_ctx ::
  "('j, 't, 'c, 'w) tls_env \<Rightarrow> cstring option \<Rightarrow> cstring \<Rightarrow> cstring option \<Rightarrow> bool \<Rightarrow> tls_object list \<times> 'c tls_ctx option" where
  "portillia_keyless_build_tls_ctx env keyless_url hostname access_token insecure_skip_verify =
     (case keyless_url of
        None \<Rightarrow> ([], None)
      | Some url \<Rightarrow>
          if \<not> te_ok env SSL_CTX_new then ([], None)
          else case use_chain env (fetch_cert_chain env url hostname insecure_skip_verify) new_tls_ctx of
            (None, _) \<Rightarrow> (without_objects [Ctx_object] [Ctx_object], None)
          | (Some leaf, ctx) \<Rightarrow>
              if \<not> te_ok env X509_get_pubkey then (without_objects [Leaf_object, Ctx_object] [Leaf_object, Ctx_object], None)
              else let live = [Pubkey_object, Leaf_object, Ctx_object]
              in case te_rsa env leaf of
                   None \<Rightarrow> (without_objects [Pubkey_object, Leaf_object, Ctx_object] live, None)
                 | Some key \<Rightarrow>
                     if \<not> te_ok env EVP_PKEY_get1_RSA
                     then (without_objects [Ctx_object] (without_objects [Pubkey_object, Leaf_object] live), None)
                     else install_key env key url (Some hostname) access_token insecure_skip_verify ctx
                            (Cert_rsa_object # without_objects [Pubkey_object, Leaf_object] live))"

section \<open>The files of the relay\<close>

text \<open>\<^verbatim>\<open>src/portal/keyless/server.c\<close>: the certificate files are texts; the identity file holds JSON.\<close>

definition signer_join_path :: "cstring \<Rightarrow> cstring \<Rightarrow> cstring" where
  "signer_join_path dir name = dir @ (if dir = [] \<or> last dir \<noteq> CHR ''/'' then ''/'' else []) @ name"

definition load_identity_json ::
  "('j, 't) cjson \<Rightarrow> (cstring \<Rightarrow> 't option) \<Rightarrow> write_outcome \<Rightarrow> cstring \<Rightarrow> 't file_system \<Rightarrow> keyless_keys \<Rightarrow>
   bool \<times> 't file_system \<times> keyless_keys" where
  "load_identity_json api bridge outcome identity_path fs keys =
     (case portillia_relay_identity_load_or_create api bridge outcome (Some identity_path) None fs of
        (None, fs') \<Rightarrow> (False, fs', keys)
      | (Some i, fs') \<Rightarrow>
          let priv = (if nonempty (ri_private_key i) then ri_private_key i else None);
              pub = (if nonempty (ri_public_key i) then ri_public_key i else None)
          in (priv \<noteq> None \<and> pub \<noteq> None, fs', keys\<lparr>kk_private_key_hex := priv, kk_public_key_hex := pub\<rparr>))"

definition portillia_keyless_server_setup ::
  "('j, 't) cjson \<Rightarrow> (cstring \<Rightarrow> 't option) \<Rightarrow> write_outcome \<Rightarrow> cstring option \<Rightarrow> 't file_system \<Rightarrow> keyless_keys \<Rightarrow>
   't file_system \<times> keyless_keys" where
  "portillia_keyless_server_setup api bridge outcome identity_path fs keys =
     (case identity_path of
        None \<Rightarrow> (fs, keys)
      | Some p \<Rightarrow> snd (load_identity_json api bridge outcome p fs (keys\<lparr>kk_identity_path := Some p\<rparr>)))"

definition load_acme_private_key :: "(cstring \<Rightarrow> 'k option) \<Rightarrow> cstring file_system \<Rightarrow> keyless_keys \<Rightarrow> 'k option" where
  "load_acme_private_key read_pem fs keys =
     (case kk_identity_path keys of
        None \<Rightarrow> None
      | Some dir \<Rightarrow> (case fs (signer_join_path dir ''privatekey.pem'') of None \<Rightarrow> None | Some text \<Rightarrow> read_pem text))"

definition handle_keyless_cert ::
  "cstring file_system \<Rightarrow> keyless_keys \<Rightarrow> cstring http_response \<Rightarrow> cstring http_response" where
  "handle_keyless_cert fs keys res =
     (case kk_identity_path keys of
        None \<Rightarrow> res\<lparr>rp_status := CWIST_HTTP_INTERNAL_ERROR\<rparr>
      | Some dir \<Rightarrow>
          (case fs (signer_join_path dir ''fullchain.pem'') of
             None \<Rightarrow> res\<lparr>rp_status := CWIST_HTTP_NOT_FOUND\<rparr>
           | Some pem \<Rightarrow> header_add ''Content-Type'' ''application/x-pem-file'' (res\<lparr>rp_body := Body_text (until_nul pem)\<rparr>)))"

section \<open>An instance of base64\<close>

text \<open>The encoding of RFC 4648, which meets \<open>base64_laws\<close>.\<close>

definition b64_alphabet :: cstring where
  "b64_alphabet = ''ABCDEFGHIJKLMNOPQRSTUVWXYZabcdefghijklmnopqrstuvwxyz0123456789+/''"

definition b64_sextets :: "nat \<Rightarrow> nat list" where
  "b64_sextets v = [v div 262144, v div 4096 mod 64, v div 64 mod 64, v mod 64]"

definition b64_group :: "byte \<Rightarrow> byte \<Rightarrow> byte \<Rightarrow> cstring" where
  "b64_group a b c = map ((!) b64_alphabet) (b64_sextets (be24 a b c))"

fun b64_encode :: "byte list \<Rightarrow> cstring" where
  "b64_encode [] = []"
| "b64_encode [a] = take 2 (b64_group a 0 0) @ ''==''"
| "b64_encode [a, b] = take 3 (b64_group a b 0) @ ''=''"
| "b64_encode (a # b # c # bs) = b64_group a b c @ b64_encode bs"

definition b64_value :: "char \<Rightarrow> nat option" where
  "b64_value c = (if c = CHR ''='' then Some 0 else first_index (\<lambda>x. x = c) b64_alphabet)"

definition b64_bytes :: "nat \<Rightarrow> byte list" where
  "b64_bytes v = [word_of_nat (v div 65536), word_of_nat (v div 256 mod 256), word_of_nat (v mod 256)]"

fun b64_decode :: "cstring \<Rightarrow> byte list option" where
  "b64_decode [] = Some []"
| "b64_decode (p # q # r # s # rest) =
     (case those (map b64_value [p, q, r, s]) of
        Some [i, j, k, l] \<Rightarrow> map_option (\<lambda>bs. b64_bytes (i * 262144 + j * 4096 + k * 64 + l) @ bs) (b64_decode rest)
      | _ \<Rightarrow> None)"
| "b64_decode _ = None"

lemma b64_value_char: "n < 64 \<Longrightarrow> b64_value (b64_alphabet ! n) = Some n"
proof -
  have "list_all (\<lambda>n. b64_value (b64_alphabet ! n) = Some n) [0..<64]" by code_simp
  then show "n < 64 \<Longrightarrow> ?thesis" by (simp add: list_all_iff)
qed

lemma b64_alphabet_no_pad: "n < 64 \<Longrightarrow> b64_alphabet ! n \<noteq> CHR ''=''"
proof -
  have "CHR ''='' \<notin> set b64_alphabet" "length b64_alphabet = 64" by (simp_all add: b64_alphabet_def)
  then show "n < 64 \<Longrightarrow> ?thesis" by (metis nth_mem)
qed

lemma sextets_bounded: "v < 16777216 \<Longrightarrow> n \<in> set (b64_sextets v) \<Longrightarrow> n < 64"
  by (auto simp: b64_sextets_def less_mult_imp_div_less)

lemma sextets_value: "v div 262144 * 262144 + v div 4096 mod 64 * 4096 + v div 64 mod 64 * 64 + v mod 64 = (v :: nat)"
proof -
  have "v div 4096 div 64 = v div 262144" "v div 64 div 64 = v div 4096" by (simp_all add: div_mult2_eq [symmetric])
  then have "v div 262144 * 64 + v div 4096 mod 64 = v div 4096" "v div 4096 * 64 + v div 64 mod 64 = v div 64"
    by (metis div_mult_mod_eq)+
  moreover have "v div 64 * 64 + v mod 64 = v" by (rule div_mult_mod_eq)
  ultimately show ?thesis by linarith
qed

lemma b64_bytes_be24: "b64_bytes (be24 a b c) = [a, b, c]"
proof -
  let ?v = "unat a * 65536 + unat b * 256 + unat c"
  have "unat b * 256 + unat c < 65536" using byte_less [of b] byte_less [of c] by linarith
  then have "?v div 65536 = unat a" by (simp add: div_mult_self3 add.assoc)
  moreover have "?v div 256 = unat a * 256 + unat b"
    using byte_less [of c] by (simp add: div_add1_eq add.assoc)
  moreover have "?v mod 256 = unat c" using byte_less [of c] by (simp add: mod_add_eq [symmetric])
  ultimately show ?thesis
    using byte_less [of b] by (simp add: b64_bytes_def be24_eq)
qed

lemma b64_group_eq:
  "b64_group a b c = [b64_alphabet ! (be24 a b c div 262144), b64_alphabet ! (be24 a b c div 4096 mod 64),
     b64_alphabet ! (be24 a b c div 64 mod 64), b64_alphabet ! (be24 a b c mod 64)]"
  by (simp add: b64_group_def b64_sextets_def)

lemma b64_group_values:
  "b64_value (b64_alphabet ! (be24 a b c div 262144)) = Some (be24 a b c div 262144)"
  "b64_value (b64_alphabet ! (x mod 64)) = Some (x mod 64)"
proof -
  have "be24 a b c div 262144 < 64" using be24_less [of a b c] by (simp add: less_mult_imp_div_less)
  then show "b64_value (b64_alphabet ! (be24 a b c div 262144)) = Some (be24 a b c div 262144)" by (rule b64_value_char)
qed (simp add: b64_value_char)

lemma b64_low_zero: "be24 a b 0 mod 64 = 0" "be24 a 0 0 div 64 mod 64 = 0" "be24 a 0 0 mod 64 = 0"
proof -
  have "be24 a b 0 = 64 * (unat a * 1024 + unat b * 4)" "be24 a 0 0 = 4096 * (unat a * 16)"
    "be24 a 0 0 = 64 * (64 * (unat a * 16))" by (simp_all add: be24_eq)
  then show "be24 a b 0 mod 64 = 0" "be24 a 0 0 div 64 mod 64 = 0" "be24 a 0 0 mod 64 = 0" by simp_all
qed

lemma b64_decode_group:
  "b64_decode (b64_group a b c @ rest) = map_option ((@) [a, b, c]) (b64_decode rest)"
  "b64_decode (take 2 (b64_group a 0 0) @ ''==''  @ rest) = map_option ((@) [a, 0, 0]) (b64_decode rest)"
  "b64_decode (take 3 (b64_group a b 0) @ ''='' @ rest) = map_option ((@) [a, b, 0]) (b64_decode rest)"
  using sextets_value [of "be24 a b c"] sextets_value [of "be24 a 0 0"] sextets_value [of "be24 a b 0"]
    b64_bytes_be24 [of a b c] b64_bytes_be24 [of a 0 0] b64_bytes_be24 [of a b 0]
  by (simp_all add: b64_group_eq b64_group_values b64_low_zero numeral_2_eq_2 numeral_3_eq_3 b64_value_def [of "CHR ''=''"]
      option.map_comp comp_def)

lemma b64_decode_encode: "b64_decode (b64_encode bs) = Some (bs @ replicate (block_fill (length bs)) 0)"
proof (induction bs rule: b64_encode.induct)
  case (4 a b c bs)
  then show ?case by (simp add: b64_decode_group block_fill_def)
next
  case (2 a)
  show ?case using b64_decode_group(2) [of a "[]"] by (simp add: block_fill_def numeral_2_eq_2)
next
  case (3 a b)
  show ?case using b64_decode_group(3) [of a b "[]"] by (simp add: block_fill_def)
qed (simp add: block_fill_def)

lemma takeWhile_stops: "\<not> P c \<Longrightarrow> takeWhile P (xs @ c # ys) = takeWhile P xs"
  by (induction xs) auto

lemma pads_after: "c \<noteq> CHR ''='' \<Longrightarrow> trailing_pads (xs @ c # s) = trailing_pads s"
  unfolding trailing_pads_def by (simp add: takeWhile_stops)

lemma group_char: "b64_alphabet ! (x mod 64) \<noteq> CHR ''=''"
  by (rule b64_alphabet_no_pad) simp

lemma pads_encode: "trailing_pads (b64_encode bs) = block_fill (length bs)"
proof (induction bs rule: b64_encode.induct)
  case (2 a)
  have "trailing_pads (b64_encode [a]) = trailing_pads ''==''"
    using pads_after [OF group_char, of "[b64_alphabet ! (be24 a 0 0 div 262144)]" "be24 a 0 0 div 4096" "''==''"]
    unfolding b64_encode.simps b64_group_eq by (simp only: take_Suc_Cons numeral_2_eq_2 take_0 append_Cons append_Nil)
  then show ?case by (simp add: trailing_pads_def block_fill_def)
next
  case (3 a b)
  have "trailing_pads (b64_encode [a, b]) = trailing_pads ''=''"
    using pads_after [OF group_char, of "[b64_alphabet ! (be24 a b 0 div 262144), b64_alphabet ! (be24 a b 0 div 4096 mod 64)]"
        "be24 a b 0 div 64" "''=''"]
    unfolding b64_encode.simps b64_group_eq by (simp only: take_Suc_Cons numeral_3_eq_3 take_0 append_Cons append_Nil)
  then show ?case by (simp add: trailing_pads_def block_fill_def)
next
  case (4 a b c bs)
  have "trailing_pads (b64_group a b c @ s) = trailing_pads s" for s
    using pads_after [OF group_char, of "butlast (b64_group a b c)" "be24 a b c" s] unfolding b64_group_eq by simp
  then show ?case using 4 by (simp add: block_fill_def)
qed (simp add: trailing_pads_def block_fill_def)

definition rfc_openssl :: openssl where
  "rfc_openssl = sample_openssl\<lparr>os_decode_block := b64_decode, os_encode_block := \<lambda>bs. Some (b64_encode bs)\<rparr>"

lemma rfc_openssl_laws: "base64_laws rfc_openssl"
  by (simp add: base64_laws_def rfc_openssl_def b64_decode_encode pads_encode)

section \<open>The signing request and the signing endpoint\<close>

text \<open>The terminator against the endpoint of the theory \<open>Keyless_Sign\<close>: the header lines of the call become the headers of the request.\<close>

definition call_header :: "cstring list \<Rightarrow> cstring \<Rightarrow> cstring option" where
  "call_header hs k = map_option (drop (length k + 2)) (find (\<lambda>h. take (length k + 2) h = k @ '': '') hs)"

definition sign_relay ::
  "openssl \<Rightarrow> ('j, 't) cjson \<Rightarrow> 't token_bridge \<Rightarrow> keyless_keys \<Rightarrow> bool \<Rightarrow> timespec \<Rightarrow> ('t \<Rightarrow> nat) \<Rightarrow> 't relay_link \<Rightarrow>
   't sdk_call \<Rightarrow> portillia_binding_registry \<Rightarrow> portillia_binding_registry \<times> (int \<times> 't option) option" where
  "sign_relay os api br keys pkey now text_size lk call bindings =
     (case handle_keyless_sign os api br keys pkey now bindings
             ((relay_request lk ''/v1/sign'' call)
                \<lparr>rq_header := call_header (call_headers call),
                 rq_body_size := (case call_body call of None \<Rightarrow> 0 | Some t \<Rightarrow> text_size t)\<rparr>) fresh_response of
        None \<Rightarrow> (bindings, None)
      | Some (bindings', res) \<Rightarrow> (bindings', Some (lk_status lk (rp_status res), lk_render lk (rp_body res))))"

lemma sign_call_simps [simp]:
  "call_method (sign_call rs t) = ''POST''" "call_body (sign_call rs t) = Some t"
  "call_header (call_headers (sign_call rs t)) ''Content-Type'' = Some ''application/json''"
  by (simp_all add: sign_call_def call_header_def)

lemma sign_request_fields:
  assumes laws: "cjson_laws api view" and api: "te_json env = api"
    and doc: "view doc = view (cj_object api (sign_request_members env rs type digest))"
  shows "str_member api doc ''binding'' = None"
  using assms
  by (auto simp: str_member_view [OF laws] sign_request_members_def Let_def cjson_view [OF laws] str_tolower_def char_tolower_def
      char_code_def split: option.splits)

lemma sign_request_rejected:
  assumes laws: "cjson_laws (te_json env) view"
    and req: "rq_method req = CWIST_HTTP_POST" "rq_header req ''Content-Type'' = Some ''application/json''"
      "rq_body req = Some (cj_print (te_json env) (cj_object (te_json env) (sign_request_members env rs type digest)))"
  shows "\<exists>res'. handle_keyless_sign os (te_json env) br keys pkey now bindings req res = Some (bindings, res') \<and>
    rp_status res' = CWIST_HTTP_BAD_REQUEST"
proof -
  obtain doc where doc: "cj_parse (te_json env)
      (cj_print (te_json env) (cj_object (te_json env) (sign_request_members env rs type digest))) = Some doc"
    "view doc = view (cj_object (te_json env) (sign_request_members env rs type digest))"
    by (rule cjson_print_parse [OF laws])
  have "json_b64_field os (te_json env) doc ''binding'' = None"
    using sign_request_fields [OF laws refl doc(2)] by (simp add: json_b64_field_def)
  then show ?thesis using req doc(1) by (simp add: handle_keyless_sign_def Let_def)
qed

text \<open>C37. The terminator and the signing endpoint of the same repository do not understand each other: whatever the handshake asks to have
  signed, the request carries a digest and no transcript, and the endpoint refuses it before it looks at the token. The RSA method
  always fails and no binding is spent, so that no handshake with the context of the tenant can be completed.\<close>

theorem remote_sign_refused:
  assumes laws: "cjson_laws (te_json env) view" and status: "400 \<le> lk_status lk CWIST_HTTP_BAD_REQUEST"
    and relay: "te_sign_http env = sign_relay os (te_json env) br keys pkey now text_size lk"
  shows "remote_rsa_sign env signer modulus type m bindings = (bindings, sign_failed)"
proof (cases "type = NID_undef \<or> signer = None \<or> os_encode_block (te_openssl env) m = None")
  case False
  then obtain rs digest where rs: "type \<noteq> NID_undef" "signer = Some rs" "os_encode_block (te_openssl env) m = Some digest"
    by auto
  let ?t = "cj_print (te_json env) (cj_object (te_json env) (sign_request_members env rs type digest))"
  let ?req = "(relay_request lk ''/v1/sign'' (sign_call rs ?t))
    \<lparr>rq_header := call_header (call_headers (sign_call rs ?t)), rq_body_size := text_size ?t\<rparr>"
  obtain res' where "handle_keyless_sign os (te_json env) br keys pkey now bindings ?req fresh_response = Some (bindings, res')"
    "rp_status res' = CWIST_HTTP_BAD_REQUEST"
    using sign_request_rejected [OF laws, of ?req rs type digest os br keys pkey now bindings fresh_response]
    by (auto simp: relay_request_def)
  then show ?thesis
    using rs status by (simp add: remote_rsa_sign_def relay sign_relay_def Let_def)
qed (auto simp: remote_rsa_sign_def split: option.splits)

definition sample_tls :: "(json, json, cstring, portillia_binding_registry) tls_env" where
  "sample_tls = \<lparr>te_json = tree_json, te_openssl = rfc_openssl,
     te_sign_http = sign_relay rfc_openssl tree_json sample_bridge sample_keys True (399, 0) (\<lambda>_. 100) toy_link,
     te_cert_http = (\<lambda>_ _. None), te_rand = (\<lambda>i. word_of_nat i), te_now = 399, te_pem = (\<lambda>pem. [pem]), te_rsa = (\<lambda>_. Some (2 ^ 2047, 65537)),
     te_ok = (\<lambda>_. True)\<rparr>"

definition sample_signer :: remote_signer_ctx_t where
  "sample_signer = \<lparr>rs_endpoint = ''https://r.io'', rs_server_name = Some ''a.r.io'', rs_access_token = Some ''tok'',
     rs_insecure_skip_verify = False\<rparr>"

theorem remote_sign_refused_witness:
  "remote_rsa_sign sample_tls (Some sample_signer) (2 ^ 2047) NID_sha256 (replicate 32 7) (portillia_bindings_new 300) =
     (portillia_bindings_new 300, sign_failed)"
  by (rule remote_sign_refused [of sample_tls "\<lambda>j. j" toy_link rfc_openssl sample_bridge sample_keys True "(399, 0)" "\<lambda>_. 100"])
    (simp_all add: sample_tls_def tree_json_laws toy_link_def)

section \<open>Reading a signature\<close>

lemma base64_decode_into_encoded:
  assumes laws: "base64_laws os" and enc: "os_encode_block os bs = Some s"
  shows "base64_decode_into os (Some s) out_max =
    (bs @ replicate (block_fill (length bs)) 0, if length bs + block_fill (length bs) > out_max then -1 else int (length bs))"
proof -
  have "os_decode_block os s = Some (bs @ replicate (block_fill (length bs)) 0)" "trailing_pads s = block_fill (length bs)"
    using laws enc unfolding base64_laws_def by (metis option.inject)+
  then show ?thesis by (simp add: base64_decode_into_def Let_def)
qed

lemma block_fill_eq_0: "block_fill n = 0 \<longleftrightarrow> 3 dvd n"
  by (simp add: block_fill_def) presburger

text \<open>C38. A genuine signature of the length of the key is only accepted when that length is divisible by three. For every other key, the
  usual 2048 and 4096 bits among them, the decoder writes one or two bytes behind the heap buffer and then reports failure,
  although the relay answered with the right signature.\<close>

theorem remote_signature_needs_divisible_key:
  assumes b64: "base64_laws (te_openssl env)" and laws: "cjson_laws (te_json env) view"
    and doc: "json_get (view resp_json) ''signature'' = Some (JString b64)" "os_encode_block (te_openssl env) sig = Some b64"
    and len: "length sig = RSA_size modulus" "0 < RSA_size modulus"
  shows "read_signature env modulus resp_json =
    (if 3 dvd RSA_size modulus then \<lparr>so_ok = True, so_sig = sig, so_overrun = 0\<rparr>
     else \<lparr>so_ok = False, so_sig = [], so_overrun = block_fill (RSA_size modulus)\<rparr>)"
proof -
  have "str_member (te_json env) resp_json ''signature'' = Some b64" using doc(1) by (simp add: str_member_view [OF laws])
  then show ?thesis
    using base64_decode_into_encoded [OF b64 doc(2), of "RSA_size modulus"] len block_fill_eq_0 [of "RSA_size modulus"]
    by (auto simp: read_signature_def Let_def)
qed

lemma RSA_size_power: "RSA_size (2 ^ n) = (n + 8) div 8"
proof -
  have "floorlog 2 (2 ^ n) = n + 1" by (simp add: floorlog_def)
  then show ?thesis by (simp add: RSA_size_def)
qed

theorem remote_signature_needs_divisible_key_witness:
  "read_signature sample_tls (2 ^ 2047) (JObject [(''signature'', JString (b64_encode (replicate 256 1)))]) =
     \<lparr>so_ok = False, so_sig = [], so_overrun = 2\<rparr> \<and>
   read_signature sample_tls (2 ^ 4095) (JObject [(''signature'', JString (b64_encode (replicate 512 1)))]) =
     \<lparr>so_ok = False, so_sig = [], so_overrun = 1\<rparr> \<and>
   read_signature sample_tls (2 ^ 3071) (JObject [(''signature'', JString (b64_encode (replicate 384 1)))]) =
     \<lparr>so_ok = True, so_sig = replicate 384 1, so_overrun = 0\<rparr>"
proof -
  have laws: "base64_laws (te_openssl sample_tls)" "cjson_laws (te_json sample_tls) (\<lambda>j. j)"
    by (simp_all add: sample_tls_def rfc_openssl_laws tree_json_laws)
  have enc: "os_encode_block (te_openssl sample_tls) bs = Some (b64_encode bs)" for bs
    by (simp add: sample_tls_def rfc_openssl_def)
  have "json_get (JObject [(''signature'', v)]) ''signature'' = Some v" for v by simp
  note read = remote_signature_needs_divisible_key [OF laws this enc]
  have size: "RSA_size (2 ^ 2047) = 256" "RSA_size (2 ^ 4095) = 512" "RSA_size (2 ^ 3071) = 384"
    by (simp_all only: RSA_size_power)
  have arith: "\<not> 3 dvd (256 :: nat)" "\<not> 3 dvd (512 :: nat)" "3 dvd (384 :: nat)" "block_fill 256 = 2" "block_fill 512 = 1"
    by (simp_all add: block_fill_def)
  show ?thesis
    using read [of "replicate 256 1" "2 ^ 2047", unfolded size, simplified arith]
      read [of "replicate 512 1" "2 ^ 4095", unfolded size, simplified arith]
      read [of "replicate 384 1" "2 ^ 3071", unfolded size, simplified arith]
    by (simp only: length_replicate if_True if_False)
qed

section \<open>The context of the tenant\<close>

lemma fold_curl_write:
  assumes "list_all (\<lambda>c. until_nul c = c) chunks" "until_nul b = b"
  shows "fold curl_write_cb chunks (Some b) = Some (b @ concat chunks)"
  using assms
proof (induction chunks arbitrary: b)
  case (Cons c chunks)
  have "until_nul (b @ c) = b @ c" using Cons.prems by (auto simp: until_nul_def takeWhile_eq_all_conv)
  then show ?case using Cons by (simp add: curl_write_cb_def)
qed simp

lemma received_chunks:
  assumes "list_all (\<lambda>c. until_nul c = c) chunks" "chunks \<noteq> []"
  shows "map_option until_nul (fold curl_write_cb chunks None) = Some (concat chunks)"
proof (cases chunks)
  case (Cons c cs)
  have "until_nul (c @ concat cs) = c @ concat cs"
    using assms Cons by (auto simp: until_nul_def takeWhile_eq_all_conv list_all_iff)
  then show ?thesis using fold_curl_write [of cs c] assms Cons by (simp add: curl_write_cb_def until_nul_def)
qed (use assms in simp)

text \<open>The endpoint as the network of the terminator: the body arrives in pieces, the query is ignored.\<close>

definition cert_relay ::
  "cstring file_system \<Rightarrow> keyless_keys \<Rightarrow> cstring relay_link \<Rightarrow> (cstring \<Rightarrow> cstring list) \<Rightarrow> cstring \<Rightarrow> cstring \<Rightarrow> bool \<Rightarrow>
   (int \<times> cstring list) option" where
  "cert_relay fs keys lk pieces base url skip =
     (if takeWhile (\<lambda>c. c \<noteq> CHR ''?'') (drop (length base) url) = ''/.well-known/keyless-tls/cert''
      then let res = handle_keyless_cert fs keys fresh_response
           in Some (lk_status lk (rp_status res), case rp_body res of Body_text t \<Rightarrow> pieces t | _ \<Rightarrow> [])
      else None)"

text \<open>C12. A tenant whose relay has a certificate for an RSA key serves exactly that certificate: the chain in the file of the relay reaches
  the terminator however the transfer is cut, the context holds its first certificate as the leaf and the others as the chain, its
  key has the modulus and exponent of the leaf and signs at the relay with the token of the lease, and only TLS 1.2 is offered.\<close>

theorem tenant_serves_relay_certificate:
  assumes keys: "kk_identity_path keys = Some dir" "fs (signer_join_path dir ''fullchain.pem'') = Some pem"
    and whole: "until_nul pem = pem" "concat (pieces pem) = pem" "pieces pem \<noteq> []"
    and link: "lk_status lk (Http_code 200) < 400" "te_cert_http env = cert_relay fs keys lk pieces url"
    and short: "length url + length hostname < 2000"
    and cert: "te_pem env pem = leaf # cas" "te_rsa env leaf = Some key" and ok: "te_ok env = (\<lambda>_. True)"
  shows "snd (portillia_keyless_build_tls_ctx env (Some url) hostname token skip) =
    Some (new_tls_ctx\<lparr>tc_leaf := Some leaf, tc_chain := cas,
      tc_key := Some (key, \<lparr>rs_endpoint = url, rs_server_name = Some hostname, rs_access_token = token, rs_insecure_skip_verify = skip\<rparr>)\<rparr>)"
proof -
  have "CHR 0x00 \<notin> set (concat (pieces pem))"
    unfolding whole(2) using whole(1) unfolding until_nul_def takeWhile_eq_all_conv by blast
  then have "list_all (\<lambda>c. until_nul c = c) (pieces pem)"
    unfolding list_all_iff until_nul_def takeWhile_eq_all_conv set_concat by blast
  then have chunks: "map_option until_nul (fold curl_write_cb (pieces pem) None) = Some pem"
    using received_chunks [of "pieces pem"] whole(2,3) by simp
  let ?url = "url @ ''/.well-known/keyless-tls/cert?server_name='' @ hostname"
  have "snprintf_s 2048 ?url = ?url" using short by (intro snprintf_s_fits) simp
  moreover have "cert_relay fs keys lk pieces url ?url skip = Some (lk_status lk (Http_code 200), pieces pem)"
    using keys whole(1) by (simp add: cert_relay_def Let_def handle_keyless_cert_def fresh_response_def header_add_def)
  ultimately have "fetch_cert_chain env url hostname skip = Some pem"
    using link chunks unfolding fetch_cert_chain_def Let_def by simp
  then show ?thesis
    using cert ok
    by (simp add: portillia_keyless_build_tls_ctx_def use_chain_def install_key_def remote_signer_ctx_new_def Let_def)
qed

definition sample_cert_tls :: "(json, json, cstring, unit) tls_env" where
  "sample_cert_tls = \<lparr>te_json = tree_json, te_openssl = rfc_openssl, te_sign_http = (\<lambda>_ w. (w, None)),
     te_cert_http = cert_relay [''d/fullchain.pem'' \<mapsto> ''PEM''] (sample_keys\<lparr>kk_identity_path := Some ''d''\<rparr>)
       \<lparr>lk_header = (\<lambda>_. None), lk_peer = None, lk_status = (\<lambda>_. 200), lk_render = (\<lambda>_. None), lk_versions = ([], [])\<rparr> (\<lambda>t. [take 1 t, drop 1 t])
       ''https://r.io'',
     te_rand = (\<lambda>_. 0), te_now = 0, te_pem = (\<lambda>pem. [pem]), te_rsa = (\<lambda>_. Some (2 ^ 2047, 65537)), te_ok = (\<lambda>_. True)\<rparr>"

theorem tenant_serves_relay_certificate_witness:
  "snd (portillia_keyless_build_tls_ctx sample_cert_tls (Some ''https://r.io'') ''a.r.io'' (Some ''tok'') False) =
    Some (new_tls_ctx\<lparr>tc_leaf := Some ''PEM'', tc_chain := [], tc_key := Some ((2 ^ 2047, 65537), sample_signer)\<rparr>)"
  unfolding sample_signer_def
  by (rule tenant_serves_relay_certificate [of "sample_keys\<lparr>kk_identity_path := Some ''d''\<rparr>" "''d''" "[''d/fullchain.pem'' \<mapsto> ''PEM'']" "''PEM''"
      "\<lambda>t. [take 1 t, drop 1 t]"
      "\<lparr>lk_header = (\<lambda>_. None), lk_peer = None, lk_status = (\<lambda>_. 200), lk_render = (\<lambda>_. None), lk_versions = ([], [])\<rparr>"])
    (simp_all add: sample_cert_tls_def signer_join_path_def until_nul_def)

lemma install_key_ownership:
  assumes "install_key env key url hostname token skip c [Cert_rsa_object, Ctx_object] = (live, ctx)"
  shows "ctx = None \<Longrightarrow> te_ok env EVP_PKEY_assign_RSA \<Longrightarrow> live = []"
    and "ctx = None \<Longrightarrow> live \<noteq> [] \<Longrightarrow> set live = {Rsa_object, Bn_n_object, Bn_e_object, Signer_object}"
    and "ctx \<noteq> None \<Longrightarrow> set live = {Ctx_object, Pkey_object, Rsa_object, Bn_n_object, Bn_e_object, Signer_object}"
  using assms by (auto simp: install_key_def remote_signer_ctx_new_def without_objects_def Let_def split: if_splits)

text \<open>Every path that fails frees what was allocated, except the one on which the key cannot be assigned: the RSA key is leaked with
  its numbers and the signer. On success exactly the objects of the context are alive.\<close>

theorem tls_context_ownership:
  assumes build: "portillia_keyless_build_tls_ctx env keyless_url hostname token skip = (live, ctx)"
  shows "set live =
    (if ctx \<noteq> None then {Ctx_object, Pkey_object, Rsa_object, Bn_n_object, Bn_e_object, Signer_object}
     else if te_ok env EVP_PKEY_assign_RSA \<or> live = [] then {} else {Rsa_object, Bn_n_object, Bn_e_object, Signer_object})"
proof (cases "live = [] \<and> ctx = None")
  case False
  then obtain url key c where
    "install_key env key url (Some hostname) token skip c [Cert_rsa_object, Ctx_object] = (live, ctx)"
    using build
    by (simp add: portillia_keyless_build_tls_ctx_def without_objects_def Let_def split: option.splits prod.splits if_splits)
  from install_key_ownership [OF this] show ?thesis by auto
qed auto

end
