(* ===== verification/Acme.thy ===== *)
theory Acme
  imports Dns_Providers Keyless_Tls
begin

text \<open>
  The certificate manager of the relay, \<^verbatim>\<open>src/portal/acme/manager.c\<close>: its account files, provisioning a certificate with the command line
  tool \<open>lego\<close>, completing the chain with shell commands, fulfilling DNS challenges and keeping the address and ENS records.

  The shell is a parameter: what a command does to the files, and the first line a pipe prints. Every command that is run is kept
  in order. The resolver, the transfer of the public address and the DNS provider are parameters as well; a null pointer that is
  dereferenced makes an operation \<open>None\<close>.
\<close>

section \<open>State\<close>

type_synonym environ = "cstring \<rightharpoonup> cstring"

record shell =
  sh_system :: "cstring \<Rightarrow> environ \<Rightarrow> cstring file_system \<Rightarrow> cstring file_system \<times> int"
  sh_popen :: "cstring \<Rightarrow> environ \<Rightarrow> cstring file_system \<Rightarrow> cstring option"
  sh_can_write :: "cstring \<Rightarrow> bool"
  sh_fetch :: "cstring \<Rightarrow> cstring list option"
  sh_res_query :: "nat \<Rightarrow> cstring \<Rightarrow> byte list option"

record 'd acme_world =
  aw_files :: "cstring file_system"
  aw_dirs :: "cstring set"
  aw_environ :: environ
  aw_commands :: "cstring list"
  aw_dns :: 'd

record portillia_acme_config =
  ac_base_domain :: "cstring option"
  ac_key_dir :: "cstring option"
  ac_dns_provider_type :: "cstring option"
  ac_ens_gasless_enabled :: bool
  ac_ens_gasless_address :: "cstring option"
  ac_cloudflare_token :: "cstring option"
  ac_gcp_project_id :: "cstring option"
  ac_gcp_managed_zone :: "cstring option"
  ac_njalla_token :: "cstring option"
  ac_aws_access_key_id :: "cstring option"
  ac_aws_secret_access_key :: "cstring option"
  ac_aws_session_token :: "cstring option"
  ac_aws_region :: "cstring option"
  ac_aws_hosted_zone_id :: "cstring option"
  ac_aws_kms_key_arn :: "cstring option"

record 'd portillia_acme_manager =
  am_cfg :: portillia_acme_config
  am_dns :: "'d dns_provider option"
  am_account_key_path :: cstring
  am_email :: cstring

definition run_system :: "shell \<Rightarrow> cstring \<Rightarrow> 'd acme_world \<Rightarrow> 'd acme_world \<times> int" where
  "run_system sh cmd w =
     (case sh_system sh cmd (aw_environ w) (aw_files w) of
        (fs', rc) \<Rightarrow> (w\<lparr>aw_files := fs', aw_commands := aw_commands w @ [cmd]\<rparr>, rc))"

definition setenv :: "cstring \<Rightarrow> cstring option \<Rightarrow> 'd acme_world \<Rightarrow> 'd acme_world" where
  "setenv name val w = (case val of None \<Rightarrow> w | Some v \<Rightarrow> w\<lparr>aw_environ := (aw_environ w)(name \<mapsto> v)\<rparr>)"

section \<open>The account\<close>

text \<open>\<open>fopen (path, "w")\<close>, one \<open>fprintf\<close>, \<open>fclose\<close>.\<close>

definition write_text :: "shell \<Rightarrow> cstring \<Rightarrow> cstring \<Rightarrow> 'd acme_world \<Rightarrow> 'd acme_world" where
  "write_text sh path data w = (if sh_can_write sh path then w\<lparr>aw_files := (aw_files w)(path \<mapsto> data)\<rparr> else w)"

definition ensure_acme_account ::
  "shell \<Rightarrow> portillia_acme_config \<Rightarrow> 'd acme_world \<Rightarrow> cstring \<times> cstring \<times> 'd acme_world" where
  "ensure_acme_account sh cfg w =
     (let key_path = snprintf_s 512 (printed (ac_key_dir cfg) @ ''/acme-account.key'');
          email = snprintf_s 256 (''acme@'' @ (case ac_base_domain cfg of None \<Rightarrow> ''example.com'' | Some d \<Rightarrow> d))
      in (key_path, email,
          if aw_files w key_path = None
          then write_text sh (snprintf_s 512 (printed (ac_key_dir cfg) @ ''/acme-registration.json'')) ''{}''
                 (write_text sh key_path ''dummy_acme_key'' w)
          else w))"

section \<open>The chain of the certificate\<close>

definition squote :: "cstring \<Rightarrow> cstring" where
  "squote s = [CHR 0x27] @ s @ [CHR 0x27]"

definition count_cmd :: "cstring \<Rightarrow> cstring" where
  "count_cmd cert_path = snprintf_s 2048 (''openssl crl2pkcs7 -nocrl -certfile '' @ squote cert_path @ '' 2>/dev/null | '' @
     ''openssl pkcs7 -print_certs -noout 2>/dev/null | grep -c '' @ squote ''BEGIN CERTIFICATE'')"

definition certificate_count :: "shell \<Rightarrow> cstring \<Rightarrow> 'd acme_world \<Rightarrow> 'd acme_world \<times> int" where
  "certificate_count sh cert_path w =
     (let cmd = count_cmd cert_path
      in (w\<lparr>aw_commands := aw_commands w @ [cmd]\<rparr>,
          case sh_popen sh cmd (aw_environ w) (aw_files w) of None \<Rightarrow> 0 | Some line \<Rightarrow> c_atoi (take 15 line)))"

definition copy_cmd :: "cstring \<Rightarrow> cstring \<Rightarrow> cstring \<Rightarrow> cstring" where
  "copy_cmd leaf_path issuer_path cert_path = snprintf_s 4096 (''cp '' @ squote leaf_path @ '' '' @ squote cert_path @ '' 2>/dev/null; '' @
     ''if [ -r '' @ squote issuer_path @ '' ]; then   cat '' @ squote issuer_path @ '' >> '' @ squote cert_path @ ''; fi'')"

definition copy_leaf_and_issuer_if_present ::
  "shell \<Rightarrow> cstring \<Rightarrow> cstring \<Rightarrow> cstring \<Rightarrow> 'd acme_world \<Rightarrow> 'd acme_world" where
  "copy_leaf_and_issuer_if_present sh leaf_path issuer_path cert_path w =
     fst (run_system sh (copy_cmd leaf_path issuer_path cert_path) w)"

definition aia_cmd :: "cstring \<Rightarrow> cstring \<Rightarrow> cstring" where
  "aia_cmd leaf_path cert_path = snprintf_s 8192 (''AIA=$(openssl x509 -in '' @ squote leaf_path @ '' -noout -text 2>/dev/null | '' @
     ''grep -A1 '' @ squote ''CA Issuers'' @ '' | grep '' @ squote ''URI:'' @ '' | sed '' @ squote ''s/.*URI://;s/^[[:space:]]*//'' @
     '' | head -1); if [ -n '' @ quoted ''$AIA'' @ '' ]; then   curl -fsSL --max-time 30 -L '' @ quoted ''$AIA'' @
     '' 2>/dev/null | openssl x509 -inform DER -outform PEM 2>/dev/null >> '' @ squote cert_path @ '' ||   curl -fsSL --max-time 30 -L '' @
     quoted ''$AIA'' @ '' 2>/dev/null >> '' @ squote cert_path @ ''; fi'')"

definition append_aia_issuer_from_leaf :: "shell \<Rightarrow> cstring \<Rightarrow> cstring \<Rightarrow> 'd acme_world \<Rightarrow> 'd acme_world" where
  "append_aia_issuer_from_leaf sh leaf_path cert_path w = fst (run_system sh (aia_cmd leaf_path cert_path) w)"

definition known_cmd :: "cstring \<Rightarrow> cstring" where
  "known_cmd cert_path = snprintf_s 4096 (''ISSUER=$(openssl x509 -in '' @ squote cert_path @ '' -noout -issuer 2>/dev/null); '' @
     ''if echo '' @ quoted ''$ISSUER'' @ '' | grep -qi '' @ squote ''R3'' @ ''; then   curl -fsSL --max-time 30 -L '' @
     squote ''https://letsencrypt.org/certs/lets-encrypt-r3.pem'' @ '' 2>/dev/null >> '' @ squote cert_path @ ''; elif echo '' @
     quoted ''$ISSUER'' @ '' | grep -qi '' @ squote (''R10'' @ [CHR 0x5C] @ ''|R11'') @ ''; then   curl -fsSL --max-time 30 -L '' @
     squote ''https://letsencrypt.org/certs/2024/r10.pem'' @ '' 2>/dev/null >> '' @ squote cert_path @
     '' ||   curl -fsSL --max-time 30 -L '' @ squote ''https://letsencrypt.org/certs/2024/r11.pem'' @ '' 2>/dev/null >> '' @
     squote cert_path @ ''; fi'')"

definition append_known_intermediate_if_needed :: "shell \<Rightarrow> cstring \<Rightarrow> 'd acme_world \<Rightarrow> 'd acme_world" where
  "append_known_intermediate_if_needed sh cert_path w = fst (run_system sh (known_cmd cert_path) w)"

text \<open>One of the repairs, run when the chain has fewer than two certificates.\<close>

definition repair :: "shell \<Rightarrow> cstring \<Rightarrow> ('d acme_world \<Rightarrow> 'd acme_world) \<Rightarrow> 'd acme_world \<Rightarrow> 'd acme_world" where
  "repair sh cert_path f w = (case certificate_count sh cert_path w of (w1, n) \<Rightarrow> if n < 2 then f w1 else w1)"

definition rebuild_fullchain_if_incomplete ::
  "shell \<Rightarrow> cstring \<Rightarrow> cstring \<Rightarrow> cstring \<Rightarrow> 'd acme_world \<Rightarrow> 'd acme_world" where
  "rebuild_fullchain_if_incomplete sh cert_path lego_leaf_path lego_issuer_path w =
     (case certificate_count sh cert_path w of
        (w1, n) \<Rightarrow>
          if n \<ge> 2 then w1
          else let have_lego = (aw_files w1 lego_leaf_path \<noteq> None); leaf_path = (if have_lego then lego_leaf_path else cert_path);
                   w2 = (if have_lego then copy_leaf_and_issuer_if_present sh lego_leaf_path lego_issuer_path cert_path w1 else w1);
                   w3 = repair sh cert_path (append_aia_issuer_from_leaf sh leaf_path cert_path) w2;
                   w4 = repair sh cert_path (append_known_intermediate_if_needed sh cert_path) w3
               in repair sh cert_path (\<lambda>w. w) w4)"

section \<open>The manager\<close>

definition portillia_acme_manager_new ::
  "shell \<Rightarrow> ('j, 't, 'n) dns_env \<Rightarrow> portillia_acme_config \<Rightarrow> 'n dns_world acme_world \<Rightarrow>
   ('n dns_world portillia_acme_manager \<times> 'n dns_world acme_world) option" where
  "portillia_acme_manager_new sh env cfg w =
     (let build = (\<lambda>dns. case ensure_acme_account sh cfg w of (key_path, email, w') \<Rightarrow>
            Some (\<lparr>am_cfg = cfg, am_dns = dns, am_account_key_path = key_path, am_email = email\<rparr>, w'))
      in if ac_dns_provider_type cfg = Some ''cloudflare''
         then case portillia_cloudflare_new env (ac_cloudflare_token cfg) of None \<Rightarrow> None | Some p \<Rightarrow> build (Some p)
         else if ac_dns_provider_type cfg = Some ''gcloud''
         then build (Some (portillia_gcloud_new env (ac_gcp_project_id cfg) (ac_gcp_managed_zone cfg)))
         else if ac_dns_provider_type cfg = Some ''route53''
         then build (Some (portillia_route53_new env (ac_aws_access_key_id cfg) (ac_aws_secret_access_key cfg)
                (ac_aws_session_token cfg) (ac_aws_region cfg) (ac_aws_hosted_zone_id cfg) (ac_aws_kms_key_arn cfg)))
         else build None)"

definition acme_home :: "portillia_acme_config \<Rightarrow> cstring" where
  "acme_home cfg = snprintf_s 512 (printed (ac_key_dir cfg) @ ''/.lego'')"

definition acme_cert_path :: "portillia_acme_config \<Rightarrow> cstring" where
  "acme_cert_path cfg = snprintf_s 512 (printed (ac_key_dir cfg) @ ''/fullchain.pem'')"

definition acme_key_path :: "portillia_acme_config \<Rightarrow> cstring" where
  "acme_key_path cfg = snprintf_s 512 (printed (ac_key_dir cfg) @ ''/privatekey.pem'')"

definition lego_leaf_path :: "portillia_acme_config \<Rightarrow> cstring" where
  "lego_leaf_path cfg = snprintf_s 512 (acme_home cfg @ ''/certificates/'' @ printed (ac_base_domain cfg) @ ''.crt'')"

definition lego_issuer_path :: "portillia_acme_config \<Rightarrow> cstring" where
  "lego_issuer_path cfg = snprintf_s 512 (acme_home cfg @ ''/certificates/'' @ printed (ac_base_domain cfg) @ ''.issuer.crt'')"

text \<open>The name of the provider for lego and the variable that carries its credential.\<close>

definition lego_provider :: "portillia_acme_config \<Rightarrow> cstring \<Rightarrow> (cstring \<times> cstring \<times> cstring option) option" where
  "lego_provider cfg type =
     (if type = ''cloudflare'' then Some (''cloudflare'', ''CLOUDFLARE_DNS_API_TOKEN'', ac_cloudflare_token cfg)
      else if type = ''gcloud'' then Some (''gcloud'', ''GCE_PROJECT'', ac_gcp_project_id cfg)
      else if type = ''route53'' then Some (''route53'', ''AWS_HOSTED_ZONE_ID'', ac_aws_hosted_zone_id cfg)
      else if type = ''njalla'' then Some (''njalla'', ''NJALLA_TOKEN'', ac_njalla_token cfg)
      else None)"

definition lego_cmd :: "portillia_acme_config \<Rightarrow> cstring \<Rightarrow> cstring" where
  "lego_cmd cfg lego_dns =
     (let d = printed (ac_base_domain cfg)
      in snprintf_s 2048 (''lego run --accept-tos --email portal@'' @ d @ '' --dns '' @ lego_dns @ '' --domains '' @ d @ '' --domains '' @
           squote (''*.'' @ d) @ '' --path '' @ acme_home cfg))"

definition cp_key_cmd :: "portillia_acme_config \<Rightarrow> cstring" where
  "cp_key_cmd cfg = snprintf_s 4096 (''cp '' @ acme_home cfg @ ''/certificates/'' @ printed (ac_base_domain cfg) @ ''.key '' @ acme_key_path cfg)"

text \<open>Running lego, and with its success installing the chain and the key.\<close>

definition provision :: "shell \<Rightarrow> portillia_acme_config \<Rightarrow> cstring \<Rightarrow> 'd acme_world \<Rightarrow> (cstring \<times> cstring) option \<times> 'd acme_world" where
  "provision sh cfg lego_dns w =
     (case run_system sh (lego_cmd cfg lego_dns) w of
        (w1, ret) \<Rightarrow>
          if ret \<noteq> 0 then (None, w1)
          else let w2 = rebuild_fullchain_if_incomplete sh (acme_cert_path cfg) (lego_leaf_path cfg) (lego_issuer_path cfg) w1;
                   w3 = fst (run_system sh (cp_key_cmd cfg) w2)
               in if aw_files w3 (acme_cert_path cfg) \<noteq> None \<and> aw_files w3 (acme_key_path cfg) \<noteq> None
                  then (Some (acme_cert_path cfg, acme_key_path cfg), w3) else (None, w3))"

definition portillia_acme_manager_ensure_certificate ::
  "shell \<Rightarrow> portillia_acme_config \<Rightarrow> 'd acme_world \<Rightarrow> ((cstring \<times> cstring) option \<times> 'd acme_world) option" where
  "portillia_acme_manager_ensure_certificate sh cfg w0 =
     (let w = w0\<lparr>aw_dirs := insert (acme_home cfg) (aw_dirs w0)\<rparr>
      in if aw_files w (acme_cert_path cfg) \<noteq> None \<and> aw_files w (acme_key_path cfg) \<noteq> None
         then Some (Some (acme_cert_path cfg, acme_key_path cfg),
                rebuild_fullchain_if_incomplete sh (acme_cert_path cfg) (lego_leaf_path cfg) (lego_issuer_path cfg) w)
         else case ac_dns_provider_type cfg of
           None \<Rightarrow> None
         | Some type \<Rightarrow>
             (case lego_provider cfg type of
                None \<Rightarrow> Some (None, w)
              | Some (lego_dns, var, credential) \<Rightarrow> Some (provision sh cfg lego_dns (setenv var credential w))))"

section \<open>DNS\<close>

definition str_contains :: "cstring \<Rightarrow> cstring \<Rightarrow> bool" where
  "str_contains needle hay \<longleftrightarrow> list_ex (\<lambda>i. take (length needle) (drop i hay) = needle) [0..<Suc (length hay)]"

text \<open>The answer of the resolver is searched as a string. Without a NUL the search would leave the answer.\<close>

definition check_dns_txt :: "shell \<Rightarrow> nat \<Rightarrow> cstring \<Rightarrow> cstring \<Rightarrow> bool option" where
  "check_dns_txt sh k domain expected =
     (case sh_res_query sh k domain of
        None \<Rightarrow> Some False
      | Some answer \<Rightarrow> if 0 \<in> set answer then Some (str_contains expected (bytes_to_cstring answer)) else None)"

text \<open>The polls from the \<open>k\<close>-th on: whether the record became visible and how many seconds were slept.\<close>

fun poll_propagation :: "shell \<Rightarrow> cstring \<Rightarrow> cstring \<Rightarrow> nat list \<Rightarrow> (bool \<times> nat) option" where
  "poll_propagation sh domain key_auth [] = Some (False, 0)"
| "poll_propagation sh domain key_auth (k # ks) =
     (case check_dns_txt sh k domain key_auth of
        None \<Rightarrow> None
      | Some True \<Rightarrow> Some (True, 0)
      | Some False \<Rightarrow> map_option (\<lambda>(ok, t). (ok, 5 + t)) (poll_propagation sh domain key_auth ks))"

definition portillia_acme_fulfill_challenge ::
  "shell \<Rightarrow> 'd portillia_acme_manager \<Rightarrow> cstring \<Rightarrow> cstring \<Rightarrow> bool \<Rightarrow> 'd \<Rightarrow> ('d \<times> bool) option" where
  "portillia_acme_fulfill_challenge sh m domain key_auth create d =
     (case am_dns m of
        None \<Rightarrow> Some (d, False)
      | Some dns \<Rightarrow>
          let challenge_domain = snprintf_s 512 (''_acme-challenge.'' @ domain)
          in if create
             then case dn_ensure_txt_record dns challenge_domain key_auth d of
                    None \<Rightarrow> None
                  | Some (d', _) \<Rightarrow> map_option (\<lambda>(ok, t). (d', ok)) (poll_propagation sh challenge_domain key_auth [0..<20])
             else dn_delete_txt_records dns challenge_domain key_auth d)"

text \<open>The status of the answer is not looked at.\<close>

definition is_trimmed_char :: "char \<Rightarrow> bool" where
  "is_trimmed_char c \<longleftrightarrow> c \<in> {CHR 0x0A, CHR 0x0D, CHR '' '', CHR 0x09}"

definition fetch_public_ip :: "shell \<Rightarrow> cstring option" where
  "fetch_public_ip sh =
     (case sh_fetch sh ''https://ifconfig.me/ip'' of
        None \<Rightarrow> None
      | Some chunks \<Rightarrow>
          (case map_option until_nul (fold curl_write_cb chunks None) of
             None \<Rightarrow> None
           | Some buf \<Rightarrow>
               let trimmed = rev (dropWhile is_trimmed_char (rev buf)) in if trimmed = [] then None else Some trimmed))"

definition portillia_acme_manager_sync_dns ::
  "shell \<Rightarrow> 'd portillia_acme_manager \<Rightarrow> 'd \<Rightarrow> ('d \<times> bool) option" where
  "portillia_acme_manager_sync_dns sh m d =
     (case am_dns m of
        None \<Rightarrow> Some (d, True)
      | Some dns \<Rightarrow>
          (case ac_base_domain (am_cfg m) of
             None \<Rightarrow> None
           | Some domain \<Rightarrow>
               dn_ensure_a_records dns domain (case fetch_public_ip sh of None \<Rightarrow> ''127.0.0.1'' | Some ip \<Rightarrow> ip) d))"

definition portillia_acme_manager_sync_ens_gasless :: "'d portillia_acme_manager \<Rightarrow> 'd \<Rightarrow> ('d \<times> bool) option" where
  "portillia_acme_manager_sync_ens_gasless m d =
     (case am_dns m of
        None \<Rightarrow> Some (d, True)
      | Some dns \<Rightarrow>
          if \<not> ac_ens_gasless_enabled (am_cfg m) then Some (d, True)
          else case ac_base_domain (am_cfg m) of
            None \<Rightarrow> None
          | Some domain \<Rightarrow>
              (case dn_ensure_dnssec dns domain d of
                 None \<Rightarrow> None
               | Some (d', _) \<Rightarrow>
                   dn_ensure_txt_record dns domain
                     (snprintf_s 512 (''ENS1 0x238A8F792dFA6033814B18618aD4100654aeef01 '' @ printed (ac_ens_gasless_address (am_cfg m)))) d'))"

text \<open>The manager copies most strings of its configuration but not those for AWS, which belong to the environment; freeing one of them is
  undefined.\<close>

definition portillia_acme_manager_destroy :: "'d portillia_acme_manager option \<Rightarrow> unit option" where
  "portillia_acme_manager_destroy m =
     (case m of
        None \<Rightarrow> Some ()
      | Some m \<Rightarrow>
          if list_all (\<lambda>f. f (am_cfg m) = None) [ac_aws_access_key_id, ac_aws_secret_access_key, ac_aws_session_token, ac_aws_region,
               ac_aws_hosted_zone_id, ac_aws_kms_key_arn]
          then Some () else None)"

section \<open>Address records\<close>

context address_provider
begin

lemma sync_points:
  assumes "am_dns m = Some p" "dn_ensure_a_records p = ensure" "ac_base_domain (am_cfg m) = Some domain" "ready domain d"
    and ip: "ip = (case fetch_public_ip sh of None \<Rightarrow> ''127.0.0.1'' | Some a \<Rightarrow> a)"
  shows "\<exists>d'. portillia_acme_manager_sync_dns sh m d = Some (d', True) \<and> points d' domain ip \<and> points d' (''*.'' @ domain) ip"
  unfolding portillia_acme_manager_sync_dns_def using assms(1-3) ensure_points [OF assms(4), of ip] by (simp add: ip)

end

text \<open>A relay with Cloudflare: the manager that is made for its configuration lets the domain and all its subdomains point to the address that was
  found, or to the local host when none was.\<close>

lemma cloudflare_manager_syncs:
  assumes new: "portillia_acme_manager_new sh env cfg w = Some (m, w')"
    and cfg: "ac_dns_provider_type cfg = Some ''cloudflare''" "ac_cloudflare_token cfg = Some token" "ac_base_domain cfg = Some domain"
    and ready: "cloudflare_ready env view token zid zname keys room usable zone domain d"
    and ip: "ip = (case fetch_public_ip sh of None \<Rightarrow> ''127.0.0.1'' | Some a \<Rightarrow> a)"
  shows "\<exists>d'. portillia_acme_manager_sync_dns sh m d = Some (d', True) \<and> zone_points zone d' domain ip \<and>
    zone_points zone d' (''*.'' @ domain) ip"
proof -
  obtain p where p: "am_dns m = Some p" "dn_ensure_a_records p = cloudflare_ensure_a_records env token" "am_cfg m = cfg"
    using new cfg(1,2)
    by (auto simp: portillia_acme_manager_new_def portillia_cloudflare_new_def Let_def split: prod.splits)
  show ?thesis
    by (rule cloud.sync_points [OF p(1,2) _ ready ip]) (simp add: p(3) cfg(3))
qed

section \<open>What the commands do\<close>

text \<open>The documented behaviour of the commands. The count prints nothing but \<open>0\<close>, since \<open>openssl pkcs7\<close> prints no certificate with \<^verbatim>\<open>-noout\<close>.
  \<open>aia\<close> is the issuer that is downloaded for a certificate, \<open>known\<close> the well-known intermediate for it.\<close>

definition chain_shell ::
  "shell \<Rightarrow> cstring \<Rightarrow> cstring \<Rightarrow> cstring \<Rightarrow> (cstring \<Rightarrow> cstring) \<Rightarrow> (cstring \<Rightarrow> cstring) \<Rightarrow> bool" where
  "chain_shell sh c l i aia known \<longleftrightarrow>
     (\<forall>e fs. sh_popen sh (count_cmd c) e fs = Some [CHR ''0'', CHR 0x0A]) \<and>
     (\<forall>e fs leaf. fs l = Some leaf \<longrightarrow> fst (sh_system sh (copy_cmd l i c) e fs) = fs(c \<mapsto> leaf @ or_empty (fs i))) \<and>
     (\<forall>e fs p pem. p \<in> {l, c} \<longrightarrow> fs c = Some pem \<longrightarrow>
        fst (sh_system sh (aia_cmd p c) e fs) = fs(c \<mapsto> pem @ aia (or_empty (fs p)))) \<and>
     (\<forall>e fs pem. fs c = Some pem \<longrightarrow> fst (sh_system sh (known_cmd c) e fs) = fs(c \<mapsto> pem @ known pem))"

definition rebuilt_chain :: "(cstring \<Rightarrow> cstring) \<Rightarrow> (cstring \<Rightarrow> cstring) \<Rightarrow> cstring option \<Rightarrow> cstring option \<Rightarrow> cstring \<Rightarrow> cstring" where
  "rebuilt_chain aia known lego_leaf lego_issuer pem =
     (let chain = (case lego_leaf of None \<Rightarrow> pem @ aia pem | Some leaf \<Rightarrow> leaf @ or_empty lego_issuer @ aia leaf) in chain @ known chain)"

definition no_lego :: "cstring list \<Rightarrow> bool" where
  "no_lego cmds \<longleftrightarrow> list_all (\<lambda>cmd. take 4 cmd \<noteq> ''lego'') cmds"

lemma repair_commands: "take 4 (count_cmd c) \<noteq> ''lego''" "take 4 (copy_cmd l i c) \<noteq> ''lego''" "take 4 (aia_cmd p c) \<noteq> ''lego''"
  "take 4 (known_cmd c) \<noteq> ''lego''"
  unfolding count_cmd_def copy_cmd_def aia_cmd_def known_cmd_def snprintf_s_def by simp_all

lemma atoi_zero: "c_atoi (take 15 [CHR ''0'', CHR 0x0A]) = 0"
  by code_simp

lemma repair_step:
  assumes "sh_popen sh (count_cmd c) (aw_environ w) (aw_files w) = Some [CHR ''0'', CHR 0x0A]"
  shows "repair sh c f w = f (w\<lparr>aw_commands := aw_commands w @ [count_cmd c]\<rparr>)"
  using assms atoi_zero by (simp add: repair_def certificate_count_def Let_def)

lemma run_system_fst:
  "aw_files (fst (run_system sh cmd w)) = fst (sh_system sh cmd (aw_environ w) (aw_files w))"
  "aw_commands (fst (run_system sh cmd w)) = aw_commands w @ [cmd]"
  by (simp_all add: run_system_def split: prod.split)

lemma chain_shell_laws:
  assumes "chain_shell sh c l i aia known"
  shows "sh_popen sh (count_cmd c) e fs = Some [CHR ''0'', CHR 0x0A]"
    "fs l = Some leaf \<Longrightarrow> fst (sh_system sh (copy_cmd l i c) e fs) = fs(c \<mapsto> leaf @ or_empty (fs i))"
    "fs c = Some pem \<Longrightarrow> fst (sh_system sh (aia_cmd l c) e fs) = fs(c \<mapsto> pem @ aia (or_empty (fs l)))"
    "fs c = Some pem \<Longrightarrow> fst (sh_system sh (aia_cmd c c) e fs) = fs(c \<mapsto> pem @ aia pem)"
    "fs c = Some pem \<Longrightarrow> fst (sh_system sh (known_cmd c) e fs) = fs(c \<mapsto> pem @ known pem)"
  using assms by (simp_all add: chain_shell_def)

text \<open>The commands of the three repairs, each preceded by a count.\<close>

definition rebuild_commands :: "cstring \<Rightarrow> cstring \<Rightarrow> cstring \<Rightarrow> bool \<Rightarrow> cstring list" where
  "rebuild_commands c l i lego =
     count_cmd c # (if lego then [copy_cmd l i c] else []) @
     [count_cmd c, aia_cmd (if lego then l else c) c, count_cmd c, known_cmd c, count_cmd c]"

lemma rebuild_effect:
  assumes sh: "chain_shell sh c l i aia known" and pem: "aw_files w c = Some pem \<or> aw_files w l \<noteq> None" and ne: "c \<noteq> l"
  shows "aw_files (rebuild_fullchain_if_incomplete sh c l i w) =
      (aw_files w)(c \<mapsto> rebuilt_chain aia known (aw_files w l) (aw_files w i) pem)"
    and "aw_commands (rebuild_fullchain_if_incomplete sh c l i w) = aw_commands w @ rebuild_commands c l i (aw_files w l \<noteq> None)"
proof -
  note laws = chain_shell_laws [OF sh]
  have count: "certificate_count sh c v = (v\<lparr>aw_commands := aw_commands v @ [count_cmd c]\<rparr>, 0)" for v
    using laws(1) atoi_zero by (simp add: certificate_count_def Let_def)
  note step = count repair_step [OF laws(1)] copy_leaf_and_issuer_if_present_def append_aia_issuer_from_leaf_def
    append_known_intermediate_if_needed_def run_system_fst rebuild_fullchain_if_incomplete_def Let_def
  show "aw_files (rebuild_fullchain_if_incomplete sh c l i w) =
      (aw_files w)(c \<mapsto> rebuilt_chain aia known (aw_files w l) (aw_files w i) pem)"
  proof (cases "aw_files w l")
    case None
    then have "aw_files w c = Some pem" using pem by simp
    then show ?thesis using None by (simp add: step laws rebuilt_chain_def)
  next
    case (Some leaf)
    then show ?thesis using ne by (simp add: step laws rebuilt_chain_def)
  qed
  show "aw_commands (rebuild_fullchain_if_incomplete sh c l i w) = aw_commands w @ rebuild_commands c l i (aw_files w l \<noteq> None)"
    by (cases "aw_files w l") (simp_all add: step rebuild_commands_def)
qed

lemma rebuild_commands_no_lego: "no_lego (rebuild_commands c l i lego)"
  by (simp add: no_lego_def rebuild_commands_def repair_commands)

section \<open>Certificates\<close>

definition short_paths :: "portillia_acme_config \<Rightarrow> cstring \<Rightarrow> cstring \<Rightarrow> bool" where
  "short_paths cfg dir host \<longleftrightarrow> ac_key_dir cfg = Some dir \<and> ac_base_domain cfg = Some host \<and> length dir + length host < 400"

lemma acme_paths:
  assumes "short_paths cfg dir host"
  shows "acme_cert_path cfg = dir @ ''/fullchain.pem''" "acme_key_path cfg = dir @ ''/privatekey.pem''"
    "lego_leaf_path cfg = dir @ ''/.lego/certificates/'' @ host @ ''.crt''"
    "lego_issuer_path cfg = dir @ ''/.lego/certificates/'' @ host @ ''.issuer.crt''"
  using assms
  by (simp_all add: short_paths_def acme_cert_path_def acme_key_path_def lego_leaf_path_def lego_issuer_path_def acme_home_def printed_def)

lemma acme_paths_distinct:
  assumes "short_paths cfg dir host"
  shows "acme_cert_path cfg \<noteq> acme_key_path cfg" "acme_cert_path cfg \<noteq> lego_leaf_path cfg" "acme_key_path cfg \<noteq> lego_leaf_path cfg"
    "acme_cert_path cfg \<noteq> lego_issuer_path cfg"
  by (simp_all add: acme_paths [OF assms])

text \<open>Rounds of the daily renewal, with what each returned.\<close>

fun renewals ::
  "shell \<Rightarrow> portillia_acme_config \<Rightarrow> nat \<Rightarrow> 'd acme_world \<Rightarrow> ((cstring \<times> cstring) option list \<times> 'd acme_world) option" where
  "renewals sh cfg 0 w = Some ([], w)"
| "renewals sh cfg (Suc n) w =
     (case portillia_acme_manager_ensure_certificate sh cfg w of
        None \<Rightarrow> None
      | Some (r, w') \<Rightarrow> map_option (\<lambda>(rs, w''). (r # rs, w'')) (renewals sh cfg n w'))"

abbreviation cert_of :: "portillia_acme_config \<Rightarrow> 'd acme_world \<Rightarrow> cstring option" where
  "cert_of cfg w \<equiv> aw_files w (acme_cert_path cfg)"

lemma ensure_existing:
  assumes sh: "chain_shell sh (acme_cert_path cfg) (lego_leaf_path cfg) (lego_issuer_path cfg) aia known"
    and paths: "short_paths cfg dir host" and files: "cert_of cfg w = Some pem" "aw_files w (acme_key_path cfg) = Some key"
  shows "\<exists>w'. portillia_acme_manager_ensure_certificate sh cfg w = Some (Some (acme_cert_path cfg, acme_key_path cfg), w') \<and>
    aw_files w' = (aw_files w)(acme_cert_path cfg \<mapsto>
      rebuilt_chain aia known (aw_files w (lego_leaf_path cfg)) (aw_files w (lego_issuer_path cfg)) pem) \<and>
    (\<exists>cmds. aw_commands w' = aw_commands w @ cmds \<and> no_lego cmds)"
proof -
  let ?w = "w\<lparr>aw_dirs := insert (acme_home cfg) (aw_dirs w)\<rparr>"
  have pem: "aw_files ?w (acme_cert_path cfg) = Some pem \<or> aw_files ?w (lego_leaf_path cfg) \<noteq> None" using files(1) by simp
  note effect = rebuild_effect [OF sh pem acme_paths_distinct(2) [OF paths]]
  show ?thesis
    using effect rebuild_commands_no_lego files by (auto simp: portillia_acme_manager_ensure_certificate_def Let_def)
qed

text \<open>A certificate is never renewed. Once both files exist, every round of the daily renewal reports success without running
  \<open>lego\<close>, however old the certificate is: the key stays as it is and so do the files that \<open>lego\<close> left.\<close>

theorem certificate_never_renewed:
  assumes sh: "chain_shell sh (acme_cert_path cfg) (lego_leaf_path cfg) (lego_issuer_path cfg) aia known"
    and paths: "short_paths cfg dir host" and files: "cert_of cfg w \<noteq> None" "aw_files w (acme_key_path cfg) = Some key"
  shows "\<exists>w'. renewals sh cfg n w = Some (replicate n (Some (acme_cert_path cfg, acme_key_path cfg)), w') \<and>
    (\<forall>p. p \<noteq> acme_cert_path cfg \<longrightarrow> aw_files w' p = aw_files w p) \<and>
    (\<exists>cmds. aw_commands w' = aw_commands w @ cmds \<and> no_lego cmds)"
  using files
proof (induction n arbitrary: w)
  case 0
  then show ?case by (simp add: no_lego_def)
next
  case (Suc n)
  obtain pem where pem: "cert_of cfg w = Some pem" using Suc.prems(1) by auto
  obtain w1 where w1: "portillia_acme_manager_ensure_certificate sh cfg w = Some (Some (acme_cert_path cfg, acme_key_path cfg), w1)"
    "cert_of cfg w1 \<noteq> None" "\<And>p. p \<noteq> acme_cert_path cfg \<Longrightarrow> aw_files w1 p = aw_files w p"
    "\<exists>cmds. aw_commands w1 = aw_commands w @ cmds \<and> no_lego cmds"
    using ensure_existing [OF sh paths pem Suc.prems(2)] by auto
  have "aw_files w1 (acme_key_path cfg) = Some key"
    using w1(3) [OF acme_paths_distinct(1) [OF paths, symmetric]] Suc.prems(2) by simp
  from Suc.IH [OF w1(2) this] show ?case
    using w1 by (auto simp: no_lego_def)
qed

text \<open>What the renewal does instead is to append to the chain: since the count of certificates is always taken to be 0, a chain that
  was supplied by hand gains the issuer again in every round and grows without bound.\<close>

theorem chain_grows_forever:
  assumes sh: "chain_shell sh (acme_cert_path cfg) (lego_leaf_path cfg) (lego_issuer_path cfg) aia known"
    and paths: "short_paths cfg dir host" and issuer: "\<forall>pem. aia pem \<noteq> []"
    and files: "cert_of cfg w = Some pem" "aw_files w (acme_key_path cfg) = Some key" "aw_files w (lego_leaf_path cfg) = None"
  shows "\<exists>rs w' added. renewals sh cfg n w = Some (rs, w') \<and> cert_of cfg w' = Some (pem @ added) \<and> n \<le> length added"
  using files
proof (induction n arbitrary: w pem)
  case (Suc n)
  let ?new = "rebuilt_chain aia known None (aw_files w (lego_issuer_path cfg)) pem"
  obtain w1 where w1: "portillia_acme_manager_ensure_certificate sh cfg w = Some (Some (acme_cert_path cfg, acme_key_path cfg), w1)"
    "aw_files w1 = (aw_files w)(acme_cert_path cfg \<mapsto> ?new)"
    using ensure_existing [OF sh paths Suc.prems(1,2)] Suc.prems(3) by auto
  have "cert_of cfg w1 = Some ?new" "aw_files w1 (acme_key_path cfg) = Some key" "aw_files w1 (lego_leaf_path cfg) = None"
    using w1(2) Suc.prems acme_paths_distinct [OF paths] by auto
  from Suc.IH [OF this] obtain rs w' added where
    rest: "renewals sh cfg n w1 = Some (rs, w')" "cert_of cfg w' = Some (?new @ added)" "n \<le> length added" by auto
  have "?new @ added = pem @ (aia pem @ known (pem @ aia pem) @ added)" by (simp add: rebuilt_chain_def)
  moreover have "Suc n \<le> length (aia pem @ known (pem @ aia pem) @ added)" using issuer rest(3) by (cases "aia pem") auto
  ultimately show ?case using w1(1) rest(1,2) by auto
qed simp

text \<open>What lego and the copy of the key do, for provisioning.\<close>

definition lego_shell :: "shell \<Rightarrow> portillia_acme_config \<Rightarrow> cstring \<Rightarrow> cstring \<Rightarrow> cstring \<Rightarrow> cstring \<Rightarrow> bool" where
  "lego_shell sh cfg lego_dns leaf issuer key \<longleftrightarrow>
     (let lego_key = acme_home cfg @ ''/certificates/'' @ printed (ac_base_domain cfg) @ ''.key''
      in (\<forall>e fs. sh_system sh (lego_cmd cfg lego_dns) e fs =
            (fs(lego_leaf_path cfg \<mapsto> leaf, lego_issuer_path cfg \<mapsto> issuer, lego_key \<mapsto> key), 0)) \<and>
         (\<forall>e fs k. fs lego_key = Some k \<longrightarrow> fst (sh_system sh (cp_key_cmd cfg) e fs) = fs(acme_key_path cfg \<mapsto> k)))"


text \<open>A shell for the directory \<open>d\<close> and the domain \<open>a.io\<close>, for the witnesses; the issuer of everything is \<open>I\<close>.\<close>

definition toy_acme_config :: portillia_acme_config where
  "toy_acme_config = \<lparr>ac_base_domain = Some ''a.io'', ac_key_dir = Some ''d'', ac_dns_provider_type = Some ''cloudflare'',
     ac_ens_gasless_enabled = False, ac_ens_gasless_address = None, ac_cloudflare_token = Some ''tok'', ac_gcp_project_id = None,
     ac_gcp_managed_zone = None, ac_njalla_token = None, ac_aws_access_key_id = None, ac_aws_secret_access_key = None,
     ac_aws_session_token = None, ac_aws_region = None, ac_aws_hosted_zone_id = None, ac_aws_kms_key_arn = None\<rparr>"

definition toy_shell :: shell where
  "toy_shell =
     (let c = ''d/fullchain.pem''; l = ''d/.lego/certificates/a.io.crt''; i = ''d/.lego/certificates/a.io.issuer.crt'';
          lk = ''d/.lego/certificates/a.io.key''
      in \<lparr>sh_system = (\<lambda>cmd e fs.
            if take 4 cmd = ''lego'' then (fs(l \<mapsto> ''L'', i \<mapsto> ''I'', lk \<mapsto> ''K''), 0)
            else if take 4 cmd = ''cp '' @ [CHR 0x27] then (fs(c \<mapsto> or_empty (fs l) @ or_empty (fs i)), 0)
            else if take 4 cmd = ''cp d'' then (fs(''d/privatekey.pem'' := fs lk), 0)
            else if take 4 cmd = ''AIA='' then (fs(c \<mapsto> or_empty (fs c) @ ''I''), 0)
            else (fs(c \<mapsto> or_empty (fs c)), 0)),
          sh_popen = (\<lambda>cmd e fs. Some [CHR ''0'', CHR 0x0A]), sh_can_write = (\<lambda>_. True), sh_fetch = (\<lambda>_. None),
          sh_res_query = (\<lambda>k d. Some [1, 2, 0x81, 0x80, 0, 1, 0, 0, 0, 0, 0, 0])\<rparr>)"

lemma toy_paths: "short_paths toy_acme_config ''d'' ''a.io''" "acme_cert_path toy_acme_config = ''d/fullchain.pem''"
  "acme_key_path toy_acme_config = ''d/privatekey.pem''" "lego_leaf_path toy_acme_config = ''d/.lego/certificates/a.io.crt''"
  "lego_issuer_path toy_acme_config = ''d/.lego/certificates/a.io.issuer.crt''" "acme_home toy_acme_config = ''d/.lego''"
proof -
  show sp: "short_paths toy_acme_config ''d'' ''a.io''" by (simp add: short_paths_def toy_acme_config_def)
  show "acme_home toy_acme_config = ''d/.lego''" by (simp add: acme_home_def toy_acme_config_def printed_def)
qed (simp_all add: acme_cert_path_def acme_key_path_def lego_leaf_path_def lego_issuer_path_def acme_home_def toy_acme_config_def printed_def)

lemma command_heads: "take 4 (copy_cmd l i c) = ''cp '' @ [CHR 0x27]" "take 4 (aia_cmd p c) = ''AIA=''" "take 4 (known_cmd c) = ''ISSU''"
  "take 4 (lego_cmd cfg dns) = ''lego''"
  by (simp_all add: copy_cmd_def aia_cmd_def known_cmd_def lego_cmd_def snprintf_s_def squote_def Let_def)

lemma toy_shell_laws:
  "chain_shell toy_shell (acme_cert_path toy_acme_config) (lego_leaf_path toy_acme_config) (lego_issuer_path toy_acme_config) (\<lambda>_. ''I'') (\<lambda>_. [])"
  "lego_shell toy_shell toy_acme_config ''cloudflare'' ''L'' ''I'' ''K''"
proof -
  show "chain_shell toy_shell (acme_cert_path toy_acme_config) (lego_leaf_path toy_acme_config) (lego_issuer_path toy_acme_config)
      (\<lambda>_. ''I'') (\<lambda>_. [])"
    unfolding chain_shell_def toy_paths by (auto simp: toy_shell_def Let_def command_heads)
  have "cp_key_cmd toy_acme_config = ''cp d/.lego/certificates/a.io.key d/privatekey.pem''"
    by (simp add: cp_key_cmd_def toy_paths) (simp add: toy_acme_config_def printed_def)
  moreover have "printed (ac_base_domain toy_acme_config) = ''a.io''" by (simp add: toy_acme_config_def printed_def)
  ultimately show "lego_shell toy_shell toy_acme_config ''cloudflare'' ''L'' ''I'' ''K''"
    unfolding lego_shell_def Let_def toy_paths by (simp add: toy_shell_def Let_def command_heads)
qed

definition toy_acme_world :: "cstring file_system \<Rightarrow> unit acme_world" where
  "toy_acme_world fs = \<lparr>aw_files = fs, aw_dirs = {}, aw_environ = Map.empty, aw_commands = [], aw_dns = ()\<rparr>"

theorem certificate_never_renewed_witness:
  "\<exists>w'. renewals toy_shell toy_acme_config 90 (toy_acme_world [''d/fullchain.pem'' \<mapsto> ''P'', ''d/privatekey.pem'' \<mapsto> ''K'']) =
     Some (replicate 90 (Some (''d/fullchain.pem'', ''d/privatekey.pem'')), w') \<and> no_lego (aw_commands w')"
  using certificate_never_renewed [OF toy_shell_laws(1) toy_paths(1),
      of "toy_acme_world [''d/fullchain.pem'' \<mapsto> ''P'', ''d/privatekey.pem'' \<mapsto> ''K'']" "''K''" 90]
  by (auto simp: toy_paths toy_acme_world_def)

theorem chain_grows_forever_witness:
  "\<exists>rs w' added. renewals toy_shell toy_acme_config 90 (toy_acme_world [''d/fullchain.pem'' \<mapsto> ''P'', ''d/privatekey.pem'' \<mapsto> ''K'']) =
     Some (rs, w') \<and> aw_files w' ''d/fullchain.pem'' = Some (''P'' @ added) \<and> 90 \<le> length added"
  using chain_grows_forever [OF toy_shell_laws(1) toy_paths(1),
      of "toy_acme_world [''d/fullchain.pem'' \<mapsto> ''P'', ''d/privatekey.pem'' \<mapsto> ''K'']" "''P''" "''K''" 90]
  by (simp add: toy_paths toy_acme_world_def)


section \<open>Challenges\<close>

lemma str_contains_longer: "length hay < length needle \<Longrightarrow> \<not> str_contains needle hay"
proof
  assume len: "length hay < length needle" and "str_contains needle hay"
  then obtain i where "take (length needle) (drop i hay) = needle" by (auto simp: str_contains_def list_ex_iff)
  then have "length needle \<le> length hay - i" by (metis length_drop length_take min.cobounded1)
  then show False using len by simp
qed

text \<open>Every DNS message has its number of questions in bytes 4 and 5; an answer to one question has a zero there.\<close>

definition dns_headers :: "shell \<Rightarrow> bool" where
  "dns_headers sh \<longleftrightarrow> (\<forall>k d a. sh_res_query sh k d = Some a \<longrightarrow> 12 \<le> length a \<and> a ! 4 = 0)"

lemma check_dns_txt_blind:
  assumes "dns_headers sh" "4 < length expected"
  shows "check_dns_txt sh k domain expected = Some False"
proof (cases "sh_res_query sh k domain")
  case (Some a)
  then have a: "12 \<le> length a" "a ! 4 = 0" using assms(1) unfolding dns_headers_def by blast+
  then have "0 \<in> set a" using nth_mem [of 4 a] by simp
  have "length (takeWhile (\<lambda>b. b \<noteq> 0) a) \<le> 4"
  proof (rule ccontr)
    assume long: "\<not> length (takeWhile (\<lambda>b. b \<noteq> 0) a) \<le> 4"
    then have "takeWhile (\<lambda>b. b \<noteq> 0) a ! 4 \<in> set (takeWhile (\<lambda>b. b \<noteq> 0) a)" by (intro nth_mem) simp
    then have "takeWhile (\<lambda>b. b \<noteq> 0) a ! 4 \<noteq> 0" by (metis (mono_tags) set_takeWhileD)
    then show False using a(2) long by (simp add: takeWhile_nth)
  qed
  then have "length (bytes_to_cstring a) < length expected" using assms(2) by (simp add: bytes_to_cstring_def)
  then show ?thesis using Some \<open>0 \<in> set a\<close> str_contains_longer by (simp add: check_dns_txt_def)
qed (simp add: check_dns_txt_def)

lemma poll_blind:
  assumes "dns_headers sh" "4 < length key_auth"
  shows "poll_propagation sh domain key_auth ks = Some (False, 5 * length ks)"
  using check_dns_txt_blind [OF assms] by (induction ks) simp_all

text \<open>A DNS challenge is never seen to be fulfilled: the answer of the resolver is searched as a C string, which ends in its header, so
  that no authorization longer than four characters is found in it. Fulfilling a challenge fails after twenty polls and a hundred
  seconds, whatever the provider did and whatever the answers contain.\<close>

theorem challenge_never_verified:
  assumes sh: "dns_headers sh" and auth: "4 < length key_auth"
    and dns: "am_dns m = Some dns" "dn_ensure_txt_record dns (snprintf_s 512 (''_acme-challenge.'' @ domain)) key_auth d = Some (d', ok)"
  shows "portillia_acme_fulfill_challenge sh m domain key_auth True d = Some (d', False) \<and>
    poll_propagation sh (snprintf_s 512 (''_acme-challenge.'' @ domain)) key_auth [0..<20] = Some (False, 100)"
  using poll_blind [OF sh auth, of "snprintf_s 512 (''_acme-challenge.'' @ domain)" "[0..<20]"] dns
  by (simp add: portillia_acme_fulfill_challenge_def Let_def)

definition toy_provider :: "unit dns_provider" where
  "toy_provider = \<lparr>dn_name = ''toy'', dn_ensure_a_records = (\<lambda>_ _ w. Some (w, True)), dn_ensure_a_record = (\<lambda>_ _ w. Some (w, True)),
     dn_delete_a_record = (\<lambda>_ w. Some (w, True)), dn_ensure_txt_record = (\<lambda>_ _ w. Some (w, True)),
     dn_delete_txt_records = (\<lambda>_ _ w. Some (w, True)), dn_ensure_dnssec = (\<lambda>_ w. Some (w, None))\<rparr>"

theorem challenge_never_verified_witness:
  "portillia_acme_fulfill_challenge toy_shell \<lparr>am_cfg = toy_acme_config, am_dns = Some toy_provider, am_account_key_path = [], am_email = []\<rparr>
     ''a.io'' ''token.thumbprint'' True () = Some ((), False)"
  using challenge_never_verified [of toy_shell "''token.thumbprint''"
      "\<lparr>am_cfg = toy_acme_config, am_dns = Some toy_provider, am_account_key_path = [], am_email = []\<rparr>" toy_provider "''a.io''" "()" "()" True]
  by (simp add: toy_provider_def dns_headers_def toy_shell_def Let_def)

end
