(* ===== verification/Relay_Main.thy ===== *)
theory Relay_Main
  imports Acme Discovery Settings Lease_Registry Sni_Parser
begin

text \<open>
  The relay server, \<^verbatim>\<open>cmd/relay-server/main.c\<close>: the variables it reads, the addresses it derives from them, the relays it starts from, the
  pages it serves, the worker of a connection, and the start that wires the components together.

  The environment of the process is a function from names to values. Files, the shell, the DNS services, cJSON and the bridge are
  the parameters of the components; the relay registry on the web is what one transfer yields.
\<close>

section \<open>Variables\<close>

type_synonym getenv = "cstring \<Rightarrow> cstring option"

definition env_str_or_default :: "getenv \<Rightarrow> cstring \<Rightarrow> cstring \<Rightarrow> cstring" where
  "env_str_or_default getenv name default_value =
     (case getenv name of None \<Rightarrow> default_value | Some v \<Rightarrow> if v = [] then default_value else v)"

definition env_int_or_default :: "getenv \<Rightarrow> cstring \<Rightarrow> int \<Rightarrow> int" where
  "env_int_or_default getenv name default_value =
     (case getenv name of None \<Rightarrow> default_value | Some v \<Rightarrow> if v = [] then default_value else c_atoi v)"

text \<open>Only the first 15 characters count.\<close>

definition env_bool_or_default :: "getenv \<Rightarrow> cstring \<Rightarrow> bool \<Rightarrow> bool" where
  "env_bool_or_default getenv name default_value =
     (case getenv name of
        None \<Rightarrow> default_value
      | Some v \<Rightarrow>
          if v = [] then default_value
          else let buf = str_tolower (take 15 v)
               in if buf \<in> {''1'', ''true'', ''yes'', ''on''} then True
                  else if buf \<in> {''0'', ''false'', ''no'', ''off''} then False
                  else default_value)"

section \<open>Addresses of the relay\<close>

fun skip_scheme :: "cstring \<Rightarrow> cstring option" where
  "skip_scheme [] = None"
| "skip_scheme (c # s) = (if take 3 (c # s) = ''://'' then Some (drop 3 (c # s)) else skip_scheme s)"

definition portal_root_hostname :: "cstring option \<Rightarrow> cstring" where
  "portal_root_hostname portal_url =
     (case portal_url of
        None \<Rightarrow> ''localhost''
      | Some u \<Rightarrow>
          let start = (case skip_scheme u of None \<Rightarrow> u | Some s \<Rightarrow> s);
              host = takeWhile (\<lambda>c. c \<noteq> CHR '':'' \<and> c \<noteq> CHR ''/'') start;
              stripped = rev (dropWhile (\<lambda>c. c = CHR ''.'') (rev host))
          in if host = [] then ''localhost'' else if stripped = [] then ''localhost'' else str_tolower stripped)"

definition portal_public_url :: "cstring option \<Rightarrow> cstring" where
  "portal_public_url portal_url =
     (let host = portal_root_hostname portal_url
      in if host = [] then ''https://localhost'' else snprintf_s (length host + 9) (''https://'' @ host))"

section \<open>The relays to start from\<close>

text \<open>The registry: the strings of the list joined with commas, in a buffer with one byte for each separator and the end. A separator is
  written once something has been written.\<close>

definition registry_strings :: "('j, 't) cjson \<Rightarrow> 'j \<Rightarrow> cstring list" where
  "registry_strings api relays =
     List.map_filter (\<lambda>item. if cj_is_string api item then cj_valuestring api item else None) (cj_items api relays)"

fun join_registry :: "cstring \<Rightarrow> cstring list \<Rightarrow> cstring" where
  "join_registry out [] = out"
| "join_registry out (s # ss) = join_registry ((if out \<noteq> [] then out @ '','' else out) @ s) ss"

definition registry_total :: "cstring list \<Rightarrow> nat" where
  "registry_total ss = sum_list (map (\<lambda>s. length s + 1) ss)"

definition fetch_remote_registry :: "('j, 't) cjson \<Rightarrow> (int \<times> 't) option \<Rightarrow> cstring option" where
  "fetch_remote_registry api transfer =
     (case transfer of
        None \<Rightarrow> None
      | Some (status, data) \<Rightarrow>
          if status \<noteq> 200 then None
          else case cj_parse api data of
            None \<Rightarrow> None
          | Some doc \<Rightarrow>
              (case cj_get api doc ''relays'' of
                 None \<Rightarrow> None
               | Some relays \<Rightarrow>
                   if cj_is_array api relays \<and> registry_total (registry_strings api relays) > 0
                   then Some (join_registry [] (registry_strings api relays)) else None))"

text \<open>The tokens without the own address, joined again; blanks in front of a token are dropped.\<close>

fun join_tokens :: "cstring \<Rightarrow> bool \<Rightarrow> cstring \<Rightarrow> cstring list \<Rightarrow> cstring" where
  "join_tokens portal_url first out [] = out"
| "join_tokens portal_url first out (tok # toks) =
     (let t = dropWhile (\<lambda>c. c = CHR '' '') tok
      in if t \<noteq> portal_url \<and> \<not> strcasecmp_eq t portal_url
         then join_tokens portal_url False ((if first then out else out @ '','') @ t) toks
         else join_tokens portal_url first out toks)"

definition resolve_portal_relay_urls :: "cstring option \<Rightarrow> cstring option \<Rightarrow> cstring option \<Rightarrow> cstring option" where
  "resolve_portal_relay_urls bootstraps remote portal_url =
     (let parts = filter (\<lambda>s. s \<noteq> []) [or_empty bootstraps, or_empty remote]
      in case parts of
           [] \<Rightarrow> None
         | p # ps \<Rightarrow>
             let result = p @ concat (map (\<lambda>s. '','' @ s) ps)
             in if nonempty portal_url then Some (join_tokens (or_empty portal_url) True [] (strtok_commas result)) else Some result)"

section \<open>Pages\<close>

text \<open>\<open>strstr (s, old) == s\<close>. The first loop counts what the second replaces; \<open>i\<close> ends at the length of the text. The callers never replace an
  empty string, for which the loops would not end.\<close>

function count_str :: "cstring \<Rightarrow> cstring \<Rightarrow> nat \<times> nat" where
  "count_str old_str s =
     (if s = [] then (0, 0)
      else if old_str \<noteq> [] \<and> take (length old_str) s = old_str
      then case count_str old_str (drop (length old_str) s) of (i, n) \<Rightarrow> (i + length old_str, n + 1)
      else case count_str old_str (tl s) of (i, n) \<Rightarrow> (i + 1, n))"
  by auto
termination by (relation "measure (\<lambda>x. length (snd x))") (auto simp: neq_Nil_conv)

function replace_loop :: "cstring \<Rightarrow> cstring \<Rightarrow> cstring \<Rightarrow> cstring" where
  "replace_loop old_str new_str s =
     (if s = [] then []
      else if old_str \<noteq> [] \<and> take (length old_str) s = old_str
      then new_str @ replace_loop old_str new_str (drop (length old_str) s)
      else hd s # replace_loop old_str new_str (tl s))"
  by auto
termination by (relation "measure (\<lambda>x. length (snd (snd x)))") (auto simp: neq_Nil_conv)

declare count_str.simps [simp del] replace_loop.simps [simp del]

text \<open>The size of the buffer, in the arithmetic of \<open>int\<close>, and its contents.\<close>

definition replace_str :: "cstring \<Rightarrow> cstring \<Rightarrow> cstring \<Rightarrow> int \<times> cstring" where
  "replace_str s old_str new_str =
     (case count_str old_str s of (i, n) \<Rightarrow>
        (int i + int n * (int (length new_str) - int (length old_str)) + 1, replace_loop old_str new_str s))"

fun split_at_str :: "cstring \<Rightarrow> cstring \<Rightarrow> (cstring \<times> cstring) option" where
  "split_at_str needle [] = (if needle = [] then Some ([], []) else None)"
| "split_at_str needle (c # s) =
     (if take (length needle) (c # s) = needle then Some ([], drop (length needle) (c # s))
      else map_option (\<lambda>(a, b). (c # a, b)) (split_at_str needle s))"

definition ssr_script :: cstring where
  "ssr_script = ''<script id='' @ quoted ''__SSR_DATA__'' @ '' type='' @ quoted ''application/json'' @ ''>[]</script>'' @ [CHR 0x0A] @ ''</head>''"

definition render_page :: "cstring \<Rightarrow> cstring \<Rightarrow> cstring" where
  "render_page version html =
     (let final_html = (case split_at_str ''</head>'' html of None \<Rightarrow> html | Some (before, behind) \<Rightarrow> before @ ssr_script @ behind);
          r1 = snd (replace_str final_html ''[%OG_TITLE%]'' ''Portal Proxy Gateway'');
          r2 = snd (replace_str r1 ''[%OG_DESCRIPTION%]''
                 ''Transform your local services into web-accessible endpoints. Instant access from anywhere.'');
          r3 = snd (replace_str r2 ''[%LANDING_PAGE_ENABLED%]'' ''true'')
      in snd (replace_str r3 ''[%RELEASE_VERSION%]'' version))"

definition static_dir_of :: "getenv \<Rightarrow> cstring" where
  "static_dir_of getenv = (case getenv ''STATIC_DIR'' of None \<Rightarrow> ''cmd/relay-server/dist/app'' | Some d \<Rightarrow> d)"

definition fallback_spa_handler_clean ::
  "getenv \<Rightarrow> cstring \<Rightarrow> cstring file_system \<Rightarrow> portillia_settings option \<Rightarrow> cstring http_response \<Rightarrow> cstring http_response" where
  "fallback_spa_handler_clean getenv version fs settings res =
     (if (case settings of None \<Rightarrow> False | Some s \<Rightarrow> \<not> s_landing_page_enabled s)
      then res\<lparr>rp_status := CWIST_HTTP_NOT_FOUND, rp_body := Body_text ''Landing page disabled''\<rparr>
      else case fs (snprintf_s 1024 (static_dir_of getenv @ ''/portal.html'')) of
        None \<Rightarrow> res\<lparr>rp_status := CWIST_HTTP_NOT_FOUND, rp_body := Body_text ''Not Found''\<rparr>
      | Some html \<Rightarrow>
          header_add ''Cache-Control'' ''no-cache, must-revalidate'' (header_add ''Content-Type'' ''text/html; charset=utf-8''
            (res\<lparr>rp_body := Body_text (render_page version (until_nul html))\<rparr>)))"

text \<open>The path of the request is appended to the directory as it is. \<open>fs\<close> holds the regular files, by the path they are opened with.\<close>

definition spa_error_handler ::
  "getenv \<Rightarrow> cstring \<Rightarrow> cstring file_system \<Rightarrow> portillia_settings option \<Rightarrow> http_method \<Rightarrow> cstring \<Rightarrow> http_status \<Rightarrow>
   cstring http_response \<Rightarrow> cstring http_response" where
  "spa_error_handler getenv version fs settings method path status res =
     (if status = CWIST_HTTP_NOT_FOUND \<and> method = CWIST_HTTP_GET
      then case fs (snprintf_s 1024 (static_dir_of getenv @ path)) of
             Some data \<Rightarrow> res\<lparr>rp_body := Body_text data, rp_status := Http_code 200\<rparr>
           | None \<Rightarrow>
               if CHR ''.'' \<in> set path \<and> CHR ''/'' \<notin> set (takeWhile (\<lambda>c. c \<noteq> CHR ''.'') (rev path))
               then res\<lparr>rp_status := CWIST_HTTP_NOT_FOUND, rp_body := Body_text ''404 Not Found''\<rparr>
               else (fallback_spa_handler_clean getenv version fs settings res)\<lparr>rp_status := Http_code 200\<rparr>
      else res)"

section \<open>Connections\<close>

text \<open>A connection of the public listener: the rounds of the parser decide about its server name.\<close>

definition sni_worker_thread ::
  "(byte list \<Rightarrow> byte list) \<Rightarrow> (cstring \<Rightarrow> cstring option) \<Rightarrow> handler_env \<Rightarrow> sni_round list \<Rightarrow> portillia_server \<Rightarrow> int \<Rightarrow>
   portillia_server option" where
  "sni_worker_thread sha256 hostname_hash env rounds srv client =
     (case get_sni_hostname rounds of
        None \<Rightarrow> None
      | Some (Some sni) \<Rightarrow> portillia_server_handle_connect sha256 hostname_hash env srv (bytes_to_cstring sni) client
      | Some None \<Rightarrow> Some (close_fds [client] srv))"

text \<open>One accept of the listener: a failed accept is ignored, a worker that cannot be started closes the connection.\<close>

definition sni_accept ::
  "(byte list \<Rightarrow> byte list) \<Rightarrow> (cstring \<Rightarrow> cstring option) \<Rightarrow> handler_env \<Rightarrow> sni_round list \<Rightarrow> bool \<Rightarrow> int \<Rightarrow> portillia_server \<Rightarrow>
   portillia_server option" where
  "sni_accept sha256 hostname_hash env rounds spawned client srv =
     (if client < 0 then Some srv
      else if \<not> spawned then Some (close_fds [client] srv)
      else sni_worker_thread sha256 hostname_hash env rounds srv client)"

text \<open>One turn of the hop listener: a stream with its token, or one of them missing.\<close>

definition hop_accept ::
  "(byte list \<Rightarrow> byte list) \<Rightarrow> handler_env \<Rightarrow> int \<Rightarrow> cstring option \<Rightarrow> portillia_server \<Rightarrow> portillia_server option" where
  "hop_accept sha256 env fd token srv =
     (case token of
        Some t \<Rightarrow> if fd \<ge> 0 then portillia_server_handle_hop_stream sha256 env srv t fd else Some srv
      | None \<Rightarrow> Some (if fd \<ge> 0 then close_fds [fd] srv else srv))"

record wg_peer_t =
  wg_pubkey :: "cstring option"
  wg_endpoint :: "cstring option"

text \<open>\<open>strncpy (p, s, 127)\<close> into fresh memory: only a shorter string is terminated.\<close>

definition strncpy_fresh :: "cstring \<Rightarrow> cstring option" where
  "strncpy_fresh s = (if length s < 127 then Some s else None)"

definition add_wg_peer :: "cstring \<Rightarrow> cstring \<Rightarrow> wg_peer_t list \<times> cstring list \<Rightarrow> wg_peer_t list \<times> cstring list" where
  "add_wg_peer pubkey endpoint st =
     (\<lparr>wg_pubkey = strncpy_fresh pubkey, wg_endpoint = strncpy_fresh endpoint\<rparr> # fst st,
      snd st @ [snprintf_s 512 (''wg set wg0 peer '' @ pubkey @ '' endpoint '' @ endpoint @ '' allowed-ips 10.0.0.0/24'')])"

section \<open>The start of the relay\<close>

definition acme_config_of :: "getenv \<Rightarrow> cstring \<Rightarrow> cstring \<Rightarrow> portillia_acme_config" where
  "acme_config_of getenv root_hostname identity_path =
     \<lparr>ac_base_domain = Some root_hostname, ac_key_dir = Some identity_path,
      ac_dns_provider_type = Some (env_str_or_default getenv ''ACME_DNS_PROVIDER'' []),
      ac_ens_gasless_enabled = env_bool_or_default getenv ''ENS_GASLESS_ENABLED'' False,
      ac_ens_gasless_address = getenv ''ENS_GASLESS_ADDRESS'', ac_cloudflare_token = getenv ''CLOUDFLARE_TOKEN'',
      ac_gcp_project_id = getenv ''GCP_PROJECT_ID'', ac_gcp_managed_zone = getenv ''GCP_MANAGED_ZONE'',
      ac_njalla_token = getenv ''NJALLA_TOKEN'', ac_aws_access_key_id = getenv ''AWS_ACCESS_KEY_ID'',
      ac_aws_secret_access_key = getenv ''AWS_SECRET_ACCESS_KEY'', ac_aws_session_token = getenv ''AWS_SESSION_TOKEN'',
      ac_aws_region = getenv ''AWS_REGION'', ac_aws_hosted_zone_id = getenv ''AWS_HOSTED_ZONE_ID'',
      ac_aws_kms_key_arn = getenv ''AWS_DNSSEC_KMS_KEY_ARN''\<rparr>"

text \<open>Certificate, address records and ENS record, in this order, at the start and in every round of the renewal thread.\<close>

definition acme_round ::
  "shell \<Rightarrow> 'd portillia_acme_manager \<Rightarrow> 'd acme_world \<Rightarrow> ((cstring \<times> cstring) option \<times> 'd acme_world) option" where
  "acme_round sh m w =
     (case portillia_acme_manager_ensure_certificate sh (am_cfg m) w of
        None \<Rightarrow> None
      | Some (files, w1) \<Rightarrow>
          (case portillia_acme_manager_sync_dns sh m (aw_dns w1) of
             None \<Rightarrow> None
           | Some (d, _) \<Rightarrow>
               if ac_ens_gasless_enabled (am_cfg m)
               then map_option (\<lambda>(d', _). (files, w1\<lparr>aw_dns := d'\<rparr>)) (portillia_acme_manager_sync_ens_gasless m d)
               else Some (files, w1\<lparr>aw_dns := d\<rparr>)))"

record ('j, 't, 'n) relay_env =
  re_getenv :: getenv
  re_json :: "('j, 't) cjson"
  re_generate :: "cstring \<Rightarrow> 't option"
  re_outcome :: write_outcome
  re_shell :: shell
  re_dns :: "('j, 't, 'n) dns_env"
  re_registry :: "(int \<times> 't) option"
  re_overlay_starts :: bool

record 'n relay_startup =
  rl_settings :: portillia_settings
  rl_identity :: "portillia_relay_identity option"
  rl_server :: portillia_server
  rl_acme :: "'n dns_world portillia_acme_manager"
  rl_keyless_url :: cstring
  rl_keys :: keyless_keys
  rl_cert_path :: cstring
  rl_key_path :: cstring
  rl_discovery :: discovery_config
  rl_sni_port :: int
  rl_api_port :: int
  rl_discovery_thread :: bool
  rl_hop_thread :: bool
  rl_backhaul_port :: int

text \<open>The switches of the settings file are overwritten with those of the environment.\<close>

definition startup_settings :: "('j, 't, 'n) relay_env \<Rightarrow> cstring \<Rightarrow> 't file_system \<Rightarrow> portillia_settings option" where
  "startup_settings env identity_path fs =
     (let path = snprintf_s 1024 (identity_path @ ''/settings.json''); flag = (\<lambda>name. env_bool_or_default (re_getenv env) name False)
      in map_option (\<lambda>s. s\<lparr>s_landing_page_enabled := flag ''LANDING_PAGE_ENABLED'', s_trust_proxy_headers := flag ''TRUST_PROXY_HEADERS'',
             s_udp_enabled := flag ''UDP_ENABLED'', s_tcp_port_enabled := flag ''TCP_ENABLED''\<rparr>)
           (portillia_settings_load (re_json env) path (fs path)))"

definition tls_paths :: "cstring \<Rightarrow> (cstring \<times> cstring) option \<Rightarrow> cstring \<times> cstring" where
  "tls_paths identity_path files =
     (case files of
        Some (cert, key) \<Rightarrow>
          if snprintf_s 1024 cert \<noteq> [] \<and> snprintf_s 1024 key \<noteq> [] then (snprintf_s 1024 cert, snprintf_s 1024 key)
          else (snprintf_s 1024 (identity_path @ ''/fullchain.pem''), snprintf_s 1024 (identity_path @ ''/privatekey.pem''))
      | None \<Rightarrow> (snprintf_s 1024 (identity_path @ ''/fullchain.pem''), snprintf_s 1024 (identity_path @ ''/privatekey.pem'')))"

definition relay_main ::
  "('j, 't, 'n) relay_env \<Rightarrow> 't file_system \<Rightarrow> 'n dns_world acme_world \<Rightarrow>
   ('n relay_startup \<times> 't file_system \<times> 'n dns_world acme_world) option" where
  "relay_main env fs w =
     (let getenv = re_getenv env; api = re_json env;
          portal_url = env_str_or_default getenv ''PORTAL_URL'' ''https://localhost:4017'';
          advertise = env_str_or_default getenv ''ADVERTISE_URL'' [];
          identity_path = env_str_or_default getenv ''IDENTITY_PATH'' ''./.portal-certs'';
          discovery_enabled = env_bool_or_default getenv ''DISCOVERY'' False;
          api_port = env_int_or_default getenv ''API_PORT'' 4017; wg_port = env_int_or_default getenv ''WIREGUARD_PORT'' 51820;
          root_hostname = portal_root_hostname (Some portal_url);
          public_url = (if advertise \<noteq> [] then advertise else portal_public_url (Some portal_url));
          acme_cfg = acme_config_of getenv root_hostname identity_path
      in case startup_settings env identity_path fs of
           None \<Rightarrow> None
         | Some settings \<Rightarrow>
             (case portillia_relay_identity_load_or_create api (re_generate env) (re_outcome env) (Some identity_path) (Some root_hostname) fs of
                (identity, fs1) \<Rightarrow>
                  (case portillia_acme_manager_new (re_shell env) (re_dns env) acme_cfg w of
                     None \<Rightarrow> None
                   | Some (acme, w1) \<Rightarrow>
                       (case acme_round (re_shell env) acme w1 of
                          None \<Rightarrow> None
                        | Some (files, w2) \<Rightarrow>
                            (case portillia_keyless_server_setup api (re_generate env) (re_outcome env) (Some identity_path) fs1
                                    \<lparr>kk_identity_path = None, kk_private_key_hex = None, kk_public_key_hex = None\<rparr> of
                               (fs2, keys) \<Rightarrow>
                                 let remote = (if discovery_enabled then fetch_remote_registry api (re_registry env) else None)
                                 in Some (\<lparr>rl_settings = settings, rl_identity = identity,
                                   rl_server = portillia_server_setup root_hostname api_port (Some settings), rl_acme = acme,
                                   rl_keyless_url = public_url, rl_keys = keys, rl_cert_path = fst (tls_paths identity_path files),
                                   rl_key_path = snd (tls_paths identity_path files),
                                   rl_discovery = \<lparr>dc_relay_url = Some public_url, dc_advertise_url = Some public_url,
                                     dc_bootstrap_urls = resolve_portal_relay_urls (Some (env_str_or_default getenv ''BOOTSTRAPS'' []))
                                       remote (Some public_url),
                                     dc_wireguard_port = wg_port, dc_max_routing = env_int_or_default getenv ''MAX_ROUTING'' 1\<rparr>,
                                   rl_sni_port = env_int_or_default getenv ''SNI_PORT'' 443, rl_api_port = api_port,
                                   rl_discovery_thread = discovery_enabled,
                                   rl_hop_thread = (case identity of None \<Rightarrow> False | Some i \<Rightarrow>
                                     ri_wireguard_private_key i \<noteq> None \<and> ri_wireguard_public_key i \<noteq> None \<and> re_overlay_starts env),
                                   rl_backhaul_port = api_port\<rparr>, fs2, w2))))))"

text \<open>After the listener is set up the relay enters its own descriptor into a fresh relay set, announces it to the relays it starts from
  and tells the overlay stack; \<open>self\<close> makes the descriptor out of its signature and the advertised address.\<close>

definition relay_publish ::
  "('j, 't) cjson \<Rightarrow> 'r relay_table \<Rightarrow> 'k key_table \<Rightarrow> cstring \<Rightarrow> (cstring \<Rightarrow> 't option) \<Rightarrow> ('t \<Rightarrow> 't option) \<Rightarrow> time_t \<Rightarrow>
   (cstring list \<Rightarrow> cstring list) \<Rightarrow> (cstring \<Rightarrow> cstring \<Rightarrow> portillia_relay_descriptor) \<Rightarrow> 'n relay_startup \<Rightarrow>
   ('r, 'k) portillia_relay_set option \<times> (cstring \<times> 't) list \<times> 't option" where
  "relay_publish api tb kb discovery_version poll sign now order self st =
     discovery_task api tb kb discovery_version poll sign now order (rl_discovery st) self (Some (portillia_relay_set_create tb kb []))"

section \<open>Replacing in a page\<close>

fun join_with :: "cstring \<Rightarrow> cstring list \<Rightarrow> cstring" where
  "join_with sep [] = []"
| "join_with sep [p] = p"
| "join_with sep (p # ps) = p @ sep @ join_with sep ps"

lemma join_with_Cons: "join_with sep (p # ps) = p @ (if ps = [] then [] else sep @ join_with sep ps)"
  by (cases ps) auto

lemma str_contains_iff: "str_contains needle hay \<longleftrightarrow> (\<exists>a b. hay = a @ needle @ b)"
proof
  assume "str_contains needle hay"
  then obtain i where i: "take (length needle) (drop i hay) = needle" by (auto simp: str_contains_def list_ex_iff)
  have "hay = take i hay @ take (length needle) (drop i hay) @ drop (length needle) (drop i hay)"
    by (metis append_take_drop_id)
  then show "\<exists>a b. hay = a @ needle @ b" unfolding i by blast
next
  assume "\<exists>a b. hay = a @ needle @ b"
  then obtain a b where "hay = a @ needle @ b" by blast
  then have "length a \<in> set [0..<Suc (length hay)] \<and> take (length needle) (drop (length a) hay) = needle" by simp
  then show "str_contains needle hay" unfolding str_contains_def list_ex_iff by blast
qed

lemma str_contains_Cons:
  "str_contains needle (c # p) \<longleftrightarrow> take (length needle) (c # p) = needle \<or> str_contains needle p"
proof -
  have "take (length needle) (c # p) = needle \<longleftrightarrow> (\<exists>b. c # p = needle @ b)"
    by (metis append_eq_conv_conj append_take_drop_id)
  moreover have "(\<exists>a b. c # p = a @ needle @ b) \<longleftrightarrow> (\<exists>b. c # p = needle @ b) \<or> (\<exists>a b. p = a @ needle @ b)"
    by (metis Cons_eq_append_conv append_Nil append_Cons)
  ultimately show ?thesis unfolding str_contains_iff by simp
qed

lemma take_eq_append: "take (length p) (q @ r) = p \<Longrightarrow> length p \<le> length q \<Longrightarrow> take (length p) q = p"
  by simp

lemma replace_pieces:
  assumes "old \<noteq> []"
  shows "\<exists>p ps. s = join_with old (p # ps) \<and> replace_loop old new s = join_with new (p # ps) \<and> list_all (\<lambda>q. \<not> str_contains old q) (p # ps) \<and>
    count_str old s = (length s, length ps)"
proof (induction s rule: length_induct)
  case (1 s)
  show ?case
  proof (cases "s = []")
    case True
    have "\<not> str_contains old []" using assms by (simp add: str_contains_iff)
    then show ?thesis using True by (intro exI [of _ "[]"]) (simp add: replace_loop.simps count_str.simps)
  next
    case False
    then obtain c t where s: "s = c # t" by (cases s) auto
    show ?thesis
    proof (cases "take (length old) s = old")
      case True
      let ?t = "drop (length old) s"
      have "length ?t < length s" using assms False by simp
      with 1 obtain p ps where IH: "?t = join_with old (p # ps)" "replace_loop old new ?t = join_with new (p # ps)"
        "list_all (\<lambda>q. \<not> str_contains old q) (p # ps)" "count_str old ?t = (length ?t, length ps)" by blast
      have "s = old @ ?t" using True by (metis append_take_drop_id)
      then have "s = join_with old ([] # p # ps)" "length s = length old + length ?t"
        using IH(1) by (simp, metis length_append)
      moreover have "replace_loop old new s = join_with new ([] # p # ps)"
        unfolding replace_loop.simps [of old new s] using True False assms IH(2) by simp
      moreover have "count_str old s = (length old + length ?t, length (p # ps))"
        unfolding count_str.simps [of old s] using True False assms IH(4) by simp
      moreover have "\<not> str_contains old []" using assms by (simp add: str_contains_iff)
      ultimately show ?thesis using IH(3) by (intro exI [of _ "[]"] exI [of _ "p # ps"]) simp
    next
      case no: False
      have "length t < length s" by (simp add: s)
      with 1 obtain p ps where IH: "t = join_with old (p # ps)" "replace_loop old new t = join_with new (p # ps)"
        "list_all (\<lambda>q. \<not> str_contains old q) (p # ps)" "count_str old t = (length t, length ps)" by blast
      have "s = (c # p) @ (if ps = [] then [] else old @ join_with old ps)" using s IH(1) by (simp add: join_with_Cons)
      then have "take (length old) (c # p) \<noteq> old" using no by (metis length_take min.cobounded1 min_def take_append append_take_drop_id take_all append_eq_conv_conj)
      then have "\<not> str_contains old (c # p)" using IH(3) by (simp add: str_contains_Cons)
      moreover have "replace_loop old new s = c # replace_loop old new t"
        using no unfolding s replace_loop.simps [of old new "c # t"] by simp
      moreover have "count_str old s = (Suc (length t), length ps)"
        using no IH(4) unfolding s count_str.simps [of old "c # t"] by simp
      ultimately show ?thesis
        using IH s by (intro exI [of _ "c # p"] exI [of _ ps]) (simp add: join_with_Cons)
    qed
  qed
qed

text \<open>Replacing in a page is exact: the text is cut at the occurrences of the placeholder, none is left inside a piece, the pieces are
  joined with the new text, and the buffer computed by the counting loop has room for the result and its end and nothing more.\<close>

theorem replace_str_exact:
  assumes "old \<noteq> []"
  shows "\<exists>pieces. s = join_with old pieces \<and> replace_str s old new = (int (length (join_with new pieces)) + 1, join_with new pieces) \<and>
    list_all (\<lambda>q. \<not> str_contains old q) pieces"
proof -
  obtain p ps where r: "s = join_with old (p # ps)" "replace_loop old new s = join_with new (p # ps)"
    "list_all (\<lambda>q. \<not> str_contains old q) (p # ps)" "count_str old s = (length s, length ps)"
    using replace_pieces [OF assms] by blast
  have len: "int (length (join_with sep (p # ps))) = sum_list (map (int \<circ> length) (p # ps)) + int (length ps) * int (length sep)" for sep
    by (induction ps arbitrary: p) (auto simp: join_with_Cons algebra_simps)
  have "int (length s) + int (length ps) * (int (length new) - int (length old)) = int (length (join_with new (p # ps)))"
    using len [of old] len [of new] unfolding r(1) [symmetric] by (simp add: algebra_simps)
  then show ?thesis using r by (intro exI [of _ "p # ps"]) (simp add: replace_str_def)
qed

theorem replace_str_exact_witness:
  "\<exists>pieces. ''a[%X%]b'' = join_with ''[%X%]'' pieces \<and> replace_str ''a[%X%]b'' ''[%X%]'' ''true'' =
     (int (length (join_with ''true'' pieces)) + 1, join_with ''true'' pieces)"
  using replace_str_exact [of "''[%X%]''" "''a[%X%]b''" "''true''"] by blast

section \<open>The name of the relay\<close>

definition normal_hostname :: "cstring \<Rightarrow> bool" where
  "normal_hostname h \<longleftrightarrow> h \<noteq> [] \<and> str_tolower h = h \<and> last h \<noteq> CHR ''.'' \<and> CHR '':'' \<notin> set h \<and> CHR ''/'' \<notin> set h"

lemma char_tolower_keeps: "char_tolower c = d \<Longrightarrow> char_code d < 97 \<Longrightarrow> c = d"
  by (auto simp: char_tolower_def char_code_char_of split: if_splits)

lemma root_hostname_normal: "normal_hostname (portal_root_hostname u)"
proof (cases u)
  case (Some v)
  define start where "start = (case skip_scheme v of None \<Rightarrow> v | Some s \<Rightarrow> s)"
  define host where "host = takeWhile (\<lambda>c. c \<noteq> CHR '':'' \<and> c \<noteq> CHR ''/'') start"
  define stripped where "stripped = rev (dropWhile (\<lambda>c. c = CHR ''.'') (rev host))"
  have def: "portal_root_hostname u = (if host = [] then ''localhost'' else if stripped = [] then ''localhost'' else str_tolower stripped)"
    by (simp add: portal_root_hostname_def Some Let_def start_def host_def stripped_def)
  have local: "normal_hostname ''localhost''"
    by (simp add: normal_hostname_def str_tolower_def char_tolower_def char_code_def)
  have absent: "d \<notin> set (str_tolower stripped)" if "d \<notin> set host" "char_code d < 97" for d
  proof
    assume "d \<in> set (str_tolower stripped)"
    then obtain c where c: "c \<in> set stripped" "char_tolower c = d" by (auto simp: str_tolower_def)
    have "set stripped \<subseteq> set host" unfolding stripped_def by (auto dest: set_dropWhileD)
    then show False using c that char_tolower_keeps [OF c(2)] by auto
  qed
  have "normal_hostname (str_tolower stripped)" if ne: "stripped \<noteq> []"
  proof -
    have "CHR '':'' \<notin> set host" "CHR ''/'' \<notin> set host" unfolding host_def by (auto dest: set_takeWhileD)
    then have "CHR '':'' \<notin> set (str_tolower stripped)" "CHR ''/'' \<notin> set (str_tolower stripped)"
      by (intro absent; simp add: char_code_def)+
    moreover have "last stripped \<noteq> CHR ''.''"
      using ne hd_dropWhile [of "\<lambda>c. c = CHR ''.''" "rev host"] unfolding stripped_def by (simp add: last_rev)
    then have "char_tolower (last stripped) \<noteq> CHR ''.''"
      using char_tolower_keeps [of "last stripped" "CHR ''.''"] by (auto simp: char_code_def)
    then have "last (str_tolower stripped) \<noteq> CHR ''.''" using ne by (simp add: str_tolower_def last_map)
    ultimately show ?thesis using ne by (simp add: normal_hostname_def)
  qed
  then show ?thesis using def local by auto
qed (simp add: portal_root_hostname_def normal_hostname_def str_tolower_def char_tolower_def char_code_def)

lemma public_url_eq: "portal_public_url u = ''https://'' @ portal_root_hostname u"
  using root_hostname_normal [of u] by (simp add: portal_public_url_def normal_hostname_def Let_def)

lemma relay_main_parts:
  assumes "relay_main env fs w = Some (st, fs', w')"
  defines "getenv \<equiv> re_getenv env"
  defines "rhost \<equiv> portal_root_hostname (Some (env_str_or_default getenv ''PORTAL_URL'' ''https://localhost:4017''))"
  defines "dir \<equiv> env_str_or_default getenv ''IDENTITY_PATH'' ''./.portal-certs''"
  shows "startup_settings env dir fs = Some (rl_settings st)"
    "rl_server st = portillia_server_setup rhost (env_int_or_default getenv ''API_PORT'' 4017) (Some (rl_settings st))"
    "env_str_or_default getenv ''ADVERTISE_URL'' [] = [] \<Longrightarrow> rl_keyless_url st = ''https://'' @ rhost"
    "kk_identity_path (rl_keys st) = Some dir"
    "\<exists>files w1 w2. acme_round (re_shell env) (rl_acme st) w1 = Some (files, w2) \<and> am_cfg (rl_acme st) = acme_config_of getenv rhost dir \<and>
       (rl_cert_path st, rl_key_path st) = tls_paths dir files"
proof -
  obtain settings identity fs1 acme w1 files w2 fs2 keys where step:
    "startup_settings env dir fs = Some settings"
    "portillia_relay_identity_load_or_create (re_json env) (re_generate env) (re_outcome env) (Some dir) (Some rhost) fs = (identity, fs1)"
    "portillia_acme_manager_new (re_shell env) (re_dns env) (acme_config_of getenv rhost dir) w = Some (acme, w1)"
    "acme_round (re_shell env) acme w1 = Some (files, w2)"
    "portillia_keyless_server_setup (re_json env) (re_generate env) (re_outcome env) (Some dir) fs1
       \<lparr>kk_identity_path = None, kk_private_key_hex = None, kk_public_key_hex = None\<rparr> = (fs2, keys)"
    "rl_settings st = settings" "rl_acme st = acme" "rl_keys st = keys"
    "rl_server st = portillia_server_setup rhost (env_int_or_default getenv ''API_PORT'' 4017) (Some settings)"
    "rl_cert_path st = fst (tls_paths dir files)" "rl_key_path st = snd (tls_paths dir files)"
    "rl_keyless_url st = (if env_str_or_default getenv ''ADVERTISE_URL'' [] \<noteq> [] then env_str_or_default getenv ''ADVERTISE_URL'' []
       else portal_public_url (Some (env_str_or_default getenv ''PORTAL_URL'' ''https://localhost:4017'')))"
    using assms(1) unfolding relay_main_def Let_def getenv_def rhost_def dir_def
    by (fastforce split: option.splits prod.splits)
  show "startup_settings env dir fs = Some (rl_settings st)" using step by simp
  show "rl_server st = portillia_server_setup rhost (env_int_or_default getenv ''API_PORT'' 4017) (Some (rl_settings st))" using step by simp
  show "env_str_or_default getenv ''ADVERTISE_URL'' [] = [] \<Longrightarrow> rl_keyless_url st = ''https://'' @ rhost"
    using step(12) by (simp add: public_url_eq rhost_def)
  show "kk_identity_path (rl_keys st) = Some dir"
  proof -
    have "kk_identity_path (snd (portillia_keyless_server_setup api g oc (Some d) f k)) = Some d" for api g oc d f k
      by (simp add: portillia_keyless_server_setup_def load_identity_json_def Let_def split: option.split prod.split)
    then show ?thesis using step(5,8) by (metis snd_conv)
  qed
  have "am_cfg acme = acme_config_of getenv rhost dir"
    using step(3) by (auto simp: portillia_acme_manager_new_def Let_def split: if_splits option.splits prod.splits)
  then show "\<exists>files w1 w2. acme_round (re_shell env) (rl_acme st) w1 = Some (files, w2) \<and> am_cfg (rl_acme st) = acme_config_of getenv rhost dir \<and>
       (rl_cert_path st, rl_key_path st) = tls_paths dir files"
    using step by auto
qed

text \<open>When the relay publishes itself no announcement goes to its own address.\<close>

lemma publish_skips_self:
  assumes main: "relay_main env fs w = Some (st, fs', w')"
    and order: "\<And>xs. set (order xs) = set xs"
    and sent: "(target, body) \<in> set (fst (snd (relay_publish api tb kb version poll sign now order self st)))"
  shows "\<exists>url. target = snprintf_s 1024 (url @ ''/discovery/announce'') \<and> url \<noteq> rl_keyless_url st"
proof -
  have own: "dc_relay_url (rl_discovery st) = Some (rl_keyless_url st)" "dc_advertise_url (rl_discovery st) = Some (rl_keyless_url st)"
    using main unfolding relay_main_def Let_def by (fastforce split: option.splits prod.splits)+
  then have "\<exists>url \<in> set (announce_targets (rl_discovery st)). target = snprintf_s 1024 (url @ ''/discovery/announce'')"
    using sent order by (auto simp: relay_publish_def discovery_task_def portillia_discovery_announce_def Let_def)
  then show ?thesis using own(1) by (auto simp: announce_targets_def split: option.splits)
qed

text \<open>C14. The relay can be reached under the URL it hands out: whatever \<^verbatim>\<open>PORTAL_URL\<close> is, without an advertised URL the SDK is given
  \<^verbatim>\<open>https://\<close> and a normalized host name, and a connection of the public listener for that name is spliced to the API listener.\<close>

theorem public_url_reaches_api:
  assumes main: "relay_main env fs w = Some (st, fs', w')"
    and no_advertise: "env_str_or_default (re_getenv env) ''ADVERTISE_URL'' [] = []"
    and hello: "get_sni_hostname rounds = Some (Some sni)" "rl_keyless_url st = ''https://'' @ bytes_to_cstring sni"
    and api: "he_api_connects he"
  shows "normal_hostname (bytes_to_cstring sni) \<and>
    sni_worker_thread sha256 hostname_hash he rounds (rl_server st) client =
      Some (start_bridge client (To_api (he_api_fd he)) 0 (rl_server st))"
proof -
  let ?host = "portal_root_hostname (Some (env_str_or_default (re_getenv env) ''PORTAL_URL'' ''https://localhost:4017''))"
  have "bytes_to_cstring sni = ?host" using relay_main_parts(3) [OF main no_advertise] hello(2) by simp
  then show ?thesis
    using root_hostname_normal relay_main_parts(2) [OF main] hello(1) api
    by (simp add: sni_worker_thread_def portillia_server_handle_connect_def portillia_server_setup_def lease_registry_new_def)
qed

text \<open>What an administrator switched survives a restart only in part: starting on a saved settings file keeps the approval mode, the limit
  and the lists of identities, but the landing page, UDP, TCP and the trust in proxy headers are what the environment says, and off
  without it.\<close>

theorem restart_resets_switches:
  assumes main: "relay_main env fs w = Some (st, fs', w')" and laws: "cjson_laws (re_json env) view"
    and dir: "env_str_or_default (re_getenv env) ''IDENTITY_PATH'' ''./.portal-certs'' = dir"
    and saved: "fs (snprintf_s 1024 (dir @ ''/settings.json'')) = Some (portillia_settings_save (re_json env) s)"
    and bps: "\<bar>s_default_bps_limit s\<bar> \<le> 2 ^ 53"
  shows "s_approval_mode (rl_settings st) = s_approval_mode s \<and> s_default_bps_limit (rl_settings st) = s_default_bps_limit s \<and>
    sl_items (s_banned (rl_settings st)) = sl_items (s_banned s) \<and> sl_items (s_approved (rl_settings st)) = sl_items (s_approved s) \<and>
    s_landing_page_enabled (rl_settings st) = env_bool_or_default (re_getenv env) ''LANDING_PAGE_ENABLED'' False \<and>
    s_udp_enabled (rl_settings st) = env_bool_or_default (re_getenv env) ''UDP_ENABLED'' False \<and>
    s_tcp_port_enabled (rl_settings st) = env_bool_or_default (re_getenv env) ''TCP_ENABLED'' False \<and>
    s_trust_proxy_headers (rl_settings st) = env_bool_or_default (re_getenv env) ''TRUST_PROXY_HEADERS'' False"
proof -
  obtain s' where s': "portillia_settings_load (re_json env) (snprintf_s 1024 (dir @ ''/settings.json''))
      (Some (portillia_settings_save (re_json env) s)) = Some s'" "same_settings s s'"
    using settings_saved_loads [OF laws bps] by blast
  have "rl_settings st = s'\<lparr>s_landing_page_enabled := env_bool_or_default (re_getenv env) ''LANDING_PAGE_ENABLED'' False,
      s_trust_proxy_headers := env_bool_or_default (re_getenv env) ''TRUST_PROXY_HEADERS'' False,
      s_udp_enabled := env_bool_or_default (re_getenv env) ''UDP_ENABLED'' False,
      s_tcp_port_enabled := env_bool_or_default (re_getenv env) ''TCP_ENABLED'' False\<rparr>"
    using relay_main_parts(1) [OF main] s'(1) saved by (simp add: startup_settings_def Let_def dir)
  then show ?thesis using s'(2) by (simp add: same_settings_def)
qed

text \<open>C13. The relay terminates TLS with the certificate that tenants are given: the chain that the API listener is started with is the file
  that the endpoint for tenants serves, and the key file beside it is the one that signs for them.\<close>

theorem listener_and_signer_agree:
  assumes main: "relay_main env fs w = Some (st, fs', w')"
    and dir: "env_str_or_default (re_getenv env) ''IDENTITY_PATH'' ''./.portal-certs'' = dir" "last dir \<noteq> CHR ''/''" "length dir < 400"
    and served: "pems (rl_cert_path st) = Some chain" "until_nul chain = chain"
  shows "rp_body (handle_keyless_cert pems (rl_keys st) fresh_response) = Body_text chain \<and>
    load_acme_private_key read_pem pems (rl_keys st) = (case pems (rl_key_path st) of None \<Rightarrow> None | Some text \<Rightarrow> read_pem text)"
proof -
  let ?host = "portal_root_hostname (Some (env_str_or_default (re_getenv env) ''PORTAL_URL'' ''https://localhost:4017''))"
  have ne: "dir \<noteq> []" using dir(1) by (auto simp: env_str_or_default_def split: option.splits if_splits)
  have paths: "acme_cert_path (acme_config_of (re_getenv env) ?host dir) = dir @ ''/fullchain.pem''"
    "acme_key_path (acme_config_of (re_getenv env) ?host dir) = dir @ ''/privatekey.pem''"
    using dir(3) by (simp_all add: acme_cert_path_def acme_key_path_def acme_config_of_def printed_def)
  obtain files w1 w2 where round: "acme_round (re_shell env) (rl_acme st) w1 = Some (files, w2)"
    "am_cfg (rl_acme st) = acme_config_of (re_getenv env) ?host dir" "(rl_cert_path st, rl_key_path st) = tls_paths dir files"
    using relay_main_parts(5) [OF main] unfolding dir(1) by blast
  have "files = None \<or> files = Some (dir @ ''/fullchain.pem'', dir @ ''/privatekey.pem'')"
    using round(1,2) paths
    by (auto simp: acme_round_def portillia_acme_manager_ensure_certificate_def provision_def Let_def split: option.splits if_splits prod.splits)
  then have "tls_paths dir files = (dir @ ''/fullchain.pem'', dir @ ''/privatekey.pem'')"
    using dir(3) by (auto simp: tls_paths_def)
  then have "rl_cert_path st = signer_join_path dir ''fullchain.pem''" "rl_key_path st = signer_join_path dir ''privatekey.pem''"
    using round(3) ne dir(2) by (simp_all add: signer_join_path_def)
  then show ?thesis
    using relay_main_parts(4) [OF main] served dir(1) by (simp add: handle_keyless_cert_def load_acme_private_key_def)
qed

section \<open>Pages that do not exist\<close>

text \<open>A page that does not exist is answered with the status of success, also when the landing page is disabled or the page file is missing.\<close>

theorem missing_page_succeeds:
  assumes "fs (snprintf_s 1024 (static_dir_of getenv @ path)) = None" "CHR ''.'' \<notin> set path"
    "(case settings of None \<Rightarrow> False | Some s \<Rightarrow> \<not> s_landing_page_enabled s)"
  shows "rp_status (spa_error_handler getenv version fs settings CWIST_HTTP_GET path CWIST_HTTP_NOT_FOUND res) = Http_code 200 \<and>
    rp_body (spa_error_handler getenv version fs settings CWIST_HTTP_GET path CWIST_HTTP_NOT_FOUND res) = Body_text ''Landing page disabled''"
  using assms by (simp add: spa_error_handler_def fallback_spa_handler_clean_def)

section \<open>A relay for the witnesses\<close>

definition demo_settings :: portillia_settings where
  "demo_settings = (default_settings ''s'')\<lparr>s_banned := \<lparr>sl_items = [''0xA''], sl_capacity = 8\<rparr>\<rparr>"

definition demo_relay :: "(json, json, dns_record list) relay_env" where
  "demo_relay = \<lparr>re_getenv = (\<lambda>n. if n = ''PORTAL_URL'' then Some ''https://A.io:4017'' else None), re_json = tree_json,
     re_generate = (\<lambda>_. Some sample_identity), re_outcome = Written, re_shell = toy_shell, re_dns = toy_dns, re_registry = None,
     re_overlay_starts = True\<rparr>"

definition demo_files :: "json file_system" where
  "demo_files = [''./.portal-certs/settings.json'' \<mapsto> portillia_settings_save tree_json demo_settings]"

definition demo_world :: "dns_record list dns_world acme_world" where
  "demo_world = \<lparr>aw_files = Map.empty, aw_dirs = {}, aw_environ = Map.empty, aw_commands = [], aw_dns = toy_world []\<rparr>"

lemma demo_variables:
  "env_str_or_default (re_getenv demo_relay) name v = (if name = ''PORTAL_URL'' then ''https://A.io:4017'' else v)"
  "name \<noteq> ''PORTAL_URL'' \<Longrightarrow> env_int_or_default (re_getenv demo_relay) name i = i"
  "name \<noteq> ''PORTAL_URL'' \<Longrightarrow> env_bool_or_default (re_getenv demo_relay) name b = b"
  "name \<noteq> ''PORTAL_URL'' \<Longrightarrow> re_getenv demo_relay name = None" "re_json demo_relay = tree_json"
  by (simp_all add: demo_relay_def env_str_or_default_def env_int_or_default_def env_bool_or_default_def)

lemma demo_host: "portal_root_hostname (Some ''https://A.io:4017'') = ''a.io''"
  by code_simp

lemma demo_acme:
  "\<exists>m w1 w2. portillia_acme_manager_new (re_shell demo_relay) (re_dns demo_relay)
      (acme_config_of (re_getenv demo_relay) ''a.io'' ''./.portal-certs'') demo_world = Some (m, w1) \<and>
    acme_round (re_shell demo_relay) m w1 = Some (None, w2)"
proof -
  define cfg where "cfg = acme_config_of (re_getenv demo_relay) ''a.io'' ''./.portal-certs''"
  have cfg: "ac_dns_provider_type cfg = Some []" "\<not> ac_ens_gasless_enabled cfg" "ac_base_domain cfg = Some ''a.io''"
    "ac_key_dir cfg = Some ''./.portal-certs''"
    by (simp_all add: cfg_def acme_config_of_def demo_variables)
  obtain key_path email w1 where account: "ensure_acme_account toy_shell cfg demo_world = (key_path, email, w1)" by (metis prod_cases3)
  have files: "key_path = ''./.portal-certs/acme-account.key''"
    "aw_files w1 = [''./.portal-certs/acme-account.key'' \<mapsto> ''dummy_acme_key'', ''./.portal-certs/acme-registration.json'' \<mapsto> ''{}'']"
    using account by (auto simp: ensure_acme_account_def cfg Let_def demo_world_def write_text_def toy_shell_def printed_def snprintf_s_def)
  have "acme_cert_path cfg = ''./.portal-certs/fullchain.pem''" by (simp add: acme_cert_path_def cfg printed_def)
  then have "portillia_acme_manager_ensure_certificate toy_shell cfg w1 = Some (None, w1\<lparr>aw_dirs := insert (acme_home cfg) (aw_dirs w1)\<rparr>)"
    by (simp add: portillia_acme_manager_ensure_certificate_def Let_def files(2) cfg lego_provider_def)
  then show ?thesis
    unfolding cfg_def [symmetric]
    by (simp add: portillia_acme_manager_new_def demo_relay_def cfg account acme_round_def portillia_acme_manager_sync_dns_def)
qed

lemma demo_starts:
  "\<exists>st fs' w'. relay_main demo_relay demo_files demo_world = Some (st, fs', w') \<and> rl_keyless_url st = ''https://a.io'' \<and>
     rl_cert_path st = ''./.portal-certs/fullchain.pem''"
proof -
  obtain s' where s': "portillia_settings_load tree_json ''./.portal-certs/settings.json''
      (Some (portillia_settings_save tree_json demo_settings)) = Some s'"
    using settings_saved_loads [OF tree_json_laws, of demo_settings] by (auto simp: demo_settings_def default_settings_def)
  have "\<exists>s. startup_settings demo_relay ''./.portal-certs'' demo_files = Some s"
    using s' by (simp add: startup_settings_def Let_def demo_variables demo_files_def snprintf_s_def)
  then obtain s m w1 w2 where p: "startup_settings demo_relay ''./.portal-certs'' demo_files = Some s"
    "portillia_acme_manager_new (re_shell demo_relay) (re_dns demo_relay)
       (acme_config_of (re_getenv demo_relay) ''a.io'' ''./.portal-certs'') demo_world = Some (m, w1)"
    "acme_round (re_shell demo_relay) m w1 = Some (None, w2)"
    using demo_acme by blast
  have vars: "env_str_or_default (re_getenv demo_relay) ''PORTAL_URL'' ''https://localhost:4017'' = ''https://A.io:4017''"
    "env_str_or_default (re_getenv demo_relay) ''ADVERTISE_URL'' [] = []"
    "env_str_or_default (re_getenv demo_relay) ''IDENTITY_PATH'' ''./.portal-certs'' = ''./.portal-certs''"
    by (simp_all add: demo_variables)
  show ?thesis
    unfolding relay_main_def Let_def vars demo_host p option.case prod.case
    by (auto simp: public_url_eq demo_host tls_paths_def snprintf_s_def split: prod.splits)
qed

lemma demo_sni: "get_sni_hostname [Peeked (concat (map (tls_record (3, 1)) [take 10 sample_hello, drop 10 sample_hello]) @ []) 100] =
    Some (Some [97, 46, 105, 111])"
  using fragmentation [OF sample_hello_fragments, of "(3, 1)" "[]"] sample_hello_host by simp

theorem public_url_reaches_api_witness:
  "\<exists>st fs' w'. relay_main demo_relay demo_files demo_world = Some (st, fs', w') \<and>
     sni_worker_thread (\<lambda>m. m) (\<lambda>_. None) sample_env
       [Peeked (concat (map (tls_record (3, 1)) [take 10 sample_hello, drop 10 sample_hello]) @ []) 100] (rl_server st) 4 =
     Some (start_bridge 4 (To_api 50) 0 (rl_server st))"
proof -
  obtain st fs' w' where m: "relay_main demo_relay demo_files demo_world = Some (st, fs', w')" "rl_keyless_url st = ''https://a.io''"
    using demo_starts by blast
  have "env_str_or_default (re_getenv demo_relay) ''ADVERTISE_URL'' [] = []" by (simp add: demo_variables)
  moreover have "bytes_to_cstring [97, 46, 105, 111] = ''a.io''" by code_simp
  ultimately have "sni_worker_thread (\<lambda>m. m) (\<lambda>_. None) sample_env
       [Peeked (concat (map (tls_record (3, 1)) [take 10 sample_hello, drop 10 sample_hello]) @ []) 100] (rl_server st) 4 =
     Some (start_bridge 4 (To_api (he_api_fd sample_env)) 0 (rl_server st))"
    using public_url_reaches_api [OF m(1) _ demo_sni, of sample_env "\<lambda>m. m" "\<lambda>_. None" 4] m(2) by (simp add: sample_env_def)
  then show ?thesis using m(1) by (auto simp: sample_env_def)
qed

theorem restart_resets_switches_witness:
  "\<exists>st fs' w'. relay_main demo_relay demo_files demo_world = Some (st, fs', w') \<and> s_landing_page_enabled demo_settings \<and>
     \<not> s_landing_page_enabled (rl_settings st) \<and> sl_items (s_banned (rl_settings st)) = [''0xA'']"
proof -
  obtain st fs' w' where m: "relay_main demo_relay demo_files demo_world = Some (st, fs', w')" using demo_starts by blast
  have pre: "cjson_laws (re_json demo_relay) (\<lambda>j. j)" "demo_files (snprintf_s 1024 (''./.portal-certs'' @ ''/settings.json'')) =
      Some (portillia_settings_save (re_json demo_relay) demo_settings)" "\<bar>s_default_bps_limit demo_settings\<bar> \<le> 2 ^ 53"
    "env_str_or_default (re_getenv demo_relay) ''IDENTITY_PATH'' ''./.portal-certs'' = ''./.portal-certs''"
    by (simp_all add: demo_variables tree_json_laws demo_files_def snprintf_s_def demo_settings_def default_settings_def)
  from restart_resets_switches [OF m pre(1,4,2,3)] show ?thesis
    using m by (auto simp: demo_variables demo_settings_def default_settings_def)
qed

theorem listener_and_signer_agree_witness:
  "\<exists>st fs' w'. relay_main demo_relay demo_files demo_world = Some (st, fs', w') \<and>
     rp_body (handle_keyless_cert [''./.portal-certs/fullchain.pem'' \<mapsto> ''PEM''] (rl_keys st) fresh_response) = Body_text ''PEM''"
proof -
  obtain st fs' w' where m: "relay_main demo_relay demo_files demo_world = Some (st, fs', w')"
    "rl_cert_path st = ''./.portal-certs/fullchain.pem''" using demo_starts by blast
  have dir: "env_str_or_default (re_getenv demo_relay) ''IDENTITY_PATH'' ''./.portal-certs'' = ''./.portal-certs''"
    by (simp add: demo_variables)
  have "rp_body (handle_keyless_cert [''./.portal-certs/fullchain.pem'' \<mapsto> ''PEM''] (rl_keys st) fresh_response) = Body_text ''PEM''"
    using listener_and_signer_agree [OF m(1) dir, of "[''./.portal-certs/fullchain.pem'' \<mapsto> ''PEM'']" "''PEM''" Some] m(2)
    by (simp add: until_nul_def)
  then show ?thesis using m(1) by blast
qed

section \<open>The relays to start from, continued\<close>

lemma strtok_commas_Nil: "strtok_commas [] = []"
  by (simp add: strtok_commas.simps)

lemma strtok_commas_comma: "strtok_commas (CHR '','' # s) = strtok_commas s"
  by (subst (1 2) strtok_commas.simps) simp

lemma comma_free_split:
  "CHR '','' \<notin> set t \<Longrightarrow> takeWhile (\<lambda>c. c \<noteq> CHR '','') (t @ CHR '','' # s) = t \<and>
     dropWhile (\<lambda>c. c \<noteq> CHR '','') (t @ CHR '','' # s) = CHR '','' # s \<and>
     takeWhile (\<lambda>c. c \<noteq> CHR '','') t = t \<and> dropWhile (\<lambda>c. c \<noteq> CHR '','') t = []"
  by (induction t) auto

lemma strtok_commas_step:
  "dropWhile (\<lambda>c. c = CHR '','') s = s1 \<Longrightarrow> s1 \<noteq> [] \<Longrightarrow>
   strtok_commas s = takeWhile (\<lambda>c. c \<noteq> CHR '','') s1 # strtok_commas (dropWhile (\<lambda>c. c \<noteq> CHR '','') s1)"
  by (subst strtok_commas.simps) (simp add: Let_def)

lemma strtok_commas_token:
  assumes "t \<noteq> []" "CHR '','' \<notin> set t"
  shows "strtok_commas (t @ CHR '','' # s) = t # strtok_commas s" "strtok_commas t = [t]"
proof -
  obtain c u where t: "t = c # u" "c \<noteq> CHR '',''" using assms by (cases t) auto
  have drop: "dropWhile (\<lambda>c. c = CHR '','') (t @ r) = t @ r" for r using t by simp
  show "strtok_commas (t @ CHR '','' # s) = t # strtok_commas s"
    using strtok_commas_step [OF drop, of "CHR '','' # s"] assms comma_free_split [OF assms(2), of s] by (simp add: strtok_commas_comma)
  show "strtok_commas t = [t]"
    using strtok_commas_step [OF drop, of "[]"] assms comma_free_split [OF assms(2)] by (simp add: strtok_commas_Nil)
qed

lemma strtok_commas_append: "strtok_commas (a @ CHR '','' # b) = strtok_commas a @ strtok_commas b"
proof (induction a rule: length_induct)
  case (1 a)
  show ?case
  proof (cases a)
    case (Cons c a')
    show ?thesis
    proof (cases "c = CHR '',''")
      case True
      then show ?thesis using 1 Cons by (simp add: strtok_commas_comma)
    next
      case False
      define t where "t = takeWhile (\<lambda>c. c \<noteq> CHR '','') a"
      define r where "r = dropWhile (\<lambda>c. c \<noteq> CHR '','') a"
      have t: "a = t @ r" "t \<noteq> []" "CHR '','' \<notin> set t"
        using False Cons by (auto simp: t_def r_def dest: set_takeWhileD)
      show ?thesis
      proof (cases r)
        case Nil
        then show ?thesis using t strtok_commas_token(1) [OF t(2,3), of b] strtok_commas_token(2) [OF t(2,3)] by simp
      next
        case (Cons d r')
        then have "d = CHR '',''" using hd_dropWhile [of "\<lambda>c. c \<noteq> CHR '',''" a] by (simp add: r_def)
        moreover have "strtok_commas (r' @ CHR '','' # b) = strtok_commas r' @ strtok_commas b" using 1 t(1) Cons by simp
        ultimately show ?thesis using t Cons strtok_commas_token(1) [OF t(2,3)] by simp
      qed
    qed
  qed (simp add: strtok_commas_Nil strtok_commas_comma)
qed

lemma strtok_commas_clean: "t \<in> set (strtok_commas s) \<Longrightarrow> t \<noteq> [] \<and> CHR '','' \<notin> set t"
proof (induction s rule: strtok_commas.induct)
  case (1 s)
  let ?s1 = "dropWhile (\<lambda>c. c = CHR '','') s"
  have ne: "?s1 \<noteq> []"
  proof
    assume "?s1 = []"
    then have "strtok_commas s = []" by (subst strtok_commas.simps) (simp only: Let_def if_True refl)
    then show False using 1(2) by simp
  qed
  then have hd1: "hd ?s1 \<noteq> CHR '',''" by (rule hd_dropWhile)
  have "t = takeWhile (\<lambda>c. c \<noteq> CHR '','') ?s1 \<or> t \<in> set (strtok_commas (dropWhile (\<lambda>c. c \<noteq> CHR '','') ?s1))"
    using 1(2) unfolding strtok_commas_step [OF refl ne] by simp
  then show ?case
  proof
    assume "t = takeWhile (\<lambda>c. c \<noteq> CHR '','') ?s1"
    then show ?thesis using ne hd1 by (cases ?s1) (auto dest: set_takeWhileD)
  qed (rule 1(1) [OF refl ne])
qed

abbreviation lstrip :: "cstring \<Rightarrow> cstring" where
  "lstrip t \<equiv> dropWhile (\<lambda>c. c = CHR '' '') t"

lemma join_tokens_tokens:
  assumes "list_all (\<lambda>t. CHR '','' \<notin> set t) toks" "first \<longrightarrow> out = []"
  shows "strtok_commas (join_tokens self first out toks) =
    strtok_commas out @ filter (\<lambda>t. t \<noteq> [] \<and> \<not> strcasecmp_eq t self) (map lstrip toks)"
  using assms
proof (induction toks arbitrary: first out)
  case (Cons tok toks)
  let ?t = "lstrip tok"
  have nc: "CHR '','' \<notin> set ?t" using Cons.prems(1) by (auto dest: set_dropWhileD)
  have single: "strtok_commas ?t = (if ?t = [] then [] else [?t])"
  proof (cases "?t = []")
    case True
    show ?thesis unfolding True by (simp add: strtok_commas_Nil)
  next
    case False
    show ?thesis unfolding strtok_commas_token(2) [OF False nc] if_not_P [OF False] ..
  qed
  show ?case
  proof (cases "strcasecmp_eq ?t self")
    case True
    then show ?thesis using Cons by (simp add: Let_def)
  next
    case False
    have "strtok_commas (if first then ?t else out @ '','' @ ?t) = strtok_commas out @ (if ?t = [] then [] else [?t])"
      using Cons.prems(2) single strtok_commas_append [of out ?t] by (auto simp: strtok_commas_Nil)
    moreover have "(if first then out else out @ '','') @ ?t = (if first then ?t else out @ '','' @ ?t)" using Cons.prems(2) by auto
    moreover have "?t \<noteq> self" using False by auto
    ultimately show ?thesis using False Cons.IH [of False "(if first then out else out @ '','') @ ?t"] Cons.prems(1)
      by (auto simp: Let_def)
  qed
qed (simp)

text \<open>The relay never starts from itself: the addresses that remain are those of the variable and of the registry, in this order, without
  leading blanks and without any that equals the own URL up to case.\<close>

theorem bootstraps_exclude_self:
  assumes "self \<noteq> []"
  shows "(case resolve_portal_relay_urls bootstraps remote (Some self) of None \<Rightarrow> [] | Some urls \<Rightarrow> strtok_commas urls) =
    filter (\<lambda>t. t \<noteq> [] \<and> \<not> strcasecmp_eq t self) (map lstrip (strtok_commas (or_empty bootstraps) @ strtok_commas (or_empty remote)))"
proof -
  have clean: "list_all (\<lambda>t. CHR '','' \<notin> set t) (strtok_commas s)" for s
    using strtok_commas_clean unfolding list_all_iff by blast
  have tokens: "strtok_commas (join_tokens self True [] (strtok_commas s)) =
      filter (\<lambda>t. t \<noteq> [] \<and> \<not> strcasecmp_eq t self) (map lstrip (strtok_commas s))" for s
    using join_tokens_tokens [OF clean, of True "[]" self s] by (simp add: strtok_commas_Nil)
  show ?thesis
  proof (cases "or_empty bootstraps = [] \<or> or_empty remote = []")
    case True
    then show ?thesis using assms by (auto simp: resolve_portal_relay_urls_def strtok_commas_Nil tokens)
  next
    case False
    then have "resolve_portal_relay_urls bootstraps remote (Some self) =
        Some (join_tokens self True [] (strtok_commas (or_empty bootstraps @ CHR '','' # or_empty remote)))"
      using assms by (simp add: resolve_portal_relay_urls_def)
    then show ?thesis unfolding strtok_commas_append [symmetric] by (simp only: option.case tokens)
  qed
qed

theorem bootstraps_exclude_self_witness:
  "(case resolve_portal_relay_urls (Some ''https://R.io, https://x'') (Some ''https://y'') (Some ''https://r.io'') of
      None \<Rightarrow> [] | Some urls \<Rightarrow> strtok_commas urls) = [''https://x'', ''https://y'']"
proof -
  have toks: "strtok_commas ''https://R.io, https://x'' = [''https://R.io'', '' https://x'']" "strtok_commas ''https://y'' = [''https://y'']"
    "strcasecmp_eq ''https://R.io'' ''https://r.io''" "\<not> strcasecmp_eq ''https://x'' ''https://r.io''" "\<not> strcasecmp_eq ''https://y'' ''https://r.io''"
    by code_simp+
  show ?thesis
    using bootstraps_exclude_self [of "''https://r.io''" "Some ''https://R.io, https://x''" "Some ''https://y''"]
    by (simp add: toks)
qed

text \<open>The list read from the registry fits its buffer, which counts one byte more than each address.\<close>

lemma join_registry_length:
  "length (join_registry out ss) \<le> length out + registry_total ss - (if out = [] \<and> ss \<noteq> [] then 1 else 0)"
proof (induction ss arbitrary: out)
  case (Cons s ss)
  show ?case
    using Cons.IH [of "(if out \<noteq> [] then out @ '','' else out) @ s"]
    by (cases "out = []"; cases "s = []"; cases "ss = []") (auto simp: registry_total_def)
qed (simp add: registry_total_def)

theorem registry_list_fits:
  "0 < registry_total ss \<Longrightarrow> length (join_registry [] ss) + 1 \<le> registry_total ss"
  using join_registry_length [of "[]" ss] by (cases "ss = []") (auto simp: registry_total_def)

section \<open>Variables without effect\<close>

text \<open>The variables for trusted proxies, for the range of ports, for profiling and for the headless shell change nothing: a relay
  starts in the same state whatever they are.\<close>

theorem ignored_variables:
  assumes "name \<in> {''TRUSTED_PROXY_CIDRS'', ''MIN_PORT'', ''MAX_PORT'', ''PPROF_ENABLED'', ''PPROF_ADDR'', ''HEADLESS_SHELL_URL''}"
  shows "relay_main (env\<lparr>re_getenv := (re_getenv env)(name := v)\<rparr>) fs w = relay_main env fs w"
proof -
  let ?g = "re_getenv env" and ?g' = "(re_getenv env)(name := v)"
  have same: "env_str_or_default ?g' x = env_str_or_default ?g x" "env_int_or_default ?g' x = env_int_or_default ?g x"
    "env_bool_or_default ?g' x = env_bool_or_default ?g x" if "x \<noteq> name" for x
    using that by (auto simp: fun_eq_iff env_str_or_default_def env_int_or_default_def env_bool_or_default_def)
  have ne: "x \<noteq> name" if "x \<in> {''PORTAL_URL'', ''ADVERTISE_URL'', ''IDENTITY_PATH'', ''BOOTSTRAPS'', ''DISCOVERY'', ''API_PORT'', ''SNI_PORT'',
      ''WIREGUARD_PORT'', ''MAX_ROUTING'', ''UDP_ENABLED'', ''TCP_ENABLED'', ''LANDING_PAGE_ENABLED'', ''TRUST_PROXY_HEADERS'',
      ''ACME_DNS_PROVIDER'', ''ENS_GASLESS_ENABLED'', ''ENS_GASLESS_ADDRESS'', ''CLOUDFLARE_TOKEN'', ''GCP_PROJECT_ID'', ''GCP_MANAGED_ZONE'',
      ''NJALLA_TOKEN'', ''AWS_ACCESS_KEY_ID'', ''AWS_SECRET_ACCESS_KEY'', ''AWS_SESSION_TOKEN'', ''AWS_REGION'', ''AWS_HOSTED_ZONE_ID'',
      ''AWS_DNSSEC_KMS_KEY_ARN''}" for x
    using assms that by auto
  have acme: "acme_config_of ?g' = acme_config_of ?g"
    unfolding acme_config_of_def fun_eq_iff by (simp add: same ne)
  have settings: "startup_settings (env\<lparr>re_getenv := ?g'\<rparr>) = startup_settings env"
    unfolding startup_settings_def fun_eq_iff by (simp add: same ne Let_def)
  have vars: "env_str_or_default ?g' ''PORTAL_URL'' = env_str_or_default ?g ''PORTAL_URL''"
    "env_str_or_default ?g' ''ADVERTISE_URL'' = env_str_or_default ?g ''ADVERTISE_URL''"
    "env_str_or_default ?g' ''IDENTITY_PATH'' = env_str_or_default ?g ''IDENTITY_PATH''"
    "env_str_or_default ?g' ''BOOTSTRAPS'' = env_str_or_default ?g ''BOOTSTRAPS''"
    "env_bool_or_default ?g' ''DISCOVERY'' = env_bool_or_default ?g ''DISCOVERY''"
    "env_int_or_default ?g' ''API_PORT'' = env_int_or_default ?g ''API_PORT''"
    "env_int_or_default ?g' ''SNI_PORT'' = env_int_or_default ?g ''SNI_PORT''"
    "env_int_or_default ?g' ''WIREGUARD_PORT'' = env_int_or_default ?g ''WIREGUARD_PORT''"
    "env_int_or_default ?g' ''MAX_ROUTING'' = env_int_or_default ?g ''MAX_ROUTING''"
    by (simp_all add: same ne)
  have fields: "re_getenv (env\<lparr>re_getenv := ?g'\<rparr>) = ?g'" "re_json (env\<lparr>re_getenv := ?g'\<rparr>) = re_json env"
    "re_generate (env\<lparr>re_getenv := ?g'\<rparr>) = re_generate env" "re_outcome (env\<lparr>re_getenv := ?g'\<rparr>) = re_outcome env"
    "re_shell (env\<lparr>re_getenv := ?g'\<rparr>) = re_shell env" "re_dns (env\<lparr>re_getenv := ?g'\<rparr>) = re_dns env"
    "re_registry (env\<lparr>re_getenv := ?g'\<rparr>) = re_registry env"
    "re_overlay_starts (env\<lparr>re_getenv := ?g'\<rparr>) = re_overlay_starts env"
    by simp_all
  show ?thesis unfolding relay_main_def Let_def fields settings acme vars ..
qed

theorem ignored_variables_witness:
  "relay_main (demo_relay\<lparr>re_getenv := (re_getenv demo_relay)(''TRUSTED_PROXY_CIDRS'' := Some ''10.0.0.0/8'')\<rparr>) demo_files demo_world =
     relay_main demo_relay demo_files demo_world"
  by (rule ignored_variables) simp

end
