(* ===== verification/Net_Conn.thy ===== *)
theory Net_Conn
  imports Stream_Client "HOL-Library.Sublist"
begin

text \<open>
  Reading from and writing to a tunnelled connection, and closing it: the connection helpers of \<^verbatim>\<open>src/sdk/expose.c\<close>. The inner TLS session works on
  memory BIOs, which the helpers feed from and empty into the outer TLS session.

  The inner session is a parameter, a state with the four calls that are used of it. What the outer session does is given as two
  lists, of the results of its reads and of its writes; a list that is used up is a call that blocks. A loop that spins without
  a call of the outer session does not return, which is the value \<open>None\<close>.
\<close>

section \<open>The two sessions\<close>

text \<open>\<open>SSL_read\<close> and \<open>SSL_write\<close> of the inner session yield bytes, or a positive number, or what \<open>SSL_get_error\<close> says.\<close>

record 's inner_engine =
  ie_read :: "nat \<Rightarrow> 's \<Rightarrow> (byte list + ssl_status) \<times> 's"
  ie_write :: "byte list \<Rightarrow> 's \<Rightarrow> (nat + ssl_status) \<times> 's"
  ie_feed :: "byte list \<Rightarrow> 's \<Rightarrow> 's"
  ie_output :: "nat \<Rightarrow> 's \<Rightarrow> byte list \<times> 's"

datatype outer_read = Outer_got "byte list" | Outer_read_again | Outer_read_fails

datatype outer_write = Outer_wrote nat | Outer_write_again | Outer_write_fails

record 's tunnel =
  tn_inner :: 's
  tn_reads :: "outer_read list"
  tn_writes :: "outer_write list"
  tn_sent :: "byte list"

text \<open>Why a helper stops without success: \<open>EAGAIN\<close>, \<open>EIO\<close>, or a call that blocks.\<close>

datatype io_stop = Stop_again | Stop_io | Stop_blocks

datatype 'a io_result = Io_done 'a | Io_stopped io_stop

section \<open>Writing\<close>

text \<open>One chunk of ciphertext to the outer session, in as many calls as it takes.\<close>

fun send_all :: "outer_write list \<Rightarrow> byte list \<Rightarrow> byte list \<times> outer_write list \<times> io_stop option" where
  "send_all ws [] = ([], ws, None)"
| "send_all [] (b # bs) = ([], [], Some Stop_blocks)"
| "send_all (Outer_write_again # ws) (b # bs) = ([], ws, Some Stop_again)"
| "send_all (Outer_write_fails # ws) (b # bs) = ([], ws, Some Stop_io)"
| "send_all (Outer_wrote k # ws) (b # bs) =
     (if k = 0 then ([], ws, Some Stop_io)
      else case send_all ws (drop k (b # bs)) of (out, ws', stop) \<Rightarrow> (take k (b # bs) @ out, ws', stop))"

lemma send_all_consumes: "send_all ws bs = (out, ws', None) \<Longrightarrow> bs \<noteq> [] \<Longrightarrow> length ws' < length ws"
proof (induction ws bs arbitrary: out rule: send_all.induct)
  case (5 k ws b bs)
  show ?case
  proof (cases "drop k (b # bs) = []")
    case True
    then show ?thesis using 5(2) by (auto split: if_splits)
  next
    case False
    then show ?thesis using 5 by (fastforce split: if_splits prod.splits)
  qed
qed auto

text \<open>What the inner session has put out, until its BIO is empty.\<close>

function pump_out :: "'s inner_engine \<Rightarrow> 's tunnel \<Rightarrow> 's tunnel \<times> io_stop option" where
  "pump_out eng t =
     (case ie_output eng 4096 (tn_inner t) of
        (chunk, inner') \<Rightarrow>
          if chunk = [] then (t\<lparr>tn_inner := inner'\<rparr>, None)
          else case send_all (tn_writes t) chunk of
            (out, ws', stop) \<Rightarrow>
              let t' = t\<lparr>tn_inner := inner', tn_writes := ws', tn_sent := tn_sent t @ out\<rparr>
              in if stop = None then pump_out eng t' else (t', stop))"
  by pat_completeness auto
termination
  by (relation "measure (\<lambda>(eng, t). length (tn_writes t))") (auto intro: send_all_consumes [OF sym])

declare pump_out.simps [simp del]

text \<open>The reactions to a session that wants to read or to write first, shared by both helpers. The number of bytes the outer session
  took is compared with zero only.\<close>

definition want_read :: "'s inner_engine \<Rightarrow> 's tunnel \<Rightarrow> 's tunnel \<times> io_stop option" where
  "want_read eng t =
     (case tn_reads t of
        [] \<Rightarrow> (t, Some Stop_blocks)
      | Outer_read_again # rs \<Rightarrow> (t\<lparr>tn_reads := rs\<rparr>, Some Stop_again)
      | Outer_read_fails # rs \<Rightarrow> (t\<lparr>tn_reads := rs\<rparr>, Some Stop_io)
      | Outer_got data # rs \<Rightarrow>
          if data = [] then (t\<lparr>tn_reads := rs\<rparr>, Some Stop_io)
          else (t\<lparr>tn_reads := rs, tn_inner := ie_feed eng data (tn_inner t)\<rparr>, None))"

definition want_write :: "'s inner_engine \<Rightarrow> 's tunnel \<Rightarrow> 's tunnel \<times> io_stop option" where
  "want_write eng t =
     (case ie_output eng 4096 (tn_inner t) of
        (chunk, inner') \<Rightarrow>
          let t' = t\<lparr>tn_inner := inner'\<rparr>
          in if chunk = [] then (t', None)
             else case tn_writes t of
               [] \<Rightarrow> (t', Some Stop_blocks)
             | Outer_write_again # ws \<Rightarrow> (t'\<lparr>tn_writes := ws\<rparr>, Some Stop_again)
             | Outer_write_fails # ws \<Rightarrow> (t'\<lparr>tn_writes := ws\<rparr>, Some Stop_io)
             | Outer_wrote k # ws \<Rightarrow>
                 if k = 0 then (t'\<lparr>tn_writes := ws\<rparr>, Some Stop_io)
                 else (t'\<lparr>tn_writes := ws, tn_sent := tn_sent t @ take k chunk\<rparr>, None))"

partial_function (option) inner_write :: "'s inner_engine \<Rightarrow> byte list \<Rightarrow> 's tunnel \<Rightarrow> ('s tunnel \<times> nat io_result) option" where
  "inner_write eng buf t =
     (case ie_write eng buf (tn_inner t) of
        (r, inner') \<Rightarrow>
          let t1 = t\<lparr>tn_inner := inner'\<rparr>
          in case r of
               Inl n \<Rightarrow>
                 (case pump_out eng t1 of
                    (t2, None) \<Rightarrow> Some (t2, Io_done n)
                  | (t2, Some stop) \<Rightarrow> Some (t2, Io_stopped stop))
             | Inr status \<Rightarrow>
                 if status \<noteq> Want_read \<and> status \<noteq> Want_write then Some (t1, Io_stopped Stop_io)
                 else case (if status = Want_write then want_write eng t1 else want_read eng t1) of
                        (t2, Some stop) \<Rightarrow> Some (t2, Io_stopped stop)
                      | (t2, None) \<Rightarrow> inner_write eng buf t2)"

section \<open>Reading\<close>

partial_function (option) inner_read :: "'s inner_engine \<Rightarrow> nat \<Rightarrow> 's tunnel \<Rightarrow> ('s tunnel \<times> byte list io_result) option" where
  "inner_read eng len t =
     (case ie_read eng len (tn_inner t) of
        (r, inner') \<Rightarrow>
          let t1 = t\<lparr>tn_inner := inner'\<rparr>
          in case r of
               Inl data \<Rightarrow> Some (t1, Io_done data)
             | Inr status \<Rightarrow>
                 if status \<noteq> Want_read \<and> status \<noteq> Want_write then Some (t1, Io_stopped Stop_io)
                 else case (if status = Want_read then want_read eng t1 else want_write eng t1) of
                        (t2, Some stop) \<Rightarrow> Some (t2, Io_stopped stop)
                      | (t2, None) \<Rightarrow> inner_read eng len t2)"

section \<open>The helpers\<close>

text \<open>The errors of the helpers themselves; \<open>Conn_result\<close> is the result of the session, or of a plain descriptor. An inner session without an
  outer one to pump to is undefined.\<close>

datatype 'a conn_io = Conn_einval | Conn_ebadf | Conn_result "'a io_result" | Conn_undefined

text \<open>One read of the outer session when there is no inner one, and of a plain descriptor, which reports its end as success.\<close>

definition outer_read_once :: "'s tunnel \<Rightarrow> 's tunnel \<times> byte list io_result" where
  "outer_read_once t =
     (case tn_reads t of
        [] \<Rightarrow> (t, Io_stopped Stop_blocks)
      | Outer_read_again # rs \<Rightarrow> (t\<lparr>tn_reads := rs\<rparr>, Io_stopped Stop_again)
      | Outer_read_fails # rs \<Rightarrow> (t\<lparr>tn_reads := rs\<rparr>, Io_stopped Stop_io)
      | Outer_got data # rs \<Rightarrow> (t\<lparr>tn_reads := rs\<rparr>, if data = [] then Io_stopped Stop_io else Io_done data))"

definition fd_read_once :: "'s tunnel \<Rightarrow> 's tunnel \<times> byte list io_result" where
  "fd_read_once t =
     (case tn_reads t of
        Outer_got [] # rs \<Rightarrow> (t\<lparr>tn_reads := rs\<rparr>, Io_done [])
      | _ \<Rightarrow> outer_read_once t)"

definition write_once :: "byte list \<Rightarrow> 's tunnel \<Rightarrow> 's tunnel \<times> nat io_result" where
  "write_once buf t =
     (case tn_writes t of
        [] \<Rightarrow> (t, Io_stopped Stop_blocks)
      | Outer_write_again # ws \<Rightarrow> (t\<lparr>tn_writes := ws\<rparr>, Io_stopped Stop_again)
      | Outer_write_fails # ws \<Rightarrow> (t\<lparr>tn_writes := ws\<rparr>, Io_stopped Stop_io)
      | Outer_wrote k # ws \<Rightarrow>
          if k = 0 then (t\<lparr>tn_writes := ws\<rparr>, Io_stopped Stop_io)
          else (t\<lparr>tn_writes := ws, tn_sent := tn_sent t @ take k buf\<rparr>, Io_done (min k (length buf))))"

definition portillia_net_conn_read ::
  "'s inner_engine \<Rightarrow> nat \<Rightarrow> portillia_net_conn option \<Rightarrow> 's tunnel \<Rightarrow> ('s tunnel \<times> byte list conn_io) option" where
  "portillia_net_conn_read eng len conn t =
     (case conn of
        None \<Rightarrow> Some (t, Conn_einval)
      | Some c \<Rightarrow>
          if nc_closed c then Some (t, Conn_ebadf)
          else if nc_ssl c \<noteq> None \<and> nc_outer_ssl c = None then Some (t, Conn_undefined)
          else if nc_ssl c \<noteq> None then map_option (apsnd Conn_result) (inner_read eng len t)
          else if nc_outer_ssl c \<noteq> None then Some (apsnd Conn_result (outer_read_once t))
          else Some (apsnd Conn_result (fd_read_once t)))"

definition portillia_net_conn_write ::
  "'s inner_engine \<Rightarrow> byte list \<Rightarrow> portillia_net_conn option \<Rightarrow> 's tunnel \<Rightarrow> ('s tunnel \<times> nat conn_io) option" where
  "portillia_net_conn_write eng buf conn t =
     (case conn of
        None \<Rightarrow> Some (t, Conn_einval)
      | Some c \<Rightarrow>
          if nc_closed c then Some (t, Conn_ebadf)
          else if nc_ssl c \<noteq> None \<and> nc_outer_ssl c = None then Some (t, Conn_undefined)
          else if nc_ssl c \<noteq> None then map_option (apsnd Conn_result) (inner_write eng buf t)
          else Some (apsnd Conn_result (write_once buf t)))"

text \<open>Closing: the flag is set and the connection cleaned up, which resets the flag with everything else, and its memory is handed to the
  deferred free. The result tells what was released and whether the memory was.\<close>

definition portillia_net_conn_close :: "portillia_net_conn option \<Rightarrow> portillia_net_conn option \<times> released list \<times> bool" where
  "portillia_net_conn_close conn =
     (case conn of
        None \<Rightarrow> (None, [], False)
      | Some c \<Rightarrow>
          if nc_closed c then (Some c, [], False)
          else case portillia_net_conn_cleanup (c\<lparr>nc_closed := True\<rparr>) of (c', rel) \<Rightarrow> (Some c', rel, True))"

definition portillia_net_conn_local_addr :: "portillia_net_conn option \<Rightarrow> cstring \<times> cstring" where
  "portillia_net_conn_local_addr conn = (case conn of None \<Rightarrow> ([], []) | Some c \<Rightarrow> nc_local c)"

definition portillia_net_conn_remote_addr :: "portillia_net_conn option \<Rightarrow> cstring \<times> cstring" where
  "portillia_net_conn_remote_addr conn = (case conn of None \<Rightarrow> ([], []) | Some c \<Rightarrow> nc_remote c)"

section \<open>What writing delivers\<close>

text \<open>The documented behaviour of a memory BIO: reading takes bytes from its front, and nothing else changes.\<close>

definition bio_laws :: "'s inner_engine \<Rightarrow> ('s \<Rightarrow> byte list) \<Rightarrow> bool" where
  "bio_laws eng pending \<longleftrightarrow>
     (\<forall>k s. fst (ie_output eng k s) = take k (pending s) \<and> pending (snd (ie_output eng k s)) = drop k (pending s))"

definition outer_works :: "outer_write list \<Rightarrow> bool" where
  "outer_works ws \<longleftrightarrow> list_all (\<lambda>w. case w of Outer_wrote k \<Rightarrow> 0 < k | _ \<Rightarrow> False) ws"

lemma outer_works_simps [simp]:
  "outer_works []" "outer_works (w # ws) \<longleftrightarrow> (\<exists>k. w = Outer_wrote k \<and> 0 < k) \<and> outer_works ws"
  by (auto simp: outer_works_def split: outer_write.splits)

lemma send_all_complete:
  "outer_works ws \<Longrightarrow> length bs \<le> length ws \<Longrightarrow>
   \<exists>ws'. send_all ws bs = (bs, ws', None) \<and> outer_works ws' \<and> length ws \<le> length ws' + length bs"
proof (induction ws bs rule: send_all.induct)
  case (5 k ws b bs)
  have "k \<noteq> 0" "outer_works ws" "length (drop k (b # bs)) \<le> length ws" using 5(2,3) by auto
  then obtain ws' where "send_all ws (drop k (b # bs)) = (drop k (b # bs), ws', None)" "outer_works ws'"
    "length ws \<le> length ws' + length (drop k (b # bs))" using 5(1) by blast
  then show ?case using \<open>k \<noteq> 0\<close> by (auto simp: append_take_drop_id)
qed auto

lemma bio_output:
  assumes "bio_laws eng pending"
  obtains inner' where "ie_output eng k s = (take k (pending s), inner')" "pending inner' = drop k (pending s)"
  using assms by (metis bio_laws_def prod.collapse)

lemma pump_out_complete:
  assumes laws: "bio_laws eng pending"
  shows "outer_works (tn_writes t) \<Longrightarrow> length (pending (tn_inner t)) \<le> length (tn_writes t) \<Longrightarrow>
    \<exists>t'. pump_out eng t = (t', None) \<and> tn_sent t' = tn_sent t @ pending (tn_inner t) \<and> pending (tn_inner t') = []"
proof (induction "length (pending (tn_inner t))" arbitrary: t rule: less_induct)
  case less
  obtain inner' where o: "ie_output eng 4096 (tn_inner t) = (take 4096 (pending (tn_inner t)), inner')"
    "pending inner' = drop 4096 (pending (tn_inner t))" by (rule bio_output [OF laws])
  show ?case
  proof (cases "pending (tn_inner t) = []")
    case True
    then show ?thesis using o by (subst pump_out.simps) simp
  next
    case False
    let ?chunk = "take 4096 (pending (tn_inner t))"
    have "length ?chunk \<le> length (tn_writes t)" using less.prems(2) by simp
    then obtain ws' where s: "send_all (tn_writes t) ?chunk = (?chunk, ws', None)" "outer_works ws'"
      "length (tn_writes t) \<le> length ws' + length ?chunk" using send_all_complete less.prems(1) by blast
    define t1 where "t1 = t\<lparr>tn_inner := inner', tn_writes := ws', tn_sent := tn_sent t @ ?chunk\<rparr>"
    have "pump_out eng t = pump_out eng t1"
      using o(1) s(1) False by (subst pump_out.simps) (simp add: Let_def t1_def)
    moreover have "length (pending (tn_inner t1)) < length (pending (tn_inner t))" "outer_works (tn_writes t1)"
      "length (pending (tn_inner t1)) \<le> length (tn_writes t1)"
      using o(2) s(2,3) False less.prems(2) by (auto simp: t1_def)
    ultimately show ?thesis using less.hyps [of t1] o(2) by (auto simp: t1_def append_take_drop_id)
  qed
qed

text \<open>Writing to a tunnelled connection delivers. When the inner session takes \<open>n\<close> bytes at once and the outer session keeps taking
  data, in whatever portions, the helper returns \<open>n\<close>, all of the ciphertext that was waiting has been sent, in
  order, and nothing is left behind.\<close>

theorem conn_write_delivers:
  assumes laws: "bio_laws eng pending" and conn: "\<not> nc_closed c" "nc_ssl c \<noteq> None" "nc_outer_ssl c \<noteq> None"
    and inner: "ie_write eng buf (tn_inner t) = (Inl n, inner')"
    and outer: "outer_works (tn_writes t)" "length (pending inner') \<le> length (tn_writes t)"
  shows "\<exists>t'. portillia_net_conn_write eng buf (Some c) t = Some (t', Conn_result (Io_done n)) \<and>
    tn_sent t' = tn_sent t @ pending inner' \<and> pending (tn_inner t') = []"
proof -
  obtain t' where "pump_out eng (t\<lparr>tn_inner := inner'\<rparr>) = (t', None)" "tn_sent t' = tn_sent t @ pending inner'" "pending (tn_inner t') = []"
    using pump_out_complete [OF laws, of "t\<lparr>tn_inner := inner'\<rparr>"] outer by auto
  then show ?thesis using conn inner by (simp add: portillia_net_conn_write_def inner_write.simps Let_def)
qed

lemma send_all_blocked:
  "outer_works ws1 \<Longrightarrow> send_all (ws1 @ Outer_write_again # ws2) bs = (out, ws', Some stop) \<Longrightarrow>
   stop = Stop_again \<and> length out < length bs \<and> prefix out bs"
proof (induction ws1 arbitrary: bs out)
  case Nil
  then show ?case by (cases bs) auto
next
  case (Cons w ws1)
  obtain k where w: "w = Outer_wrote k" "0 < k" using Cons.prems(1) by auto
  obtain b bs' where bs: "bs = b # bs'" using Cons.prems(2) by (cases bs) auto
  obtain out1 where o: "send_all (ws1 @ Outer_write_again # ws2) (drop k bs) = (out1, ws', Some stop)" "out = take k bs @ out1"
    using Cons.prems(2) w bs by (auto split: prod.splits)
  have IH: "stop = Stop_again" "length out1 < length (drop k bs)" "prefix out1 (drop k bs)"
    using Cons.IH [OF _ o(1)] Cons.prems(1) by auto
  have "length out < length bs" using IH(2) o(2) by auto
  moreover have "prefix out bs" using IH(3) o(2) by (metis append_take_drop_id same_prefix_prefix)
  ultimately show ?case using IH(1) by simp
qed

text \<open>Writing loses data when the outer session would block in between. The helper then reports \<open>EAGAIN\<close>, for which the caller writes
  the same bytes again, but the inner session has already encrypted them, and the part of the chunk that had been taken from the BIO and
  not been sent is gone: what was sent and what is still waiting together are less than the ciphertext, so the stream the peer
  decrypts has a hole and can no longer be authenticated.\<close>

theorem conn_write_loses_data:
  assumes laws: "bio_laws eng pending" and conn: "\<not> nc_closed c" "nc_ssl c \<noteq> None" "nc_outer_ssl c \<noteq> None"
    and inner: "ie_write eng buf (tn_inner t) = (Inl n, inner')" "pending inner' \<noteq> []" "length (pending inner') \<le> 4096"
    and outer: "tn_writes t = ws1 @ Outer_write_again # ws2" "outer_works ws1"
    and stopped: "snd (snd (send_all (tn_writes t) (pending inner'))) \<noteq> None"
  shows "\<exists>t' out. portillia_net_conn_write eng buf (Some c) t = Some (t', Conn_result (Io_stopped Stop_again)) \<and>
    tn_sent t' = tn_sent t @ out \<and> prefix out (pending inner') \<and> length out + length (pending (tn_inner t')) < length (pending inner')"
proof -
  obtain out ws' stop where s: "send_all (tn_writes t) (pending inner') = (out, ws', Some stop)"
    using stopped by (metis not_None_eq prod.collapse)
  have out: "stop = Stop_again" "length out < length (pending inner')" "prefix out (pending inner')"
    using send_all_blocked [OF outer(2)] s outer(1) by simp_all
  obtain inner2 where o: "ie_output eng 4096 inner' = (pending inner', inner2)" "pending inner2 = []"
    by (rule bio_output [OF laws, of 4096 inner']) (use inner(3) in simp)
  have "pump_out eng (t\<lparr>tn_inner := inner'\<rparr>) =
      (t\<lparr>tn_inner := inner2, tn_writes := ws', tn_sent := tn_sent t @ out\<rparr>, Some Stop_again)"
    using o(1) s inner(2) out(1) by (subst pump_out.simps) (simp add: Let_def)
  then show ?thesis using conn inner(1) o(2) out(2,3)
    by (simp add: portillia_net_conn_write_def inner_write.simps Let_def)
qed

section \<open>What reading returns\<close>

text \<open>The inner session asks for the chunks one after the other, and then has data.\<close>

fun reads_after :: "'s inner_engine \<Rightarrow> nat \<Rightarrow> 's \<Rightarrow> byte list list \<Rightarrow> byte list \<Rightarrow> bool" where
  "reads_after eng len s [] data \<longleftrightarrow> fst (ie_read eng len s) = Inl data"
| "reads_after eng len s (c # cs) data \<longleftrightarrow>
     fst (ie_read eng len s) = Inr Want_read \<and> c \<noteq> [] \<and> reads_after eng len (ie_feed eng c (snd (ie_read eng len s))) cs data"

lemma inner_read_returns:
  "reads_after eng len (tn_inner t) cs data \<Longrightarrow> tn_reads t = map Outer_got cs @ rest \<Longrightarrow>
   \<exists>t'. inner_read eng len t = Some (t', Io_done data) \<and> tn_reads t' = rest \<and> tn_sent t' = tn_sent t"
proof (induction cs arbitrary: t)
  case Nil
  then show ?case by (cases "ie_read eng len (tn_inner t)") (simp add: inner_read.simps [of eng len t] Let_def)
next
  case (Cons c cs)
  obtain inner' where r: "ie_read eng len (tn_inner t) = (Inr Want_read, inner')"
    using Cons.prems(1) by (metis prod.collapse reads_after.simps(2))
  define t1 where "t1 = t\<lparr>tn_reads := map Outer_got cs @ rest, tn_inner := ie_feed eng c inner'\<rparr>"
  have "inner_read eng len t = inner_read eng len t1"
    using Cons.prems r by (simp add: inner_read.simps [of eng len t] want_read_def t1_def Let_def)
  moreover have "reads_after eng len (tn_inner t1) cs data" using Cons.prems(1) r by (simp add: t1_def)
  ultimately show ?case using Cons.IH [of t1] by (simp add: t1_def)
qed

text \<open>Reading from a tunnelled connection returns what the inner session decrypts. However many pieces of ciphertext it needs first, each is
  taken from the outer session once and in order, no further piece is touched, nothing is sent, and the helper returns.\<close>

theorem conn_read_returns:
  assumes conn: "\<not> nc_closed c" "nc_ssl c \<noteq> None" "nc_outer_ssl c \<noteq> None"
    and inner: "reads_after eng len (tn_inner t) cs data" and outer: "tn_reads t = map Outer_got cs @ rest"
  shows "\<exists>t'. portillia_net_conn_read eng len (Some c) t = Some (t', Conn_result (Io_done data)) \<and> tn_reads t' = rest \<and> tn_sent t' = tn_sent t"
  using inner_read_returns [OF inner outer] conn by (auto simp: portillia_net_conn_read_def)

section \<open>Closing\<close>

text \<open>A closed connection does not stay closed: a second close hands its memory to the deferred free once more, and a read or write
  goes on to the descriptor \<open>-1\<close> instead of being refused.\<close>

lemma close_forgets_flag:
  assumes "\<not> nc_closed c"
  obtains c' rel where "portillia_net_conn_close (Some c) = (Some c', rel, True)" "\<not> nc_closed c'" "nc_fd c' = -1"
    "portillia_net_conn_close (Some c') = (Some c', [], True)"
  using assms
  by (auto simp: portillia_net_conn_close_def portillia_net_conn_cleanup_def portillia_net_conn_init_def ssl_freed_def)

section \<open>An instance\<close>

text \<open>A session that frames every byte with a zero in front of it, with the bytes to decrypt and those to send.\<close>

definition framing_engine :: "(byte list \<times> byte list) inner_engine" where
  "framing_engine =
     \<lparr>ie_read = (\<lambda>len (inp, out). if length inp < 2 then (Inr Want_read, (inp, out)) else (Inl [inp ! 1], (drop 2 inp, out))),
      ie_write = (\<lambda>buf (inp, out). (Inl (length buf), (inp, out @ concat (map (\<lambda>b. [0, b]) buf)))),
      ie_feed = (\<lambda>data (inp, out). (inp @ data, out)),
      ie_output = (\<lambda>k (inp, out). (take k out, (inp, drop k out)))\<rparr>"

lemma framing_bio: "bio_laws framing_engine snd"
  by (simp add: bio_laws_def framing_engine_def split: prod.splits)

definition tunnelled :: portillia_net_conn where
  "tunnelled = portillia_net_conn_init\<lparr>nc_fd := 7, nc_ssl := Some 1, nc_outer_ssl := Some 2, nc_owns_ssl := True\<rparr>"

definition quiet_tunnel :: "outer_read list \<Rightarrow> outer_write list \<Rightarrow> (byte list \<times> byte list) tunnel" where
  "quiet_tunnel rs ws = \<lparr>tn_inner = ([], []), tn_reads = rs, tn_writes = ws, tn_sent = []\<rparr>"

lemma tunnelled_simps [simp]:
  "\<not> nc_closed tunnelled" "nc_ssl tunnelled = Some 1" "nc_outer_ssl tunnelled = Some 2"
  "tn_inner (quiet_tunnel rs ws) = ([], [])" "tn_reads (quiet_tunnel rs ws) = rs" "tn_writes (quiet_tunnel rs ws) = ws"
  "tn_sent (quiet_tunnel rs ws) = []"
  by (simp_all add: tunnelled_def portillia_net_conn_init_def quiet_tunnel_def)

theorem conn_write_delivers_witness:
  "\<exists>t'. portillia_net_conn_write framing_engine [5, 6] (Some tunnelled) (quiet_tunnel [] (replicate 4 (Outer_wrote 1))) =
     Some (t', Conn_result (Io_done 2)) \<and> tn_sent t' = [0, 5, 0, 6] \<and> snd (tn_inner t') = []"
  using conn_write_delivers [OF framing_bio, of tunnelled "[5, 6]" "quiet_tunnel [] (replicate 4 (Outer_wrote 1))" 2 "([], [0, 5, 0, 6])"]
  by (simp add: framing_engine_def numeral_nat)

theorem conn_write_loses_data_witness:
  "\<exists>t' out. portillia_net_conn_write framing_engine [5, 6] (Some tunnelled) (quiet_tunnel [] [Outer_wrote 1, Outer_write_again]) =
     Some (t', Conn_result (Io_stopped Stop_again)) \<and> tn_sent t' = out \<and> prefix out [0, 5, 0, 6] \<and>
     length out + length (snd (tn_inner t')) < Suc (Suc (Suc (Suc 0)))"
  using conn_write_loses_data [OF framing_bio, of tunnelled "[5, 6]" "quiet_tunnel [] [Outer_wrote 1, Outer_write_again]" 2
      "([], [0, 5, 0, 6])" "[Outer_wrote 1]" "[]"]
  by (simp add: framing_engine_def)

theorem conn_read_returns_witness:
  "\<exists>t'. portillia_net_conn_read framing_engine 10 (Some tunnelled) (quiet_tunnel [Outer_got [0], Outer_got [5, 0, 6], Outer_read_fails] []) =
     Some (t', Conn_result (Io_done [5])) \<and> tn_reads t' = [Outer_read_fails] \<and> tn_sent t' = []"
  using conn_read_returns [of tunnelled framing_engine 10 "quiet_tunnel [Outer_got [0], Outer_got [5, 0, 6], Outer_read_fails] []"
      "[[0], [5, 0, 6]]" "[5]" "[Outer_read_fails]"]
  by (simp add: framing_engine_def)

end
