(* ===== verification/Portal_Tunnel.thy ===== *)
theory Portal_Tunnel
  imports Sdk_Listener Net_Conn
begin

text \<open>
  The rest of an exposure in \<^verbatim>\<open>src/sdk/expose.c\<close>, the turns of its accept threads, its datagrams and what it tells about itself, and the two programs
  on top: the command \<^verbatim>\<open>cmd/portal-tunnel/main.c\<close> and the control server of the agent, \<^verbatim>\<open>src/portal/agent/control.c\<close>.

  The listeners are those of \<open>Sdk_Listener\<close>, the connections those of \<open>Net_Conn\<close>. Waiting for a datagram is the value \<open>None\<close> of the inner option, as in
  \<open>Datagram\<close>, and undefined behaviour that of the outer one.
\<close>

type_synonym ('r, 'k) tunnel_exposure = "(('r, 'k) portillia_listener, portillia_net_conn, 'r, 'k) portillia_exposure"

section \<open>Accepting\<close>

text \<open>One turn of an accept thread with the connection that its listener hands out: it is queued, or closed when the channel refuses it.\<close>

definition accept_turn :: "portillia_net_conn \<Rightarrow> ('l, portillia_net_conn, 'r, 'k) portillia_exposure \<Rightarrow>
   ('l, portillia_net_conn, 'r, 'k) portillia_exposure \<times> released list" where
  "accept_turn conn e =
     (case ex_accepted e of
        None \<Rightarrow> (e, [])
      | Some ch \<Rightarrow>
          (case channel_push conn ch of
             (ch', True) \<Rightarrow> (e\<lparr>ex_accepted := Some ch'\<rparr>, [])
           | (ch', False) \<Rightarrow> (e\<lparr>ex_accepted := Some ch'\<rparr>, fst (snd (portillia_net_conn_close (Some conn))))))"

text \<open>The loop of the thread with the connections that arrive.\<close>

fun listener_accept_thread :: "portillia_net_conn list \<Rightarrow> ('l, portillia_net_conn, 'r, 'k) portillia_exposure \<Rightarrow>
   ('l, portillia_net_conn, 'r, 'k) portillia_exposure \<times> released list" where
  "listener_accept_thread [] e = (e, [])"
| "listener_accept_thread (conn # conns) e =
     (if ex_cancelled e then (e, [])
      else case accept_turn conn e of (e', rel) \<Rightarrow> apsnd ((@) rel) (listener_accept_thread conns e'))"

section \<open>What an exposure tells\<close>

definition make_exposure_addr :: "cstring option \<Rightarrow> cstring \<times> cstring" where
  "make_exposure_addr addr =
     (''portal'', if nonempty addr then snprintf_s 256 (''portal:'' @ or_empty addr) else ''portal:exposure'')"

definition portillia_exposure_addr :: "('l, 'c, 'r, 'k) portillia_exposure option \<Rightarrow> cstring \<times> cstring" where
  "portillia_exposure_addr e =
     (case e of
        None \<Rightarrow> make_exposure_addr None
      | Some x \<Rightarrow> if nonempty (id_address (ex_identity x)) then make_exposure_addr (id_address (ex_identity x)) else make_exposure_addr None)"

definition portillia_exposure_identity :: "('l, 'c, 'r, 'k) portillia_exposure option \<Rightarrow> portillia_identity" where
  "portillia_exposure_identity e =
     (case e of None \<Rightarrow> portillia_identity_init | Some x \<Rightarrow> portillia_identity_copy portillia_identity_init (ex_identity x))"

record portillia_agent_relay_status =
  ar_relay_url :: "cstring option"
  ar_public_url :: "cstring option"
  ar_connecting :: bool

record portillia_agent_tunnel_status =
  at_target_addr :: "cstring option"
  at_multi_hop :: "cstring list"
  at_relays :: "portillia_agent_relay_status list"

definition portillia_exposure_snapshot :: "('r, 'k) tunnel_exposure option \<Rightarrow> portillia_agent_tunnel_status" where
  "portillia_exposure_snapshot e =
     (case e of
        None \<Rightarrow> \<lparr>at_target_addr = None, at_multi_hop = [], at_relays = []\<rparr>
      | Some x \<Rightarrow>
          \<lparr>at_target_addr = ex_target_addr x, at_multi_hop = map hs_text (ex_multi_hop x),
           at_relays = map (\<lambda>(url, l). \<lparr>ar_relay_url = Some url, ar_public_url = portillia_listener_public_url l, ar_connecting = True\<rparr>)
             (ex_listeners x)\<rparr>)"

section \<open>Datagrams\<close>

datatype tunnel_errno = EBADF_tunnel | EAGAIN_tunnel | ENOENT_tunnel | EINVAL_tunnel | ETIMEDOUT_tunnel | Listener_error datagram_errno

text \<open>The listeners are asked in turn, each until it answers: an accept that waits keeps the others from being asked.\<close>

fun accept_from ::
  "portillia_datagram_frame \<Rightarrow> (cstring \<times> ('r, 'k) portillia_listener) list \<Rightarrow>
   ((cstring \<times> ('r, 'k) portillia_listener) list \<times> (tunnel_errno + portillia_datagram_frame) option) option" where
  "accept_from out [] = Some ([], Some (Inl EAGAIN_tunnel))"
| "accept_from out ((url, l) # ls) =
     (case portillia_listener_accept_datagram False out l of
        None \<Rightarrow> None
      | Some (l', None) \<Rightarrow> Some ((url, l') # ls, None)
      | Some (l', Some (Inr frame)) \<Rightarrow> Some ((url, l') # ls, Some (Inr frame))
      | Some (l', Some (Inl err)) \<Rightarrow> map_option (apfst ((#) (url, l'))) (accept_from out ls))"

definition portillia_exposure_accept_datagram ::
  "portillia_datagram_frame \<Rightarrow> ('r, 'k) tunnel_exposure \<Rightarrow> (('r, 'k) tunnel_exposure \<times> (tunnel_errno + portillia_datagram_frame) option) option" where
  "portillia_exposure_accept_datagram out e =
     (if \<not> ex_udp_enabled e then Some (e, Some (Inl EBADF_tunnel))
      else map_option (apfst (\<lambda>ls. e\<lparr>ex_listeners := ls\<rparr>)) (accept_from out (ex_listeners e)))"

definition portillia_exposure_send_datagram ::
  "portillia_datagram_frame \<Rightarrow> ('r, 'k) tunnel_exposure \<Rightarrow> (('r, 'k) tunnel_exposure \<times> tunnel_errno option) option" where
  "portillia_exposure_send_datagram frame e =
     (if \<not> ex_udp_enabled e then Some (e, Some EBADF_tunnel)
      else case (case f_relay_url frame of None \<Rightarrow> None | Some url \<Rightarrow> listener_index_by_url e url) of
             None \<Rightarrow> Some (e, Some ENOENT_tunnel)
           | Some i \<Rightarrow>
               map_option (\<lambda>(l', err). (e\<lparr>ex_listeners := (ex_listeners e)[i := (fst (ex_listeners e ! i), l')]\<rparr>, map_option Listener_error err))
                 (portillia_listener_send_datagram frame (snd (ex_listeners e ! i))))"

text \<open>The deadline is computed and not used: the listeners are asked once.\<close>

definition portillia_exposure_wait_datagram_ready :: "('r, 'k) tunnel_exposure \<Rightarrow> tunnel_errno + cstring list" where
  "portillia_exposure_wait_datagram_ready e =
     (if \<not> ex_udp_enabled e then Inl EINVAL_tunnel
      else case List.map_filter (\<lambda>(url, l). fst (portillia_listener_datagram_ready l)) (ex_listeners e) of
             [] \<Rightarrow> Inl ETIMEDOUT_tunnel
           | addrs \<Rightarrow> Inr addrs)"

section \<open>The command\<close>

record expose_options =
  eo_relay :: cstring
  eo_insecure_skip_verify :: bool
  eo_max_routing :: int

definition routing_or :: "cstring \<Rightarrow> int \<Rightarrow> int" where
  "routing_or s old = (let v = c_atoi s in if 1 \<le> v \<and> v \<le> 32 then v else old)"

text \<open>An option without its value is skipped like an unknown argument.\<close>

fun parse_expose_options :: "cstring list \<Rightarrow> expose_options \<Rightarrow> expose_options" where
  "parse_expose_options [] opts = opts"
| "parse_expose_options [a] opts = (if a = ''--insecure-skip-verify'' then opts\<lparr>eo_insecure_skip_verify := True\<rparr> else opts)"
| "parse_expose_options (a # v # args) opts =
     (if a = ''--relays'' then parse_expose_options args (opts\<lparr>eo_relay := v\<rparr>)
      else if a = ''--insecure-skip-verify'' then parse_expose_options (v # args) (opts\<lparr>eo_insecure_skip_verify := True\<rparr>)
      else if a = ''--max-routing'' then parse_expose_options args (opts\<lparr>eo_max_routing := routing_or v (eo_max_routing opts)\<rparr>)
      else parse_expose_options (v # args) opts)"

definition default_options :: "cstring option \<Rightarrow> expose_options" where
  "default_options env_max_r =
     \<lparr>eo_relay = ''http://localhost:4017'', eo_insecure_skip_verify = False,
      eo_max_routing = (if nonempty env_max_r then routing_or (or_empty env_max_r) 1 else 1)\<rparr>"

definition tunnel_config :: "cstring \<Rightarrow> expose_options \<Rightarrow> 't portillia_expose_config" where
  "tunnel_config target opts =
     \<lparr>ec_relay_urls = [eo_relay opts], ec_discovery = False, ec_identity_path = None, ec_identity_json = None, ec_name = None,
      ec_target_addr = Some target, ec_udp_addr = None, ec_udp_enabled = False, ec_tcp_enabled = False, ec_multi_hop = [],
      ec_multi_hop_depth = 0, ec_ban_mitm = False, ec_insecure_skip_verify = eo_insecure_skip_verify opts, ec_max_active_relays = 0,
      ec_max_routing = eo_max_routing opts, ec_metadata = portillia_lease_metadata_init\<rparr>"

fun control_addr_of :: "cstring list \<Rightarrow> cstring \<Rightarrow> cstring" where
  "control_addr_of [] addr = addr"
| "control_addr_of [a] addr = addr"
| "control_addr_of (a # v # args) addr =
     (if a = ''--control-addr'' then control_addr_of args v else control_addr_of (v # args) addr)"

datatype 't cli_action =
    Print_usage | Print_version | Expose_usage | Run_exposure "'t portillia_expose_config" | Agent_usage | Run_control_server cstring
  | Shell_command cstring | Unknown_agent cstring

text \<open>The command line without the name of the program.\<close>

definition portal_tunnel_main :: "cstring option \<Rightarrow> cstring list \<Rightarrow> 't cli_action" where
  "portal_tunnel_main env_max_r argv =
     (case argv of
        [] \<Rightarrow> Print_usage
      | cmd # args \<Rightarrow>
          if cmd = ''version'' then Print_version
          else if cmd = ''expose'' then
            (case args of
               [] \<Rightarrow> Expose_usage
             | target # opts \<Rightarrow> Run_exposure (tunnel_config target (parse_expose_options opts (default_options env_max_r))))
          else if cmd = ''agent'' then
            (case args of
               [] \<Rightarrow> Agent_usage
             | sub # opts \<Rightarrow>
                 let addr = control_addr_of opts ''127.0.0.1:4019''
                 in if sub = ''start'' then Run_control_server addr
                    else if sub = ''status''
                    then Shell_command (snprintf_s 4096 (''curl -fsSL '' @ snprintf_s 2048 (''http://'' @ addr @ ''/v1/agent/status'')))
                    else Unknown_agent sub)
          else Print_usage)"

section \<open>The control server\<close>

definition handle_agent_status :: "('j, 't) cjson \<Rightarrow> 't http_response \<Rightarrow> 't http_response" where
  "handle_agent_status api res =
     content_json (res\<lparr>rp_body := Body_json (cj_print api (cj_object api [(''control_addr'', cj_string api []), (''tunnels'', cj_array api [])]))\<rparr>)"

definition handle_not_implemented :: "'t http_response \<Rightarrow> 't http_response" where
  "handle_not_implemented res =
     content_json (res\<lparr>rp_status := Http_code 501,
       rp_body := Body_text (''{'' @ [CHR 0x22] @ ''error'' @ [CHR 0x22] @ '':'' @ [CHR 0x22] @ ''not implemented'' @ [CHR 0x22] @ ''}'')\<rparr>)"

definition control_port :: "cstring option \<Rightarrow> int" where
  "control_port control_addr =
     (let addr = (if nonempty control_addr then or_empty control_addr else ''127.0.0.1:4019'')
      in if CHR '':'' \<in> set addr then c_atoi (rev (takeWhile (\<lambda>c. c \<noteq> CHR '':'') (rev addr))) else 4019)"

section \<open>The options of the command\<close>

lemma reconcile_keeps:
  "ex_accepted (reconcile_relay_listeners env e) = ex_accepted e" "ex_max_routing (reconcile_relay_listeners env e) = ex_max_routing e"
  using reconcile_shape [of env e] by auto

lemma routing_or_bounds: "1 \<le> old \<Longrightarrow> old \<le> 32 \<Longrightarrow> 1 \<le> routing_or s old \<and> routing_or s old \<le> 32"
  by (simp add: routing_or_def Let_def)

lemma parse_keeps_bounds:
  "1 \<le> eo_max_routing opts \<Longrightarrow> eo_max_routing opts \<le> 32 \<Longrightarrow>
   1 \<le> eo_max_routing (parse_expose_options args opts) \<and> eo_max_routing (parse_expose_options args opts) \<le> 32"
  by (induction args opts rule: parse_expose_options.induct) (simp_all add: routing_or_bounds)

text \<open>Whatever is on the command line and in the environment, an exposure that the command starts routes over at least one and at
  most 32 relays; a number out of this range leaves the setting as it was.\<close>

theorem tunnel_routing_bounded:
  assumes "portal_tunnel_main env_max_r argv = Run_exposure cfg"
  shows "1 \<le> ex_max_routing (portillia_expose env cfg) \<and> ex_max_routing (portillia_expose env cfg) \<le> 32"
proof -
  obtain target args where "cfg = tunnel_config target (parse_expose_options args (default_options env_max_r))"
    using assms by (auto simp: portal_tunnel_main_def Let_def split: list.splits if_splits)
  then have "1 \<le> ec_max_routing cfg \<and> ec_max_routing cfg \<le> 32"
    using parse_keeps_bounds [of "default_options env_max_r" args]
    by (simp add: tunnel_config_def default_options_def routing_or_bounds)
  then show ?thesis by (simp add: portillia_expose_def Let_def reconcile_fields reconcile_keeps)
qed

section \<open>What the command serves\<close>

lemma accept_thread_fills:
  assumes "\<not> ex_cancelled e" "ex_accepted e = Some ch" "wf_channel ch" "\<not> ch_closed ch" "list_all (\<lambda>c. \<not> nc_closed c) conns"
  shows "\<exists>ch'. ex_accepted (fst (listener_accept_thread conns e)) = Some ch' \<and> \<not> ex_cancelled (fst (listener_accept_thread conns e)) \<and>
    channel_items ch' = channel_items ch @ take (ch_cap ch - ch_count ch) conns \<and>
    snd (listener_accept_thread conns e) =
      concat (map (\<lambda>c. snd (portillia_net_conn_cleanup c)) (drop (ch_cap ch - ch_count ch) conns))"
  using assms
proof (induction conns arbitrary: e ch)
  case (Cons c conns)
  show ?case
  proof (cases "ch_count ch < ch_cap ch")
    case True
    define e1 where "e1 = e\<lparr>ex_accepted := Some (channel_put c ch)\<rparr>"
    have "accept_turn c e = (e1, [])"
      using True Cons.prems(2,4) by (simp add: accept_turn_def channel_push_def e1_def)
    then have run: "listener_accept_thread (c # conns) e = listener_accept_thread conns e1"
      using Cons.prems(1) by (simp add: apsnd_def map_prod_def split: prod.split)
    have room: "channel_room ch" using True by (simp add: channel_room_def)
    have cap: "ch_cap ch - ch_count ch = Suc (ch_cap ch - Suc (ch_count ch))" using True by simp
    show ?thesis
      using Cons.IH [of e1 "channel_put c ch"] Cons.prems wf_put [OF Cons.prems(3) room] items_put [OF Cons.prems(3) room]
      unfolding run cap by (simp add: e1_def)
  next
    case False
    have "nc_closed c = False" using Cons.prems(5) by simp
    then have "accept_turn c e = (e, snd (portillia_net_conn_cleanup c))"
      using False Cons.prems(2) by (simp add: accept_turn_def channel_push_def portillia_net_conn_close_def portillia_net_conn_cleanup_def)
    then show ?thesis using Cons.IH [of e ch] Cons.prems False by (auto simp: apsnd_def map_prod_def split: prod.split)
  qed
qed simp


abbreviation tunnel_env ::
  "(json, json, unit, (cstring \<times> portillia_relay_state) list, (cstring \<times> portillia_key_index_entry) list, cstring) expose_env" where
  "tunnel_env \<equiv> sample_expose_env None"

definition tunnel_argv :: "cstring list" where
  "tunnel_argv = [''expose'', ''localhost:80'', ''--max-routing'', ''99'']"

lemma tunnel_argv_runs: "portal_tunnel_main None tunnel_argv = Run_exposure (tunnel_config ''localhost:80'' (default_options None))"
proof -
  have "c_atoi ''99'' = 99" by code_simp
  then show ?thesis by (simp add: portal_tunnel_main_def tunnel_argv_def default_options_def routing_or_def)
qed

theorem tunnel_routing_bounded_witness:
  "1 \<le> ex_max_routing (portillia_expose tunnel_env (tunnel_config ''localhost:80'' (default_options None))) \<and>
   ex_max_routing (portillia_expose tunnel_env (tunnel_config ''localhost:80'' (default_options None))) \<le> 32"
  by (rule tunnel_routing_bounded [OF tunnel_argv_runs])


end
