(* ===== verification/Spec2Isabelle.thy ===== *)
theory Spec2Isabelle
  imports Portal_Types Mols Sni_Parser Binding_Refinement Hello_Capture Policy Settings Lease_Registry Relay_Set
    Keyless_Sign Calendar Api_Server Admin_Api Discovery Identity Sdk_Listener Proxy_Bridge Relay_Main Portal_Tunnel
begin

text \<open>
  \<^bold>\<open>Portillia\<close> is a tunnelling relay. A tenant registers a lease for a hostname and keeps reverse connections to
  the relay open; a browser that connects for that hostname is recognised by the server name in its
  TLS ClientHello and bridged to one of them. TLS ends at the tenant, who asks the relay to sign the
  handshake with the relay's certificate key; a binding ties each such request to a connection the
  relay saw. Relays find each other by polling and announcing signed descriptors, and clients select
  relays from what they learned.

  \<^bold>\<open>Parts and theories\<close> (paths below \<^verbatim>\<open>src/\<close>).
  \<^item> \<open>Portillia_Prelude\<close>: C strings, options standing for pointers, lists with the index operations of
    the code, the named collections of lemmas.
  \<^item> \<open>Portal_Types\<close>: \<^verbatim>\<open>src/types/types.c\<close>, the shared structs with init, cleanup and deep copy, and the reader
    of the manifest. Copies are exact, the manifest reader reads back what was rendered.
  \<^item> \<open>Ranking\<close>, \<open>Relay_State\<close>, \<open>Mols\<close>: \<^verbatim>\<open>src/portal/discovery/mols.c\<close>, the selection of relays with scores from two Latin
    squares over the field of 64 elements. The squares are orthogonal, the ranking keeps the best of
    the sorted tier, the selectors return eligible relays only.
  \<^item> \<open>Relay_Set\<close>: \<^verbatim>\<open>src/portal/discovery/relay_set.c\<close>, the table of known relays and the index of identities. Issue times
    never go back, a ban lasts until it is lifted, backoff is bounded.
  \<^item> \<open>Calendar\<close>, \<open>Discovery\<close>: \<^verbatim>\<open>src/portal/discovery/discovery.c\<close>, \<open>handle_discovery\<close> of \<^verbatim>\<open>src/portal/api_server.c\<close> and
    \<^verbatim>\<open>src/portal/api_server_relay.c\<close>: timestamps, descriptors as JSON, polling, announcing, the periodic task. Answer
    and poll are inverse on what the wire carries; announcements can be replayed.
  \<^item> \<open>Sni_Parser\<close>: \<^verbatim>\<open>src/portal/sni_parser.c\<close>. No read outside the buffer, independence of the fragmentation,
    round trip with an encoder, a bounded wait.
  \<^item> \<open>Bindings\<close>, \<open>Binding_Refinement\<close>, \<open>Hello_Capture\<close>: \<^verbatim>\<open>src/portal/keyless/bindings.c\<close> and the capture in \<^verbatim>\<open>src/portal/proxy.c\<close>. The
    bucket array meets the contract of a map of bindings (a locale) and refines an abstract
    specification of grants; a binding is spent once; the accumulator assembles the ClientHello
    without leaving its buffers; two defects of the capture are proved.
  \<^item> \<open>Proxy_Bridge\<close>: the bridges of \<^verbatim>\<open>src/portal/proxy.c\<close>. A copy delivers a prefix of its source, and all of it when its destination works,
    with \<open>splice\<close> or without; with a capture it refines the loop of \<open>Hello_Capture\<close>. The two directions of a bridge are a step
    relation: resources are released once; the end of a request reaches the tenant of a plain bridge, not that of a TLS session.
  \<^item> \<open>Keyless_Sign\<close>: \<^verbatim>\<open>src/portal/keyless/server.c\<close>, lease tokens and the signing endpoint. What a signature proves.
  \<^item> \<open>Keyless_Tls\<close>: \<^verbatim>\<open>src/portal/keyless/tls.c\<close>, the TLS context of a tenant and its remote signatures, and the certificate endpoint of
    \<^verbatim>\<open>src/portal/keyless/server.c\<close>. A tenant serves the certificate of its relay; its signing requests are refused, and what an answer
    would need to be accepted.
  \<^item> \<open>Dns_Providers\<close>, \<open>Acme\<close>: \<^verbatim>\<open>src/portal/acme\<close>. Requests to three DNS services, certificates with \<open>lego\<close> and shell commands. With
    Cloudflare the domain and its wildcard end up at the relay (a locale of address providers, interpreted for Cloudflare, carries this
    to the manager); a missing certificate is provisioned, an existing one never renewed.
  \<^item> \<open>Policy\<close>, \<open>Settings\<close>: \<^verbatim>\<open>src/portal/policy/policy.c\<close>, \<^verbatim>\<open>src/utils/network.c\<close>, \<^verbatim>\<open>src/portal/settings.c\<close>. Client addresses, CIDR and hostname
    matching, identity lists (a locale, interpreted for bans and approvals), save and load.
  \<^item> \<open>Task_Queue\<close>, \<open>Lease_Registry\<close>: \<^verbatim>\<open>src/utils/ttak_stubs.c\<close> and \<^verbatim>\<open>src/portal/server.c\<close>: first-in-first-out queues (a locale,
    interpreted for tasks and for ready sessions), the registry of leases and hop routes, its janitor
    and the routing of connections. The invariant of every reachable state, the accounting of
    descriptors, exact routing; a record can be freed while in use.
  \<^item> \<open>Identity\<close>: \<^verbatim>\<open>src/portal/identity.c\<close> and \<^verbatim>\<open>src/utils/crypto.c\<close>, addresses derived from keys and the identity file. Addresses are
    well-formed, overlay addresses lie in their range, an identity survives a restart.
  \<^item> \<open>Cjson\<close>, \<open>Http\<close>: what the handlers use of cJSON and of the HTTP framework.
  \<^item> \<open>Api_Server\<close>, \<open>Admin_Api\<close>: all handlers of \<^verbatim>\<open>src/portal/api_server.c\<close>: challenges, registration, renewal, reverse connections,
    hops, status; admin actions, switches and listings. Who can obtain a token, and with which checks
    missing.
  \<^item> \<open>Sdk_Names\<close>, \<open>Sdk_Client\<close>: \<^verbatim>\<open>src/sdk/api_client.c\<close>, labels, relay URLs and hop tokens, the requests to a relay and the reading
    of its answers. Normalized labels are valid; the routes planned for a chain of relays link up.
  \<^item> \<open>Sdk_Flow\<close>: the client against the handlers of \<open>Api_Server\<close>. Registration and renewal end to end, a middle relay that
    forwards, and why the entry and exit relays of a chain cannot be reached.
  \<^item> \<open>Conn_Channel\<close>, \<open>Discovery_Order\<close>, \<open>Exposure\<close>: \<^verbatim>\<open>src/sdk/expose.c\<close>. The ring buffer of accepted connections implements a
    bounded queue; the affine walk of a discovery round visits every relay once; an exposure listens on
    exactly the relays it should, and a removed relay stays out.
  \<^item> \<open>Http_Runtime\<close>: \<^verbatim>\<open>src/sdk/http_runtime.c\<close>, the local proxy in front of the application. It forwards requests and
    answers unchanged but for the path and the forced protocol header; limits where it does not.
  \<^item> \<open>Stream_Client\<close>, \<open>Datagram\<close>: \<^verbatim>\<open>src/transport\<close>. Sessions on reverse connections understand the frames of the relay and lose no
    descriptor; datagram frames survive the wire and queue up in order. The inner handshake never answers and no
    datagram leaves.
  \<^item> \<open>Sdk_Listener\<close>: \<^verbatim>\<open>src/sdk/listener.c\<close>, against the relay: going live, retrying, renewing; its threads as a step relation with the
    deadlock of closing.
  \<^item> \<open>Net_Conn\<close>: the connection helpers of \<^verbatim>\<open>src/sdk/expose.c\<close>, TLS inside TLS. Reads and writes carry every byte while the outer session
    does not block; when it does, a write loses data.
  \<^item> \<open>Portal_Tunnel\<close>: accept threads, datagrams and status of an exposure, \<^verbatim>\<open>cmd/portal-tunnel/main.c\<close> and \<^verbatim>\<open>src/portal/agent/control.c\<close>. The
    options stay in their range; the command itself serves no connection.
  \<^item> \<open>Relay_Main\<close>: \<^verbatim>\<open>cmd/relay-server/main.c\<close>, the variables of the relay, its pages, the workers of its listeners and the start that
    wires the other parts. The address it hands out leads to its API, and its listener and the signing endpoint use the same
    certificate.
  \<^item> This theory: a connection followed through the parser, the registry, the queue and the bindings.

  \<^bold>\<open>State and steps.\<close> A struct is a record of the same name, a pointer that may be null an option, a linked list or array
  a list, a heap object whose identity matters carries an address. A function that holds a mutex is
  one step; interleavings are sequences of steps (\<open>binding_run\<close>, \<open>relay_run\<close>, \<open>api_run\<close>) or an inductive
  relation (\<open>server_reach\<close>, \<open>listener_step\<close>, \<open>bridge_step\<close>). Undefined behaviour of C, a read outside a buffer or a null dereference, is the
  result \<open>None\<close>. Loops are total functions with a measure, so no fuel is chosen anywhere; two loops of \<open>Net_Conn\<close>, which an odd TLS
  session could keep spinning, are partial functions whose theorems state that they return; the polling
  loop of the parser runs over the list of rounds the environment gives it, and a copy of a bridge over the results of its system
  calls: a list that runs out is a call that blocks, and the theorems say how much is enough for the copy to return.

  \<^bold>\<open>Parameters.\<close> Code outside the sources is an argument: cJSON (\<open>cjson_laws\<close>), the hash table of the relay set
  (\<open>table_laws\<close>), the Rust bridge (tokens, SIWE, descriptor signatures, hostname hash, HTTP polls), OpenSSL
  and SHA-256, libcurl and libsecp256k1 of the SDK, the square root of the load weights, the program
  behind the local proxy, the shell and the commands it runs, the DNS services and the resolver, random numbers, the clock. Hypotheses about them are named predicates, and each has an
  instance that a witness uses (\<open>tree_json\<close>, \<open>list_table\<close>, the sample environments). Widths are kept where the code
  depends on them: bytes, the 64-bit hash of a binding, IPv4 addresses, the length of a base64 field,
  buffers filled by \<open>snprintf\<close>. Times and counters that cannot wrap in practice are \<open>int\<close>. A conversion of an
  integer to a double rounds above $2^{53}$.

  \<^bold>\<open>Not modelled.\<close> The QUIC callbacks of ngtcp2 and the loop that logs backhaul datagrams are I/O around a library; socket set-up, the
  tables of routes given to the HTTP framework and logging hold no state of their own; \<^verbatim>\<open>src/discovery/relay_set.c\<close> is an earlier
  variant that is not built; the demo is a page of the framework. The deferred free list
  \<^verbatim>\<open>src/mem/gc.c\<close> wraps the allocator of a library.
\<close>

section \<open>A connection from its first bytes to its signature\<close>

lemma route_claims:
  assumes lease: "lr_hop_next_overlay_ipv4 rec = None" "lr_stream rec = Some s" "wf_stream s" "rs_ready s = sess # rest"
    and sent: "he_sent env (2 # he_rand env)"
  shows "\<exists>srv'. route_record sha256 env srv rec fd = Some srv' \<and>
    sv_bridges srv' = sv_bridges srv @
      [\<lparr>br_client_fd = fd, br_target = To_session sess (he_rand env), br_bps_limit = lr_bps_limit rec\<rparr>] \<and>
    Some (sv_bindings srv', he_rand env) =
      portillia_bindings_issue sha256 (sv_bindings srv) (Some (lr_identity_key rec)) [] (Some (he_rand env)) (he_clock env)"
  using assms
  by (auto simp: route_record_def relay_stream_claim_def stream_pop_def wf_stream_def portillia_bindings_issue_def Let_def
      start_bridge_def set_stream_def)

lemma fresh_binding_signs:
  assumes wf: "wf_bindings reg" "binding_lookup reg b = None" and hello: "hello \<noteq> []" "\<not> binding_hash_is_zero (sha256 hello)"
    and issue: "portillia_bindings_issue sha256 reg (Some lease) [] (Some b) t0 = Some (reg', b)"
    and times: "timespec_before t1 (fst t0 + r_ttl_seconds reg, snd t0)" "timespec_before t2 (fst t0 + r_ttl_seconds reg, snd t0)"
    and size: "length b = 16"
  shows "case portillia_bindings_fix_hello sha256 reg' b hello t1 of (reg1, pinned) \<Rightarrow>
    case portillia_bindings_validate_and_consume sha256 reg1 b (Some lease) hello t2 of (reg2, accepted) \<Rightarrow>
      pinned = PORTILLIA_BINDING_OK \<and> accepted = PORTILLIA_BINDING_OK \<and> binding_lookup reg2 b = None"
proof -
  let ?e = "\<lparr>b_binding = b, b_lease_id = lease, b_expires_at = (fst t0 + r_ttl_seconds reg, snd t0), b_hello_hash = replicate 32 0\<rparr>"
  have reg': "reg' = binding_link ?e reg" using issue by (simp add: portillia_bindings_issue_def Let_def)
  have wf': "wf_bindings reg'" using registry.invar_link [OF wf(1), of ?e] wf(2) by (simp add: reg')
  have "binding_lookup reg' b = Some ?e" using registry.lookup_link [OF wf(1), of ?e b] by (simp add: reg')
  moreover have "binding_lookup (binding_pin b (sha256 hello) reg') b = Some (?e\<lparr>b_hello_hash := sha256 hello\<rparr>)"
    using registry.lookup_pin [OF wf', of b "sha256 hello" b] \<open>binding_lookup reg' b = Some ?e\<close> by simp
  ultimately show ?thesis
    using hello times size registry.lookup_unlink [OF registry.invar_pin [OF wf'], of b b "sha256 hello" b]
    by (simp add: portillia_bindings_fix_hello_def portillia_bindings_validate_and_consume_def)
qed

text \<open>C1. The life of a tunnelled connection, across the SNI parser, the lease registry, the reverse sessions and
  the binding registry. A browser sends a ClientHello cut into TLS records in any accepted way; the
  name parsed from the records is the hostname of a live lease that has a reverse session waiting.
  Then the connection is bridged to the oldest such session under a new binding, the ClientHello
  that passes by can be pinned to the binding, and within the lifetime of the binding a signing
  request of that lease for that ClientHello is accepted; afterwards the binding is gone.\<close>

theorem tunnelled_connection_signs:
  assumes hello: "hello_fragments hello fs" "parse_client_hello_record hello = Some (Some name)"
      "\<not> binding_hash_is_zero (sha256 hello)"
    and srv: "registry_inv (sv_registry srv)" "wf_bindings (sv_bindings srv)"
      "bytes_to_cstring name \<noteq> rg_root_hostname (sv_registry srv)"
    and lease: "rec \<in> set (rg_records (sv_registry srv))" "lr_hostname rec = Some (bytes_to_cstring name)"
      "unexpired (he_now env) rec" "lr_hop_next_overlay_ipv4 rec = None" "lr_stream rec = Some s" "rs_ready s = sess # rest"
    and binding: "he_sent env (2 # he_rand env)" "length (he_rand env) = 16"
      "binding_lookup (sv_bindings srv) (he_rand env) = None"
    and times: "timespec_before t1 (fst (he_clock env) + r_ttl_seconds (sv_bindings srv), snd (he_clock env))"
      "timespec_before t2 (fst (he_clock env) + r_ttl_seconds (sv_bindings srv), snd (he_clock env))"
  shows "parse_client_hello_stream (concat (map (tls_record ver) fs) @ post) = Some (Some name, False) \<and>
    (\<exists>srv'. portillia_server_handle_connect sha256 hash env srv (bytes_to_cstring name) fd = Some srv' \<and>
      sv_bridges srv' = sv_bridges srv @
        [\<lparr>br_client_fd = fd, br_target = To_session sess (he_rand env), br_bps_limit = lr_bps_limit rec\<rparr>] \<and>
      (case portillia_bindings_fix_hello sha256 (sv_bindings srv') (he_rand env) hello t1 of (reg1, pinned) \<Rightarrow>
       case portillia_bindings_validate_and_consume sha256 reg1 (he_rand env) (Some (lr_identity_key rec)) hello t2 of
         (reg2, accepted) \<Rightarrow> pinned = PORTILLIA_BINDING_OK \<and> accepted = PORTILLIA_BINDING_OK \<and>
           binding_lookup reg2 (he_rand env) = None))"
proof -
  have "wf_record rec" using srv(1) lease(1) by (auto simp: registry_inv_def records_inv_def list_all_iff)
  then have wf: "wf_stream s" using lease(5) by (auto simp: wf_record_def)
  have ne: "hello \<noteq> []" using hello(1) by (auto simp: hello_fragments_def hello_message_def)
  obtain srv' where srv': "route_record sha256 env srv rec fd = Some srv'"
    "sv_bridges srv' = sv_bridges srv @
      [\<lparr>br_client_fd = fd, br_target = To_session sess (he_rand env), br_bps_limit = lr_bps_limit rec\<rparr>]"
    "portillia_bindings_issue sha256 (sv_bindings srv) (Some (lr_identity_key rec)) [] (Some (he_rand env)) (he_clock env) =
      Some (sv_bindings srv', he_rand env)"
    using route_claims [OF lease(4,5) wf lease(6) binding(1), of sha256 srv fd] by auto
  have "portillia_server_handle_connect sha256 hash env srv (bytes_to_cstring name) fd = Some srv'"
    using srv(3) srv'(1) lookup_exact [OF srv(1) lease(1-3), of hash] by (simp add: portillia_server_handle_connect_def)
  moreover note fresh_binding_signs [OF srv(2) binding(3) ne hello(3) srv'(3) times binding(2)]
  ultimately show ?thesis using fragmentation [OF hello(1), of ver post] hello(2) srv'(2) by auto
qed

definition tunnel_record :: lease_record where
  "tunnel_record = (new_lease 0 1000 ''a.io'' ''0xB'' 0 None None None)
     \<lparr>lr_stream := Some \<lparr>rs_ready = [\<lparr>ss_fd = 9, ss_ssl = None, ss_created_at = 1100\<rparr>], rs_count = 1, rs_stop = False\<rparr>\<rparr>"

definition tunnel_server :: portillia_server where
  "tunnel_server = (portillia_server_setup ''relay.example'' 4017 None)
     \<lparr>sv_registry := \<lparr>rg_records = [tunnel_record], rg_root_hostname = ''relay.example'', rg_next_addr = 1\<rparr>\<rparr>"

lemma tunnel_server_ok:
  "registry_inv (sv_registry tunnel_server)" "wf_bindings (sv_bindings tunnel_server)"
  "binding_lookup (sv_bindings tunnel_server) b = None" "r_ttl_seconds (sv_bindings tunnel_server) = 300"
  "rg_records (sv_registry tunnel_server) = [tunnel_record]" "rg_root_hostname (sv_registry tunnel_server) = ''relay.example''"
  by (simp_all add: tunnel_server_def tunnel_record_def portillia_server_setup_def registry_inv_def records_inv_def new_lease_def
      wf_record_def wf_stream_def READY_LIMIT_def MAX_RECORDS_def) (simp add: portillia_bindings_new_def)

theorem tunnelled_connection_signs_witness:
  "parse_client_hello_stream (concat (map (tls_record (3, 1)) [take 10 sample_hello, drop 10 sample_hello]) @ []) =
     Some (Some [97, 46, 105, 111], False) \<and>
   (\<exists>srv'. portillia_server_handle_connect (\<lambda>m. 1 # m) (\<lambda>_. None) sample_env tunnel_server ''a.io'' 4 = Some srv' \<and>
     sv_bridges srv' = [\<lparr>br_client_fd = 4, br_target = To_session \<lparr>ss_fd = 9, ss_ssl = None, ss_created_at = 1100\<rparr> (replicate 16 7),
       br_bps_limit = 0\<rparr>])"
proof -
  have name: "bytes_to_cstring [97, 46, 105, 111] = ''a.io''" by code_simp
  have env: "he_sent sample_env (2 # he_rand sample_env)" "length (he_rand sample_env) = 16" "he_clock sample_env = (1200, 0)"
    "he_now sample_env = 1200" "he_rand sample_env = replicate 16 7"
    by (simp_all add: sample_env_def)
  have rec: "tunnel_record \<in> set (rg_records (sv_registry tunnel_server))" "lr_hostname tunnel_record = Some ''a.io''"
    "unexpired 1200 tunnel_record" "lr_hop_next_overlay_ipv4 tunnel_record = None"
    "lr_stream tunnel_record = Some \<lparr>rs_ready = [\<lparr>ss_fd = 9, ss_ssl = None, ss_created_at = 1100\<rparr>], rs_count = 1, rs_stop = False\<rparr>"
    "lr_bps_limit tunnel_record = 0"
    by (simp_all add: tunnel_server_ok tunnel_record_def new_lease_def unexpired_def)
  have "sv_bridges tunnel_server = []" by (simp add: tunnel_server_def portillia_server_setup_def)
  moreover note tunnelled_connection_signs [OF sample_hello_fragments sample_hello_host, of "\<lambda>m. 1 # m" tunnel_server tunnel_record
      sample_env _ "\<lparr>ss_fd = 9, ss_ssl = None, ss_created_at = 1100\<rparr>" "[]" "(1300, 0)" "(1400, 0)" "(3, 1)" "[]" "\<lambda>_. None" 4,
      unfolded name env(3,4) tunnel_server_ok(4), OF _ tunnel_server_ok(1,2) _ rec(1-5) _ env(1,2) tunnel_server_ok(3)]
  ultimately show ?thesis
    by (auto simp: binding_hash_is_zero_def tunnel_server_ok(6) timespec_before_def env(5) rec(6))
qed

end
